(* ===== verification/Prelude.thy ===== *)
theory Prelude
  imports
    Main
    "HOL-Library.Word"
    "HOL-Library.AList"
    "HOL-Library.Multiset"
    "HOL-Library.List_Lexorder"
    "HOL-Library.Char_ord"
    "HOL-Library.Product_Lexorder"
    "HOL-Library.Option_ord"
begin

text \<open>
  Shared vocabulary of the development: the machine integers of the Rust sources at their
  width, with the saturating and checked operations the code calls; \<open>HashMap\<close> as an
  association list with distinct keys, \<open>BTreeSet\<close> as a strictly sorted list, \<open>VecDeque\<close> as a
  list; the bounded first-in-first-out window that many components of the program implement
  (a table of keys with a queue that remembers their insertion order), first as a list function and then
  as the interface \<open>fifo_window\<close>; and the rule that lifts a step invariant to all reachable
  states, as the interface \<open>step_system\<close>.
\<close>

section \<open>Machine integers\<close>

type_synonym u8 = "8 word"
type_synonym u16 = "16 word"
type_synonym u32 = "32 word"
type_synonym u64 = "64 word"
type_synonym bytes = "8 word list"

text \<open>
  \<open>usize\<close> counts elements of collections that are in memory; it is modelled as \<open>nat\<close>.
  \<open>i32\<close> scores are \<open>int\<close>, with the saturation of \<open>i32::saturating_add\<close> written out.
\<close>

definition sat_add :: "'a::len word \<Rightarrow> 'a word \<Rightarrow> 'a word" where
  "sat_add a b = (if unat a + unat b < 2 ^ LENGTH('a) then a + b else - 1)"

definition sat_sub :: "'a::len word \<Rightarrow> 'a word \<Rightarrow> 'a word" where
  "sat_sub a b = (if b \<le> a then a - b else 0)"

definition checked_add :: "'a::len word \<Rightarrow> 'a word \<Rightarrow> 'a word option" where
  "checked_add a b = (if unat a + unat b < 2 ^ LENGTH('a) then Some (a + b) else None)"

definition i32_sat_add :: "int \<Rightarrow> int \<Rightarrow> int" where
  "i32_sat_add a b = max (- (2 ^ 31)) (min (2 ^ 31 - 1) (a + b))"

definition clamp_int :: "int \<Rightarrow> int \<Rightarrow> int \<Rightarrow> int" where
  "clamp_int lo hi x = (if x < lo then lo else if hi < x then hi else x)"

section \<open>Maps, sets and queues of the standard library\<close>

text \<open>
  A \<open>HashMap\<close> is an association list whose keys are distinct. Its iteration order is the list's
  order; where the order can be observed, the components say how it is left open.
\<close>

type_synonym ('k, 'v) hmap = "('k \<times> 'v) list"

abbreviation hm_get :: "('k, 'v) hmap \<Rightarrow> 'k \<Rightarrow> 'v option" where
  "hm_get m k \<equiv> map_of m k"

abbreviation hm_contains :: "('k, 'v) hmap \<Rightarrow> 'k \<Rightarrow> bool" where
  "hm_contains m k \<equiv> map_of m k \<noteq> None"

abbreviation hm_insert :: "'k \<Rightarrow> 'v \<Rightarrow> ('k, 'v) hmap \<Rightarrow> ('k, 'v) hmap" where
  "hm_insert k v m \<equiv> AList.update k v m"

abbreviation hm_remove :: "'k \<Rightarrow> ('k, 'v) hmap \<Rightarrow> ('k, 'v) hmap" where
  "hm_remove k m \<equiv> AList.delete k m"

abbreviation hm_retain :: "('k \<Rightarrow> 'v \<Rightarrow> bool) \<Rightarrow> ('k, 'v) hmap \<Rightarrow> ('k, 'v) hmap" where
  "hm_retain P m \<equiv> filter (\<lambda>(k, v). P k v) m"

abbreviation hm_values :: "('k, 'v) hmap \<Rightarrow> 'v list" where
  "hm_values m \<equiv> map snd m"

abbreviation hm_wf :: "('k, 'v) hmap \<Rightarrow> bool" where
  "hm_wf m \<equiv> distinct (map fst m)"

abbreviation keys :: "('k, 'v) hmap \<Rightarrow> 'k set" where
  "keys m \<equiv> fst ` set m"

text \<open>A \<open>BTreeSet\<close> is the strictly increasing list of its elements.\<close>

abbreviation bset_insert :: "'a::linorder \<Rightarrow> 'a list \<Rightarrow> 'a list" where
  "bset_insert x xs \<equiv> insort_insert x xs"

abbreviation bset_remove :: "'a \<Rightarrow> 'a list \<Rightarrow> 'a list" where
  "bset_remove x xs \<equiv> filter (\<lambda>y. y \<noteq> x) xs"

abbreviation bset_wf :: "'a::linorder list \<Rightarrow> bool" where
  "bset_wf xs \<equiv> sorted xs \<and> distinct xs"

text \<open>A \<open>BTreeMap\<close> is the association list of its entries, its keys strictly increasing.\<close>

fun bmap_insert :: "'k::linorder \<Rightarrow> 'v \<Rightarrow> ('k, 'v) hmap \<Rightarrow> ('k, 'v) hmap" where
  "bmap_insert k v [] = [(k, v)]"
| "bmap_insert k v ((k', v') # m) =
     (if k < k' then (k, v) # (k', v') # m
      else if k = k' then (k, v) # m
      else (k', v') # bmap_insert k v m)"

abbreviation bmap_wf :: "('k::linorder, 'v) hmap \<Rightarrow> bool" where
  "bmap_wf m \<equiv> sorted (map fst m) \<and> distinct (map fst m)"

fun min_opt :: "'a::linorder list \<Rightarrow> 'a option" where
  "min_opt [] = None"
| "min_opt (x # xs) = (case min_opt xs of None \<Rightarrow> Some x | Some y \<Rightarrow> Some (min x y))"

text \<open>\<open>Iterator::rposition\<close>: the index of the last element that satisfies the predicate.\<close>

fun rposition :: "('a \<Rightarrow> bool) \<Rightarrow> 'a list \<Rightarrow> nat option" where
  "rposition P [] = None"
| "rposition P (x # xs) =
     (case rposition P xs of
        Some i \<Rightarrow> Some (Suc i)
      | None \<Rightarrow> if P x then Some 0 else None)"

text \<open>
  The bounded first-in-first-out window: a new key is appended and the oldest keys leave until at most
  \<open>cap\<close> remain; a key that is present changes nothing.
\<close>

definition window_push :: "nat \<Rightarrow> 'k \<Rightarrow> 'k list \<Rightarrow> 'k list" where
  "window_push cap k q =
     (if k \<in> set q then q else drop (Suc (length q) - cap) (q @ [k]))"

text \<open>
  A table with its insertion queue: both hold the same keys, each once, and at most \<open>cap\<close> of them.
  \<open>fifo_room\<close> is the table and the queue after the eviction loop that precedes an insertion.
\<close>

definition fifo_ok :: "nat \<Rightarrow> ('k, 'v) hmap \<Rightarrow> 'k list \<Rightarrow> bool" where
  "fifo_ok cap m q \<longleftrightarrow> hm_wf m \<and> distinct q \<and> set q = keys m \<and> length m \<le> cap"

definition fifo_room :: "nat \<Rightarrow> ('k, 'v) hmap \<Rightarrow> 'k list \<Rightarrow> ('k, 'v) hmap \<times> 'k list" where
  "fifo_room cap m q = (if length m < cap then (m, q) else (hm_remove (hd q) m, tl q))"

section \<open>Lemmas on machine integers\<close>

lemma unat_sat_add [simp]:
  fixes a b :: "'a::len word"
  shows "unat (sat_add a b) = min (2 ^ LENGTH('a) - 1) (unat a + unat b)"
proof (cases "unat a + unat b < 2 ^ LENGTH('a)")
  case True
  then show ?thesis
    by (simp add: sat_add_def unat_word_ariths)
next
  case False
  then have "unat (sat_add a b) = 2 ^ LENGTH('a) - 1"
    by (simp add: sat_add_def unsigned_minus_1_eq_mask mask_eq_exp_minus_1)
  with False show ?thesis by simp
qed

lemma le_sat_add [simp]:
  fixes a b :: "'a::len word"
  shows "a \<le> sat_add a b"
proof -
  have "unat a < 2 ^ LENGTH('a)" by (rule unsigned_less)
  then have "unat a \<le> min (2 ^ LENGTH('a) - 1) (unat a + unat b)" by linarith
  then show ?thesis by (simp only: word_le_nat_alt unat_sat_add)
qed

lemma unat_sat_sub [simp]: "unat (sat_sub a b) = unat a - unat b"
  by (auto simp: sat_sub_def word_le_nat_alt unat_sub)

lemma checked_add_Some_iff:
  "checked_add a b = Some (c :: 'a::len word) \<longleftrightarrow>
     unat c = unat a + unat b"
proof
  assume "checked_add a b = Some c"
  then show "unat c = unat a + unat b"
    by (auto simp: checked_add_def unat_word_ariths split: if_splits)
next
  assume c: "unat c = unat a + unat b"
  then have lt: "unat a + unat b < 2 ^ LENGTH('a)"
    by (metis unsigned_less)
  with c have "unat c = unat (a + b)"
    by (simp add: unat_word_ariths)
  then have "c = a + b" by (rule unsigned_word_eqI)
  with lt show "checked_add a b = Some c" by (simp add: checked_add_def)
qed

lemma sat_add_mono:
  fixes a b c :: "'a::len word"
  shows "a \<le> b \<Longrightarrow> sat_add a c \<le> sat_add b c"
  by (simp add: word_le_nat_alt min.coboundedI2 min.mono)

lemma clamp_int_bounds: "lo \<le> hi \<Longrightarrow> lo \<le> clamp_int lo hi x \<and> clamp_int lo hi x \<le> hi"
  by (simp add: clamp_int_def)

section \<open>Lemmas on maps, sets and queues\<close>

declare map_of_eq_Some_iff [simp del] Some_eq_map_of_iff [simp del]

lemma image_insert_subset: "A \<subseteq> insert x B \<Longrightarrow> f ` A \<subseteq> insert (f x) (f ` B)"
  by blast

lemma hm_get_in_keys: "hm_get m k = Some v \<Longrightarrow> k \<in> keys m"
  by (metis domI dom_map_of_conv_image_fst)

lemma hm_contains_iff [simp]: "(\<exists>v. map_of m k = Some v) \<longleftrightarrow> k \<in> keys m"
  by (metis hm_get_in_keys map_of_eq_None_iff not_Some_eq)

lemma hm_keysE: "k \<in> keys m \<Longrightarrow> (\<And>v. map_of m k = Some v \<Longrightarrow> P) \<Longrightarrow> P"
  unfolding hm_contains_iff[symmetric] by blast

lemma hm_get_None_iff [simp]: "map_of m k = None \<longleftrightarrow> k \<notin> keys m"
  by (simp add: map_of_eq_None_iff)

lemma hm_get_notin [simp]: "k \<notin> keys m \<Longrightarrow> map_of m k = None"
  by simp

lemma hm_get_iff: "hm_wf m \<Longrightarrow> map_of m k = Some v \<longleftrightarrow> (k, v) \<in> set m"
  by (rule map_of_eq_Some_iff)

lemma keys_insert [simp]: "keys (hm_insert k v m) = insert k (keys m)"
  by (induction m) auto

lemma keys_remove [simp]: "keys (hm_remove k m) = keys m - {k}"
  by (auto simp: AList.delete_eq image_iff)

lemma hm_wf_insert [simp]: "hm_wf m \<Longrightarrow> hm_wf (hm_insert k v m)"
  by (rule distinct_update)

lemma hm_wf_remove [simp]: "hm_wf m \<Longrightarrow> hm_wf (hm_remove k m)"
  by (rule distinct_delete)

lemma hm_wf_filter [simp]: "hm_wf m \<Longrightarrow> hm_wf (filter P m)"
  by (simp add: distinct_map_filter)

lemma hm_get_insert [simp]: "map_of (hm_insert k v m) k' = (if k' = k then Some v else map_of m k')"
  by (simp add: update_conv')

lemma hm_get_remove [simp]: "map_of (hm_remove k m) k' = (if k' = k then None else map_of m k')"
  by (simp add: delete_conv')

lemma hm_get_retain:
  "hm_wf m \<Longrightarrow>
     map_of (hm_retain P m) k =
       (case map_of m k of None \<Rightarrow> None | Some v \<Rightarrow> if P k v then Some v else None)"
  by (induction m) (auto split: option.splits simp: image_iff)

lemma keys_retain:
  "hm_wf m \<Longrightarrow> keys (hm_retain P m) = {k. \<exists>v. map_of m k = Some v \<and> P k v}"
  by (auto simp: hm_get_iff image_iff)

lemma keys_retain_subset: "keys (filter P m) \<subseteq> keys m"
  by auto

lemma length_hm_insert:
  "length (hm_insert k v m) = (if k \<in> keys m then length m else Suc (length m))"
  by (induction m) auto

lemma set_hm_insert:
  "hm_wf m \<Longrightarrow> set (hm_insert k v m) = insert (k, v) {p \<in> set m. fst p \<noteq> k}"
  by (induction m) (auto simp: image_iff)

lemma set_hm_insert_subset: "set (hm_insert k v m) \<subseteq> insert (k, v) (set m)"
  by (induction m) auto

lemma set_hm_remove: "set (hm_remove k m) = {p \<in> set m. fst p \<noteq> k}"
  by (auto simp: AList.delete_eq)

lemma length_hm_remove_le: "length (hm_remove k m) \<le> length m"
  by (simp add: AList.delete_eq)

lemma length_hm_remove:
  "hm_wf m \<Longrightarrow> k \<in> keys m \<Longrightarrow> Suc (length (hm_remove k m)) = length m"
proof (induction m)
  case Nil
  then show ?case by simp
next
  case (Cons p m)
  show ?case
  proof (cases "fst p = k")
    case True
    with Cons.prems have "k \<notin> keys m" by auto
    then have "hm_remove k m = m" by (rule delete_id)
    with True show ?thesis by (cases p) simp
  next
    case False
    with Cons show ?thesis by (cases p) auto
  qed
qed

lemma length_keys: "hm_wf m \<Longrightarrow> length m = card (keys m)"
  by (metis distinct_card length_map set_map)

lemma keys_length_eq:
  "hm_wf m \<Longrightarrow> distinct q \<Longrightarrow> set q = keys m \<Longrightarrow> length m = length q"
  by (metis length_keys distinct_card)

lemma sum_list_hm_remove:
  "hm_wf m \<Longrightarrow> map_of m k = Some v \<Longrightarrow>
     sum_list (map f m) = (f (k, v) :: nat) + sum_list (map f (hm_remove k m))"
proof (induction m)
  case Nil
  then show ?case by simp
next
  case (Cons p m)
  show ?case
  proof (cases "fst p = k")
    case True
    with Cons.prems have "k \<notin> keys m" by auto
    then have "hm_remove k m = m" by (rule delete_id)
    with True Cons.prems show ?thesis by (cases p) simp
  next
    case False
    with Cons show ?thesis by (cases p) auto
  qed
qed

lemma sum_list_hm_insert_new:
  "k \<notin> keys m \<Longrightarrow> sum_list (map f (hm_insert k v m)) = (f (k, v) :: nat) + sum_list (map f m)"
  by (induction m) auto

lemma sum_list_hm_insert:
  "hm_wf m \<Longrightarrow> map_of m k = Some w \<Longrightarrow>
     sum_list (map f (hm_insert k v m)) + f (k, w) = (f (k, v) :: nat) + sum_list (map f m)"
  by (induction m) (auto simp: image_iff)

lemma mset_keys: "mset m = mset m' \<Longrightarrow> keys m = keys m'"
  by (metis mset_eq_setD)

lemma mset_hm_wf: "mset m = mset m' \<Longrightarrow> hm_wf m = hm_wf m'"
  by (metis mset_eq_imp_distinct_iff mset_map)

lemma mset_hm_get: "mset m = mset m' \<Longrightarrow> hm_wf m \<Longrightarrow> map_of m k = map_of m' k"
  by (metis map_of_eqI mset_eq_setD mset_hm_wf hm_get_iff not_None_eq)

lemma mset_hm_sum: "mset m = mset m' \<Longrightarrow> sum_list (map f m) = (sum_list (map f m') :: nat)"
  by (metis mset_map sum_mset_sum_list)

lemma bset_wf_insert [simp]: "bset_wf xs \<Longrightarrow> bset_wf (bset_insert x xs)"
  by (simp add: distinct_insort_insert sorted_insort_insert)

lemma length_bset_insert:
  "length (bset_insert x xs) = (if x \<in> set xs then length xs else Suc (length xs))"
  by (simp add: insort_insert_key_def)

lemma keys_bmap_insert [simp]: "keys (bmap_insert k v m) = insert k (keys m)"
  by (induction k v m rule: bmap_insert.induct) auto

lemma map_of_bmap_insert:
  "bmap_wf m \<Longrightarrow> map_of (bmap_insert k v m) = (map_of m)(k \<mapsto> v)"
  by (induction k v m rule: bmap_insert.induct) (auto simp: fun_eq_iff)

lemma bmap_wf_insert: "bmap_wf m \<Longrightarrow> bmap_wf (bmap_insert k v m)"
  by (induction k v m rule: bmap_insert.induct) (force simp: image_iff)+

lemma min_opt_None [simp]: "min_opt xs = None \<longleftrightarrow> xs = []"
  by (cases xs) (auto split: option.splits)

lemma min_opt_Some:
  "min_opt xs = Some m \<Longrightarrow> m \<in> set xs \<and> (\<forall>x \<in> set xs. m \<le> x)"
  by (induction xs arbitrary: m) (fastforce split: option.splits simp: min_def)+

lemma rposition_None: "rposition P xs = None \<longleftrightarrow> (\<forall>x \<in> set xs. \<not> P x)"
  by (induction xs) (auto split: option.splits if_splits)

lemma rposition_Some:
  "rposition P xs = Some i \<Longrightarrow>
     i < length xs \<and> P (xs ! i) \<and> (\<forall>j. i < j \<and> j < length xs \<longrightarrow> \<not> P (xs ! j))"
proof (induction xs arbitrary: i)
  case Nil
  then show ?case by simp
next
  case (Cons x xs)
  show ?case
  proof (cases "rposition P xs")
    case None
    then have "\<forall>y \<in> set xs. \<not> P y" by (simp add: rposition_None)
    with Cons.prems None show ?thesis
      by (auto split: if_splits simp: nth_Cons set_conv_nth split: nat.splits)
  next
    case (Some k)
    with Cons show ?thesis
      by (auto simp: nth_Cons split: nat.splits)
  qed
qed

section \<open>Tables with an insertion queue\<close>

lemma fifo_ok_empty [simp]: "fifo_ok cap [] []"
  by (simp add: fifo_ok_def)

lemma fifo_ok_length: "fifo_ok cap m q \<Longrightarrow> length m = length q"
  by (auto simp: fifo_ok_def intro: keys_length_eq)

lemma fifo_ok_filter:
  assumes "fifo_ok cap m q"
  shows "fifo_ok cap (filter P m) (filter (hm_contains (filter P m)) q)"
proof -
  have "length (filter P m) \<le> length m" by (rule length_filter_le)
  then have "length (filter P m) \<le> cap" using assms unfolding fifo_ok_def by linarith
  then show ?thesis using assms by (auto simp: fifo_ok_def)
qed

lemma fifo_ok_update: "fifo_ok cap m q \<Longrightarrow> k \<in> keys m \<Longrightarrow> fifo_ok cap (hm_insert k v m) q"
  by (auto simp: fifo_ok_def length_hm_insert)

lemma fifo_ok_room:
  assumes "fifo_ok cap m q" and "0 < cap" and "fifo_room cap m q = (m', q')"
  shows "fifo_ok cap m' q'" and "length m' < cap" and "set m' \<subseteq> set m" and "keys m' \<subseteq> keys m"
proof -
  have "fifo_ok cap m' q' \<and> length m' < cap \<and> set m' \<subseteq> set m"
  proof (cases "length m < cap")
    case True
    then show ?thesis using assms by (simp add: fifo_room_def)
  next
    case False
    then have "q \<noteq> []" using assms fifo_ok_length[of cap m q] by auto
    then obtain k rest where q: "q = k # rest" by (cases q) auto
    have m': "m' = hm_remove k m" "q' = rest"
      using assms(3) False q by (auto simp: fifo_room_def)
    have "k \<in> keys m" "hm_wf m" using assms(1) q by (auto simp: fifo_ok_def)
    then have "Suc (length m') = length m" using m' by (simp add: length_hm_remove)
    then show ?thesis
      using assms(1) q m' by (auto simp: fifo_ok_def set_hm_remove)
  qed
  then show "fifo_ok cap m' q'" "length m' < cap" "set m' \<subseteq> set m" "keys m' \<subseteq> keys m" by auto
qed

lemma fifo_ok_push:
  "fifo_ok cap m q \<Longrightarrow> length m < cap \<Longrightarrow> k \<notin> keys m \<Longrightarrow> fifo_ok cap (hm_insert k v m) (q @ [k])"
  by (auto simp: fifo_ok_def length_hm_insert)

lemma fifo_room_window:
  assumes "fifo_ok cap m q" and "0 < cap" and "fifo_room cap m q = (m', q')" and "k \<notin> keys m"
  shows "q' @ [k] = window_push cap k q"
  using assms fifo_ok_length[OF assms(1)]
  by (cases q) (auto simp: fifo_room_def window_push_def fifo_ok_def not_less split: if_splits)

lemma mset_fifo_ok: "mset m = mset m' \<Longrightarrow> fifo_ok cap m q = fifo_ok cap m' q"
  unfolding fifo_ok_def by (metis mset_hm_wf mset_keys mset_eq_length)

section \<open>The bounded window\<close>

lemma window_push_distinct: "distinct q \<Longrightarrow> distinct (window_push cap k q)"
  unfolding window_push_def by (simp add: distinct_drop del: drop_append)

lemma window_push_length:
  "length q \<le> cap \<Longrightarrow> length (window_push cap k q) \<le> cap"
  by (auto simp: window_push_def)

lemma window_push_set: "set (window_push cap k q) \<subseteq> insert k (set q)"
  by (auto simp: window_push_def dest: in_set_dropD)

lemma window_push_mem: "0 < cap \<Longrightarrow> length q \<le> cap \<Longrightarrow> k \<in> set (window_push cap k q)"
  by (auto simp: window_push_def)

text \<open>A key that has \<open>n\<close> younger keys survives every push as long as \<open>n + 1 < cap\<close>.\<close>

lemma window_push_survives:
  assumes "q = xs @ x # ys" and "Suc (length ys) < cap"
  shows "\<exists>xs' ys'. window_push cap k q = xs' @ x # ys' \<and> length ys' \<le> Suc (length ys)"
proof (cases "k \<in> set q")
  case True
  then have "window_push cap k q = xs @ x # ys" using assms(1) by (simp add: window_push_def)
  then show ?thesis by (metis le_SucI order_refl)
next
  case False
  let ?n = "Suc (length q) - cap"
  have "?n \<le> length xs" using assms by simp
  then have "window_push cap k q = drop ?n xs @ x # (ys @ [k])"
    using False assms(1) by (simp add: window_push_def)
  moreover have "length (ys @ [k]) \<le> Suc (length ys)" by simp
  ultimately show ?thesis by blast
qed

lemma window_push_fold_survives:
  assumes "q = xs @ x # ys" and "length ys + length ks < cap"
  shows "x \<in> set (fold (window_push cap) ks q)"
  using assms
proof (induction ks arbitrary: q xs ys)
  case Nil
  then show ?case by simp
next
  case (Cons k ks)
  then obtain xs' ys' where
    "window_push cap k q = xs' @ x # ys'" and "length ys' \<le> Suc (length ys)"
    using window_push_survives[of q xs x ys cap k] by auto
  with Cons.IH[of "window_push cap k q" xs' ys'] Cons.prems(2) show ?case by simp
qed

text \<open>
  The interface of a bounded window over an arbitrary state: \<open>ins\<close> admits an element, \<open>key\<close> is
  the identity under which it is remembered, \<open>order\<close> the keys from oldest to youngest. The
  one law says that an admission refines \<^const>\<open>window_push\<close>; the rest follows.
\<close>

locale fifo_window =
  fixes ins :: "'x \<Rightarrow> 's \<Rightarrow> 's"
    and key :: "'x \<Rightarrow> 'k"
    and order :: "'s \<Rightarrow> 'k list"
    and cap :: nat
    and invar :: "'s \<Rightarrow> bool"
  assumes invar_ins: "invar s \<Longrightarrow> invar (ins x s)"
    and order_ins: "invar s \<Longrightarrow> order (ins x s) = window_push cap (key x) (order s)"
    and invar_order: "invar s \<Longrightarrow> distinct (order s) \<and> length (order s) \<le> cap"
    and cap_pos: "0 < cap"
begin

lemma invar_fold: "invar s \<Longrightarrow> invar (fold ins xs s)"
  by (induction xs arbitrary: s) (simp_all add: invar_ins)

lemma order_fold:
  "invar s \<Longrightarrow> order (fold ins xs s) = fold (window_push cap) (map key xs) (order s)"
  by (induction xs arbitrary: s) (simp_all add: invar_ins order_ins)

lemma ins_remembers: "invar s \<Longrightarrow> key x \<in> set (order (ins x s))"
  using invar_order[of s] window_push_mem[OF cap_pos, of "order s" "key x"]
  by (simp add: order_ins)

lemma window_bounded: "invar s \<Longrightarrow> length (order (fold ins xs s)) \<le> cap"
  using invar_order[OF invar_fold] by blast

text \<open>
  The window's guarantee: a newly admitted key is still known after fewer than \<open>cap\<close> further
  admissions, whatever they are.
\<close>

lemma window_guarantee:
  assumes "invar s" and "key x \<notin> set (order s)" and "length ys < cap"
  shows "key x \<in> set (order (fold ins ys (ins x s)))"
proof -
  let ?n = "Suc (length (order s)) - cap"
  have "?n \<le> length (order s)" using cap_pos by simp
  then have "order (ins x s) = drop ?n (order s) @ key x # []"
    using assms(1,2) by (simp add: order_ins window_push_def)
  then show ?thesis
    using window_push_fold_survives[of _ _ "key x" "[]" "map key ys" cap] assms(1,3)
    by (simp add: order_fold invar_ins)
qed

end

section \<open>Invariants of step systems\<close>

text \<open>
  A component as a transition system: \<open>start\<close> states, a step relation and a predicate that
  every step keeps. The predicate holds in all states that steps can reach.
\<close>

locale step_system =
  fixes start :: "'s \<Rightarrow> bool"
    and step :: "'s \<Rightarrow> 's \<Rightarrow> bool"
    and good :: "'s \<Rightarrow> bool"
  assumes good_start: "start s \<Longrightarrow> good s"
    and good_step: "step s t \<Longrightarrow> good s \<Longrightarrow> good t"
begin

lemma good_steps: "step\<^sup>*\<^sup>* s t \<Longrightarrow> good s \<Longrightarrow> good t"
  by (induction rule: rtranclp_induct) (auto dest: good_step)

lemma reachable_good: "start s \<Longrightarrow> step\<^sup>*\<^sup>* s t \<Longrightarrow> good t"
  using good_start good_steps by blast

end

end
