(* ===== verification/Events.thy ===== *)
theory Events
  imports Prelude
begin

text \<open>
  The core vocabulary of \<open>crates/nostr-pubsub/src/lib.rs\<close>: errors, verified events and the cache of
  successful signature checks, event sources and their default priorities, policy decisions,
  reports, filters and retention policies, provider modes. The \<open>nostr\<close> crate is third-party
  code: its event and filter values are records with the fields the code reads, and its functions are the fields of
  \<open>nostr_lib\<close>, an argument of every definition that calls one. What the code relies on is the
  predicate \<open>nostr_laws\<close>.
\<close>

section \<open>Data of the nostr crate\<close>

text \<open>
  Identifiers and keys are arrays of 32 bytes and signatures of 64; the model reads them as
  big-endian words, whose order is the lexicographic order of the arrays.
\<close>

type_synonym event_id = "256 word"
type_synonym pubkey = "256 word"
type_synonym signature = "512 word"

record event =
  ev_id :: event_id
  ev_pubkey :: pubkey
  ev_created_at :: u64
  ev_kind :: u16
  ev_tags :: "string list list"
  ev_content :: string
  ev_sig :: signature

record filter =
  f_ids :: "event_id list option"
  f_authors :: "pubkey list option"
  f_kinds :: "u16 list option"
  f_since :: "u64 option"
  f_until :: "u64 option"
  f_limit :: "nat option"
  f_tags :: "(char \<times> string list) list"

definition filter_new :: filter where
  "filter_new = \<lparr>f_ids = None, f_authors = None, f_kinds = None, f_since = None, f_until = None,
     f_limit = None, f_tags = []\<rparr>"

text \<open>
  The functions of the \<open>nostr\<close> and \<open>serde_json\<close> crates the sources call: \<open>Event::verify\<close> and its two halves,
  \<open>EventId::to_hex\<close> and \<open>EventId::from_hex\<close>, \<open>serde_json::to_vec\<close> of an event,
  \<open>Filter::match_event\<close> with default options, and \<open>Tags::identifier\<close>.
\<close>

record nostr_lib =
  verify :: "event \<Rightarrow> bool"
  verify_id :: "event \<Rightarrow> bool"
  verify_signature :: "event_id \<Rightarrow> pubkey \<Rightarrow> signature \<Rightarrow> bool"
  to_hex :: "event_id \<Rightarrow> string"
  from_hex :: "string \<Rightarrow> event_id option"
  event_json :: "event \<Rightarrow> bytes option"
  match_event :: "filter \<Rightarrow> event \<Rightarrow> bool"
  tags_identifier :: "string list list \<Rightarrow> string option"

section \<open>Errors and verified events\<close>

text \<open>
  A formatted message is represented by the constant text of its format string.
\<close>

datatype pubsub_error = Validation string | Storage string

datatype verified_event = VerifiedEvent (as_event: event)

definition try_from_event :: "nostr_lib \<Rightarrow> event \<Rightarrow> pubsub_error + verified_event" where
  "try_from_event lib e =
     (if verify lib e then Inr (VerifiedEvent e) else Inl (Validation ''invalid Nostr event''))"

definition VERIFICATION_CACHE_CAPACITY :: nat where
  "VERIFICATION_CACHE_CAPACITY = 512"

record event_verification_cache =
  vc_signatures :: "(event_id, signature) hmap"
  vc_order :: "event_id list"

definition vc_default :: event_verification_cache where
  "vc_default = \<lparr>vc_signatures = [], vc_order = []\<rparr>"

text \<open>The insertion after a full check: \<open>EventVerificationCache::verify\<close>, from \<open>contains_key\<close> on.\<close>

definition vc_remember :: "event_id \<Rightarrow> signature \<Rightarrow> event_verification_cache \<Rightarrow> event_verification_cache" where
  "vc_remember eid sg c =
     (let c1 =
        (if hm_contains (vc_signatures c) eid then c
         else
           (let c0 =
              (if length (vc_order c) = VERIFICATION_CACHE_CAPACITY
               then (case vc_order c of
                       [] \<Rightarrow> c
                     | oldest # rest \<Rightarrow>
                         c\<lparr>vc_order := rest, vc_signatures := hm_remove oldest (vc_signatures c)\<rparr>)
               else c)
            in c0\<lparr>vc_order := vc_order c0 @ [eid]\<rparr>))
      in c1\<lparr>vc_signatures := hm_insert eid sg (vc_signatures c1)\<rparr>)"

definition vc_verify ::
  "nostr_lib \<Rightarrow> event_verification_cache \<Rightarrow> event \<Rightarrow>
     (pubsub_error + verified_event) \<times> event_verification_cache" where
  "vc_verify lib c e =
     (let signature = ev_sig e in
      if hm_get (vc_signatures c) (ev_id e) = Some signature
      then if \<not> verify_id lib e
           then (Inl (Validation ''invalid Nostr event ID''), c)
           else (Inr (VerifiedEvent e), c)
      else case try_from_event lib e of
             Inl err \<Rightarrow> (Inl err, c)
           | Inr v \<Rightarrow> (Inr v, vc_remember (ev_id (as_event v)) signature c))"

section \<open>Sources, policies and reports\<close>

text \<open>The empty struct \<open>SourceHealth\<close> of a candidate has no field in the model.\<close>

type_synonym source_id = string

datatype event_source_kind = LocalIndex | Peer | FipsEndpoint | Relay

definition SOURCE_PRIORITY_LOCAL_INDEX :: int where "SOURCE_PRIORITY_LOCAL_INDEX = 300"
definition SOURCE_PRIORITY_FIPS_ENDPOINT :: int where "SOURCE_PRIORITY_FIPS_ENDPOINT = 200"
definition SOURCE_PRIORITY_PEER :: int where "SOURCE_PRIORITY_PEER = 100"
definition SOURCE_PRIORITY_RELAY :: int where "SOURCE_PRIORITY_RELAY = -100"

fun default_priority :: "event_source_kind \<Rightarrow> int" where
  "default_priority LocalIndex = SOURCE_PRIORITY_LOCAL_INDEX"
| "default_priority FipsEndpoint = SOURCE_PRIORITY_FIPS_ENDPOINT"
| "default_priority Peer = SOURCE_PRIORITY_PEER"
| "default_priority Relay = SOURCE_PRIORITY_RELAY"

record event_source =
  src_id :: source_id
  src_kind :: event_source_kind
  src_url :: "string option"

definition es_local_index :: "string \<Rightarrow> event_source" where
  "es_local_index i = \<lparr>src_id = i, src_kind = LocalIndex, src_url = None\<rparr>"

definition es_peer :: "string \<Rightarrow> event_source" where
  "es_peer i = \<lparr>src_id = i, src_kind = Peer, src_url = None\<rparr>"

definition es_fips_endpoint :: "string \<Rightarrow> event_source" where
  "es_fips_endpoint i = \<lparr>src_id = i, src_kind = FipsEndpoint, src_url = None\<rparr>"

definition es_relay :: "string \<Rightarrow> event_source" where
  "es_relay url = \<lparr>src_id = url, src_kind = Relay, src_url = Some url\<rparr>"

datatype policy_decision = Allow int | Throttle int string | Drop string

record source_candidate =
  cand_source :: event_source
  cand_priority :: int
  cand_reason :: "string option"
  cand_freshness_hint :: "u64 option"

text \<open>The trait \<open>PubsubPolicy\<close>: the two checks, which may fail.\<close>

record pubsub_policy =
  check_event :: "verified_event \<Rightarrow> event_source \<Rightarrow> pubsub_error + policy_decision"
  check_source :: "source_candidate \<Rightarrow> string option \<Rightarrow> string list \<Rightarrow> pubsub_error + policy_decision"

record publish_report =
  rep_accepted :: bool
  rep_priority :: int
  rep_reason :: "string option"

record query_event =
  qe_event :: verified_event
  qe_source :: event_source
  qe_priority :: int

fun report_parts :: "policy_decision \<Rightarrow> bool \<times> int \<times> string option" where
  "report_parts (Allow p) = (True, p, None)"
| "report_parts (Throttle p reason) = (True, p, Some reason)"
| "report_parts (Drop reason) = (False, 0, Some reason)"

section \<open>Filters and retention policies\<close>

definition subscription_filters_match :: "nostr_lib \<Rightarrow> filter list \<Rightarrow> event \<Rightarrow> bool" where
  "subscription_filters_match lib fs e \<longleftrightarrow> fs \<noteq> [] \<and> (\<exists>f \<in> set fs. match_event lib f e)"

definition filters_match :: "nostr_lib \<Rightarrow> filter list \<Rightarrow> event \<Rightarrow> bool" where
  "filters_match lib fs e \<longleftrightarrow> fs = [] \<or> subscription_filters_match lib fs e"

record event_retention_policy =
  rp_filters :: "filter list"
  rp_max_events :: nat

definition accepts_event :: "nostr_lib \<Rightarrow> event_retention_policy \<Rightarrow> event \<Rightarrow> bool" where
  "accepts_event lib p e \<longleftrightarrow> 0 < rp_max_events p \<and> filters_match lib (rp_filters p) e"

definition rp_accepts :: "nostr_lib \<Rightarrow> event_retention_policy \<Rightarrow> verified_event \<Rightarrow> bool" where
  "rp_accepts lib p v = accepts_event lib p (as_event v)"

section \<open>Provider modes\<close>

datatype provider_mode = LocalOnly | DirectRelay | Router

fun mode_as_str :: "provider_mode \<Rightarrow> string" where
  "mode_as_str LocalOnly = ''local-only''"
| "mode_as_str DirectRelay = ''direct-relay''"
| "mode_as_str Router = ''router''"

definition mode_from_str :: "string \<Rightarrow> pubsub_error + provider_mode" where
  "mode_from_str value =
     (if value = ''local-only'' then Inr LocalOnly
      else if value = ''direct-relay'' then Inr DirectRelay
      else if value = ''router'' then Inr Router
      else Inl (Validation ''unknown pubsub provider mode''))"

section \<open>What is assumed of the nostr crate\<close>

text \<open>
  \<^item> \<open>Event::verify\<close> checks the identifier and the signature, and the signature covers the
    identifier under the author's key;
  \<^item> identifiers are hashes of the author and the payload: two events whose identifier checks
    have the same author, and their JSON the same length (the hashed fields agree, and the remaining
    field, the signature, has a fixed width);
  \<^item> \<open>to_hex\<close> writes 64 lowercase hexadecimal digits and is injective.
\<close>

definition hex_digit :: "char \<Rightarrow> bool" where
  "hex_digit c \<longleftrightarrow> c \<in> set ''0123456789abcdef''"

definition canonical_hex :: "string \<Rightarrow> bool" where
  "canonical_hex s \<longleftrightarrow> length s = 64 \<and> list_all hex_digit s"

definition verify_law :: "nostr_lib \<Rightarrow> bool" where
  "verify_law lib \<longleftrightarrow>
     (\<forall>e. verify lib e \<longleftrightarrow> verify_id lib e \<and> verify_signature lib (ev_id e) (ev_pubkey e) (ev_sig e))"

definition id_binding_law :: "nostr_lib \<Rightarrow> bool" where
  "id_binding_law lib \<longleftrightarrow>
     (\<forall>e e'. verify_id lib e \<longrightarrow> verify_id lib e' \<longrightarrow> ev_id e = ev_id e' \<longrightarrow>
        ev_pubkey e = ev_pubkey e' \<and>
        map_option length (event_json lib e) = map_option length (event_json lib e'))"

definition hex_law :: "nostr_lib \<Rightarrow> bool" where
  "hex_law lib \<longleftrightarrow> inj (to_hex lib) \<and> (\<forall>i. canonical_hex (to_hex lib i))"

definition nostr_laws :: "nostr_lib \<Rightarrow> bool" where
  "nostr_laws lib \<longleftrightarrow> verify_law lib \<and> id_binding_law lib \<and> hex_law lib"

section \<open>Runs of the verification cache\<close>

definition vc_run :: "nostr_lib \<Rightarrow> event list \<Rightarrow> event_verification_cache" where
  "vc_run lib es = fold (\<lambda>e c. snd (vc_verify lib c e)) es vc_default"

text \<open>
  The two fields hold the same identifiers, each once and at most 512 of them; every
  remembered signature was produced by a full check of an event with that identifier.
\<close>

definition vc_wf :: "event_verification_cache \<Rightarrow> bool" where
  "vc_wf c \<longleftrightarrow>
     hm_wf (vc_signatures c) \<and> distinct (vc_order c) \<and>
     set (vc_order c) = keys (vc_signatures c) \<and>
     length (vc_order c) \<le> VERIFICATION_CACHE_CAPACITY"

definition vc_genuine :: "nostr_lib \<Rightarrow> event_verification_cache \<Rightarrow> bool" where
  "vc_genuine lib c \<longleftrightarrow>
     (\<forall>i s. (i, s) \<in> set (vc_signatures c) \<longrightarrow>
        (\<exists>e. ev_id e = i \<and> ev_sig e = s \<and> verify lib e))"

lemma vc_capacity_pos [simp]: "0 < VERIFICATION_CACHE_CAPACITY"
  by (simp add: VERIFICATION_CACHE_CAPACITY_def)

lemma vc_remember_order:
  "vc_wf c \<Longrightarrow> vc_order (vc_remember i s c) = window_push VERIFICATION_CACHE_CAPACITY i (vc_order c)"
  using vc_capacity_pos
  by (auto simp: vc_wf_def vc_remember_def window_push_def Let_def simp del: vc_capacity_pos
      split: list.splits)

lemma vc_remember_keys:
  "vc_wf c \<Longrightarrow> keys (vc_signatures (vc_remember i s c)) = set (vc_order (vc_remember i s c))"
  by (cases "vc_order c") (auto simp: vc_wf_def vc_remember_def Let_def)

lemma vc_remember_hm_wf: "hm_wf (vc_signatures c) \<Longrightarrow> hm_wf (vc_signatures (vc_remember i s c))"
  by (auto simp: vc_remember_def Let_def split: list.splits)

lemma vc_remember_entries:
  "set (vc_signatures (vc_remember i s c)) \<subseteq> insert (i, s) (set (vc_signatures c))"
  using set_hm_insert_subset
  by (fastforce simp: vc_remember_def Let_def set_hm_remove split: list.splits if_splits)

lemma vc_wf_remember: "vc_wf c \<Longrightarrow> vc_wf (vc_remember i s c)"
  using vc_remember_order[of c i s] vc_remember_keys[of c i s] vc_remember_hm_wf[of c i s]
    window_push_distinct[of "vc_order c" VERIFICATION_CACHE_CAPACITY i]
    window_push_length[of "vc_order c" VERIFICATION_CACHE_CAPACITY i]
  by (simp add: vc_wf_def)

lemma vc_genuine_remember:
  "vc_genuine lib c \<Longrightarrow> verify lib e \<Longrightarrow> vc_genuine lib (vc_remember (ev_id e) (ev_sig e) c)"
  using vc_remember_entries[of "ev_id e" "ev_sig e" c] by (auto simp: vc_genuine_def)

text \<open>The cache is a bounded window over the identifiers it admits.\<close>

interpretation vc: fifo_window
  "\<lambda>p c. vc_remember (fst p) (snd p) c" fst vc_order VERIFICATION_CACHE_CAPACITY vc_wf
  by unfold_locales (simp_all add: vc_wf_remember vc_remember_order, simp add: vc_wf_def)

lemma vc_verify_keeps:
  assumes "vc_wf c" and "vc_genuine lib c"
  shows "vc_wf (snd (vc_verify lib c e)) \<and> vc_genuine lib (snd (vc_verify lib c e))"
  using assms by (simp add: vc_verify_def Let_def try_from_event_def vc_wf_remember vc_genuine_remember)

lemma vc_run_inv: "vc_wf (vc_run lib es) \<and> vc_genuine lib (vc_run lib es)"
proof -
  have "vc_wf c \<Longrightarrow> vc_genuine lib c \<Longrightarrow>
      vc_wf (fold (\<lambda>e c. snd (vc_verify lib c e)) es c) \<and>
      vc_genuine lib (fold (\<lambda>e c. snd (vc_verify lib c e)) es c)" for c
    by (induction es arbitrary: c) (auto simp: vc_verify_keeps)
  moreover have "vc_wf vc_default" "vc_genuine lib vc_default"
    by (simp_all add: vc_wf_def vc_genuine_def vc_default_def)
  ultimately show ?thesis by (simp add: vc_run_def)
qed

lemma vc_verify_sound:
  assumes laws: "nostr_laws lib" and gen: "vc_genuine lib c"
  shows "fst (vc_verify lib c e) = Inr v \<longleftrightarrow> verify lib e \<and> v = VerifiedEvent e"
proof (cases "hm_get (vc_signatures c) (ev_id e) = Some (ev_sig e)")
  case True
  then have "(ev_id e, ev_sig e) \<in> set (vc_signatures c)" by (rule map_of_SomeD)
  then obtain e' where e': "ev_id e' = ev_id e" "ev_sig e' = ev_sig e" "verify lib e'"
    using gen by (auto simp: vc_genuine_def)
  have "verify lib e = verify_id lib e"
  proof
    assume id: "verify_id lib e"
    have "ev_pubkey e' = ev_pubkey e"
      using laws e' id unfolding nostr_laws_def id_binding_law_def verify_law_def by blast
    then show "verify lib e"
      using laws e' id unfolding nostr_laws_def verify_law_def by metis
  qed (use laws in \<open>simp add: nostr_laws_def verify_law_def\<close>)
  with True show ?thesis by (auto simp: vc_verify_def)
next
  case False
  then show ?thesis by (auto simp: vc_verify_def Let_def try_from_event_def)
qed

section \<open>What the cache guarantees\<close>

text \<open>
  C16: after any sequence of events, the verification cache accepts exactly the events that a full
  check of identifier and signature accepts, and returns them unchanged; it never holds more than 512
  identifiers.
\<close>

theorem verification_cache_correct:
  assumes "nostr_laws lib"
  shows "(fst (vc_verify lib (vc_run lib es) e) = Inr v \<longleftrightarrow> verify lib e \<and> v = VerifiedEvent e) \<and>
    length (vc_signatures (vc_run lib es)) \<le> 512"
proof
  show "fst (vc_verify lib (vc_run lib es) e) = Inr v \<longleftrightarrow> verify lib e \<and> v = VerifiedEvent e"
    using vc_verify_sound[OF assms] vc_run_inv by blast
  have "vc_wf (vc_run lib es)" using vc_run_inv by blast
  then show "length (vc_signatures (vc_run lib es)) \<le> 512"
    using keys_length_eq[of "vc_signatures (vc_run lib es)" "vc_order (vc_run lib es)"]
    by (simp add: vc_wf_def VERIFICATION_CACHE_CAPACITY_def)
qed

text \<open>
  An event that passed the full check is still answered from the cache after fewer than 512
  further insertions, whatever they are.
\<close>

theorem verification_cache_remembers:
  assumes "vc_wf c" and "i \<notin> set (vc_order c)" and "length later < 512"
  shows "i \<in> keys (vc_signatures (fold (\<lambda>p c. vc_remember (fst p) (snd p) c) later (vc_remember i sg c)))"
proof -
  have "vc_wf (fold (\<lambda>p c. vc_remember (fst p) (snd p) c) later (vc_remember i sg c))"
    by (rule vc.invar_fold[OF vc_wf_remember[OF assms(1)]])
  then show ?thesis
    using vc.window_guarantee[OF assms(1), of "(i, sg)" later] assms(2,3)
    by (simp add: vc_wf_def VERIFICATION_CACHE_CAPACITY_def)
qed

theorem verification_cache_remembers_witness:
  "(7 :: event_id) \<in> keys (vc_signatures (fold (\<lambda>p c. vc_remember (fst p) (snd p) c) [(8, 1), (9, 1)]
     (vc_remember 7 1 vc_default)))"
  by (rule verification_cache_remembers) (simp_all add: vc_wf_def vc_default_def)

text \<open>
  The names of the provider modes parse back to the modes, and nothing else parses.
\<close>

theorem provider_mode_roundtrip:
  "mode_from_str (mode_as_str m) = Inr m \<and> (mode_from_str s = Inr m \<longleftrightarrow> s = mode_as_str m)"
  by (cases m) (auto simp: mode_from_str_def)

end
