(* ===== verification/Mesh_Peers.thy ===== *)
theory Mesh_Peers
  imports Events
begin

text \<open>
  Peer selection of \<open>crates/nostr-pubsub/src/mesh.rs\<close>: \<open>MeshPeer\<close> and \<open>select_mesh_peers\<close>, the
  stable choice of at most \<open>fanout\<close> connected peers by quality score that keeps room for peers
  without a score. The lemmas show what the choice guarantees: its size, its origin, the reserve for unknown peers and that
  among peers of one class it always takes the best ranked.
\<close>

section \<open>Peers and their ranking\<close>

record mesh_peer =
  mp_id :: string
  mp_score :: "int option"

definition mesh_peer_new :: "string \<Rightarrow> mesh_peer" where
  "mesh_peer_new i = \<lparr>mp_id = i, mp_score = None\<rparr>"

definition mesh_peer_observed :: "string \<Rightarrow> int \<Rightarrow> mesh_peer" where
  "mesh_peer_observed i q = \<lparr>mp_id = i, mp_score = Some q\<rparr>"

definition is_unknown :: "mesh_peer \<Rightarrow> bool" where
  "is_unknown p \<longleftrightarrow> mp_score p = None"

definition effective_score :: "mesh_peer \<Rightarrow> int" where
  "effective_score p = (case mp_score p of None \<Rightarrow> 0 | Some q \<Rightarrow> q)"

text \<open>
  The comparator of \<open>sort_by\<close>: score descending, then known before unknown, then the identity.
\<close>

definition peer_rank :: "mesh_peer \<Rightarrow> int \<times> bool \<times> string" where
  "peer_rank p = (- effective_score p, is_unknown p, mp_id p)"

section \<open>Selection\<close>

text \<open>The \<open>BTreeMap\<close> entry update: the first observation of a peer wins over an unknown one.\<close>

definition dedup_peer :: "mesh_peer \<Rightarrow> (string, mesh_peer) hmap \<Rightarrow> (string, mesh_peer) hmap" where
  "dedup_peer p m =
     (case map_of m (mp_id p) of
        Some existing \<Rightarrow>
          if mp_score existing = None \<and> mp_score p \<noteq> None then bmap_insert (mp_id p) p m else m
      | None \<Rightarrow> bmap_insert (mp_id p) p m)"

definition peer_candidates :: "mesh_peer list \<Rightarrow> string option \<Rightarrow> mesh_peer list" where
  "peer_candidates peers excluded =
     sort_key peer_rank
       (map snd (fold dedup_peer (filter (\<lambda>p. excluded \<noteq> Some (mp_id p)) peers) []))"

definition unknown_count :: "mesh_peer list \<Rightarrow> nat" where
  "unknown_count ps = length (filter is_unknown ps)"

text \<open>
  The replacement loop: while fewer than the required unknown peers are selected, the next
  unknown peer outside the selection takes the place of the last known one.
\<close>

fun reserve_unknown :: "nat \<Rightarrow> mesh_peer list \<Rightarrow> mesh_peer list \<Rightarrow> mesh_peer list" where
  "reserve_unknown required selected [] = selected"
| "reserve_unknown required selected (r # rs) =
     (if unknown_count selected < required
      then (case rposition (\<lambda>p. \<not> is_unknown p) selected of
              None \<Rightarrow> selected
            | Some i \<Rightarrow> reserve_unknown required (selected[i := r]) rs)
      else selected)"

definition select_mesh_peers :: "mesh_peer list \<Rightarrow> string option \<Rightarrow> nat \<Rightarrow> nat \<Rightarrow> mesh_peer list" where
  "select_mesh_peers peers excluded fanout reserve =
     (let candidates = peer_candidates peers excluded in
      if length candidates \<le> fanout then candidates
      else
        (let target = min fanout (length candidates);
             required = min (min reserve target) (unknown_count candidates)
         in reserve_unknown required (take target candidates)
              (filter is_unknown (drop target candidates))))"

section \<open>Candidates\<close>

definition peer_map_wf :: "(string, mesh_peer) hmap \<Rightarrow> bool" where
  "peer_map_wf m \<longleftrightarrow> bmap_wf m \<and> (\<forall>(k, p) \<in> set m. mp_id p = k)"

lemma set_bmap_insert_subset: "set (bmap_insert k v m) \<subseteq> insert (k, v) (set m)"
  by (induction k v m rule: bmap_insert.induct) auto

lemma peer_map_wf_dedup: "peer_map_wf m \<Longrightarrow> peer_map_wf (dedup_peer p m)"
  using set_bmap_insert_subset[of "mp_id p" p m] bmap_wf_insert[of m "mp_id p" p]
  by (fastforce simp: peer_map_wf_def dedup_peer_def split: option.splits)

lemma keys_dedup: "keys (dedup_peer p m) = insert (mp_id p) (keys m)"
  by (auto simp: dedup_peer_def split: option.splits dest: hm_get_in_keys)

lemma set_dedup: "set (dedup_peer p m) \<subseteq> insert (mp_id p, p) (set m)"
  using set_bmap_insert_subset[of "mp_id p" p m] by (auto simp: dedup_peer_def split: option.splits)

lemma dedup_fold:
  "peer_map_wf m \<Longrightarrow>
     peer_map_wf (fold dedup_peer ps m) \<and>
     keys (fold dedup_peer ps m) = mp_id ` set ps \<union> keys m \<and>
     set (fold dedup_peer ps m) \<subseteq> (\<lambda>p. (mp_id p, p)) ` set ps \<union> set m"
proof (induction ps arbitrary: m)
  case Nil
  then show ?case by simp
next
  case (Cons p ps)
  then show ?case
    using Cons.IH[OF peer_map_wf_dedup[OF Cons.prems], of p] set_dedup[of p m] keys_dedup[of p m]
    by auto
qed

lemma peer_candidates_props:
  shows "distinct (map mp_id (peer_candidates peers excluded))"
    and "set (peer_candidates peers excluded) \<subseteq> {p \<in> set peers. excluded \<noteq> Some (mp_id p)}"
    and "mp_id ` set (peer_candidates peers excluded) =
           mp_id ` {p \<in> set peers. excluded \<noteq> Some (mp_id p)}"
    and "sorted (map peer_rank (peer_candidates peers excluded))"
proof -
  let ?ps = "filter (\<lambda>p. excluded \<noteq> Some (mp_id p)) peers"
  let ?m = "fold dedup_peer ?ps []"
  have wf: "peer_map_wf ?m" and ks: "keys ?m = mp_id ` set ?ps"
    and sub: "set ?m \<subseteq> (\<lambda>p. (mp_id p, p)) ` set ?ps"
    using dedup_fold[of "[]" ?ps] by (auto simp: peer_map_wf_def)
  have ids: "map (mp_id \<circ> snd) ?m = map fst ?m"
    using wf by (intro map_cong) (auto simp: peer_map_wf_def)
  then have "distinct (map mp_id (map snd ?m))"
    using wf unfolding map_map ids by (simp add: peer_map_wf_def)
  then show "distinct (map mp_id (peer_candidates peers excluded))"
    unfolding peer_candidates_def
    by (metis mset_map mset_eq_imp_distinct_iff mset_sort)
  show "set (peer_candidates peers excluded) \<subseteq> {p \<in> set peers. excluded \<noteq> Some (mp_id p)}"
    using sub by (auto simp: peer_candidates_def)
  have "mp_id ` set (map snd ?m) = keys ?m"
    using ids by (metis list.set_map map_map)
  then show "mp_id ` set (peer_candidates peers excluded) =
      mp_id ` {p \<in> set peers. excluded \<noteq> Some (mp_id p)}"
    using ks by (simp add: peer_candidates_def)
  show "sorted (map peer_rank (peer_candidates peers excluded))"
    by (simp add: peer_candidates_def)
qed

section \<open>The replacement loop\<close>

lemma unknown_count_le: "unknown_count ps \<le> length ps"
  by (simp add: unknown_count_def)

lemma reserve_length [simp]: "length (reserve_unknown n sel rs) = length sel"
  by (induction n sel rs rule: reserve_unknown.induct) (auto split: option.splits)

lemma known_update:
  assumes "rposition (\<lambda>p. \<not> is_unknown p) sel = Some i" and "is_unknown r"
  shows "filter (\<lambda>p. \<not> is_unknown p) (sel[i := r]) = butlast (filter (\<lambda>p. \<not> is_unknown p) sel)"
    and "mset (filter is_unknown (sel[i := r])) = add_mset r (mset (filter is_unknown sel))"
proof -
  let ?K = "\<lambda>p. \<not> is_unknown p"
  have i: "i < length sel" "?K (sel ! i)" "\<And>j. i < j \<Longrightarrow> j < length sel \<Longrightarrow> is_unknown (sel ! j)"
    using rposition_Some[OF assms(1)] by auto
  have sel: "sel = take i sel @ sel ! i # drop (Suc i) sel"
    using i(1) by (simp add: id_take_nth_drop)
  have upd: "sel[i := r] = take i sel @ r # drop (Suc i) sel"
    using i(1) by (simp add: upd_conv_take_nth_drop)
  have "\<forall>p \<in> set (drop (Suc i) sel). is_unknown p"
    using i by (auto simp: in_set_conv_nth)
  then have none: "filter ?K (drop (Suc i) sel) = []" by simp
  have "filter ?K sel = filter ?K (take i sel) @ [sel ! i]"
    by (subst sel) (use i none in simp)
  then show "filter ?K (sel[i := r]) = butlast (filter ?K sel)"
    using upd none assms(2) by simp
  have "filter is_unknown sel = filter is_unknown (take i sel) @ filter is_unknown (drop (Suc i) sel)"
    by (subst sel) (use i in simp)
  then show "mset (filter is_unknown (sel[i := r])) = add_mset r (mset (filter is_unknown sel))"
    using upd assms(2) by simp
qed

text \<open>
  What the loop does to the two classes: the known peers of the result are a prefix of the known peers selected
  before, the unknown ones are joined by a prefix of the replacements.
\<close>

lemma reserve_classes:
  assumes "\<forall>r \<in> set rs. is_unknown r"
  shows "\<exists>k j. filter (\<lambda>p. \<not> is_unknown p) (reserve_unknown n sel rs) =
                 take k (filter (\<lambda>p. \<not> is_unknown p) sel) \<and>
               mset (filter is_unknown (reserve_unknown n sel rs)) =
                 mset (filter is_unknown sel) + mset (take j rs)"
  using assms
proof (induction n sel rs rule: reserve_unknown.induct)
  case (1 n sel)
  show ?case
    by (rule exI[of _ "length (filter (\<lambda>p. \<not> is_unknown p) sel)"], rule exI[of _ 0]) simp
next
  case (2 n sel r rs)
  let ?K = "\<lambda>p. \<not> is_unknown p"
  have stay: "\<exists>k j. filter ?K sel = take k (filter ?K sel) \<and>
      mset (filter is_unknown sel) = mset (filter is_unknown sel) + mset (take j (r # rs))"
    by (rule exI[of _ "length (filter ?K sel)"], rule exI[of _ 0]) simp
  show ?case
  proof (cases "unknown_count sel < n")
    case True
    show ?thesis
    proof (cases "rposition ?K sel")
      case None
      with True stay show ?thesis by simp
    next
      case (Some i)
      obtain k j where kj:
        "filter ?K (reserve_unknown n (sel[i := r]) rs) = take k (filter ?K (sel[i := r]))"
        "mset (filter is_unknown (reserve_unknown n (sel[i := r]) rs)) =
           mset (filter is_unknown (sel[i := r])) + mset (take j rs)"
        using "2.IH"[OF True Some] "2.prems" by auto
      have "filter ?K (reserve_unknown n (sel[i := r]) rs) =
          take (min k (length (filter ?K sel) - 1)) (filter ?K sel)"
        using kj(1) known_update(1)[OF Some] "2.prems" by (simp add: butlast_conv_take)
      moreover have "mset (filter is_unknown (reserve_unknown n (sel[i := r]) rs)) =
          mset (filter is_unknown sel) + mset (take (Suc j) (r # rs))"
        using kj(2) known_update(2)[OF Some] "2.prems" by simp
      ultimately show ?thesis using True Some by (simp del: take_Suc_Cons) blast
    qed
  next
    case False
    with stay show ?thesis by simp
  qed
qed

lemma reserve_reaches:
  assumes "\<forall>r \<in> set rs. is_unknown r" and "n \<le> length sel"
  shows "min n (unknown_count sel + length rs) \<le> unknown_count (reserve_unknown n sel rs)"
  using assms
proof (induction n sel rs rule: reserve_unknown.induct)
  case (1 n sel)
  then show ?case by simp
next
  case (2 n sel r rs)
  let ?K = "\<lambda>p. \<not> is_unknown p"
  show ?case
  proof (cases "unknown_count sel < n")
    case True
    then have "unknown_count sel < length sel" using "2.prems" by simp
    then obtain p where "p \<in> set sel" "?K p"
      unfolding unknown_count_def by (metis filter_True less_irrefl)
    then obtain i where Some: "rposition ?K sel = Some i"
      using rposition_None[of ?K sel] by (cases "rposition ?K sel") auto
    have "unknown_count (sel[i := r]) = Suc (unknown_count sel)"
      using known_update(2)[OF Some, of r] "2.prems"
      by (metis unknown_count_def list.set_intros(1) size_add_mset size_mset)
    then show ?thesis using "2.IH"[OF True Some] "2.prems" True Some by simp
  next
    case False
    then show ?thesis by simp
  qed
qed

section \<open>Guarantees of the selection\<close>

lemma mset_classes: "mset xs = mset (filter P xs) + mset (filter (\<lambda>x. \<not> P x) xs)"
  by (induction xs) auto

text \<open>
  The common shape of the result: a prefix of the ranked known candidates and a prefix of the ranked unknown
  ones, in some order.
\<close>

lemma select_shape:
  defines "C \<equiv> \<lambda>peers excluded. peer_candidates peers excluded"
  shows "\<exists>k j.
    filter (\<lambda>p. \<not> is_unknown p) (select_mesh_peers peers excluded fanout reserve) =
      take k (filter (\<lambda>p. \<not> is_unknown p) (C peers excluded)) \<and>
    mset (filter is_unknown (select_mesh_peers peers excluded fanout reserve)) =
      mset (take j (filter is_unknown (C peers excluded)))"
proof (cases "length (C peers excluded) \<le> fanout")
  case True
  then show ?thesis
    by (intro exI[of _ "length (C peers excluded)"])
      (simp add: select_mesh_peers_def C_def Let_def)
next
  case False
  let ?c = "C peers excluded"
  let ?K = "\<lambda>p. \<not> is_unknown p"
  let ?sel = "take fanout ?c" and ?rs = "filter is_unknown (drop fanout ?c)"
  let ?n = "min (min reserve fanout) (unknown_count ?c)"
  have res: "select_mesh_peers peers excluded fanout reserve = reserve_unknown ?n ?sel ?rs"
    using False by (simp add: select_mesh_peers_def C_def Let_def min_def)
  have split: "filter P ?sel @ filter P (drop fanout ?c) = filter P ?c" for P
    by (metis append_take_drop_id filter_append)
  obtain k j where
    k: "filter ?K (reserve_unknown ?n ?sel ?rs) = take k (filter ?K ?sel)" and
    j: "mset (filter is_unknown (reserve_unknown ?n ?sel ?rs)) =
      mset (filter is_unknown ?sel) + mset (take j ?rs)"
    using reserve_classes[of ?rs ?n ?sel] by auto
  have "take k (filter ?K ?sel) = take (min k (length (filter ?K ?sel))) (filter ?K ?c)"
    using split[of ?K] by (metis append_eq_conv_conj take_take min.commute)
  moreover have "mset (filter is_unknown ?sel) + mset (take j ?rs) =
      mset (take (length (filter is_unknown ?sel) + j) (filter is_unknown ?c))"
    by (simp flip: split[of is_unknown])
  ultimately show ?thesis using res k j by metis
qed

lemma select_submultiset:
  "mset (select_mesh_peers peers excluded fanout reserve) \<subseteq># mset (peer_candidates peers excluded)"
proof -
  let ?r = "select_mesh_peers peers excluded fanout reserve"
  let ?c = "peer_candidates peers excluded"
  obtain k j where
    "filter (\<lambda>p. \<not> is_unknown p) ?r = take k (filter (\<lambda>p. \<not> is_unknown p) ?c)"
    "mset (filter is_unknown ?r) = mset (take j (filter is_unknown ?c))"
    using select_shape by blast
  then have "mset ?r = mset (take j (filter is_unknown ?c)) +
      mset (take k (filter (\<lambda>p. \<not> is_unknown p) ?c))"
    by (metis mset_classes)
  moreover have "mset (take n xs) \<subseteq># mset xs" for n and xs :: "mesh_peer list"
    by (metis append_take_drop_id mset_append mset_subset_eq_add_left)
  ultimately have "mset ?r \<subseteq># mset (filter is_unknown ?c) + mset (filter (\<lambda>p. \<not> is_unknown p) ?c)"
    by (metis subset_mset.add_mono)
  then show ?thesis by (simp only: mset_classes[of ?c is_unknown, symmetric])
qed

lemma select_length:
  "length (select_mesh_peers peers excluded fanout reserve) =
     min fanout (length (peer_candidates peers excluded))"
  by (simp add: select_mesh_peers_def Let_def)

lemma distinct_submset:
  assumes "mset xs \<subseteq># mset ys" and "distinct ys"
  shows "distinct xs"
proof -
  obtain zs where "mset zs = mset ys - mset xs" by (metis ex_mset)
  then have "mset (xs @ zs) = mset ys" using assms(1) by simp
  then have "distinct (xs @ zs)" using assms(2) by (metis mset_eq_imp_distinct_iff)
  then show ?thesis by simp
qed

lemma select_ids_distinct:
  "distinct (map mp_id (select_mesh_peers peers excluded fanout reserve))"
  using select_submultiset[of peers excluded fanout reserve]
    peer_candidates_props(1)[of peers excluded]
  by (metis distinct_submset image_mset_subseteq_mono mset_map)

lemma select_subset:
  "set (select_mesh_peers peers excluded fanout reserve) \<subseteq> set (peer_candidates peers excluded)"
  using select_submultiset by (metis set_mset_mono set_mset_mset)

lemma sorted_take_rest:
  assumes "sorted (map f xs)" and "x \<in> set (take k xs)" and "y \<in> set xs" and "y \<notin> set (take k xs)"
  shows "f x \<le> f y"
proof -
  have "y \<in> set (drop k xs)" using assms(3,4) by (metis UnE append_take_drop_id set_append)
  moreover have "sorted (map f (take k xs) @ map f (drop k xs))"
    using assms(1) by (metis append_take_drop_id map_append)
  ultimately show ?thesis using assms(2) by (auto simp: sorted_append)
qed

lemma select_reserve_count:
  "min (min reserve fanout) (unknown_count (peer_candidates peers excluded))
     \<le> unknown_count (select_mesh_peers peers excluded fanout reserve)"
proof (cases "length (peer_candidates peers excluded) \<le> fanout")
  case True
  then show ?thesis by (simp add: select_mesh_peers_def Let_def)
next
  case False
  let ?c = "peer_candidates peers excluded"
  let ?n = "min (min reserve fanout) (unknown_count ?c)"
  have "unknown_count (take fanout ?c) + length (filter is_unknown (drop fanout ?c)) = unknown_count ?c"
    unfolding unknown_count_def by (metis append_take_drop_id filter_append length_append)
  moreover have "?n \<le> length (take fanout ?c)" using False by simp
  ultimately have "?n \<le> unknown_count (reserve_unknown ?n (take fanout ?c)
      (filter is_unknown (drop fanout ?c)))"
    using reserve_reaches[of "filter is_unknown (drop fanout ?c)" ?n "take fanout ?c"] by simp
  with False show ?thesis by (simp add: select_mesh_peers_def Let_def min_def)
qed

lemma select_best_ranked:
  assumes "p \<in> set (select_mesh_peers peers excluded fanout reserve)"
    and "q \<in> set (peer_candidates peers excluded)"
    and "q \<notin> set (select_mesh_peers peers excluded fanout reserve)"
    and "is_unknown p = is_unknown q"
  shows "peer_rank p \<le> peer_rank q"
proof -
  let ?r = "select_mesh_peers peers excluded fanout reserve"
  let ?c = "peer_candidates peers excluded"
  obtain k j where
    k: "filter (\<lambda>p. \<not> is_unknown p) ?r = take k (filter (\<lambda>p. \<not> is_unknown p) ?c)" and
    j: "mset (filter is_unknown ?r) = mset (take j (filter is_unknown ?c))"
    using select_shape by blast
  have sorted: "sorted (map peer_rank (filter P ?c))" for P
    by (rule sorted_filter) (rule peer_candidates_props(4))
  show ?thesis
  proof (cases "is_unknown p")
    case True
    have "set (filter is_unknown ?r) = set (take j (filter is_unknown ?c))"
      using j by (rule mset_eq_setD)
    then have "p \<in> set (take j (filter is_unknown ?c))" "q \<notin> set (take j (filter is_unknown ?c))"
      using True assms by auto
    moreover have "q \<in> set (filter is_unknown ?c)" using True assms by simp
    ultimately show ?thesis using sorted_take_rest[OF sorted] by blast
  next
    case False
    have "p \<in> set (take k (filter (\<lambda>p. \<not> is_unknown p) ?c))"
      "q \<notin> set (take k (filter (\<lambda>p. \<not> is_unknown p) ?c))"
      using False assms by (auto simp flip: k)
    moreover have "q \<in> set (filter (\<lambda>p. \<not> is_unknown p) ?c)" using False assms by simp
    ultimately show ?thesis using sorted_take_rest[OF sorted] by blast
  qed
qed

section \<open>What the selection guarantees\<close>

text \<open>
  The selection returns connected peers only, none twice and never the excluded one, and exactly
  \<open>fanout\<close> of them when that many are connected.
\<close>

theorem select_mesh_peers_size:
  "let eligible = {p \<in> set peers. excluded \<noteq> Some (mp_id p)};
       r = select_mesh_peers peers excluded fanout reserve
   in distinct (map mp_id r) \<and> set r \<subseteq> eligible \<and> length r = min fanout (card (mp_id ` eligible))"
proof -
  let ?c = "peer_candidates peers excluded"
  have "length ?c = card (mp_id ` set ?c)"
    using peer_candidates_props(1)[of peers excluded] by (metis distinct_card length_map set_map)
  then have "length ?c = card (mp_id ` {p \<in> set peers. excluded \<noteq> Some (mp_id p)})"
    by (simp add: peer_candidates_props(3))
  then show ?thesis
    using select_ids_distinct select_subset[of peers excluded fanout reserve]
      peer_candidates_props(2)[of peers excluded]
    unfolding Let_def select_length by auto
qed

text \<open>
  The selection keeps room for peers without a quality score: at least \<open>reserve\<close> of them are
  selected when that many are connected and \<open>fanout\<close> allows it; and among the peers of one
  class, with a score or without, it never prefers a worse ranked one.
\<close>

theorem select_mesh_peers_fair:
  "let r = select_mesh_peers peers excluded fanout reserve; c = peer_candidates peers excluded
   in min (min reserve fanout) (unknown_count c) \<le> unknown_count r \<and>
      list_all (\<lambda>p. list_all (\<lambda>q. q \<in> set r \<or> is_unknown p \<noteq> is_unknown q \<or> peer_rank p \<le> peer_rank q) c) r"
  using select_reserve_count[of reserve fanout peers excluded]
    select_best_ranked[of _ peers excluded fanout reserve]
  by (auto simp: Let_def list_all_iff)

theorem select_mesh_peers_fair_witness:
  "let ps = [mesh_peer_observed ''a'' 5, mesh_peer_observed ''b'' 9, mesh_peer_new ''c'', mesh_peer_new ''d''];
       r = select_mesh_peers ps None 2 1
   in r = [mesh_peer_observed ''b'' 9, mesh_peer_new ''c''] \<and> 1 \<le> unknown_count r \<and>
      list_all (\<lambda>q. q \<in> set r \<or> \<not> is_unknown q \<or> peer_rank (mesh_peer_new ''c'') \<le> peer_rank q)
        (peer_candidates ps None)"
proof -
  let ?ps = "[mesh_peer_observed ''a'' 5, mesh_peer_observed ''b'' 9, mesh_peer_new ''c'', mesh_peer_new ''d'']"
  have r: "select_mesh_peers ?ps None 2 1 = [mesh_peer_observed ''b'' 9, mesh_peer_new ''c'']" by code_simp
  have u: "unknown_count (peer_candidates ?ps None) = 2" by code_simp
  have c: "is_unknown (mesh_peer_new ''c'')" by code_simp
  show ?thesis
    using select_mesh_peers_fair[of ?ps None 2 1] unfolding Let_def r u by (simp add: c)
qed

end
