(* ===== verification/Mesh.thy ===== *)
theory Mesh
  imports Mesh_Peers
begin

text \<open>
  The state machine \<open>InvWantMesh\<close> of \<open>crates/nostr-pubsub/src/mesh.rs\<close>, with
  \<open>mesh_resources.rs\<close> (cache, delivery window, retained-state report) and \<open>mesh_verified.rs\<close> (entry
  points for already verified events): its options, wire messages, state, every operation
  that reads or changes the state, and nothing else. Operations pass the state explicitly; an
  operation that returns \<open>Result\<close> gives the pair of its result and the state it leaves, so the state
  after an error is visible too. Invariants and properties are in the theories that import
  this one.
\<close>

section \<open>Messages, options and state\<close>

datatype wire_message =
    Inventory string u16 u32 u8
  | Want string
  | Frame string event

datatype action =
    Send string wire_message
  | Deliver string event

type_synonym 'a result = "pubsub_error + 'a"

record mesh_options =
  fanout :: nat
  unknown_peer_reserve :: nat
  max_hops :: u8
  max_event_bytes :: nat
  max_cached_events :: nat
  max_cached_event_bytes :: nat
  max_seen_events :: nat
  max_pending_peers_per_event :: nat
  route_ttl_ms :: u64
  event_ttl_ms :: u64
  allowed_kinds :: "u16 list option"

record upstream_route =
  ur_peer_id :: string
  ur_alternate_peers :: "string list"
  ur_transport_disrupted_peers :: "string list"
  ur_event_kind :: u16
  ur_payload_bytes :: u32
  ur_hop_limit :: u8
  ur_expires_at_ms :: u64
  ur_fulfilled :: bool

record pending_peers =
  pp_peers :: "string list"
  pp_expires_at_ms :: u64

record peer_behavior =
  pb_score :: int
  pb_samples :: u32
  pb_valid_frames :: u32
  pb_invalid_messages :: u32
  pb_unserved_inventories :: u32

datatype peer_behavior_evidence = ValidFrame | InvalidMessage | UnservedInventory

record cached_event =
  ce_event :: event
  ce_expires_at_ms :: u64
  ce_payload_bytes :: u64

record mesh =
  options :: mesh_options
  cached_events :: "(string, cached_event) hmap"
  cache_order :: "string list"
  cached_event_bytes :: u64
  seen_inventories :: "(string, u64) hmap"
  seen_order :: "string list"
  delivered_events :: "(string, u64) hmap"
  delivered_order :: "string list"
  upstream_routes :: "(string, upstream_route) hmap"
  pending_downstream :: "(string, pending_peers) hmap"
  pending_peer_count :: nat
  want_forwarded :: "(string, u64) hmap"
  next_prune_at_ms :: "u64 option"
  peer_behaviors :: "(string, peer_behavior) hmap"
  peer_behavior_order :: "string list"

definition MAX_UPSTREAM_PROVIDERS_PER_EVENT :: nat where "MAX_UPSTREAM_PROVIDERS_PER_EVENT = 3"
definition MAX_TRACKED_PEER_BEHAVIORS :: nat where "MAX_TRACKED_PEER_BEHAVIORS = 4096"
definition MIN_PEER_BEHAVIOR_SAMPLES :: u32 where "MIN_PEER_BEHAVIOR_SAMPLES = 3"
definition VALID_FRAME_REWARD :: int where "VALID_FRAME_REWARD = 20"
definition INVALID_MESSAGE_PENALTY :: int where "INVALID_MESSAGE_PENALTY = -40"
definition UNSERVED_INVENTORY_PENALTY :: int where "UNSERVED_INVENTORY_PENALTY = -20"

definition default_options :: mesh_options where
  "default_options = \<lparr>fanout = 8, unknown_peer_reserve = 1, max_hops = 16,
     max_event_bytes = 1024 * 1024, max_cached_events = 1024,
     max_cached_event_bytes = 16 * 1024 * 1024, max_seen_events = 4096,
     max_pending_peers_per_event = 64, route_ttl_ms = 2 * 60 * 1000,
     event_ttl_ms = 10 * 60 * 1000, allowed_kinds = None\<rparr>"

text \<open>The normalisation of the options in \<open>InvWantMesh::new\<close>, line by line.\<close>

definition normalize_options :: "mesh_options \<Rightarrow> mesh_options" where
  "normalize_options o0 =
     (let o1 = o0\<lparr>fanout := max (fanout o0) 1\<rparr>;
          o2 = o1\<lparr>unknown_peer_reserve := min (unknown_peer_reserve o1) (fanout o1)\<rparr>;
          o3 = o2\<lparr>max_hops := max (max_hops o2) 1\<rparr>;
          o4 = o3\<lparr>max_event_bytes := max (max_event_bytes o3) 1\<rparr>;
          o5 = o4\<lparr>max_cached_events := max (max_cached_events o4) 1\<rparr>;
          o6 = o5\<lparr>max_cached_event_bytes := max (max_cached_event_bytes o5) (max_event_bytes o5)\<rparr>;
          o7 = o6\<lparr>max_seen_events := max (max_seen_events o6) 1\<rparr>;
          o8 = o7\<lparr>max_pending_peers_per_event := max (max_pending_peers_per_event o7) 1\<rparr>;
          o9 = o8\<lparr>route_ttl_ms := max (route_ttl_ms o8) 1\<rparr>
      in o9\<lparr>event_ttl_ms := max (event_ttl_ms o9) (route_ttl_ms o9)\<rparr>)"

definition mesh_new :: "mesh_options \<Rightarrow> mesh" where
  "mesh_new o0 = \<lparr>options = normalize_options o0, cached_events = [], cache_order = [],
     cached_event_bytes = 0, seen_inventories = [], seen_order = [], delivered_events = [],
     delivered_order = [], upstream_routes = [], pending_downstream = [], pending_peer_count = 0,
     want_forwarded = [], next_prune_at_ms = None, peer_behaviors = [], peer_behavior_order = []\<rparr>"

section \<open>Validation\<close>

definition validate_event_id :: "string \<Rightarrow> unit result" where
  "validate_event_id eid =
     (if length eid = 64 \<and>
         list_all (\<lambda>c. (CHR ''0'' \<le> c \<and> c \<le> CHR ''9'') \<or> (CHR ''a'' \<le> c \<and> c \<le> CHR ''f'')) eid
      then Inr () else Inl (Validation ''invalid inv/want event id''))"

definition validate_kind :: "mesh_options \<Rightarrow> u16 \<Rightarrow> unit result" where
  "validate_kind opts k =
     (case allowed_kinds opts of
        None \<Rightarrow> Inr ()
      | Some allowed \<Rightarrow>
          if k \<in> set allowed then Inr () else Inl (Validation ''unsupported Nostr event kind''))"

definition validate_event_len :: "mesh_options \<Rightarrow> nat \<Rightarrow> unit result" where
  "validate_event_len opts len =
     (if max_event_bytes opts < len
      then Inl (Validation ''inv/want event exceeds maximum bytes'') else Inr ())"

definition validate_verified_event ::
  "nostr_lib \<Rightarrow> mesh_options \<Rightarrow> event \<Rightarrow> (string \<times> u32) result" where
  "validate_verified_event lib opts e =
     (case validate_kind opts (ev_kind e) of
        Inl err \<Rightarrow> Inl err
      | Inr _ \<Rightarrow>
          (case event_json lib e of
             None \<Rightarrow> Inl (Validation ''invalid inv/want JSON'')
           | Some payload \<Rightarrow>
               (case validate_event_len opts (length payload) of
                  Inl err \<Rightarrow> Inl err
                | Inr _ \<Rightarrow>
                    if length payload < 2 ^ 32
                    then Inr (to_hex lib (ev_id e), word_of_nat (length payload))
                    else Inl (Validation ''inv/want event exceeds maximum bytes''))))"

definition validate_event :: "nostr_lib \<Rightarrow> mesh_options \<Rightarrow> event \<Rightarrow> (string \<times> u32) result" where
  "validate_event lib opts e =
     (if verify lib e then validate_verified_event lib opts e
      else Inl (Validation ''invalid signed Nostr event''))"

section \<open>Resources\<close>

definition track_expiry :: "u64 \<Rightarrow> mesh \<Rightarrow> mesh" where
  "track_expiry t s =
     s\<lparr>next_prune_at_ms :=
        Some (case next_prune_at_ms s of None \<Rightarrow> t | Some scheduled \<Rightarrow> min scheduled t)\<rparr>"

fun evict_oldest_loop :: "string list \<Rightarrow> mesh \<Rightarrow> bool \<times> mesh" where
  "evict_oldest_loop [] s = (False, s\<lparr>cache_order := []\<rparr>)"
| "evict_oldest_loop (oldest # rest) s =
     (case hm_get (cached_events s) oldest of
        Some cached \<Rightarrow>
          (True, s\<lparr>cache_order := rest,
                   cached_events := hm_remove oldest (cached_events s),
                   cached_event_bytes := sat_sub (cached_event_bytes s) (ce_payload_bytes cached)\<rparr>)
      | None \<Rightarrow> evict_oldest_loop rest s)"

definition evict_oldest_cached_event :: "mesh \<Rightarrow> bool \<times> mesh" where
  "evict_oldest_cached_event s = evict_oldest_loop (cache_order s) s"

lemma evict_oldest_loop_shrinks:
  "evict_oldest_loop q s = (True, s') \<Longrightarrow> length (cache_order s') < length q"
  by (induction q s rule: evict_oldest_loop.induct) (force split: option.splits)+

text \<open>The eviction loop of \<open>store_event\<close>.\<close>

function make_room :: "u64 \<Rightarrow> mesh \<Rightarrow> mesh" where
  "make_room payload s =
     (if max_cached_events (options s) \<le> length (cached_events s) \<or>
         max_cached_event_bytes (options s) < unat (sat_add (cached_event_bytes s) payload)
      then (case evict_oldest_cached_event s of
              (evicted, s') \<Rightarrow> if evicted then make_room payload s' else s')
      else s)"
  by pat_completeness auto
termination
  by (relation "measure (\<lambda>(payload, s). length (cache_order s))")
    (auto simp: evict_oldest_cached_event_def dest: evict_oldest_loop_shrinks[OF sym])

declare make_room.simps [simp del]

definition store_event :: "nostr_lib \<Rightarrow> event \<Rightarrow> u32 \<Rightarrow> u64 \<Rightarrow> mesh \<Rightarrow> mesh" where
  "store_event lib e payload_bytes now_ms s =
     (let event_id = to_hex lib (ev_id e);
          expires = sat_add now_ms (event_ttl_ms (options s));
          payload = ucast payload_bytes;
          entry = \<lparr>ce_event = e, ce_expires_at_ms = expires, ce_payload_bytes = payload\<rparr>
      in case hm_get (cached_events s) event_id of
           Some cached \<Rightarrow>
             track_expiry expires
               (s\<lparr>cached_event_bytes :=
                    sat_add (sat_sub (cached_event_bytes s) (ce_payload_bytes cached)) payload,
                  cached_events := hm_insert event_id entry (cached_events s)\<rparr>)
         | None \<Rightarrow>
             (let s1 = make_room payload s in
              track_expiry expires
                (s1\<lparr>cache_order := cache_order s1 @ [event_id],
                    cached_event_bytes := sat_add (cached_event_bytes s1) payload,
                    cached_events := hm_insert event_id entry (cached_events s1)\<rparr>)))"

definition prune_cached_events :: "u64 \<Rightarrow> mesh \<Rightarrow> mesh" where
  "prune_cached_events now_ms s =
     (let kept = hm_retain (\<lambda>_ c. now_ms < ce_expires_at_ms c) (cached_events s) in
      s\<lparr>cached_events := kept,
        cache_order := filter (hm_contains kept) (cache_order s),
        cached_event_bytes := fold (\<lambda>c total. sat_add total (ce_payload_bytes c)) (hm_values kept) 0\<rparr>)"

definition remove_pending_event :: "string \<Rightarrow> mesh \<Rightarrow> pending_peers option \<times> mesh" where
  "remove_pending_event event_id s =
     (case hm_get (pending_downstream s) event_id of
        None \<Rightarrow> (None, s)
      | Some pending \<Rightarrow>
          (Some pending,
           s\<lparr>pending_downstream := hm_remove event_id (pending_downstream s),
             pending_peer_count := pending_peer_count s - length (pp_peers pending)\<rparr>))"

fun evict_delivered :: "string list \<Rightarrow> mesh \<Rightarrow> mesh" where
  "evict_delivered [] s = s"
| "evict_delivered (oldest # rest) s =
     (if max_seen_events (options s) \<le> length (delivered_events s)
      then evict_delivered rest
             (s\<lparr>delivered_order := rest, delivered_events := hm_remove oldest (delivered_events s)\<rparr>)
      else s)"

definition remember_delivered :: "string \<Rightarrow> u64 \<Rightarrow> mesh \<Rightarrow> bool \<times> mesh" where
  "remember_delivered event_id now_ms s =
     (if hm_contains (delivered_events s) event_id then (False, s)
      else
        (let s1 = evict_delivered (delivered_order s) s;
             expires = sat_add now_ms (event_ttl_ms (options s1))
         in (True,
             track_expiry expires
               (s1\<lparr>delivered_order := delivered_order s1 @ [event_id],
                   delivered_events := hm_insert event_id expires (delivered_events s1)\<rparr>))))"

record retained_state =
  rs_cached_events :: nat
  rs_cached_event_bytes :: u64
  rs_seen_inventories :: nat
  rs_delivered_events :: nat
  rs_upstream_routes :: nat
  rs_transport_disrupted_route_peers :: nat
  rs_pending_events :: nat
  rs_pending_peers :: nat
  rs_forwarded_wants :: nat
  rs_peer_behaviors :: nat

definition retained_state :: "mesh \<Rightarrow> retained_state" where
  "retained_state s = \<lparr>
     rs_cached_events = length (cached_events s),
     rs_cached_event_bytes = cached_event_bytes s,
     rs_seen_inventories = length (seen_inventories s),
     rs_delivered_events = length (delivered_events s),
     rs_upstream_routes = length (upstream_routes s),
     rs_transport_disrupted_route_peers =
       sum_list (map (\<lambda>r. length (ur_transport_disrupted_peers r)) (hm_values (upstream_routes s))),
     rs_pending_events = length (pending_downstream s),
     rs_pending_peers = pending_peer_count s,
     rs_forwarded_wants = length (want_forwarded s),
     rs_peer_behaviors = length (peer_behaviors s)\<rparr>"

section \<open>Peer behaviour\<close>

fun evict_behaviors :: "string list \<Rightarrow> mesh \<Rightarrow> mesh" where
  "evict_behaviors [] s = s"
| "evict_behaviors (oldest # rest) s =
     (if MAX_TRACKED_PEER_BEHAVIORS \<le> length (peer_behaviors s)
      then evict_behaviors rest
             (s\<lparr>peer_behavior_order := rest, peer_behaviors := hm_remove oldest (peer_behaviors s)\<rparr>)
      else s)"

definition default_behavior :: peer_behavior where
  "default_behavior = \<lparr>pb_score = 0, pb_samples = 0, pb_valid_frames = 0, pb_invalid_messages = 0,
     pb_unserved_inventories = 0\<rparr>"

fun count_evidence :: "peer_behavior_evidence \<Rightarrow> peer_behavior \<Rightarrow> peer_behavior" where
  "count_evidence ValidFrame b = b\<lparr>pb_valid_frames := sat_add (pb_valid_frames b) 1\<rparr>"
| "count_evidence InvalidMessage b = b\<lparr>pb_invalid_messages := sat_add (pb_invalid_messages b) 1\<rparr>"
| "count_evidence UnservedInventory b =
     b\<lparr>pb_unserved_inventories := sat_add (pb_unserved_inventories b) 1\<rparr>"

definition update_behavior :: "int \<Rightarrow> peer_behavior_evidence \<Rightarrow> peer_behavior \<Rightarrow> peer_behavior" where
  "update_behavior delta evidence b =
     count_evidence evidence
       (b\<lparr>pb_samples := sat_add (pb_samples b) 1,
          pb_score := clamp_int (-100) 100 (i32_sat_add (pb_score b) delta)\<rparr>)"

definition record_peer_behavior :: "string \<Rightarrow> int \<Rightarrow> peer_behavior_evidence \<Rightarrow> mesh \<Rightarrow> mesh" where
  "record_peer_behavior peer_id delta evidence s =
     (let s1 =
        (if hm_contains (peer_behaviors s) peer_id then s
         else (let s0 = evict_behaviors (peer_behavior_order s) s in
               s0\<lparr>peer_behavior_order := peer_behavior_order s0 @ [peer_id]\<rparr>));
          behavior = (case hm_get (peer_behaviors s1) peer_id of
                        Some b \<Rightarrow> b | None \<Rightarrow> default_behavior)
      in s1\<lparr>peer_behaviors :=
              hm_insert peer_id (update_behavior delta evidence behavior) (peer_behaviors s1)\<rparr>)"

definition record_invalid_message :: "string \<Rightarrow> mesh \<Rightarrow> mesh" where
  "record_invalid_message peer_id s =
     record_peer_behavior peer_id INVALID_MESSAGE_PENALTY InvalidMessage s"

definition peer_behavior_observation :: "mesh \<Rightarrow> string \<Rightarrow> peer_behavior option" where
  "peer_behavior_observation s peer_id =
     (case hm_get (peer_behaviors s) peer_id of
        None \<Rightarrow> None
      | Some b \<Rightarrow> if MIN_PEER_BEHAVIOR_SAMPLES \<le> pb_samples b then Some b else None)"

definition peer_behavior_score :: "mesh \<Rightarrow> string \<Rightarrow> int option" where
  "peer_behavior_score s peer_id = map_option pb_score (peer_behavior_observation s peer_id)"

definition peers_with_behavior :: "mesh \<Rightarrow> mesh_peer list \<Rightarrow> mesh_peer list" where
  "peers_with_behavior s peers =
     map (\<lambda>p.
       (let quality =
          (case (mp_score p, peer_behavior_score s (mp_id p)) of
             (Some external, Some local) \<Rightarrow>
               Some (clamp_int (-100) 100 (i32_sat_add external local))
           | (Some external, None) \<Rightarrow> Some external
           | (None, local) \<Rightarrow> local)
        in case quality of
             Some q \<Rightarrow> mesh_peer_observed (mp_id p) q
           | None \<Rightarrow> mesh_peer_new (mp_id p))) peers"

definition send_to_selected_peers ::
  "mesh \<Rightarrow> mesh_peer list \<Rightarrow> string option \<Rightarrow> wire_message \<Rightarrow> action list" where
  "send_to_selected_peers s peers excluded message =
     map (\<lambda>p. Send (mp_id p) message)
       (select_mesh_peers (peers_with_behavior s peers) excluded
          (fanout (options s)) (unknown_peer_reserve (options s)))"

section \<open>Inventory memory and pruning\<close>

text \<open>Everything that leaves with an evicted inventory.\<close>

definition forget_inventory :: "string \<Rightarrow> mesh \<Rightarrow> mesh" where
  "forget_inventory oldest s =
     (let s1 = s\<lparr>seen_inventories := hm_remove oldest (seen_inventories s)\<rparr>;
          s2 = s1\<lparr>upstream_routes := hm_remove oldest (upstream_routes s1)\<rparr>;
          s3 = snd (remove_pending_event oldest s2)
      in s3\<lparr>want_forwarded := hm_remove oldest (want_forwarded s3)\<rparr>)"

fun evict_seen :: "string list \<Rightarrow> mesh \<Rightarrow> mesh" where
  "evict_seen [] s = s"
| "evict_seen (oldest # rest) s =
     (if max_seen_events (options s) \<le> length (seen_inventories s)
      then evict_seen rest (forget_inventory oldest (s\<lparr>seen_order := rest\<rparr>))
      else s)"

definition remember_inventory :: "string \<Rightarrow> u64 \<Rightarrow> mesh \<Rightarrow> bool \<times> mesh" where
  "remember_inventory event_id now_ms s =
     (if (case hm_get (seen_inventories s) event_id of
            Some expiry \<Rightarrow> now_ms < expiry | None \<Rightarrow> False)
      then (False, s)
      else
        (let s1 =
           (if hm_contains (seen_inventories s) event_id then s
            else (let s0 = evict_seen (seen_order s) s in
                  s0\<lparr>seen_order := seen_order s0 @ [event_id]\<rparr>));
             expires = sat_add now_ms (route_ttl_ms (options s1))
         in (True,
             track_expiry expires
               (s1\<lparr>seen_inventories := hm_insert event_id expires (seen_inventories s1)\<rparr>))))"

definition expired_providers :: "u64 \<Rightarrow> mesh \<Rightarrow> string list" where
  "expired_providers now_ms s =
     concat (map (\<lambda>r. filter (\<lambda>p. p \<notin> set (ur_transport_disrupted_peers r))
                        (ur_peer_id r # ur_alternate_peers r))
        (filter (\<lambda>r. \<not> ur_fulfilled r \<and> ur_expires_at_ms r \<le> now_ms)
           (hm_values (upstream_routes s))))"

definition penalize_unserved :: "string list \<Rightarrow> mesh \<Rightarrow> mesh" where
  "penalize_unserved peers s =
     fold (\<lambda>p. record_peer_behavior p UNSERVED_INVENTORY_PENALTY UnservedInventory) peers s"

text \<open>The expiry sweep of \<open>prune\<close>, after the unserved routes were charged.\<close>

definition sweep_expired :: "u64 \<Rightarrow> mesh \<Rightarrow> mesh" where
  "sweep_expired now_ms s =
     (let s1 = prune_cached_events now_ms s;
          seen = hm_retain (\<lambda>_ t. now_ms < t) (seen_inventories s1);
          delivered = hm_retain (\<lambda>_ t. now_ms < t) (delivered_events s1);
          routes = hm_retain (\<lambda>_ r. now_ms < ur_expires_at_ms r) (upstream_routes s1);
          pending = hm_retain (\<lambda>k p. now_ms < pp_expires_at_ms p \<and> hm_contains routes k)
                      (pending_downstream s1);
          wants = hm_retain (\<lambda>k t. now_ms < t \<and> hm_contains routes k) (want_forwarded s1)
      in s1\<lparr>seen_inventories := seen,
            seen_order := filter (hm_contains seen) (seen_order s1),
            delivered_events := delivered,
            delivered_order := filter (hm_contains delivered) (delivered_order s1),
            upstream_routes := routes,
            pending_downstream := pending,
            pending_peer_count := sum_list (map (\<lambda>p. length (pp_peers p)) (hm_values pending)),
            want_forwarded := wants,
            next_prune_at_ms :=
              min_opt (map ce_expires_at_ms (hm_values (cached_events s1)) @ hm_values seen @
                       hm_values delivered @ map ur_expires_at_ms (hm_values routes))\<rparr>)"

definition prune :: "u64 \<Rightarrow> mesh \<Rightarrow> mesh" where
  "prune now_ms s =
     (case next_prune_at_ms s of
        None \<Rightarrow> s
      | Some next \<Rightarrow>
          if now_ms < next then s
          else sweep_expired now_ms (penalize_unserved (expired_providers now_ms s) s))"

definition maintain :: "u64 \<Rightarrow> mesh \<Rightarrow> mesh" where
  "maintain now_ms s = prune now_ms s"

section \<open>Local transport and admission evidence\<close>

definition route_provider :: "upstream_route \<Rightarrow> string \<Rightarrow> bool" where
  "route_provider r peer \<longleftrightarrow> ur_peer_id r = peer \<or> peer \<in> set (ur_alternate_peers r)"

definition dismiss_frame :: "string \<Rightarrow> string \<Rightarrow> mesh \<Rightarrow> mesh" where
  "dismiss_frame peer_id event_id s =
     (case hm_get (upstream_routes s) event_id of
        None \<Rightarrow> s
      | Some r \<Rightarrow>
          if route_provider r peer_id
          then snd (remove_pending_event event_id
                 (s\<lparr>upstream_routes :=
                      hm_insert event_id (r\<lparr>ur_fulfilled := True, ur_transport_disrupted_peers := []\<rparr>)
                        (upstream_routes s)\<rparr>))
          else s)"

definition record_transport_disruption :: "string \<Rightarrow> string \<Rightarrow> mesh \<Rightarrow> bool \<times> mesh" where
  "record_transport_disruption peer_id event_id s =
     (case hm_get (upstream_routes s) event_id of
        None \<Rightarrow> (False, s)
      | Some r \<Rightarrow>
          if \<not> ur_fulfilled r \<and> route_provider r peer_id \<and>
             peer_id \<notin> set (ur_transport_disrupted_peers r)
          then (True,
                s\<lparr>upstream_routes :=
                    hm_insert event_id
                      (r\<lparr>ur_transport_disrupted_peers :=
                           bset_insert peer_id (ur_transport_disrupted_peers r)\<rparr>)
                      (upstream_routes s)\<rparr>)
          else (False, s))"

section \<open>Publication and replay\<close>

text \<open>
  The common tail of \<open>publish\<close> and \<open>publish_verified\<close>, and of the two replays: the sources
  repeat it after their own validation call.
\<close>

definition publish_validated ::
  "nostr_lib \<Rightarrow> event \<Rightarrow> mesh_peer list \<Rightarrow> u64 \<Rightarrow> (string \<times> u32) result \<Rightarrow> mesh \<Rightarrow>
     action list result \<times> mesh" where
  "publish_validated lib e peers now_ms validated s =
     (case validated of
        Inl err \<Rightarrow> (Inl err, s)
      | Inr (event_id, payload_bytes) \<Rightarrow>
          (case remember_inventory event_id now_ms (store_event lib e payload_bytes now_ms s) of
             (fresh, s2) \<Rightarrow>
               if fresh
               then (Inr (send_to_selected_peers s2 peers None
                       (Inventory event_id (ev_kind e) payload_bytes (max_hops (options s2)))), s2)
               else (Inr [], s2)))"

definition publish ::
  "nostr_lib \<Rightarrow> event \<Rightarrow> mesh_peer list \<Rightarrow> u64 \<Rightarrow> mesh \<Rightarrow> action list result \<times> mesh" where
  "publish lib e peers now_ms s =
     (let s1 = prune now_ms s in
      publish_validated lib e peers now_ms (validate_event lib (options s1) e) s1)"

definition publish_verified ::
  "nostr_lib \<Rightarrow> verified_event \<Rightarrow> mesh_peer list \<Rightarrow> u64 \<Rightarrow> mesh \<Rightarrow> action list result \<times> mesh" where
  "publish_verified lib v peers now_ms s =
     (let s1 = prune now_ms s; e = as_event v in
      publish_validated lib e peers now_ms (validate_verified_event lib (options s1) e) s1)"

definition replay_validated ::
  "nostr_lib \<Rightarrow> event \<Rightarrow> string \<Rightarrow> u64 \<Rightarrow> (string \<times> u32) result \<Rightarrow> mesh \<Rightarrow>
     action list result \<times> mesh" where
  "replay_validated lib e peer_id now_ms validated s =
     (case validated of
        Inl err \<Rightarrow> (Inl err, s)
      | Inr (event_id, payload_bytes) \<Rightarrow>
          (let s2 = store_event lib e payload_bytes now_ms s in
           (Inr [Send peer_id
                   (Inventory event_id (ev_kind e) payload_bytes (max_hops (options s2)))], s2)))"

definition replay_to_peer ::
  "nostr_lib \<Rightarrow> event \<Rightarrow> string \<Rightarrow> u64 \<Rightarrow> mesh \<Rightarrow> action list result \<times> mesh" where
  "replay_to_peer lib e peer_id now_ms s =
     (let s1 = prune now_ms s in
      replay_validated lib e peer_id now_ms (validate_event lib (options s1) e) s1)"

definition replay_verified_to_peer ::
  "nostr_lib \<Rightarrow> verified_event \<Rightarrow> string \<Rightarrow> u64 \<Rightarrow> mesh \<Rightarrow> action list result \<times> mesh" where
  "replay_verified_to_peer lib v peer_id now_ms s =
     (let s1 = prune now_ms s; e = as_event v in
      replay_validated lib e peer_id now_ms (validate_verified_event lib (options s1) e) s1)"

definition seed_verified :: "nostr_lib \<Rightarrow> verified_event \<Rightarrow> u64 \<Rightarrow> mesh \<Rightarrow> unit result \<times> mesh" where
  "seed_verified lib v now_ms s =
     (let s1 = prune now_ms s; e = as_event v in
      case validate_verified_event lib (options s1) e of
        Inl err \<Rightarrow> (Inl err, s1)
      | Inr (_, payload_bytes) \<Rightarrow> (Inr (), store_event lib e payload_bytes now_ms s1))"

text \<open>
  \<open>replay_cached_to_peer\<close> panics when a cached size does not fit \<open>u32\<close>; \<open>None\<close> is that panic.
\<close>

definition cached_inventory :: "mesh \<Rightarrow> string \<Rightarrow> string \<Rightarrow> action option option" where
  "cached_inventory s peer_id event_id =
     (case hm_get (cached_events s) event_id of
        None \<Rightarrow> Some None
      | Some c \<Rightarrow>
          if unat (ce_payload_bytes c) < 2 ^ 32
          then Some (Some (Send peer_id
                 (Inventory event_id (ev_kind (ce_event c)) (ucast (ce_payload_bytes c))
                    (max_hops (options s)))))
          else None)"

fun collect_actions :: "action option option list \<Rightarrow> action list option" where
  "collect_actions [] = Some []"
| "collect_actions (None # xs) = None"
| "collect_actions (Some None # xs) = collect_actions xs"
| "collect_actions (Some (Some a) # xs) = map_option (Cons a) (collect_actions xs)"

definition replay_cached_to_peer :: "string \<Rightarrow> u64 \<Rightarrow> mesh \<Rightarrow> action list option \<times> mesh" where
  "replay_cached_to_peer peer_id now_ms s =
     (let s1 = prune now_ms s in
      (collect_actions (map (cached_inventory s1 peer_id) (cache_order s1)), s1))"

section \<open>Receiving messages\<close>

text \<open>
  The repeated announcement of a known inventory: a live route may gain one more provider, up to
  three in all.
\<close>

definition retry_inventory ::
  "string \<Rightarrow> string \<Rightarrow> u16 \<Rightarrow> u32 \<Rightarrow> u8 \<Rightarrow> u64 \<Rightarrow> mesh \<Rightarrow> action list result \<times> mesh" where
  "retry_inventory source_peer event_id event_kind payload_bytes hop_limit now_ms s =
     (case hm_get (upstream_routes s) event_id of
        None \<Rightarrow> (Inr [], s)
      | Some route \<Rightarrow>
          if ur_fulfilled route then (Inr [], s)
          else if ur_event_kind route \<noteq> event_kind \<or> ur_payload_bytes route \<noteq> payload_bytes
          then (Inl (Validation ''retried inv/want inventory changed kind or size''), s)
          else
            (let route1 = route\<lparr>ur_hop_limit := max (ur_hop_limit route) hop_limit\<rparr>;
                 want = Send source_peer (Want event_id)
             in
             if ur_peer_id route1 \<noteq> source_peer \<and> source_peer \<notin> set (ur_alternate_peers route1)
             then
               (if MAX_UPSTREAM_PROVIDERS_PER_EVENT \<le> length (ur_alternate_peers route1) + 1
                then (Inr [], s\<lparr>upstream_routes := hm_insert event_id route1 (upstream_routes s)\<rparr>)
                else
                  (let extended = sat_add now_ms (route_ttl_ms (options s));
                       route2 = route1\<lparr>ur_alternate_peers :=
                                         bset_insert source_peer (ur_alternate_peers route1),
                                       ur_expires_at_ms := extended,
                                       ur_transport_disrupted_peers :=
                                         bset_remove source_peer (ur_transport_disrupted_peers route1)\<rparr>
                   in (Inr [want],
                       s\<lparr>upstream_routes := hm_insert event_id route2 (upstream_routes s),
                         seen_inventories := hm_insert event_id extended (seen_inventories s),
                         want_forwarded := hm_insert event_id extended (want_forwarded s)\<rparr>)))
             else
               (Inr [want],
                s\<lparr>upstream_routes :=
                    hm_insert event_id
                      (route1\<lparr>ur_transport_disrupted_peers :=
                         bset_remove source_peer (ur_transport_disrupted_peers route1)\<rparr>)
                      (upstream_routes s)\<rparr>)))"

definition open_route ::
  "string \<Rightarrow> string \<Rightarrow> u16 \<Rightarrow> u32 \<Rightarrow> u8 \<Rightarrow> u64 \<Rightarrow> mesh \<Rightarrow> action list result \<times> mesh" where
  "open_route source_peer event_id event_kind payload_bytes hop_limit now_ms s =
     (let route_expiry = sat_add now_ms (route_ttl_ms (options s));
          routes =
            (if hm_contains (upstream_routes s) event_id then upstream_routes s
             else hm_insert event_id
                    \<lparr>ur_peer_id = source_peer, ur_alternate_peers = [],
                     ur_transport_disrupted_peers = [], ur_event_kind = event_kind,
                     ur_payload_bytes = payload_bytes, ur_hop_limit = hop_limit,
                     ur_expires_at_ms = route_expiry, ur_fulfilled = False\<rparr> (upstream_routes s))
      in (Inr [Send source_peer (Want event_id)],
          s\<lparr>upstream_routes := routes,
            want_forwarded := hm_insert event_id route_expiry (want_forwarded s)\<rparr>))"

definition receive_inventory ::
  "string \<Rightarrow> string \<Rightarrow> u16 \<Rightarrow> u32 \<Rightarrow> u8 \<Rightarrow> u64 \<Rightarrow> mesh \<Rightarrow> action list result \<times> mesh" where
  "receive_inventory source_peer event_id event_kind payload_bytes hop_limit now_ms s =
     (case validate_event_id event_id of
        Inl err \<Rightarrow> (Inl err, s)
      | Inr _ \<Rightarrow>
     (case validate_kind (options s) event_kind of
        Inl err \<Rightarrow> (Inl err, s)
      | Inr _ \<Rightarrow>
     (case validate_event_len (options s) (unat payload_bytes) of
        Inl err \<Rightarrow> (Inl err, s)
      | Inr _ \<Rightarrow>
        if hop_limit = 0 then (Inr [], s)
        else if max_hops (options s) < hop_limit
        then (Inl (Validation ''inv/want hop limit exceeds local maximum''), s)
        else if hm_contains (cached_events s) event_id then (Inr [], s)
        else
          (case remember_inventory event_id now_ms s of
             (fresh, s1) \<Rightarrow>
               if \<not> fresh
               then retry_inventory source_peer event_id event_kind payload_bytes hop_limit now_ms s1
               else open_route source_peer event_id event_kind payload_bytes hop_limit now_ms s1))))"

definition park_want :: "string \<Rightarrow> string \<Rightarrow> u64 \<Rightarrow> mesh \<Rightarrow> mesh" where
  "park_want source_peer event_id now_ms s =
     (let pending =
        (case hm_get (pending_downstream s) event_id of
           Some p \<Rightarrow> p
         | None \<Rightarrow> \<lparr>pp_peers = [], pp_expires_at_ms = sat_add now_ms (route_ttl_ms (options s))\<rparr>)
      in if length (pp_peers pending) < max_pending_peers_per_event (options s) \<and>
            source_peer \<notin> set (pp_peers pending)
         then s\<lparr>pending_downstream :=
                  hm_insert event_id (pending\<lparr>pp_peers := bset_insert source_peer (pp_peers pending)\<rparr>)
                    (pending_downstream s),
                pending_peer_count := pending_peer_count s + 1\<rparr>
         else s\<lparr>pending_downstream := hm_insert event_id pending (pending_downstream s)\<rparr>)"

definition receive_want :: "string \<Rightarrow> string \<Rightarrow> u64 \<Rightarrow> mesh \<Rightarrow> action list result \<times> mesh" where
  "receive_want source_peer event_id now_ms s =
     (case validate_event_id event_id of
        Inl err \<Rightarrow> (Inl err, s)
      | Inr _ \<Rightarrow>
     (case hm_get (cached_events s) event_id of
        Some cached \<Rightarrow> (Inr [Send source_peer (Frame event_id (ce_event cached))], s)
      | None \<Rightarrow>
     (case hm_get (upstream_routes s) event_id of
        None \<Rightarrow> (Inr [], s)
      | Some route \<Rightarrow>
          if ur_fulfilled route then (Inr [], s)
          else
            (let s1 = park_want source_peer event_id now_ms s in
             if (case hm_get (want_forwarded s1) event_id of
                   Some expiry \<Rightarrow> now_ms < expiry | None \<Rightarrow> False)
             then (Inr [], s1)
             else
               (let routes =
                  (case hm_get (upstream_routes s1) event_id of
                     None \<Rightarrow> upstream_routes s1
                   | Some r \<Rightarrow>
                       hm_insert event_id
                         (r\<lparr>ur_transport_disrupted_peers :=
                              bset_remove (ur_peer_id r) (ur_transport_disrupted_peers r)\<rparr>)
                         (upstream_routes s1))
                in (Inr [Send (ur_peer_id route) (Want event_id)],
                    s1\<lparr>upstream_routes := routes,
                       want_forwarded :=
                         hm_insert event_id (ur_expires_at_ms route) (want_forwarded s1)\<rparr>))))))"

text \<open>What an accepted frame does: credit, storage, fulfilment, delivery, pending peers, forwarding.\<close>

definition accept_frame ::
  "nostr_lib \<Rightarrow> string \<Rightarrow> string \<Rightarrow> event \<Rightarrow> u32 \<Rightarrow> upstream_route \<Rightarrow> mesh_peer list \<Rightarrow> u64 \<Rightarrow> mesh \<Rightarrow>
     action list \<times> mesh" where
  "accept_frame lib source_peer event_id e payload_bytes route peers now_ms s =
     (let s1 = record_peer_behavior source_peer VALID_FRAME_REWARD ValidFrame s;
          s2 = store_event lib e payload_bytes now_ms s1;
          s3 = (case hm_get (upstream_routes s2) event_id of
                  None \<Rightarrow> s2
                | Some r \<Rightarrow>
                    s2\<lparr>upstream_routes :=
                         hm_insert event_id (r\<lparr>ur_fulfilled := True, ur_transport_disrupted_peers := []\<rparr>)
                           (upstream_routes s2)\<rparr>);
          (first_delivery, s4) = remember_delivered event_id now_ms s3;
          deliver = (if first_delivery then [Deliver source_peer e] else []);
          (removed, s5) = remove_pending_event event_id s4;
          frames = (case removed of
                      None \<Rightarrow> []
                    | Some pending \<Rightarrow> map (\<lambda>p. Send p (Frame event_id e)) (pp_peers pending));
          forwards = (if 1 < ur_hop_limit route
                      then send_to_selected_peers s5 peers (Some source_peer)
                             (Inventory event_id (ev_kind e) payload_bytes (ur_hop_limit route - 1))
                      else [])
      in (deliver @ frames @ forwards, s5))"

definition receive_frame ::
  "nostr_lib \<Rightarrow> string \<Rightarrow> string \<Rightarrow> event \<Rightarrow> mesh_peer list \<Rightarrow> u64 \<Rightarrow> bool \<Rightarrow> mesh \<Rightarrow>
     action list result \<times> mesh" where
  "receive_frame lib source_peer event_id e peers now_ms verify_sig s =
     (case validate_event_id event_id of
        Inl err \<Rightarrow> (Inl err, s)
      | Inr _ \<Rightarrow>
     (case hm_get (upstream_routes s) event_id of
        None \<Rightarrow> (Inl (Validation ''unsolicited inv/want frame''), s)
      | Some route \<Rightarrow>
        if \<not> hm_contains (want_forwarded s) event_id \<or> \<not> route_provider route source_peer
        then (Inl (Validation ''inv/want frame was not requested from source''), s)
        else
          (case (if verify_sig then validate_event lib (options s) e
                 else validate_verified_event lib (options s) e) of
             Inl err \<Rightarrow> (Inl err, s)
           | Inr (verified_id, payload_bytes) \<Rightarrow>
               if verified_id \<noteq> event_id
               then (Inl (Validation ''inv/want frame id does not match signed event id''), s)
               else if ur_event_kind route \<noteq> ev_kind e \<or> ur_payload_bytes route \<noteq> payload_bytes
               then (Inl (Validation
                       ''inv/want frame does not match announced kind or payload size''), s)
               else if ur_fulfilled route then (Inr [], s)
               else (case accept_frame lib source_peer event_id e payload_bytes route peers now_ms s of
                       (actions, s') \<Rightarrow> (Inr actions, s')))))"

definition charge_error :: "string \<Rightarrow> 'a result \<times> mesh \<Rightarrow> 'a result \<times> mesh" where
  "charge_error source_peer r =
     (case r of
        (Inl err, s) \<Rightarrow> (Inl err, record_invalid_message source_peer s)
      | (Inr a, s) \<Rightarrow> (Inr a, s))"

definition receive ::
  "nostr_lib \<Rightarrow> string \<Rightarrow> wire_message \<Rightarrow> mesh_peer list \<Rightarrow> u64 \<Rightarrow> mesh \<Rightarrow> action list result \<times> mesh" where
  "receive lib source_peer message peers now_ms s =
     (let s1 = prune now_ms s in
      charge_error source_peer
        (case message of
           Inventory event_id event_kind payload_bytes hop_limit \<Rightarrow>
             receive_inventory source_peer event_id event_kind payload_bytes hop_limit now_ms s1
         | Want event_id \<Rightarrow> receive_want source_peer event_id now_ms s1
         | Frame event_id e \<Rightarrow> receive_frame lib source_peer event_id e peers now_ms True s1))"

definition receive_verified_frame ::
  "nostr_lib \<Rightarrow> string \<Rightarrow> string \<Rightarrow> verified_event \<Rightarrow> mesh_peer list \<Rightarrow> u64 \<Rightarrow> mesh \<Rightarrow>
     action list result \<times> mesh" where
  "receive_verified_frame lib source_peer event_id v peers now_ms s =
     charge_error source_peer
       (receive_frame lib source_peer event_id (as_event v) peers now_ms False (prune now_ms s))"

end
