(* ===== verification/Mesh_Frame.thy ===== *)
theory Mesh_Frame
  imports Mesh
begin

text \<open>
  Which fields of the mesh each internal operation leaves alone. The lemmas are simplification
  rules: the proofs of the invariants then only see the fields that an operation writes.
\<close>

lemma track_expiry_frame [simp]:
  "options (track_expiry t s) = options s"
  "cached_events (track_expiry t s) = cached_events s"
  "cache_order (track_expiry t s) = cache_order s"
  "cached_event_bytes (track_expiry t s) = cached_event_bytes s"
  "seen_inventories (track_expiry t s) = seen_inventories s"
  "seen_order (track_expiry t s) = seen_order s"
  "delivered_events (track_expiry t s) = delivered_events s"
  "delivered_order (track_expiry t s) = delivered_order s"
  "upstream_routes (track_expiry t s) = upstream_routes s"
  "pending_downstream (track_expiry t s) = pending_downstream s"
  "pending_peer_count (track_expiry t s) = pending_peer_count s"
  "want_forwarded (track_expiry t s) = want_forwarded s"
  "peer_behaviors (track_expiry t s) = peer_behaviors s"
  "peer_behavior_order (track_expiry t s) = peer_behavior_order s"
  by (simp_all add: track_expiry_def)

lemma evict_oldest_loop_frame [simp]:
  "options (snd (evict_oldest_loop q s)) = options s"
  "seen_inventories (snd (evict_oldest_loop q s)) = seen_inventories s"
  "seen_order (snd (evict_oldest_loop q s)) = seen_order s"
  "delivered_events (snd (evict_oldest_loop q s)) = delivered_events s"
  "delivered_order (snd (evict_oldest_loop q s)) = delivered_order s"
  "upstream_routes (snd (evict_oldest_loop q s)) = upstream_routes s"
  "pending_downstream (snd (evict_oldest_loop q s)) = pending_downstream s"
  "pending_peer_count (snd (evict_oldest_loop q s)) = pending_peer_count s"
  "want_forwarded (snd (evict_oldest_loop q s)) = want_forwarded s"
  "next_prune_at_ms (snd (evict_oldest_loop q s)) = next_prune_at_ms s"
  "peer_behaviors (snd (evict_oldest_loop q s)) = peer_behaviors s"
  "peer_behavior_order (snd (evict_oldest_loop q s)) = peer_behavior_order s"
  by (induction q s rule: evict_oldest_loop.induct) (simp_all split: option.splits)

lemma evict_oldest_cached_event_frame [simp]:
  "options (snd (evict_oldest_cached_event s)) = options s"
  "seen_inventories (snd (evict_oldest_cached_event s)) = seen_inventories s"
  "seen_order (snd (evict_oldest_cached_event s)) = seen_order s"
  "delivered_events (snd (evict_oldest_cached_event s)) = delivered_events s"
  "delivered_order (snd (evict_oldest_cached_event s)) = delivered_order s"
  "upstream_routes (snd (evict_oldest_cached_event s)) = upstream_routes s"
  "pending_downstream (snd (evict_oldest_cached_event s)) = pending_downstream s"
  "pending_peer_count (snd (evict_oldest_cached_event s)) = pending_peer_count s"
  "want_forwarded (snd (evict_oldest_cached_event s)) = want_forwarded s"
  "next_prune_at_ms (snd (evict_oldest_cached_event s)) = next_prune_at_ms s"
  "peer_behaviors (snd (evict_oldest_cached_event s)) = peer_behaviors s"
  "peer_behavior_order (snd (evict_oldest_cached_event s)) = peer_behavior_order s"
  by (simp_all add: evict_oldest_cached_event_def)

lemma make_room_keeps:
  assumes "\<And>s. f (snd (evict_oldest_cached_event s)) = f s"
  shows "f (make_room n s) = f s"
proof (induction n s rule: make_room.induct)
  case (1 n s)
  obtain ok s1 where ev: "evict_oldest_cached_event s = (ok, s1)" by force
  then have "f s1 = f s" using assms[of s] by simp
  with "1.IH" show ?case by (subst make_room.simps) (auto simp: ev)
qed

lemma make_room_frame [simp]:
  "options (make_room n s) = options s"
  "seen_inventories (make_room n s) = seen_inventories s"
  "seen_order (make_room n s) = seen_order s"
  "delivered_events (make_room n s) = delivered_events s"
  "delivered_order (make_room n s) = delivered_order s"
  "upstream_routes (make_room n s) = upstream_routes s"
  "pending_downstream (make_room n s) = pending_downstream s"
  "pending_peer_count (make_room n s) = pending_peer_count s"
  "want_forwarded (make_room n s) = want_forwarded s"
  "next_prune_at_ms (make_room n s) = next_prune_at_ms s"
  "peer_behaviors (make_room n s) = peer_behaviors s"
  "peer_behavior_order (make_room n s) = peer_behavior_order s"
  by (simp_all add: make_room_keeps)

lemma store_event_frame [simp]:
  "options (store_event lib e n now s) = options s"
  "seen_inventories (store_event lib e n now s) = seen_inventories s"
  "seen_order (store_event lib e n now s) = seen_order s"
  "delivered_events (store_event lib e n now s) = delivered_events s"
  "delivered_order (store_event lib e n now s) = delivered_order s"
  "upstream_routes (store_event lib e n now s) = upstream_routes s"
  "pending_downstream (store_event lib e n now s) = pending_downstream s"
  "pending_peer_count (store_event lib e n now s) = pending_peer_count s"
  "want_forwarded (store_event lib e n now s) = want_forwarded s"
  "peer_behaviors (store_event lib e n now s) = peer_behaviors s"
  "peer_behavior_order (store_event lib e n now s) = peer_behavior_order s"
  by (simp_all add: store_event_def Let_def split: option.splits)

lemma prune_cached_events_frame [simp]:
  "options (prune_cached_events now s) = options s"
  "seen_inventories (prune_cached_events now s) = seen_inventories s"
  "seen_order (prune_cached_events now s) = seen_order s"
  "delivered_events (prune_cached_events now s) = delivered_events s"
  "delivered_order (prune_cached_events now s) = delivered_order s"
  "upstream_routes (prune_cached_events now s) = upstream_routes s"
  "pending_downstream (prune_cached_events now s) = pending_downstream s"
  "pending_peer_count (prune_cached_events now s) = pending_peer_count s"
  "want_forwarded (prune_cached_events now s) = want_forwarded s"
  "next_prune_at_ms (prune_cached_events now s) = next_prune_at_ms s"
  "peer_behaviors (prune_cached_events now s) = peer_behaviors s"
  "peer_behavior_order (prune_cached_events now s) = peer_behavior_order s"
  by (simp_all add: prune_cached_events_def Let_def)

lemma remove_pending_event_frame [simp]:
  "options (snd (remove_pending_event k s)) = options s"
  "cached_events (snd (remove_pending_event k s)) = cached_events s"
  "cache_order (snd (remove_pending_event k s)) = cache_order s"
  "cached_event_bytes (snd (remove_pending_event k s)) = cached_event_bytes s"
  "seen_inventories (snd (remove_pending_event k s)) = seen_inventories s"
  "seen_order (snd (remove_pending_event k s)) = seen_order s"
  "delivered_events (snd (remove_pending_event k s)) = delivered_events s"
  "delivered_order (snd (remove_pending_event k s)) = delivered_order s"
  "upstream_routes (snd (remove_pending_event k s)) = upstream_routes s"
  "want_forwarded (snd (remove_pending_event k s)) = want_forwarded s"
  "next_prune_at_ms (snd (remove_pending_event k s)) = next_prune_at_ms s"
  "peer_behaviors (snd (remove_pending_event k s)) = peer_behaviors s"
  "peer_behavior_order (snd (remove_pending_event k s)) = peer_behavior_order s"
  by (simp_all add: remove_pending_event_def split: option.splits)

lemma evict_delivered_frame [simp]:
  "options (evict_delivered q s) = options s"
  "cached_events (evict_delivered q s) = cached_events s"
  "cache_order (evict_delivered q s) = cache_order s"
  "cached_event_bytes (evict_delivered q s) = cached_event_bytes s"
  "seen_inventories (evict_delivered q s) = seen_inventories s"
  "seen_order (evict_delivered q s) = seen_order s"
  "upstream_routes (evict_delivered q s) = upstream_routes s"
  "pending_downstream (evict_delivered q s) = pending_downstream s"
  "pending_peer_count (evict_delivered q s) = pending_peer_count s"
  "want_forwarded (evict_delivered q s) = want_forwarded s"
  "next_prune_at_ms (evict_delivered q s) = next_prune_at_ms s"
  "peer_behaviors (evict_delivered q s) = peer_behaviors s"
  "peer_behavior_order (evict_delivered q s) = peer_behavior_order s"
  by (induction q s rule: evict_delivered.induct) simp_all

lemma remember_delivered_frame [simp]:
  "options (snd (remember_delivered k now s)) = options s"
  "cached_events (snd (remember_delivered k now s)) = cached_events s"
  "cache_order (snd (remember_delivered k now s)) = cache_order s"
  "cached_event_bytes (snd (remember_delivered k now s)) = cached_event_bytes s"
  "seen_inventories (snd (remember_delivered k now s)) = seen_inventories s"
  "seen_order (snd (remember_delivered k now s)) = seen_order s"
  "upstream_routes (snd (remember_delivered k now s)) = upstream_routes s"
  "pending_downstream (snd (remember_delivered k now s)) = pending_downstream s"
  "pending_peer_count (snd (remember_delivered k now s)) = pending_peer_count s"
  "want_forwarded (snd (remember_delivered k now s)) = want_forwarded s"
  "peer_behaviors (snd (remember_delivered k now s)) = peer_behaviors s"
  "peer_behavior_order (snd (remember_delivered k now s)) = peer_behavior_order s"
  by (simp_all add: remember_delivered_def Let_def)

lemma evict_behaviors_frame [simp]:
  "options (evict_behaviors q s) = options s"
  "cached_events (evict_behaviors q s) = cached_events s"
  "cache_order (evict_behaviors q s) = cache_order s"
  "cached_event_bytes (evict_behaviors q s) = cached_event_bytes s"
  "seen_inventories (evict_behaviors q s) = seen_inventories s"
  "seen_order (evict_behaviors q s) = seen_order s"
  "delivered_events (evict_behaviors q s) = delivered_events s"
  "delivered_order (evict_behaviors q s) = delivered_order s"
  "upstream_routes (evict_behaviors q s) = upstream_routes s"
  "pending_downstream (evict_behaviors q s) = pending_downstream s"
  "pending_peer_count (evict_behaviors q s) = pending_peer_count s"
  "want_forwarded (evict_behaviors q s) = want_forwarded s"
  "next_prune_at_ms (evict_behaviors q s) = next_prune_at_ms s"
  by (induction q s rule: evict_behaviors.induct) simp_all

lemma record_peer_behavior_frame [simp]:
  "options (record_peer_behavior p d v s) = options s"
  "cached_events (record_peer_behavior p d v s) = cached_events s"
  "cache_order (record_peer_behavior p d v s) = cache_order s"
  "cached_event_bytes (record_peer_behavior p d v s) = cached_event_bytes s"
  "seen_inventories (record_peer_behavior p d v s) = seen_inventories s"
  "seen_order (record_peer_behavior p d v s) = seen_order s"
  "delivered_events (record_peer_behavior p d v s) = delivered_events s"
  "delivered_order (record_peer_behavior p d v s) = delivered_order s"
  "upstream_routes (record_peer_behavior p d v s) = upstream_routes s"
  "pending_downstream (record_peer_behavior p d v s) = pending_downstream s"
  "pending_peer_count (record_peer_behavior p d v s) = pending_peer_count s"
  "want_forwarded (record_peer_behavior p d v s) = want_forwarded s"
  "next_prune_at_ms (record_peer_behavior p d v s) = next_prune_at_ms s"
  by (simp_all add: record_peer_behavior_def Let_def)

lemma record_invalid_message_frame [simp]:
  "options (record_invalid_message p s) = options s"
  "cached_events (record_invalid_message p s) = cached_events s"
  "cache_order (record_invalid_message p s) = cache_order s"
  "cached_event_bytes (record_invalid_message p s) = cached_event_bytes s"
  "seen_inventories (record_invalid_message p s) = seen_inventories s"
  "seen_order (record_invalid_message p s) = seen_order s"
  "delivered_events (record_invalid_message p s) = delivered_events s"
  "delivered_order (record_invalid_message p s) = delivered_order s"
  "upstream_routes (record_invalid_message p s) = upstream_routes s"
  "pending_downstream (record_invalid_message p s) = pending_downstream s"
  "pending_peer_count (record_invalid_message p s) = pending_peer_count s"
  "want_forwarded (record_invalid_message p s) = want_forwarded s"
  "next_prune_at_ms (record_invalid_message p s) = next_prune_at_ms s"
  by (simp_all add: record_invalid_message_def)

lemma penalize_unserved_frame [simp]:
  "options (penalize_unserved ps s) = options s"
  "cached_events (penalize_unserved ps s) = cached_events s"
  "cache_order (penalize_unserved ps s) = cache_order s"
  "cached_event_bytes (penalize_unserved ps s) = cached_event_bytes s"
  "seen_inventories (penalize_unserved ps s) = seen_inventories s"
  "seen_order (penalize_unserved ps s) = seen_order s"
  "delivered_events (penalize_unserved ps s) = delivered_events s"
  "delivered_order (penalize_unserved ps s) = delivered_order s"
  "upstream_routes (penalize_unserved ps s) = upstream_routes s"
  "pending_downstream (penalize_unserved ps s) = pending_downstream s"
  "pending_peer_count (penalize_unserved ps s) = pending_peer_count s"
  "want_forwarded (penalize_unserved ps s) = want_forwarded s"
  "next_prune_at_ms (penalize_unserved ps s) = next_prune_at_ms s"
  by (induction ps arbitrary: s) (simp_all add: penalize_unserved_def)

lemma forget_inventory_frame [simp]:
  "options (forget_inventory k s) = options s"
  "cached_events (forget_inventory k s) = cached_events s"
  "cache_order (forget_inventory k s) = cache_order s"
  "cached_event_bytes (forget_inventory k s) = cached_event_bytes s"
  "seen_order (forget_inventory k s) = seen_order s"
  "delivered_events (forget_inventory k s) = delivered_events s"
  "delivered_order (forget_inventory k s) = delivered_order s"
  "next_prune_at_ms (forget_inventory k s) = next_prune_at_ms s"
  "peer_behaviors (forget_inventory k s) = peer_behaviors s"
  "peer_behavior_order (forget_inventory k s) = peer_behavior_order s"
  by (simp_all add: forget_inventory_def Let_def)

lemma evict_seen_frame [simp]:
  "options (evict_seen q s) = options s"
  "cached_events (evict_seen q s) = cached_events s"
  "cache_order (evict_seen q s) = cache_order s"
  "cached_event_bytes (evict_seen q s) = cached_event_bytes s"
  "delivered_events (evict_seen q s) = delivered_events s"
  "delivered_order (evict_seen q s) = delivered_order s"
  "next_prune_at_ms (evict_seen q s) = next_prune_at_ms s"
  "peer_behaviors (evict_seen q s) = peer_behaviors s"
  "peer_behavior_order (evict_seen q s) = peer_behavior_order s"
  by (induction q s rule: evict_seen.induct) simp_all

lemma remember_inventory_frame [simp]:
  "options (snd (remember_inventory k now s)) = options s"
  "cached_events (snd (remember_inventory k now s)) = cached_events s"
  "cache_order (snd (remember_inventory k now s)) = cache_order s"
  "cached_event_bytes (snd (remember_inventory k now s)) = cached_event_bytes s"
  "delivered_events (snd (remember_inventory k now s)) = delivered_events s"
  "delivered_order (snd (remember_inventory k now s)) = delivered_order s"
  "peer_behaviors (snd (remember_inventory k now s)) = peer_behaviors s"
  "peer_behavior_order (snd (remember_inventory k now s)) = peer_behavior_order s"
  by (simp_all add: remember_inventory_def Let_def)

lemma park_want_frame [simp]:
  "options (park_want p k now s) = options s"
  "cached_events (park_want p k now s) = cached_events s"
  "cache_order (park_want p k now s) = cache_order s"
  "cached_event_bytes (park_want p k now s) = cached_event_bytes s"
  "seen_inventories (park_want p k now s) = seen_inventories s"
  "seen_order (park_want p k now s) = seen_order s"
  "delivered_events (park_want p k now s) = delivered_events s"
  "delivered_order (park_want p k now s) = delivered_order s"
  "upstream_routes (park_want p k now s) = upstream_routes s"
  "want_forwarded (park_want p k now s) = want_forwarded s"
  "next_prune_at_ms (park_want p k now s) = next_prune_at_ms s"
  "peer_behaviors (park_want p k now s) = peer_behaviors s"
  "peer_behavior_order (park_want p k now s) = peer_behavior_order s"
  by (simp_all add: park_want_def Let_def split: option.splits)

end
