(* ===== verification/Mesh_Resources.thy ===== *)
theory Mesh_Resources
  imports Mesh_Frame
begin

text \<open>
  The bounded resources of the mesh: the event cache with its two limits, the window of delivered events and the
  table of peer behaviours. Each has a well-formedness predicate that its operations keep; the
  cache's predicate ties the byte counter to the cached events and says where they come from.
\<close>

section \<open>Well-formed options\<close>

text \<open>
  What \<open>InvWantMesh::new\<close> establishes. The byte limits are \<open>usize\<close> values; that they are below
  \<open>u64::MAX\<close>, so that the saturating byte counter can exceed them, is the one fact about them that
  is assumed.
\<close>

definition options_wf :: "mesh_options \<Rightarrow> bool" where
  "options_wf opts \<longleftrightarrow>
     0 < fanout opts \<and> unknown_peer_reserve opts \<le> fanout opts \<and> 0 < max_hops opts \<and>
     0 < max_event_bytes opts \<and> 0 < max_cached_events opts \<and>
     max_event_bytes opts \<le> max_cached_event_bytes opts \<and>
     max_cached_event_bytes opts < 2 ^ 64 - 1 \<and> 0 < max_seen_events opts \<and>
     0 < max_pending_peers_per_event opts \<and> 0 < route_ttl_ms opts \<and>
     route_ttl_ms opts \<le> event_ttl_ms opts"

definition usize_limits :: "mesh_options \<Rightarrow> bool" where
  "usize_limits opts \<longleftrightarrow> max_cached_event_bytes opts < 2 ^ 64 - 1 \<and> max_event_bytes opts < 2 ^ 64 - 1"

section \<open>Predicates\<close>

definition admitted :: "nostr_lib \<Rightarrow> mesh_options \<Rightarrow> string \<Rightarrow> cached_event \<Rightarrow> bool" where
  "admitted lib opts k c \<longleftrightarrow>
     (\<exists>p. validate_event lib opts (ce_event c) = Inr (k, p) \<and> ce_payload_bytes c = ucast p)"

abbreviation payload_sum :: "(string, cached_event) hmap \<Rightarrow> nat" where
  "payload_sum m \<equiv> sum_list (map (\<lambda>kc. unat (ce_payload_bytes (snd kc))) m)"

definition cache_inv :: "nostr_lib \<Rightarrow> mesh \<Rightarrow> bool" where
  "cache_inv lib s \<longleftrightarrow>
     fifo_ok (max_cached_events (options s)) (cached_events s) (cache_order s) \<and>
     unat (cached_event_bytes s) = payload_sum (cached_events s) \<and>
     payload_sum (cached_events s) \<le> max_cached_event_bytes (options s) \<and>
     (\<forall>(k, c) \<in> set (cached_events s). admitted lib (options s) k c)"

definition delivered_inv :: "mesh \<Rightarrow> bool" where
  "delivered_inv s \<longleftrightarrow> fifo_ok (max_seen_events (options s)) (delivered_events s) (delivered_order s)"

definition behavior_ok :: "peer_behavior \<Rightarrow> bool" where
  "behavior_ok b \<longleftrightarrow> -100 \<le> pb_score b \<and> pb_score b \<le> 100"

definition behavior_inv :: "mesh \<Rightarrow> bool" where
  "behavior_inv s \<longleftrightarrow>
     fifo_ok MAX_TRACKED_PEER_BEHAVIORS (peer_behaviors s) (peer_behavior_order s) \<and>
     (\<forall>(k, b) \<in> set (peer_behaviors s). behavior_ok b)"

section \<open>Options and validation\<close>

lemma options_wf_normalize: "usize_limits o0 \<Longrightarrow> options_wf (normalize_options o0)"
  by (simp add: options_wf_def normalize_options_def Let_def usize_limits_def less_max_iff_disj)

lemma validate_event_id_canonical: "validate_event_id k = Inr () \<longleftrightarrow> canonical_hex k"
proof -
  have "((CHR ''0'' \<le> c \<and> c \<le> CHR ''9'') \<or> (CHR ''a'' \<le> c \<and> c \<le> CHR ''f'')) = hex_digit c" for c
  proof -
    have "(48 \<le> n \<and> n \<le> 57) \<or> (97 \<le> n \<and> n \<le> 102) \<longleftrightarrow>
        n \<in> {48, 49, 50, 51, 52, 53, 54, 55, 56, 57, 97, 98, 99, 100, 101, 102}" for n :: nat
      unfolding insert_iff empty_iff by presburger
    from this[of "of_char c"] show ?thesis
      by (auto simp: less_eq_char_def hex_digit_def simp flip: of_char_eq_iff[where 'a = nat])
  qed
  then show ?thesis by (simp add: validate_event_id_def canonical_hex_def)
qed

lemma validate_kind_cases: "validate_kind opts k = Inr () \<or> isl (validate_kind opts k)"
  by (simp add: validate_kind_def split: option.splits)

lemma validate_verified_event_Inr:
  "validate_verified_event lib opts e = Inr (k, p) \<longleftrightarrow>
     validate_kind opts (ev_kind e) = Inr () \<and> k = to_hex lib (ev_id e) \<and>
     (\<exists>j. event_json lib e = Some j \<and> length j = unat p \<and> length j \<le> max_event_bytes opts)"
proof -
  have lt: "unat p < 2 ^ 32" using unsigned_less[of p, where 'a = nat] by simp
  have of_nat: "unat (word_of_nat n :: u32) = n" if "n < 2 ^ 32" for n
    using that by (simp add: unsigned_of_nat take_bit_nat_eq_self)
  have "word_of_nat (unat p) = p" by simp
  with lt of_nat show ?thesis
    by (auto simp: validate_verified_event_def validate_event_len_def
        split: sum.splits option.splits if_splits)
qed

lemma validate_event_Inr:
  "validate_event lib opts e = Inr (k, p) \<longleftrightarrow>
     verify lib e \<and> validate_verified_event lib opts e = Inr (k, p)"
  by (simp add: validate_event_def)

lemma unat_ucast_u32 [simp]: "unat (ucast (p :: u32) :: u64) = unat p"
proof -
  have "unat p < 2 ^ 64" using unsigned_less[of p, where 'a = nat] by simp
  then show ?thesis by (simp add: unsigned_ucast_eq take_bit_nat_eq_self)
qed

lemma admitted_payload: "admitted lib opts k c \<Longrightarrow> unat (ce_payload_bytes c) \<le> max_event_bytes opts"
  by (auto simp: admitted_def validate_event_Inr validate_verified_event_Inr)

text \<open>Two admitted events under one key have the same size: identifiers are hashes.\<close>

lemma admitted_size_unique:
  assumes "nostr_laws lib"
    and "validate_event lib opts e = Inr (k, p)" and "validate_event lib opts e' = Inr (k, p')"
  shows "p = p'"
proof -
  have v: "verify_id lib e" "verify_id lib e'"
    using assms unfolding nostr_laws_def verify_law_def validate_event_Inr by auto
  have "to_hex lib (ev_id e) = to_hex lib (ev_id e')"
    using assms(2,3) by (simp add: validate_event_Inr validate_verified_event_Inr)
  then have "ev_id e = ev_id e'"
    using assms(1) by (auto simp: nostr_laws_def hex_law_def dest: injD)
  then have "map_option length (event_json lib e) = map_option length (event_json lib e')"
    using assms(1) v unfolding nostr_laws_def id_binding_law_def by blast
  then have "unat p = unat p'"
    using assms(2,3) by (auto simp: validate_event_Inr validate_verified_event_Inr)
  then show ?thesis by (rule unsigned_word_eqI)
qed

section \<open>The event cache\<close>

lemma evict_oldest_eq:
  assumes "cache_inv lib s" and "cache_order s = k # rest"
  shows "\<exists>c. map_of (cached_events s) k = Some c \<and>
    evict_oldest_cached_event s =
      (True, s\<lparr>cache_order := rest, cached_events := hm_remove k (cached_events s),
               cached_event_bytes := sat_sub (cached_event_bytes s) (ce_payload_bytes c)\<rparr>)"
proof -
  have "k \<in> keys (cached_events s)" using assms by (auto simp: cache_inv_def fifo_ok_def)
  then obtain c where "map_of (cached_events s) k = Some c" by (metis hm_contains_iff)
  then show ?thesis using assms(2) by (simp add: evict_oldest_cached_event_def)
qed

lemma cache_inv_evict:
  assumes inv: "cache_inv lib s" and q: "cache_order s = k # rest"
  shows "cache_inv lib (snd (evict_oldest_cached_event s))"
proof -
  obtain c where c: "map_of (cached_events s) k = Some c"
    and ev: "snd (evict_oldest_cached_event s) =
      s\<lparr>cache_order := rest, cached_events := hm_remove k (cached_events s),
        cached_event_bytes := sat_sub (cached_event_bytes s) (ce_payload_bytes c)\<rparr>"
    using evict_oldest_eq[OF inv q] by auto
  have wf: "hm_wf (cached_events s)" using inv by (simp add: cache_inv_def fifo_ok_def)
  have "payload_sum (cached_events s) =
      unat (ce_payload_bytes c) + payload_sum (hm_remove k (cached_events s))"
    using sum_list_hm_remove[OF wf c, of "\<lambda>kc. unat (ce_payload_bytes (snd kc))"] by simp
  moreover have "fifo_ok (max_cached_events (options s)) (hm_remove k (cached_events s)) rest"
    using inv q length_hm_remove_le[of k "cached_events s"] by (auto simp: cache_inv_def fifo_ok_def)
  ultimately show ?thesis
    using inv by (auto simp: cache_inv_def ev set_hm_remove)
qed

lemma make_room_ok:
  assumes "cache_inv lib s" and "options_wf (options s)" and "unat n \<le> max_cached_event_bytes (options s)"
  shows "cache_inv lib (make_room n s) \<and>
    set (cached_events (make_room n s)) \<subseteq> set (cached_events s) \<and>
    length (cached_events (make_room n s)) < max_cached_events (options s) \<and>
    payload_sum (cached_events (make_room n s)) + unat n \<le> max_cached_event_bytes (options s)"
  using assms
proof (induction n s rule: make_room.induct)
  case (1 n s)
  let ?full = "max_cached_events (options s) \<le> length (cached_events s) \<or>
      max_cached_event_bytes (options s) < unat (sat_add (cached_event_bytes s) n)"
  have bytes: "unat (cached_event_bytes s) = payload_sum (cached_events s)"
    using "1.prems" by (simp add: cache_inv_def)
  show ?case
  proof (cases ?full)
    case False
    then have "make_room n s = s" by (subst make_room.simps) (rule if_not_P)
    moreover have "max_cached_event_bytes (options s) < 2 ^ 64 - 1"
      using "1.prems" by (simp add: options_wf_def)
    ultimately show ?thesis using False "1.prems" bytes by auto
  next
    case True
    have "cache_order s \<noteq> []"
    proof
      assume "cache_order s = []"
      then have "cached_events s = []" using "1.prems" by (simp add: cache_inv_def fifo_ok_def)
      then show False using True "1.prems" bytes by (auto simp: options_wf_def)
    qed
    then obtain k rest where q: "cache_order s = k # rest" by (cases "cache_order s") auto
    obtain s1 where ev: "evict_oldest_cached_event s = (True, s1)"
      and sub: "set (cached_events s1) \<subseteq> set (cached_events s)"
      using evict_oldest_eq[OF "1.prems"(1) q] by (auto simp: set_hm_remove)
    have opts: "options s1 = options s" using evict_oldest_cached_event_frame(1)[of s] ev by simp
    have "cache_inv lib s1" using cache_inv_evict[OF "1.prems"(1) q] ev by simp
    then have "cache_inv lib (make_room n s1) \<and>
        set (cached_events (make_room n s1)) \<subseteq> set (cached_events s1) \<and>
        length (cached_events (make_room n s1)) < max_cached_events (options s) \<and>
        payload_sum (cached_events (make_room n s1)) + unat n \<le> max_cached_event_bytes (options s)"
      using "1.IH"[OF True ev[symmetric]] "1.prems" opts by simp
    moreover have "make_room n s = make_room n s1"
      by (subst make_room.simps) (simp only: if_P[OF True] ev prod.case if_True)
    ultimately show ?thesis using sub by auto
  qed
qed

lemma cache_inv_store:
  assumes laws: "nostr_laws lib" and wf: "options_wf (options s)" and inv: "cache_inv lib s"
    and val: "validate_event lib (options s) e = Inr (k, p)"
  shows "cache_inv lib (store_event lib e p now s)"
proof -
  have k: "k = to_hex lib (ev_id e)"
    using val by (simp add: validate_event_Inr validate_verified_event_Inr)
  have p: "unat p \<le> max_event_bytes (options s)"
    using val by (auto simp: validate_event_Inr validate_verified_event_Inr)
  let ?entry = "\<lparr>ce_event = e, ce_expires_at_ms = sat_add now (event_ttl_ms (options s)),
      ce_payload_bytes = ucast p\<rparr>"
  have adm: "admitted lib (options s) k ?entry" using val by (auto simp: admitted_def)
  show ?thesis
  proof (cases "map_of (cached_events s) k")
    case (Some c)
    have hw: "hm_wf (cached_events s)" using inv by (simp add: cache_inv_def fifo_ok_def)
    have "admitted lib (options s) k c"
      using inv Some by (auto simp: cache_inv_def dest: map_of_SomeD)
    then have same: "ce_payload_bytes c = ucast p"
      using admitted_size_unique[OF laws val] by (auto simp: admitted_def)
    then have "payload_sum (hm_insert k ?entry (cached_events s)) = payload_sum (cached_events s)"
      using sum_list_hm_insert[OF hw Some, of "\<lambda>kc. unat (ce_payload_bytes (snd kc))" ?entry] by simp
    moreover have "unat p \<le> payload_sum (cached_events s)"
      using sum_list_hm_remove[OF hw Some, of "\<lambda>kc. unat (ce_payload_bytes (snd kc))"] same by simp
    moreover have "payload_sum (cached_events s) < 2 ^ 64"
      using inv wf by (simp add: cache_inv_def options_wf_def)
    moreover have "fifo_ok (max_cached_events (options s)) (hm_insert k ?entry (cached_events s))
        (cache_order s)"
      using inv Some by (auto simp: cache_inv_def intro!: fifo_ok_update dest: hm_get_in_keys)
    ultimately show ?thesis
      using inv adm same Some set_hm_insert_subset[of k ?entry "cached_events s"]
      by (fastforce simp: cache_inv_def store_event_def k[symmetric] Let_def track_expiry_def)
  next
    case None
    let ?s1 = "make_room (ucast p) s"
    have room: "cache_inv lib ?s1" "set (cached_events ?s1) \<subseteq> set (cached_events s)"
      "length (cached_events ?s1) < max_cached_events (options s)"
      "payload_sum (cached_events ?s1) + unat p \<le> max_cached_event_bytes (options s)"
      using make_room_ok[OF inv wf, of "ucast p"] p wf by (auto simp: options_wf_def)
    have new: "k \<notin> keys (cached_events ?s1)" using None room(2) by auto
    have "payload_sum (cached_events ?s1) + unat p < 2 ^ 64"
      using room(4) wf by (simp add: options_wf_def)
    then show ?thesis
      using room adm new None set_hm_insert_subset[of k ?entry "cached_events ?s1"]
      by (fastforce simp: cache_inv_def store_event_def k[symmetric] Let_def track_expiry_def
          sum_list_hm_insert_new intro!: fifo_ok_push)
  qed
qed

lemma fold_sat_sum:
  "unat t + sum_list (map (\<lambda>c. unat (ce_payload_bytes c)) cs) < 2 ^ 64 \<Longrightarrow>
     unat (fold (\<lambda>c total. sat_add total (ce_payload_bytes c)) cs t) =
       unat t + sum_list (map (\<lambda>c. unat (ce_payload_bytes c)) cs)"
  by (induction cs arbitrary: t) auto

lemma sum_list_filter_le: "sum_list (map f (filter P xs)) \<le> (sum_list (map f xs) :: nat)"
  by (induction xs) auto

lemma cache_inv_prune:
  assumes "cache_inv lib s" and "options_wf (options s)"
  shows "cache_inv lib (prune_cached_events now s)"
proof -
  let ?kept = "hm_retain (\<lambda>_ c. now < ce_expires_at_ms c) (cached_events s)"
  have le: "payload_sum ?kept \<le> payload_sum (cached_events s)"
    by (rule sum_list_filter_le)
  then have "payload_sum ?kept < 2 ^ 64" using assms by (simp add: cache_inv_def options_wf_def)
  then have "unat (fold (\<lambda>c total. sat_add total (ce_payload_bytes c)) (hm_values ?kept) 0) =
      payload_sum ?kept"
    using fold_sat_sum[of 0 "hm_values ?kept"] by (simp add: comp_def)
  then show ?thesis
    using assms le fifo_ok_filter[of _ "cached_events s"]
    by (auto simp: cache_inv_def prune_cached_events_def Let_def)
qed

section \<open>The delivery window\<close>

lemma evict_delivered_stop:
  "length (delivered_events s) < max_seen_events (options s) \<Longrightarrow> evict_delivered q s = s"
  by (cases q) simp_all

lemma evict_delivered_room:
  assumes "delivered_inv s" and "options_wf (options s)"
  shows "evict_delivered (delivered_order s) s =
    (let (m, q) = fifo_room (max_seen_events (options s)) (delivered_events s) (delivered_order s)
     in s\<lparr>delivered_order := q, delivered_events := m\<rparr>)"
proof (cases "length (delivered_events s) < max_seen_events (options s)")
  case True
  then show ?thesis by (simp add: evict_delivered_stop fifo_room_def)
next
  case False
  have ok: "fifo_ok (max_seen_events (options s)) (delivered_events s) (delivered_order s)"
    "0 < max_seen_events (options s)"
    using assms by (auto simp: delivered_inv_def options_wf_def)
  then have "delivered_order s \<noteq> []" using False fifo_ok_length by fastforce
  then obtain k rest where q: "delivered_order s = k # rest" by (cases "delivered_order s") auto
  have "length (hm_remove k (delivered_events s)) < max_seen_events (options s)"
    using fifo_ok_room(2)[OF ok] False q by (simp add: fifo_room_def)
  then show ?thesis using False q by (simp add: fifo_room_def evict_delivered_stop)
qed

lemma remember_delivered_eq:
  assumes "delivered_inv s" and "options_wf (options s)" and "k \<notin> keys (delivered_events s)"
    and "fifo_room (max_seen_events (options s)) (delivered_events s) (delivered_order s) = (m, q)"
  shows "remember_delivered k now s =
    (True, track_expiry (sat_add now (event_ttl_ms (options s)))
       (s\<lparr>delivered_order := q @ [k],
          delivered_events := hm_insert k (sat_add now (event_ttl_ms (options s))) m\<rparr>))"
  using assms by (simp add: remember_delivered_def evict_delivered_room Let_def)

lemma delivered_inv_remember:
  assumes "delivered_inv s" and "options_wf (options s)"
  shows "delivered_inv (snd (remember_delivered k now s))"
proof (cases "k \<in> keys (delivered_events s)")
  case True
  then show ?thesis using assms by (auto simp: remember_delivered_def)
next
  case False
  obtain m q where room:
    "fifo_room (max_seen_events (options s)) (delivered_events s) (delivered_order s) = (m, q)"
    by force
  have "fifo_ok (max_seen_events (options s)) m q" "length m < max_seen_events (options s)"
    "k \<notin> keys m"
    using fifo_ok_room[OF _ _ room] assms False by (auto simp: delivered_inv_def options_wf_def)
  then show ?thesis
    using remember_delivered_eq[OF assms False room, of now]
    by (simp add: delivered_inv_def track_expiry_def fifo_ok_push)
qed

lemma remember_delivered_order:
  assumes "delivered_inv s" and "options_wf (options s)"
  shows "delivered_order (snd (remember_delivered k now s)) =
    window_push (max_seen_events (options s)) k (delivered_order s)"
proof (cases "k \<in> keys (delivered_events s)")
  case True
  then show ?thesis
    using assms by (auto simp: remember_delivered_def window_push_def delivered_inv_def fifo_ok_def)
next
  case False
  obtain m q where room:
    "fifo_room (max_seen_events (options s)) (delivered_events s) (delivered_order s) = (m, q)"
    by force
  then show ?thesis
    using remember_delivered_eq[OF assms False room, of now] fifo_room_window[OF _ _ room False] assms
    by (simp add: delivered_inv_def options_wf_def track_expiry_def)
qed

section \<open>Peer behaviours\<close>

lemma evict_behaviors_stop:
  "length (peer_behaviors s) < MAX_TRACKED_PEER_BEHAVIORS \<Longrightarrow> evict_behaviors q s = s"
  by (cases q) simp_all

lemma evict_behaviors_room:
  assumes "behavior_inv s"
  shows "evict_behaviors (peer_behavior_order s) s =
    (let (m, q) = fifo_room MAX_TRACKED_PEER_BEHAVIORS (peer_behaviors s) (peer_behavior_order s)
     in s\<lparr>peer_behavior_order := q, peer_behaviors := m\<rparr>)"
proof (cases "length (peer_behaviors s) < MAX_TRACKED_PEER_BEHAVIORS")
  case True
  then show ?thesis by (simp add: evict_behaviors_stop fifo_room_def)
next
  case False
  have ok: "fifo_ok MAX_TRACKED_PEER_BEHAVIORS (peer_behaviors s) (peer_behavior_order s)"
    "0 < MAX_TRACKED_PEER_BEHAVIORS"
    using assms by (auto simp: behavior_inv_def MAX_TRACKED_PEER_BEHAVIORS_def)
  then have "peer_behavior_order s \<noteq> []" using False fifo_ok_length by fastforce
  then obtain k rest where q: "peer_behavior_order s = k # rest"
    by (cases "peer_behavior_order s") auto
  have "length (hm_remove k (peer_behaviors s)) < MAX_TRACKED_PEER_BEHAVIORS"
    using fifo_ok_room(2)[OF ok] False q by (simp add: fifo_room_def)
  then show ?thesis using False q by (simp add: fifo_room_def evict_behaviors_stop)
qed

lemma behavior_ok_update: "behavior_ok (update_behavior d v b)"
proof -
  have "pb_score (count_evidence v b') = pb_score b'" for b' by (cases v) simp_all
  then show ?thesis
    using clamp_int_bounds[of "-100" 100] by (simp add: behavior_ok_def update_behavior_def)
qed

lemma behavior_inv_record:
  assumes "behavior_inv s"
  shows "behavior_inv (record_peer_behavior p d v s)"
proof (cases "p \<in> keys (peer_behaviors s)")
  case True
  then obtain b where "map_of (peer_behaviors s) p = Some b" by (metis hm_contains_iff)
  moreover have "\<forall>(k, b) \<in> set (hm_insert p (update_behavior d v b) (peer_behaviors s)). behavior_ok b"
    for b
    using assms behavior_ok_update
      set_hm_insert_subset[of p "update_behavior d v b" "peer_behaviors s"]
    unfolding behavior_inv_def by blast
  ultimately show ?thesis
    using assms True by (simp add: behavior_inv_def record_peer_behavior_def Let_def fifo_ok_update)
next
  case False
  obtain m q where room:
    "fifo_room MAX_TRACKED_PEER_BEHAVIORS (peer_behaviors s) (peer_behavior_order s) = (m, q)"
    by force
  have "fifo_ok MAX_TRACKED_PEER_BEHAVIORS m q" "length m < MAX_TRACKED_PEER_BEHAVIORS"
    "p \<notin> keys m" "set m \<subseteq> set (peer_behaviors s)"
    using fifo_ok_room[OF _ _ room] assms False
    by (auto simp: behavior_inv_def MAX_TRACKED_PEER_BEHAVIORS_def)
  moreover have "record_peer_behavior p d v s =
      s\<lparr>peer_behavior_order := q @ [p],
        peer_behaviors := hm_insert p (update_behavior d v default_behavior) m\<rparr>"
    using evict_behaviors_room[OF assms] room False \<open>p \<notin> keys m\<close>
    by (simp add: record_peer_behavior_def Let_def)
  moreover have "\<forall>(k, b) \<in> set (hm_insert p (update_behavior d v default_behavior) m). behavior_ok b"
    using calculation(4) assms behavior_ok_update
      set_hm_insert_subset[of p "update_behavior d v default_behavior" m]
    unfolding behavior_inv_def by blast
  ultimately show ?thesis by (simp add: behavior_inv_def fifo_ok_push)
qed

lemma behavior_inv_penalize: "behavior_inv s \<Longrightarrow> behavior_inv (penalize_unserved ps s)"
  unfolding penalize_unserved_def by (induction ps arbitrary: s) (simp_all add: behavior_inv_record)

lemma behavior_inv_invalid: "behavior_inv s \<Longrightarrow> behavior_inv (record_invalid_message p s)"
  by (simp add: record_invalid_message_def behavior_inv_record)

end
