(* ===== verification/Mesh_Invariant.thy ===== *)
theory Mesh_Invariant
  imports Mesh_Resources
begin

text \<open>
  The invariant of the mesh. Next to the bounded resources it says how the tables about one
  event belong together: a route exists only under a remembered inventory and with a forwarded \<open>WANT\<close>, all three with
  one expiry; peers wait only for a live route; the scheduled maintenance is never later than an
  expiry. Every operation keeps it, and after \<open>prune\<close> nothing in the state is expired.
\<close>

section \<open>The invariant\<close>

definition route_ok :: "mesh_options \<Rightarrow> string \<Rightarrow> upstream_route \<Rightarrow> bool" where
  "route_ok opts k r \<longleftrightarrow>
     canonical_hex k \<and> bset_wf (ur_alternate_peers r) \<and>
     length (ur_alternate_peers r) + 1 \<le> MAX_UPSTREAM_PROVIDERS_PER_EVENT \<and>
     ur_peer_id r \<notin> set (ur_alternate_peers r) \<and>
     bset_wf (ur_transport_disrupted_peers r) \<and>
     set (ur_transport_disrupted_peers r) \<subseteq> {p. route_provider r p} \<and>
     (ur_fulfilled r \<longrightarrow> ur_transport_disrupted_peers r = []) \<and>
     0 < ur_hop_limit r \<and> ur_hop_limit r \<le> max_hops opts \<and>
     validate_kind opts (ur_event_kind r) = Inr () \<and>
     unat (ur_payload_bytes r) \<le> max_event_bytes opts"

definition routes_inv :: "mesh \<Rightarrow> bool" where
  "routes_inv s \<longleftrightarrow>
     fifo_ok (max_seen_events (options s)) (seen_inventories s) (seen_order s) \<and>
     hm_wf (upstream_routes s) \<and> hm_wf (want_forwarded s) \<and>
     keys (want_forwarded s) \<subseteq> keys (upstream_routes s) \<and>
     (\<forall>k r. map_of (upstream_routes s) k = Some r \<longrightarrow>
        route_ok (options s) k r \<and>
        map_of (seen_inventories s) k = Some (ur_expires_at_ms r) \<and>
        map_of (want_forwarded s) k = Some (ur_expires_at_ms r))"

abbreviation pending_sum :: "(string, pending_peers) hmap \<Rightarrow> nat" where
  "pending_sum m \<equiv> sum_list (map (\<lambda>kp. length (pp_peers (snd kp))) m)"

definition pending_inv :: "mesh \<Rightarrow> bool" where
  "pending_inv s \<longleftrightarrow>
     hm_wf (pending_downstream s) \<and>
     pending_peer_count s = pending_sum (pending_downstream s) \<and>
     (\<forall>k p. map_of (pending_downstream s) k = Some p \<longrightarrow>
        bset_wf (pp_peers p) \<and> length (pp_peers p) \<le> max_pending_peers_per_event (options s) \<and>
        (\<exists>r. map_of (upstream_routes s) k = Some r \<and> \<not> ur_fulfilled r))"

definition expiry_set :: "mesh \<Rightarrow> u64 set" where
  "expiry_set s =
     (\<lambda>kc. ce_expires_at_ms (snd kc)) ` set (cached_events s) \<union> snd ` set (seen_inventories s) \<union>
     snd ` set (delivered_events s) \<union> (\<lambda>kr. ur_expires_at_ms (snd kr)) ` set (upstream_routes s)"

definition scheduled :: "u64 option \<Rightarrow> u64 set \<Rightarrow> bool" where
  "scheduled next X = (case next of None \<Rightarrow> X = {} | Some t \<Rightarrow> \<forall>x \<in> X. t \<le> x)"

definition schedule_inv :: "u64 \<Rightarrow> mesh \<Rightarrow> bool" where
  "schedule_inv now s \<longleftrightarrow>
     scheduled (next_prune_at_ms s) (expiry_set s) \<and>
     (\<forall>k r. map_of (upstream_routes s) k = Some r \<longrightarrow>
        ur_expires_at_ms r \<le> sat_add now (route_ttl_ms (options s)))"

definition live :: "u64 \<Rightarrow> mesh \<Rightarrow> bool" where
  "live now s \<longleftrightarrow> (\<forall>x \<in> expiry_set s. now < x)"

definition mesh_inv :: "nostr_lib \<Rightarrow> u64 \<Rightarrow> mesh \<Rightarrow> bool" where
  "mesh_inv lib now s \<longleftrightarrow>
     options_wf (options s) \<and> cache_inv lib s \<and> delivered_inv s \<and> behavior_inv s \<and>
     routes_inv s \<and> pending_inv s \<and> schedule_inv now s"

lemmas mesh_inv_parts = cache_inv_def delivered_inv_def behavior_inv_def routes_inv_def
  pending_inv_def schedule_inv_def expiry_set_def

text \<open>Operations that do not write a predicate's fields do not change it.\<close>

lemma track_expiry_inv_frame [simp]:
  "cache_inv lib (track_expiry t s) = cache_inv lib s"
  "delivered_inv (track_expiry t s) = delivered_inv s"
  "behavior_inv (track_expiry t s) = behavior_inv s"
  "routes_inv (track_expiry t s) = routes_inv s"
  "pending_inv (track_expiry t s) = pending_inv s"
  "expiry_set (track_expiry t s) = expiry_set s"
  by (simp_all only: cache_inv_def delivered_inv_def behavior_inv_def routes_inv_def pending_inv_def expiry_set_def track_expiry_frame)

lemma store_event_inv_frame [simp]:
  "delivered_inv (store_event lib' e n t s) = delivered_inv s"
  "behavior_inv (store_event lib' e n t s) = behavior_inv s"
  "routes_inv (store_event lib' e n t s) = routes_inv s"
  "pending_inv (store_event lib' e n t s) = pending_inv s"
  by (simp_all only: delivered_inv_def behavior_inv_def routes_inv_def pending_inv_def store_event_frame)

lemma remember_delivered_inv_frame [simp]:
  "cache_inv lib (snd (remember_delivered k t s)) = cache_inv lib s"
  "behavior_inv (snd (remember_delivered k t s)) = behavior_inv s"
  "routes_inv (snd (remember_delivered k t s)) = routes_inv s"
  "pending_inv (snd (remember_delivered k t s)) = pending_inv s"
  by (simp_all only: cache_inv_def behavior_inv_def routes_inv_def pending_inv_def remember_delivered_frame)

lemma record_peer_behavior_inv_frame [simp]:
  "cache_inv lib (record_peer_behavior p d v s) = cache_inv lib s"
  "delivered_inv (record_peer_behavior p d v s) = delivered_inv s"
  "routes_inv (record_peer_behavior p d v s) = routes_inv s"
  "pending_inv (record_peer_behavior p d v s) = pending_inv s"
  "expiry_set (record_peer_behavior p d v s) = expiry_set s"
  "schedule_inv now (record_peer_behavior p d v s) = schedule_inv now s"
  by (simp_all only: cache_inv_def delivered_inv_def routes_inv_def pending_inv_def expiry_set_def schedule_inv_def record_peer_behavior_frame)

lemma record_invalid_message_inv_frame [simp]:
  "cache_inv lib (record_invalid_message p s) = cache_inv lib s"
  "delivered_inv (record_invalid_message p s) = delivered_inv s"
  "routes_inv (record_invalid_message p s) = routes_inv s"
  "pending_inv (record_invalid_message p s) = pending_inv s"
  "expiry_set (record_invalid_message p s) = expiry_set s"
  "schedule_inv now (record_invalid_message p s) = schedule_inv now s"
  by (simp_all only: cache_inv_def delivered_inv_def routes_inv_def pending_inv_def expiry_set_def schedule_inv_def record_invalid_message_frame)

lemma penalize_unserved_inv_frame [simp]:
  "cache_inv lib (penalize_unserved ps s) = cache_inv lib s"
  "delivered_inv (penalize_unserved ps s) = delivered_inv s"
  "routes_inv (penalize_unserved ps s) = routes_inv s"
  "pending_inv (penalize_unserved ps s) = pending_inv s"
  "expiry_set (penalize_unserved ps s) = expiry_set s"
  "schedule_inv now (penalize_unserved ps s) = schedule_inv now s"
  by (simp_all only: cache_inv_def delivered_inv_def routes_inv_def pending_inv_def expiry_set_def schedule_inv_def penalize_unserved_frame)

lemma remove_pending_event_inv_frame [simp]:
  "cache_inv lib (snd (remove_pending_event k s)) = cache_inv lib s"
  "delivered_inv (snd (remove_pending_event k s)) = delivered_inv s"
  "behavior_inv (snd (remove_pending_event k s)) = behavior_inv s"
  "routes_inv (snd (remove_pending_event k s)) = routes_inv s"
  "expiry_set (snd (remove_pending_event k s)) = expiry_set s"
  "schedule_inv now (snd (remove_pending_event k s)) = schedule_inv now s"
  by (simp_all only: cache_inv_def delivered_inv_def behavior_inv_def routes_inv_def expiry_set_def schedule_inv_def remove_pending_event_frame)

lemma park_want_inv_frame [simp]:
  "cache_inv lib (park_want p k t s) = cache_inv lib s"
  "delivered_inv (park_want p k t s) = delivered_inv s"
  "behavior_inv (park_want p k t s) = behavior_inv s"
  "routes_inv (park_want p k t s) = routes_inv s"
  "expiry_set (park_want p k t s) = expiry_set s"
  "schedule_inv now (park_want p k t s) = schedule_inv now s"
  by (simp_all only: cache_inv_def delivered_inv_def behavior_inv_def routes_inv_def expiry_set_def schedule_inv_def park_want_frame)

section \<open>Scheduling\<close>

lemma scheduled_subset: "scheduled n X \<Longrightarrow> Y \<subseteq> X \<Longrightarrow> scheduled n Y"
  by (auto simp: scheduled_def split: option.splits)

lemma scheduled_track:
  "scheduled (next_prune_at_ms s) X \<Longrightarrow> Y \<subseteq> insert t X \<Longrightarrow> scheduled (next_prune_at_ms (track_expiry t s)) Y"
  by (auto simp: scheduled_def track_expiry_def min.coboundedI1 split: option.splits)

lemma scheduled_later:
  "scheduled n X \<Longrightarrow> x \<in> X \<Longrightarrow> x \<le> t \<Longrightarrow> Y \<subseteq> insert t X \<Longrightarrow> scheduled n Y"
  by (fastforce simp: scheduled_def split: option.splits)

lemma schedule_inv_mono: "schedule_inv now s \<Longrightarrow> now \<le> now' \<Longrightarrow> schedule_inv now' s"
  unfolding schedule_inv_def using sat_add_mono[of now now' "route_ttl_ms (options s)"]
  by (meson order_trans)

lemma mesh_inv_mono: "mesh_inv lib now s \<Longrightarrow> now \<le> now' \<Longrightarrow> mesh_inv lib now' s"
  by (auto simp: mesh_inv_def intro: schedule_inv_mono)

section \<open>Start, behaviours and the cache\<close>

lemma mesh_inv_new: "usize_limits o0 \<Longrightarrow> mesh_inv lib now (mesh_new o0)"
  by (simp add: mesh_inv_def mesh_inv_parts mesh_new_def options_wf_normalize scheduled_def)

lemma mesh_inv_record: "mesh_inv lib now s \<Longrightarrow> mesh_inv lib now (record_peer_behavior p d v s)"
  by (simp add: mesh_inv_def behavior_inv_record)

lemma mesh_inv_invalid: "mesh_inv lib now s \<Longrightarrow> mesh_inv lib now (record_invalid_message p s)"
  by (simp add: record_invalid_message_def mesh_inv_record)

lemma mesh_inv_penalize: "mesh_inv lib now s \<Longrightarrow> mesh_inv lib now (penalize_unserved ps s)"
  unfolding penalize_unserved_def by (induction ps arbitrary: s) (simp_all add: mesh_inv_record)

lemma store_event_entries:
  assumes "options_wf (options s)" and "cache_inv lib s"
    and "validate_event lib (options s) e = Inr (k, p)"
  shows "set (cached_events (store_event lib e p now s)) \<subseteq>
    insert (k, \<lparr>ce_event = e, ce_expires_at_ms = sat_add now (event_ttl_ms (options s)),
      ce_payload_bytes = ucast p\<rparr>) (set (cached_events s))"
proof -
  have p: "unat p \<le> max_cached_event_bytes (options s)" and k: "to_hex lib (ev_id e) = k"
    using assms by (auto simp: validate_event_Inr validate_verified_event_Inr options_wf_def)
  let ?c = "\<lparr>ce_event = e, ce_expires_at_ms = sat_add now (event_ttl_ms (options s)),
      ce_payload_bytes = ucast p\<rparr>"
  have "set (cached_events (make_room (ucast p) s)) \<subseteq> set (cached_events s)"
    using make_room_ok[OF assms(2,1), of "ucast p"] p by simp
  then show ?thesis
    using set_hm_insert_subset[of k ?c "cached_events s"]
      set_hm_insert_subset[of k ?c "cached_events (make_room (ucast p) s)"]
    by (fastforce simp: store_event_def Let_def k track_expiry_def split: option.splits)
qed

lemma store_event_next:
  "next_prune_at_ms (store_event lib e p now s) =
     next_prune_at_ms (track_expiry (sat_add now (event_ttl_ms (options s))) s)"
  by (simp add: store_event_def Let_def track_expiry_def split: option.splits)

lemma mesh_inv_store:
  assumes "nostr_laws lib" and inv: "mesh_inv lib now s"
    and val: "validate_event lib (options s) e = Inr (k, p)"
  shows "mesh_inv lib now (store_event lib e p now s)"
proof -
  let ?s = "store_event lib e p now s"
  have wf: "options_wf (options s)" "cache_inv lib s" using inv by (auto simp: mesh_inv_def)
  have "expiry_set ?s \<subseteq> insert (sat_add now (event_ttl_ms (options s))) (expiry_set s)"
    using image_insert_subset[OF store_event_entries[OF wf val, of now],
        of "\<lambda>kc. ce_expires_at_ms (snd kc)"]
    by (simp add: expiry_set_def subset_iff) blast
  then have "scheduled (next_prune_at_ms ?s) (expiry_set ?s)"
    using inv unfolding store_event_next
    by (intro scheduled_track) (auto simp: mesh_inv_def schedule_inv_def)
  then show ?thesis
    using inv cache_inv_store[of lib s e k p now] assms by (simp add: mesh_inv_def schedule_inv_def)
qed

section \<open>Deliveries\<close>

lemma remember_delivered_entries:
  assumes "delivered_inv s" and "options_wf (options s)"
  shows "set (delivered_events (snd (remember_delivered k now s))) \<subseteq>
    insert (k, sat_add now (event_ttl_ms (options s))) (set (delivered_events s))"
proof (cases "k \<in> keys (delivered_events s)")
  case True
  then show ?thesis by (auto simp: remember_delivered_def)
next
  case False
  obtain m q where room:
    "fifo_room (max_seen_events (options s)) (delivered_events s) (delivered_order s) = (m, q)"
    by force
  have "set m \<subseteq> set (delivered_events s)"
    using fifo_ok_room(3)[OF _ _ room] assms by (auto simp: delivered_inv_def options_wf_def)
  then show ?thesis
    using remember_delivered_eq[OF assms False room, of now]
      set_hm_insert_subset[of k "sat_add now (event_ttl_ms (options s))" m]
    by (auto simp: track_expiry_def)
qed

lemma mesh_inv_delivered:
  assumes "mesh_inv lib now s"
  shows "mesh_inv lib now (snd (remember_delivered k now s))"
proof -
  let ?s = "snd (remember_delivered k now s)" and ?t = "sat_add now (event_ttl_ms (options s))"
  have inv: "delivered_inv s" "options_wf (options s)" using assms by (auto simp: mesh_inv_def)
  have "expiry_set ?s \<subseteq> insert ?t (expiry_set s)"
    using image_insert_subset[OF remember_delivered_entries[OF inv, of k now], of snd]
    by (simp add: expiry_set_def subset_iff) blast
  moreover have "?s = s \<or> next_prune_at_ms ?s = next_prune_at_ms (track_expiry ?t s)"
    by (simp add: remember_delivered_def Let_def track_expiry_def split: option.splits)
  ultimately have "scheduled (next_prune_at_ms ?s) (expiry_set ?s)"
    using assms scheduled_track[of s "expiry_set s" "expiry_set ?s" ?t]
    by (auto simp: mesh_inv_def schedule_inv_def)
  then show ?thesis
    using assms delivered_inv_remember[OF inv, of k now] by (simp add: mesh_inv_def schedule_inv_def)
qed

section \<open>Pending peers\<close>

lemma pending_route:
  assumes "pending_inv s" and "k \<in> keys (pending_downstream s)"
  shows "\<exists>r. map_of (upstream_routes s) k = Some r \<and> \<not> ur_fulfilled r"
proof -
  obtain p where "map_of (pending_downstream s) k = Some p" using assms(2) by (metis hm_contains_iff)
  then show ?thesis using assms(1) by (simp add: pending_inv_def)
qed

lemma pending_inv_remove:
  assumes "pending_inv s"
  shows "pending_inv (snd (remove_pending_event k s))"
    and "k \<notin> keys (pending_downstream (snd (remove_pending_event k s)))"
proof -
  have "pending_inv (snd (remove_pending_event k s)) \<and>
      k \<notin> keys (pending_downstream (snd (remove_pending_event k s)))"
  proof (cases "map_of (pending_downstream s) k")
    case None
    then show ?thesis using assms by (simp add: remove_pending_event_def)
  next
    case (Some p)
    have "pending_sum (pending_downstream s) =
        length (pp_peers p) + pending_sum (hm_remove k (pending_downstream s))"
      using sum_list_hm_remove[OF _ Some, of "\<lambda>kp. length (pp_peers (snd kp))"] assms
      by (simp add: pending_inv_def)
    then show ?thesis
      using assms Some by (auto simp: pending_inv_def remove_pending_event_def)
  qed
  then show "pending_inv (snd (remove_pending_event k s))"
    and "k \<notin> keys (pending_downstream (snd (remove_pending_event k s)))" by auto
qed

lemma remove_pending_subset:
  "set (pending_downstream (snd (remove_pending_event k s))) \<subseteq> set (pending_downstream s)"
  by (auto simp: remove_pending_event_def set_hm_remove split: option.splits)

lemma mesh_inv_remove_pending:
  "mesh_inv lib now s \<Longrightarrow> mesh_inv lib now (snd (remove_pending_event k s))"
  by (simp add: mesh_inv_def pending_inv_remove(1))

lemma pending_inv_insert:
  assumes "pending_inv s" and "map_of (upstream_routes s) k = Some r" and "\<not> ur_fulfilled r"
    and "bset_wf (pp_peers w)" and "length (pp_peers w) \<le> max_pending_peers_per_event (options s)"
    and "n = pending_sum (hm_insert k w (pending_downstream s))"
  shows "pending_inv (s\<lparr>pending_downstream := hm_insert k w (pending_downstream s), pending_peer_count := n\<rparr>)"
    (is "pending_inv ?s")
proof -
  have "hm_wf (pending_downstream ?s)" using assms(1) by (simp add: pending_inv_def)
  moreover have "pending_peer_count ?s = pending_sum (pending_downstream ?s)"
    using assms(6) by simp
  moreover have "bset_wf (pp_peers q) \<and> length (pp_peers q) \<le> max_pending_peers_per_event (options ?s) \<and>
      (\<exists>r. map_of (upstream_routes ?s) k' = Some r \<and> \<not> ur_fulfilled r)"
    if "map_of (pending_downstream ?s) k' = Some q" for k' q
  proof (cases "k' = k")
    case True
    then show ?thesis using that assms(2-5) by simp
  next
    case False
    then have "map_of (pending_downstream s) k' = Some q" using that by simp
    then show ?thesis using assms(1) by (simp add: pending_inv_def)
  qed
  ultimately show ?thesis unfolding pending_inv_def by blast
qed

lemma pending_sum_insert:
  assumes "pending_inv s"
  shows "pending_sum (hm_insert k q (pending_downstream s)) +
      (case map_of (pending_downstream s) k of None \<Rightarrow> 0 | Some w \<Rightarrow> length (pp_peers w)) =
      length (pp_peers q) + pending_sum (pending_downstream s)"
proof (cases "map_of (pending_downstream s) k")
  case None
  then show ?thesis
    using sum_list_hm_insert_new[of k _ "\<lambda>kp. length (pp_peers (snd kp))"] by simp
next
  case (Some w)
  then show ?thesis
    using sum_list_hm_insert[OF _ Some, of "\<lambda>kp. length (pp_peers (snd kp))" q] assms
    by (simp add: pending_inv_def)
qed

lemma pending_inv_park:
  assumes inv: "pending_inv s" and r: "map_of (upstream_routes s) k = Some r" "\<not> ur_fulfilled r"
  shows "pending_inv (park_want p k now s)"
proof -
  define old where "old =
    (case map_of (pending_downstream s) k of Some q \<Rightarrow> q
     | None \<Rightarrow> \<lparr>pp_peers = [], pp_expires_at_ms = sat_add now (route_ttl_ms (options s))\<rparr>)"
  have old: "bset_wf (pp_peers old)" "length (pp_peers old) \<le> max_pending_peers_per_event (options s)"
    using inv by (auto simp: old_def pending_inv_def split: option.splits)
  have sum: "pending_sum (hm_insert k q (pending_downstream s)) + length (pp_peers old) =
      length (pp_peers q) + pending_peer_count s" for q
    using pending_sum_insert[OF inv, of k q] inv
    by (cases "map_of (pending_downstream s) k") (simp_all add: old_def pending_inv_def)
  show ?thesis
  proof (cases "length (pp_peers old) < max_pending_peers_per_event (options s) \<and>
      p \<notin> set (pp_peers old)")
    case True
    let ?w = "old\<lparr>pp_peers := bset_insert p (pp_peers old)\<rparr>"
    have eq: "park_want p k now s =
        s\<lparr>pending_downstream := hm_insert k ?w (pending_downstream s),
          pending_peer_count := pending_peer_count s + 1\<rparr>"
      using True by (simp add: park_want_def old_def Let_def)
    have "bset_wf (pp_peers ?w)" "length (pp_peers ?w) \<le> max_pending_peers_per_event (options s)"
      using True old by (simp_all add: length_bset_insert distinct_insort_insert sorted_insort_insert)
    moreover have "pending_peer_count s + 1 = pending_sum (hm_insert k ?w (pending_downstream s))"
      using sum[of ?w] True by (simp add: length_bset_insert)
    ultimately show ?thesis unfolding eq by (intro pending_inv_insert[OF inv r])
  next
    case False
    have eq: "park_want p k now s =
        s\<lparr>pending_downstream := hm_insert k old (pending_downstream s),
          pending_peer_count := pending_peer_count s\<rparr>"
      using False by (auto simp add: park_want_def old_def Let_def)
    show ?thesis unfolding eq using sum[of old] by (intro pending_inv_insert[OF inv r old]) simp
  qed
qed

lemma mesh_inv_park:
  assumes "mesh_inv lib now s" and "map_of (upstream_routes s) k = Some r" and "\<not> ur_fulfilled r"
  shows "mesh_inv lib now (park_want p k now s)"
  using assms pending_inv_park[of s k r p now] by (simp add: mesh_inv_def)

end
