(* ===== verification/Mesh_Routes.thy ===== *)
theory Mesh_Routes
  imports Mesh_Invariant
begin

text \<open>
  The invariant through the operations on inventories and routes: remembering and forgetting an inventory,
  opening, extending, disrupting and fulfilling a route, the expiry sweep, and then every
  operation the mesh offers.
\<close>

section \<open>Updating one route\<close>

lemma route_known:
  assumes "routes_inv s" and "map_of (upstream_routes s) k = Some r"
  shows "route_ok (options s) k r" and "map_of (seen_inventories s) k = Some (ur_expires_at_ms r)"
    and "map_of (want_forwarded s) k = Some (ur_expires_at_ms r)"
  using assms by (auto simp: routes_inv_def)

lemma routes_under_seen:
  assumes "routes_inv s" and "k \<notin> keys (seen_inventories s)"
  shows "k \<notin> keys (upstream_routes s)"
proof
  assume "k \<in> keys (upstream_routes s)"
  then obtain r where "map_of (upstream_routes s) k = Some r" by (metis hm_contains_iff)
  from route_known(2)[OF assms(1) this] show False using assms(2) by simp
qed

lemma mesh_inv_route_update:
  assumes inv: "mesh_inv lib now s" and k: "map_of (upstream_routes s) k = Some r"
    and ok: "route_ok (options s) k r'" and exp: "ur_expires_at_ms r' = ur_expires_at_ms r"
    and ful: "ur_fulfilled r' \<Longrightarrow> \<not> ur_fulfilled r \<Longrightarrow> k \<notin> keys (pending_downstream s)"
  shows "mesh_inv lib now (s\<lparr>upstream_routes := hm_insert k r' (upstream_routes s)\<rparr>)"
proof -
  let ?R = "hm_insert k r' (upstream_routes s)"
  let ?s = "s\<lparr>upstream_routes := ?R\<rparr>"
  have sub: "set ?R \<subseteq> insert (k, r') (set (upstream_routes s))" by (rule set_hm_insert_subset)
  have inR: "(k, r) \<in> set (upstream_routes s)" using k by (rule map_of_SomeD)
  have rinv: "routes_inv s" using inv by (simp add: mesh_inv_def)
  have "routes_inv ?s"
    using rinv ok exp route_known(2,3)[OF rinv k] hm_get_in_keys[OF k] by (auto simp: routes_inv_def)
  moreover have "pending_inv ?s"
  proof -
    have p: "pending_inv s" using inv by (simp add: mesh_inv_def)
    have "\<exists>w. map_of ?R k' = Some w \<and> \<not> ur_fulfilled w" if q: "map_of (pending_downstream s) k' = Some q" for k' q
    proof (cases "k' = k")
      case True
      then have "\<not> ur_fulfilled r" using p q k unfolding pending_inv_def by force
      then have "\<not> ur_fulfilled r'" using ful hm_get_in_keys[OF q] True by blast
      then show ?thesis using True by simp
    next
      case False
      then show ?thesis using p q by (auto simp: pending_inv_def)
    qed
    then show ?thesis using p by (simp add: pending_inv_def)
  qed
  moreover have "expiry_set ?s \<subseteq> expiry_set s"
  proof -
    have "ur_expires_at_ms r \<in> (\<lambda>kr. ur_expires_at_ms (snd kr)) ` set (upstream_routes s)"
      using inR by force
    then have "(\<lambda>kr. ur_expires_at_ms (snd kr)) ` set ?R \<subseteq>
        (\<lambda>kr. ur_expires_at_ms (snd kr)) ` set (upstream_routes s)"
      using image_insert_subset[OF sub, of "\<lambda>kr. ur_expires_at_ms (snd kr)"] exp
      by (simp only: insert_absorb snd_conv)
    then show ?thesis unfolding expiry_set_def mesh.simps by auto
  qed
  then have "schedule_inv now ?s"
    using inv exp k by (auto simp: mesh_inv_def schedule_inv_def intro: scheduled_subset)
  ultimately show ?thesis
    using inv by (simp add: mesh_inv_def cache_inv_def delivered_inv_def behavior_inv_def)
qed

section \<open>Forgetting and remembering inventories\<close>

lemma forget_fields:
  "seen_inventories (forget_inventory k s) = hm_remove k (seen_inventories s)"
  "upstream_routes (forget_inventory k s) = hm_remove k (upstream_routes s)"
  "want_forwarded (forget_inventory k s) = hm_remove k (want_forwarded s)"
  by (simp_all add: forget_inventory_def Let_def)

lemma forget_pending:
  "pending_downstream (forget_inventory k s) = hm_remove k (pending_downstream s)"
  "pending_peer_count (forget_inventory k s) = pending_peer_count s -
     (case map_of (pending_downstream s) k of None \<Rightarrow> 0 | Some p \<Rightarrow> length (pp_peers p))"
  by (simp_all add: forget_inventory_def Let_def remove_pending_event_def split: option.splits)

lemma mesh_inv_forget:
  assumes inv: "mesh_inv lib now s" and q: "seen_order s = k # rest"
  shows "mesh_inv lib now (forget_inventory k (s\<lparr>seen_order := rest\<rparr>))"
proof -
  let ?s = "forget_inventory k (s\<lparr>seen_order := rest\<rparr>)"
  have r: "routes_inv s" and p: "pending_inv s" and sch: "schedule_inv now s"
    using inv by (auto simp: mesh_inv_def)
  have "fifo_ok (max_seen_events (options s)) (hm_remove k (seen_inventories s)) rest"
    using r q length_hm_remove_le[of k "seen_inventories s"] by (auto simp: routes_inv_def fifo_ok_def)
  then have "routes_inv ?s"
    using r by (auto simp: routes_inv_def forget_fields)
  moreover have "pending_inv ?s"
  proof -
    have "pending_sum (pending_downstream s) =
        (case map_of (pending_downstream s) k of None \<Rightarrow> 0 | Some w \<Rightarrow> length (pp_peers w)) +
        pending_sum (hm_remove k (pending_downstream s))"
      using p sum_list_hm_remove[of "pending_downstream s" k _ "\<lambda>kp. length (pp_peers (snd kp))"]
      by (auto simp: pending_inv_def split: option.splits)
    then show ?thesis
      using p by (auto simp: pending_inv_def forget_fields forget_pending)
  qed
  moreover have "schedule_inv now ?s"
  proof -
    have "expiry_set ?s \<subseteq> expiry_set s"
      by (auto simp: expiry_set_def forget_fields set_hm_remove)
    then show ?thesis
      using sch by (auto simp: schedule_inv_def forget_fields intro: scheduled_subset)
  qed
  ultimately show ?thesis
    using inv by (simp add: mesh_inv_def cache_inv_def delivered_inv_def behavior_inv_def)
qed

lemma evict_seen_stop:
  "length (seen_inventories s) < max_seen_events (options s) \<Longrightarrow> evict_seen q s = s"
  by (cases q) simp_all

lemma evict_seen_ok:
  assumes inv: "mesh_inv lib now s"
  defines "s0 \<equiv> evict_seen (seen_order s) s"
  shows "mesh_inv lib now s0" and "length (seen_inventories s0) < max_seen_events (options s)"
    and "keys (seen_inventories s0) \<subseteq> keys (seen_inventories s)"
    and "seen_order s0 = snd (fifo_room (max_seen_events (options s)) (seen_inventories s) (seen_order s))"
proof -
  have ok: "fifo_ok (max_seen_events (options s)) (seen_inventories s) (seen_order s)"
    "0 < max_seen_events (options s)"
    using inv by (auto simp: mesh_inv_def routes_inv_def options_wf_def)
  have "mesh_inv lib now s0 \<and> length (seen_inventories s0) < max_seen_events (options s) \<and>
      keys (seen_inventories s0) \<subseteq> keys (seen_inventories s) \<and>
      seen_order s0 = snd (fifo_room (max_seen_events (options s)) (seen_inventories s) (seen_order s))"
  proof (cases "length (seen_inventories s) < max_seen_events (options s)")
    case True
    then show ?thesis using inv by (simp add: s0_def evict_seen_stop fifo_room_def)
  next
    case False
    then have "seen_order s \<noteq> []" using ok fifo_ok_length by fastforce
    then obtain k rest where q: "seen_order s = k # rest" by (cases "seen_order s") auto
    let ?f = "forget_inventory k (s\<lparr>seen_order := rest\<rparr>)"
    have "length (seen_inventories ?f) < max_seen_events (options s)"
      using fifo_ok_room(2)[OF ok] False q by (simp add: fifo_room_def forget_fields)
    then have "s0 = ?f" using False q by (simp add: s0_def evict_seen_stop)
    then show ?thesis
      using mesh_inv_forget[OF inv q] \<open>length (seen_inventories ?f) < _\<close> False q
      by (auto simp: forget_fields fifo_room_def)
  qed
  then show "mesh_inv lib now s0" "length (seen_inventories s0) < max_seen_events (options s)"
    "keys (seen_inventories s0) \<subseteq> keys (seen_inventories s)"
    "seen_order s0 = snd (fifo_room (max_seen_events (options s)) (seen_inventories s) (seen_order s))"
    by auto
qed

lemma live_seen: "live now s \<Longrightarrow> map_of (seen_inventories s) k = Some t \<Longrightarrow> now < t"
  unfolding live_def expiry_set_def by (force dest: map_of_SomeD)

lemma live_route: "live now s \<Longrightarrow> map_of (upstream_routes s) k = Some r \<Longrightarrow> now < ur_expires_at_ms r"
  unfolding live_def expiry_set_def by (force dest: map_of_SomeD)

lemma remember_known:
  "live now s \<Longrightarrow> k \<in> keys (seen_inventories s) \<Longrightarrow> remember_inventory k now s = (False, s)"
  using live_seen[of now s k] by (force simp: remember_inventory_def split: option.splits)

lemma remember_new:
  assumes "k \<notin> keys (seen_inventories s)"
  defines "s0 \<equiv> evict_seen (seen_order s) s"
  shows "remember_inventory k now s =
    (True, track_expiry (sat_add now (route_ttl_ms (options s)))
       (s0\<lparr>seen_order := seen_order s0 @ [k],
           seen_inventories := hm_insert k (sat_add now (route_ttl_ms (options s))) (seen_inventories s0)\<rparr>))"
  using assms by (simp add: remember_inventory_def Let_def)

lemma mesh_inv_remember_new:
  assumes inv: "mesh_inv lib now s" and new: "k \<notin> keys (seen_inventories s)"
  shows "mesh_inv lib now (snd (remember_inventory k now s))"
    and "map_of (seen_inventories (snd (remember_inventory k now s))) k =
      Some (sat_add now (route_ttl_ms (options s)))"
    and "k \<notin> keys (upstream_routes (snd (remember_inventory k now s)))"
proof -
  define s0 where "s0 = evict_seen (seen_order s) s"
  define t where "t = sat_add now (route_ttl_ms (options s))"
  let ?m = "hm_insert k t (seen_inventories s0)"
  let ?s1 = "s0\<lparr>seen_order := seen_order s0 @ [k], seen_inventories := ?m\<rparr>"
  have eq: "snd (remember_inventory k now s) = track_expiry t ?s1"
    using remember_new[OF new] by (simp add: s0_def t_def)
  have s0: "mesh_inv lib now s0" "length (seen_inventories s0) < max_seen_events (options s)"
    "k \<notin> keys (seen_inventories s0)" "options s0 = options s"
    using evict_seen_ok[OF inv] new by (auto simp: s0_def)
  have r0: "routes_inv s0" using s0(1) by (simp add: mesh_inv_def)
  have noroute: "k \<notin> keys (upstream_routes s0)" by (rule routes_under_seen[OF r0 s0(3)])
  have "fifo_ok (max_seen_events (options s)) ?m (seen_order s0 @ [k])"
    using r0 s0 by (intro fifo_ok_push) (auto simp: routes_inv_def)
  then have "routes_inv ?s1"
    using r0 s0(4) noroute by (auto simp: routes_inv_def dest: hm_get_in_keys)
  moreover have "scheduled (next_prune_at_ms (track_expiry t ?s1)) (expiry_set ?s1)"
  proof (rule scheduled_track[where X = "expiry_set s0"])
    show "scheduled (next_prune_at_ms ?s1) (expiry_set s0)"
      using s0(1) by (simp add: mesh_inv_def schedule_inv_def)
    show "expiry_set ?s1 \<subseteq> insert t (expiry_set s0)"
      using image_insert_subset[OF set_hm_insert_subset[of k t "seen_inventories s0"], of snd]
      by (auto simp: expiry_set_def subset_iff)
  qed
  ultimately show "mesh_inv lib now (snd (remember_inventory k now s))"
    unfolding eq using s0(1)
    by (simp add: mesh_inv_def schedule_inv_def cache_inv_def delivered_inv_def behavior_inv_def
        pending_inv_def)
  show "map_of (seen_inventories (snd (remember_inventory k now s))) k =
      Some (sat_add now (route_ttl_ms (options s)))"
    unfolding eq by (simp add: t_def)
  show "k \<notin> keys (upstream_routes (snd (remember_inventory k now s)))"
    unfolding eq using noroute by simp
qed

section \<open>Announcements\<close>

lemma expiry_set_extend:
  assumes "map_of (seen_inventories s) k = Some t" and "t \<le> t'" and "ur_expires_at_ms r' = t'"
    and "scheduled n (expiry_set s)"
  shows "scheduled n (expiry_set (s\<lparr>upstream_routes := hm_insert k r' (upstream_routes s),
    seen_inventories := hm_insert k t' (seen_inventories s), want_forwarded := w\<rparr>))"
proof (rule scheduled_later[OF assms(4) _ assms(2)])
  show "t \<in> expiry_set s" using map_of_SomeD[OF assms(1)] by (force simp: expiry_set_def)
  have "(\<lambda>kr. ur_expires_at_ms (snd kr)) ` set (hm_insert k r' (upstream_routes s)) \<subseteq>
      insert t' ((\<lambda>kr. ur_expires_at_ms (snd kr)) ` set (upstream_routes s))"
    using image_insert_subset[OF set_hm_insert_subset, of "\<lambda>kr. ur_expires_at_ms (snd kr)" k r']
    by (simp add: assms(3))
  moreover have "snd ` set (hm_insert k t' (seen_inventories s)) \<subseteq> insert t' (snd ` set (seen_inventories s))"
    using image_insert_subset[OF set_hm_insert_subset, of snd k t'] by simp
  ultimately show "expiry_set (s\<lparr>upstream_routes := hm_insert k r' (upstream_routes s),
      seen_inventories := hm_insert k t' (seen_inventories s), want_forwarded := w\<rparr>) \<subseteq>
      insert t' (expiry_set s)"
    unfolding expiry_set_def by (simp add: subset_iff) blast
qed

text \<open>A route, its inventory and its forwarded \<open>WANT\<close> are written together, with one expiry.\<close>

lemma mesh_inv_route_write:
  assumes inv: "mesh_inv lib now s" and seen: "map_of (seen_inventories s) k = Some t"
    and t: "t \<le> t'" "t' = sat_add now (route_ttl_ms (options s))"
    and r': "route_ok (options s) k r'" "ur_expires_at_ms r' = t'" "\<not> ur_fulfilled r'"
  shows "mesh_inv lib now (s\<lparr>upstream_routes := hm_insert k r' (upstream_routes s),
    seen_inventories := hm_insert k t' (seen_inventories s),
    want_forwarded := hm_insert k t' (want_forwarded s)\<rparr>)" (is "mesh_inv lib now ?s")
proof -
  have rinv: "routes_inv s" and pinv: "pending_inv s" and sch: "schedule_inv now s"
    using inv by (auto simp: mesh_inv_def)
  have "fifo_ok (max_seen_events (options s)) (hm_insert k t' (seen_inventories s)) (seen_order s)"
    using rinv hm_get_in_keys[OF seen] by (intro fifo_ok_update) (auto simp: routes_inv_def)
  then have "routes_inv ?s"
    using rinv r' by (auto simp: routes_inv_def)
  moreover have "pending_inv ?s"
    using pinv r'(3) pending_route[OF pinv] by (simp add: pending_inv_def)
  moreover have "scheduled (next_prune_at_ms s) (expiry_set ?s)"
    using sch by (intro expiry_set_extend[OF seen t(1) r'(2)]) (simp add: schedule_inv_def)
  then have "schedule_inv now ?s"
    using sch r'(2) t(2) by (simp add: schedule_inv_def)
  ultimately show ?thesis
    using inv by (simp add: mesh_inv_def cache_inv_def delivered_inv_def behavior_inv_def)
qed

lemma route_ok_max_hop:
  "route_ok opts k r \<Longrightarrow> h \<le> max_hops opts \<Longrightarrow>
     route_ok opts k (r\<lparr>ur_hop_limit := max (ur_hop_limit r) h\<rparr>)"
  by (auto simp: route_ok_def route_provider_def less_max_iff_disj)

lemma route_ok_heal:
  "route_ok opts k r \<Longrightarrow>
     route_ok opts k (r\<lparr>ur_transport_disrupted_peers := bset_remove p (ur_transport_disrupted_peers r)\<rparr>)"
  by (auto simp: route_ok_def route_provider_def sorted_wrt_filter)

lemma route_ok_add_provider:
  "route_ok opts k r \<Longrightarrow> \<not> route_provider r p \<Longrightarrow>
     length (ur_alternate_peers r) + 1 < MAX_UPSTREAM_PROVIDERS_PER_EVENT \<Longrightarrow>
     route_ok opts k (r\<lparr>ur_alternate_peers := bset_insert p (ur_alternate_peers r), ur_expires_at_ms := t,
       ur_transport_disrupted_peers := bset_remove p (ur_transport_disrupted_peers r)\<rparr>)"
  by (auto simp: route_ok_def route_provider_def sorted_wrt_filter length_bset_insert
      sorted_insort_insert distinct_insort_insert set_insort_insert)

lemma mesh_inv_retry:
  assumes inv: "mesh_inv lib now s" and hop: "h \<le> max_hops (options s)"
  shows "mesh_inv lib now (snd (retry_inventory p k kind sz h now s))"
proof (cases "map_of (upstream_routes s) k")
  case None
  then show ?thesis using inv by (simp add: retry_inventory_def)
next
  case (Some r)
  define r1 where "r1 = r\<lparr>ur_hop_limit := max (ur_hop_limit r) h\<rparr>"
  have rinv: "routes_inv s" and sch: "schedule_inv now s" using inv by (auto simp: mesh_inv_def)
  note known = route_known[OF rinv Some]
  have r1: "route_ok (options s) k r1" "ur_expires_at_ms r1 = ur_expires_at_ms r"
    "ur_fulfilled r1 = ur_fulfilled r"
    using route_ok_max_hop[OF known(1) hop] by (simp_all add: r1_def)
  have upd: "mesh_inv lib now (s\<lparr>upstream_routes := hm_insert k r' (upstream_routes s)\<rparr>)"
    if "route_ok (options s) k r'" "ur_expires_at_ms r' = ur_expires_at_ms r"
      "ur_fulfilled r' = ur_fulfilled r" for r'
    using that by (intro mesh_inv_route_update[OF inv Some]) auto
  define t where "t = sat_add now (route_ttl_ms (options s))"
  have "ur_expires_at_ms r \<le> t" using sch Some by (simp add: schedule_inv_def t_def)
  then have ext: "mesh_inv lib now (s\<lparr>upstream_routes := hm_insert k r' (upstream_routes s),
      seen_inventories := hm_insert k t (seen_inventories s),
      want_forwarded := hm_insert k t (want_forwarded s)\<rparr>)"
    if "route_ok (options s) k r'" "ur_expires_at_ms r' = t" "\<not> ur_fulfilled r'" for r'
    using that by (intro mesh_inv_route_write[OF inv known(2)]) (auto simp: t_def)
  show ?thesis
    using inv upd[OF r1] upd[OF route_ok_heal[OF r1(1)]] r1(2,3)
      ext[OF route_ok_add_provider[OF r1(1), of p t]]
    by (auto simp: route_provider_def r1_def t_def retry_inventory_def Some Let_def not_le)
qed

lemma mesh_inv_open:
  assumes inv: "mesh_inv lib now s" and hop: "0 < h" "h \<le> max_hops (options s)"
    and seen: "map_of (seen_inventories s) k = Some (sat_add now (route_ttl_ms (options s)))"
    and none: "k \<notin> keys (upstream_routes s)"
    and val: "validate_event_id k = Inr ()" "validate_kind (options s) kind = Inr ()"
      "validate_event_len (options s) (unat sz) = Inr ()"
  shows "mesh_inv lib now (snd (open_route p k kind sz h now s))"
proof -
  define t where "t = sat_add now (route_ttl_ms (options s))"
  define r where "r = \<lparr>ur_peer_id = p, ur_alternate_peers = [], ur_transport_disrupted_peers = [],
    ur_event_kind = kind, ur_payload_bytes = sz, ur_hop_limit = h, ur_expires_at_ms = t,
    ur_fulfilled = False\<rparr>"
  have "route_ok (options s) k r"
    using hop val validate_event_id_canonical[of k]
    by (simp add: route_ok_def r_def MAX_UPSTREAM_PROVIDERS_PER_EVENT_def validate_event_len_def
        split: if_splits)
  moreover have "hm_insert k t (seen_inventories s) = seen_inventories s"
    using seen unfolding t_def by (rule update_triv)
  ultimately show ?thesis
    using mesh_inv_route_write[OF inv seen, of t r] none
    by (simp add: open_route_def Let_def t_def r_def)
qed

lemma mesh_inv_receive_inventory:
  assumes inv: "mesh_inv lib now s" and live: "live now s"
  shows "mesh_inv lib now (snd (receive_inventory p k kind sz h now s))"
proof (cases "k \<in> keys (seen_inventories s)")
  case True
  then show ?thesis
    using inv mesh_inv_retry[OF inv] remember_known[OF live True]
    by (auto simp: receive_inventory_def split: sum.splits)
next
  case False
  define s1 where "s1 = snd (remember_inventory k now s)"
  have rem: "remember_inventory k now s = (True, s1)"
    using remember_new[OF False] by (simp add: s1_def)
  have opt: "options s1 = options s" by (simp add: s1_def)
  note new = mesh_inv_remember_new[OF inv False, folded s1_def]
  show ?thesis
    using inv mesh_inv_open[OF new(1) _ _ _ new(3)] new(2) opt
    by (auto simp: receive_inventory_def rem word_gt_0 split: sum.splits)
qed

section \<open>Requests, frames and local evidence\<close>

lemma mesh_inv_heal:
  assumes "mesh_inv lib now s" and "map_of (upstream_routes s) k = Some r"
  shows "mesh_inv lib now (s\<lparr>upstream_routes := hm_insert k
    (r\<lparr>ur_transport_disrupted_peers := bset_remove p (ur_transport_disrupted_peers r)\<rparr>) (upstream_routes s)\<rparr>)"
  using assms route_known(1)[of s k r]
  by (intro mesh_inv_route_update[OF assms]) (auto simp: mesh_inv_def intro: route_ok_heal)

text \<open>
  In a live state that satisfies the invariant the request of a parked peer is never sent a
  second time: the first one went out with the route itself and lives as long.
\<close>

lemma receive_want_parks:
  assumes "mesh_inv lib now s" and "live now s" and "validate_event_id k = Inr ()"
    and "k \<notin> keys (cached_events s)" and "map_of (upstream_routes s) k = Some r" and "\<not> ur_fulfilled r"
  shows "receive_want p k now s = (Inr [], park_want p k now s)"
proof -
  have "routes_inv s" using assms(1) by (simp add: mesh_inv_def)
  then have "map_of (want_forwarded s) k = Some (ur_expires_at_ms r)" by (rule route_known(3)[OF _ assms(5)])
  then show ?thesis
    using assms live_route[OF assms(2,5)] by (simp add: receive_want_def)
qed

lemma mesh_inv_receive_want:
  assumes "mesh_inv lib now s" and "live now s"
  shows "mesh_inv lib now (snd (receive_want p k now s))"
proof (cases "\<exists>r. validate_event_id k = Inr () \<and> k \<notin> keys (cached_events s) \<and>
    map_of (upstream_routes s) k = Some r \<and> \<not> ur_fulfilled r")
  case True
  then show ?thesis
    using receive_want_parks[OF assms] mesh_inv_park[OF assms(1)] by fastforce
next
  case False
  then have "snd (receive_want p k now s) = s"
    by (auto simp: receive_want_def split: sum.splits option.splits)
  then show ?thesis using assms(1) by simp
qed

lemma route_ok_fulfilled:
  "route_ok opts k r \<Longrightarrow> route_ok opts k (r\<lparr>ur_fulfilled := True, ur_transport_disrupted_peers := []\<rparr>)"
  by (auto simp: route_ok_def)

text \<open>
  A route is fulfilled and its pending peers are removed in two writes; between them a peer waits for a
  fulfilled route. The invariant is stated for both writes at once.
\<close>

lemma remove_pending_routes:
  "snd (remove_pending_event k (s\<lparr>upstream_routes := R\<rparr>)) =
     (snd (remove_pending_event k s))\<lparr>upstream_routes := R\<rparr>"
  by (simp add: remove_pending_event_def split: option.splits)

lemma mesh_inv_fulfil:
  assumes inv: "mesh_inv lib now s" and k: "map_of (upstream_routes s) k = Some r"
  shows "mesh_inv lib now (snd (remove_pending_event k (s\<lparr>upstream_routes := hm_insert k
    (r\<lparr>ur_fulfilled := True, ur_transport_disrupted_peers := []\<rparr>) (upstream_routes s)\<rparr>)))"
proof -
  let ?s = "snd (remove_pending_event k s)"
  have "mesh_inv lib now ?s" by (rule mesh_inv_remove_pending[OF inv])
  moreover have "k \<notin> keys (pending_downstream ?s)"
    using inv by (intro pending_inv_remove(2)) (simp add: mesh_inv_def)
  moreover have "route_ok (options ?s) k (r\<lparr>ur_fulfilled := True, ur_transport_disrupted_peers := []\<rparr>)"
    using route_ok_fulfilled[OF route_known(1)] inv k by (simp add: mesh_inv_def)
  ultimately show ?thesis
    unfolding remove_pending_routes using mesh_inv_route_update[of lib now ?s k r] k by simp
qed

lemma mesh_inv_dismiss:
  assumes "mesh_inv lib now s"
  shows "mesh_inv lib now (dismiss_frame p k s)"
  using assms mesh_inv_fulfil[OF assms] by (auto simp: dismiss_frame_def split: option.splits)

lemma mesh_inv_disruption:
  assumes "mesh_inv lib now s"
  shows "mesh_inv lib now (snd (record_transport_disruption p k s))"
proof (cases "map_of (upstream_routes s) k")
  case None
  then show ?thesis using assms by (simp add: record_transport_disruption_def)
next
  case (Some r)
  have "mesh_inv lib now (s\<lparr>upstream_routes := hm_insert k
      (r\<lparr>ur_transport_disrupted_peers := bset_insert p (ur_transport_disrupted_peers r)\<rparr>) (upstream_routes s)\<rparr>)"
    if "\<not> ur_fulfilled r" "route_provider r p"
  proof (rule mesh_inv_route_update[OF assms Some])
    show "route_ok (options s) k
        (r\<lparr>ur_transport_disrupted_peers := bset_insert p (ur_transport_disrupted_peers r)\<rparr>)"
      using that route_known(1)[of s k r] assms Some
      by (auto simp: mesh_inv_def route_ok_def route_provider_def sorted_insort_insert
          distinct_insort_insert set_insort_insert)
  qed simp_all
  then show ?thesis using assms Some by (simp add: record_transport_disruption_def)
qed

lemma evict_delivered_pending:
  "evict_delivered q (s\<lparr>pending_downstream := a, pending_peer_count := b\<rparr>) =
     (evict_delivered q s)\<lparr>pending_downstream := a, pending_peer_count := b\<rparr>"
proof (induction q arbitrary: s)
  case (Cons x q)
  show ?case
    using Cons.IH[of "s\<lparr>delivered_order := q, delivered_events := hm_remove x (delivered_events s)\<rparr>"]
    by (cases s) simp
qed simp

lemma remember_delivered_pending:
  "snd (remember_delivered k now (s\<lparr>pending_downstream := a, pending_peer_count := b\<rparr>)) =
     (snd (remember_delivered k now s))\<lparr>pending_downstream := a, pending_peer_count := b\<rparr>"
  by (cases "evict_delivered (delivered_order s) s")
    (simp add: remember_delivered_def Let_def evict_delivered_pending track_expiry_def split: option.split)

lemma remember_remove_commute:
  "snd (remove_pending_event k (snd (remember_delivered k' now s))) =
     snd (remember_delivered k' now (snd (remove_pending_event k s)))"
  by (simp add: remove_pending_event_def remember_delivered_pending split: option.splits)

lemma accept_frame_state:
  assumes "map_of (upstream_routes s) k = Some r"
  shows "snd (accept_frame lib p k e sz route peers now s) =
    snd (remember_delivered k now (snd (remove_pending_event k
      ((store_event lib e sz now (record_peer_behavior p VALID_FRAME_REWARD ValidFrame s))
        \<lparr>upstream_routes := hm_insert k (r\<lparr>ur_fulfilled := True, ur_transport_disrupted_peers := []\<rparr>)
           (upstream_routes s)\<rparr>))))"
  using assms by (simp add: accept_frame_def Let_def split_def remember_remove_commute)

lemma mesh_inv_accept:
  assumes laws: "nostr_laws lib" and inv: "mesh_inv lib now s"
    and r: "map_of (upstream_routes s) k = Some r" and val: "validate_event lib (options s) e = Inr (k, sz)"
  shows "mesh_inv lib now (snd (accept_frame lib p k e sz route peers now s))"
proof -
  let ?s2 = "store_event lib e sz now (record_peer_behavior p VALID_FRAME_REWARD ValidFrame s)"
  have "mesh_inv lib now ?s2"
    using mesh_inv_store[OF laws mesh_inv_record[OF inv]] val by simp
  from mesh_inv_delivered[OF mesh_inv_fulfil[OF this, of k r]] show ?thesis
    using r by (simp add: accept_frame_state)
qed

lemma mesh_inv_receive_frame:
  assumes "nostr_laws lib" and "mesh_inv lib now s" and "vs \<or> verify lib e"
  shows "mesh_inv lib now (snd (receive_frame lib p k e peers now vs s))"
proof -
  have "(if vs then validate_event lib (options s) e else validate_verified_event lib (options s) e) =
      validate_event lib (options s) e"
    using assms(3) by (auto simp: validate_event_def)
  then show ?thesis
    using assms(2) mesh_inv_accept[OF assms(1,2)]
    by (auto simp: receive_frame_def split_def split: sum.splits option.splits)
qed

section \<open>Maintenance\<close>

lemma sweep_frame [simp]:
  "options (sweep_expired now s) = options s"
  "peer_behaviors (sweep_expired now s) = peer_behaviors s"
  "peer_behavior_order (sweep_expired now s) = peer_behavior_order s"
  by (simp_all add: sweep_expired_def Let_def)

lemma sweep_fields:
  "cached_events (sweep_expired now s) = hm_retain (\<lambda>_ c. now < ce_expires_at_ms c) (cached_events s)"
  "seen_inventories (sweep_expired now s) = hm_retain (\<lambda>_ t. now < t) (seen_inventories s)"
  "delivered_events (sweep_expired now s) = hm_retain (\<lambda>_ t. now < t) (delivered_events s)"
  "upstream_routes (sweep_expired now s) = hm_retain (\<lambda>_ r. now < ur_expires_at_ms r) (upstream_routes s)"
  "pending_downstream (sweep_expired now s) =
     hm_retain (\<lambda>k p. now < pp_expires_at_ms p \<and> hm_contains (upstream_routes (sweep_expired now s)) k)
       (pending_downstream s)"
  "want_forwarded (sweep_expired now s) =
     hm_retain (\<lambda>k t. now < t \<and> hm_contains (upstream_routes (sweep_expired now s)) k) (want_forwarded s)"
  by (simp_all add: sweep_expired_def Let_def prune_cached_events_def)

lemma live_sweep: "live now (sweep_expired now s)"
  by (auto simp: live_def expiry_set_def sweep_fields)

lemma cache_inv_sweep:
  assumes "cache_inv lib s" and "options_wf (options s)"
  shows "cache_inv lib (sweep_expired now s)"
  using cache_inv_prune[OF assms, of now] by (simp add: cache_inv_def sweep_expired_def Let_def)

lemma delivered_inv_sweep: "delivered_inv s \<Longrightarrow> delivered_inv (sweep_expired now s)"
  using fifo_ok_filter[of "max_seen_events (options s)" "delivered_events s" "delivered_order s"
      "\<lambda>(k, t). now < t"]
  by (simp add: delivered_inv_def sweep_expired_def Let_def)

lemma routes_inv_sweep:
  assumes "routes_inv s"
  shows "routes_inv (sweep_expired now s)"
proof -
  let ?s = "sweep_expired now s"
  have "fifo_ok (max_seen_events (options ?s)) (seen_inventories ?s) (seen_order ?s)"
    using assms fifo_ok_filter[of "max_seen_events (options s)" "seen_inventories s" "seen_order s"
      "\<lambda>(k, t). now < t"]
    by (simp add: routes_inv_def sweep_expired_def Let_def)
  moreover have wf: "hm_wf (upstream_routes s)" "hm_wf (want_forwarded s)" "hm_wf (seen_inventories s)"
    using assms by (auto simp: routes_inv_def fifo_ok_def)
  moreover have "keys (want_forwarded ?s) \<subseteq> keys (upstream_routes ?s)"
    unfolding sweep_fields(6) by force
  moreover have "route_ok (options ?s) k r \<and> map_of (seen_inventories ?s) k = Some (ur_expires_at_ms r) \<and>
      map_of (want_forwarded ?s) k = Some (ur_expires_at_ms r)"
    if r: "map_of (upstream_routes ?s) k = Some r" for k r
  proof -
    have "map_of (upstream_routes s) k = Some r" and "now < ur_expires_at_ms r"
      using r wf(1) by (auto simp: sweep_fields hm_get_retain split: option.splits if_splits)
    then show ?thesis
      using route_known[OF assms] r wf hm_get_in_keys[OF r]
      by (simp add: sweep_fields(2,6) hm_get_retain)
  qed
  ultimately show ?thesis by (simp add: routes_inv_def sweep_fields(4,6))
qed

lemma pending_inv_sweep:
  assumes "pending_inv s" and "hm_wf (upstream_routes s)"
  shows "pending_inv (sweep_expired now s)"
proof -
  let ?s = "sweep_expired now s"
  have "pending_peer_count ?s = pending_sum (pending_downstream ?s)"
    by (simp add: sweep_expired_def Let_def comp_def)
  moreover have "bset_wf (pp_peers p) \<and> length (pp_peers p) \<le> max_pending_peers_per_event (options ?s) \<and>
      (\<exists>r. map_of (upstream_routes ?s) k = Some r \<and> \<not> ur_fulfilled r)"
    if p: "map_of (pending_downstream ?s) k = Some p" for k p
  proof -
    have old: "map_of (pending_downstream s) k = Some p" and "k \<in> keys (upstream_routes ?s)"
      using p assms(1)
      by (auto simp: sweep_fields(5) hm_get_retain pending_inv_def split: option.splits if_splits)
    then obtain r where r: "map_of (upstream_routes ?s) k = Some r" by (metis hm_contains_iff)
    then have "map_of (upstream_routes s) k = Some r"
      using assms(2) by (auto simp: sweep_fields hm_get_retain split: option.splits if_splits)
    moreover have "\<not> ur_fulfilled r"
      using pending_route[OF assms(1) hm_get_in_keys[OF old]] calculation by auto
    ultimately show ?thesis using assms(1) old r by (simp add: pending_inv_def)
  qed
  ultimately show ?thesis
    using assms(1) by (simp add: pending_inv_def sweep_fields(5))
qed

lemma scheduled_min_opt: "scheduled (min_opt xs) (set xs)"
  using min_opt_Some[of xs] by (cases "min_opt xs") (simp_all add: scheduled_def)

lemma schedule_inv_sweep:
  assumes "schedule_inv now s" and "hm_wf (upstream_routes s)"
  shows "schedule_inv now (sweep_expired now s)"
proof -
  let ?s = "sweep_expired now s"
  let ?xs = "map ce_expires_at_ms (hm_values (cached_events ?s)) @ hm_values (seen_inventories ?s) @
    hm_values (delivered_events ?s) @ map ur_expires_at_ms (hm_values (upstream_routes ?s))"
  have "next_prune_at_ms ?s = min_opt ?xs" by (simp add: sweep_expired_def Let_def)
  moreover have "set ?xs = expiry_set ?s" by (simp add: expiry_set_def image_image Un_assoc)
  ultimately have "scheduled (next_prune_at_ms ?s) (expiry_set ?s)"
    by (metis scheduled_min_opt)
  moreover have "map_of (upstream_routes s) k = Some r" if "map_of (upstream_routes ?s) k = Some r" for k r
    using that assms(2) by (auto simp: sweep_fields(4) hm_get_retain split: option.splits if_splits)
  ultimately show ?thesis
    using assms(1) unfolding schedule_inv_def sweep_frame by blast
qed

lemma mesh_inv_sweep:
  assumes "mesh_inv lib now s"
  shows "mesh_inv lib now (sweep_expired now s)"
  using assms cache_inv_sweep[of lib s now] delivered_inv_sweep[of s now] routes_inv_sweep[of s now]
    pending_inv_sweep[of s now] schedule_inv_sweep[of now s]
  by (simp add: mesh_inv_def behavior_inv_def routes_inv_def[of s])

lemma prune_ok:
  assumes "mesh_inv lib clock s" and "clock \<le> now"
  shows "mesh_inv lib now (prune now s)" and "live now (prune now s)"
proof -
  have inv: "mesh_inv lib now s" using assms by (rule mesh_inv_mono)
  then have sch: "scheduled (next_prune_at_ms s) (expiry_set s)"
    by (simp add: mesh_inv_def schedule_inv_def)
  show "mesh_inv lib now (prune now s)"
    using inv by (auto simp: prune_def mesh_inv_sweep mesh_inv_penalize split: option.splits)
  have "live now s" if "next_prune_at_ms s = None \<or> (\<exists>t. next_prune_at_ms s = Some t \<and> now < t)"
    using sch that by (fastforce simp: live_def scheduled_def)
  then show "live now (prune now s)"
    by (auto simp: prune_def live_sweep split: option.splits)
qed

lemma prune_options [simp]: "options (prune now s) = options s"
  by (simp add: prune_def split: option.splits)

section \<open>Every operation\<close>

lemma mesh_inv_remember:
  assumes inv: "mesh_inv lib now s" and live: "\<And>k t. map_of (seen_inventories s) k = Some t \<Longrightarrow> now < t"
  shows "mesh_inv lib now (snd (remember_inventory k now s))"
proof (cases "k \<in> keys (seen_inventories s)")
  case True
  then have "remember_inventory k now s = (False, s)"
    using live[of k] by (force simp: remember_inventory_def split: option.splits)
  then show ?thesis using inv by simp
next
  case False
  then show ?thesis by (rule mesh_inv_remember_new(1)[OF inv])
qed

lemma mesh_inv_publish_validated:
  assumes "nostr_laws lib" and inv: "mesh_inv lib now s" and "live now s"
    and val: "\<And>k sz. validated = Inr (k, sz) \<Longrightarrow> validate_event lib (options s) e = Inr (k, sz)"
  shows "mesh_inv lib now (snd (publish_validated lib e peers now validated s))"
proof (cases validated)
  case (Inr kz)
  obtain k sz where kz: "kz = (k, sz)" by force
  have "mesh_inv lib now (store_event lib e sz now s)"
    using val Inr kz by (intro mesh_inv_store[OF assms(1) inv]) auto
  from mesh_inv_remember[OF this, of k] show ?thesis
    using Inr kz live_seen[OF assms(3)] by (auto simp: publish_validated_def split_def)
qed (simp add: publish_validated_def inv)

lemma mesh_inv_replay_validated:
  assumes "nostr_laws lib" and inv: "mesh_inv lib now s"
    and val: "\<And>k sz. validated = Inr (k, sz) \<Longrightarrow> validate_event lib (options s) e = Inr (k, sz)"
  shows "mesh_inv lib now (snd (replay_validated lib e p now validated s))"
  using mesh_inv_store[OF assms(1,2)] val inv
  by (auto simp: replay_validated_def Let_def split: sum.splits)

lemma mesh_inv_charge: "mesh_inv lib now (snd r) \<Longrightarrow> mesh_inv lib now (snd (charge_error p r))"
  by (auto simp: charge_error_def mesh_inv_invalid split: prod.splits sum.splits)

lemma verified_validate:
  "verify lib e \<Longrightarrow> validate_verified_event lib opts e = validate_event lib opts e"
  by (simp add: validate_event_def)

lemma mesh_inv_operations:
  assumes laws: "nostr_laws lib" and inv: "mesh_inv lib clock s" and clock: "clock \<le> now"
  shows "mesh_inv lib now (maintain now s)"
    and "mesh_inv lib now (snd (publish lib e peers now s))"
    and "verify lib (as_event v) \<Longrightarrow> mesh_inv lib now (snd (publish_verified lib v peers now s))"
    and "mesh_inv lib now (snd (replay_to_peer lib e p now s))"
    and "verify lib (as_event v) \<Longrightarrow> mesh_inv lib now (snd (replay_verified_to_peer lib v p now s))"
    and "verify lib (as_event v) \<Longrightarrow> mesh_inv lib now (snd (seed_verified lib v now s))"
    and "mesh_inv lib now (snd (replay_cached_to_peer p now s))"
    and "mesh_inv lib now (snd (receive lib p m peers now s))"
    and "verify lib (as_event v) \<Longrightarrow> mesh_inv lib now (snd (receive_verified_frame lib p k v peers now s))"
proof -
  note pr = prune_ok[OF inv clock]
  show "mesh_inv lib now (maintain now s)" using pr(1) by (simp add: maintain_def)
  show "mesh_inv lib now (snd (publish lib e peers now s))"
    using mesh_inv_publish_validated[OF laws pr] by (simp add: publish_def)
  show "mesh_inv lib now (snd (publish_verified lib v peers now s))" if "verify lib (as_event v)"
    using mesh_inv_publish_validated[OF laws pr] that
    by (simp add: publish_verified_def Let_def verified_validate)
  show "mesh_inv lib now (snd (replay_to_peer lib e p now s))"
    using mesh_inv_replay_validated[OF laws pr(1)] by (simp add: replay_to_peer_def)
  show "mesh_inv lib now (snd (replay_verified_to_peer lib v p now s))" if "verify lib (as_event v)"
    using mesh_inv_replay_validated[OF laws pr(1)] that
    by (simp add: replay_verified_to_peer_def Let_def verified_validate)
  show "mesh_inv lib now (snd (seed_verified lib v now s))" if "verify lib (as_event v)"
    using mesh_inv_store[OF laws pr(1)] pr(1) that
    by (auto simp: seed_verified_def Let_def verified_validate split: sum.splits)
  show "mesh_inv lib now (snd (replay_cached_to_peer p now s))"
    using pr(1) by (simp add: replay_cached_to_peer_def Let_def)
  show "mesh_inv lib now (snd (receive lib p m peers now s))"
    using mesh_inv_receive_inventory[OF pr] mesh_inv_receive_want[OF pr]
      mesh_inv_receive_frame[OF laws pr(1), of True]
    by (auto simp: receive_def Let_def intro!: mesh_inv_charge split: wire_message.split)
  show "mesh_inv lib now (snd (receive_verified_frame lib p k v peers now s))" if "verify lib (as_event v)"
    using mesh_inv_receive_frame[OF laws pr(1), of False] that
    by (auto simp: receive_verified_frame_def intro!: mesh_inv_charge)
qed

end
