(* ===== verification/Nostr_Instance.thy ===== *)
theory Nostr_Instance
  imports Events
begin

unbundle bit_operations_syntax

text \<open>
  A concrete \<open>nostr_lib\<close> that satisfies \<open>nostr_laws\<close>: the assumptions about the third-party
  crate are consistent, and closed instances of the theorems can be evaluated. Identifiers are written
  in hexadecimal for real; an event's identifier checks when it is the one computed from
  the author, and a signature checks when it repeats the identifier.
\<close>

definition nibble :: "event_id \<Rightarrow> nat \<Rightarrow> nat" where
  "nibble w i = unat (drop_bit (4 * i) w AND mask 4)"

definition hex_char :: "nat \<Rightarrow> char" where
  "hex_char n = ''0123456789abcdef'' ! n"

definition demo_to_hex :: "event_id \<Rightarrow> string" where
  "demo_to_hex w = map (\<lambda>i. hex_char (nibble w (63 - i))) [0..<64]"

definition demo_match :: "filter \<Rightarrow> event \<Rightarrow> bool" where
  "demo_match f e \<longleftrightarrow>
     (case f_kinds f of None \<Rightarrow> True | Some ks \<Rightarrow> ev_kind e \<in> set ks) \<and>
     (case f_since f of None \<Rightarrow> True | Some t \<Rightarrow> t \<le> ev_created_at e) \<and>
     (case f_until f of None \<Rightarrow> True | Some t \<Rightarrow> ev_created_at e \<le> t)"

definition demo_lib :: nostr_lib where
  "demo_lib = \<lparr>
     verify = (\<lambda>e. ev_id e = ev_pubkey e \<and> ev_sig e = ucast (ev_id e)),
     verify_id = (\<lambda>e. ev_id e = ev_pubkey e),
     verify_signature = (\<lambda>i p s. s = ucast i),
     to_hex = demo_to_hex,
     from_hex = (\<lambda>s. None),
     event_json = (\<lambda>e. Some (replicate 100 0)),
     match_event = demo_match,
     tags_identifier = (\<lambda>tags. case tags of (name # value # _) # _ \<Rightarrow> Some value | _ \<Rightarrow> None)\<rparr>"

definition demo_event :: "event_id \<Rightarrow> u64 \<Rightarrow> u16 \<Rightarrow> event" where
  "demo_event i t k = \<lparr>ev_id = i, ev_pubkey = i, ev_created_at = t, ev_kind = k, ev_tags = [],
     ev_content = [], ev_sig = ucast i\<rparr>"

lemma nibble_bound: "nibble w i < 16"
proof -
  have "(drop_bit (4 * i) w AND mask 4) \<le> (mask 4 :: event_id)"
    by (rule word_and_le1)
  moreover have "unat (mask 4 :: event_id) = 15"
    by (simp add: mask_eq_exp_minus_1)
  ultimately show ?thesis
    by (simp add: nibble_def word_le_nat_alt)
qed

lemma hex_char_digit: "n < 16 \<Longrightarrow> hex_digit (hex_char n)"
  unfolding hex_digit_def hex_char_def by (rule nth_mem) simp

lemma hex_char_inj: "n < 16 \<Longrightarrow> m < 16 \<Longrightarrow> hex_char n = hex_char m \<Longrightarrow> n = m"
  unfolding hex_char_def by (subst (asm) nth_eq_iff_index_eq) simp_all

lemma nibble_bits:
  assumes "\<forall>i < 64. nibble v i = nibble w i"
  shows "v = w"
proof (rule bit_word_eqI)
  fix n
  assume "n < LENGTH(256)"
  then have "n div 4 < 64" by simp
  then have "nibble v (n div 4) = nibble w (n div 4)" using assms by blast
  then have "drop_bit (4 * (n div 4)) v AND mask 4 = drop_bit (4 * (n div 4)) w AND mask 4"
    unfolding nibble_def by (rule unsigned_word_eqI)
  then have "bit (drop_bit (4 * (n div 4)) v AND mask 4) (n mod 4) =
      bit (drop_bit (4 * (n div 4)) w AND mask 4) (n mod 4)" by simp
  moreover have "n mod 4 < 256" by (rule less_trans[of _ 4]) simp_all
  moreover have "4 * (n div 4) + n mod 4 = n" by simp
  ultimately show "bit v n = bit w n"
    using \<open>n < LENGTH(256)\<close> by (simp add: bit_and_iff bit_drop_bit_eq bit_mask_iff)
qed

lemma demo_to_hex_inj: "inj demo_to_hex"
proof (rule injI)
  fix v w
  assume eq: "demo_to_hex v = demo_to_hex w"
  have "nibble v i = nibble w i" if "i < 64" for i
  proof -
    have "demo_to_hex v ! (63 - i) = demo_to_hex w ! (63 - i)" using eq by simp
    moreover have "[0..<64] ! (63 - i) = 63 - i" using nth_upt[of 0 "63 - i" 64] by simp
    ultimately have "hex_char (nibble v i) = hex_char (nibble w i)"
      using that by (simp add: demo_to_hex_def)
    then show ?thesis by (rule hex_char_inj[OF nibble_bound nibble_bound])
  qed
  then show "v = w" by (intro nibble_bits) blast
qed

lemma demo_laws: "nostr_laws demo_lib"
proof -
  have "verify_law demo_lib" by (simp add: verify_law_def demo_lib_def)
  moreover have "id_binding_law demo_lib"
    by (simp add: id_binding_law_def demo_lib_def)
  moreover have "hex_law demo_lib"
    using demo_to_hex_inj hex_char_digit[OF nibble_bound]
    by (simp add: hex_law_def demo_lib_def canonical_hex_def list_all_iff demo_to_hex_def)
  ultimately show ?thesis by (simp add: nostr_laws_def)
qed

lemma demo_event_verifies: "verify demo_lib (demo_event i t k)"
  by (simp add: demo_lib_def demo_event_def)

theorem verification_cache_correct_witness:
  "fst (vc_verify demo_lib (vc_run demo_lib [demo_event 7 1 1, demo_event 8 1 1]) (demo_event 7 1 1)) =
     Inr (VerifiedEvent (demo_event 7 1 1))"
  using verification_cache_correct[OF demo_laws] demo_event_verifies by blast

end
