(* ===== verification/Mesh_Protocol.thy ===== *)
theory Mesh_Protocol
  imports Mesh_Routes Nostr_Instance
begin

text \<open>
  A mesh node in operation: the step relation has one rule for every public operation of
  \<open>InvWantMesh\<close> that changes its state, called with a clock that does not go back, and one rule
  by which a hash map may change its iteration order. A node is the clock, the mesh and
  the log of the messages it received and the actions it returned. The invariant of the mesh
  holds in every reachable node; the properties of single operations follow.
\<close>

section \<open>Nodes and steps\<close>

datatype entry = In string wire_message | Out action

type_synonym node = "u64 \<times> mesh \<times> entry list"

fun returned :: "action list result \<Rightarrow> entry list" where
  "returned (Inl err) = []"
| "returned (Inr acts) = map Out acts"

text \<open>Two states that differ only in the iteration order of their hash maps.\<close>

definition same_tables :: "mesh \<Rightarrow> mesh \<Rightarrow> bool" where
  "same_tables s s' \<longleftrightarrow>
     mset (cached_events s') = mset (cached_events s) \<and>
     mset (seen_inventories s') = mset (seen_inventories s) \<and>
     mset (delivered_events s') = mset (delivered_events s) \<and>
     mset (upstream_routes s') = mset (upstream_routes s) \<and>
     mset (pending_downstream s') = mset (pending_downstream s) \<and>
     mset (want_forwarded s') = mset (want_forwarded s) \<and>
     mset (peer_behaviors s') = mset (peer_behaviors s) \<and>
     options s' = options s \<and> cache_order s' = cache_order s \<and>
     cached_event_bytes s' = cached_event_bytes s \<and> seen_order s' = seen_order s \<and>
     delivered_order s' = delivered_order s \<and> pending_peer_count s' = pending_peer_count s \<and>
     next_prune_at_ms s' = next_prune_at_ms s \<and> peer_behavior_order s' = peer_behavior_order s"

inductive mesh_step :: "nostr_lib \<Rightarrow> node \<Rightarrow> node \<Rightarrow> bool" for lib where
  step_maintain: "c \<le> now \<Longrightarrow> mesh_step lib (c, s, log) (now, maintain now s, log)"
| step_publish: "c \<le> now \<Longrightarrow> publish lib e peers now s = (res, s') \<Longrightarrow>
    mesh_step lib (c, s, log) (now, s', log @ returned res)"
| step_publish_verified: "c \<le> now \<Longrightarrow> verify lib (as_event v) \<Longrightarrow>
    publish_verified lib v peers now s = (res, s') \<Longrightarrow>
    mesh_step lib (c, s, log) (now, s', log @ returned res)"
| step_replay: "c \<le> now \<Longrightarrow> replay_to_peer lib e p now s = (res, s') \<Longrightarrow>
    mesh_step lib (c, s, log) (now, s', log @ returned res)"
| step_replay_verified: "c \<le> now \<Longrightarrow> verify lib (as_event v) \<Longrightarrow>
    replay_verified_to_peer lib v p now s = (res, s') \<Longrightarrow>
    mesh_step lib (c, s, log) (now, s', log @ returned res)"
| step_seed: "c \<le> now \<Longrightarrow> verify lib (as_event v) \<Longrightarrow> seed_verified lib v now s = (res, s') \<Longrightarrow>
    mesh_step lib (c, s, log) (now, s', log)"
| step_replay_cached: "c \<le> now \<Longrightarrow> replay_cached_to_peer p now s = (Some acts, s') \<Longrightarrow>
    mesh_step lib (c, s, log) (now, s', log @ map Out acts)"
| step_receive: "c \<le> now \<Longrightarrow> receive lib p m peers now s = (res, s') \<Longrightarrow>
    mesh_step lib (c, s, log) (now, s', log @ In p m # returned res)"
| step_receive_verified: "c \<le> now \<Longrightarrow> verify lib (as_event v) \<Longrightarrow>
    receive_verified_frame lib p k v peers now s = (res, s') \<Longrightarrow>
    mesh_step lib (c, s, log) (now, s', log @ In p (Frame k (as_event v)) # returned res)"
| step_invalid: "mesh_step lib (c, s, log) (c, record_invalid_message p s, log)"
| step_dismiss: "mesh_step lib (c, s, log) (c, dismiss_frame p k s, log)"
| step_disruption: "record_transport_disruption p k s = (b, s') \<Longrightarrow>
    mesh_step lib (c, s, log) (c, s', log)"
| step_rehash: "same_tables s s' \<Longrightarrow> mesh_step lib (c, s, log) (c, s', log)"

inductive_cases mesh_stepE: "mesh_step lib n n'"

definition mesh_start :: "mesh_options \<Rightarrow> node \<Rightarrow> bool" where
  "mesh_start o0 n \<longleftrightarrow> (\<exists>c. n = (c, mesh_new o0, []))"

definition mesh_reachable :: "nostr_lib \<Rightarrow> mesh_options \<Rightarrow> node \<Rightarrow> bool" where
  "mesh_reachable lib o0 n \<longleftrightarrow> (\<exists>n0. mesh_start o0 n0 \<and> (mesh_step lib)\<^sup>*\<^sup>* n0 n)"

section \<open>The invariant is kept\<close>

lemma same_tables_get:
  assumes "same_tables s s'" and "mesh_inv lib c s"
  shows "map_of (upstream_routes s') = map_of (upstream_routes s)"
    and "map_of (seen_inventories s') = map_of (seen_inventories s)"
    and "map_of (want_forwarded s') = map_of (want_forwarded s)"
    and "map_of (pending_downstream s') = map_of (pending_downstream s)"
proof -
  have wf: "hm_wf (upstream_routes s)" "hm_wf (seen_inventories s)" "hm_wf (want_forwarded s)"
    "hm_wf (pending_downstream s)"
    using assms(2) by (auto simp: mesh_inv_def routes_inv_def pending_inv_def fifo_ok_def)
  have m: "mset (upstream_routes s) = mset (upstream_routes s')"
    "mset (seen_inventories s) = mset (seen_inventories s')"
    "mset (want_forwarded s) = mset (want_forwarded s')"
    "mset (pending_downstream s) = mset (pending_downstream s')"
    using assms(1) by (simp_all add: same_tables_def)
  show "map_of (upstream_routes s') = map_of (upstream_routes s)"
    "map_of (seen_inventories s') = map_of (seen_inventories s)"
    "map_of (want_forwarded s') = map_of (want_forwarded s)"
    "map_of (pending_downstream s') = map_of (pending_downstream s)"
    using mset_hm_get[OF m(1) wf(1)] mset_hm_get[OF m(2) wf(2)] mset_hm_get[OF m(3) wf(3)]
      mset_hm_get[OF m(4) wf(4)] by (simp_all add: fun_eq_iff)
qed

lemma same_tables_inv:
  assumes eq: "same_tables s s'" and inv: "mesh_inv lib c s"
  shows "mesh_inv lib c s'"
proof -
  note get = same_tables_get[OF eq inv]
  note m = eq[unfolded same_tables_def]
  have sets: "set (cached_events s') = set (cached_events s)"
    "set (seen_inventories s') = set (seen_inventories s)"
    "set (delivered_events s') = set (delivered_events s)"
    "set (upstream_routes s') = set (upstream_routes s)"
    "set (want_forwarded s') = set (want_forwarded s)"
    "set (peer_behaviors s') = set (peer_behaviors s)"
    using m by (metis mset_eq_setD)+
  have wf: "hm_wf (upstream_routes s') = hm_wf (upstream_routes s)"
    "hm_wf (want_forwarded s') = hm_wf (want_forwarded s)"
    "hm_wf (pending_downstream s') = hm_wf (pending_downstream s)"
    using m by (metis mset_hm_wf)+
  have sums: "payload_sum (cached_events s') = payload_sum (cached_events s)"
    "pending_sum (pending_downstream s') = pending_sum (pending_downstream s)"
    using m by (metis mset_hm_sum)+
  have fifos: "fifo_ok n (cached_events s') q = fifo_ok n (cached_events s) q"
    "fifo_ok n (seen_inventories s') q = fifo_ok n (seen_inventories s) q"
    "fifo_ok n (delivered_events s') q = fifo_ok n (delivered_events s) q"
    "fifo_ok n (peer_behaviors s') q = fifo_ok n (peer_behaviors s) q" for n q
    using m by (metis mset_fifo_ok)+
  note eqs = get sets wf sums fifos
  have "cache_inv lib s' = cache_inv lib s" "delivered_inv s' = delivered_inv s"
    "behavior_inv s' = behavior_inv s"
    using m by (simp_all add: cache_inv_def delivered_inv_def behavior_inv_def eqs)
  moreover have "routes_inv s' = routes_inv s" "pending_inv s' = pending_inv s"
    "schedule_inv c s' = schedule_inv c s"
    using m by (simp_all add: routes_inv_def pending_inv_def schedule_inv_def expiry_set_def eqs)
  ultimately show ?thesis using inv m by (simp add: mesh_inv_def)
qed

definition node_inv :: "nostr_lib \<Rightarrow> mesh_options \<Rightarrow> node \<Rightarrow> bool" where
  "node_inv lib o0 n \<longleftrightarrow>
     (case n of (c, s, log) \<Rightarrow> mesh_inv lib c s \<and> options s = normalize_options o0)"

text \<open>No operation changes the options.\<close>

lemma receive_options [simp]:
  "options (snd (retry_inventory p k kind sz h now s)) = options s"
  "options (snd (open_route p k kind sz h now s)) = options s"
  "options (snd (receive_want p k now s)) = options s"
  "options (snd (accept_frame lib p k e sz route peers now s)) = options s"
  by (simp_all add: retry_inventory_def open_route_def receive_want_def accept_frame_def Let_def split_def
      split: option.split sum.split)

lemma receive_inventory_options [simp]:
  "options (snd (receive_inventory p k kind sz h now s)) = options s"
  by (simp add: receive_inventory_def split_def split: sum.split)

lemma receive_frame_options [simp]:
  "options (snd (receive_frame lib p k e peers now vs s)) = options s"
  by (simp add: receive_frame_def split_def split: sum.split option.split)

lemma charge_options [simp]: "options (snd (charge_error p r)) = options (snd r)"
  by (simp add: charge_error_def split: prod.split sum.split)

lemma receive_options_top [simp]: "options (snd (receive lib p m peers now s)) = options s"
  by (simp add: receive_def Let_def split: wire_message.split)

lemma validated_options [simp]:
  "options (snd (publish_validated lib e peers now res s)) = options s"
  "options (snd (replay_validated lib e p now res s)) = options s"
  by (simp_all add: publish_validated_def replay_validated_def split_def Let_def split: sum.split)

lemma operation_options [simp]:
  "options (maintain now s) = options s"
  "options (snd (publish lib e peers now s)) = options s"
  "options (snd (publish_verified lib v peers now s)) = options s"
  "options (snd (replay_to_peer lib e p now s)) = options s"
  "options (snd (replay_verified_to_peer lib v p now s)) = options s"
  "options (snd (seed_verified lib v now s)) = options s"
  "options (snd (replay_cached_to_peer p now s)) = options s"
  "options (snd (receive_verified_frame lib p k v peers now s)) = options s"
  "options (dismiss_frame p k s) = options s"
  "options (snd (record_transport_disruption p k s)) = options s"
  by (simp_all add: maintain_def publish_def publish_verified_def replay_to_peer_def
      replay_verified_to_peer_def seed_verified_def replay_cached_to_peer_def
      receive_verified_frame_def dismiss_frame_def record_transport_disruption_def Let_def
      split: sum.split option.split prod.split)

lemma node_inv_step:
  assumes laws: "nostr_laws lib" and "mesh_step lib n n'" and "node_inv lib o0 n"
  shows "node_inv lib o0 n'"
  using assms(2,3)
proof (induction rule: mesh_step.induct)
  case (step_rehash s s' c log)
  then show ?case using same_tables_inv[of s s' lib c] by (auto simp: node_inv_def same_tables_def)
qed (use mesh_inv_operations[OF laws] mesh_inv_invalid mesh_inv_dismiss mesh_inv_disruption
       operation_options receive_options_top in \<open>(simp add: node_inv_def; metis snd_conv)+\<close>)

interpretation node: step_system
  "\<lambda>n. nostr_laws lib \<and> usize_limits o0 \<and> mesh_start o0 n" "mesh_step lib"
  "\<lambda>n. nostr_laws lib \<and> node_inv lib o0 n" for lib o0
proof
  show "nostr_laws lib \<and> node_inv lib o0 n" if "nostr_laws lib \<and> usize_limits o0 \<and> mesh_start o0 n" for n
    using that mesh_inv_new[of o0 lib] by (auto simp: node_inv_def mesh_start_def mesh_new_def)
qed (use node_inv_step in blast)

lemma reachable_inv:
  assumes "nostr_laws lib" and "usize_limits o0" and "mesh_reachable lib o0 (c, s, log)"
  shows "mesh_inv lib c s" and "options s = normalize_options o0"
  using assms node.reachable_good[of lib o0 _ "(c, s, log)"]
  by (auto simp: mesh_reachable_def node_inv_def)

lemma reachable_prune:
  assumes "nostr_laws lib" and "usize_limits o0" and "mesh_reachable lib o0 (c, s, log)" and "c \<le> now"
  shows "mesh_inv lib now (prune now s)" and "live now (prune now s)"
  using prune_ok[OF reachable_inv(1)[OF assms(1-3)] assms(4)] by auto

section \<open>Bounded state\<close>

lemma length_le_keys: "hm_wf m \<Longrightarrow> hm_wf m' \<Longrightarrow> keys m \<subseteq> keys m' \<Longrightarrow> length m \<le> length m'"
  by (simp add: length_keys card_mono)

lemma sum_list_le_const:
  "(\<And>x. x \<in> set xs \<Longrightarrow> f x \<le> n) \<Longrightarrow> sum_list (map f xs) \<le> (n :: nat) * length xs"
  by (induction xs) (simp_all add: add_mono)

lemma routes_keys:
  assumes "routes_inv s"
  shows "keys (upstream_routes s) \<subseteq> keys (seen_inventories s)"
    and "keys (want_forwarded s) = keys (upstream_routes s)"
proof -
  have "k \<in> keys (seen_inventories s) \<and> k \<in> keys (want_forwarded s)" if k: "k \<in> keys (upstream_routes s)" for k
  proof -
    obtain r where r: "map_of (upstream_routes s) k = Some r" using k by (rule hm_keysE)
    show ?thesis using hm_get_in_keys[OF route_known(2)[OF assms r]] hm_get_in_keys[OF route_known(3)[OF assms r]]
      by blast
  qed
  then show "keys (upstream_routes s) \<subseteq> keys (seen_inventories s)"
    and "keys (want_forwarded s) = keys (upstream_routes s)"
    using assms unfolding routes_inv_def by blast+
qed

lemma pending_keys:
  assumes "pending_inv s"
  shows "keys (pending_downstream s) \<subseteq> keys (upstream_routes s)"
proof
  fix k
  assume "k \<in> keys (pending_downstream s)"
  from pending_route[OF assms this] show "k \<in> keys (upstream_routes s)" using hm_get_in_keys by fast
qed

lemma disrupted_bound:
  assumes "route_ok opts k r"
  shows "length (ur_transport_disrupted_peers r) \<le> MAX_UPSTREAM_PROVIDERS_PER_EVENT"
proof -
  have "set (ur_transport_disrupted_peers r) \<subseteq> insert (ur_peer_id r) (set (ur_alternate_peers r))"
    using assms by (auto simp: route_ok_def route_provider_def)
  then have "card (set (ur_transport_disrupted_peers r)) \<le> card (insert (ur_peer_id r) (set (ur_alternate_peers r)))"
    by (intro card_mono) auto
  also have "\<dots> \<le> length (ur_alternate_peers r) + 1"
    using card_length[of "ur_alternate_peers r"] by (simp add: card_insert_if)
  finally show ?thesis using assms by (simp add: route_ok_def distinct_card)
qed

lemma mesh_inv_bounds:
  assumes inv: "mesh_inv lib c s"
  defines "opts \<equiv> options s" and "u \<equiv> retained_state s"
  shows "rs_cached_events u \<le> max_cached_events opts"
    and "unat (rs_cached_event_bytes u) \<le> max_cached_event_bytes opts"
    and "rs_seen_inventories u \<le> max_seen_events opts"
    and "rs_delivered_events u \<le> max_seen_events opts"
    and "rs_upstream_routes u \<le> rs_seen_inventories u"
    and "rs_transport_disrupted_route_peers u \<le> MAX_UPSTREAM_PROVIDERS_PER_EVENT * rs_upstream_routes u"
    and "rs_forwarded_wants u = rs_upstream_routes u"
    and "rs_pending_events u \<le> rs_upstream_routes u"
    and "rs_pending_peers u \<le> max_pending_peers_per_event opts * rs_pending_events u"
    and "rs_peer_behaviors u \<le> MAX_TRACKED_PEER_BEHAVIORS"
proof -
  have parts: "cache_inv lib s" "delivered_inv s" "behavior_inv s" and r: "routes_inv s" and p: "pending_inv s"
    using inv by (auto simp: mesh_inv_def)
  have wf: "hm_wf (upstream_routes s)" "hm_wf (want_forwarded s)" "hm_wf (seen_inventories s)"
    "hm_wf (pending_downstream s)"
    using r p by (auto simp: routes_inv_def pending_inv_def fifo_ok_def)
  show "rs_cached_events u \<le> max_cached_events opts"
    "unat (rs_cached_event_bytes u) \<le> max_cached_event_bytes opts"
    using parts(1) by (simp_all add: u_def retained_state_def cache_inv_def fifo_ok_def opts_def)
  show "rs_delivered_events u \<le> max_seen_events opts" "rs_peer_behaviors u \<le> MAX_TRACKED_PEER_BEHAVIORS"
    using parts(2,3) by (simp_all add: u_def retained_state_def delivered_inv_def behavior_inv_def fifo_ok_def opts_def)
  show "rs_seen_inventories u \<le> max_seen_events opts"
    using r by (simp add: u_def retained_state_def routes_inv_def fifo_ok_def opts_def)
  show "rs_upstream_routes u \<le> rs_seen_inventories u" "rs_forwarded_wants u = rs_upstream_routes u"
    "rs_pending_events u \<le> rs_upstream_routes u"
    using wf routes_keys[OF r] pending_keys[OF p]
    by (simp_all add: u_def retained_state_def length_le_keys length_keys card_mono)
  have "length (ur_transport_disrupted_peers (snd kr)) \<le> MAX_UPSTREAM_PROVIDERS_PER_EVENT"
    if "kr \<in> set (upstream_routes s)" for kr
    using that r wf(1) disrupted_bound[of "options s" "fst kr" "snd kr"]
    by (simp add: routes_inv_def hm_get_iff)
  then show "rs_transport_disrupted_route_peers u \<le> MAX_UPSTREAM_PROVIDERS_PER_EVENT * rs_upstream_routes u"
    using sum_list_le_const[of "upstream_routes s" "\<lambda>kr. length (ur_transport_disrupted_peers (snd kr))"]
    by (simp add: u_def retained_state_def comp_def)
  have "length (pp_peers (snd kp)) \<le> max_pending_peers_per_event (options s)"
    if "kp \<in> set (pending_downstream s)" for kp
  proof -
    have "map_of (pending_downstream s) (fst kp) = Some (snd kp)" using that wf(4) by (simp add: hm_get_iff)
    then show ?thesis using p unfolding pending_inv_def by blast
  qed
  then show "rs_pending_peers u \<le> max_pending_peers_per_event opts * rs_pending_events u"
    using sum_list_le_const[of "pending_downstream s" "\<lambda>kp. length (pp_peers (snd kp))"] p
    by (simp add: u_def opts_def retained_state_def pending_inv_def)
qed

text \<open>
  C8: whatever a node publishes, replays and receives, the state it retains stays within the
  limits of its normalised options: cached events and their bytes, remembered inventories
  and deliveries, routes and their disrupted providers, waiting peers and tracked peer
  behaviours.
\<close>

theorem retained_state_bounded:
  assumes "nostr_laws lib" and "usize_limits o0" and "mesh_reachable lib o0 (c, s, log)"
  shows "let opts = normalize_options o0; u = retained_state s in
    rs_cached_events u \<le> max_cached_events opts \<and>
    unat (rs_cached_event_bytes u) \<le> max_cached_event_bytes opts \<and>
    rs_seen_inventories u \<le> max_seen_events opts \<and>
    rs_delivered_events u \<le> max_seen_events opts \<and>
    rs_upstream_routes u \<le> rs_seen_inventories u \<and>
    rs_transport_disrupted_route_peers u \<le> MAX_UPSTREAM_PROVIDERS_PER_EVENT * rs_upstream_routes u \<and>
    rs_forwarded_wants u = rs_upstream_routes u \<and>
    rs_pending_events u \<le> rs_upstream_routes u \<and>
    rs_pending_peers u \<le> max_pending_peers_per_event opts * rs_pending_events u \<and>
    rs_peer_behaviors u \<le> MAX_TRACKED_PEER_BEHAVIORS"
  using mesh_inv_bounds[OF reachable_inv(1)[OF assms]] reachable_inv(2)[OF assms] by simp

section \<open>Single operations of a reachable node\<close>

lemma receive_inventory_error:
  assumes "live now s" and "receive_inventory p k kind sz h now s = (Inl err, s')"
  shows "s' = s"
proof (cases "k \<in> keys (seen_inventories s)")
  case True
  then show ?thesis
    using assms(2) remember_known[OF assms(1) True]
    by (auto simp: receive_inventory_def retry_inventory_def Let_def
        split: sum.splits option.splits if_splits)
next
  case False
  then show ?thesis
    using assms(2) remember_new[OF False]
    by (auto simp: receive_inventory_def open_route_def Let_def split: sum.splits if_splits)
qed

lemma receive_want_error: "receive_want p k now s = (Inl err, s') \<Longrightarrow> s' = s"
  by (auto simp: receive_want_def Let_def split: sum.splits option.splits if_splits)

lemma receive_frame_error: "receive_frame lib p k e peers now vs s = (Inl err, s') \<Longrightarrow> s' = s"
  by (auto simp: receive_frame_def split_def split: sum.splits option.splits if_splits prod.splits)

lemma charge_error_Inl:
  "charge_error p r = (Inl err, s') \<longleftrightarrow> (\<exists>s. r = (Inl err, s) \<and> s' = record_invalid_message p s)"
  by (auto simp: charge_error_def split: prod.splits sum.splits)

lemma charge_error_Inr: "charge_error p r = (Inr a, s') \<longleftrightarrow> r = (Inr a, s')"
  by (auto simp: charge_error_def split: prod.splits sum.splits)

text \<open>
  C13: a message that is refused leaves no trace but the penalty: the state after an error is
  the maintained state with one invalid message recorded for the sender.
\<close>

theorem receive_error_state:
  assumes "nostr_laws lib" and "usize_limits o0" and "mesh_reachable lib o0 (c, s, log)" and "c \<le> now"
    and "receive lib p m peers now s = (Inl err, s')"
  shows "s' = record_invalid_message p (prune now s)"
  using assms(5)
  by (cases m) (auto simp: receive_def Let_def charge_error_Inl
      dest!: receive_inventory_error[OF reachable_prune(2)[OF assms(1-4)]]
        receive_want_error receive_frame_error)

text \<open>The peers waiting for an event, in order.\<close>

abbreviation waiting_peers :: "mesh \<Rightarrow> string \<Rightarrow> string list" where
  "waiting_peers s k \<equiv> (case map_of (pending_downstream s) k of None \<Rightarrow> [] | Some w \<Rightarrow> pp_peers w)"

lemma park_want_waiting:
  "map_of (pending_downstream (park_want p k now s)) k = Some w \<Longrightarrow>
     set (pp_peers w) = (if length (waiting_peers s k) < max_pending_peers_per_event (options s)
       then insert p (set (waiting_peers s k)) else set (waiting_peers s k)) \<and>
     pp_expires_at_ms w = (case map_of (pending_downstream s) k of
       None \<Rightarrow> sat_add now (route_ttl_ms (options s)) | Some w0 \<Rightarrow> pp_expires_at_ms w0)"
  by (auto simp: park_want_def Let_def set_insort_insert split: option.splits if_splits)

lemma park_want_rest:
  "\<exists>w. map_of (pending_downstream (park_want p k now s)) k = Some w"
  "k' \<noteq> k \<Longrightarrow> map_of (pending_downstream (park_want p k now s)) k' = map_of (pending_downstream s) k'"
  "park_want p k now s = s\<lparr>pending_downstream := pending_downstream (park_want p k now s),
     pending_peer_count := pending_peer_count (park_want p k now s)\<rparr>"
  by (auto simp: park_want_def Let_def split: option.splits)

text \<open>
  C14: a request with a well-formed identifier is answered with the cached event, parked, or ignored; it is never passed
  on. With the event in the cache the answer is its frame and the maintained state stays as it is. Without it the
  answer is empty: without a route, or when the route is already fulfilled, the request is
  ignored; with a live unfulfilled route the peer joins those waiting for this event, unless their
  limit is reached, new waiting starts with the time to live of routes, and nothing else changes but
  the count of waiting peers.
\<close>

theorem want_answer:
  assumes "nostr_laws lib" and "usize_limits o0" and "mesh_reachable lib o0 (c, s, log)" and "c \<le> now"
    and "canonical_hex k" and "receive lib p (Want k) peers now s = (res, s')"
  shows "let t = prune now s; ws = waiting_peers t k in
    case map_of (cached_events t) k of
      Some e \<Rightarrow> res = Inr [Send p (Frame k (ce_event e))] \<and> s' = t
    | None \<Rightarrow> res = Inr [] \<and>
        (case map_of (upstream_routes t) k of
           None \<Rightarrow> s' = t
         | Some r \<Rightarrow>
             if ur_fulfilled r then s' = t
             else (\<exists>w. map_of (pending_downstream s') k = Some w \<and>
                 set (pp_peers w) = (if length ws < max_pending_peers_per_event (normalize_options o0) then insert p (set ws) else set ws) \<and>
                 pp_expires_at_ms w = (case map_of (pending_downstream t) k of
                   None \<Rightarrow> sat_add now (route_ttl_ms (normalize_options o0)) | Some w0 \<Rightarrow> pp_expires_at_ms w0)) \<and>
               (\<forall>k'. k' \<noteq> k \<longrightarrow> map_of (pending_downstream s') k' = map_of (pending_downstream t) k') \<and>
               s' = t\<lparr>pending_downstream := pending_downstream s', pending_peer_count := pending_peer_count s'\<rparr>)"
proof -
  note pr = reachable_prune[OF assms(1-4)]
  have id: "validate_event_id k = Inr ()" using assms(5) by (simp add: validate_event_id_canonical)
  let ?t = "prune now s"
  have res: "charge_error p (receive_want p k now ?t) = (res, s')"
    using assms(6) by (simp add: receive_def Let_def)
  have opts: "options ?t = normalize_options o0" using reachable_inv(2)[OF assms(1-3)] by simp
  show ?thesis
  proof (cases "\<exists>r. k \<notin> keys (cached_events ?t) \<and> map_of (upstream_routes ?t) k = Some r \<and> \<not> ur_fulfilled r")
    case True
    then obtain r where r: "k \<notin> keys (cached_events ?t)" "map_of (upstream_routes ?t) k = Some r" "\<not> ur_fulfilled r" by blast
    then have "res = Inr []" and s': "s' = park_want p k now ?t"
      using receive_want_parks[OF pr id, of r p] res by (auto simp: charge_error_def)
    note rest = park_want_rest[where p = p and k = k and now = now and s = ?t]
    obtain w where w: "map_of (pending_downstream (park_want p k now ?t)) k = Some w" using rest(1) by blast
    from r have "map_of (cached_events ?t) k = None" by (simp add: hm_get_in_keys)
    then show ?thesis
      using r(2,3) \<open>res = Inr []\<close> w park_want_waiting[OF w] rest(2,3) unfolding Let_def s' opts by simp
  next
    case False
    then show ?thesis
      using res by (auto simp: Let_def receive_want_def id charge_error_def split: option.splits)
  qed
qed

lemma receive_frame_verified:
  assumes "verify lib e"
  shows "receive_frame lib p k e peers now False s = receive_frame lib p k e peers now True s"
  by (simp add: receive_frame_def verified_validate[OF assms] split: sum.split option.split)

text \<open>
  The entry points for already verified events behave exactly as the checking ones.
\<close>

theorem verified_paths_agree:
  assumes "verify lib (as_event v)"
  shows "publish_verified lib v peers now s = publish lib (as_event v) peers now s \<and>
    replay_verified_to_peer lib v p now s = replay_to_peer lib (as_event v) p now s \<and>
    receive_verified_frame lib p k v peers now s = receive lib p (Frame k (as_event v)) peers now s"
  using verified_validate[OF assms]
  by (simp add: publish_verified_def publish_def replay_verified_to_peer_def replay_to_peer_def
      receive_verified_frame_def receive_def receive_frame_verified[OF assms] Let_def)

text \<open>
  The sweep runs only when the scheduled time has come, and yet the effect on the
  tables is the same as if every call removed exactly the expired entries.
\<close>

lemma live_filters:
  assumes "live now s"
  shows "hm_retain (\<lambda>_ c. now < ce_expires_at_ms c) (cached_events s) = cached_events s"
    and "hm_retain (\<lambda>_ t. now < t) (seen_inventories s) = seen_inventories s"
    and "hm_retain (\<lambda>_ t. now < t) (delivered_events s) = delivered_events s"
    and "hm_retain (\<lambda>_ r. now < ur_expires_at_ms r) (upstream_routes s) = upstream_routes s"
proof -
  have "\<forall>x \<in> set (cached_events s). now < ce_expires_at_ms (snd x)"
    "\<forall>x \<in> set (seen_inventories s). now < snd x" "\<forall>x \<in> set (delivered_events s). now < snd x"
    "\<forall>x \<in> set (upstream_routes s). now < ur_expires_at_ms (snd x)"
    using assms unfolding live_def expiry_set_def by blast+
  then show "hm_retain (\<lambda>_ c. now < ce_expires_at_ms c) (cached_events s) = cached_events s"
    "hm_retain (\<lambda>_ t. now < t) (seen_inventories s) = seen_inventories s"
    "hm_retain (\<lambda>_ t. now < t) (delivered_events s) = delivered_events s"
    "hm_retain (\<lambda>_ r. now < ur_expires_at_ms r) (upstream_routes s) = upstream_routes s"
    by (auto simp: filter_id_conv)
qed

lemma prune_cases:
  assumes "mesh_inv lib c s" and "c \<le> now"
  shows "prune now s = s \<and> live now s \<or>
    prune now s = sweep_expired now (penalize_unserved (expired_providers now s) s)"
  using prune_ok(2)[OF assms] by (auto simp: prune_def split: option.splits)

lemma prune_tables:
  assumes "mesh_inv lib c s" and "c \<le> now"
  shows "cached_events (prune now s) = hm_retain (\<lambda>_ c. now < ce_expires_at_ms c) (cached_events s)"
    and "seen_inventories (prune now s) = hm_retain (\<lambda>_ t. now < t) (seen_inventories s)"
    and "delivered_events (prune now s) = hm_retain (\<lambda>_ t. now < t) (delivered_events s)"
    and "upstream_routes (prune now s) = hm_retain (\<lambda>_ r. now < ur_expires_at_ms r) (upstream_routes s)"
  using prune_cases[OF assms] live_filters[of now s]
  by (auto simp: sweep_fields penalize_unserved_frame)

lemma sweep_next:
  assumes "next_prune_at_ms (sweep_expired now s) = Some due"
  shows "now < due"
proof -
  let ?s = "sweep_expired now s"
  let ?xs = "map ce_expires_at_ms (hm_values (cached_events ?s)) @ hm_values (seen_inventories ?s) @
    hm_values (delivered_events ?s) @ map ur_expires_at_ms (hm_values (upstream_routes ?s))"
  have "next_prune_at_ms ?s = min_opt ?xs" by (simp add: sweep_expired_def Let_def)
  then have "due \<in> set ?xs" using assms min_opt_Some by metis
  then have "due \<in> expiry_set ?s" by (auto simp: expiry_set_def)
  then show ?thesis using live_sweep by (auto simp: live_def)
qed

lemma next_after_prune:
  assumes "next_prune_at_ms (prune now s) = Some due"
  shows "now < due"
  using assms by (auto simp: prune_def dest: sweep_next split: if_splits option.splits)

text \<open>
  C15: maintenance removes exactly the expired events, inventories, deliveries and routes, also
  when it decides that nothing is due, and schedules the next sweep in the future.
\<close>

theorem maintain_removes_expired:
  assumes "nostr_laws lib" and "usize_limits o0" and "mesh_reachable lib o0 (c, s, log)" and "c \<le> now"
  shows "let s' = maintain now s in
    cached_events s' = hm_retain (\<lambda>_ c. now < ce_expires_at_ms c) (cached_events s) \<and>
    seen_inventories s' = hm_retain (\<lambda>_ t. now < t) (seen_inventories s) \<and>
    delivered_events s' = hm_retain (\<lambda>_ t. now < t) (delivered_events s) \<and>
    upstream_routes s' = hm_retain (\<lambda>_ r. now < ur_expires_at_ms r) (upstream_routes s) \<and>
    (\<forall>due. next_prune_at_ms s' = Some due \<longrightarrow> now < due)"
proof -
  note inv = reachable_inv(1)[OF assms(1-3)]
  have "now < due" if "next_prune_at_ms (prune now s) = Some due" for due
    using that next_after_prune by blast
  then show ?thesis using prune_tables[OF inv assms(4)] by (simp add: maintain_def)
qed

end
