(* ===== verification/Mesh_Exchange.thy ===== *)
theory Mesh_Exchange
  imports Mesh_Protocol
begin

text \<open>
  The inventory, want and frame exchange of reachable nodes: exactly when an announcement is
  answered by a request, exactly when a frame is handed to the application, and that the
  three messages together carry an event from one node to another.
\<close>

section \<open>Announcements\<close>

definition inventory_valid :: "mesh_options \<Rightarrow> string \<Rightarrow> u16 \<Rightarrow> u32 \<Rightarrow> u8 \<Rightarrow> bool" where
  "inventory_valid opts k kind sz h \<longleftrightarrow>
     canonical_hex k \<and> validate_kind opts kind = Inr () \<and> unat sz \<le> max_event_bytes opts \<and>
     0 < h \<and> h \<le> max_hops opts"

lemma receive_inventory_valid:
  assumes "inventory_valid (options s) k kind sz h" and "k \<notin> keys (cached_events s)"
  shows "receive_inventory p k kind sz h now s =
    (case remember_inventory k now s of
       (fresh, s1) \<Rightarrow>
         if \<not> fresh then retry_inventory p k kind sz h now s1 else open_route p k kind sz h now s1)"
proof -
  have "validate_event_id k = Inr ()" using assms(1) by (simp add: inventory_valid_def validate_event_id_canonical)
  moreover have "validate_event_len (options s) (unat sz) = Inr ()"
    using assms(1) by (simp add: inventory_valid_def validate_event_len_def)
  ultimately show ?thesis
    using assms by (auto simp: receive_inventory_def inventory_valid_def word_gt_0)
qed

lemma receive_inventory_invalid:
  assumes "\<not> inventory_valid (options s) k kind sz h \<or> k \<in> keys (cached_events s)"
  shows "\<exists>err. receive_inventory p k kind sz h now s \<in> {(Inl err, s), (Inr [], s)}"
  using assms
  by (auto simp: receive_inventory_def inventory_valid_def validate_event_len_def word_gt_0
      validate_event_id_canonical[symmetric] split: sum.splits if_splits)

definition requests :: "mesh \<Rightarrow> string \<Rightarrow> string \<Rightarrow> u16 \<Rightarrow> u32 \<Rightarrow> bool" where
  "requests s p k kind sz \<longleftrightarrow>
     (case map_of (upstream_routes s) k of
        None \<Rightarrow> k \<notin> keys (seen_inventories s)
      | Some r \<Rightarrow>
          \<not> ur_fulfilled r \<and> ur_event_kind r = kind \<and> ur_payload_bytes r = sz \<and>
          (route_provider r p \<or> length (ur_alternate_peers r) + 1 < MAX_UPSTREAM_PROVIDERS_PER_EVENT))"

lemma receive_inventory_requests:
  assumes inv: "mesh_inv lib now s" and live: "live now s"
    and val: "inventory_valid (options s) k kind sz h" "k \<notin> keys (cached_events s)"
  shows "fst (receive_inventory p k kind sz h now s) = Inr [Send p (Want k)] \<longleftrightarrow> requests s p k kind sz"
proof (cases "k \<in> keys (seen_inventories s)")
  case True
  then show ?thesis
    using receive_inventory_valid[OF val, of p now] remember_known[OF live True]
    by (auto simp: requests_def retry_inventory_def Let_def route_provider_def split: option.splits)
next
  case False
  have "k \<notin> keys (upstream_routes s)"
    using inv False by (intro routes_under_seen) (auto simp: mesh_inv_def)
  then show ?thesis
    using receive_inventory_valid[OF val, of p now] remember_new[OF False] False
    by (simp add: requests_def open_route_def Let_def)
qed

lemma receive_inventory_fst: "fst (charge_error p r) = fst r"
  by (simp add: charge_error_def split: prod.split sum.split)

text \<open>
  C10: a node answers an announcement with a request exactly when the announcement is
  well formed and within its limits, the event is not cached, and either the inventory is new or
  its open route agrees on kind and size and still takes the announcing peer as one of at
  most three providers.
\<close>

theorem inventory_requested_iff:
  assumes "nostr_laws lib" and "usize_limits o0" and "mesh_reachable lib o0 (c, s, log)" and "c \<le> now"
  shows "fst (receive lib p (Inventory k kind sz h) peers now s) = Inr [Send p (Want k)] \<longleftrightarrow>
    inventory_valid (normalize_options o0) k kind sz h \<and>
    k \<notin> keys (cached_events (prune now s)) \<and> requests (prune now s) p k kind sz"
proof -
  note pr = reachable_prune[OF assms(1-4)]
  have opts: "options (prune now s) = normalize_options o0" using reachable_inv(2)[OF assms(1-3)] by simp
  have "fst (receive lib p (Inventory k kind sz h) peers now s) =
      fst (receive_inventory p k kind sz h now (prune now s))"
    by (simp add: receive_def Let_def receive_inventory_fst)
  then show ?thesis
    using receive_inventory_requests[OF pr, of k kind sz h p]
      receive_inventory_invalid[of "prune now s" k kind sz h p now] unfolding opts
    by fastforce
qed

section \<open>Frames\<close>

lemma frame_validates:
  assumes "routes_inv s" and "map_of (upstream_routes s) k = Some r"
    and "verify lib e" and "to_hex lib (ev_id e) = k" and "ur_event_kind r = ev_kind e"
    and "event_json lib e = Some j" and "length j = unat (ur_payload_bytes r)"
  shows "validate_event lib (options s) e = Inr (k, ur_payload_bytes r)"
  using route_known(1)[OF assms(1,2)] assms(3-7)
  by (simp add: validate_event_Inr validate_verified_event_Inr route_ok_def)

definition frame_wanted :: "nostr_lib \<Rightarrow> mesh \<Rightarrow> string \<Rightarrow> string \<Rightarrow> event \<Rightarrow> upstream_route \<Rightarrow> bool" where
  "frame_wanted lib s p k e r \<longleftrightarrow>
     map_of (upstream_routes s) k = Some r \<and> route_provider r p \<and> \<not> ur_fulfilled r \<and>
     ur_event_kind r = ev_kind e \<and>
     map_option length (event_json lib e) = Some (unat (ur_payload_bytes r)) \<and>
     verify lib e \<and> to_hex lib (ev_id e) = k"

lemma receive_frame_wanted:
  assumes inv: "mesh_inv lib now s" and w: "frame_wanted lib s p k e r"
  shows "receive_frame lib p k e peers now True s =
    (case accept_frame lib p k e (ur_payload_bytes r) r peers now s of (acts, s') \<Rightarrow> (Inr acts, s'))"
proof -
  have rinv: "routes_inv s" using inv by (simp add: mesh_inv_def)
  have r: "map_of (upstream_routes s) k = Some r" using w by (simp add: frame_wanted_def)
  note known = route_known[OF rinv r]
  have "validate_event lib (options s) e = Inr (k, ur_payload_bytes r)"
    using w frame_validates[OF rinv r] by (auto simp: frame_wanted_def)
  moreover have "validate_event_id k = Inr ()"
    using known(1) by (simp add: route_ok_def validate_event_id_canonical)
  ultimately show ?thesis
    using w known(3) by (simp add: receive_frame_def frame_wanted_def hm_get_in_keys)
qed

lemma frame_delivers:
  "Deliver q e' \<in> set (fst (accept_frame lib p k e sz r peers now s)) \<longleftrightarrow>
     q = p \<and> e' = e \<and> k \<notin> keys (delivered_events s)"
proof -
  have "fst (remember_delivered k now s') \<longleftrightarrow> k \<notin> keys (delivered_events s')" for s'
    by (simp add: remember_delivered_def Let_def)
  moreover have "Deliver q e' \<notin> set (send_to_selected_peers s' peers x m)" for s' x m
    by (auto simp: send_to_selected_peers_def)
  ultimately show ?thesis
    by (auto simp: accept_frame_def Let_def split_def split: option.splits)
qed

lemma receive_frame_Deliver:
  assumes inv: "mesh_inv lib now s"
  shows "(\<exists>acts. fst (receive_frame lib p k e peers now True s) = Inr acts \<and> Deliver q e' \<in> set acts) \<longleftrightarrow>
    q = p \<and> e' = e \<and> (\<exists>r. frame_wanted lib s p k e r) \<and> k \<notin> keys (delivered_events s)"
proof (cases "\<exists>r. frame_wanted lib s p k e r")
  case True
  then obtain r where r: "frame_wanted lib s p k e r" by blast
  show ?thesis
    using True frame_delivers[of q e' lib p k e "ur_payload_bytes r" r peers now s]
    by (auto simp: receive_frame_wanted[OF inv r] split_def)
next
  case False
  have "\<not> (\<exists>acts. fst (receive_frame lib p k e peers now True s) = Inr acts \<and> acts \<noteq> [])"
  proof
    assume "\<exists>acts. fst (receive_frame lib p k e peers now True s) = Inr acts \<and> acts \<noteq> []"
    then obtain r sz where "map_of (upstream_routes s) k = Some r" "route_provider r p" "\<not> ur_fulfilled r"
      "validate_event lib (options s) e = Inr (k, sz)" "ur_event_kind r = ev_kind e" "ur_payload_bytes r = sz"
      by (auto simp: receive_frame_def split: sum.splits option.splits if_splits prod.splits)
    then have "frame_wanted lib s p k e r"
      by (auto simp: frame_wanted_def validate_event_Inr validate_verified_event_Inr)
    then show False using False by blast
  qed
  then show ?thesis using False by (metis empty_iff list.set(1))
qed

text \<open>
  C9: a received message makes a node hand an event to the application exactly when it is a
  frame with this event, from this peer, that the node still waits for (an open route that
  has this peer as provider), whose signature and identifier check, whose kind and size are the
  announced ones, and which has not been delivered within the window.
\<close>

theorem frame_delivered_iff:
  assumes "nostr_laws lib" and "usize_limits o0" and "mesh_reachable lib o0 (c, s, log)" and "c \<le> now"
  shows "(\<exists>acts. fst (receive lib p m peers now s) = Inr acts \<and> Deliver q e \<in> set acts) \<longleftrightarrow>
    (\<exists>k r. m = Frame k e \<and> q = p \<and> frame_wanted lib (prune now s) p k e r \<and>
       k \<notin> keys (delivered_events (prune now s)))"
proof -
  note pr = reachable_prune[OF assms(1-4)]
  have inv: "Deliver q e \<notin> set acts" if "fst (receive_inventory p k kind sz h now s') = Inr acts"
    for k kind sz h s' acts
    using that by (auto simp: receive_inventory_def retry_inventory_def open_route_def Let_def split_def
        split: sum.splits option.splits if_splits)
  have want: "Deliver q e \<notin> set acts" if "fst (receive_want p k now s') = Inr acts" for k s' acts
    using that by (auto simp: receive_want_def Let_def split: sum.splits option.splits if_splits)
  show ?thesis
  proof (cases m)
    case (Frame k e')
    then show ?thesis
      using receive_frame_Deliver[OF pr(1), of p k e' peers q e]
      by (auto simp: receive_def Let_def receive_inventory_fst)
  qed (auto simp: receive_def Let_def receive_inventory_fst dest: inv want)
qed

section \<open>The three messages together\<close>

lemma store_event_get:
  assumes "to_hex lib (ev_id e) = k"
  shows "\<exists>cached. map_of (cached_events (store_event lib e sz now s)) k = Some cached \<and>
    ce_event cached = e \<and> ce_expires_at_ms cached = sat_add now (event_ttl_ms (options s))"
  using assms by (simp add: store_event_def Let_def track_expiry_def split: option.split)

lemma publish_announces:
  assumes "publish lib e peers now s = (Inr acts, s')" and "Send q (Inventory k kind sz h) \<in> set acts"
  shows "kind = ev_kind e" and "validate_event lib (options s) e = Inr (k, sz)"
    and "h = max_hops (options s)"
    and "\<exists>cached. map_of (cached_events s') k = Some cached \<and> ce_event cached = e \<and>
      ce_expires_at_ms cached = sat_add now (event_ttl_ms (options s))"
proof -
  obtain k' sz' where val: "validate_event lib (options s) e = Inr (k', sz')"
    using assms(1) by (auto simp: publish_def publish_validated_def Let_def split: sum.splits)
  define s1 where "s1 = store_event lib e sz' now (prune now s)"
  have res: "(Inr acts :: action list result, s') = (let (fresh, s2) = remember_inventory k' now s1 in
      if fresh then (Inr (send_to_selected_peers s2 peers None
                       (Inventory k' (ev_kind e) sz' (max_hops (options s2)))), s2)
      else (Inr [], s2))"
    using assms(1)[symmetric] val by (simp add: publish_def publish_validated_def Let_def s1_def)
  then have s': "s' = snd (remember_inventory k' now s1)"
    and "acts = [] \<or> acts = send_to_selected_peers s' peers None
      (Inventory k' (ev_kind e) sz' (max_hops (options s')))"
    by (auto simp: split_def Let_def split: if_splits)
  moreover have "options s' = options s" using s' by (simp add: s1_def)
  ultimately have msg: "k = k'" "kind = ev_kind e" "sz = sz'" "h = max_hops (options s)"
    using assms(2) by (auto simp: send_to_selected_peers_def)
  then show "kind = ev_kind e" and "validate_event lib (options s) e = Inr (k, sz)"
    and "h = max_hops (options s)" using val by auto
  have "to_hex lib (ev_id e) = k"
    using val msg by (simp add: validate_event_Inr validate_verified_event_Inr)
  from store_event_get[OF this, of sz' now "prune now s"]
  show "\<exists>cached. map_of (cached_events s') k = Some cached \<and> ce_event cached = e \<and>
      ce_expires_at_ms cached = sat_add now (event_ttl_ms (options s))"
    by (simp add: s' s1_def)
qed

lemma receive_inventory_opens:
  fixes p :: string
  assumes inv: "mesh_inv lib now s" and val: "inventory_valid (options s) k kind sz h"
    and new: "k \<notin> keys (cached_events s)" "k \<notin> keys (seen_inventories s)"
  defines "s' \<equiv> snd (receive_inventory p k kind sz h now s)"
  shows "\<exists>r. map_of (upstream_routes s') k = Some r \<and> ur_peer_id r = p \<and> ur_event_kind r = kind \<and>
      ur_payload_bytes r = sz \<and> \<not> ur_fulfilled r \<and>
      ur_expires_at_ms r = sat_add now (route_ttl_ms (options s))"
    and "delivered_events s' = delivered_events s"
proof -
  have none: "k \<notin> keys (upstream_routes (snd (remember_inventory k now s)))"
    by (rule mesh_inv_remember_new(3)[OF inv new(2)])
  have s': "s' = snd (open_route p k kind sz h now (snd (remember_inventory k now s)))"
    using receive_inventory_valid[OF val new(1), of p now] remember_new[OF new(2)]
    by (simp add: s'_def)
  then show "\<exists>r. map_of (upstream_routes s') k = Some r \<and> ur_peer_id r = p \<and> ur_event_kind r = kind \<and>
      ur_payload_bytes r = sz \<and> \<not> ur_fulfilled r \<and>
      ur_expires_at_ms r = sat_add now (route_ttl_ms (options s))"
    using none by (simp add: open_route_def Let_def)
  show "delivered_events s' = delivered_events s"
    by (simp add: s' open_route_def Let_def)
qed

lemma reachable_step:
  assumes "mesh_reachable lib o0 n" and "mesh_step lib n n'"
  shows "mesh_reachable lib o0 n'"
  using assms unfolding mesh_reachable_def by (metis rtranclp.rtrancl_into_rtrancl)

lemma reachable_receive:
  assumes "mesh_reachable lib o0 (c, s, log)" and "c \<le> now"
  shows "mesh_reachable lib o0 (now, snd (receive lib p m peers now s),
    log @ In p m # returned (fst (receive lib p m peers now s)))"
  using assms(2) by (intro reachable_step[OF assms(1)] step_receive) auto

lemma want_served:
  assumes "nostr_laws lib" and "usize_limits o0" and "mesh_reachable lib o0 (c, s, log)" and "c \<le> now"
    and "canonical_hex k" and "map_of (cached_events s) k = Some cached" and "now < ce_expires_at_ms cached"
  shows "fst (receive lib p (Want k) peers now s) = Inr [Send p (Frame k (ce_event cached))]"
proof -
  note inv = reachable_inv(1)[OF assms(1-3)]
  have "hm_wf (cached_events s)" using inv by (auto simp: mesh_inv_def cache_inv_def fifo_ok_def)
  then have "map_of (cached_events (prune now s)) k = Some cached"
    using assms(6,7) by (simp add: prune_tables[OF inv assms(4)] hm_get_retain)
  then show ?thesis
    using assms(5)
    by (simp add: receive_def Let_def receive_inventory_fst receive_want_def validate_event_id_canonical[symmetric])
qed

lemma frame_completes:
  assumes "nostr_laws lib" and "usize_limits o0" and "mesh_reachable lib o0 (c, s, log)" and "c \<le> now"
    and "frame_wanted lib s p k e r" and "now < ur_expires_at_ms r" and "k \<notin> keys (delivered_events s)"
  shows "\<exists>acts. fst (receive lib p (Frame k e) peers now s) = Inr acts \<and> Deliver p e \<in> set acts"
proof -
  note inv = reachable_inv(1)[OF assms(1-3)] and pr = reachable_prune(1)[OF assms(1-4)]
  have "hm_wf (upstream_routes s)" using inv by (auto simp: mesh_inv_def routes_inv_def)
  then have "frame_wanted lib (prune now s) p k e r"
    using assms(5,6) by (simp add: frame_wanted_def prune_tables[OF inv assms(4)] hm_get_retain)
  moreover have "k \<notin> keys (delivered_events (prune now s))"
    using assms(7) keys_retain_subset[of _ "delivered_events s"]
    unfolding prune_tables(3)[OF inv assms(4)] by blast
  ultimately show ?thesis
    using receive_frame_Deliver[OF pr, of p k e peers p e]
    by (auto simp: receive_def Let_def receive_inventory_fst)
qed

text \<open>
  C2: publication reaches a selected neighbour. When node \<open>A\<close> publishes an event and
  announces it to \<open>B\<close>, \<open>B\<close> accepts the announcement's limits and has not met the event, then
  \<open>B\<close> asks \<open>A\<close> for it, \<open>A\<close> answers with the published event while it is cached, and \<open>B\<close>
  delivers exactly this event while its route lives.
\<close>

theorem exchange_delivers:
  assumes laws: "nostr_laws lib"
    and a: "usize_limits oa" "mesh_reachable lib oa (ca, a, la)" "ca \<le> t0"
    and b: "usize_limits ob" "mesh_reachable lib ob (cb, b, lb)" "cb \<le> t1"
    and pub: "publish lib e pa t0 a = (Inr acts, a1)" "Send B (Inventory k kind sz h) \<in> set acts"
    and val: "inventory_valid (normalize_options ob) k kind sz h"
    and new: "k \<notin> keys (cached_events (prune t1 b))" "k \<notin> keys (seen_inventories (prune t1 b))"
      "k \<notin> keys (delivered_events (prune t1 b))"
    and inventory: "receive lib A (Inventory k kind sz h) pb t1 b = (res1, b1)"
    and want: "receive lib B (Want k) pa t2 a1 = (res2, a2)"
      "t0 \<le> t2" "t2 < sat_add t0 (event_ttl_ms (normalize_options oa))"
    and frame: "receive lib A (Frame k e) pb t3 b1 = (res3, b2)"
      "t1 \<le> t3" "t3 < sat_add t1 (route_ttl_ms (normalize_options ob))"
  shows "res1 = Inr [Send A (Want k)] \<and> res2 = Inr [Send B (Frame k e)] \<and>
    (\<exists>acts'. res3 = Inr acts' \<and> Deliver A e \<in> set acts')"
proof (intro conjI)
  note pr = reachable_prune[OF laws b]
  have oa: "options a = normalize_options oa" and ob: "options (prune t1 b) = normalize_options ob"
    using reachable_inv(2)[OF laws a(1,2)] reachable_inv(2)[OF laws b(1,2)] by simp_all
  note ann = publish_announces[OF pub]
  have hex: "canonical_hex k" using val by (simp add: inventory_valid_def)
  have "k \<notin> keys (upstream_routes (prune t1 b))"
    using pr(1) new(2) by (intro routes_under_seen) (auto simp: mesh_inv_def)
  then show "res1 = Inr [Send A (Want k)]"
    using inventory receive_inventory_requests[OF pr val[folded ob] new(1), of A] new(2)
    by (simp add: receive_def Let_def requests_def) (metis fst_conv receive_inventory_fst)
  have "mesh_reachable lib oa (t0, a1, la @ returned (Inr acts))"
    using a(3) pub(1) by (intro reachable_step[OF a(2)] step_publish)
  with want_served[OF laws a(1)] show "res2 = Inr [Send B (Frame k e)]"
    using ann(4) want hex oa by (metis fst_conv)
  let ?in = "Inventory k kind sz h"
  have reach: "mesh_reachable lib ob (t1, b1, lb @ In A ?in # returned res1)"
    using reachable_receive[OF b(2,3), of A ?in pb] inventory by simp
  have "charge_error A (receive_inventory A k kind sz h t1 (prune t1 b)) = (Inr [Send A (Want k)], b1)"
    using inventory \<open>res1 = _\<close> by (simp add: receive_def Let_def)
  then have "b1 = snd (receive_inventory A k kind sz h t1 (prune t1 b))" by (simp add: charge_error_Inr)
  note opens = receive_inventory_opens[OF pr(1) val[folded ob] new(1,2), of A, folded this, unfolded ob]
  then obtain r where r: "map_of (upstream_routes b1) k = Some r" "ur_peer_id r = A" "ur_event_kind r = kind"
    "ur_payload_bytes r = sz" "\<not> ur_fulfilled r"
    "ur_expires_at_ms r = sat_add t1 (route_ttl_ms (normalize_options ob))" by blast
  have "frame_wanted lib b1 A k e r"
    using r ann(1,2) unfolding frame_wanted_def
    by (auto simp: route_provider_def validate_event_Inr validate_verified_event_Inr)
  from frame_completes[OF laws b(1) reach frame(2) this] show "\<exists>acts'. res3 = Inr acts' \<and> Deliver A e \<in> set acts'"
    using frame(1,3) r(6) opens(2) new(3) by (metis fst_conv)
qed

end
