(* ===== verification/Mesh_History.thy ===== *)
theory Mesh_History
  imports Mesh_Exchange
begin

text \<open>
  What a node may say, judged by its whole log: every action is justified by messages that came
  before it. Routes and waiting peers are traced back to the log entries that created them;
  the invariant of the mesh and this correspondence together hold in every reachable node.
\<close>

section \<open>Justified entries\<close>

fun entry_sound :: "nostr_lib \<Rightarrow> mesh_options \<Rightarrow> entry list \<Rightarrow> entry \<Rightarrow> bool" where
  "entry_sound lib opts past (In p m) = True"
| "entry_sound lib opts past (Out (Deliver p e)) =
     (verify lib e \<and> Out (Send p (Want (to_hex lib (ev_id e)))) \<in> set past \<and>
      In p (Frame (to_hex lib (ev_id e)) e) \<in> set past)"
| "entry_sound lib opts past (Out (Send p (Frame k e))) =
     (verify lib e \<and> k = to_hex lib (ev_id e) \<and> In p (Want k) \<in> set past)"
| "entry_sound lib opts past (Out (Send p (Want k))) =
     (\<exists>kind sz h. In p (Inventory k kind sz h) \<in> set past)"
| "entry_sound lib opts past (Out (Send p (Inventory k kind sz h))) =
     (0 < h \<and> h \<le> max_hops opts \<and>
      (h = max_hops opts \<or> (h < h + 1 \<and> (\<exists>q. In q (Inventory k kind sz (h + 1)) \<in> set past))))"

definition log_sound :: "nostr_lib \<Rightarrow> mesh_options \<Rightarrow> entry list \<Rightarrow> bool" where
  "log_sound lib opts log \<longleftrightarrow> (\<forall>i < length log. entry_sound lib opts (take i log) (log ! i))"

lemma entry_sound_mono:
  "entry_sound lib opts past x \<Longrightarrow> set past \<subseteq> set past' \<Longrightarrow> entry_sound lib opts past' x"
  by (induction lib opts past x rule: entry_sound.induct) auto

lemma log_sound_append:
  assumes "log_sound lib opts log" and "\<And>x. x \<in> set xs \<Longrightarrow> entry_sound lib opts log x"
  shows "log_sound lib opts (log @ xs)"
  unfolding log_sound_def
proof (intro allI impI)
  fix i
  assume i: "i < length (log @ xs)"
  show "entry_sound lib opts (take i (log @ xs)) ((log @ xs) ! i)"
  proof (cases "i < length log")
    case True
    then show ?thesis using assms(1) by (simp add: log_sound_def nth_append)
  next
    case False
    then have "entry_sound lib opts log ((log @ xs) ! i)" using i assms(2) by (simp add: nth_append)
    then show ?thesis using False by (auto elim!: entry_sound_mono)
  qed
qed

section \<open>Where routes and waiting peers come from\<close>

definition hist :: "mesh \<Rightarrow> entry list \<Rightarrow> bool" where
  "hist s log \<longleftrightarrow>
     (\<forall>k r. map_of (upstream_routes s) k = Some r \<longrightarrow>
        (\<forall>p. route_provider r p \<longrightarrow> Out (Send p (Want k)) \<in> set log) \<and>
        (\<exists>q. In q (Inventory k (ur_event_kind r) (ur_payload_bytes r) (ur_hop_limit r)) \<in> set log)) \<and>
     (\<forall>k w p. map_of (pending_downstream s) k = Some w \<longrightarrow> p \<in> set (pp_peers w) \<longrightarrow>
        In p (Want k) \<in> set log)"

definition same_route :: "upstream_route \<Rightarrow> upstream_route \<Rightarrow> bool" where
  "same_route r r' \<longleftrightarrow>
     ur_peer_id r' = ur_peer_id r \<and> ur_alternate_peers r' = ur_alternate_peers r \<and>
     ur_event_kind r' = ur_event_kind r \<and> ur_payload_bytes r' = ur_payload_bytes r \<and>
     ur_hop_limit r' = ur_hop_limit r"

definition carries :: "mesh \<Rightarrow> mesh \<Rightarrow> bool" where
  "carries s s' \<longleftrightarrow>
     (\<forall>k r'. map_of (upstream_routes s') k = Some r' \<longrightarrow>
        (\<exists>r. map_of (upstream_routes s) k = Some r \<and> same_route r r')) \<and>
     (\<forall>k w. map_of (pending_downstream s') k = Some w \<longrightarrow> map_of (pending_downstream s) k = Some w)"

lemma hist_mono: "hist s log \<Longrightarrow> set log \<subseteq> set log' \<Longrightarrow> hist s log'"
  unfolding hist_def by blast

lemma hist_carries:
  assumes "hist s log" and "carries s s'"
  shows "hist s' log"
proof -
  have "(\<forall>p. route_provider r p \<longrightarrow> Out (Send p (Want k)) \<in> set log) \<and>
      (\<exists>q. In q (Inventory k (ur_event_kind r) (ur_payload_bytes r) (ur_hop_limit r)) \<in> set log)"
    if r: "map_of (upstream_routes s') k = Some r" for k r
  proof -
    obtain r0 where "map_of (upstream_routes s) k = Some r0" "same_route r0 r"
      using assms(2) r unfolding carries_def by blast
    then show ?thesis using assms(1) unfolding hist_def same_route_def route_provider_def by metis
  qed
  moreover have "In p (Want k) \<in> set log"
    if "map_of (pending_downstream s') k = Some w" "p \<in> set (pp_peers w)" for k w p
    using that assms unfolding hist_def carries_def by blast
  ultimately show ?thesis unfolding hist_def by blast
qed

lemma same_route_refl [simp]: "same_route r r"
  by (simp add: same_route_def)

lemma carries_refl: "carries s s"
  by (auto simp: carries_def)

lemma same_route_trans: "same_route a b \<Longrightarrow> same_route b c \<Longrightarrow> same_route a c"
  by (simp add: same_route_def)

lemma carries_trans: "carries s s' \<Longrightarrow> carries s' s'' \<Longrightarrow> carries s s''"
  unfolding carries_def using same_route_trans by blast

lemma carries_same:
  "upstream_routes s' = upstream_routes s \<Longrightarrow> pending_downstream s' = pending_downstream s \<Longrightarrow> carries s s'"
  by (auto simp: carries_def)

lemma carries_update:
  "map_of (upstream_routes s) k = Some r \<Longrightarrow> same_route r r' \<Longrightarrow>
     carries s (s\<lparr>upstream_routes := hm_insert k r' (upstream_routes s)\<rparr>)"
  by (simp add: carries_def)

lemma carries_remove_pending: "carries s (snd (remove_pending_event k s))"
  by (auto simp: carries_def remove_pending_event_def split: option.splits if_splits)

lemma carries_forget: "carries s (forget_inventory k s)"
  by (auto simp: carries_def forget_fields forget_pending split: if_splits)

lemma carries_evict: "carries s (evict_seen q s)"
proof (induction q arbitrary: s)
  case (Cons k q)
  have "carries s (forget_inventory k (s\<lparr>seen_order := q\<rparr>))"
    by (rule carries_trans[OF carries_same carries_forget]) simp_all
  then show ?case using Cons.IH carries_trans by (auto simp: carries_refl)
qed (simp add: carries_refl)

lemma carries_remember: "carries s (snd (remember_inventory k now s))"
proof -
  have "carries (evict_seen (seen_order s) s)
      (track_expiry t ((evict_seen (seen_order s) s)\<lparr>seen_order := q, seen_inventories := m\<rparr>))" for t q m
    by (rule carries_same) simp_all
  then have "carries s
      (track_expiry t ((evict_seen (seen_order s) s)\<lparr>seen_order := q, seen_inventories := m\<rparr>))" for t q m
    by (rule carries_trans[OF carries_evict])
  moreover have "carries s (track_expiry t (s\<lparr>seen_inventories := m\<rparr>))" for t m
    by (rule carries_same) simp_all
  ultimately show ?thesis
    by (simp add: remember_inventory_def Let_def carries_refl)
qed

lemma carries_sweep:
  assumes "hm_wf (upstream_routes s)" and "hm_wf (pending_downstream s)"
  shows "carries s (sweep_expired now s)"
  using assms by (auto simp: carries_def sweep_fields hm_get_retain split: option.splits if_splits)

lemma carries_penalize: "carries s (penalize_unserved ps s)"
  by (rule carries_same) (simp_all add: penalize_unserved_frame)

lemma inv_wf: "mesh_inv lib c s \<Longrightarrow> hm_wf (upstream_routes s) \<and> hm_wf (pending_downstream s)"
  by (simp add: mesh_inv_def routes_inv_def pending_inv_def)

lemma carries_prune:
  assumes "mesh_inv lib c s"
  shows "carries s (prune now s)"
proof -
  have "carries (penalize_unserved ps s) (sweep_expired now (penalize_unserved ps s))" for ps
    using inv_wf[OF assms] by (intro carries_sweep) (simp_all add: penalize_unserved_frame)
  then show ?thesis
    using carries_trans[OF carries_penalize]
    by (auto simp: prune_def carries_refl split: option.split)
qed

lemma carries_store: "carries s (store_event lib e sz now s)"
  by (rule carries_same) simp_all

lemma carries_delivered: "carries s (snd (remember_delivered k now s))"
  by (rule carries_same) simp_all

lemma carries_record: "carries s (record_peer_behavior p d v s)"
  by (rule carries_same) simp_all

lemma carries_fulfil:
  "map_of (upstream_routes s) k = Some r \<Longrightarrow>
     carries s (s\<lparr>upstream_routes := hm_insert k
       (r\<lparr>ur_fulfilled := True, ur_transport_disrupted_peers := []\<rparr>) (upstream_routes s)\<rparr>)"
  by (rule carries_update) (simp_all add: same_route_def)

lemma carries_dismiss: "carries s (dismiss_frame p k s)"
  using carries_trans[OF carries_fulfil carries_remove_pending]
  by (auto simp: dismiss_frame_def carries_refl split: option.split)

lemma carries_disruption: "carries s (snd (record_transport_disruption p k s))"
  by (auto simp: record_transport_disruption_def carries_refl same_route_def
      intro!: carries_update split: option.split)

lemma carries_charge: "carries s (snd r) \<Longrightarrow> carries s (snd (charge_error p r))"
  by (auto simp: charge_error_def record_invalid_message_def split: prod.splits sum.splits
      intro: carries_trans carries_record)

lemma carries_rehash: "same_tables s s' \<Longrightarrow> mesh_inv lib c s \<Longrightarrow> carries s s'"
  using same_tables_get[of s s' lib c] by (auto simp: carries_def)

section \<open>Operations extend the log soundly\<close>

text \<open>
  \<open>justified\<close>: the new entries are sound after the old log, and the new state is
  traced to the extended log.
\<close>

definition justified :: "nostr_lib \<Rightarrow> mesh_options \<Rightarrow> entry list \<Rightarrow> entry list \<Rightarrow> mesh \<Rightarrow> bool" where
  "justified lib opts log new s \<longleftrightarrow>
     (\<forall>x \<in> set new. entry_sound lib opts log x) \<and> hist s (log @ new)"

lemma justified_carries:
  assumes "hist s log" and "carries s s'" and "\<And>x. x \<in> set new \<Longrightarrow> entry_sound lib opts log x"
  shows "justified lib opts log new s'"
proof -
  have "hist s (log @ new)" by (rule hist_mono[OF assms(1)]) auto
  then show ?thesis
    using assms(3) hist_carries[OF _ assms(2)] unfolding justified_def by blast
qed

lemma selected_inventories_sound:
  assumes "x \<in> set (map Out (send_to_selected_peers s peers ex (Inventory k kind sz h)))"
    and "0 < h" and "h \<le> max_hops opts"
    and "h = max_hops opts \<or> (h < h + 1 \<and> (\<exists>q. In q (Inventory k kind sz (h + 1)) \<in> set log))"
  shows "entry_sound lib opts log x"
  using assms by (auto simp: send_to_selected_peers_def)

lemma cached_sound:
  assumes "mesh_inv lib now s" and "map_of (cached_events s) k = Some e"
  shows "verify lib (ce_event e) \<and> k = to_hex lib (ev_id (ce_event e))"
proof -
  have "admitted lib (options s) k e"
    using assms map_of_SomeD[OF assms(2)] by (auto simp: mesh_inv_def cache_inv_def)
  then show ?thesis by (auto simp: admitted_def validate_event_Inr validate_verified_event_Inr)
qed

lemma max_hops_pos: "mesh_inv lib now s \<Longrightarrow> 0 < max_hops (options s)"
  by (simp add: mesh_inv_def options_wf_def)

lemma publish_justified:
  assumes inv: "mesh_inv lib now s" and h: "hist s log"
    and res: "publish_validated lib e peers now validated s = (res, s')"
  shows "justified lib (options s) log (returned res) s'"
proof (cases validated)
  case (Inl err)
  then show ?thesis
    using res h by (auto simp: publish_validated_def intro: justified_carries carries_refl)
next
  case (Inr kz)
  obtain k sz where kz: "kz = (k, sz)" by force
  define s2 where "s2 = snd (remember_inventory k now (store_event lib e sz now s))"
  have s': "s' = s2" and acts: "res = Inr [] \<or> res = Inr (send_to_selected_peers s2 peers None
      (Inventory k (ev_kind e) sz (max_hops (options s))))"
    using res Inr kz by (auto simp: publish_validated_def s2_def split_def split: if_splits)
  have "carries s s2" unfolding s2_def by (rule carries_trans[OF carries_store carries_remember])
  then show ?thesis
    unfolding s' using acts max_hops_pos[OF inv]
    by (intro justified_carries[OF h]) (auto intro: selected_inventories_sound)
qed

lemma replay_justified:
  assumes inv: "mesh_inv lib now s" and h: "hist s log"
    and res: "replay_validated lib e p now validated s = (res, s')"
  shows "justified lib (options s) log (returned res) s'"
proof (rule justified_carries[OF h])
  show "carries s s'"
    using res by (auto simp: replay_validated_def Let_def carries_refl carries_store split: sum.splits)
  show "entry_sound lib (options s) log x" if "x \<in> set (returned res)" for x
    using that res max_hops_pos[OF inv] by (auto simp: replay_validated_def Let_def split: sum.splits)
qed

lemma collect_actions_set:
  "collect_actions xs = Some acts \<Longrightarrow> a \<in> set acts \<Longrightarrow> Some (Some a) \<in> set xs"
  by (induction xs arbitrary: acts rule: collect_actions.induct) auto

lemma replay_cached_justified:
  assumes inv: "mesh_inv lib now s" and h: "hist s log"
    and acts: "collect_actions (map (cached_inventory s p) (cache_order s)) = Some acts"
  shows "justified lib (options s) log (map Out acts) s"
proof (rule justified_carries[OF h carries_refl])
  show "entry_sound lib (options s) log x" if x: "x \<in> set (map Out acts)" for x
  proof -
    obtain a where a: "x = Out a" "a \<in> set acts" using x by auto
    obtain k where "Some (Some a) = cached_inventory s p k"
      using collect_actions_set[OF acts a(2)] by auto
    then show ?thesis
      using a(1) max_hops_pos[OF inv] by (auto simp: cached_inventory_def split: option.splits if_splits)
  qed
qed

section \<open>Received messages\<close>

lemma hist_route_insert:
  assumes h: "hist s log" and "set log \<subseteq> set log'"
    and "\<And>p. route_provider r p \<Longrightarrow> Out (Send p (Want k)) \<in> set log'"
    and "In q (Inventory k (ur_event_kind r) (ur_payload_bytes r) (ur_hop_limit r)) \<in> set log'"
    and "upstream_routes s' = hm_insert k r (upstream_routes s)"
    and "pending_downstream s' = pending_downstream s"
  shows "hist s' log'"
  unfolding hist_def
proof (intro conjI allI impI)
  fix k' r' p
  assume r': "map_of (upstream_routes s') k' = Some r'"
  have cases: "k' = k \<and> r' = r \<or> map_of (upstream_routes s) k' = Some r'"
    using r' assms(5) by (simp split: if_splits)
  show "Out (Send p (Want k')) \<in> set log'" if "route_provider r' p"
    using cases that assms(2,3) h unfolding hist_def by blast
  show "\<exists>q. In q (Inventory k' (ur_event_kind r') (ur_payload_bytes r') (ur_hop_limit r')) \<in> set log'"
    using cases assms(2,4) h unfolding hist_def by blast
next
  fix k' w p
  assume "map_of (pending_downstream s') k' = Some w" "p \<in> set (pp_peers w)"
  then show "In p (Want k') \<in> set log'"
    using assms(2,6) h unfolding hist_def by (metis subsetD)
qed

lemma retry_justified:
  assumes h: "hist s log" and new: "In p (Inventory k kind sz hop) \<in> set log"
    and res: "retry_inventory p k kind sz hop now s = (res, s')"
  shows "justified lib opts log (returned res) s'"
proof (cases "map_of (upstream_routes s) k")
  case None
  then show ?thesis
    using res h by (auto simp: retry_inventory_def intro: justified_carries carries_refl)
next
  case (Some r)
  let ?log = "log @ returned res"
  have past: "set log \<subseteq> set ?log" by auto
  have provs: "Out (Send q (Want k)) \<in> set ?log" if "route_provider r q" for q
    using h Some that past unfolding hist_def by blast
  obtain q where q: "In q (Inventory k (ur_event_kind r) (ur_payload_bytes r) (ur_hop_limit r)) \<in> set log"
    using h Some unfolding hist_def by blast
  have sound: "\<forall>x \<in> set (returned res). entry_sound lib opts log x"
  proof -
    have "returned res = [] \<or> returned res = [Out (Send p (Want k))]"
      using res Some by (auto simp: retry_inventory_def Let_def split: if_splits)
    then show ?thesis using new by fastforce
  qed
  define r' where "r' = the (map_of (upstream_routes s') k)"
  have "s' = s \<or>
    upstream_routes s' = hm_insert k r' (upstream_routes s) \<and>
    pending_downstream s' = pending_downstream s \<and> ur_event_kind r' = ur_event_kind r \<and>
    ur_payload_bytes r' = ur_payload_bytes r \<and> ur_event_kind r = kind \<and> ur_payload_bytes r = sz \<and>
    ur_hop_limit r' = max (ur_hop_limit r) hop \<and>
    (\<forall>q. route_provider r' q \<longrightarrow> route_provider r q \<or> q = p \<and> res = Inr [Send p (Want k)])"
    using res Some unfolding r'_def
    by (auto simp: retry_inventory_def Let_def route_provider_def set_insort_insert split: if_splits)
  then have "hist s' ?log"
  proof
    assume "s' = s"
    then show ?thesis using hist_mono[OF h past] by simp
  next
    assume upd: "upstream_routes s' = hm_insert k r' (upstream_routes s) \<and>
      pending_downstream s' = pending_downstream s \<and> ur_event_kind r' = ur_event_kind r \<and>
      ur_payload_bytes r' = ur_payload_bytes r \<and> ur_event_kind r = kind \<and> ur_payload_bytes r = sz \<and>
      ur_hop_limit r' = max (ur_hop_limit r) hop \<and>
      (\<forall>q. route_provider r' q \<longrightarrow> route_provider r q \<or> q = p \<and> res = Inr [Send p (Want k)])"
    show ?thesis
    proof (rule hist_route_insert[OF h past])
      show "Out (Send q' (Want k)) \<in> set ?log" if "route_provider r' q'" for q'
        using upd that provs[of q'] by auto
      show "In (if hop \<le> ur_hop_limit r then q else p)
          (Inventory k (ur_event_kind r') (ur_payload_bytes r') (ur_hop_limit r')) \<in> set ?log"
        using upd q new by (auto simp: max_def)
    qed (use upd in auto)
  qed
  then show ?thesis using sound by (simp add: justified_def)
qed

lemma open_justified:
  assumes h: "hist s log" and new: "In p (Inventory k kind sz hop) \<in> set log"
    and none: "k \<notin> keys (upstream_routes s)"
    and res: "open_route p k kind sz hop now s = (res, s')"
  shows "justified lib opts log (returned res) s'"
proof -
  define r where "r = \<lparr>ur_peer_id = p, ur_alternate_peers = [], ur_transport_disrupted_peers = [],
    ur_event_kind = kind, ur_payload_bytes = sz, ur_hop_limit = hop,
    ur_expires_at_ms = sat_add now (route_ttl_ms (options s)), ur_fulfilled = False\<rparr>"
  have s': "upstream_routes s' = hm_insert k r (upstream_routes s)"
    "pending_downstream s' = pending_downstream s" and acts: "returned res = [Out (Send p (Want k))]"
    using res none by (auto simp: open_route_def Let_def r_def)
  have "hist s' (log @ returned res)"
  proof (rule hist_route_insert[OF h _ _ _ s'])
    show "In p (Inventory k (ur_event_kind r) (ur_payload_bytes r) (ur_hop_limit r)) \<in> set (log @ returned res)"
      using new by (simp add: r_def)
  qed (auto simp: acts r_def route_provider_def)
  then show ?thesis using new by (auto simp: justified_def acts)
qed

lemma receive_inventory_justified:
  assumes inv: "mesh_inv lib now s" and live: "live now s" and h: "hist s log"
    and new: "In p (Inventory k kind sz hop) \<in> set log"
    and res: "receive_inventory p k kind sz hop now s = (res, s')"
  shows "justified lib opts log (returned res) s'"
proof (cases "inventory_valid (options s) k kind sz hop \<and> k \<notin> keys (cached_events s)")
  case True
  note eq = receive_inventory_valid[of s k kind sz hop p now]
  show ?thesis
  proof (cases "k \<in> keys (seen_inventories s)")
    case seen: True
    then show ?thesis
      using retry_justified[OF h new] res True eq remember_known[OF live seen] by simp
  next
    case False
    have "hist (snd (remember_inventory k now s)) log" by (rule hist_carries[OF h carries_remember])
    from open_justified[OF this new mesh_inv_remember_new(3)[OF inv False]] show ?thesis
      using res True eq remember_new[OF False] by simp
  qed
next
  case False
  then have "returned res = []" "s' = s"
    using receive_inventory_invalid[of s k kind sz hop p now] res by auto
  then show ?thesis using h by (auto intro: justified_carries carries_refl)
qed

lemma park_pending:
  assumes "map_of (pending_downstream (park_want p k now s)) k' = Some w" and "q \<in> set (pp_peers w)"
  shows "(k' = k \<and> q = p) \<or> (\<exists>w0. map_of (pending_downstream s) k' = Some w0 \<and> q \<in> set (pp_peers w0))"
  using assms
  by (auto simp: park_want_def Let_def set_insort_insert split: if_splits option.splits)

lemma park_hist:
  assumes "hist s log" and "In p (Want k) \<in> set log"
  shows "hist (park_want p k now s) log"
proof -
  have "In q (Want k') \<in> set log"
    if "map_of (pending_downstream (park_want p k now s)) k' = Some w" "q \<in> set (pp_peers w)" for k' w q
    using park_pending[OF that] assms unfolding hist_def by blast
  then show ?thesis using assms(1) by (simp add: hist_def)
qed

lemma receive_want_justified:
  assumes inv: "mesh_inv lib now s" and live: "live now s" and h: "hist s log"
    and new: "In p (Want k) \<in> set log" and res: "receive_want p k now s = (res, s')"
  shows "justified lib opts log (returned res) s'"
proof (cases "\<exists>r. validate_event_id k = Inr () \<and> k \<notin> keys (cached_events s) \<and>
    map_of (upstream_routes s) k = Some r \<and> \<not> ur_fulfilled r")
  case True
  then have "returned res = []" "s' = park_want p k now s"
    using receive_want_parks[OF inv live] res by auto
  then show ?thesis using park_hist[OF h new] by (simp add: justified_def)
next
  case False
  then have "s' = s" and acts: "returned res = [] \<or> (\<exists>e. map_of (cached_events s) k = Some e \<and>
      returned res = [Out (Send p (Frame k (ce_event e)))])"
    using res by (auto simp: receive_want_def split: sum.splits option.splits)
  moreover have "entry_sound lib opts log (Out (Send p (Frame k (ce_event e))))"
    if "map_of (cached_events s) k = Some e" for e
    using cached_sound[OF inv that] new by simp
  ultimately show ?thesis
    using justified_carries[OF h carries_refl, of "returned res" lib opts] by auto
qed

lemma remove_pending_fst: "fst (remove_pending_event k s) = map_of (pending_downstream s) k"
  by (simp add: remove_pending_event_def split: option.split)

lemma accept_frame_actions:
  assumes "a \<in> set (fst (accept_frame lib p k e sz r peers now s))"
  obtains "a = Deliver p e"
    | q w where "a = Send q (Frame k e)" "map_of (pending_downstream s) k = Some w" "q \<in> set (pp_peers w)"
    | q where "a = Send q (Inventory k (ev_kind e) sz (ur_hop_limit r - 1))" "1 < ur_hop_limit r"
  using assms
  by (auto simp: accept_frame_def Let_def split_def remove_pending_fst send_to_selected_peers_def
      split: if_splits option.splits; metis)

lemma carries_accept:
  assumes "map_of (upstream_routes s) k = Some r"
  shows "carries s (snd (accept_frame lib p k e sz route peers now s))"
proof -
  let ?s2 = "store_event lib e sz now (record_peer_behavior p VALID_FRAME_REWARD ValidFrame s)"
  let ?r = "r\<lparr>ur_fulfilled := True, ur_transport_disrupted_peers := []\<rparr>"
  have s2: "carries s ?s2" by (rule carries_trans[OF carries_record carries_store])
  have routes: "upstream_routes ?s2 = upstream_routes s" by simp
  have "carries ?s2 (?s2\<lparr>upstream_routes := hm_insert k ?r (upstream_routes s)\<rparr>)"
    using carries_fulfil[of ?s2 k r] assms unfolding routes by blast
  from carries_trans[OF s2 carries_trans[OF carries_trans[OF this carries_remove_pending] carries_delivered]]
  show ?thesis unfolding accept_frame_state[OF assms] .
qed

lemma word_pred_succ:
  fixes h :: u8
  assumes "1 < h"
  shows "0 < h - 1" and "h - 1 + 1 = h" and "h - 1 < h - 1 + 1" and "h \<le> m \<Longrightarrow> h - 1 \<le> m"
  using assms by (unat_arith | simp)+

lemma accept_frame_justified:
  assumes inv: "mesh_inv lib now s" and h: "hist s log" and w: "frame_wanted lib s p k e r"
    and new: "In p (Frame k e) \<in> set log"
  shows "justified lib (options s) log (map Out (fst (accept_frame lib p k e (ur_payload_bytes r) r peers now s)))
    (snd (accept_frame lib p k e (ur_payload_bytes r) r peers now s))"
proof (rule justified_carries[OF h])
  have r: "map_of (upstream_routes s) k = Some r" using w by (simp add: frame_wanted_def)
  show "carries s (snd (accept_frame lib p k e (ur_payload_bytes r) r peers now s))"
    by (rule carries_accept[OF r])
  have ok: "route_ok (options s) k r" using inv route_known(1)[OF _ r] by (simp add: mesh_inv_def)
  have asked: "Out (Send p (Want k)) \<in> set log"
    and "\<exists>q. In q (Inventory k (ur_event_kind r) (ur_payload_bytes r) (ur_hop_limit r)) \<in> set log"
    using h r w unfolding hist_def frame_wanted_def by blast+
  then obtain q where q: "In q (Inventory k (ev_kind e) (ur_payload_bytes r) (ur_hop_limit r)) \<in> set log"
    using w by (auto simp: frame_wanted_def)
  fix x
  assume "x \<in> set (map Out (fst (accept_frame lib p k e (ur_payload_bytes r) r peers now s)))"
  then obtain a where a: "x = Out a"
    and "a \<in> set (fst (accept_frame lib p k e (ur_payload_bytes r) r peers now s))" by auto
  from this(2) show "entry_sound lib (options s) log x"
  proof (cases rule: accept_frame_actions)
    case 1
    then show ?thesis using a w asked new by (simp add: frame_wanted_def)
  next
    case (2 q' w')
    then have "In q' (Want k) \<in> set log" using h unfolding hist_def by blast
    then show ?thesis using 2 a w by (simp add: frame_wanted_def)
  next
    case (3 q')
    then show ?thesis
      using a q ok word_pred_succ(1-3)[OF 3(2)] word_pred_succ(4)[OF 3(2), of "max_hops (options s)"]
      by (auto simp: route_ok_def)
  qed
qed

lemma receive_frame_justified:
  assumes inv: "mesh_inv lib now s" and h: "hist s log" and new: "In p (Frame k e) \<in> set log"
    and res: "receive_frame lib p k e peers now True s = (res, s')"
  shows "justified lib (options s) log (returned res) s'"
proof (cases "\<exists>r. frame_wanted lib s p k e r")
  case True
  then obtain r where r: "frame_wanted lib s p k e r" by blast
  show ?thesis
    using res accept_frame_justified[OF inv h r new, of peers]
    by (auto simp: receive_frame_wanted[OF inv r] split_def)
next
  case False
  then have "returned res = [] \<and> s' = s"
    using res
    by (auto simp: receive_frame_def frame_wanted_def validate_event_Inr validate_verified_event_Inr
        split: sum.splits option.splits if_splits prod.splits)
  then show ?thesis using h by (auto intro: justified_carries carries_refl)
qed

lemma charge_justified:
  assumes "justified lib opts log (returned (fst r)) (snd r)"
  shows "justified lib opts log (returned (fst (charge_error p r))) (snd (charge_error p r))"
proof -
  have "carries (snd r) (snd (charge_error p r))" by (rule carries_charge[OF carries_refl])
  then show ?thesis
    using assms hist_carries unfolding justified_def receive_inventory_fst by blast
qed

lemma receive_justified:
  assumes inv: "mesh_inv lib now (prune now s)" and live: "live now (prune now s)"
    and h: "hist (prune now s) log" and new: "In p m \<in> set log"
  shows "justified lib (options s) log (returned (fst (receive lib p m peers now s)))
    (snd (receive lib p m peers now s))"
proof (cases m)
  case (Inventory k kind sz hop)
  let ?r = "receive_inventory p k kind sz hop now (prune now s)"
  have "justified lib (options s) log (returned (fst ?r)) (snd ?r)"
    using new Inventory by (intro receive_inventory_justified[OF inv live h]) auto
  from charge_justified[OF this] show ?thesis by (simp add: receive_def Let_def Inventory)
next
  case (Want k)
  let ?r = "receive_want p k now (prune now s)"
  have "justified lib (options s) log (returned (fst ?r)) (snd ?r)"
    using new Want by (intro receive_want_justified[OF inv live h]) auto
  from charge_justified[OF this] show ?thesis by (simp add: receive_def Let_def Want)
next
  case (Frame k e)
  let ?r = "receive_frame lib p k e peers now True (prune now s)"
  have "justified lib (options (prune now s)) log (returned (fst ?r)) (snd ?r)"
    using new Frame by (intro receive_frame_justified[OF inv h]) auto
  from charge_justified[OF this] show ?thesis by (simp add: receive_def Let_def Frame)
qed

section \<open>Every reachable log is sound\<close>

definition traced_node :: "nostr_lib \<Rightarrow> mesh_options \<Rightarrow> node \<Rightarrow> bool" where
  "traced_node lib o0 n \<longleftrightarrow>
     node_inv lib o0 n \<and>
     (case n of (c, s, log) \<Rightarrow> hist s log \<and> log_sound lib (normalize_options o0) log)"

lemma justified_extends:
  assumes "log_sound lib opts log" and "justified lib opts log new s"
  shows "hist s (log @ new) \<and> log_sound lib opts (log @ new)"
  using assms log_sound_append unfolding justified_def by blast

lemma received_extends:
  assumes inv: "mesh_inv lib c s" and clock: "c \<le> now" and h: "hist s log"
    and log: "log_sound lib (options s) log"
  shows "hist (snd (receive lib p m peers now s)) (log @ In p m # returned (fst (receive lib p m peers now s))) \<and>
    log_sound lib (options s) (log @ In p m # returned (fst (receive lib p m peers now s)))"
proof -
  note pr = prune_ok[OF inv clock]
  let ?log = "log @ [In p m]"
  have "hist (prune now s) ?log"
    by (rule hist_carries[OF hist_mono[OF h] carries_prune[OF inv]]) auto
  from receive_justified[OF pr this] have
    "justified lib (options s) ?log (returned (fst (receive lib p m peers now s)))
       (snd (receive lib p m peers now s))" by simp
  moreover have "log_sound lib (options s) ?log" using log by (intro log_sound_append) auto
  ultimately show ?thesis using justified_extends by fastforce
qed

lemma traced_step:
  assumes laws: "nostr_laws lib" and step: "mesh_step lib n n'" and good: "traced_node lib o0 n"
  shows "traced_node lib o0 n'"
proof -
  have inv': "node_inv lib o0 n'"
    using node_inv_step[OF laws step] good by (simp add: traced_node_def)
  obtain c s log c' s' log' where n: "n = (c, s, log)" "n' = (c', s', log')" by (cases n; cases n') auto
  have inv: "mesh_inv lib c s" and opts: "normalize_options o0 = options s" and h: "hist s log"
    and ls: "log_sound lib (options s) log"
    using good n by (auto simp: traced_node_def node_inv_def)
  have prune: "mesh_inv lib now (prune now s)" "hist (prune now s) log" if "c \<le> now" for now
    using prune_ok(1)[OF inv that] hist_carries[OF h carries_prune[OF inv]] by auto
  have quiet: "hist s'' log \<and> log_sound lib (options s) log" if "carries s s''" for s''
    using hist_carries[OF h that] ls by blast
  have pub: "hist s'' (log @ returned res) \<and> log_sound lib (options s) (log @ returned res)"
    if "publish_validated lib e peers now v (prune now s) = (res, s'')" "c \<le> now" for e peers now v res s''
    using justified_extends[OF ls] publish_justified[OF prune[OF that(2)] that(1)] by simp
  have rep: "hist s'' (log @ returned res) \<and> log_sound lib (options s) (log @ returned res)"
    if "replay_validated lib e p now v (prune now s) = (res, s'')" "c \<le> now" for e p now v res s''
    using justified_extends[OF ls] replay_justified[OF prune[OF that(2)] that(1)] by simp
  have "hist s' log' \<and> log_sound lib (options s) log'"
    using step unfolding n
  proof (cases rule: mesh_step.cases)
    case step_maintain
    then show ?thesis using quiet[OF carries_prune[OF inv]] by (simp add: maintain_def)
  next
    case (step_publish e peers res)
    then show ?thesis
      by (auto simp: publish_def Let_def dest!: pub)
  next
    case (step_publish_verified v peers res)
    then show ?thesis
      by (auto simp: publish_verified_def Let_def dest!: pub)
  next
    case (step_replay e p res)
    then show ?thesis
      by (auto simp: replay_to_peer_def Let_def dest!: rep)
  next
    case (step_replay_verified v p res)
    then show ?thesis
      by (auto simp: replay_verified_to_peer_def Let_def dest!: rep)
  next
    case (step_seed v res)
    have "carries s s'"
      using step_seed(4) carries_prune[OF inv] carries_trans[OF carries_prune[OF inv] carries_store]
      by (auto simp: seed_verified_def Let_def split: sum.splits)
    then show ?thesis using quiet step_seed by blast
  next
    case (step_replay_cached p acts)
    then have s': "s' = prune c' s"
      and acts: "collect_actions (map (cached_inventory (prune c' s) p) (cache_order (prune c' s))) = Some acts"
      by (auto simp: replay_cached_to_peer_def Let_def)
    have "justified lib (options s) log (map Out acts) s'"
      using replay_cached_justified[OF prune[OF step_replay_cached(2)] acts] by (simp add: s')
    then show ?thesis using justified_extends[OF ls] step_replay_cached(1) by simp
  next
    case (step_receive p m peers res)
    then show ?thesis
      using received_extends[OF inv _ h ls, of c' p m peers] by simp
  next
    case (step_receive_verified v p k peers res)
    then have "receive lib p (Frame k (as_event v)) peers c' s = (res, s')"
      using receive_frame_verified[of lib "as_event v"] by (simp add: receive_verified_frame_def receive_def Let_def)
    then show ?thesis
      using received_extends[OF inv _ h ls, of c' p "Frame k (as_event v)" peers] step_receive_verified by simp
  next
    case (step_invalid p)
    then show ?thesis using quiet[OF carries_record] by (simp add: record_invalid_message_def)
  next
    case (step_dismiss p k)
    then show ?thesis using quiet[OF carries_dismiss] by simp
  next
    case (step_disruption p k b)
    then show ?thesis using quiet[OF carries_disruption, of p k] by simp
  next
    case step_rehash
    then show ?thesis using quiet[OF carries_rehash[OF _ inv]] by simp
  qed
  then show ?thesis using inv' n opts by (simp add: traced_node_def)
qed

interpretation traced: step_system
  "\<lambda>n. nostr_laws lib \<and> usize_limits o0 \<and> mesh_start o0 n" "mesh_step lib"
  "\<lambda>n. nostr_laws lib \<and> traced_node lib o0 n" for lib o0
proof
  show "nostr_laws lib \<and> traced_node lib o0 n"
    if "nostr_laws lib \<and> usize_limits o0 \<and> mesh_start o0 n" for n
    using that node.good_start[of lib o0 n]
    by (auto simp: traced_node_def mesh_start_def hist_def log_sound_def mesh_new_def)
qed (use traced_step in blast)

lemma reachable_log_sound:
  assumes "nostr_laws lib" and "usize_limits o0" and "mesh_reachable lib o0 (c, s, log)" and "i < length log"
  shows "entry_sound lib (normalize_options o0) (take i log) (log ! i)"
  using assms traced.reachable_good[of lib o0 _ "(c, s, log)"]
  by (auto simp: mesh_reachable_def traced_node_def log_sound_def)

lemma in_take: "x \<in> set (take i xs) \<longleftrightarrow> (\<exists>j < i. j < length xs \<and> xs ! j = x)"
  by (auto simp: in_set_conv_nth)

text \<open>
  C1: a node delivers only what it asked for. Every delivery in its history is an event whose
  signature and identifier check, after a request for exactly this event to exactly this
  peer and a frame from this peer with the event.
\<close>

theorem delivered_was_requested:
  assumes "nostr_laws lib" and "usize_limits o0" and "mesh_reachable lib o0 (c, s, log)"
    and "i < length log" and "log ! i = Out (Deliver p e)"
  shows "verify lib e \<and>
    (\<exists>j < i. log ! j = Out (Send p (Want (to_hex lib (ev_id e))))) \<and>
    (\<exists>j < i. log ! j = In p (Frame (to_hex lib (ev_id e)) e))"
  using reachable_log_sound[OF assms(1-4)] assms(5) by (auto simp: in_take)

text \<open>
  C11: a node sends an event only to a peer that asked for it, and never sends an event whose
  signature or identifier does not check or does not match the identifier on the frame.
\<close>

theorem frame_was_wanted:
  assumes "nostr_laws lib" and "usize_limits o0" and "mesh_reachable lib o0 (c, s, log)"
    and "i < length log" and "log ! i = Out (Send p (Frame k e))"
  shows "verify lib e \<and> k = to_hex lib (ev_id e) \<and> (\<exists>j < i. log ! j = In p (Want k))"
  using reachable_log_sound[OF assms(1-4)] assms(5) by (auto simp: in_take)

text \<open>Only frames cause announcements; announcements without a message carry the maximum.\<close>

lemma no_announcement:
  "Out (Send q (Inventory k kind sz hop)) \<notin> set (returned (fst (receive_inventory p k' kind' sz' hop' now s)))"
  "Out (Send q (Inventory k kind sz hop)) \<notin> set (returned (fst (receive_want p k' now s)))"
proof -
  show "Out (Send q (Inventory k kind sz hop)) \<notin> set (returned (fst (receive_inventory p k' kind' sz' hop' now s)))"
    by (auto simp: receive_inventory_def retry_inventory_def open_route_def Let_def split_def
        split: sum.splits option.splits if_splits)
  show "Out (Send q (Inventory k kind sz hop)) \<notin> set (returned (fst (receive_want p k' now s)))"
    by (auto simp: receive_want_def Let_def split: sum.splits option.splits if_splits)
qed

lemma publish_validated_hops:
  assumes "publish_validated lib e peers now v s = (Inr acts, s')" and "Send q (Inventory k kind sz hop) \<in> set acts"
  shows "hop = max_hops (options s)"
  using assms by (auto simp: publish_validated_def split_def send_to_selected_peers_def Let_def split: sum.splits if_splits)

lemma replay_validated_hops:
  assumes "replay_validated lib e p now v s = (Inr acts, s')" and "Send q (Inventory k kind sz hop) \<in> set acts"
  shows "hop = max_hops (options s)"
  using assms by (auto simp: replay_validated_def Let_def split: sum.splits if_splits)

lemma replay_cached_hops:
  assumes "collect_actions (map (cached_inventory s p) xs) = Some acts" and "Send q (Inventory k kind sz hop) \<in> set acts"
  shows "hop = max_hops (options s)"
  using collect_actions_set[OF assms] by (auto simp: cached_inventory_def split: option.splits if_splits)

lemma received_announcement:
  assumes inv: "mesh_inv lib c s" and clock: "c \<le> now" and h: "hist s log"
    and a: "Out (Send q (Inventory k kind sz hop)) \<in> set (returned (fst (receive lib p m peers now s)))"
  shows "\<exists>e r. m = Frame k e \<and> 0 < hop \<and> r \<le> max_hops (options s) \<and> unat r = unat hop + 1 \<and>
    (\<exists>q'. In q' (Inventory k kind sz r) \<in> set log)"
proof (cases m)
  case (Inventory k' kind' sz' hop')
  then show ?thesis using a no_announcement(1)[of q k kind sz hop p k' kind' sz' hop' now "prune now s"]
    by (simp add: receive_def Let_def receive_inventory_fst)
next
  case (Want k')
  then show ?thesis using a no_announcement(2)[of q k kind sz hop p k' now "prune now s"]
    by (simp add: receive_def Let_def receive_inventory_fst)
next
  case (Frame k' e)
  let ?t = "prune now s"
  note pr = prune_ok[OF inv clock]
  have fst: "Out (Send q (Inventory k kind sz hop)) \<in> set (returned (fst (receive_frame lib p k' e peers now True ?t)))"
    using a Frame by (simp add: receive_def Let_def receive_inventory_fst)
  then obtain r where w: "frame_wanted lib ?t p k' e r"
    by (auto simp: receive_frame_def frame_wanted_def validate_event_Inr validate_verified_event_Inr
        split: sum.splits option.splits if_splits prod.splits)
  have r: "map_of (upstream_routes ?t) k' = Some r" and kind: "ur_event_kind r = ev_kind e" using w by (simp_all add: frame_wanted_def)
  have ok: "route_ok (options s) k' r" using pr(1) route_known(1)[OF _ r] by (simp add: mesh_inv_def)
  obtain q' where q': "In q' (Inventory k' (ev_kind e) (ur_payload_bytes r) (ur_hop_limit r)) \<in> set log"
    using hist_carries[OF h carries_prune[OF inv]] r kind unfolding hist_def by metis
  have "Send q (Inventory k kind sz hop) \<in> set (fst (accept_frame lib p k' e (ur_payload_bytes r) r peers now ?t))"
    using fst by (auto simp: receive_frame_wanted[OF pr(1) w] split_def)
  then show ?thesis
  proof (cases rule: accept_frame_actions)
    case (3 q0)
    then have "0 < hop" and "unat (ur_hop_limit r) = unat hop + 1" using word_pred_succ(1)[OF 3(2)] by (simp_all, unat_arith)
    then show ?thesis using 3 q' ok Frame by (auto simp: route_ok_def)
  qed simp_all
qed

text \<open>
  C12: flooding ends. Whatever step a node takes, an announcement it sends in answer to a message is an answer to a frame
  with the announced event, and its hop limit is positive and exactly one below the limit of an
  announcement of the same event, kind and size that the node received before; that limit was within the
  maximum. Announcements that no message caused, those of \<open>publish\<close> and of the replay calls, which may
  concern events of others, carry the maximum.
\<close>

theorem announcement_loses_hop:
  assumes "nostr_laws lib" and "usize_limits o0" and "mesh_reachable lib o0 (c, s, log)"
    and "mesh_step lib (c, s, log) (c', s', log @ new)" and "Out (Send q (Inventory k kind sz h)) \<in> set new"
  shows "case new of
      In p m # _ \<Rightarrow> (\<exists>e. m = Frame k e) \<and> 0 < h \<and>
        (\<exists>j < length log. \<exists>q' h'. log ! j = In q' (Inventory k kind sz h') \<and> unat h' = unat h + 1 \<and> h' \<le> max_hops (normalize_options o0))
    | _ \<Rightarrow> h = max_hops (normalize_options o0)"
proof -
  have good: "traced_node lib o0 (c, s, log)"
    using assms(1-3) traced.reachable_good[of lib o0 _ "(c, s, log)"] by (auto simp: mesh_reachable_def)
  then have inv: "mesh_inv lib c s" and opts: "normalize_options o0 = options s" and h: "hist s log"
    by (auto simp: traced_node_def node_inv_def)
  have rec: ?thesis if "c \<le> now" "new = In p m # returned (fst (receive lib p m peers now s))" for now p m peers
    using received_announcement[OF inv that(1) h, of q k kind sz h p m peers] assms(5) that(2) opts
    by (auto simp: in_set_conv_nth)
  have out: ?thesis if "new = map Out acts" "Send q (Inventory k kind sz h) \<in> set acts \<Longrightarrow> h = max_hops (options s)" for acts
    using that assms(5) opts by (cases acts) auto
  have pub: ?thesis if "publish_validated lib e peers now v (prune now s) = (res, s'')" "new = returned res" for e peers now v res s''
    using that out publish_validated_hops[of lib e peers now v "prune now s"] assms(5) by (cases res) auto
  have rep: ?thesis if "replay_validated lib e p now v (prune now s) = (res, s'')" "new = returned res" for e p now v res s''
    using that out replay_validated_hops[of lib e p now v "prune now s"] assms(5) by (cases res) auto
  show ?thesis
    using assms(4)
  proof (cases rule: mesh_step.cases)
    case (step_publish e peers res)
    then show ?thesis using pub by (simp add: publish_def Let_def)
  next
    case (step_publish_verified v peers res)
    then show ?thesis using pub by (simp add: publish_verified_def Let_def)
  next
    case (step_replay e p res)
    then show ?thesis using rep by (simp add: replay_to_peer_def Let_def)
  next
    case (step_replay_verified v p res)
    then show ?thesis using rep by (simp add: replay_verified_to_peer_def Let_def)
  next
    case (step_replay_cached p acts)
    then have "collect_actions (map (cached_inventory (prune c' s) p) (cache_order (prune c' s))) = Some acts"
      by (auto simp: replay_cached_to_peer_def Let_def)
    from replay_cached_hops[OF this] show ?thesis using out[of acts] step_replay_cached(1) by simp
  next
    case (step_receive p m peers res)
    then show ?thesis using rec[of c' p m peers] by simp
  next
    case (step_receive_verified v p k' peers res)
    then have "receive lib p (Frame k' (as_event v)) peers c' s = (res, s')"
      using receive_frame_verified[of lib "as_event v"] by (simp add: receive_verified_frame_def receive_def Let_def)
    then show ?thesis using rec[of c' p "Frame k' (as_event v)" peers] step_receive_verified by simp
  qed (use assms(5) in simp_all)
qed

text \<open>
  A node asks only a peer that announced the event to it.
\<close>

theorem want_follows_announcement:
  assumes "nostr_laws lib" and "usize_limits o0" and "mesh_reachable lib o0 (c, s, log)"
    and "i < length log" and "log ! i = Out (Send p (Want k))"
  shows "\<exists>j < i. \<exists>kind sz h. log ! j = In p (Inventory k kind sz h)"
  using reachable_log_sound[OF assms(1-4)] assms(5) by (auto simp: in_take)

end
