(* ===== verification/Mesh_Demo.thy ===== *)
theory Mesh_Demo
  imports Mesh_History
begin

text \<open>
  A concrete run of two nodes with the default options: \<open>A\<close> publishes an event, \<open>B\<close> hears
  the announcement, asks for the event, receives it and answers the request of a third peer \<open>C\<close>. Its nodes are
  the instances at which the theorems about reachable nodes are applied.
\<close>

section \<open>The run\<close>

definition demo_e :: event where "demo_e = demo_event 7 100 1"
definition demo_k :: string where "demo_k = to_hex demo_lib (ev_id demo_e)"
definition demo_inv :: wire_message where "demo_inv = Inventory demo_k 1 100 16"
definition demo_s0 :: mesh where "demo_s0 = mesh_new default_options"

definition demo_a1 :: mesh where
  "demo_a1 = snd (publish demo_lib demo_e [mesh_peer_new ''B''] 5 demo_s0)"
definition demo_b1 :: mesh where
  "demo_b1 = snd (receive demo_lib ''A'' demo_inv [] 6 demo_s0)"
definition demo_b2 :: mesh where
  "demo_b2 = snd (receive demo_lib ''C'' (Want demo_k) [] 7 demo_b1)"
definition demo_b3 :: mesh where
  "demo_b3 = snd (receive demo_lib ''A'' (Frame demo_k demo_e) [mesh_peer_new ''D''] 8 demo_b2)"

lemma demo_limits: "usize_limits default_options"
  by (simp add: usize_limits_def default_options_def)

lemma demo_canonical: "canonical_hex demo_k"
  using demo_laws by (simp add: demo_k_def nostr_laws_def hex_law_def)

lemma demo_id [simp]: "validate_event_id demo_k = Inr ()"
  by (simp add: validate_event_id_canonical demo_canonical)

lemma demo_verify: "verify demo_lib demo_e"
  by (simp add: demo_e_def demo_event_verifies)

lemma demo_validate: "max_event_bytes opts = 1048576 \<Longrightarrow> allowed_kinds opts = None \<Longrightarrow>
    validate_event demo_lib opts demo_e = Inr (demo_k, 100)"
  by (simp add: validate_event_Inr demo_verify validate_verified_event_Inr validate_kind_def demo_k_def)
    (simp add: demo_lib_def)

lemma demo_options [simp]: "normalize_options default_options = default_options"
  by (simp add: normalize_options_def default_options_def)

lemma demo_fields [simp]:
  "fanout default_options = 8" "unknown_peer_reserve default_options = 1" "max_hops default_options = 16"
  "max_event_bytes default_options = 1048576" "max_cached_events default_options = 1024"
  "max_cached_event_bytes default_options = 16777216" "max_seen_events default_options = 4096"
  "max_pending_peers_per_event default_options = 64" "route_ttl_ms default_options = 120000"
  "event_ttl_ms default_options = 600000" "allowed_kinds default_options = None"
  by (simp_all add: default_options_def)

lemma demo_kind [simp]: "ev_kind demo_e = 1"
  by (simp add: demo_e_def demo_event_def)

lemma demo_sum: "sat_add (6::u64) 120000 = 120006" "sat_add (8::u64) 600000 = 600008"
  "sat_add (7::u64) 120000 = 120007" "sat_add (5::u64) 120000 = 120005" "sat_add (5::u64) 600000 = 600005"
  by (simp_all add: sat_add_def)

lemma demo_b1_step:
  "receive demo_lib ''A'' demo_inv [] 6 demo_s0 = (Inr [Send ''A'' (Want demo_k)], demo_b1)"
  "demo_b1 = demo_s0\<lparr>seen_inventories := [(demo_k, 120006)], seen_order := [demo_k],
     upstream_routes := [(demo_k, \<lparr>ur_peer_id = ''A'', ur_alternate_peers = [],
       ur_transport_disrupted_peers = [], ur_event_kind = 1, ur_payload_bytes = 100, ur_hop_limit = 16,
       ur_expires_at_ms = 120006, ur_fulfilled = False\<rparr>)],
     want_forwarded := [(demo_k, 120006)], next_prune_at_ms := Some 120006\<rparr>"
  unfolding demo_b1_def
  by (simp_all add: demo_s0_def receive_def prune_def mesh_new_def demo_inv_def receive_inventory_def
      validate_kind_def validate_event_len_def remember_inventory_def open_route_def
      track_expiry_def charge_error_def Let_def demo_sum)

lemma demo_b2_step:
  "receive demo_lib ''C'' (Want demo_k) [] 7 demo_b1 = (Inr [], demo_b2)"
  "demo_b2 = demo_b1\<lparr>pending_downstream := [(demo_k, \<lparr>pp_peers = [''C''], pp_expires_at_ms = 120007\<rparr>)],
     pending_peer_count := 1\<rparr>"
  unfolding demo_b2_def
  by (simp_all add: demo_b1_step(2) demo_s0_def receive_def prune_def mesh_new_def receive_want_def
      park_want_def charge_error_def Let_def demo_sum insort_insert_key_def)

lemma demo_b3_step:
  "receive demo_lib ''A'' (Frame demo_k demo_e) [mesh_peer_new ''D''] 8 demo_b2 =
     (Inr [Deliver ''A'' demo_e, Send ''C'' (Frame demo_k demo_e),
           Send ''D'' (Inventory demo_k 1 100 15)], demo_b3)"
proof -
  have key: "to_hex demo_lib (ev_id demo_e) = demo_k" by (simp add: demo_k_def)
  have room: "make_room 100 s = s" if "cached_events s = []" "cached_event_bytes s = 0" "options s = default_options" for s
    using that by (subst make_room.simps) (simp add: sat_add_def)
  have sel: "select_mesh_peers [mesh_peer_new ''D''] (Some ''A'') 8 1 = [mesh_peer_new ''D'']"
    by code_simp
  show ?thesis
    unfolding demo_b3_def
    by (simp add: demo_b2_step(2) demo_b1_step(2) demo_s0_def receive_def prune_def mesh_new_def
        receive_frame_def route_provider_def demo_validate accept_frame_def record_peer_behavior_def
        store_event_def key room track_expiry_def remember_delivered_def remove_pending_event_def
        send_to_selected_peers_def peers_with_behavior_def peer_behavior_score_def mesh_peer_new_def
        peer_behavior_observation_def sel[unfolded mesh_peer_new_def One_nat_def] charge_error_def Let_def demo_sum)
qed

lemma demo_a1_step:
  "publish demo_lib demo_e [mesh_peer_new ''B''] 5 demo_s0 = (Inr [Send ''B'' demo_inv], demo_a1)"
proof -
  have key: "to_hex demo_lib (ev_id demo_e) = demo_k" by (simp add: demo_k_def)
  have room: "make_room 100 s = s" if "cached_events s = []" "cached_event_bytes s = 0" "options s = default_options" for s
    using that by (subst make_room.simps) (simp add: sat_add_def)
  have sel: "select_mesh_peers [mesh_peer_new ''B''] None 8 1 = [mesh_peer_new ''B'']"
    by code_simp
  show ?thesis
    unfolding demo_a1_def
    by (simp add: demo_s0_def publish_def prune_def mesh_new_def demo_validate publish_validated_def
        store_event_def key room track_expiry_def remember_inventory_def demo_inv_def
        send_to_selected_peers_def peers_with_behavior_def peer_behavior_score_def mesh_peer_new_def
        peer_behavior_observation_def sel[unfolded mesh_peer_new_def One_nat_def] Let_def demo_sum)
qed

section \<open>Reachability\<close>

definition demo_log1 :: "entry list" where
  "demo_log1 = [In ''A'' demo_inv, Out (Send ''A'' (Want demo_k))]"
definition demo_log2 :: "entry list" where
  "demo_log2 = demo_log1 @ [In ''C'' (Want demo_k)]"
definition demo_log3 :: "entry list" where
  "demo_log3 = demo_log2 @ [In ''A'' (Frame demo_k demo_e), Out (Deliver ''A'' demo_e),
     Out (Send ''C'' (Frame demo_k demo_e)), Out (Send ''D'' (Inventory demo_k 1 100 15))]"

lemma demo_reach_0: "mesh_reachable demo_lib default_options (0, demo_s0, [])"
  by (auto simp: mesh_reachable_def mesh_start_def demo_s0_def)

lemma demo_reach_b1: "mesh_reachable demo_lib default_options (6, demo_b1, demo_log1)"
  using reachable_receive[OF demo_reach_0, of 6 "''A''" demo_inv "[]"] by (simp add: demo_b1_step(1) demo_log1_def)

lemma demo_reach_b2: "mesh_reachable demo_lib default_options (7, demo_b2, demo_log2)"
  using reachable_receive[OF demo_reach_b1, of 7 "''C''" "Want demo_k" "[]"]
  by (simp add: demo_b2_step(1) demo_log2_def)

lemma demo_reach_b3: "mesh_reachable demo_lib default_options (8, demo_b3, demo_log3)"
  using reachable_receive[OF demo_reach_b2, of 8 "''A''" "Frame demo_k demo_e" "[mesh_peer_new ''D'']"]
  by (simp add: demo_b3_step demo_log3_def)

lemmas demo_logs = demo_log3_def demo_log2_def demo_log1_def
lemmas demo_hyps = demo_laws demo_limits

section \<open>Instances\<close>

theorem retained_state_bounded_witness:
  "rs_cached_events (retained_state demo_b3) \<le> 1024 \<and>
   unat (rs_cached_event_bytes (retained_state demo_b3)) \<le> 16777216"
  using retained_state_bounded[OF demo_hyps demo_reach_b3] by (simp add: Let_def)

theorem receive_error_state_witness:
  "snd (receive demo_lib ''X'' (Frame demo_k demo_e) [] 7 demo_b1) =
     record_invalid_message ''X'' (prune 7 demo_b1)"
proof -
  have "receive demo_lib ''X'' (Frame demo_k demo_e) [] 7 demo_b1 =
      (Inl (Validation ''inv/want frame was not requested from source''),
       snd (receive demo_lib ''X'' (Frame demo_k demo_e) [] 7 demo_b1))"
    by (simp add: demo_b1_step(2) demo_s0_def receive_def prune_def mesh_new_def receive_frame_def
        route_provider_def charge_error_def Let_def)
  from receive_error_state[OF demo_hyps demo_reach_b1 _ this] show ?thesis by simp
qed

theorem want_answer_witness:
  "\<exists>w. map_of (pending_downstream demo_b2) demo_k = Some w \<and> set (pp_peers w) = {''C''}"
proof -
  have t: "prune 7 demo_b1 = demo_b1" by (simp add: prune_def demo_b1_step(2) demo_s0_def mesh_new_def)
  have "cached_events demo_b1 = []" "pending_downstream demo_b1 = []"
    "\<exists>r. map_of (upstream_routes demo_b1) demo_k = Some r \<and> \<not> ur_fulfilled r"
    by (simp_all add: demo_b1_step(2) demo_s0_def mesh_new_def)
  then show ?thesis
    using want_answer[OF demo_hyps demo_reach_b1 _ demo_canonical demo_b2_step(1)] by (auto simp: Let_def t)
qed

theorem verified_paths_agree_witness:
  "publish_verified demo_lib (VerifiedEvent demo_e) [] 9 demo_b3 = publish demo_lib demo_e [] 9 demo_b3"
  using verified_paths_agree[of demo_lib "VerifiedEvent demo_e" "[]" 9 demo_b3 "''A''" demo_k]
  by (simp add: demo_verify)

theorem maintain_removes_expired_witness:
  "upstream_routes (maintain 120006 demo_b1) = []"
  using maintain_removes_expired[OF demo_hyps demo_reach_b1, of 120006]
  by (simp add: Let_def demo_b1_step(2))

theorem inventory_requested_iff_witness:
  "inventory_valid default_options demo_k 1 100 16 \<and> requests (prune 6 demo_s0) ''A'' demo_k 1 100"
  using inventory_requested_iff[OF demo_hyps demo_reach_0, of 6 "''A''" demo_k 1 100 16 "[]"]
    demo_b1_step(1)
  by (simp add: demo_inv_def)

theorem frame_delivered_iff_witness:
  "\<exists>r. frame_wanted demo_lib (prune 8 demo_b2) ''A'' demo_k demo_e r"
  using frame_delivered_iff[OF demo_hyps demo_reach_b2, of 8 "''A''" "Frame demo_k demo_e"
      "[mesh_peer_new ''D'']" "''A''" demo_e] demo_b3_step
  by auto

theorem exchange_delivers_witness:
  "fst (receive demo_lib ''B'' (Want demo_k) [] 7 demo_a1) = Inr [Send ''B'' (Frame demo_k demo_e)] \<and>
   (\<exists>acts. fst (receive demo_lib ''A'' (Frame demo_k demo_e) [] 8 demo_b1) = Inr acts \<and>
      Deliver ''A'' demo_e \<in> set acts)"
proof -
  have ok: "inventory_valid (normalize_options default_options) demo_k 1 100 16"
    by (simp add: inventory_valid_def demo_canonical validate_kind_def)
  have new: "demo_k \<notin> keys (cached_events (prune 6 demo_s0))"
    "demo_k \<notin> keys (seen_inventories (prune 6 demo_s0))"
    "demo_k \<notin> keys (delivered_events (prune 6 demo_s0))"
    by (simp_all add: demo_s0_def prune_def mesh_new_def)
  have ttl: "7 < sat_add 5 (event_ttl_ms (normalize_options default_options))"
    "8 < sat_add 6 (route_ttl_ms (normalize_options default_options))"
    by (simp_all add: demo_sum)
  show ?thesis
    using exchange_delivers[OF demo_laws demo_limits demo_reach_0 _ demo_limits demo_reach_0 _
        demo_a1_step[unfolded demo_inv_def] _ ok new demo_b1_step(1)[unfolded demo_inv_def]
        prod.collapse[symmetric, of "receive demo_lib ''B'' (Want demo_k) [mesh_peer_new ''B''] 7 demo_a1"] _ ttl(1)
        prod.collapse[symmetric, of "receive demo_lib ''A'' (Frame demo_k demo_e) [] 8 demo_b1"] _ ttl(2)]
    by (auto simp: receive_def)
qed

theorem delivered_was_requested_witness:
  "verify demo_lib demo_e \<and> (\<exists>j < 4. demo_log3 ! j = Out (Send ''A'' (Want demo_k)))"
  using delivered_was_requested[OF demo_hyps demo_reach_b3, of 4 "''A''" demo_e]
  by (simp add: demo_logs demo_k_def)

theorem frame_was_wanted_witness: "\<exists>j < 5. demo_log3 ! j = In ''C'' (Want demo_k)"
  using frame_was_wanted[OF demo_hyps demo_reach_b3, of 5 "''C''" demo_k demo_e]
  by (simp add: demo_logs)

theorem announcement_loses_hop_witness:
  "\<exists>j < 3. \<exists>q' h'. demo_log2 ! j = In q' (Inventory demo_k 1 100 h') \<and> unat h' = 16"
proof -
  let ?new = "[In ''A'' (Frame demo_k demo_e), Out (Deliver ''A'' demo_e),
     Out (Send ''C'' (Frame demo_k demo_e)), Out (Send ''D'' (Inventory demo_k 1 100 15))]"
  have "mesh_step demo_lib (7, demo_b2, demo_log2) (8, demo_b3, demo_log2 @ ?new)"
    using step_receive[OF _ demo_b3_step, of 7 demo_log2] by simp
  moreover have "length demo_log2 = 3" by (simp add: demo_log2_def demo_log1_def)
  ultimately show ?thesis using announcement_loses_hop[OF demo_hyps demo_reach_b2, of 8 demo_b3 ?new "''D''" demo_k 1 100 15] by auto
qed

theorem want_follows_announcement_witness:
  "\<exists>j < 1. \<exists>kind sz h. demo_log3 ! j = In ''A'' (Inventory demo_k kind sz h)"
  using want_follows_announcement[OF demo_hyps demo_reach_b3, of 1 "''A''" demo_k]
  by (simp add: demo_logs)

end
