(* ===== verification/Subscriptions.thy ===== *)
theory Subscriptions
  imports Events "HOL-Library.Monad_Syntax"
begin

text \<open>
  Peer subscriptions of \<open>crates/nostr-pubsub/src/subscriptions.rs\<close>: the bounded store of the filters that peers subscribed
  to, with eviction of the oldest subscription of a peer and of the least recently touched
  peer, the running measurements of the retained state, and the delivery policy
  that reads it. A panic of the sources (\<open>expect\<close> on the size of a retained subscription) is the result \<open>None\<close>.
  The properties are in \<open>Subscription_Store\<close>.
\<close>

section \<open>Delivery policy\<close>

datatype delivery_strategy = PushSubscribed | InventoryFirst
datatype interest = Subscribed | Unsubscribed | UnknownInterest
datatype delivery_action = PushFrame | AnnounceInventory | Skip

definition interest_from_filters :: "nostr_lib \<Rightarrow> filter list \<Rightarrow> verified_event \<Rightarrow> interest" where
  "interest_from_filters lib fs v =
     (if subscription_filters_match lib fs (as_event v) then Subscribed else Unsubscribed)"

fun action_for_peer :: "delivery_strategy \<Rightarrow> interest \<Rightarrow> delivery_action" where
  "action_for_peer PushSubscribed Subscribed = PushFrame"
| "action_for_peer InventoryFirst Subscribed = AnnounceInventory"
| "action_for_peer strategy interest = Skip"

section \<open>State\<close>

record sub_limits =
  max_peers :: nat
  max_subscriptions_per_peer :: nat
  max_filters_per_subscription :: nat

definition default_limits :: sub_limits where
  "default_limits = \<lparr>max_peers = 1024, max_subscriptions_per_peer = 64, max_filters_per_subscription = 16\<rparr>"

record subscription =
  sub_id :: string
  sub_filters :: "filter list"

definition matches_event :: "nostr_lib \<Rightarrow> subscription \<Rightarrow> event \<Rightarrow> bool" where
  "matches_event lib sub e = subscription_filters_match lib (sub_filters sub) e"

definition sub_matches :: "nostr_lib \<Rightarrow> subscription \<Rightarrow> verified_event \<Rightarrow> bool" where
  "sub_matches lib sub v = matches_event lib sub (as_event v)"

datatype subscription_update = UpdSubscribed | UpdClosed | UpdIgnored

record sub_set =
  ss_subscriptions :: "(string, subscription) hmap"
  ss_order :: "string list"

record sub_snapshot =
  sn_peer_count :: nat
  sn_subscription_count :: nat
  sn_filter_count :: nat
  sn_encoded_filter_bytes :: nat
  sn_encoded_req_bytes :: nat

record sub_store =
  st_limits :: sub_limits
  st_peers :: "(source_id, sub_set) hmap"
  st_peer_order :: "source_id list"
  st_retained :: sub_snapshot

text \<open>
  The JSON encoders of the \<open>nostr\<close> crate that measure a filter and a whole \<open>REQ\<close> message. They may
  fail.
\<close>

record sub_json =
  filter_json :: "filter \<Rightarrow> string option"
  req_json :: "string \<Rightarrow> filter list \<Rightarrow> string option"

text \<open>The client messages of the \<open>nostr\<close> crate the store distinguishes.\<close>

datatype client_message = Req string "filter list" | Close string | OtherMessage

record contribution =
  co_filter_count :: nat
  co_encoded_filter_bytes :: nat
  co_encoded_req_bytes :: nat

section \<open>One peer's subscriptions\<close>

fun evict_oldest_over_limit ::
  "nat \<Rightarrow> string list \<Rightarrow> (string, subscription) hmap \<Rightarrow>
     subscription option \<times> string list \<times> (string, subscription) hmap" where
  "evict_oldest_over_limit limit [] subs = (None, [], subs)"
| "evict_oldest_over_limit limit (i # q) subs =
     (if limit < length subs
      then (case hm_get subs i of
              Some removed \<Rightarrow> (Some removed, q, hm_remove i subs)
            | None \<Rightarrow> evict_oldest_over_limit limit q subs)
      else (None, i # q, subs))"

definition set_upsert ::
  "subscription \<Rightarrow> sub_limits \<Rightarrow> sub_set \<Rightarrow> subscription option \<times> subscription option \<times> sub_set" where
  "set_upsert sub limits s =
     (let order = filter (\<lambda>i. i \<noteq> sub_id sub) (ss_order s) @ [sub_id sub];
          replaced = hm_get (ss_subscriptions s) (sub_id sub);
          subs = bmap_insert (sub_id sub) sub (ss_subscriptions s)
      in if replaced = None
         then (case evict_oldest_over_limit (max_subscriptions_per_peer limits) order subs of
                 (evicted, order', subs') \<Rightarrow>
                   (replaced, evicted, \<lparr>ss_subscriptions = subs', ss_order = order'\<rparr>))
         else (replaced, None, \<lparr>ss_subscriptions = subs, ss_order = order\<rparr>))"

definition set_remove :: "string \<Rightarrow> sub_set \<Rightarrow> subscription option \<times> sub_set" where
  "set_remove i s =
     (hm_get (ss_subscriptions s) i,
      \<lparr>ss_subscriptions = hm_remove i (ss_subscriptions s), ss_order = filter (\<lambda>j. j \<noteq> i) (ss_order s)\<rparr>)"

definition set_is_empty :: "sub_set \<Rightarrow> bool" where
  "set_is_empty s \<longleftrightarrow> ss_subscriptions s = []"

section \<open>Measurements\<close>

fun filter_bytes :: "sub_json \<Rightarrow> filter list \<Rightarrow> nat \<Rightarrow> nat option" where
  "filter_bytes js [] acc = Some acc"
| "filter_bytes js (f # fs) acc =
     (case filter_json js f of None \<Rightarrow> None | Some enc \<Rightarrow> filter_bytes js fs (acc + length enc))"

definition subscription_contribution :: "sub_json \<Rightarrow> subscription \<Rightarrow> pubsub_error + contribution" where
  "subscription_contribution js sub =
     (case filter_bytes js (sub_filters sub) 0 of
        None \<Rightarrow> Inl (Storage ''failed to encode retained peer subscription filter'')
      | Some fb \<Rightarrow>
          (case req_json js (sub_id sub) (sub_filters sub) of
             None \<Rightarrow> Inl (Storage ''failed to encode retained peer subscription REQ'')
           | Some req \<Rightarrow>
               Inr \<lparr>co_filter_count = length (sub_filters sub), co_encoded_filter_bytes = fb,
                    co_encoded_req_bytes = length req\<rparr>))"

definition contribution_infallible :: "sub_json \<Rightarrow> subscription \<Rightarrow> contribution option" where
  "contribution_infallible js sub =
     (case subscription_contribution js sub of Inl err \<Rightarrow> None | Inr c \<Rightarrow> Some c)"

definition add_retained :: "contribution \<Rightarrow> sub_store \<Rightarrow> sub_store" where
  "add_retained c st =
     (let r = st_retained st in
      st\<lparr>st_retained :=
        r\<lparr>sn_subscription_count := sn_subscription_count r + 1,
          sn_filter_count := sn_filter_count r + co_filter_count c,
          sn_encoded_filter_bytes := sn_encoded_filter_bytes r + co_encoded_filter_bytes c,
          sn_encoded_req_bytes := sn_encoded_req_bytes r + co_encoded_req_bytes c\<rparr>\<rparr>)"

definition subtract_retained :: "sub_json \<Rightarrow> subscription \<Rightarrow> sub_store \<Rightarrow> sub_store option" where
  "subtract_retained js sub st =
     do { c \<leftarrow> contribution_infallible js sub;
          let r = st_retained st;
          Some (st\<lparr>st_retained :=
            r\<lparr>sn_subscription_count := sn_subscription_count r - 1,
              sn_filter_count := sn_filter_count r - co_filter_count c,
              sn_encoded_filter_bytes := sn_encoded_filter_bytes r - co_encoded_filter_bytes c,
              sn_encoded_req_bytes := sn_encoded_req_bytes r - co_encoded_req_bytes c\<rparr>\<rparr>) }"

fun subtract_all :: "sub_json \<Rightarrow> subscription list \<Rightarrow> sub_store \<Rightarrow> sub_store option" where
  "subtract_all js [] st = Some st"
| "subtract_all js (sub # subs) st = do { st' \<leftarrow> subtract_retained js sub st; subtract_all js subs st' }"

definition subtract_opt :: "sub_json \<Rightarrow> subscription option \<Rightarrow> sub_store \<Rightarrow> sub_store option" where
  "subtract_opt js removed st = (case removed of None \<Rightarrow> Some st | Some sub \<Rightarrow> subtract_retained js sub st)"

section \<open>The store\<close>

definition store_new :: "sub_limits \<Rightarrow> sub_store" where
  "store_new limits = \<lparr>st_limits = limits, st_peers = [], st_peer_order = [],
     st_retained = \<lparr>sn_peer_count = 0, sn_subscription_count = 0, sn_filter_count = 0,
       sn_encoded_filter_bytes = 0, sn_encoded_req_bytes = 0\<rparr>\<rparr>"

definition touch_peer :: "source_id \<Rightarrow> sub_store \<Rightarrow> sub_store" where
  "touch_peer p st = st\<lparr>st_peer_order := filter (\<lambda>q. q \<noteq> p) (st_peer_order st) @ [p]\<rparr>"

fun evict_peers_loop ::
  "nat \<Rightarrow> source_id list \<Rightarrow> (source_id, sub_set) hmap \<Rightarrow>
     subscription list \<times> source_id list \<times> (source_id, sub_set) hmap" where
  "evict_peers_loop cap [] peers = ([], [], peers)"
| "evict_peers_loop cap (p # q) peers =
     (if cap \<le> length peers
      then (case hm_get peers p of
              Some s \<Rightarrow> (hm_values (ss_subscriptions s), q, hm_remove p peers)
            | None \<Rightarrow> evict_peers_loop cap q peers)
      else ([], p # q, peers))"

definition evict_peers_over_limit :: "sub_store \<Rightarrow> subscription list \<times> sub_store" where
  "evict_peers_over_limit st =
     (case evict_peers_loop (max_peers (st_limits st)) (st_peer_order st) (st_peers st) of
        (removed, order, peers) \<Rightarrow> (removed, st\<lparr>st_peer_order := order, st_peers := peers\<rparr>))"

definition upsert_insert ::
  "sub_json \<Rightarrow> source_id \<Rightarrow> subscription \<Rightarrow> contribution \<Rightarrow> sub_store \<Rightarrow> (subscription option \<times> sub_store) option" where
  "upsert_insert js p sub added st =
     (let old = (case hm_get (st_peers st) p of Some s \<Rightarrow> s | None \<Rightarrow> \<lparr>ss_subscriptions = [], ss_order = []\<rparr>)
      in case set_upsert sub (st_limits st) old of
           (replaced, evicted, s') \<Rightarrow>
             do { st1 \<leftarrow> subtract_opt js replaced (st\<lparr>st_peers := bmap_insert p s' (st_peers st)\<rparr>);
                  st2 \<leftarrow> subtract_opt js evicted st1;
                  let st3 = add_retained added st2;
                  Some (evicted, st3\<lparr>st_retained := (st_retained st3)\<lparr>sn_peer_count := length (st_peers st3)\<rparr>\<rparr>) })"

definition upsert ::
  "sub_json \<Rightarrow> source_id \<Rightarrow> subscription \<Rightarrow> sub_store \<Rightarrow>
     ((pubsub_error + subscription option) \<times> sub_store) option" where
  "upsert js p sub st =
     (if max_peers (st_limits st) = 0
      then Some (Inl (Validation ''peer subscription store max_peers must be greater than zero''), st)
      else if max_subscriptions_per_peer (st_limits st) = 0
      then Some (Inl (Validation
             ''peer subscription store max_subscriptions_per_peer must be greater than zero''), st)
      else if max_filters_per_subscription (st_limits st) < length (sub_filters sub)
      then Some (Inl (Validation ''subscription has too many filters''), st)
      else case subscription_contribution js sub of
             Inl err \<Rightarrow> Some (Inl err, st)
           | Inr added \<Rightarrow>
               (let st1 = touch_peer p st in
                do { st2 \<leftarrow> (if hm_contains (st_peers st) p then Some st1
                             else (case evict_peers_over_limit st1 of
                                     (removed, st') \<Rightarrow> subtract_all js removed st'));
                     (evicted, st3) \<leftarrow> upsert_insert js p sub added st2;
                     Some (Inr evicted, st3) }))"

definition remove_peer :: "sub_json \<Rightarrow> source_id \<Rightarrow> sub_store \<Rightarrow> (subscription list \<times> sub_store) option" where
  "remove_peer js p st =
     (let removed = (case hm_get (st_peers st) p of None \<Rightarrow> [] | Some s \<Rightarrow> hm_values (ss_subscriptions s))
      in do { st1 \<leftarrow> subtract_all js removed
                (st\<lparr>st_peer_order := filter (\<lambda>q. q \<noteq> p) (st_peer_order st),
                    st_peers := hm_remove p (st_peers st)\<rparr>);
              Some (removed,
                st1\<lparr>st_retained := (st_retained st1)\<lparr>sn_peer_count := length (st_peers st1)\<rparr>\<rparr>) })"

definition remove ::
  "sub_json \<Rightarrow> source_id \<Rightarrow> string \<Rightarrow> sub_store \<Rightarrow> (subscription option \<times> sub_store) option" where
  "remove js p i st =
     (case (case hm_get (st_peers st) p of
              None \<Rightarrow> (None, st)
            | Some s \<Rightarrow>
                (case set_remove i s of
                   (removed, s') \<Rightarrow> (removed, st\<lparr>st_peers := bmap_insert p s' (st_peers st)\<rparr>))) of
        (removed, st1) \<Rightarrow>
          do { st2 \<leftarrow> subtract_opt js removed st1;
               st3 \<leftarrow> (case hm_get (st_peers st2) p of
                        None \<Rightarrow> Some st2
                      | Some s \<Rightarrow> if set_is_empty s then map_option snd (remove_peer js p st2) else Some st2);
               Some (removed, st3) })"

fun apply_client_message ::
  "sub_json \<Rightarrow> source_id \<Rightarrow> client_message \<Rightarrow> sub_store \<Rightarrow>
     ((pubsub_error + subscription_update) \<times> sub_store) option" where
  "apply_client_message js p (Req i fs) st =
     do { (res, st') \<leftarrow> upsert js p \<lparr>sub_id = i, sub_filters = fs\<rparr> st;
          Some (case res of Inl err \<Rightarrow> Inl err | Inr _ \<Rightarrow> Inr UpdSubscribed, st') }"
| "apply_client_message js p (Close i) st =
     do { (_, st') \<leftarrow> remove js p i st; Some (Inr UpdClosed, st') }"
| "apply_client_message js p OtherMessage st = Some (Inr UpdIgnored, st)"

section \<open>Queries\<close>

definition get_subscription :: "sub_store \<Rightarrow> source_id \<Rightarrow> string \<Rightarrow> subscription option" where
  "get_subscription st p i =
     (case hm_get (st_peers st) p of None \<Rightarrow> None | Some s \<Rightarrow> hm_get (ss_subscriptions s) i)"

definition peer_subscriptions :: "sub_store \<Rightarrow> source_id \<Rightarrow> subscription list" where
  "peer_subscriptions st p =
     (case hm_get (st_peers st) p of None \<Rightarrow> [] | Some s \<Rightarrow> hm_values (ss_subscriptions s))"

definition subscription_count :: "sub_store \<Rightarrow> nat" where
  "subscription_count st = sum_list (map (\<lambda>s. length (ss_subscriptions s)) (hm_values (st_peers st)))"

definition peer_filter_count :: "sub_store \<Rightarrow> source_id \<Rightarrow> nat" where
  "peer_filter_count st p = sum_list (map (\<lambda>sub. length (sub_filters sub)) (peer_subscriptions st p))"

definition peer_subscription_count :: "sub_store \<Rightarrow> source_id \<Rightarrow> nat" where
  "peer_subscription_count st p = length (peer_subscriptions st p)"

definition peer_interest :: "nostr_lib \<Rightarrow> sub_store \<Rightarrow> source_id \<Rightarrow> verified_event \<Rightarrow> interest" where
  "peer_interest lib st p v =
     (case hm_get (st_peers st) p of
        None \<Rightarrow> UnknownInterest
      | Some s \<Rightarrow>
          if list_ex (\<lambda>sub. sub_matches lib sub v) (hm_values (ss_subscriptions s))
          then Subscribed else Unsubscribed)"

definition matching_subscriptions :: "nostr_lib \<Rightarrow> sub_store \<Rightarrow> source_id \<Rightarrow> verified_event \<Rightarrow> subscription list" where
  "matching_subscriptions lib st p v = filter (\<lambda>sub. sub_matches lib sub v) (peer_subscriptions st p)"

definition matching_peer_subscriptions ::
  "nostr_lib \<Rightarrow> sub_store \<Rightarrow> verified_event \<Rightarrow> (source_id \<times> subscription) list" where
  "matching_peer_subscriptions lib st v =
     concat (map (\<lambda>(p, s). map (Pair p) (filter (\<lambda>sub. sub_matches lib sub v) (hm_values (ss_subscriptions s))))
       (st_peers st))"

definition interested_peers :: "nostr_lib \<Rightarrow> sub_store \<Rightarrow> verified_event \<Rightarrow> source_id list" where
  "interested_peers lib st v =
     map fst (filter (\<lambda>(p, s). list_ex (\<lambda>sub. sub_matches lib sub v) (hm_values (ss_subscriptions s))) (st_peers st))"

definition action_for_event ::
  "nostr_lib \<Rightarrow> delivery_strategy \<Rightarrow> sub_store \<Rightarrow> source_id \<Rightarrow> verified_event \<Rightarrow> delivery_action" where
  "action_for_event lib strategy st p v = action_for_peer strategy (peer_interest lib st p v)"

end
