(* ===== verification/Subscription_Inv.thy ===== *)
theory Subscription_Inv
  imports Subscriptions
begin

text \<open>
  The invariant of the subscription store: both queues list exactly the stored keys, the
  limits hold, every stored subscription can be measured, and the running measurements are the
  tally of the multiset of stored subscriptions. Every operation keeps it and none panics.
\<close>

section \<open>Sums over sorted maps\<close>

lemma sum_bmap_insert:
  fixes f :: "'k::linorder \<times> 'v \<Rightarrow> 'a::comm_monoid_add"
  assumes "bmap_wf m"
  shows "sum_list (map f (bmap_insert k v m)) + (case map_of m k of None \<Rightarrow> 0 | Some w \<Rightarrow> f (k, w)) =
    f (k, v) + sum_list (map f m)"
  using assms
proof (induction k v m rule: bmap_insert.induct)
  case (2 k v k' v' m)
  have "map_of m k = None" if "k < k'"
    using 2(2) that by (auto simp: image_iff dest: order.strict_trans1)
  moreover have "map_of m k = None" if "k = k'" using 2(2) that by (auto simp: image_iff)
  ultimately show ?case
    using 2 by (auto simp: ac_simps split: option.splits)
qed simp

lemma sum_hm_remove:
  fixes f :: "'k \<times> 'v \<Rightarrow> 'a::comm_monoid_add"
  assumes "hm_wf m" and "map_of m k = Some v"
  shows "sum_list (map f m) = f (k, v) + sum_list (map f (hm_remove k m))"
  using assms
proof (induction m)
  case (Cons p m)
  show ?case
  proof (cases "fst p = k")
    case True
    with Cons.prems have "k \<notin> keys m" by auto
    then have "hm_remove k m = m" by (rule delete_id)
    with True Cons.prems show ?thesis by (cases p) simp
  next
    case False
    with Cons show ?thesis by (cases p) (auto simp: ac_simps)
  qed
qed simp

lemma length_bmap_insert:
  assumes "bmap_wf m"
  shows "length (bmap_insert k v m) = (if k \<in> keys m then length m else Suc (length m))"
proof -
  have "length xs = sum_list (map (\<lambda>_. 1) xs)" for xs :: "('a \<times> 'b) list" by (induction xs) simp_all
  then show ?thesis
    using sum_bmap_insert[OF assms, of "\<lambda>_. 1 :: nat" k v] by (cases "map_of m k") (auto simp: hm_get_in_keys)
qed

lemma bmap_wf_remove [simp]: "bmap_wf m \<Longrightarrow> bmap_wf (hm_remove k m)"
  by (simp add: AList.delete_eq sorted_filter distinct_map_filter)

section \<open>Measurements as a function of what is stored\<close>

definition encodable :: "sub_json \<Rightarrow> subscription \<Rightarrow> bool" where
  "encodable js sub \<longleftrightarrow> contribution_infallible js sub \<noteq> None"

definition size_of :: "sub_json \<Rightarrow> subscription \<Rightarrow> contribution" where
  "size_of js sub = the (contribution_infallible js sub)"

definition tally :: "sub_json \<Rightarrow> nat \<Rightarrow> subscription multiset \<Rightarrow> sub_snapshot" where
  "tally js n M = \<lparr>sn_peer_count = n, sn_subscription_count = size M,
     sn_filter_count = (\<Sum>sub \<in># M. co_filter_count (size_of js sub)),
     sn_encoded_filter_bytes = (\<Sum>sub \<in># M. co_encoded_filter_bytes (size_of js sub)),
     sn_encoded_req_bytes = (\<Sum>sub \<in># M. co_encoded_req_bytes (size_of js sub))\<rparr>"

lemma subtract_tally:
  assumes "st_retained st = tally js n M" and "sub \<in># M" and "encodable js sub"
  shows "subtract_retained js sub st = Some (st\<lparr>st_retained := tally js n (M - {#sub#})\<rparr>)"
proof -
  obtain M' where M: "M = add_mset sub M'" using assms(2) by (metis multi_member_split)
  obtain c where "contribution_infallible js sub = Some c" using assms(3) by (auto simp: encodable_def)
  then show ?thesis using assms(1) by (simp add: subtract_retained_def tally_def M size_of_def)
qed

lemma add_tally:
  assumes "st_retained st = tally js n M" and "contribution_infallible js sub = Some c"
  shows "add_retained c st = st\<lparr>st_retained := tally js n (add_mset sub M)\<rparr>"
  using assms by (simp add: add_retained_def tally_def size_of_def)

lemma subtract_all_tally:
  assumes "st_retained st = tally js n M" and "mset subs \<subseteq># M" and "\<forall>sub \<in> set subs. encodable js sub"
  shows "subtract_all js subs st = Some (st\<lparr>st_retained := tally js n (M - mset subs)\<rparr>)"
  using assms
proof (induction subs arbitrary: st M)
  case (Cons sub subs)
  have "sub \<in># M" using Cons.prems(2) by (simp add: insert_subset_eq_iff)
  then have "subtract_retained js sub st = Some (st\<lparr>st_retained := tally js n (M - {#sub#})\<rparr>)"
    using Cons.prems by (intro subtract_tally) auto
  moreover have "mset subs \<subseteq># M - {#sub#}" using Cons.prems(2) by (simp add: insert_subset_eq_iff)
  ultimately show ?case
    using Cons.IH[of "st\<lparr>st_retained := tally js n (M - {#sub#})\<rparr>" "M - {#sub#}"] Cons.prems(3) by simp
qed simp

abbreviation mset_opt :: "'a option \<Rightarrow> 'a multiset" where
  "mset_opt x \<equiv> (case x of None \<Rightarrow> {#} | Some y \<Rightarrow> {#y#})"

lemma subtract_opt_tally:
  assumes "st_retained st = tally js n M" and "mset_opt x \<subseteq># M" and "\<And>sub. x = Some sub \<Longrightarrow> encodable js sub"
  shows "subtract_opt js x st = Some (st\<lparr>st_retained := tally js n (M - mset_opt x)\<rparr>)"
  using assms subtract_tally[of st js n M] by (cases x) (simp_all add: subtract_opt_def)

section \<open>The invariant\<close>

lemma sum_list_mset_single: "sum_list (map (\<lambda>x. {#f x#}) xs) = mset (map f xs)"
  by (induction xs) simp_all

abbreviation values_of :: "sub_set \<Rightarrow> subscription multiset" where
  "values_of s \<equiv> mset (hm_values (ss_subscriptions s))"

definition set_ok :: "sub_json \<Rightarrow> sub_limits \<Rightarrow> sub_set \<Rightarrow> bool" where
  "set_ok js limits s \<longleftrightarrow>
     bmap_wf (ss_subscriptions s) \<and> distinct (ss_order s) \<and> set (ss_order s) = keys (ss_subscriptions s) \<and>
     length (ss_subscriptions s) \<le> max_subscriptions_per_peer limits \<and>
     (\<forall>i sub. (i, sub) \<in> set (ss_subscriptions s) \<longrightarrow>
        sub_id sub = i \<and> length (sub_filters sub) \<le> max_filters_per_subscription limits \<and> encodable js sub)"

definition all_subs :: "(source_id, sub_set) hmap \<Rightarrow> subscription multiset" where
  "all_subs peers = sum_list (map (\<lambda>ps. values_of (snd ps)) peers)"

definition store_ok :: "sub_json \<Rightarrow> sub_store \<Rightarrow> bool" where
  "store_ok js st \<longleftrightarrow>
     bmap_wf (st_peers st) \<and> distinct (st_peer_order st) \<and> set (st_peer_order st) = keys (st_peers st) \<and>
     length (st_peers st) \<le> max_peers (st_limits st) \<and>
     (\<forall>p s. (p, s) \<in> set (st_peers st) \<longrightarrow> set_ok js (st_limits st) s \<and> ss_subscriptions s \<noteq> []) \<and>
     st_retained st = tally js (length (st_peers st)) (all_subs (st_peers st))"

lemma set_bmap_insert:
  "bmap_wf m \<Longrightarrow> set (bmap_insert k v m) \<subseteq> insert (k, v) (set m)"
  by (induction k v m rule: bmap_insert.induct) auto

lemma evict_one:
  assumes "distinct q" and "set q = keys m" and "bmap_wf m" and "length m \<le> Suc n" and "m \<noteq> []"
  shows "evict_oldest_over_limit n q m =
    (if length m \<le> n then (None, q, m)
     else (map_of m (hd q), tl q, hm_remove (hd q) m))"
proof -
  obtain i q' where q: "q = i # q'" using assms(2,5) by (cases q) auto
  then have "i \<in> keys m" using assms(2) by auto
  then obtain r where "map_of m i = Some r" by (rule hm_keysE)
  then show ?thesis by (simp add: q)
qed

lemma set_upsert_ok:
  assumes ok: "set_ok js limits s" and cap: "0 < max_subscriptions_per_peer limits"
    and sub: "length (sub_filters sub) \<le> max_filters_per_subscription limits" "encodable js sub"
    and res: "set_upsert sub limits s = (replaced, evicted, s')"
  shows "set_ok js limits s'" and "map_of (ss_subscriptions s') (sub_id sub) = Some sub"
    and "mset_opt replaced + mset_opt evicted \<subseteq># values_of s"
    and "values_of s' = add_mset sub (values_of s - (mset_opt replaced + mset_opt evicted))"
proof -
  let ?i = "sub_id sub" and ?m = "ss_subscriptions s"
  let ?m' = "bmap_insert ?i sub ?m" and ?q = "filter (\<lambda>j. j \<noteq> ?i) (ss_order s) @ [?i]"
  have m: "bmap_wf ?m" "distinct (ss_order s)" "set (ss_order s) = keys ?m"
    "length ?m \<le> max_subscriptions_per_peer limits"
    using ok by (auto simp: set_ok_def)
  have m': "bmap_wf ?m'" "distinct ?q" "set ?q = keys ?m'"
    using m bmap_wf_insert[of ?m ?i sub] by auto
  have "?m' \<noteq> []" using keys_bmap_insert[of ?i sub ?m] by force
  moreover have "length ?m' \<le> Suc (max_subscriptions_per_peer limits)"
    using m(4) length_bmap_insert[OF m(1), of ?i sub] by simp
  ultimately have ev: "evict_oldest_over_limit (max_subscriptions_per_peer limits) ?q ?m' =
      (if length ?m' \<le> max_subscriptions_per_peer limits then (None, ?q, ?m')
       else (map_of ?m' (hd ?q), tl ?q, hm_remove (hd ?q) ?m'))"
    using evict_one[OF m'(2,3,1)] by blast
  have entries: "sub_id x = i \<and> length (sub_filters x) \<le> max_filters_per_subscription limits \<and> encodable js x"
    if "(i, x) \<in> set ?m'" for i x
    using that set_bmap_insert[OF m(1), of ?i sub] ok sub by (auto simp: set_ok_def)
  have vals: "mset (hm_values ?m') + mset_opt (map_of ?m ?i) = add_mset sub (values_of s)"
    using sum_bmap_insert[OF m(1), of "\<lambda>kv. {#snd kv#}" ?i sub]
    by (cases "map_of ?m ?i") (simp_all add: sum_list_mset_single)
  have conc: "set_ok js limits s' \<and> map_of (ss_subscriptions s') ?i = Some sub \<and>
      mset_opt replaced + mset_opt evicted \<subseteq># values_of s \<and>
      values_of s' + (mset_opt replaced + mset_opt evicted) = add_mset sub (values_of s)"
  proof (cases "map_of ?m ?i = None \<and> max_subscriptions_per_peer limits < length ?m'")
    case False
    then have s': "replaced = map_of ?m ?i" "evicted = None" "s' = \<lparr>ss_subscriptions = ?m', ss_order = ?q\<rparr>"
      using res unfolding set_upsert_def Let_def ev by (auto split: if_splits)
    have "length ?m' \<le> max_subscriptions_per_peer limits"
      using False m(4) length_bmap_insert[OF m(1), of ?i sub] by (auto simp: not_less split: if_splits)
    moreover have "mset_opt (map_of ?m ?i) \<subseteq># values_of s"
      by (auto split: option.splits dest!: map_of_SomeD) (metis image_eqI snd_conv)
    ultimately show ?thesis
      using s' m' entries vals m(1) by (simp add: set_ok_def map_of_bmap_insert)
  next
    case True
    then have len: "length ?m' = Suc (max_subscriptions_per_peer limits)"
      using m(4) length_bmap_insert[OF m(1), of ?i sub] by (auto split: if_splits)
    have "length ?m' = length ?q" using m' by (intro keys_length_eq) auto
    then have "filter (\<lambda>j. j \<noteq> ?i) (ss_order s) \<noteq> []" using cap len by auto
    then obtain j q0 where q0: "filter (\<lambda>j. j \<noteq> ?i) (ss_order s) = j # q0"
      by (cases "filter (\<lambda>j. j \<noteq> ?i) (ss_order s)") auto
    define q' where "q' = q0 @ [?i]"
    have "j \<in> set (filter (\<lambda>j. j \<noteq> ?i) (ss_order s))" using q0 by simp
    then have "j \<noteq> ?i" by simp
    then have q: "?q = j # q'" "j \<noteq> ?i" "?i \<in> set q'" by (simp_all add: q0 q'_def)
    have "j \<in> keys ?m'" using q m'(3) by auto
    then have "j \<in> keys ?m" using q(2) by auto
    then obtain r where r: "map_of ?m j = Some r" by (rule hm_keysE)
    then have r': "map_of ?m' j = Some r" using q(2) m(1) by (simp add: map_of_bmap_insert)
    have s': "replaced = None" "evicted = Some r" "s' = \<lparr>ss_subscriptions = hm_remove j ?m', ss_order = q'\<rparr>"
      using res True r' unfolding set_upsert_def Let_def ev unfolding q(1) by auto
    have rm: "mset (hm_values ?m') = add_mset r (mset (hm_values (hm_remove j ?m')))"
      using sum_hm_remove[OF _ r', of "\<lambda>kv. {#snd kv#}"] m'(1) by (simp add: sum_list_mset_single)
    have sub_r: "{#r#} \<subseteq># values_of s" using map_of_SomeD[OF r] by force
    have "Suc (length (hm_remove j ?m')) = length ?m'"
      using m'(1) \<open>j \<in> keys ?m'\<close> by (intro length_hm_remove) auto
    then have "length (hm_remove j ?m') \<le> max_subscriptions_per_peer limits" using len by linarith
    moreover have "distinct q'" "set q' = keys (hm_remove j ?m')"
      using m'(2,3) unfolding q(1) by auto
    moreover have "(i, x) \<in> set ?m'" if "(i, x) \<in> set (hm_remove j ?m')" for i x
      using that by (simp add: set_hm_remove)
    ultimately have "set_ok js limits s'"
      unfolding set_ok_def s' sub_set.simps using bmap_wf_remove[OF m'(1), of j] entries by blast
    moreover have "map_of (ss_subscriptions s') ?i = Some sub"
      using q(2) m(1) by (simp add: s' map_of_bmap_insert)
    moreover have "values_of s' + {#r#} = add_mset sub (values_of s)"
      using rm vals True by (simp add: s')
    ultimately show ?thesis using sub_r by (simp add: s')
  qed
  then show "set_ok js limits s'" and "map_of (ss_subscriptions s') (sub_id sub) = Some sub"
    and "mset_opt replaced + mset_opt evicted \<subseteq># values_of s" by auto
  show "values_of s' = add_mset sub (values_of s - (mset_opt replaced + mset_opt evicted))"
    using conc by (metis add_mset_add_single add_implies_diff mset_subset_eq_multiset_union_diff_commute)
qed

section \<open>Every operation keeps the invariant\<close>

lemma all_subs_insert:
  assumes "bmap_wf peers"
  shows "all_subs (bmap_insert p s' peers) + (case map_of peers p of None \<Rightarrow> {#} | Some s \<Rightarrow> values_of s) =
    values_of s' + all_subs peers"
  using sum_bmap_insert[OF assms, of "\<lambda>ps. values_of (snd ps)" p s']
  by (cases "map_of peers p") (simp_all add: all_subs_def)

lemma all_subs_remove:
  "bmap_wf peers \<Longrightarrow> map_of peers p = Some s \<Longrightarrow>
     all_subs peers = values_of s + all_subs (hm_remove p peers)"
  unfolding all_subs_def by (subst sum_hm_remove[where k = p and v = s]) simp_all

definition store_pre :: "sub_json \<Rightarrow> source_id \<Rightarrow> sub_store \<Rightarrow> bool" where
  "store_pre js p st \<longleftrightarrow>
     bmap_wf (st_peers st) \<and> distinct (st_peer_order st) \<and>
     set (st_peer_order st) = insert p (keys (st_peers st)) \<and>
     length (st_peers st) \<le> max_peers (st_limits st) \<and>
     (p \<notin> keys (st_peers st) \<longrightarrow> length (st_peers st) < max_peers (st_limits st)) \<and>
     (\<forall>q s. (q, s) \<in> set (st_peers st) \<longrightarrow> set_ok js (st_limits st) s \<and> ss_subscriptions s \<noteq> []) \<and>
     (\<exists>n. st_retained st = tally js n (all_subs (st_peers st)))"

lemma tally_peer_count: "(tally js n M)\<lparr>sn_peer_count := m\<rparr> = tally js m M"
  by (simp add: tally_def)

lemma all_subs_replace:
  fixes p :: source_id
  assumes "bmap_wf peers"
  defines "old \<equiv> (case map_of peers p of Some s \<Rightarrow> s | None \<Rightarrow> \<lparr>ss_subscriptions = [], ss_order = []\<rparr>)"
  obtains R where "all_subs peers = values_of old + R"
    and "\<And>s'. all_subs (bmap_insert p s' peers) = values_of s' + R"
proof (cases "map_of peers p")
  case None
  then show ?thesis using that[of "all_subs peers"] all_subs_insert[OF assms(1), of p] by (simp add: old_def)
next
  case (Some s)
  have M: "all_subs peers = values_of s + all_subs (hm_remove p peers)" by (rule all_subs_remove[OF assms(1) Some])
  have "all_subs (bmap_insert p s' peers) = values_of s' + all_subs (hm_remove p peers)" for s'
    using all_subs_insert[OF assms(1), of p s'] Some unfolding M by simp
  then show ?thesis using that M Some by (simp add: old_def)
qed

lemma set_ok_empty: "set_ok js limits \<lparr>ss_subscriptions = [], ss_order = []\<rparr>"
  by (simp add: set_ok_def)

lemma upsert_insert_ok:
  assumes pre: "store_pre js p st" and cap: "0 < max_subscriptions_per_peer (st_limits st)"
    and sub: "length (sub_filters sub) \<le> max_filters_per_subscription (st_limits st)"
      "contribution_infallible js sub = Some added"
  shows "\<exists>evicted st'. upsert_insert js p sub added st = Some (evicted, st') \<and> store_ok js st' \<and>
    st_limits st' = st_limits st \<and> get_subscription st' p (sub_id sub) = Some sub"
proof -
  let ?old = "case map_of (st_peers st) p of Some s \<Rightarrow> s | None \<Rightarrow> \<lparr>ss_subscriptions = [], ss_order = []\<rparr>"
  have wf: "bmap_wf (st_peers st)" using pre by (simp add: store_pre_def)
  have old: "set_ok js (st_limits st) ?old"
    using pre map_of_SomeD[of "st_peers st" p] by (auto simp: store_pre_def set_ok_empty split: option.split)
  obtain replaced evicted s' where up: "set_upsert sub (st_limits st) ?old = (replaced, evicted, s')"
    by (metis prod_cases3)
  have enc: "encodable js sub" using sub(2) by (simp add: encodable_def)
  note spec = set_upsert_ok[OF old cap sub(1) enc up]
  obtain R where R: "all_subs (st_peers st) = values_of ?old + R"
    "\<And>s'. all_subs (bmap_insert p s' (st_peers st)) = values_of s' + R"
    using all_subs_replace[OF wf, of p] by blast
  let ?A = "mset_opt replaced" and ?B = "mset_opt evicted"
  obtain W where W: "values_of ?old = ?A + ?B + W" using spec(3) by (metis mset_subset_eq_exists_conv)
  obtain n where n: "st_retained st = tally js n (?A + ?B + W + R)" using pre R(1) W by (auto simp: store_pre_def)
  have mem: "encodable js x" if "x \<in># ?A + ?B + W" for x
    using that old unfolding W[symmetric] by (auto simp: set_ok_def)
  let ?P = "bmap_insert p s' (st_peers st)"
  have s1: "subtract_opt js replaced (st\<lparr>st_peers := ?P\<rparr>) =
      Some (st\<lparr>st_peers := ?P, st_retained := tally js n (?B + W + R)\<rparr>)"
    using subtract_opt_tally[of "st\<lparr>st_peers := ?P\<rparr>" js n "?A + ?B + W + R" replaced] n mem
    by (simp add: add.assoc)
  have s2: "subtract_opt js evicted (st\<lparr>st_peers := ?P, st_retained := tally js n (?B + W + R)\<rparr>) =
      Some (st\<lparr>st_peers := ?P, st_retained := tally js n (W + R)\<rparr>)"
    using subtract_opt_tally[of "st\<lparr>st_peers := ?P, st_retained := tally js n (?B + W + R)\<rparr>" js n
        "?B + W + R" evicted] mem
    by (simp add: add.assoc)
  let ?st' = "st\<lparr>st_peers := ?P, st_retained := tally js (length ?P) (all_subs ?P)\<rparr>"
  have tot: "add_mset sub (W + R) = all_subs ?P"
    using spec(4) W by (simp add: R(2))
  have res: "upsert_insert js p sub added st = Some (evicted, ?st')"
    using s1 s2 add_tally[OF _ sub(2), of "st\<lparr>st_peers := ?P, st_retained := tally js n (W + R)\<rparr>" n]
    by (simp add: upsert_insert_def Let_def up tot tally_peer_count)
  have ne: "ss_subscriptions s' \<noteq> []" using spec(2) by auto
  have "set_ok js (st_limits st) s \<and> ss_subscriptions s \<noteq> []" if "(q, s) \<in> set ?P" for q s
    using that set_bmap_insert[OF wf, of p s'] spec(1) ne pre unfolding store_pre_def by blast
  moreover have "length ?P \<le> max_peers (st_limits st)"
    using pre length_bmap_insert[OF wf, of p s'] by (auto simp: store_pre_def)
  ultimately have "store_ok js ?st'"
    using pre bmap_wf_insert[OF wf, of p s'] unfolding store_ok_def store_pre_def by simp
  moreover have "get_subscription ?st' p (sub_id sub) = Some sub"
    using spec(2) wf by (simp add: get_subscription_def map_of_bmap_insert)
  ultimately show ?thesis using res by simp
qed

lemma store_entries:
  assumes "store_ok js st" and "map_of (st_peers st) p = Some s"
  shows "set_ok js (st_limits st) s" and "ss_subscriptions s \<noteq> []"
  using assms map_of_SomeD[OF assms(2)] by (auto simp: store_ok_def)

lemma set_ok_encodable: "set_ok js limits s \<Longrightarrow> sub \<in> set (hm_values (ss_subscriptions s)) \<Longrightarrow> encodable js sub"
  by (auto simp: set_ok_def)

lemma touch_evict_pre:
  assumes ok: "store_ok js st" and new: "p \<notin> keys (st_peers st)" and cap: "0 < max_peers (st_limits st)"
  shows "\<exists>st'. (case evict_peers_over_limit (touch_peer p st) of (removed, st0) \<Rightarrow> subtract_all js removed st0) = Some st' \<and>
    store_pre js p st' \<and> st_limits st' = st_limits st"
proof -
  have order: "set (st_peer_order st) = keys (st_peers st)" "distinct (st_peer_order st)"
    and wf: "bmap_wf (st_peers st)" and len: "length (st_peers st) \<le> max_peers (st_limits st)"
    and tal: "st_retained st = tally js (length (st_peers st)) (all_subs (st_peers st))"
    using ok by (auto simp: store_ok_def)
  have q: "st_peer_order (touch_peer p st) = st_peer_order st @ [p]"
    using new order by (auto simp: touch_peer_def filter_id_conv)
  show ?thesis
  proof (cases "length (st_peers st) < max_peers (st_limits st)")
    case True
    then have "evict_peers_over_limit (touch_peer p st) = ([], touch_peer p st)"
      by (cases "st_peer_order st") (simp_all add: evict_peers_over_limit_def q, simp_all add: touch_peer_def)
    then show ?thesis
      using ok True new q by (auto simp: store_pre_def store_ok_def touch_peer_def)
  next
    case False
    then have "st_peer_order st \<noteq> []" using cap len order by auto
    then obtain o1 os where o1: "st_peer_order st = o1 # os" by (cases "st_peer_order st") auto
    then have "o1 \<in> keys (st_peers st)" using order by auto
    then obtain s where s: "map_of (st_peers st) o1 = Some s" by (rule hm_keysE)
    define st0 where "st0 = st\<lparr>st_peer_order := os @ [p], st_peers := hm_remove o1 (st_peers st)\<rparr>"
    have ev: "evict_peers_over_limit (touch_peer p st) = (hm_values (ss_subscriptions s), st0)"
      using False q s o1 by (simp add: evict_peers_over_limit_def touch_peer_def st0_def)
    have M: "all_subs (st_peers st) = values_of s + all_subs (hm_remove o1 (st_peers st))"
      by (rule all_subs_remove[OF wf s])
    have "subtract_all js (hm_values (ss_subscriptions s)) st0 =
        Some (st0\<lparr>st_retained := tally js (length (st_peers st)) (all_subs (hm_remove o1 (st_peers st)))\<rparr>)"
      using subtract_all_tally[of st0 js "length (st_peers st)" "all_subs (st_peers st)" "hm_values (ss_subscriptions s)"]
        tal set_ok_encodable[OF store_entries(1)[OF ok s]] by (simp add: st0_def M)
    moreover have "Suc (length (hm_remove o1 (st_peers st))) = length (st_peers st)"
      using wf \<open>o1 \<in> keys (st_peers st)\<close> by (intro length_hm_remove) auto
    moreover have "store_pre js p (st0\<lparr>st_retained :=
        tally js (length (st_peers st)) (all_subs (hm_remove o1 (st_peers st)))\<rparr>)"
    proof -
      have facts: "distinct (os @ [p])" "set (os @ [p]) = insert p (keys (hm_remove o1 (st_peers st)))"
        using order o1 new by auto
      have sets: "set_ok js (st_limits st) t \<and> ss_subscriptions t \<noteq> []"
        if "(q, t) \<in> set (hm_remove o1 (st_peers st))" for q t
        using that ok unfolding set_hm_remove store_ok_def by blast
      have room: "length (hm_remove o1 (st_peers st)) < max_peers (st_limits st)"
        using \<open>Suc _ = _\<close> len by linarith
      show ?thesis
        unfolding store_pre_def
      proof (intro conjI allI impI exI)
        fix q t
        assume "(q, t) \<in> set (st_peers (st0\<lparr>st_retained :=
          tally js (length (st_peers st)) (all_subs (hm_remove o1 (st_peers st)))\<rparr>))"
        then show "set_ok js (st_limits (st0\<lparr>st_retained :=
            tally js (length (st_peers st)) (all_subs (hm_remove o1 (st_peers st)))\<rparr>)) t"
          and "ss_subscriptions t \<noteq> []"
          using sets[of q t] by (simp_all add: st0_def)
      qed (use facts room bmap_wf_remove[OF wf, of o1] in \<open>simp_all add: st0_def\<close>)
    qed
    ultimately show ?thesis using ev by (simp add: st0_def)
  qed
qed

lemma upsert_ok:
  assumes ok: "store_ok js st"
  shows "\<exists>res st'. upsert js p sub st = Some (res, st') \<and> store_ok js st' \<and> st_limits st' = st_limits st \<and>
    (\<forall>x. res = Inr x \<longrightarrow> get_subscription st' p (sub_id sub) = Some sub) \<and> (\<forall>err. res = Inl err \<longrightarrow> st' = st)"
proof (cases "\<exists>added. max_peers (st_limits st) \<noteq> 0 \<and> max_subscriptions_per_peer (st_limits st) \<noteq> 0 \<and>
    length (sub_filters sub) \<le> max_filters_per_subscription (st_limits st) \<and>
    subscription_contribution js sub = Inr added")
  case True
  then obtain added where lim: "max_peers (st_limits st) \<noteq> 0" "0 < max_subscriptions_per_peer (st_limits st)"
    "length (sub_filters sub) \<le> max_filters_per_subscription (st_limits st)"
    and c: "subscription_contribution js sub = Inr added" by auto
  have ci: "contribution_infallible js sub = Some added" by (simp add: contribution_infallible_def c)
  have "\<exists>st2. (if hm_contains (st_peers st) p then Some (touch_peer p st)
      else (case evict_peers_over_limit (touch_peer p st) of (removed, st') \<Rightarrow> subtract_all js removed st')) = Some st2 \<and>
    store_pre js p st2 \<and> st_limits st2 = st_limits st"
  proof (cases "p \<in> keys (st_peers st)")
    case True
    then have "store_pre js p (touch_peer p st)" using ok by (auto simp: store_pre_def store_ok_def touch_peer_def)
    then show ?thesis using True by (simp add: touch_peer_def)
  next
    case False
    then show ?thesis using touch_evict_pre[OF ok False] lim(1) by simp
  qed
  then obtain st2 where st2: "(if hm_contains (st_peers st) p then Some (touch_peer p st)
      else (case evict_peers_over_limit (touch_peer p st) of (removed, st') \<Rightarrow> subtract_all js removed st')) = Some st2"
    and pre: "store_pre js p st2" "st_limits st2 = st_limits st" by blast
  obtain evicted st3 where st3: "upsert_insert js p sub added st2 = Some (evicted, st3)" "store_ok js st3"
    "st_limits st3 = st_limits st2" "get_subscription st3 p (sub_id sub) = Some sub"
    using upsert_insert_ok[OF pre(1) _ _ ci] lim pre(2) by auto
  have "upsert js p sub st = Some (Inr evicted, st3)"
    using lim c st2 st3(1) by (simp add: upsert_def Let_def)
  then show ?thesis using st3 pre(2) by simp
next
  case False
  then have "\<exists>err. upsert js p sub st = Some (Inl err, st)"
    by (auto simp: upsert_def split: sum.splits)
  then show ?thesis using ok by auto
qed

text \<open>
  Removing a peer. The precondition is weaker than the invariant: the peer's set may be empty, as it
  is when \<open>remove\<close> has just taken its last subscription.
\<close>

lemma remove_peer_ok:
  assumes ok: "bmap_wf (st_peers st)" "distinct (st_peer_order st)" "set (st_peer_order st) = keys (st_peers st)"
      "length (st_peers st) \<le> max_peers (st_limits st)"
      "st_retained st = tally js n (all_subs (st_peers st))"
    and sets: "\<forall>q s. (q, s) \<in> set (st_peers st) \<longrightarrow> set_ok js (st_limits st) s \<and> (q = p \<or> ss_subscriptions s \<noteq> [])"
  shows "\<exists>removed st'. remove_peer js p st = Some (removed, st') \<and> store_ok js st' \<and>
    st_limits st' = st_limits st \<and> p \<notin> keys (st_peers st')"
proof -
  define st0 where "st0 = st\<lparr>st_peer_order := filter (\<lambda>q. q \<noteq> p) (st_peer_order st),
    st_peers := hm_remove p (st_peers st)\<rparr>"
  define removed where "removed =
    (case map_of (st_peers st) p of None \<Rightarrow> [] | Some s \<Rightarrow> hm_values (ss_subscriptions s))"
  have M: "all_subs (st_peers st) = mset removed + all_subs (hm_remove p (st_peers st))"
    using all_subs_remove[OF ok(1)] by (cases "map_of (st_peers st) p") (simp_all add: removed_def delete_id)
  have "\<forall>sub \<in> set removed. encodable js sub"
  proof (cases "map_of (st_peers st) p")
    case (Some s)
    then have "set_ok js (st_limits st) s" using sets map_of_SomeD[OF Some] by blast
    then show ?thesis using set_ok_encodable Some by (simp add: removed_def)
  qed (simp add: removed_def)
  then have sub: "subtract_all js removed st0 =
      Some (st0\<lparr>st_retained := tally js n (all_subs (hm_remove p (st_peers st)))\<rparr>)"
    using subtract_all_tally[of st0 js n "all_subs (st_peers st)" removed] ok(5) by (simp add: st0_def M)
  let ?st' = "st0\<lparr>st_retained := tally js (length (hm_remove p (st_peers st))) (all_subs (hm_remove p (st_peers st)))\<rparr>"
  have res: "remove_peer js p st = Some (removed, ?st')"
    using sub unfolding remove_peer_def Let_def removed_def[symmetric] st0_def[symmetric]
    by (simp add: tally_peer_count) (simp add: st0_def)
  have "set_ok js (st_limits st) s \<and> ss_subscriptions s \<noteq> []" if "(q, s) \<in> set (hm_remove p (st_peers st))" for q s
    using that sets by (auto simp: set_hm_remove)
  moreover have "length (hm_remove p (st_peers st)) \<le> max_peers (st_limits st)"
    using ok(4) length_hm_remove_le[of p "st_peers st"] by linarith
  ultimately have "store_ok js ?st'"
    using ok bmap_wf_remove[OF ok(1), of p] unfolding store_ok_def st0_def by auto
  then show ?thesis using res by (simp add: st0_def)
qed

lemma set_remove_ok:
  assumes ok: "set_ok js limits s" and r: "set_remove i s = (removed, s')"
  shows "set_ok js limits s'" and "values_of s = mset_opt removed + values_of s'"
proof -
  let ?m = "ss_subscriptions s"
  have wf: "bmap_wf ?m" using ok by (simp add: set_ok_def)
  have s': "removed = map_of ?m i" "ss_subscriptions s' = hm_remove i ?m" "ss_order s' = filter (\<lambda>j. j \<noteq> i) (ss_order s)"
    using r by (auto simp: set_remove_def)
  show "set_ok js limits s'"
    using ok bmap_wf_remove[OF wf, of i] length_hm_remove_le[of i ?m]
    unfolding set_ok_def s' by (auto simp: set_hm_remove)
  show "values_of s = mset_opt removed + values_of s'"
    using sum_hm_remove[of ?m i _ "\<lambda>kv. {#snd kv#}"] wf
    by (cases "map_of ?m i") (simp_all add: s' sum_list_mset_single delete_id)
qed

lemma remove_ok:
  assumes ok: "store_ok js st"
  shows "\<exists>removed st'. remove js p i st = Some (removed, st') \<and> store_ok js st' \<and> st_limits st' = st_limits st"
proof (cases "map_of (st_peers st) p")
  case None
  then show ?thesis using ok by (simp add: remove_def subtract_opt_def)
next
  case (Some s)
  obtain removed s' where r: "set_remove i s = (removed, s')" by force
  note s' = set_remove_ok[OF store_entries(1)[OF ok Some] r]
  have wf: "bmap_wf (st_peers st)" using ok by (simp add: store_ok_def)
  let ?P = "bmap_insert p s' (st_peers st)"
  obtain R where R: "all_subs (st_peers st) = values_of s + R" "all_subs ?P = values_of s' + R"
    using all_subs_replace[OF wf, of p] Some by auto
  have "\<forall>sub. removed = Some sub \<longrightarrow> encodable js sub"
    using s'(2) set_ok_encodable[OF store_entries(1)[OF ok Some]] by (auto simp flip: set_mset_mset)
  then have sub: "subtract_opt js removed (st\<lparr>st_peers := ?P\<rparr>) =
      Some (st\<lparr>st_peers := ?P, st_retained := tally js (length (st_peers st)) (all_subs ?P)\<rparr>)"
    using subtract_opt_tally[of "st\<lparr>st_peers := ?P\<rparr>" js "length (st_peers st)" "mset_opt removed + (values_of s' + R)" removed]
      ok R s'(2) by (simp add: store_ok_def add.assoc)
  let ?st2 = "st\<lparr>st_peers := ?P, st_retained := tally js (length (st_peers st)) (all_subs ?P)\<rparr>"
  have len: "length ?P = length (st_peers st)" "keys ?P = keys (st_peers st)"
    using length_bmap_insert[OF wf, of p s'] hm_get_in_keys[OF Some] by auto
  have sets: "set_ok js (st_limits st) t \<and> (q = p \<and> t = s' \<or> ss_subscriptions t \<noteq> [])" if "(q, t) \<in> set ?P" for q t
    using that set_bmap_insert[OF wf, of p s'] s'(1) ok unfolding store_ok_def by blast
  have base: "bmap_wf ?P" "distinct (st_peer_order st)" "set (st_peer_order st) = keys ?P"
    "length ?P \<le> max_peers (st_limits st)"
    using ok len bmap_wf_insert[OF wf, of p s'] by (auto simp: store_ok_def)
  have get: "map_of ?P p = Some s'" using wf by (simp add: map_of_bmap_insert)
  show ?thesis
  proof (cases "set_is_empty s'")
    case True
    have "\<exists>rm st'. remove_peer js p ?st2 = Some (rm, st') \<and> store_ok js st' \<and> st_limits st' = st_limits ?st2 \<and>
        p \<notin> keys (st_peers st')"
      using base sets by (intro remove_peer_ok[where n = "length (st_peers st)"]) auto
    then show ?thesis using True Some r sub get by (auto simp: remove_def)
  next
    case False
    then have "store_ok js ?st2"
      using base sets len by (auto simp: store_ok_def set_is_empty_def)
    then show ?thesis using False Some r sub get by (simp add: remove_def)
  qed
qed

end
