(* ===== verification/Subscription_Store.thy ===== *)
theory Subscription_Store
  imports Subscription_Inv Nostr_Instance
begin

text \<open>
  The subscription store in operation: any sequence of requests from peers, and what holds of the
  store after it.
\<close>

section \<open>Runs\<close>

datatype sub_op = Upsert source_id subscription | Remove source_id string | RemovePeer source_id
  | Client source_id client_message

fun sub_apply :: "sub_json \<Rightarrow> sub_op \<Rightarrow> sub_store \<Rightarrow> sub_store option" where
  "sub_apply js (Upsert p sub) st = map_option snd (upsert js p sub st)"
| "sub_apply js (Remove p i) st = map_option snd (remove js p i st)"
| "sub_apply js (RemovePeer p) st = map_option snd (remove_peer js p st)"
| "sub_apply js (Client p msg) st = map_option snd (apply_client_message js p msg st)"

fun sub_run :: "sub_json \<Rightarrow> sub_op list \<Rightarrow> sub_store \<Rightarrow> sub_store option" where
  "sub_run js [] st = Some st"
| "sub_run js (x # xs) st = do { st' \<leftarrow> sub_apply js x st; sub_run js xs st' }"

lemma store_ok_new: "store_ok js (store_new limits)"
  by (simp add: store_ok_def store_new_def tally_def all_subs_def)

lemma remove_peer_store_ok:
  assumes "store_ok js st"
  shows "\<exists>removed st'. remove_peer js p st = Some (removed, st') \<and> store_ok js st' \<and> st_limits st' = st_limits st"
proof -
  have "\<exists>removed st'. remove_peer js p st = Some (removed, st') \<and> store_ok js st' \<and>
      st_limits st' = st_limits st \<and> p \<notin> keys (st_peers st')"
    using assms by (intro remove_peer_ok[where n = "length (st_peers st)"]) (auto simp: store_ok_def)
  then show ?thesis by blast
qed

lemma sub_apply_ok:
  assumes "store_ok js st"
  shows "\<exists>st'. sub_apply js x st = Some st' \<and> store_ok js st' \<and> st_limits st' = st_limits st"
proof (cases x)
  case (Upsert p sub)
  then show ?thesis using upsert_ok[OF assms, of p sub] by auto
next
  case (Remove p i)
  then show ?thesis using remove_ok[OF assms, of p i] by auto
next
  case (RemovePeer p)
  then show ?thesis using remove_peer_store_ok[OF assms, of p] by auto
next
  case (Client p msg)
  then show ?thesis
  proof (cases msg)
    case (Req i fs)
    then show ?thesis using upsert_ok[OF assms, of p "\<lparr>sub_id = i, sub_filters = fs\<rparr>"] Client by auto
  next
    case (Close i)
    then show ?thesis using remove_ok[OF assms, of p i] Client by auto
  qed (use assms Client in auto)
qed

lemma sub_run_ok:
  "store_ok js st \<Longrightarrow> \<exists>st'. sub_run js xs st = Some st' \<and> store_ok js st' \<and> st_limits st' = st_limits st"
proof (induction xs arbitrary: st)
  case (Cons x xs)
  obtain st1 where "sub_apply js x st = Some st1" "store_ok js st1" "st_limits st1 = st_limits st"
    using sub_apply_ok[OF Cons.prems] by blast
  then show ?case using Cons.IH[of st1] by simp
qed simp

lemma size_all_subs: "size (all_subs peers) = sum_list (map (\<lambda>s. length (ss_subscriptions s)) (hm_values peers))"
  by (induction peers) (simp_all add: all_subs_def)

lemma size_of_filters: "encodable js sub \<Longrightarrow> co_filter_count (size_of js sub) = length (sub_filters sub)"
  by (auto simp: encodable_def size_of_def contribution_infallible_def subscription_contribution_def
      split: option.splits sum.splits)

lemma mem_all_subs: "x \<in># all_subs peers \<longleftrightarrow> (\<exists>ps \<in> set peers. x \<in> set (hm_values (ss_subscriptions (snd ps))))"
  by (induction peers) (simp_all add: all_subs_def)

text \<open>
  C17: whatever requests peers send, the subscription store never panics and stays within its limits of peers,
  subscriptions per peer and filters per subscription; and its running measurements are at every moment the
  number of peers, the number of subscriptions and the sums of the sizes of what is stored.
\<close>

theorem subscription_store_accounting:
  "\<exists>st. sub_run js ops (store_new limits) = Some st \<and>
    length (st_peers st) \<le> max_peers limits \<and>
    list_all (\<lambda>(p, s). length (ss_subscriptions s) \<le> max_subscriptions_per_peer limits \<and>
      list_all (\<lambda>(i, sub). sub_id sub = i \<and> length (sub_filters sub) \<le> max_filters_per_subscription limits)
        (ss_subscriptions s)) (st_peers st) \<and>
    st_retained st = \<lparr>sn_peer_count = length (st_peers st), sn_subscription_count = subscription_count st,
      sn_filter_count = (\<Sum>sub \<in># all_subs (st_peers st). length (sub_filters sub)),
      sn_encoded_filter_bytes = (\<Sum>sub \<in># all_subs (st_peers st). co_encoded_filter_bytes (size_of js sub)),
      sn_encoded_req_bytes = (\<Sum>sub \<in># all_subs (st_peers st). co_encoded_req_bytes (size_of js sub))\<rparr>"
proof -
  obtain st where st: "sub_run js ops (store_new limits) = Some st" "store_ok js st" "st_limits st = limits"
    using sub_run_ok[OF store_ok_new, of js ops limits] by (auto simp: store_new_def)
  have "co_filter_count (size_of js x) = length (sub_filters x)" if x: "x \<in># all_subs (st_peers st)" for x
  proof -
    obtain ps where "ps \<in> set (st_peers st)" "x \<in> set (hm_values (ss_subscriptions (snd ps)))"
      using x mem_all_subs by blast
    moreover from this(1) have "set_ok js limits (snd ps)"
      using st(2,3) unfolding store_ok_def by (metis surjective_pairing)
    ultimately show ?thesis using set_ok_encodable size_of_filters by blast
  qed
  then have "(\<Sum>sub \<in># all_subs (st_peers st). co_filter_count (size_of js sub)) =
      (\<Sum>sub \<in># all_subs (st_peers st). length (sub_filters sub))"
    by (metis (no_types, lifting) image_mset_cong)
  moreover have "st_retained st = tally js (length (st_peers st)) (all_subs (st_peers st))"
    using st(2) by (simp add: store_ok_def)
  moreover have "list_all (\<lambda>(p, s). length (ss_subscriptions s) \<le> max_subscriptions_per_peer limits \<and>
      list_all (\<lambda>(i, sub). sub_id sub = i \<and> length (sub_filters sub) \<le> max_filters_per_subscription limits)
        (ss_subscriptions s)) (st_peers st)"
    using st(2,3) unfolding list_all_iff store_ok_def set_ok_def by blast
  ultimately show ?thesis
    using st by (intro exI[of _ st]) (simp add: store_ok_def tally_def size_all_subs subscription_count_def)
qed

lemma run_store_ok:
  assumes "sub_run js ops (store_new limits) = Some st"
  shows "store_ok js st"
  using sub_run_ok[OF store_ok_new, of js ops limits] assms by auto

lemma remove_forgets:
  assumes ok: "store_ok js st" and r: "remove js p i st = Some (removed, st')"
  shows "get_subscription st' p i = None"
proof (cases "map_of (st_peers st) p")
  case None
  then show ?thesis using r by (simp add: remove_def subtract_opt_def get_subscription_def)
next
  case (Some s)
  have wf: "bmap_wf (st_peers st)" using ok by (simp add: store_ok_def)
  obtain rm s' where rm: "set_remove i s = (rm, s')" by force
  have "ss_subscriptions s' = hm_remove i (ss_subscriptions s)" using rm by (auto simp: set_remove_def)
  then have s': "map_of (ss_subscriptions s') i = None" by simp
  have sub_peers: "st_peers st2 = st_peers st1" if "subtract_opt js x st1 = Some st2" for x st1 st2
    using that by (auto simp: subtract_opt_def subtract_retained_def Let_def split: option.splits bind_splits)
  have all_peers: "st_peers st2 = st_peers st1" if "subtract_all js xs st1 = Some st2" for xs st1 st2
    using that by (induction xs arbitrary: st1)
      (auto simp: subtract_retained_def Let_def split: bind_splits)
  obtain st2 where st2: "subtract_opt js rm (st\<lparr>st_peers := bmap_insert p s' (st_peers st)\<rparr>) = Some st2"
    and rest: "(if set_is_empty s' then map_option snd (remove_peer js p st2) else Some st2) = Some st'"
    using r Some rm wf by (auto simp: remove_def map_of_bmap_insert dest: sub_peers split: bind_splits)
  have "map_of (st_peers st2) p = Some s'" using sub_peers[OF st2] wf by (simp add: map_of_bmap_insert)
  then have "map_of (st_peers st') p = Some s' \<or> map_of (st_peers st') p = None"
    using rest by (auto simp: remove_peer_def Let_def set_hm_remove dest!: all_peers split: if_splits bind_splits)
  then show ?thesis using s' by (auto simp: get_subscription_def)
qed

text \<open>
  An accepted \<open>REQ\<close> is in force with exactly its filters, a refused one changes nothing, and after
  a \<open>CLOSE\<close> the subscription is gone, in every state the store can reach.
\<close>

theorem subscribe_then_close:
  assumes "sub_run js ops (store_new limits) = Some st"
  shows "\<exists>res st1 st2. apply_client_message js p (Req i fs) st = Some (res, st1) \<and>
    (case res of Inl err \<Rightarrow> st1 = st
     | Inr u \<Rightarrow> u = UpdSubscribed \<and> get_subscription st1 p i = Some \<lparr>sub_id = i, sub_filters = fs\<rparr>) \<and>
    apply_client_message js p (Close i) st1 = Some (Inr UpdClosed, st2) \<and> get_subscription st2 p i = None"
proof -
  obtain res st1 where up: "upsert js p \<lparr>sub_id = i, sub_filters = fs\<rparr> st = Some (res, st1)" "store_ok js st1"
    "\<forall>x. res = Inr x \<longrightarrow> get_subscription st1 p i = Some \<lparr>sub_id = i, sub_filters = fs\<rparr>"
    "\<forall>err. res = Inl err \<longrightarrow> st1 = st"
    using upsert_ok[OF run_store_ok[OF assms], of p "\<lparr>sub_id = i, sub_filters = fs\<rparr>"] by auto
  obtain removed st2 where rm: "remove js p i st1 = Some (removed, st2)" using remove_ok[OF up(2), of p i] by blast
  show ?thesis
    using up rm remove_forgets[OF up(2) rm] by (cases res) auto
qed

text \<open>
  The views of the store agree. A peer is interested in an event exactly when one of its
  subscriptions matches; the one-pass iteration lists exactly these pairs; and delivery is skipped
  for all other peers under both strategies.
\<close>

theorem interest_views_agree:
  assumes "sub_run js ops (store_new limits) = Some st"
  shows "(p \<in> set (interested_peers lib st v) \<longleftrightarrow> peer_interest lib st p v = Subscribed) \<and>
    (peer_interest lib st p v = Subscribed \<longleftrightarrow> matching_subscriptions lib st p v \<noteq> []) \<and>
    ((p, sub) \<in> set (matching_peer_subscriptions lib st v) \<longleftrightarrow> sub \<in> set (matching_subscriptions lib st p v)) \<and>
    (action_for_event lib strategy st p v \<noteq> Skip \<longleftrightarrow> peer_interest lib st p v = Subscribed)"
proof -
  have "hm_wf (st_peers st)" using run_store_ok[OF assms] by (simp add: store_ok_def)
  then have get: "map_of (st_peers st) p = Some s \<longleftrightarrow> (p, s) \<in> set (st_peers st)" for s by (rule hm_get_iff)
  have view1: "p \<in> set (interested_peers lib st v) \<longleftrightarrow>
      (\<exists>s. map_of (st_peers st) p = Some s \<and> list_ex (\<lambda>sub. sub_matches lib sub v) (hm_values (ss_subscriptions s)))"
    unfolding get interested_peers_def by (force simp del: list_ex_iff)
  have view2: "(p, sub) \<in> set (matching_peer_subscriptions lib st v) \<longleftrightarrow>
      (\<exists>s. map_of (st_peers st) p = Some s \<and>
        sub \<in> set (filter (\<lambda>sub. sub_matches lib sub v) (hm_values (ss_subscriptions s))))"
  proof -
    let ?f = "\<lambda>s. filter (\<lambda>sub. sub_matches lib sub v) (hm_values (ss_subscriptions s))"
    have "(p, sub) \<in> set (concat (map (\<lambda>(p, s). map (Pair p) (?f s)) m)) \<longleftrightarrow>
        (\<exists>s. (p, s) \<in> set m \<and> sub \<in> set (?f s))" for m
      by (induction m) (auto simp del: set_filter set_map simp: set_map[of "Pair _"])
    then show ?thesis unfolding get matching_peer_subscriptions_def .
  qed
  show ?thesis
    unfolding view1 view2
    by (cases "map_of (st_peers st) p"; cases strategy)
      (auto simp: peer_interest_def matching_subscriptions_def peer_subscriptions_def filter_empty_conv
        list_ex_iff action_for_event_def)
qed

section \<open>Instances\<close>

definition demo_js :: sub_json where
  "demo_js = \<lparr>filter_json = (\<lambda>f. Some ''{}''), req_json = (\<lambda>i fs. Some (''REQ'' @ i))\<rparr>"

definition demo_ops :: "sub_op list" where
  "demo_ops = [Client ''peer'' (Req ''sub'' [filter_new]), Upsert ''other'' \<lparr>sub_id = ''x'', sub_filters = []\<rparr>]"

definition demo_store :: sub_store where
  "demo_store = the (sub_run demo_js demo_ops (store_new default_limits))"

lemma demo_store_run: "sub_run demo_js demo_ops (store_new default_limits) = Some demo_store"
  using sub_run_ok[OF store_ok_new, of demo_js demo_ops default_limits] by (auto simp: demo_store_def)

theorem subscribe_then_close_witness:
  "\<exists>res st1 st2. apply_client_message demo_js ''peer'' (Req ''sub2'' []) demo_store = Some (res, st1) \<and>
     apply_client_message demo_js ''peer'' (Close ''sub2'') st1 = Some (Inr UpdClosed, st2) \<and>
     get_subscription st2 ''peer'' ''sub2'' = None"
  using subscribe_then_close[OF demo_store_run] by blast

theorem interest_views_agree_witness:
  "''peer'' \<in> set (interested_peers demo_lib demo_store (VerifiedEvent (demo_event 7 1 1))) \<longleftrightarrow>
     action_for_event demo_lib PushSubscribed demo_store ''peer'' (VerifiedEvent (demo_event 7 1 1)) \<noteq> Skip"
  using interest_views_agree[OF demo_store_run, of "''peer''" demo_lib "VerifiedEvent (demo_event 7 1 1)" _ PushSubscribed]
  by blast

end
