(* ===== verification/Retained_Inv.thy ===== *)
theory Retained_Inv
  imports Retained
begin

text \<open>
  The invariant of the retained store and its preservation: the entries are strictly ordered
  by \<open>event_supersedes\<close>, with distinct identifiers and one event per coordinate, each admitted by the policy and
  measured exactly, and the byte count is exact and within the snapshot limit.
\<close>

abbreviation rank :: "retained_entry \<Rightarrow> int \<times> event_id" where
  "rank x \<equiv> newest_first (entry_event x)"

definition entry_ok :: "nostr_lib \<Rightarrow> event_retention_policy \<Rightarrow> retained_entry \<Rightarrow> bool" where
  "entry_ok lib policy x \<longleftrightarrow>
     rp_accepts lib policy (fst x) \<and> map_option length (event_json lib (entry_event x)) = Some (snd x) \<and>
     snd x \<le> MAX_RETAINED_EVENT_BYTES"

definition one_per_coordinate :: "nostr_lib \<Rightarrow> retained_entry list \<Rightarrow> bool" where
  "one_per_coordinate lib evs \<longleftrightarrow>
     (\<forall>x \<in> set evs. \<forall>y \<in> set evs. event_coordinate lib (entry_event x) \<noteq> None \<longrightarrow>
        event_coordinate lib (entry_event x) = event_coordinate lib (entry_event y) \<longrightarrow> x = y)"

definition events_ok :: "nostr_lib \<Rightarrow> event_retention_policy \<Rightarrow> retained_entry list \<Rightarrow> bool" where
  "events_ok lib policy evs \<longleftrightarrow>
     sorted (map rank evs) \<and> distinct (map entry_id evs) \<and> one_per_coordinate lib evs \<and>
     (\<forall>x \<in> set evs. entry_ok lib policy x)"

definition store_fits :: "event_retention_policy \<Rightarrow> retained_entry list \<Rightarrow> bool" where
  "store_fits policy evs \<longleftrightarrow>
     length evs \<le> rp_max_events policy \<and> entries_bytes evs + 128 \<le> MAX_RETAINED_SNAPSHOT_BYTES"

definition retained_ok :: "nostr_lib \<Rightarrow> retained \<Rightarrow> bool" where
  "retained_ok lib s \<longleftrightarrow>
     rp_max_events (re_policy s) \<le> MAX_RETAINED_EVENTS \<and> events_ok lib (re_policy s) (re_events s) \<and>
     re_bytes s = entries_bytes (re_events s) \<and> store_fits (re_policy s) (re_events s)"

section \<open>The replacement order\<close>

lemma supersedes_rank: "event_supersedes a b \<longleftrightarrow> newest_first a < newest_first b"
  by (auto simp: event_supersedes_def newest_first_def word_less_def word_uint_eq_iff)

lemma newest_first_inj: "newest_first a = newest_first b \<Longrightarrow> ev_id a = ev_id b"
  by (simp add: newest_first_def)

lemma supersedes_total:
  "ev_id a \<noteq> ev_id b \<Longrightarrow> event_supersedes a b \<or> event_supersedes b a"
  using newest_first_inj[of a b] linorder_less_linear[of "newest_first a" "newest_first b"]
  by (auto simp: supersedes_rank)

lemma sorted_strict:
  "sorted (map rank evs) \<Longrightarrow> distinct (map entry_id evs) \<Longrightarrow>
     sorted_wrt (\<lambda>x y. event_supersedes (entry_event x) (entry_event y)) evs"
proof (induction evs)
  case (Cons x xs)
  have "event_supersedes (entry_event x) (entry_event y)" if "y \<in> set xs" for y
  proof -
    have "rank x \<le> rank y" and "entry_id x \<noteq> entry_id y" using Cons.prems that by force+
    then show ?thesis
      unfolding supersedes_rank using newest_first_inj[of "entry_event x" "entry_event y"] by fastforce
  qed
  with Cons show ?case by simp
qed simp

section \<open>The eviction loop\<close>

lemma entries_bytes_snoc [simp]: "entries_bytes (xs @ [x]) = entries_bytes xs + (snd x + 1)"
  by (simp add: entries_bytes_def)

lemma entries_bytes_Nil [simp]: "entries_bytes [] = 0"
  by (simp add: entries_bytes_def)

lemma trim_fits:
  "length evs \<le> n \<Longrightarrow> bytes + 128 \<le> MAX_RETAINED_SNAPSHOT_BYTES \<Longrightarrow>
     trim_retained n evs bytes = Some (evs, bytes)"
  by (simp add: trim_retained.simps)

lemma trim_prefix:
  "\<exists>k. trim_retained n evs (entries_bytes evs) = Some (take k evs, entries_bytes (take k evs)) \<and>
     length (take k evs) \<le> n \<and> entries_bytes (take k evs) + 128 \<le> MAX_RETAINED_SNAPSHOT_BYTES"
proof (induction evs rule: rev_induct)
  case Nil
  show ?case by (simp add: trim_retained.simps MAX_RETAINED_SNAPSHOT_BYTES_def)
next
  case (snoc x xs)
  show ?case
  proof (cases "length (xs @ [x]) > n \<or> entries_bytes (xs @ [x]) + 128 > MAX_RETAINED_SNAPSHOT_BYTES")
    case True
    then have "trim_retained n (xs @ [x]) (entries_bytes (xs @ [x])) = trim_retained n xs (entries_bytes xs)"
      by (subst trim_retained.simps) (simp add: butlast_append)
    moreover obtain k where "trim_retained n xs (entries_bytes xs) = Some (take k xs, entries_bytes (take k xs))"
      and "length (take k xs) \<le> n" and "entries_bytes (take k xs) + 128 \<le> MAX_RETAINED_SNAPSHOT_BYTES"
      using snoc.IH by blast
    moreover have "take (min k (length xs)) (xs @ [x]) = take k xs" by (simp add: min_def)
    ultimately show ?thesis by (intro exI[of _ "min k (length xs)"]) simp
  next
    case False
    then have "trim_retained n (xs @ [x]) (entries_bytes (xs @ [x])) = Some (xs @ [x], entries_bytes (xs @ [x]))"
      by (intro trim_fits) simp_all
    with False show ?thesis by (intro exI[of _ "Suc (length xs)"]) simp
  qed
qed

section \<open>Preservation\<close>

lemma events_ok_subset:
  assumes "events_ok lib policy evs" and "sorted (map rank evs')" and "distinct (map entry_id evs')"
    and "set evs' \<subseteq> set evs"
  shows "events_ok lib policy evs'"
  using assms unfolding events_ok_def one_per_coordinate_def by (meson subsetD)

lemma events_ok_filter: "events_ok lib policy evs \<Longrightarrow> events_ok lib policy (filter P evs)"
  by (rule events_ok_subset) (auto simp: events_ok_def sorted_filter distinct_map_filter)

lemma events_ok_take: "events_ok lib policy evs \<Longrightarrow> events_ok lib policy (take k evs)"
  by (rule events_ok_subset) (auto simp: events_ok_def take_map sorted_wrt_take dest: in_set_takeD
    simp flip: take_map)

definition kept_entries :: "nostr_lib \<Rightarrow> verified_event \<Rightarrow> u64 \<Rightarrow> retained_entry list \<Rightarrow> retained_entry list" where
  "kept_entries lib v now evs =
     filter (\<lambda>old. retained_event_is_current (entry_event old) now \<and>
       (event_coordinate lib (as_event v) = None \<or>
        event_coordinate lib (entry_event old) \<noteq> event_coordinate lib (as_event v))) evs"

lemma events_ok_admit:
  assumes ok: "events_ok lib policy evs" and entry: "entry_ok lib policy (v, n)"
    and fresh: "ev_id (as_event v) \<notin> entry_id ` set evs"
  shows "events_ok lib policy (sort_key rank (kept_entries lib v now evs @ [(v, n)]))"
proof -
  let ?kept = "kept_entries lib v now evs"
  have kept: "events_ok lib policy ?kept" unfolding kept_entries_def by (rule events_ok_filter[OF ok])
  have "distinct (map entry_id (?kept @ [(v, n)]))"
    using kept fresh by (auto simp: events_ok_def kept_entries_def)
  then have "distinct (map entry_id (sort_key rank (?kept @ [(v, n)])))"
    by (simp only: distinct_map distinct_sort set_sort)
  moreover have "one_per_coordinate lib (sort_key rank (?kept @ [(v, n)]))"
  proof -
    have "event_coordinate lib (entry_event x) \<noteq> event_coordinate lib (as_event v)"
      if "x \<in> set ?kept" and "event_coordinate lib (as_event v) \<noteq> None" for x
      using that by (simp add: kept_entries_def)
    then show ?thesis using kept unfolding events_ok_def one_per_coordinate_def set_sort
      by (metis (mono_tags, lifting) fst_conv list.set(1,2) Un_iff insert_iff empty_iff set_append)
  qed
  ultimately show ?thesis using kept entry by (auto simp: events_ok_def)
qed

text \<open>What an insertion does: it refuses and changes nothing, or keeps a prefix of the new order.\<close>

definition admissible :: "nostr_lib \<Rightarrow> event_retention_policy \<Rightarrow> u64 \<Rightarrow> verified_event \<Rightarrow> nat \<Rightarrow> bool" where
  "admissible lib policy now v n \<longleftrightarrow>
     entry_ok lib policy (v, n) \<and> retained_event_is_current (as_event v) now"

definition outranked :: "nostr_lib \<Rightarrow> verified_event \<Rightarrow> retained_entry list \<Rightarrow> bool" where
  "outranked lib v evs \<longleftrightarrow>
     event_coordinate lib (as_event v) \<noteq> None \<and>
     (\<exists>old \<in> set evs. event_coordinate lib (entry_event old) = event_coordinate lib (as_event v) \<and>
        \<not> event_supersedes (as_event v) (entry_event old))"

lemma re_insert_refuses:
  assumes "(\<forall>n. \<not> admissible lib (re_policy s) now v n) \<or> ev_id (as_event v) \<in> entry_id ` set (re_events s) \<or>
    outranked lib v (re_events s)"
  shows "re_insert lib v now s = Some (False, s)"
  using assms
  by (cases "event_json lib (as_event v)")
    (auto simp: re_insert_def Let_def admissible_def entry_ok_def outranked_def list_ex_iff image_iff)

lemma re_insert_admits:
  assumes "admissible lib (re_policy s) now v n" and "ev_id (as_event v) \<notin> entry_id ` set (re_events s)"
    and "\<not> outranked lib v (re_events s)"
  shows "re_insert lib v now s = re_admit lib v n now s"
  using assms
  by (cases "event_json lib (as_event v)")
    (auto simp: re_insert_def Let_def admissible_def entry_ok_def outranked_def list_ex_iff image_iff)

lemma re_admit_prefix:
  "\<exists>k. let evs = take k (sort_key rank (kept_entries lib v now (re_events s) @ [(v, n)])) in
     re_admit lib v n now s =
       Some (list_ex (\<lambda>x. entry_id x = ev_id (as_event v)) evs, s\<lparr>re_events := evs, re_bytes := entries_bytes evs\<rparr>) \<and>
     store_fits (re_policy s) evs"
proof -
  let ?o = "sort_key rank (kept_entries lib v now (re_events s) @ [(v, n)])"
  obtain k where "trim_retained (rp_max_events (re_policy s)) ?o (entries_bytes ?o) =
      Some (take k ?o, entries_bytes (take k ?o))" and "store_fits (re_policy s) (take k ?o)"
    using trim_prefix unfolding store_fits_def by blast
  then show ?thesis
    by (intro exI[of _ k]) (simp add: re_admit_def kept_entries_def Let_def)
qed

lemma re_insert_ok:
  assumes ok: "retained_ok lib s"
  shows "\<exists>b s'. re_insert lib v now s = Some (b, s') \<and> retained_ok lib s' \<and> re_policy s' = re_policy s \<and>
     fst ` set (re_events s') \<subseteq> insert v (fst ` set (re_events s)) \<and>
     (b \<longleftrightarrow> v \<in> fst ` set (re_events s') \<and> v \<notin> fst ` set (re_events s))"
proof (cases "(\<forall>n. \<not> admissible lib (re_policy s) now v n) \<or> ev_id (as_event v) \<in> entry_id ` set (re_events s) \<or>
    outranked lib v (re_events s)")
  case True
  then show ?thesis using re_insert_refuses[OF True] ok by auto
next
  case False
  then obtain n where adm: "admissible lib (re_policy s) now v n"
    and fresh: "ev_id (as_event v) \<notin> entry_id ` set (re_events s)"
    and nout: "\<not> outranked lib v (re_events s)" by blast
  let ?o = "sort_key rank (kept_entries lib v now (re_events s) @ [(v, n)])"
  have oo: "events_ok lib (re_policy s) ?o"
    using ok adm fresh by (intro events_ok_admit) (auto simp: retained_ok_def admissible_def)
  obtain k where res: "re_insert lib v now s = Some (list_ex (\<lambda>x. entry_id x = ev_id (as_event v)) (take k ?o),
      s\<lparr>re_events := take k ?o, re_bytes := entries_bytes (take k ?o)\<rparr>)"
    and fits: "store_fits (re_policy s) (take k ?o)"
    using re_admit_prefix[of lib v now s n] re_insert_admits[OF adm fresh nout] by (auto simp: Let_def)
  have sub: "set (take k ?o) \<subseteq> insert (v, n) (set (re_events s))"
    by (auto simp: kept_entries_def dest: in_set_takeD)
  have v: "list_ex (\<lambda>x. entry_id x = ev_id (as_event v)) (take k ?o) \<longleftrightarrow> v \<in> fst ` set (take k ?o)"
  proof
    assume "list_ex (\<lambda>x. entry_id x = ev_id (as_event v)) (take k ?o)"
    then obtain x where x: "x \<in> set (take k ?o)" and id: "entry_id x = ev_id (as_event v)"
      unfolding list_ex_iff by blast
    have "x \<notin> set (re_events s)" using fresh id by (metis imageI)
    with subsetD[OF sub x] have "x = (v, n)" by blast
    with imageI[OF x, of fst] show "v \<in> fst ` set (take k ?o)" by simp
  qed (auto simp: list_ex_iff)
  have "v \<notin> fst ` set (re_events s)" using fresh by (auto simp del: split_paired_Ex)
  moreover have "fst ` set (take k ?o) \<subseteq> insert v (fst ` set (re_events s))"
    using image_mono[OF sub, of fst] by (simp only: image_insert fst_conv)
  moreover have "retained_ok lib (s\<lparr>re_events := take k ?o, re_bytes := entries_bytes (take k ?o)\<rparr>)"
    using ok oo fits by (simp add: retained_ok_def events_ok_take)
  ultimately show ?thesis using res v by simp
qed

end
