(* ===== verification/Event_Bus.thy ===== *)
theory Event_Bus
  imports Retained_Inv
begin

text \<open>
  The trait \<open>EventBus\<close> of \<open>crates/nostr-pubsub/src/lib.rs\<close> as an interface: what every bus promises its
  clients about \<open>publish\<close> and \<open>query\<close>, and what follows for any history of publications. The argument \<open>env\<close> is
  what a call observes of its surroundings (the clock, the outcome of file operations). The in-memory bus
  and the file bus provide the interface.
\<close>

type_synonym query_report = "query_event list"

abbreviation qe_id :: "query_event \<Rightarrow> event_id" where
  "qe_id q \<equiv> ev_id (as_event (qe_event q))"

abbreviation qe_rank :: "query_event \<Rightarrow> int \<times> event_id" where
  "qe_rank q \<equiv> newest_first (as_event (qe_event q))"

text \<open>A sequence of publications, each with what its call observes.\<close>

fun publish_all ::
  "('env \<Rightarrow> verified_event \<Rightarrow> event_source \<Rightarrow> 's \<Rightarrow> ((pubsub_error + publish_report) \<times> 's) option) \<Rightarrow>
     ('env \<times> verified_event \<times> event_source) list \<Rightarrow> 's \<Rightarrow> 's option" where
  "publish_all pub [] s = Some s"
| "publish_all pub ((env, v, src) # ps) s =
     (case pub env v src s of None \<Rightarrow> None | Some (_, s') \<Rightarrow> publish_all pub ps s')"

locale event_bus =
  fixes publish :: "'env \<Rightarrow> verified_event \<Rightarrow> event_source \<Rightarrow> 's \<Rightarrow> ((pubsub_error + publish_report) \<times> 's) option"
    and query :: "'env \<Rightarrow> filter list \<Rightarrow> nat option \<Rightarrow> 's \<Rightarrow> pubsub_error + query_report"
    and contents :: "'s \<Rightarrow> verified_event set"
    and invar :: "'s \<Rightarrow> bool"
  assumes publish_returns:
    "invar s \<Longrightarrow> \<exists>r s'. publish env v src s = Some (r, s') \<and> invar s' \<and> contents s' \<subseteq> insert v (contents s)"
    and publish_refused:
    "invar s \<Longrightarrow> publish env v src s = Some (Inr rep, s') \<Longrightarrow> \<not> rep_accepted rep \<Longrightarrow> contents s' = contents s"
    and publish_accepted:
    "invar s \<Longrightarrow> publish env v src s = Some (Inr rep, s') \<Longrightarrow> rep_accepted rep \<Longrightarrow> v \<in> contents s'"
    and query_contents: "invar s \<Longrightarrow> query env fs limit s = Inr qs \<Longrightarrow> qe_event ` set qs \<subseteq> contents s"
    and query_order: "invar s \<Longrightarrow> query env fs limit s = Inr qs \<Longrightarrow> sorted (map qe_rank qs) \<and> distinct (map qe_id qs)"
    and query_limit: "invar s \<Longrightarrow> query env fs (Some n) s = Inr qs \<Longrightarrow> length qs \<le> n"
begin

text \<open>Whatever is published, the bus keeps answering, and a query reports only published events, newest first.\<close>

lemma publish_all_returns:
  "invar s \<Longrightarrow> \<exists>s'. publish_all publish ps s = Some s' \<and> invar s' \<and>
     contents s' \<subseteq> contents s \<union> (\<lambda>(_, v, _). v) ` set ps"
proof (induction ps arbitrary: s)
  case (Cons p ps)
  obtain env v src where p: "p = (env, v, src)" by (cases p)
  obtain r s1 where 1: "publish env v src s = Some (r, s1)" "invar s1" "contents s1 \<subseteq> insert v (contents s)"
    using publish_returns[OF Cons.prems] by blast
  obtain s' where "publish_all publish ps s1 = Some s'" "invar s'" "contents s' \<subseteq> contents s1 \<union> (\<lambda>(_, v, _). v) ` set ps"
    using Cons.IH[OF 1(2)] by blast
  with 1 show ?case unfolding p by (intro exI[of _ s']) auto
qed auto

lemma query_reports_published:
  assumes "invar s" and "contents s = {}" and "publish_all publish ps s = Some s'" and "query env fs limit s' = Inr qs"
  shows "qe_event ` set qs \<subseteq> (\<lambda>(_, v, _). v) ` set ps \<and> sorted (map qe_rank qs) \<and> distinct (map qe_id qs)"
proof -
  have i: "invar s'" and c: "contents s' \<subseteq> (\<lambda>(_, v, _). v) ` set ps"
    using publish_all_returns[OF assms(1), of ps] assms(2,3) by auto
  show ?thesis using query_contents[OF i assms(4)] query_order[OF i assms(4)] c by blast
qed

end

end
