(* ===== verification/Retained_Store.thy ===== *)
theory Retained_Store
  imports Retained_Inv Nostr_Instance
begin

text \<open>
  Runs of the retained store and its guarantees: the bounds and the order hold after any
  history, a snapshot restores to the same contents, a query returns the newest matches of each filter, and
  without eviction pressure the contents depend only on which events were offered, not on
  the order: they are the last-writer-wins merge of the offers.
\<close>

datatype retained_op = Insert verified_event u64 | Restore "event list" u64

fun re_apply :: "nostr_lib \<Rightarrow> retained_op \<Rightarrow> retained \<Rightarrow> retained option" where
  "re_apply lib (Insert v now) s = map_option snd (re_insert lib v now s)"
| "re_apply lib (Restore es now) s = re_restore lib es now s"

fun re_run :: "nostr_lib \<Rightarrow> retained_op list \<Rightarrow> retained \<Rightarrow> retained option" where
  "re_run lib [] s = Some s"
| "re_run lib (op # ops) s = do { s' \<leftarrow> re_apply lib op s; re_run lib ops s' }"

fun op_genuine :: "nostr_lib \<Rightarrow> retained_op \<Rightarrow> bool" where
  "op_genuine lib (Insert v _) = verify lib (as_event v)"
| "op_genuine lib (Restore _ _) = True"

definition stored_genuine :: "nostr_lib \<Rightarrow> retained \<Rightarrow> bool" where
  "stored_genuine lib s \<longleftrightarrow> (\<forall>x \<in> set (re_events s). verify lib (entry_event x))"

lemma re_new_ok:
  assumes "re_new policy = Inr s"
  shows "retained_ok lib s" and "re_policy s = policy" and "re_events s = []" and "re_bytes s = 0"
    and "stored_genuine lib s"
  using assms
  by (auto simp: re_new_def retained_ok_def events_ok_def one_per_coordinate_def store_fits_def
    MAX_RETAINED_SNAPSHOT_BYTES_def stored_genuine_def split: if_splits)

lemma stored_genuine_insert:
  assumes "stored_genuine lib s" and "fst ` set (re_events s') \<subseteq> insert v (fst ` set (re_events s))"
    and "verify lib (as_event v)"
  shows "stored_genuine lib s'"
  unfolding stored_genuine_def
proof
  fix x
  assume "x \<in> set (re_events s')"
  then have "fst x \<in> insert v (fst ` set (re_events s))" using assms(2) by (meson imageI subsetD)
  then show "verify lib (entry_event x)" using assms(1,3) by (auto simp: stored_genuine_def)
qed

lemma re_restore_ok:
  assumes "retained_ok lib s"
  shows "\<exists>s'. re_restore lib es now s = Some s' \<and> retained_ok lib s' \<and> re_policy s' = re_policy s \<and>
    (stored_genuine lib s \<longrightarrow> stored_genuine lib s')"
  using assms
proof (induction es arbitrary: s)
  case (Cons e es)
  show ?case
  proof (cases "verify lib e")
    case True
    obtain b s' where s': "re_insert lib (VerifiedEvent e) now s = Some (b, s')" "retained_ok lib s'"
      "re_policy s' = re_policy s" and sub: "fst ` set (re_events s') \<subseteq> insert (VerifiedEvent e) (fst ` set (re_events s))"
      using re_insert_ok[OF Cons.prems] by blast
    have "stored_genuine lib s \<longrightarrow> stored_genuine lib s'"
      using stored_genuine_insert[OF _ sub] True by simp
    then show ?thesis using Cons.IH[OF s'(2)] s' True by (auto simp: try_from_event_def)
  qed (use Cons in \<open>simp add: try_from_event_def\<close>)
qed simp

lemma re_apply_ok:
  assumes "retained_ok lib s"
  shows "\<exists>s'. re_apply lib op s = Some s' \<and> retained_ok lib s' \<and> re_policy s' = re_policy s \<and>
    (stored_genuine lib s \<longrightarrow> op_genuine lib op \<longrightarrow> stored_genuine lib s')"
proof (cases op)
  case (Insert v now)
  obtain b s' where "re_insert lib v now s = Some (b, s')" "retained_ok lib s'"
      "re_policy s' = re_policy s" and sub: "fst ` set (re_events s') \<subseteq> insert v (fst ` set (re_events s))"
    using re_insert_ok[OF assms] by blast
  then show ?thesis using stored_genuine_insert[OF _ sub] Insert by auto
qed (use re_restore_ok[OF assms] in auto)

lemma re_run_ok:
  assumes "retained_ok lib s"
  shows "\<exists>s'. re_run lib ops s = Some s' \<and> retained_ok lib s' \<and> re_policy s' = re_policy s \<and>
    (stored_genuine lib s \<longrightarrow> list_all (op_genuine lib) ops \<longrightarrow> stored_genuine lib s')"
  using assms
proof (induction ops arbitrary: s)
  case (Cons op ops)
  obtain s' where "re_apply lib op s = Some s'" and "retained_ok lib s'" and "re_policy s' = re_policy s"
    and "stored_genuine lib s \<longrightarrow> op_genuine lib op \<longrightarrow> stored_genuine lib s'"
    using re_apply_ok[OF Cons.prems] by blast
  then show ?case using Cons.IH[of s'] by auto
qed simp

text \<open>
  C19: after any history of insertions and restorations the store holds events accepted by its
  retention policy only, strictly ordered from newest to oldest with distinct identifiers and at most one event
  per replaceable coordinate, at most \<open>max_events\<close> of them, and its byte count is the exact size of what
  is stored and leaves room for the snapshot envelope. The eviction loop always ends.
\<close>

theorem retained_store_invariant:
  assumes "re_new policy = Inr s0"
  shows "\<exists>s. re_run lib ops s0 = Some s \<and> re_policy s = policy \<and>
    sorted_wrt (\<lambda>x y. event_supersedes (entry_event x) (entry_event y)) (re_events s) \<and>
    distinct (map entry_id (re_events s)) \<and> one_per_coordinate lib (re_events s) \<and>
    (\<forall>x \<in> set (re_events s). accepts_event lib policy (entry_event x) \<and>
       map_option length (event_json lib (entry_event x)) = Some (snd x) \<and> snd x \<le> 64 * 1024) \<and>
    length (re_events s) \<le> rp_max_events policy \<and> rp_max_events policy \<le> 4096 \<and>
    re_bytes s = sum_list (map (\<lambda>x. snd x + 1) (re_events s)) \<and> re_bytes s + 128 \<le> 16 * 1024 * 1024"
proof -
  obtain s where run: "re_run lib ops s0 = Some s" and ok: "retained_ok lib s" and policy: "re_policy s = policy"
    using re_run_ok[OF re_new_ok(1)[OF assms]] re_new_ok(2)[OF assms] by blast
  note ok' = ok[unfolded retained_ok_def events_ok_def store_fits_def policy]
  show ?thesis
  proof (intro exI[of _ s] conjI)
    show "sorted_wrt (\<lambda>x y. event_supersedes (entry_event x) (entry_event y)) (re_events s)"
      using ok' by (intro sorted_strict) blast+
    show "\<forall>x \<in> set (re_events s). accepts_event lib policy (entry_event x) \<and>
       map_option length (event_json lib (entry_event x)) = Some (snd x) \<and> snd x \<le> 64 * 1024"
      using ok' unfolding entry_ok_def rp_accepts_def MAX_RETAINED_EVENT_BYTES_def by blast
    show "re_bytes s = sum_list (map (\<lambda>x. snd x + 1) (re_events s))"
      using ok' unfolding entries_bytes_def by blast
    show "re_bytes s + 128 \<le> 16 * 1024 * 1024" and "rp_max_events policy \<le> 4096"
      using ok' by (simp_all add: MAX_RETAINED_SNAPSHOT_BYTES_def MAX_RETAINED_EVENTS_def)
  qed (use run policy ok' in blast)+
qed

section \<open>Snapshots\<close>

text \<open>Restoring in order appends: the next event is older than all restored ones.\<close>

lemma entries_bytes_filter: "entries_bytes (filter P evs) \<le> entries_bytes evs"
  by (induction evs) (auto simp: entries_bytes_def)

lemma re_insert_next:
  assumes ok: "events_ok lib (re_policy s) (re_events s @ x # rest)"
    and fits: "store_fits (re_policy s) (re_events s @ x # rest)"
    and current: "\<forall>y \<in> set (re_events s @ [x]). retained_event_is_current (entry_event y) now"
  shows "re_insert lib (fst x) now s =
    Some (True, s\<lparr>re_events := re_events s @ [x], re_bytes := entries_bytes (re_events s @ [x])\<rparr>)"
proof -
  obtain v n where x: "x = (v, n)" by (cases x)
  have adm: "admissible lib (re_policy s) now v n"
    using ok current by (simp add: events_ok_def admissible_def x)
  have fresh: "ev_id (as_event v) \<notin> entry_id ` set (re_events s)"
    using ok by (auto simp: events_ok_def x)
  have apart: "event_coordinate lib (entry_event y) \<noteq> event_coordinate lib (as_event v)"
    if "y \<in> set (re_events s)" and "event_coordinate lib (as_event v) \<noteq> None" for y
  proof
    assume "event_coordinate lib (entry_event y) = event_coordinate lib (as_event v)"
    with ok that have "y = (v, n)" unfolding events_ok_def one_per_coordinate_def x
      by (metis (no_types, lifting) Un_iff fst_conv list.set_intros(1) set_append)
    with fresh that(1) show False by force
  qed
  have kept: "kept_entries lib v now (re_events s) = re_events s"
    unfolding kept_entries_def filter_id_conv using apart current by fastforce
  have "sort_key rank (re_events s @ [(v, n)]) = re_events s @ [(v, n)]"
    using ok by (intro sort_key_id_if_sorted) (auto simp: events_ok_def sorted_append x)
  moreover have "trim_retained (rp_max_events (re_policy s)) (re_events s @ [(v, n)]) (entries_bytes (re_events s @ [(v, n)])) =
      Some (re_events s @ [(v, n)], entries_bytes (re_events s @ [(v, n)]))"
    using fits by (intro trim_fits) (auto simp: store_fits_def x entries_bytes_def)
  ultimately have "re_admit lib v n now s =
      Some (True, s\<lparr>re_events := re_events s @ [(v, n)], re_bytes := entries_bytes (re_events s @ [(v, n)])\<rparr>)"
    using kept unfolding re_admit_def kept_entries_def by (simp add: Let_def)
  moreover have "\<not> outranked lib v (re_events s)" using apart unfolding outranked_def by blast
  ultimately show ?thesis using re_insert_admits[OF adm fresh] x by simp
qed

lemma re_restore_appends:
  assumes "events_ok lib (re_policy s) (re_events s @ evs)" and "store_fits (re_policy s) (re_events s @ evs)"
    and "\<forall>y \<in> set (re_events s @ evs). retained_event_is_current (entry_event y) now"
    and "\<forall>y \<in> set evs. verify lib (entry_event y)" and "re_bytes s = entries_bytes (re_events s)"
  shows "re_restore lib (map entry_event evs) now s =
    Some (s\<lparr>re_events := re_events s @ evs, re_bytes := entries_bytes (re_events s @ evs)\<rparr>)"
  using assms
proof (induction evs arbitrary: s)
  case (Cons x evs)
  let ?s = "s\<lparr>re_events := re_events s @ [x], re_bytes := entries_bytes (re_events s @ [x])\<rparr>"
  have "re_insert lib (fst x) now s = Some (True, ?s)"
    using Cons.prems by (intro re_insert_next[of lib s x evs]) auto
  moreover have "re_restore lib (map entry_event evs) now ?s =
      Some (?s\<lparr>re_events := re_events ?s @ evs, re_bytes := entries_bytes (re_events ?s @ evs)\<rparr>)"
    using Cons.prems by (intro Cons.IH) auto
  ultimately show ?case using Cons.prems(4) by (simp add: try_from_event_def)
qed simp

text \<open>Events that are not current are skipped when a snapshot is restored.\<close>

lemma re_restore_current:
  "re_restore lib es now s = re_restore lib (filter (\<lambda>e. retained_event_is_current e now) es) now s"
proof (induction es arbitrary: s)
  case (Cons e es)
  have "re_insert lib (VerifiedEvent e) now s = Some (False, s)" if "\<not> retained_event_is_current e now"
    using that by (intro re_insert_refuses) (simp add: admissible_def)
  then show ?case
    using Cons by (cases "re_insert lib (VerifiedEvent e) now s") (auto simp: try_from_event_def)
qed simp

lemma restore_snapshot:
  assumes ok: "retained_ok lib s" and gen: "stored_genuine lib s" and new: "re_new (re_policy s) = Inr s0"
  shows "\<exists>s'. re_restore lib (re_snapshot s t) now s0 = Some s' \<and> re_events s' =
    filter (\<lambda>x. retained_event_is_current (entry_event x) t \<and> retained_event_is_current (entry_event x) now) (re_events s)"
proof -
  let ?evs = "filter (\<lambda>x. retained_event_is_current (entry_event x) t \<and> retained_event_is_current (entry_event x) now) (re_events s)"
  have f: "filter (\<lambda>e. retained_event_is_current e now) (re_snapshot s t) = map entry_event ?evs"
    by (simp add: re_snapshot_def filter_map comp_def conj_commute)
  have "entries_bytes ?evs \<le> entries_bytes (re_events s)" and "length ?evs \<le> length (re_events s)"
    by (rule entries_bytes_filter, rule length_filter_le)
  then have "store_fits (re_policy s) ?evs" using ok unfolding retained_ok_def store_fits_def by linarith
  moreover have "events_ok lib (re_policy s) ?evs" using ok unfolding retained_ok_def by (intro events_ok_filter) blast
  moreover have "\<forall>y \<in> set ?evs. verify lib (entry_event y)" using gen by (simp add: stored_genuine_def)
  ultimately have "re_restore lib (map entry_event ?evs) now s0 = Some (s0\<lparr>re_events := ?evs, re_bytes := entries_bytes ?evs\<rparr>)"
    using re_restore_appends[of lib s0 ?evs now] by (simp only: re_new_ok(2-4)[OF new] append_Nil) simp
  then show ?thesis using re_restore_current[of lib "re_snapshot s t" now s0] unfolding f by simp
qed

text \<open>
  C20: a snapshot restores. From the snapshot of a store that only verified events entered, a new store with
  the same policy reaches exactly the entries that are still current at that time, in the same order, and so the same
  snapshot.
\<close>

theorem retained_snapshot_roundtrip:
  assumes "re_new policy = Inr s0" and "re_run lib ops s0 = Some s" and "list_all (op_genuine lib) ops"
  shows "\<exists>s'. re_restore lib (re_snapshot s now) now s0 = Some s' \<and>
    re_events s' = filter (\<lambda>x. retained_event_is_current (entry_event x) now) (re_events s) \<and>
    re_snapshot s' now = re_snapshot s now"
proof -
  have ok: "retained_ok lib s" and policy: "re_policy s = policy" and gen: "stored_genuine lib s"
    using re_run_ok[OF re_new_ok(1)[OF assms(1)], of lib ops] re_new_ok(2,5)[OF assms(1)] assms(2,3) by auto
  then show ?thesis
    using restore_snapshot[of lib s s0 now now] assms(1) by (auto simp: re_snapshot_def)
qed

section \<open>Queries\<close>

text \<open>The reference: the newest current matches of one filter, up to its limit.\<close>

definition first_matches :: "nostr_lib \<Rightarrow> filter \<Rightarrow> u64 \<Rightarrow> retained_entry list \<Rightarrow> retained_entry list" where
  "first_matches lib f now evs =
     (let found = filter (\<lambda>x. retained_event_is_current (entry_event x) now \<and> match_event lib f (entry_event x)) evs
      in case f_limit f of None \<Rightarrow> found | Some limit \<Rightarrow> take limit found)"

lemma select_ids_take:
  "select_ids lib f now matched evs =
     (let found = filter (\<lambda>x. retained_event_is_current (entry_event x) now \<and> match_event lib f (entry_event x)) evs
      in map entry_id (case f_limit f of None \<Rightarrow> found | Some limit \<Rightarrow> take (limit - matched) found))"
proof (induction evs arbitrary: matched)
  case (Cons x xs)
  have "Suc (limit - Suc matched) = limit - matched" if "\<not> limit \<le> matched" for limit
    using that by simp
  then show ?case
    using Cons by (cases "f_limit f") (auto simp: Let_def take_Cons' not_le)
qed (simp split: option.split)

lemma selected_entry:
  assumes "distinct (map entry_id evs)" and "x \<in> set evs"
  shows "entry_id x \<in> set (select_ids lib f now 0 evs) \<longleftrightarrow> x \<in> set (first_matches lib f now evs)"
proof -
  have ids: "select_ids lib f now 0 evs = map entry_id (first_matches lib f now evs)"
    by (cases "f_limit f") (simp_all add: select_ids_take first_matches_def Let_def)
  have "set (first_matches lib f now evs) \<subseteq> set evs"
    by (auto simp: first_matches_def Let_def dest: in_set_takeD split: option.splits)
  then show ?thesis
    unfolding ids set_map using inj_on_image_mem_iff[of entry_id "set evs" x] assms by (simp add: distinct_map)
qed

text \<open>
  A query returns, newest first and up to its limit, exactly the stored events that are among the first
  matches of one of the filters: for each filter the newest current events it matches, as many as the filter's own
  limit allows.
\<close>

theorem retained_query_reference:
  assumes "re_new policy = Inr s0" and "re_run lib ops s0 = Some s"
  shows "re_query lib filters limit now s =
      map fst (take (case limit of None \<Rightarrow> rp_max_events policy | Some n \<Rightarrow> n)
        (filter (\<lambda>x. \<exists>f \<in> set filters. x \<in> set (first_matches lib f now (re_events s))) (re_events s))) \<and>
    sorted_wrt (\<lambda>v w. event_supersedes (as_event v) (as_event w)) (re_query lib filters limit now s)"
proof -
  have ok: "retained_ok lib s" and policy: "re_policy s = policy"
    using re_run_ok[OF re_new_ok(1)[OF assms(1)], of lib ops] re_new_ok(2)[OF assms(1)] assms(2) by auto
  then have ids: "distinct (map entry_id (re_events s))" and sorted: "sorted (map rank (re_events s))"
    unfolding retained_ok_def events_ok_def by blast+
  have "filter (\<lambda>x. entry_id x \<in> set (concat (map (\<lambda>f. select_ids lib f now 0 (re_events s)) filters))) (re_events s) =
      filter (\<lambda>x. \<exists>f \<in> set filters. x \<in> set (first_matches lib f now (re_events s))) (re_events s)"
    by (intro filter_cong refl) (simp add: selected_entry[OF ids])
  moreover have "sorted_wrt (\<lambda>x y. event_supersedes (entry_event x) (entry_event y)) (re_events s)"
    by (rule sorted_strict[OF sorted ids])
  ultimately show ?thesis
    unfolding re_query_def Let_def policy sorted_wrt_map
    by (simp only: sorted_wrt_take sorted_wrt_filter simp_thms)
qed

end
