(* ===== verification/File_Bus.thy ===== *)
theory File_Bus
  imports Event_Bus Retained_Store
begin

text \<open>
  The file bus of \<open>crates/nostr-pubsub/src/file_store.rs\<close>. The file system is a state with the snapshot under the
  bus's path, what may replace it after a loss of power, and the writer lock; each call receives the
  outcome of its file operations, so every fault the code handles is a branch, and a publication
  yields the states it passes through, so that it can be stopped between any two operations.
  \<open>serde_json\<close> on snapshots is the parameter \<open>snapshot_codec\<close> with the law \<open>codec_law\<close>. A publication whose
  retention loop did not end would be \<open>None\<close>.
\<close>

section \<open>Data\<close>

text \<open>
  \<open>snap_encode\<close> is \<open>serde_json::to_vec\<close> of a \<open>Snapshot\<close>; \<open>snap_decode\<close> is \<open>from_slice\<close> into a snapshot of JSON
  values together with the \<open>from_value\<close> of each of them.
\<close>

record snapshot_codec =
  snap_encode :: "u8 \<Rightarrow> event list \<Rightarrow> bytes option"
  snap_decode :: "bytes \<Rightarrow> (u8 \<times> event option list) option"

definition codec_law :: "nostr_lib \<Rightarrow> snapshot_codec \<Rightarrow> bool" where
  "codec_law lib codec \<longleftrightarrow>
     (\<forall>es b. list_all (verify lib) es \<longrightarrow> snap_encode codec 1 es = Some b \<longrightarrow>
        snap_decode codec b = Some (1, map Some es))"

text \<open>
  A file is its contents together with whether they were flushed (\<open>sync_all\<close> on the file). \<open>fw_snapshot\<close> and
  \<open>fw_synced\<close> describe the file the path names now; \<open>fw_older\<close> lists what the path named before each rename
  since the directory was last flushed.
\<close>

type_synonym disk_file = "bytes \<times> bool"

record file_world =
  fw_snapshot :: "bytes option"
  fw_synced :: bool
  fw_older :: "disk_file option list"
  fw_locked :: bool

definition fw_named :: "file_world \<Rightarrow> disk_file option" where
  "fw_named w = map_option (\<lambda>b. (b, fw_synced w)) (fw_snapshot w)"

text \<open>
  After a stop the lock is free. When power was lost the path may name any file it named since the directory was last
  flushed, and a file that was not flushed may hold any bytes; a process that only died leaves the
  current file with its contents, which is one of these cases.
\<close>

fun survives :: "disk_file option \<Rightarrow> bytes option \<Rightarrow> bool" where
  "survives None c \<longleftrightarrow> c = None"
| "survives (Some (b, synced)) c \<longleftrightarrow> (if synced then c = Some b else c \<noteq> None)"

definition power_loss :: "file_world \<Rightarrow> file_world \<Rightarrow> bool" where
  "power_loss w w' \<longleftrightarrow> \<not> fw_locked w' \<and> (\<exists>f \<in> set (fw_named w # fw_older w). survives f (fw_snapshot w'))"

record open_faults =
  of_create_dir :: "string option"
  of_lock_file :: "string option"
  of_open :: "string option"
  of_read :: "string option"

record publish_faults =
  pf_temporary :: "string option"
  pf_write :: "string option"
  pf_sync :: "string option"
  pf_persist :: "string option"
  pf_directory :: "string option"

record file_bus =
  fb_state :: "retained option"
  fb_world :: file_world

section \<open>Operations\<close>

fun first_fault :: "string option list \<Rightarrow> string option" where
  "first_fault [] = None"
| "first_fault (Some m # _) = Some m"
| "first_fault (None # fs) = first_fault fs"

text \<open>The part of \<open>open\<close> that reads an existing snapshot.\<close>

definition file_load ::
  "nostr_lib \<Rightarrow> snapshot_codec \<Rightarrow> bytes \<Rightarrow> u64 \<Rightarrow> retained \<Rightarrow> (pubsub_error + retained) option" where
  "file_load lib codec content now events =
     (let bytes = take (MAX_RETAINED_SNAPSHOT_BYTES + 1) content in
      if length bytes > MAX_RETAINED_SNAPSHOT_BYTES then Some (Inl (Storage ''event snapshot exceeds byte limit''))
      else case snap_decode codec bytes of
             None \<Rightarrow> Some (Inl (Storage ''invalid snapshot''))
           | Some (version, values) \<Rightarrow>
               if version \<noteq> 1 then Some (Inl (Storage ''unsupported event snapshot version''))
               else map_option Inr (re_restore lib (List.map_filter (\<lambda>x. x) values) now events))"

definition file_open ::
  "nostr_lib \<Rightarrow> snapshot_codec \<Rightarrow> event_retention_policy \<Rightarrow> open_faults \<Rightarrow> u64 \<Rightarrow> file_world \<Rightarrow>
     ((pubsub_error + retained) \<times> file_world) option" where
  "file_open lib codec policy faults now w =
     (case re_new policy of
        Inl err \<Rightarrow> Some (Inl err, w)
      | Inr events \<Rightarrow>
          (case first_fault [of_create_dir faults, of_lock_file faults] of
             Some m \<Rightarrow> Some (Inl (Storage m), w)
           | None \<Rightarrow>
               if fw_locked w then Some (Inl (Storage ''lock would block''), w)
               else case of_open faults of
                      Some m \<Rightarrow> Some (Inl (Storage m), w)
                    | None \<Rightarrow>
                        (case fw_snapshot w of
                           None \<Rightarrow> Some (Inr events, w\<lparr>fw_locked := True\<rparr>)
                         | Some content \<Rightarrow>
                             (case of_read faults of
                                Some m \<Rightarrow> Some (Inl (Storage m), w)
                              | None \<Rightarrow> do {
                                  r \<leftarrow> file_load lib codec content now events;
                                  case r of
                                    Inl err \<Rightarrow> Some (Inl err, w)
                                  | Inr events' \<Rightarrow> Some (Inr events', w\<lparr>fw_locked := True\<rparr>) }))))"

text \<open>
  The accepted branch of \<open>publish\<close>: the bytes go to a temporary file, which is flushed and renamed onto the path; then
  the candidate becomes the state in memory, and the directory is flushed. The temporary file is a
  local variable of the call; dropping it on an error deletes it.
\<close>

datatype commit_op =
    CreateTemporary
  | WriteTemporary bytes
  | SyncTemporary
  | PersistTemporary
  | StoreCandidate retained
  | SyncDirectory

definition commit_ops :: "bytes \<Rightarrow> retained \<Rightarrow> commit_op list" where
  "commit_ops bytes candidate =
     [CreateTemporary, WriteTemporary bytes, SyncTemporary, PersistTemporary, StoreCandidate candidate, SyncDirectory]"

fun commit_fault :: "publish_faults \<Rightarrow> commit_op \<Rightarrow> string option" where
  "commit_fault faults CreateTemporary = pf_temporary faults"
| "commit_fault faults (WriteTemporary _) = pf_write faults"
| "commit_fault faults SyncTemporary = pf_sync faults"
| "commit_fault faults PersistTemporary = pf_persist faults"
| "commit_fault faults (StoreCandidate _) = None"
| "commit_fault faults SyncDirectory = pf_directory faults"

fun commit_effect :: "commit_op \<Rightarrow> disk_file \<times> file_bus \<Rightarrow> disk_file \<times> file_bus" where
  "commit_effect CreateTemporary (_, bus) = (([], False), bus)"
| "commit_effect (WriteTemporary bytes) ((b, _), bus) = ((b @ bytes, False), bus)"
| "commit_effect SyncTemporary ((b, _), bus) = ((b, True), bus)"
| "commit_effect PersistTemporary ((b, synced), bus) =
     ((b, synced), bus\<lparr>fb_world := (fb_world bus)\<lparr>fw_snapshot := Some b, fw_synced := synced,
        fw_older := fw_older (fb_world bus) @ [fw_named (fb_world bus)]\<rparr>\<rparr>)"
| "commit_effect (StoreCandidate candidate) (t, bus) = (t, bus\<lparr>fb_state := Some candidate\<rparr>)"
| "commit_effect SyncDirectory (t, bus) = (t, bus\<lparr>fb_world := (fb_world bus)\<lparr>fw_older := []\<rparr>\<rparr>)"

text \<open>The result of the operations up to the first fault, and the states of the bus on the way.\<close>

fun run_commit ::
  "publish_faults \<Rightarrow> commit_op list \<Rightarrow> disk_file \<times> file_bus \<Rightarrow> (string option \<times> file_bus) \<times> file_bus list" where
  "run_commit faults [] (t, bus) = ((None, bus), [bus])"
| "run_commit faults (op # ops) (t, bus) =
     (case commit_fault faults op of
        Some m \<Rightarrow> ((Some m, bus), [bus])
      | None \<Rightarrow>
          let (r, states) = run_commit faults ops (commit_effect op (t, bus)) in (r, bus # states))"

definition file_commit ::
  "snapshot_codec \<Rightarrow> publish_faults \<Rightarrow> u64 \<Rightarrow> retained \<Rightarrow> publish_report \<Rightarrow> file_bus \<Rightarrow>
     ((pubsub_error + publish_report) \<times> file_bus) \<times> file_bus list" where
  "file_commit codec faults now candidate report bus =
     (case snap_encode codec 1 (re_snapshot candidate now) of
        None \<Rightarrow> ((Inl (Storage ''cannot encode snapshot''), bus), [bus])
      | Some bytes \<Rightarrow>
          if length bytes > MAX_RETAINED_SNAPSHOT_BYTES
          then ((Inl (Storage ''event snapshot exceeds byte limit''), bus), [bus])
          else let ((fault, bus'), states) = run_commit faults (commit_ops bytes candidate) (([], False), bus)
               in ((case fault of Some m \<Rightarrow> Inl (Storage m) | None \<Rightarrow> Inr report, bus'), states))"

definition file_publish_run ::
  "nostr_lib \<Rightarrow> snapshot_codec \<Rightarrow> publish_faults \<times> u64 \<Rightarrow> verified_event \<Rightarrow> event_source \<Rightarrow> file_bus \<Rightarrow>
     (((pubsub_error + publish_report) \<times> file_bus) \<times> file_bus list) option" where
  "file_publish_run lib codec env v src bus =
     (case fb_state bus of
        None \<Rightarrow> Some ((Inl (Storage ''event store is closed''), bus), [bus])
      | Some state \<Rightarrow> do {
          (accepted, candidate) \<leftarrow> re_insert lib v (snd env) state;
          let report = \<lparr>rep_accepted = accepted, rep_priority = SOURCE_PRIORITY_LOCAL_INDEX,
                rep_reason = (if accepted then None else Some ''event unchanged or outside retention'')\<rparr>;
          Some (if accepted then file_commit codec (fst env) (snd env) candidate report bus else ((Inr report, bus), [bus])) })"

text \<open>A call that is not stopped: its result and the state it leaves.\<close>

definition file_publish ::
  "nostr_lib \<Rightarrow> snapshot_codec \<Rightarrow> publish_faults \<times> u64 \<Rightarrow> verified_event \<Rightarrow> event_source \<Rightarrow> file_bus \<Rightarrow>
     ((pubsub_error + publish_report) \<times> file_bus) option" where
  "file_publish lib codec env v src bus = map_option fst (file_publish_run lib codec env v src bus)"

definition file_query ::
  "nostr_lib \<Rightarrow> publish_faults \<times> u64 \<Rightarrow> filter list \<Rightarrow> nat option \<Rightarrow> file_bus \<Rightarrow> pubsub_error + query_report" where
  "file_query lib env fs limit bus =
     (case fb_state bus of
        None \<Rightarrow> Inl (Storage ''event store is closed'')
      | Some state \<Rightarrow>
          Inr (map (\<lambda>v. \<lparr>qe_event = v, qe_source = es_local_index ''retained-events'', qe_priority = SOURCE_PRIORITY_LOCAL_INDEX\<rparr>)
            (re_query lib fs limit (snd env) state)))"

definition file_close :: "file_bus \<Rightarrow> file_bus" where
  "file_close bus =
     (case fb_state bus of
        None \<Rightarrow> bus
      | Some _ \<Rightarrow> bus\<lparr>fb_state := None, fb_world := (fb_world bus)\<lparr>fw_locked := False\<rparr>\<rparr>)"

section \<open>The interface\<close>

definition file_invar :: "nostr_lib \<Rightarrow> file_bus \<Rightarrow> bool" where
  "file_invar lib bus \<longleftrightarrow> (case fb_state bus of None \<Rightarrow> True | Some s \<Rightarrow> retained_ok lib s)"

definition file_contents :: "file_bus \<Rightarrow> verified_event set" where
  "file_contents bus = (case fb_state bus of None \<Rightarrow> {} | Some s \<Rightarrow> fst ` set (re_events s))"

text \<open>
  The world after the rename, and after the flush of the directory. \<open>renamed\<close> is what a commit does to the disk
  as far as a reader can tell, and \<open>settled\<close> what the acknowledged commit leaves.
\<close>

abbreviation renamed :: "bytes \<Rightarrow> file_world \<Rightarrow> file_world" where
  "renamed b w \<equiv> w\<lparr>fw_snapshot := Some b, fw_synced := True, fw_older := fw_older w @ [fw_named w]\<rparr>"

abbreviation settled :: "bytes \<Rightarrow> file_world \<Rightarrow> file_world" where
  "settled b w \<equiv> w\<lparr>fw_snapshot := Some b, fw_synced := True, fw_older := []\<rparr>"

abbreviation early_fault :: "publish_faults \<Rightarrow> string option" where
  "early_fault faults \<equiv> first_fault [pf_temporary faults, pf_write faults, pf_sync faults, pf_persist faults]"

lemma run_commit_early:
  assumes "early_fault faults = Some m" and "run_commit faults (commit_ops b candidate) (([], False), bus) = (r, states)"
  shows "r = (Some m, bus) \<and> set states = {bus}"
  using assms
  by (cases "pf_temporary faults"; cases "pf_write faults"; cases "pf_sync faults"; cases "pf_persist faults")
    (auto simp: commit_ops_def)

lemma run_commit_late:
  assumes "early_fault faults = None" and "run_commit faults (commit_ops b candidate) (([], False), bus) = (r, states)"
  shows "r = (pf_directory faults,
        bus\<lparr>fb_state := Some candidate,
          fb_world := (if pf_directory faults = None then settled else renamed) b (fb_world bus)\<rparr>)"
    and "set states \<subseteq> {bus, bus\<lparr>fb_world := renamed b (fb_world bus)\<rparr>,
        bus\<lparr>fb_state := Some candidate, fb_world := renamed b (fb_world bus)\<rparr>, snd r}"
  using assms
  by (cases "pf_temporary faults"; cases "pf_write faults"; cases "pf_sync faults"; cases "pf_persist faults";
    cases "pf_directory faults"; auto simp: commit_ops_def)+

text \<open>A publication changes nothing, or commits the candidate to memory and disk together.\<close>

lemma file_publish_run_cases:
  assumes "file_invar lib bus"
  obtains (unchanged) r states where "file_publish_run lib codec env v src bus = Some ((r, bus), states)"
      and "set states = {bus}" and "\<And>rep. r = Inr rep \<Longrightarrow> \<not> rep_accepted rep"
  | (committed) r s candidate b bus' states where "fb_state bus = Some s"
      and "re_insert lib v (snd env) s = Some (True, candidate)"
      and "snap_encode codec 1 (re_snapshot candidate (snd env)) = Some b" and "length b \<le> MAX_RETAINED_SNAPSHOT_BYTES"
      and "bus' = bus\<lparr>fb_state := Some candidate,
        fb_world := (if pf_directory (fst env) = None then settled else renamed) b (fb_world bus)\<rparr>"
      and "file_publish_run lib codec env v src bus = Some ((r, bus'), states)"
      and "set states \<subseteq> {bus, bus\<lparr>fb_world := renamed b (fb_world bus)\<rparr>,
        bus\<lparr>fb_state := Some candidate, fb_world := renamed b (fb_world bus)\<rparr>, bus'}"
      and "\<And>rep. r = Inr rep \<Longrightarrow> rep_accepted rep" and "(\<exists>m. r = Inl m) \<longleftrightarrow> pf_directory (fst env) \<noteq> None"
proof (cases "fb_state bus")
  case None
  then show thesis using that(1) by (simp add: file_publish_run_def)
next
  case (Some s)
  then obtain a c where ins: "re_insert lib v (snd env) s = Some (a, c)"
    using assms re_insert_ok[of lib s v "snd env"] by (auto simp: file_invar_def)
  let ?enc = "snap_encode codec 1 (re_snapshot c (snd env))"
  show thesis
  proof (cases "a \<and> (\<exists>b. ?enc = Some b \<and> length b \<le> MAX_RETAINED_SNAPSHOT_BYTES)")
    case True
    then obtain b where b: "?enc = Some b" "length b \<le> MAX_RETAINED_SNAPSHOT_BYTES" by blast
    obtain f bus' states where run: "run_commit (fst env) (commit_ops b c) (([], False), bus) = ((f, bus'), states)"
      by (metis surj_pair)
    let ?r = "case f of Some m \<Rightarrow> Inl (Storage m)
      | None \<Rightarrow> Inr \<lparr>rep_accepted = True, rep_priority = SOURCE_PRIORITY_LOCAL_INDEX, rep_reason = None\<rparr>"
    have p: "file_publish_run lib codec env v src bus = Some ((?r, bus'), states)"
      using True Some ins b run by (simp add: file_publish_run_def file_commit_def)
    show thesis
    proof (cases "early_fault (fst env)")
      case None
      show thesis
        using run_commit_late[OF None run] p b Some ins True
        by (intro that(2)[of s c b bus' ?r states]) (auto split: option.splits)
    next
      case (Some m)
      then show thesis using run_commit_early[OF Some run] p by (intro that(1)) auto
    qed
  next
    case False
    then have "\<exists>r. file_publish_run lib codec env v src bus = Some ((r, bus), [bus]) \<and> (\<forall>rep. r = Inr rep \<longrightarrow> \<not> rep_accepted rep)"
      using Some ins by (cases a; cases ?enc) (auto simp: file_publish_run_def file_commit_def Let_def not_le)
    then show thesis using that(1)[of _ "[bus]"] by auto
  qed
qed

lemma file_publish_cases:
  assumes "file_invar lib bus"
  obtains (unchanged) r where "file_publish lib codec env v src bus = Some (r, bus)"
      and "\<And>rep. r = Inr rep \<Longrightarrow> \<not> rep_accepted rep"
  | (committed) r s candidate b where "fb_state bus = Some s" and "re_insert lib v (snd env) s = Some (True, candidate)"
      and "snap_encode codec 1 (re_snapshot candidate (snd env)) = Some b" and "length b \<le> MAX_RETAINED_SNAPSHOT_BYTES"
      and "file_publish lib codec env v src bus = Some (r, bus\<lparr>fb_state := Some candidate,
        fb_world := (if pf_directory (fst env) = None then settled else renamed) b (fb_world bus)\<rparr>)"
      and "\<And>rep. r = Inr rep \<Longrightarrow> rep_accepted rep" and "(\<exists>m. r = Inl m) \<longleftrightarrow> pf_directory (fst env) \<noteq> None"
  using assms by (rule file_publish_run_cases[of lib bus codec env v src]) (auto simp: file_publish_def intro: that)

lemma re_query_props:
  assumes "retained_ok lib s"
  shows "set (re_query lib fs limit now s) \<subseteq> fst ` set (re_events s)"
    and "sorted (map (\<lambda>v. newest_first (as_event v)) (re_query lib fs limit now s))"
    and "distinct (map (\<lambda>v. ev_id (as_event v)) (re_query lib fs limit now s))"
    and "length (re_query lib fs (Some n) now s) \<le> n"
proof -
  have sub: "set (take k (filter P xs)) \<subseteq> set xs" for k P and xs :: "retained_entry list"
    using set_take_subset[of k "filter P xs"] by auto
  show "set (re_query lib fs limit now s) \<subseteq> fst ` set (re_events s)"
    using sub unfolding re_query_def Let_def by force
  show "sorted (map (\<lambda>v. newest_first (as_event v)) (re_query lib fs limit now s))"
    using assms by (simp add: re_query_def Let_def retained_ok_def events_ok_def comp_def sorted_wrt_map sorted_wrt_take sorted_wrt_filter)
  have "distinct (map entry_id (take k (filter P (re_events s))))" for k P
    using assms by (simp add: retained_ok_def events_ok_def distinct_map_filter flip: take_map)
  then show "distinct (map (\<lambda>v. ev_id (as_event v)) (re_query lib fs limit now s))"
    by (simp add: re_query_def Let_def comp_def)
  show "length (re_query lib fs (Some n) now s) \<le> n" by (simp add: re_query_def Let_def)
qed

interpretation store: event_bus "file_publish lib codec" "file_query lib" file_contents "file_invar lib"
  for lib codec
proof
  fix s env v src
  assume inv: "file_invar lib s"
  then show "\<exists>r s'. file_publish lib codec env v src s = Some (r, s') \<and> file_invar lib s' \<and>
      file_contents s' \<subseteq> insert v (file_contents s)"
  proof (cases rule: file_publish_cases[of lib s codec env v src])
    case (committed r st candidate b)
    then show ?thesis
      using inv re_insert_ok[of lib st v "snd env"] by (auto simp: file_invar_def file_contents_def)
  qed (use inv in auto)
next
  fix s env v src rep s'
  assume inv: "file_invar lib s" and p: "file_publish lib codec env v src s = Some (Inr rep, s')"
  show "\<not> rep_accepted rep \<Longrightarrow> file_contents s' = file_contents s"
    using inv by (cases rule: file_publish_cases[of lib s codec env v src]) (use p in auto)
  show "v \<in> file_contents s'" if a: "rep_accepted rep"
    using inv
  proof (cases rule: file_publish_cases[of lib s codec env v src])
    case (committed r st candidate b)
    then show ?thesis
      using inv p re_insert_ok[of lib st v "snd env"] by (auto simp: file_invar_def file_contents_def)
  qed (use p a in auto)
next
  fix s env fs limit qs
  assume inv: "file_invar lib s" and q: "file_query lib env fs limit s = Inr qs"
  then obtain st where st: "fb_state s = Some st" "retained_ok lib st"
    by (auto simp: file_query_def file_invar_def split: option.splits)
  note props = re_query_props(1-3)[OF st(2), of fs limit "snd env"]
  show "qe_event ` set qs \<subseteq> file_contents s"
    using q st(1) subsetD[OF props(1)] by (auto simp: file_query_def file_contents_def simp del: split_paired_Ex)
  show "sorted (map qe_rank qs) \<and> distinct (map qe_id qs)"
    using q props(2,3) st(1) by (auto simp: file_query_def comp_def)
next
  fix s env fs n qs
  assume inv: "file_invar lib s" and q: "file_query lib env fs (Some n) s = Inr qs"
  then obtain st where st: "fb_state s = Some st" "retained_ok lib st"
    by (auto simp: file_query_def file_invar_def split: option.splits)
  show "length qs \<le> n" using q re_query_props(4)[OF st(2), of fs n "snd env"] st(1) by (auto simp: file_query_def)
qed

text \<open>
  C22: a publication to the file bus always returns, and memory and disk change together or not at all. An
  error before the rename, a refusal and a closed bus leave both as they were; otherwise the candidate with the event is
  in memory and its encoding is the snapshot on disk, and the call reports acceptance unless the final
  directory sync failed.
\<close>

theorem file_publish_atomic:
  assumes "file_invar lib bus"
  shows "\<exists>r bus'. file_publish lib codec (faults, now) v src bus = Some (r, bus') \<and> file_invar lib bus' \<and>
    (bus' = bus \<and> (\<forall>rep. r = Inr rep \<longrightarrow> \<not> rep_accepted rep) \<or>
     (\<exists>s b. fb_state bus' = Some s \<and> v \<in> fst ` set (re_events s) \<and>
        snap_encode codec 1 (re_snapshot s now) = Some b \<and> length b \<le> MAX_RETAINED_SNAPSHOT_BYTES \<and>
        fw_snapshot (fb_world bus') = Some b \<and> fw_locked (fb_world bus') = fw_locked (fb_world bus) \<and>
        (case r of Inl _ \<Rightarrow> pf_directory faults \<noteq> None | Inr rep \<Rightarrow> rep_accepted rep)))"
  using assms
proof (cases rule: file_publish_cases[of lib bus codec "(faults, now)" v src])
  case (committed r s candidate b)
  then have "retained_ok lib candidate" and "v \<in> fst ` set (re_events candidate)"
    using assms re_insert_ok[of lib s v now] by (auto simp: file_invar_def)
  with committed show ?thesis by (cases r) (auto simp: file_invar_def)
qed (use assms in auto)

section \<open>Durability\<close>

text \<open>What an accepted insertion stores is current at that moment, so the snapshot taken then omits nothing.\<close>

lemma re_insert_current:
  assumes "re_insert lib v now s = Some (True, s')" and "x \<in> set (re_events s')"
  shows "retained_event_is_current (entry_event x) now"
proof -
  from assms(1) obtain n where adm: "re_admit lib v n now s = Some (True, s')" and cur: "retained_event_is_current (as_event v) now"
    by (auto simp: re_insert_def Let_def split: if_splits option.splits)
  obtain k where "re_events s' = take k (sort_key rank (kept_entries lib v now (re_events s) @ [(v, n)]))"
    using re_admit_prefix[of lib v now s n] adm by (auto simp: Let_def)
  with assms(2) have "x \<in> set (kept_entries lib v now (re_events s) @ [(v, n)])" by (auto dest: in_set_takeD)
  then show ?thesis using cur by (auto simp: kept_entries_def)
qed

text \<open>
  A file holds all of a store when it is flushed and its contents encode a complete snapshot; a disk is \<open>durable\<close> in a
  set of stores when, whatever file survives a loss of power, it holds one of them.
\<close>

definition holds_store :: "snapshot_codec \<Rightarrow> retained \<Rightarrow> disk_file option \<Rightarrow> bool" where
  "holds_store codec s f \<longleftrightarrow>
     (\<exists>b t. f = Some (b, True) \<and> snap_encode codec 1 (re_snapshot s t) = Some b \<and> length b \<le> MAX_RETAINED_SNAPSHOT_BYTES \<and>
        (\<forall>x \<in> set (re_events s). retained_event_is_current (entry_event x) t))"

definition durable :: "snapshot_codec \<Rightarrow> retained set \<Rightarrow> file_world \<Rightarrow> bool" where
  "durable codec H w \<longleftrightarrow> (\<forall>f \<in> set (fw_named w # fw_older w). \<exists>s \<in> H. holds_store codec s f)"

lemma durable_mono: "durable codec H w \<Longrightarrow> H \<subseteq> H' \<Longrightarrow> durable codec H' w"
  unfolding durable_def by blast

lemma durable_renamed:
  assumes "holds_store codec s (Some (b, True))"
  shows "durable codec H w \<Longrightarrow> durable codec (insert s H) (renamed b w)" and "durable codec {s} (settled b w)"
  using assms by (auto simp: durable_def fw_named_def)

lemma power_loss_durable:
  assumes "power_loss w w'" and "durable codec H w"
  obtains s where "s \<in> H" and "holds_store codec s (map_option (\<lambda>b. (b, True)) (fw_snapshot w'))"
proof -
  from assms(1) obtain f where "f \<in> set (fw_named w # fw_older w)" and f: "survives f (fw_snapshot w')"
    unfolding power_loss_def by blast
  then obtain s where s: "s \<in> H" "holds_store codec s f" using assms(2) unfolding durable_def by blast
  with f have "map_option (\<lambda>b. (b, True)) (fw_snapshot w') = f" by (auto simp: holds_store_def)
  with s that show thesis by blast
qed

definition bus_genuine :: "nostr_lib \<Rightarrow> file_bus \<Rightarrow> bool" where
  "bus_genuine lib bus \<longleftrightarrow> (\<forall>v \<in> file_contents bus. verify lib (as_event v))"

lemma committed_holds:
  assumes "re_insert lib v now s = Some (True, candidate)" and "snap_encode codec 1 (re_snapshot candidate now) = Some b"
    and "length b \<le> MAX_RETAINED_SNAPSHOT_BYTES"
  shows "holds_store codec candidate (Some (b, True))"
  using assms re_insert_current[OF assms(1)] unfolding holds_store_def by blast

text \<open>
  Whatever happens inside a publication, and wherever it stops, only the store it leaves is added to what may
  survive; when it is acknowledged nothing else survives.
\<close>

lemma durable_publish_run:
  assumes "file_invar lib bus" and "file_publish_run lib codec env v src bus = Some ((r, bus'), states)"
  shows "durable codec H (fb_world bus) \<Longrightarrow> mid \<in> insert bus' (set states) \<Longrightarrow>
      durable codec (H \<union> set_option (fb_state bus')) (fb_world mid)"
    and "r = Inr rep \<Longrightarrow> rep_accepted rep \<Longrightarrow> durable codec (set_option (fb_state bus')) (fb_world bus')"
proof -
  from assms(1) show "durable codec (H \<union> set_option (fb_state bus')) (fb_world mid)"
    if d: "durable codec H (fb_world bus)" and mid: "mid \<in> insert bus' (set states)"
  proof (cases rule: file_publish_run_cases[of lib bus codec env v src])
    case (unchanged r' states')
    with assms(2) mid d show ?thesis by (auto intro: durable_mono)
  next
    case (committed r' s candidate b bus1 states')
    note rn = durable_renamed[OF committed_holds[OF committed(2-4)]]
    from committed assms(2) mid have "fb_world mid \<in> {fb_world bus, renamed b (fb_world bus), settled b (fb_world bus)}"
      and st: "fb_state bus' = Some candidate" by (auto split: if_splits)
    then consider "fb_world mid = fb_world bus" | "fb_world mid = renamed b (fb_world bus)" | "fb_world mid = settled b (fb_world bus)"
      by blast
    then show ?thesis
    proof cases
      case 1
      then show ?thesis using durable_mono[OF d] by simp
    next
      case 2
      then show ?thesis using rn(1)[OF d] st by simp
    next
      case 3
      then show ?thesis using durable_mono[OF rn(2)] st by simp
    qed
  qed
  from assms(1) show "durable codec (set_option (fb_state bus')) (fb_world bus')" if "r = Inr rep" and "rep_accepted rep"
  proof (cases rule: file_publish_run_cases[of lib bus codec env v src])
    case (committed r' s candidate b bus1 states')
    then show ?thesis using that assms(2) durable_renamed(2)[OF committed_holds[OF committed(2-4)]] by auto
  qed (use that assms(2) in auto)
qed

lemma file_publish_runs:
  "file_publish lib codec env v src bus = Some (r, bus') \<longleftrightarrow>
     (\<exists>states. file_publish_run lib codec env v src bus = Some ((r, bus'), states))"
  by (auto simp: file_publish_def)

lemma bus_genuine_publish:
  assumes "file_invar lib bus" and "file_publish lib codec env v src bus = Some (r, bus')"
    and "bus_genuine lib bus" and "verify lib (as_event v)"
  shows "bus_genuine lib bus'"
proof -
  have "file_contents bus' \<subseteq> insert v (file_contents bus)"
    using store.publish_returns[OF assms(1), of codec env v src] assms(2) by auto
  with assms(3,4) show ?thesis unfolding bus_genuine_def by blast
qed

lemma policy_publish:
  assumes "file_invar lib bus" and "file_publish lib codec env v src bus = Some (r, bus')"
  shows "map_option re_policy (fb_state bus') = map_option re_policy (fb_state bus)"
  using assms(1)
proof (cases rule: file_publish_cases[of lib bus codec env v src])
  case (committed r' s candidate b)
  then show ?thesis using assms re_insert_ok[of lib s v "snd env"] by (auto simp: file_invar_def)
qed (use assms in auto)

definition bus_sound :: "nostr_lib \<Rightarrow> event_retention_policy \<Rightarrow> file_bus \<Rightarrow> bool" where
  "bus_sound lib policy bus \<longleftrightarrow>
     file_invar lib bus \<and> bus_genuine lib bus \<and> map_option re_policy (fb_state bus) = Some policy"

text \<open>The stores memory held before, between and after a sequence of calls.\<close>

definition stores_during ::
  "nostr_lib \<Rightarrow> snapshot_codec \<Rightarrow> ((publish_faults \<times> u64) \<times> verified_event \<times> event_source) list \<Rightarrow> file_bus \<Rightarrow> retained set" where
  "stores_during lib codec ps bus =
     {s. \<exists>i bus'. i \<le> length ps \<and> publish_all (file_publish lib codec) (take i ps) bus = Some bus' \<and> fb_state bus' = Some s}"

lemma stores_during_Cons:
  assumes "file_publish lib codec env v src bus = Some (r, bus1)"
  shows "set_option (fb_state bus) \<union> stores_during lib codec ps bus1 \<subseteq> stores_during lib codec ((env, v, src) # ps) bus"
proof -
  have "s \<in> stores_during lib codec ((env, v, src) # ps) bus" if "fb_state bus = Some s" for s
    using that unfolding stores_during_def by (intro CollectI exI[of _ 0] exI[of _ bus]) simp
  moreover have "s \<in> stores_during lib codec ((env, v, src) # ps) bus" if "s \<in> stores_during lib codec ps bus1" for s
  proof -
    from that obtain i bus' where "i \<le> length ps" "publish_all (file_publish lib codec) (take i ps) bus1 = Some bus'" "fb_state bus' = Some s"
      unfolding stores_during_def by blast
    with assms show ?thesis unfolding stores_during_def by (intro CollectI exI[of _ "Suc i"] exI[of _ bus']) simp
  qed
  ultimately show ?thesis by auto
qed

lemma bus_sound_publish:
  assumes "bus_sound lib policy bus" and "file_publish lib codec env v src bus = Some (r, bus')" and "verify lib (as_event v)"
  shows "bus_sound lib policy bus'"
proof -
  have inv: "file_invar lib bus" using assms(1) by (simp add: bus_sound_def)
  then have "file_invar lib bus'" using store.publish_returns[OF inv, of codec env v src] assms(2) by auto
  then show ?thesis
    using assms(1,3) bus_genuine_publish[OF inv assms(2)] policy_publish[OF inv assms(2)] by (auto simp: bus_sound_def)
qed

abbreviation genuine_calls :: "nostr_lib \<Rightarrow> ('env \<times> verified_event \<times> event_source) list \<Rightarrow> bool" where
  "genuine_calls lib ps \<equiv> \<forall>(_, u, _) \<in> set ps. verify lib (as_event u)"

lemma bus_sound_publish_all:
  assumes "bus_sound lib policy bus" and "publish_all (file_publish lib codec) ps bus = Some bus'" and "genuine_calls lib ps"
  shows "bus_sound lib policy bus'"
  using assms
proof (induction ps arbitrary: bus)
  case (Cons p ps)
  obtain env v src where p: "p = (env, v, src)" by (cases p)
  have inv: "file_invar lib bus" using Cons.prems(1) by (simp add: bus_sound_def)
  obtain r bus1 where 1: "file_publish lib codec env v src bus = Some (r, bus1)"
    using store.publish_returns[OF inv] by blast
  show ?case using Cons.IH[of bus1] bus_sound_publish[OF Cons.prems(1) 1] Cons.prems(2,3) 1 p by auto
qed simp

lemma stores_during_sound:
  assumes "bus_sound lib policy bus" and "genuine_calls lib ps" and "s \<in> stores_during lib codec ps bus"
  shows "retained_ok lib s \<and> stored_genuine lib s \<and> re_policy s = policy"
proof -
  from assms(3) obtain i bus' where b: "publish_all (file_publish lib codec) (take i ps) bus = Some bus'" "fb_state bus' = Some s"
    unfolding stores_during_def by blast
  have "genuine_calls lib (take i ps)" using assms(2) set_take_subset by fast
  from bus_sound_publish_all[OF assms(1) b(1) this] b(2) show ?thesis
    by (auto simp: bus_sound_def file_invar_def bus_genuine_def file_contents_def stored_genuine_def)
qed

text \<open>
  From a durable disk, a stop at any moment of any sequence of calls, inside the last one too, leaves one of the
  stores memory held along the way.
\<close>

lemma durable_publish_all:
  assumes "file_invar lib bus" and "publish_all (file_publish lib codec) ps bus = Some bus1"
    and "file_publish_run lib codec env v src bus1 = Some ((r, bus2), states)" and "mid \<in> insert bus2 (set states)"
    and "durable codec H (fb_world bus)"
  shows "durable codec (H \<union> stores_during lib codec (ps @ [(env, v, src)]) bus) (fb_world mid)"
  using assms
proof (induction ps arbitrary: bus H)
  case Nil
  then have run: "file_publish_run lib codec env v src bus = Some ((r, bus2), states)" by simp
  have "set_option (fb_state bus2) \<subseteq> stores_during lib codec [(env, v, src)] bus"
  proof
    fix s assume "s \<in> set_option (fb_state bus2)"
    with run show "s \<in> stores_during lib codec [(env, v, src)] bus"
      unfolding stores_during_def by (intro CollectI exI[of _ 1] exI[of _ bus2]) (simp add: file_publish_def)
  qed
  with durable_publish_run(1)[OF Nil.prems(1) run Nil.prems(5,4)] show ?case by (auto intro: durable_mono)
next
  case (Cons p ps)
  obtain env' u src' where p: "p = (env', u, src')" by (cases p)
  obtain r' busp where 1: "file_publish lib codec env' u src' bus = Some (r', busp)" "file_invar lib busp"
    using store.publish_returns[OF Cons.prems(1)] by blast
  obtain st where run: "file_publish_run lib codec env' u src' bus = Some ((r', busp), st)"
    using 1(1) unfolding file_publish_runs by blast
  have d: "durable codec (H \<union> set_option (fb_state busp)) (fb_world busp)"
    using durable_publish_run(1)[OF Cons.prems(1) run Cons.prems(5), of busp] by simp
  have "publish_all (file_publish lib codec) ps busp = Some bus1" using Cons.prems(2) 1(1) p by simp
  from Cons.IH[OF 1(2) this Cons.prems(3,4) d]
  have "durable codec (H \<union> set_option (fb_state busp) \<union> stores_during lib codec (ps @ [(env, v, src)]) busp) (fb_world mid)" .
  moreover have "set_option (fb_state busp) \<subseteq> stores_during lib codec (ps @ [(env, v, src)]) busp"
    unfolding stores_during_def by (auto intro: exI[of _ 0])
  moreover have "stores_during lib codec (ps @ [(env, v, src)]) busp \<subseteq> stores_during lib codec ((p # ps) @ [(env, v, src)]) bus"
    using stores_during_Cons[OF 1(1), of "ps @ [(env, v, src)]"] p by simp
  ultimately show ?case by (auto intro: durable_mono)
qed

lemma file_load_ok:
  assumes "retained_ok lib s0" and "file_load lib codec content now s0 = Some (Inr s)"
  shows "retained_ok lib s \<and> re_policy s = re_policy s0 \<and> (stored_genuine lib s0 \<longrightarrow> stored_genuine lib s)"
proof -
  obtain es where "re_restore lib es now s0 = Some s"
    using assms(2) by (auto simp: file_load_def Let_def split: if_splits option.splits)
  then show ?thesis using re_restore_ok[OF assms(1), of es now] by auto
qed

lemma file_open_sound:
  assumes "file_open lib codec policy faults now w = Some (Inr s, w')"
  shows "bus_sound lib policy \<lparr>fb_state = Some s, fb_world = w'\<rparr>"
proof -
  obtain s0 where new: "re_new policy = Inr s0"
    using assms by (auto simp: file_open_def split: sum.splits)
  have "s = s0 \<or> (\<exists>content. file_load lib codec content now s0 = Some (Inr s))"
    using assms new
    by (auto simp: file_open_def bind_eq_Some_conv split: option.splits if_splits sum.splits) (metis sum.exhaust)
  then have "retained_ok lib s \<and> re_policy s = policy \<and> stored_genuine lib s"
    using file_load_ok[OF re_new_ok(1)[OF new], of lib codec] re_new_ok[OF new] by blast
  then show ?thesis
    by (auto simp: bus_sound_def file_invar_def bus_genuine_def file_contents_def stored_genuine_def)
qed

definition no_open_faults :: open_faults where
  "no_open_faults = \<lparr>of_create_dir = None, of_lock_file = None, of_open = None, of_read = None\<rparr>"

lemma reopen_stored:
  assumes law: "codec_law lib codec" and s: "retained_ok lib s" "stored_genuine lib s" "re_policy s = policy"
    and new: "re_new policy = Inr s0" and held: "holds_store codec s (map_option (\<lambda>b. (b, True)) (fw_snapshot w))"
    and free: "\<not> fw_locked w"
  shows "\<exists>r w'. file_open lib codec policy faults now w = Some (r, w') \<and>
    (case r of
       Inl err \<Rightarrow> faults \<noteq> no_open_faults \<and> w' = w
     | Inr s' \<Rightarrow> re_events s' = filter (\<lambda>x. retained_event_is_current (entry_event x) now) (re_events s))"
proof -
  obtain b t where snap: "fw_snapshot w = Some b" and enc: "snap_encode codec 1 (re_snapshot s t) = Some b"
    and len: "length b \<le> MAX_RETAINED_SNAPSHOT_BYTES"
    and cur: "\<forall>x \<in> set (re_events s). retained_event_is_current (entry_event x) t"
    using held unfolding holds_store_def by auto
  have "list_all (verify lib) (re_snapshot s t)"
    using s(2) by (auto simp: list_all_iff re_snapshot_def stored_genuine_def)
  then have dec: "snap_decode codec b = Some (1, map Some (re_snapshot s t))" using law enc unfolding codec_law_def by blast
  obtain s' where s': "re_restore lib (re_snapshot s t) now s0 = Some s'" and "re_events s' =
      filter (\<lambda>x. retained_event_is_current (entry_event x) t \<and> retained_event_is_current (entry_event x) now) (re_events s)"
    using restore_snapshot[OF s(1,2)] new s(3) by blast
  then have evs: "re_events s' = filter (\<lambda>x. retained_event_is_current (entry_event x) now) (re_events s)"
    using cur by (simp cong: filter_cong)
  have "List.map_filter (\<lambda>x. x) (map Some (re_snapshot s t)) = re_snapshot s t"
    by (simp add: List.map_filter_def comp_def)
  then have "file_load lib codec b now s0 = Some (Inr s')" using dec len s' by (simp add: file_load_def)
  then show ?thesis
    using new snap evs free
    by (cases "first_fault [of_create_dir faults, of_lock_file faults]"; cases "of_open faults"; cases "of_read faults")
      (auto simp: file_open_def no_open_faults_def)
qed

text \<open>
  C21: an acknowledged publication is durable. Take a bus opened on any disk, after any publications with any file faults,
  in which one publication of a verified event is acknowledged, followed by any further publications with
  any faults, and one more during which the process stops or power is lost between any two of its operations
  (in particular between the rename and the update of memory, or before the directory is flushed). What is
  then under the path is a complete snapshot of a store that memory held at the acknowledgement or after a
  later call, never an older one: opening it again yields exactly its still current entries, and an
  open that meets a fault leaves the disk as it is. After the stop the path may name any file it named since the
  directory was last flushed, and a file that was not flushed may hold anything; the directory itself
  is taken to survive.
\<close>

theorem file_store_durable:
  assumes "codec_law lib codec"
    and "file_open lib codec policy faults0 t0 w0 = Some (Inr s0, w)"
    and "publish_all (file_publish lib codec) ps \<lparr>fb_state = Some s0, fb_world = w\<rparr> = Some bus0"
    and "file_publish lib codec env v src bus0 = Some (Inr rep, bus1)" and "rep_accepted rep"
    and "publish_all (file_publish lib codec) ps' bus1 = Some bus"
    and "file_publish_run lib codec env' v' src' bus = Some ((r', bus2), states)" and "mid \<in> insert bus2 (set states)"
    and "power_loss (fb_world mid) w'"
    and "\<forall>(_, u, _) \<in> set (ps @ (env, v, src) # ps' @ [(env', v', src')]). verify lib (as_event u)"
  shows "\<exists>i busi s r w''. i \<le> length ps' + 1 \<and>
    publish_all (file_publish lib codec) (take i (ps' @ [(env', v', src')])) bus1 = Some busi \<and> fb_state busi = Some s \<and>
    file_open lib codec policy faults now w' = Some (r, w'') \<and>
    (case r of
       Inl err \<Rightarrow> faults \<noteq> no_open_faults \<and> w'' = w'
     | Inr s' \<Rightarrow> re_events s' = filter (\<lambda>x. retained_event_is_current (entry_event x) now) (re_events s))"
proof -
  let ?ps = "ps' @ [(env', v', src')]"
  obtain e0 where new: "re_new policy = Inr e0"
    using assms(2) by (auto simp: file_open_def split: sum.splits)
  have g: "genuine_calls lib ps" "verify lib (as_event v)" "genuine_calls lib ?ps" using assms(10) by auto
  have s0: "bus_sound lib policy bus0" using bus_sound_publish_all[OF file_open_sound[OF assms(2)] assms(3) g(1)] .
  have s1: "bus_sound lib policy bus1" using bus_sound_publish[OF s0 assms(4) g(2)] .
  have inv: "file_invar lib bus0" "file_invar lib bus1" using s0 s1 by (simp_all add: bus_sound_def)
  obtain st where "file_publish_run lib codec env v src bus0 = Some ((Inr rep, bus1), st)"
    using assms(4) unfolding file_publish_runs by blast
  from durable_publish_run(2)[OF inv(1) this refl assms(5)]
  have "durable codec (set_option (fb_state bus1)) (fb_world bus1)" .
  from durable_publish_all[OF inv(2) assms(6,7,8) this]
  have "durable codec (set_option (fb_state bus1) \<union> stores_during lib codec ?ps bus1) (fb_world mid)" .
  moreover have "set_option (fb_state bus1) \<subseteq> stores_during lib codec ?ps bus1"
    unfolding stores_during_def by (auto intro: exI[of _ 0])
  ultimately have "durable codec (stores_during lib codec ?ps bus1) (fb_world mid)" by (auto intro: durable_mono)
  with assms(9) obtain s where s: "s \<in> stores_during lib codec ?ps bus1"
    and h: "holds_store codec s (map_option (\<lambda>b. (b, True)) (fw_snapshot w'))" by (rule power_loss_durable)
  have free: "\<not> fw_locked w'" using assms(9) by (simp add: power_loss_def)
  from stores_during_sound[OF s1 g(3) s] reopen_stored[OF assms(1) _ _ _ new h free]
  obtain r w'' where "file_open lib codec policy faults now w' = Some (r, w'')" and "case r of
       Inl err \<Rightarrow> faults \<noteq> no_open_faults \<and> w'' = w'
     | Inr s' \<Rightarrow> re_events s' = filter (\<lambda>x. retained_event_is_current (entry_event x) now) (re_events s)" by blast
  with s show ?thesis unfolding stores_during_def by auto
qed

end
