(* ===== verification/Retained_Merge.thy ===== *)
theory Retained_Merge
  imports Retained_Store
begin

text \<open>
  The retained store as a replicated register map. While the limits are not reached, the contents after any
  sequence of offers are the abstract last-writer-wins merge \<open>winners\<close> of the set of offers; stores that
  were offered the same events in different orders are equal.
\<close>

definition encoded_len :: "nostr_lib \<Rightarrow> verified_event \<Rightarrow> nat" where
  "encoded_len lib v = (case event_json lib (as_event v) of None \<Rightarrow> 0 | Some b \<Rightarrow> length b)"

abbreviation coord :: "nostr_lib \<Rightarrow> verified_event \<Rightarrow> coordinate option" where
  "coord lib v \<equiv> event_coordinate lib (as_event v)"

abbreviation beats :: "verified_event \<Rightarrow> verified_event \<Rightarrow> bool" where
  "beats w v \<equiv> event_supersedes (as_event w) (as_event v)"

definition offered :: "nostr_lib \<Rightarrow> event_retention_policy \<Rightarrow> u64 \<Rightarrow> verified_event list \<Rightarrow> verified_event set" where
  "offered lib policy now es = {v \<in> set es. admissible lib policy now v (encoded_len lib v)}"

definition winners :: "nostr_lib \<Rightarrow> event_retention_policy \<Rightarrow> u64 \<Rightarrow> verified_event list \<Rightarrow> verified_event set" where
  "winners lib policy now es =
     {v \<in> offered lib policy now es. coord lib v \<noteq> None \<longrightarrow>
        (\<forall>w \<in> offered lib policy now es. coord lib w = coord lib v \<longrightarrow> \<not> beats w v)}"

definition no_pressure :: "nostr_lib \<Rightarrow> event_retention_policy \<Rightarrow> verified_event list \<Rightarrow> bool" where
  "no_pressure lib policy es \<longleftrightarrow>
     length es \<le> rp_max_events policy \<and>
     sum_list (map (\<lambda>v. encoded_len lib v + 1) es) + 128 \<le> MAX_RETAINED_SNAPSHOT_BYTES"

abbreviation stored :: "retained \<Rightarrow> verified_event set" where
  "stored s \<equiv> fst ` set (re_events s)"

definition merged :: "nostr_lib \<Rightarrow> u64 \<Rightarrow> retained \<Rightarrow> verified_event list \<Rightarrow> bool" where
  "merged lib now s es \<longleftrightarrow>
     retained_ok lib s \<and> stored s \<subseteq> offered lib (re_policy s) now es \<and>
     (\<forall>v \<in> offered lib (re_policy s) now es. v \<in> stored s \<or>
        (\<exists>w \<in> stored s. coord lib v \<noteq> None \<and> coord lib w = coord lib v \<and> beats w v))"

lemma beats_trans: "beats u v \<Longrightarrow> beats v w \<Longrightarrow> beats u w"
  unfolding supersedes_rank by (rule less_trans)

lemma beats_irrefl: "\<not> beats v v"
  unfolding supersedes_rank by simp

lemma admissible_len: "admissible lib policy now v n \<Longrightarrow> n = encoded_len lib v"
  by (auto simp: admissible_def entry_ok_def encoded_len_def)

lemma entry_len: "retained_ok lib s \<Longrightarrow> x \<in> set (re_events s) \<Longrightarrow> snd x = encoded_len lib (fst x)"
  by (auto simp: retained_ok_def events_ok_def entry_ok_def encoded_len_def)

lemma one_stored:
  assumes "retained_ok lib s" and "v \<in> stored s" and "w \<in> stored s" and "coord lib v \<noteq> None"
    and "coord lib w = coord lib v"
  shows "w = v"
proof -
  obtain x y where "x \<in> set (re_events s)" "fst x = v" "y \<in> set (re_events s)" "fst y = w"
    using assms(2,3) by blast
  then have "x = y"
    using assms(1,4,5) unfolding retained_ok_def events_ok_def one_per_coordinate_def by metis
  then show ?thesis using \<open>fst x = v\<close> \<open>fst y = w\<close> by simp
qed

lemma merged_winners:
  assumes "merged lib now s es"
  shows "stored s = winners lib (re_policy s) now es"
proof -
  note m = assms[unfolded merged_def]
  have "v \<in> winners lib (re_policy s) now es" if v: "v \<in> stored s" for v
  proof -
    have "\<not> beats w v" if "w \<in> offered lib (re_policy s) now es" "coord lib w = coord lib v" "coord lib v \<noteq> None" for w
      using m that v one_stored[of lib s v] beats_irrefl beats_trans by metis
    with m v show ?thesis unfolding winners_def by blast
  qed
  moreover have "v \<in> stored s" if "v \<in> winners lib (re_policy s) now es" for v
    using m that unfolding winners_def by blast
  ultimately show ?thesis by blast
qed

lemma distinct_sum_le:
  assumes "distinct xs" and "set xs \<subseteq> set ys"
  shows "sum_list (map f xs) \<le> (sum_list (map f ys) :: nat)"
proof -
  have "mset xs \<subseteq># mset ys"
    using assms by (intro mset_subset_eqI) (auto simp: distinct_count_atmost_1 count_eq_zero_iff not_in_iff Suc_le_eq
      split: if_splits)
  then obtain zs where "mset ys = mset xs + zs" by (auto simp: mset_subset_eq_exists_conv)
  then have "sum_mset (image_mset f (mset ys)) = sum_mset (image_mset f (mset xs)) + sum_mset (image_mset f zs)"
    by simp
  then show ?thesis by (simp flip: mset_map sum_mset_sum_list)
qed

lemma admit_without_pressure:
  assumes ok: "retained_ok lib s" and sub: "stored s \<subseteq> set es" and fit: "no_pressure lib (re_policy s) (es @ [v])"
    and adm: "admissible lib (re_policy s) now v n" and fresh: "ev_id (as_event v) \<notin> entry_id ` set (re_events s)"
  shows "\<exists>evs. re_admit lib v n now s = Some (True, s\<lparr>re_events := evs, re_bytes := entries_bytes evs\<rparr>) \<and>
    set evs = insert (v, n) (set (kept_entries lib v now (re_events s)))"
proof -
  let ?l = "kept_entries lib v now (re_events s) @ [(v, n)]"
  let ?o = "sort_key rank ?l"
  have sorted: "events_ok lib (re_policy s) ?o"
    using ok adm fresh by (intro events_ok_admit) (auto simp: retained_ok_def admissible_def)
  have d: "distinct (map entry_id ?o)" using sorted unfolding events_ok_def by blast
  have "inj_on entry_id (set ?o)" and "distinct ?o" using d unfolding distinct_map by blast+
  then have "distinct (map fst ?o)" unfolding distinct_map
    by (auto simp: inj_on_def)
  moreover have "set (map fst ?o) \<subseteq> set (es @ [v])"
    using sub by (auto simp: kept_entries_def)
  ultimately have le: "sum_list (map f (map fst ?o)) \<le> sum_list (map f (es @ [v]))" for f :: "verified_event \<Rightarrow> nat"
    by (rule distinct_sum_le)
  have "map (\<lambda>x. snd x + 1) ?o = map (\<lambda>v. encoded_len lib v + 1) (map fst ?o)"
    using entry_len[OF ok] admissible_len[OF adm] by (auto simp: kept_entries_def)
  then have "entries_bytes ?o = sum_list (map (\<lambda>v. encoded_len lib v + 1) (map fst ?o))"
    unfolding entries_bytes_def by (rule arg_cong)
  then have "entries_bytes ?o + 128 \<le> MAX_RETAINED_SNAPSHOT_BYTES"
    using le[of "\<lambda>v. encoded_len lib v + 1"] fit unfolding no_pressure_def by linarith
  moreover have "length ?o \<le> rp_max_events (re_policy s)"
    using le[of "\<lambda>_. 1"] fit unfolding no_pressure_def sum_list_triv map_map by (simp add: comp_def sum_list_triv)
  ultimately have "trim_retained (rp_max_events (re_policy s)) ?o (entries_bytes ?o) = Some (?o, entries_bytes ?o)"
    by (intro trim_fits)
  moreover have "list_ex (\<lambda>x. entry_id x = ev_id (as_event v)) ?o" by (auto simp: list_ex_iff)
  ultimately show ?thesis
    by (intro exI[of _ ?o]) (simp add: re_admit_def kept_entries_def Let_def)
qed

lemma offered_snoc:
  "offered lib policy now (es @ [v]) =
     (if admissible lib policy now v (encoded_len lib v) then insert v (offered lib policy now es)
      else offered lib policy now es)"
  by (auto simp: offered_def)

lemma kept_stored:
  assumes "stored s \<subseteq> offered lib policy now es"
  shows "fst ` set (kept_entries lib v now (re_events s)) =
    {u \<in> stored s. coord lib v = None \<or> coord lib u \<noteq> coord lib v}"
proof -
  have "retained_event_is_current (entry_event x) now" if "x \<in> set (re_events s)" for x
    using subsetD[OF assms imageI[OF that]] by (simp add: offered_def admissible_def)
  then show ?thesis unfolding kept_entries_def by force
qed

lemma merged_admit:
  assumes m: "merged lib now s es" and st: "stored s' = insert v {u \<in> stored s. coord lib v = None \<or> coord lib u \<noteq> coord lib v}"
    and ok: "retained_ok lib s'" and policy: "re_policy s' = re_policy s"
    and adm: "admissible lib (re_policy s) now v (encoded_len lib v)" and nout: "\<not> outranked lib v (re_events s)"
  shows "merged lib now s' (es @ [v])"
proof -
  note m' = m[unfolded merged_def]
  have beaten: "beats v u" if "u \<in> stored s" "coord lib v \<noteq> None" "coord lib u = coord lib v" for u
    using nout that unfolding outranked_def by blast
  have cover: "u \<in> stored s' \<or> (\<exists>w \<in> stored s'. coord lib u \<noteq> None \<and> coord lib w = coord lib u \<and> beats w u)"
    if u: "u \<in> offered lib (re_policy s) now es" for u
  proof -
    obtain w where w: "w \<in> stored s"
      "w = u \<or> coord lib u \<noteq> None \<and> coord lib w = coord lib u \<and> beats w u" using m' u by blast
    show ?thesis
    proof (cases "coord lib v = None \<or> coord lib w \<noteq> coord lib v")
      case True
      then show ?thesis using w st by blast
    next
      case False
      then have "beats v w" using beaten w(1) by simp
      then have "beats v u" using w(2) beats_trans by blast
      then show ?thesis using w(2) False st by auto
    qed
  qed
  have "stored s' \<subseteq> insert v (offered lib (re_policy s) now es)" using st m' by blast
  moreover have "\<forall>u \<in> insert v (offered lib (re_policy s) now es). u \<in> stored s' \<or>
      (\<exists>w \<in> stored s'. coord lib u \<noteq> None \<and> coord lib w = coord lib u \<and> beats w u)"
    using cover st by blast
  ultimately show ?thesis
    unfolding merged_def policy offered_snoc using ok adm by (simp only: if_True simp_thms)
qed

lemma merged_insert:
  assumes m: "merged lib now s es" and inj: "inj_on (\<lambda>v. ev_id (as_event v)) (set (es @ [v]))"
    and fit: "no_pressure lib (re_policy s) (es @ [v])"
  shows "\<exists>b s'. re_insert lib v now s = Some (b, s') \<and> merged lib now s' (es @ [v]) \<and> re_policy s' = re_policy s"
proof -
  note m' = m[unfolded merged_def]
  have sub: "stored s \<subseteq> set es" using m' unfolding offered_def by blast
  have refuse: ?thesis if "re_insert lib v now s = Some (False, s)" and "merged lib now s (es @ [v])"
    using that by blast
  consider (inadmissible) "\<not> admissible lib (re_policy s) now v (encoded_len lib v)"
    | (duplicate) "admissible lib (re_policy s) now v (encoded_len lib v)" "ev_id (as_event v) \<in> entry_id ` set (re_events s)"
    | (outranked) "admissible lib (re_policy s) now v (encoded_len lib v)"
        "ev_id (as_event v) \<notin> entry_id ` set (re_events s)" "outranked lib v (re_events s)"
    | (admit) "admissible lib (re_policy s) now v (encoded_len lib v)"
        "ev_id (as_event v) \<notin> entry_id ` set (re_events s)" "\<not> outranked lib v (re_events s)"
    by blast
  then show ?thesis
  proof cases
    case inadmissible
    then have "re_insert lib v now s = Some (False, s)"
      by (intro re_insert_refuses) (metis admissible_len)
    then show ?thesis using refuse inadmissible m by (simp add: merged_def offered_snoc)
  next
    case duplicate
    then obtain u where u: "u \<in> stored s" "ev_id (as_event u) = ev_id (as_event v)" by force
    then have "u = v" using inj_onD[OF inj u(2)] subsetD[OF sub u(1)] by simp
    then have "merged lib now s (es @ [v])" using m' u duplicate(1) by (auto simp: merged_def offered_snoc)
    then show ?thesis using refuse re_insert_refuses duplicate(2) by blast
  next
    case outranked
    then obtain x where x: "x \<in> set (re_events s)" "coord lib v \<noteq> None"
      "event_coordinate lib (entry_event x) = coord lib v" "\<not> event_supersedes (as_event v) (entry_event x)"
      unfolding outranked_def by blast
    have "entry_id x \<noteq> ev_id (as_event v)" using outranked(2) x(1) by (metis imageI)
    then have "beats (fst x) v" using supersedes_total x(4) by blast
    moreover have "fst x \<in> stored s" using x(1) by (rule imageI)
    ultimately have "\<exists>w \<in> stored s. coord lib v \<noteq> None \<and> coord lib w = coord lib v \<and> beats w v"
      using x(2,3) by blast
    then have "merged lib now s (es @ [v])"
      unfolding merged_def offered_snoc using m' outranked(1) by simp blast
    then show ?thesis using refuse re_insert_refuses outranked(3) by blast
  next
    case admit
    obtain evs where ins: "re_insert lib v now s = Some (True, s\<lparr>re_events := evs, re_bytes := entries_bytes evs\<rparr>)"
      and evs: "set evs = insert (v, encoded_len lib v) (set (kept_entries lib v now (re_events s)))"
      using admit_without_pressure[OF _ sub fit admit(1,2)] m' re_insert_admits[OF admit] by auto
    let ?s = "s\<lparr>re_events := evs, re_bytes := entries_bytes evs\<rparr>"
    have "retained_ok lib ?s" using re_insert_ok[of lib s v now] m' ins by auto
    moreover have "stored ?s = insert v {u \<in> stored s. coord lib v = None \<or> coord lib u \<noteq> coord lib v}"
      using evs kept_stored[of s lib "re_policy s" now es v] m' by simp
    ultimately have "merged lib now ?s (es @ [v])" using m admit(1,3) by (intro merged_admit) simp_all
    then show ?thesis using ins by auto
  qed
qed

abbreviation offers :: "u64 \<Rightarrow> verified_event list \<Rightarrow> retained_op list" where
  "offers now es \<equiv> map (\<lambda>v. Insert v now) es"

lemma no_pressure_take: "no_pressure lib policy (xs @ ys) \<Longrightarrow> no_pressure lib policy xs"
  by (simp add: no_pressure_def)

lemma merged_run:
  assumes "merged lib now s done" and "inj_on (\<lambda>v. ev_id (as_event v)) (set (done @ es))"
    and "no_pressure lib (re_policy s) (done @ es)"
  shows "\<exists>s'. re_run lib (offers now es) s = Some s' \<and> merged lib now s' (done @ es) \<and> re_policy s' = re_policy s"
  using assms
proof (induction es arbitrary: s "done")
  case (Cons v es)
  have "inj_on (\<lambda>v. ev_id (as_event v)) (set (done @ [v]))"
    using Cons.prems(2) by (rule inj_on_subset) auto
  moreover have "no_pressure lib (re_policy s) (done @ [v])"
    using Cons.prems(3) no_pressure_take[of lib _ "done @ [v]" es] by simp
  ultimately obtain b s' where "re_insert lib v now s = Some (b, s')" and "merged lib now s' (done @ [v])"
    and "re_policy s' = re_policy s" using merged_insert[OF Cons.prems(1)] by blast
  with Cons.IH[of s' "done @ [v]"] Cons.prems(2,3) show ?case by simp
qed simp

text \<open>Equal contents as sets are equal as stores: the order is a function of the events.\<close>

lemma retained_unique:
  assumes "retained_ok lib s" and "retained_ok lib t" and "re_policy s = re_policy t" and "stored s = stored t"
  shows "s = t"
proof -
  have sub: "set (re_events a) \<subseteq> set (re_events b)"
    if "retained_ok lib a" "retained_ok lib b" "stored a = stored b" for a b :: retained
  proof
    fix x
    assume x: "x \<in> set (re_events a)"
    then have "fst x \<in> stored b" using that(3) by blast
    then obtain y where "y \<in> set (re_events b)" and "fst y = fst x" by auto
    then show "x \<in> set (re_events b)" using entry_len that(1,2) x by (metis prod.expand)
  qed
  have eq: "set (re_events s) = set (re_events t)" using sub[of s t] sub[of t s] assms by blast
  note ok = assms(1,2)[unfolded retained_ok_def events_ok_def]
  have d: "distinct (map rank (re_events u))" and i: "inj_on rank (set (re_events u))"
    if "distinct (map entry_id (re_events u))" for u :: retained
  proof -
    show "inj_on rank (set (re_events u))"
      using that unfolding distinct_map by (metis (no_types, lifting) inj_on_def newest_first_inj)
    with that show "distinct (map rank (re_events u))" unfolding distinct_map by blast
  qed
  have "re_events s = re_events t"
    using ok eq d i by (intro map_sorted_distinct_set_unique[of rank]) auto
  then show ?thesis using ok assms(3) by simp
qed

text \<open>
  C18: while the limits are not reached, a store that starts empty and is offered events at one clock value refines the last-writer-wins
  merge of what it was offered: after offering events with distinct identifiers it holds exactly the admissible ones that no other admissible event
  with the same replaceable coordinate supersedes. Two stores offered the same events, in any order and with
  any repetitions, end in the same state.
\<close>

theorem retained_merge:
  assumes "re_new policy = Inr s0" and "set es' = set es" and "inj_on (\<lambda>v. ev_id (as_event v)) (set es)"
    and "no_pressure lib policy es" and "no_pressure lib policy es'"
  shows "\<exists>s. re_run lib (offers now es) s0 = Some s \<and> re_run lib (offers now es') s0 = Some s \<and>
    fst ` set (re_events s) = winners lib policy now es"
proof -
  note new = re_new_ok[OF assms(1)]
  have start: "merged lib now s0 []" using new(1) by (simp add: merged_def new(3) offered_def)
  obtain s where s: "re_run lib (offers now es) s0 = Some s" "merged lib now s es" "re_policy s = policy"
    using merged_run[OF start, of es] assms(3,4) new(2) by auto
  obtain t where t: "re_run lib (offers now es') s0 = Some t" "merged lib now t es'" "re_policy t = policy"
    using merged_run[OF start, of es'] assms(2,3,5) new(2) by auto
  have "winners lib policy now es' = winners lib policy now es" by (simp add: winners_def offered_def assms(2))
  then have "s = t"
    using merged_winners[OF s(2)] merged_winners[OF t(2)] s t
    by (intro retained_unique[of lib]) (simp_all add: merged_def)
  then show ?thesis using s t merged_winners[OF s(2)] by auto
qed

section \<open>Instances\<close>

definition demo_policy :: event_retention_policy where
  "demo_policy = \<lparr>rp_filters = [filter_new], rp_max_events = 2\<rparr>"

definition demo_profile :: "event_id \<Rightarrow> u64 \<Rightarrow> verified_event" where
  "demo_profile i t = VerifiedEvent ((demo_event i t 0)\<lparr>ev_pubkey := 9\<rparr>)"

definition demo_note :: "event_id \<Rightarrow> u64 \<Rightarrow> verified_event" where
  "demo_note i t = VerifiedEvent (demo_event i t 4)"

abbreviation demo_empty :: retained where
  "demo_empty \<equiv> \<lparr>re_policy = demo_policy, re_events = [], re_bytes = 0\<rparr>"

lemma demo_new: "re_new demo_policy = Inr demo_empty"
  by (simp add: re_new_def demo_policy_def MAX_RETAINED_EVENTS_def)

lemmas retained_eval =
  re_insert_def re_admit_def Let_def rp_accepts_def accepts_event_def filters_match_def subscription_filters_match_def
  demo_policy_def demo_lib_def demo_match_def demo_event_def filter_new_def retained_event_is_current_def
  event_coordinate_def event_supersedes_def newest_first_def entries_bytes_def trim_retained.simps
  MAX_RETAINED_EVENT_BYTES_def MAX_RETAINED_SNAPSHOT_BYTES_def sat_add_def

lemma demo_note_run:
  "re_run demo_lib (offers 10 [demo_note 7 1]) demo_empty =
     Some \<lparr>re_policy = demo_policy, re_events = [(demo_note 7 1, 100)], re_bytes = 101\<rparr>"
  by (simp add: retained_eval demo_note_def)

theorem retained_store_invariant_witness:
  "\<exists>s. re_run demo_lib (offers 10 [demo_note 7 1, demo_note 8 2, demo_note 9 3]) demo_empty = Some s \<and>
     length (re_events s) \<le> 2 \<and> re_bytes s = sum_list (map (\<lambda>x. snd x + 1) (re_events s))"
  using retained_store_invariant[OF demo_new, of demo_lib "offers 10 [demo_note 7 1, demo_note 8 2, demo_note 9 3]"]
  by (auto simp: demo_policy_def)

theorem retained_snapshot_roundtrip_witness:
  "\<exists>s. re_restore demo_lib (re_snapshot \<lparr>re_policy = demo_policy, re_events = [(demo_note 7 1, 100)], re_bytes = 101\<rparr> 20) 20
     demo_empty = Some s \<and> re_events s = [(demo_note 7 1, 100)]"
proof -
  have "list_all (op_genuine demo_lib) (offers 10 [demo_note 7 1])"
    using demo_event_verifies by (simp add: demo_note_def)
  moreover have "retained_event_is_current (as_event (demo_note 7 1)) 20"
    by (simp add: demo_note_def retained_event_is_current_def demo_event_def sat_add_def)
  ultimately show ?thesis using retained_snapshot_roundtrip[OF demo_new demo_note_run, of 20] by auto
qed

theorem retained_query_reference_witness:
  "re_query demo_lib [filter_new] None 10 \<lparr>re_policy = demo_policy, re_events = [(demo_note 7 1, 100)], re_bytes = 101\<rparr> =
     [demo_note 7 1]"
proof -
  have "retained_event_is_current (as_event (demo_note 7 1)) 10" and "match_event demo_lib filter_new (as_event (demo_note 7 1))"
    by (simp_all add: demo_note_def retained_event_is_current_def demo_event_def sat_add_def demo_lib_def demo_match_def
      filter_new_def)
  then show ?thesis
    using retained_query_reference[OF demo_new demo_note_run, of "[filter_new]" None 10]
    by (simp add: first_matches_def demo_policy_def filter_new_def)
qed

theorem retained_merge_witness:
  "\<exists>s. re_run demo_lib (offers 10 [demo_profile 5 1, demo_profile 6 2]) demo_empty = Some s \<and>
     re_run demo_lib (offers 10 [demo_profile 6 2, demo_profile 5 1]) demo_empty = Some s \<and>
     fst ` set (re_events s) = {demo_profile 6 2}"
proof -
  let ?es = "[demo_profile 5 1, demo_profile 6 2]"
  have "winners demo_lib demo_policy 10 ?es = {demo_profile 6 2}"
  proof -
    have "admissible demo_lib demo_policy 10 v (encoded_len demo_lib v)" if "v \<in> set ?es" for v
      using that by (auto simp: admissible_def entry_ok_def encoded_len_def retained_eval demo_profile_def)
    then have "offered demo_lib demo_policy 10 ?es = set ?es" unfolding offered_def by blast
    moreover have "coord demo_lib (demo_profile i t) = Some (0, 9, [])" for i t
      by (simp add: event_coordinate_def demo_profile_def demo_event_def)
    moreover have "beats (demo_profile 6 2) (demo_profile 5 1)" "\<not> beats (demo_profile 5 1) (demo_profile 6 2)"
      by (simp_all add: event_supersedes_def demo_profile_def demo_event_def)
    ultimately show ?thesis using beats_irrefl unfolding winners_def by auto
  qed
  moreover have "no_pressure demo_lib demo_policy ?es" and "no_pressure demo_lib demo_policy (rev ?es)"
    by (simp_all add: no_pressure_def encoded_len_def retained_eval demo_profile_def)
  moreover have "inj_on (\<lambda>v. ev_id (as_event v)) (set ?es)" by (simp add: demo_profile_def demo_event_def)
  moreover have "set (rev ?es) = set ?es" by auto
  ultimately show ?thesis using retained_merge[OF demo_new, of "rev ?es" ?es demo_lib 10] by simp
qed

end
