(* ===== verification/Bus_Demo.thy ===== *)
theory Bus_Demo
  imports File_Bus Retained_Merge
begin

text \<open>
  Closed instances of the file bus: a library in which two events verify, a codec that satisfies
  \<open>codec_law\<close> for them, and a bus that is opened on an empty disk, accepts the first event, and loses power between
  the rename and the update of memory while it publishes the second.
\<close>

definition two_lib :: nostr_lib where
  "two_lib = demo_lib\<lparr>verify := (\<lambda>e. e = demo_event 7 1 4 \<or> e = demo_event 8 2 4)\<rparr>"

definition two_codec :: snapshot_codec where
  "two_codec = \<lparr>
     snap_encode = (\<lambda>_ es. Some (map (\<lambda>e. if e = demo_event 7 1 4 then 0 else 1) es)),
     snap_decode = (\<lambda>b. Some (1, map (\<lambda>x. Some (if x = 0 then demo_event 7 1 4 else demo_event 8 2 4)) b))\<rparr>"

definition no_faults :: publish_faults where
  "no_faults = \<lparr>pf_temporary = None, pf_write = None, pf_sync = None, pf_persist = None, pf_directory = None\<rparr>"

definition empty_world :: file_world where
  "empty_world = \<lparr>fw_snapshot = None, fw_synced = False, fw_older = [], fw_locked = False\<rparr>"

abbreviation opened_bus :: file_bus where
  "opened_bus \<equiv> \<lparr>fb_state = Some demo_empty, fb_world = empty_world\<lparr>fw_locked := True\<rparr>\<rparr>"

abbreviation one_stored :: retained where
  "one_stored \<equiv> \<lparr>re_policy = demo_policy, re_events = [(demo_note 7 1, 100)], re_bytes = 101\<rparr>"

abbreviation two_stored :: retained where
  "two_stored \<equiv> \<lparr>re_policy = demo_policy, re_events = [(demo_note 8 2, 100), (demo_note 7 1, 100)], re_bytes = 202\<rparr>"

abbreviation committed_bus :: file_bus where
  "committed_bus \<equiv> \<lparr>fb_state = Some one_stored,
     fb_world = \<lparr>fw_snapshot = Some [0], fw_synced = True, fw_older = [], fw_locked = True\<rparr>\<rparr>"

abbreviation interrupted_bus :: file_bus where
  "interrupted_bus \<equiv> \<lparr>fb_state = Some one_stored,
     fb_world = \<lparr>fw_snapshot = Some [1, 0], fw_synced = True, fw_older = [Some ([0], True)], fw_locked = True\<rparr>\<rparr>"

abbreviation second_bus :: file_bus where
  "second_bus \<equiv> \<lparr>fb_state = Some two_stored,
     fb_world = \<lparr>fw_snapshot = Some [1, 0], fw_synced = True, fw_older = [], fw_locked = True\<rparr>\<rparr>"

abbreviation accepted_report :: publish_report where
  "accepted_report \<equiv> \<lparr>rep_accepted = True, rep_priority = 300, rep_reason = None\<rparr>"

text \<open>After the loss of power the path names the file of the first commit again.\<close>

abbreviation lost_world :: file_world where
  "lost_world \<equiv> \<lparr>fw_snapshot = Some [0], fw_synced = True, fw_older = [], fw_locked = False\<rparr>"

lemma two_codec_law: "codec_law two_lib two_codec"
proof -
  have "map ((\<lambda>x::u8. Some (if x = 0 then demo_event 7 1 4 else demo_event 8 2 4)) \<circ> (\<lambda>e. if e = demo_event 7 1 4 then 0 else 1)) es =
      map Some es" if "list_all (verify two_lib) es" for es
    using that by (induction es) (auto simp: two_lib_def)
  then show ?thesis by (simp add: codec_law_def two_codec_def)
qed

lemma two_open: "file_open two_lib two_codec demo_policy no_open_faults 10 empty_world = Some (Inr demo_empty, empty_world\<lparr>fw_locked := True\<rparr>)"
  by (simp add: file_open_def demo_new no_open_faults_def empty_world_def)

lemma two_insert:
  "re_insert two_lib (demo_note 7 1) 10 demo_empty = Some (True, one_stored)"
  "re_insert two_lib (demo_note 8 2) 10 one_stored = Some (True, two_stored)"
  by (simp_all add: two_lib_def retained_eval demo_note_def)

lemma two_current:
  "retained_event_is_current (as_event (demo_note 7 1)) 10" "retained_event_is_current (as_event (demo_note 8 2)) 10"
  "retained_event_is_current (as_event (demo_note 7 1)) 20"
  by (simp_all add: demo_note_def retained_event_is_current_def demo_event_def sat_add_def)

lemma two_encode:
  "snap_encode two_codec 1 (re_snapshot one_stored 10) = Some [0]"
  "snap_encode two_codec 1 (re_snapshot two_stored 10) = Some [1, 0]"
  using two_current by (simp_all add: two_codec_def re_snapshot_def) (simp_all add: demo_note_def demo_event_def)

lemmas commit_eval = file_publish_run_def file_commit_def commit_ops_def two_insert two_encode MAX_RETAINED_SNAPSHOT_BYTES_def
  SOURCE_PRIORITY_LOCAL_INDEX_def no_faults_def empty_world_def fw_named_def

lemma first_publish:
  "file_publish two_lib two_codec (no_faults, 10) (demo_note 7 1) (es_peer ''p'') opened_bus = Some (Inr accepted_report, committed_bus)"
  by (simp add: file_publish_def commit_eval)

lemma second_publish:
  "file_publish_run two_lib two_codec (no_faults, 10) (demo_note 8 2) (es_peer ''p'') committed_bus =
     Some ((Inr accepted_report, second_bus),
       [committed_bus, committed_bus, committed_bus, committed_bus, interrupted_bus, interrupted_bus\<lparr>fb_state := Some two_stored\<rparr>, second_bus])"
  by (simp add: commit_eval)

lemma opened_invar: "file_invar two_lib opened_bus"
  using re_new_ok(1)[OF demo_new] by (simp add: file_invar_def)

theorem file_publish_atomic_witness:
  "\<exists>r bus'. file_publish two_lib two_codec (no_faults\<lparr>pf_persist := Some ''full''\<rparr>, 10) (demo_note 7 1) (es_peer ''p'') opened_bus =
     Some (r, bus') \<and> bus' = opened_bus"
proof -
  have "file_publish two_lib two_codec (no_faults\<lparr>pf_persist := Some ''full''\<rparr>, 10) (demo_note 7 1) (es_peer ''p'') opened_bus =
      Some (Inl (Storage ''full''), opened_bus)"
    by (simp add: file_publish_def commit_eval)
  with file_publish_atomic[OF opened_invar, of two_codec "no_faults\<lparr>pf_persist := Some ''full''\<rparr>" 10 "demo_note 7 1" "es_peer ''p''"]
  show ?thesis by auto
qed

theorem file_store_durable_witness:
  "\<exists>s' w''. file_open two_lib two_codec demo_policy no_open_faults 20 lost_world = Some (Inr s', w'') \<and>
     (demo_note 7 1, 100) \<in> set (re_events s')"
proof -
  let ?second = "((no_faults, 10), demo_note 8 2, es_peer ''p'')"
  have none: "publish_all (file_publish two_lib two_codec) [] b = Some b" for b by simp
  have lost: "power_loss (fb_world interrupted_bus) lost_world" by (simp add: power_loss_def fw_named_def)
  have verified: "\<forall>(_, u, _) \<in> set ([] @ ((no_faults, 10), demo_note 7 1, es_peer ''p'') # [] @ [?second]). verify two_lib (as_event u)"
    by (simp add: two_lib_def demo_note_def)
  obtain i busi s r w'' where i: "i \<le> length [] + (1::nat)"
      "publish_all (file_publish two_lib two_codec) (take i ([] @ [?second])) committed_bus = Some busi" "fb_state busi = Some s"
    and o: "file_open two_lib two_codec demo_policy no_open_faults 20 lost_world = Some (r, w'')" "case r of
       Inl err \<Rightarrow> no_open_faults \<noteq> no_open_faults \<and> w'' = lost_world
     | Inr s' \<Rightarrow> re_events s' = filter (\<lambda>x. retained_event_is_current (entry_event x) 20) (re_events s)"
    using file_store_durable[OF two_codec_law two_open none first_publish _ none second_publish _ lost verified, of no_open_faults 20]
    by auto
  have "s = one_stored \<or> s = two_stored"
    using i by (cases i) (auto simp: file_publish_def second_publish)
  with o two_current(3) show ?thesis by (cases r) (auto simp: demo_note_def)
qed

end
