(* ===== verification/Routes.thy ===== *)
theory Routes
  imports Event_Bus "HOL-Library.Monad_Syntax"
begin

text \<open>
  Routed queries, \<open>crates/nostr-pubsub/src/routes.rs\<close>: routes to sources, the selection of candidates under a
  policy, replicas of a dataset tried in order, datasets queried concurrently, and the merge of their
  events with provenance. A reader, any \<open>EventBus\<close>, is a function from filters and limit to a report or an
  error; the polling of concurrent queries is modelled with an arbitrary number of polls each future needs.
\<close>

section \<open>Routes\<close>

definition DEFAULT_ROUTE_DATASET_ID :: string where
  "DEFAULT_ROUTE_DATASET_ID = ''default''"

record source_route =
  rt_id :: string
  rt_dataset_id :: string
  rt_source :: event_source
  rt_priority :: int
  rt_reason :: "string option"
  rt_capabilities :: "string list"

definition from_source :: "event_source \<Rightarrow> source_route" where
  "from_source source = \<lparr>rt_id = src_id source, rt_dataset_id = DEFAULT_ROUTE_DATASET_ID, rt_source = source,
     rt_priority = default_priority (src_kind source), rt_reason = None, rt_capabilities = []\<rparr>"

definition rt_local_index :: "string \<Rightarrow> source_route" where "rt_local_index i = from_source (es_local_index i)"
definition rt_peer :: "string \<Rightarrow> source_route" where "rt_peer i = from_source (es_peer i)"
definition rt_fips_peer_default :: "string \<Rightarrow> source_route" where "rt_fips_peer_default i = from_source (es_fips_endpoint i)"
definition rt_relay :: "string \<Rightarrow> source_route" where "rt_relay url = from_source (es_relay url)"

definition with_dataset :: "string \<Rightarrow> source_route \<Rightarrow> pubsub_error + source_route" where
  "with_dataset dataset_id route =
     (if dataset_id = [] then Inl (Validation ''route dataset identity must not be empty'')
      else Inr (route\<lparr>rt_dataset_id := dataset_id\<rparr>))"

definition with_priority :: "int \<Rightarrow> source_route \<Rightarrow> source_route" where
  "with_priority priority route = route\<lparr>rt_priority := priority\<rparr>"

definition with_reason :: "string \<Rightarrow> source_route \<Rightarrow> source_route" where
  "with_reason reason route = route\<lparr>rt_reason := Some reason\<rparr>"

definition with_capabilities :: "string list \<Rightarrow> source_route \<Rightarrow> source_route" where
  "with_capabilities capabilities route = route\<lparr>rt_capabilities := rt_capabilities route @ capabilities\<rparr>"

definition rt_fips_peer :: "string \<Rightarrow> int \<Rightarrow> source_route" where
  "rt_fips_peer i priority = with_priority priority (rt_fips_peer_default i)"

type_synonym reader = "filter list \<Rightarrow> nat option \<Rightarrow> pubsub_error + query_report"

record route_query_source =
  rq_route :: source_route
  rq_reader :: reader

datatype route_attempt_outcome = Success nat | Failure string

record route_attempt =
  ra_route :: source_route
  ra_dataset_id :: string
  ra_decision :: policy_decision
  ra_outcome :: route_attempt_outcome

record provenance =
  pv_route_id :: string
  pv_dataset_id :: string
  pv_source :: event_source
  pv_priority :: int

record routed_event =
  re_event :: verified_event
  re_source :: event_source
  re_priority :: int
  re_provenance :: "provenance list"

record dataset_report =
  ds_dataset_id :: string
  ds_complete :: bool
  ds_event_count :: nat

record routed_report =
  rr_events :: "routed_event list"
  rr_attempts :: "route_attempt list"
  rr_datasets :: "dataset_report list"
  rr_complete :: bool

record route_candidate =
  rc_effective_priority :: int
  rc_ordinal :: nat
  rc_source :: route_query_source
  rc_decision :: policy_decision

record dataset_result =
  dr_report :: dataset_report
  dr_attempts :: "route_attempt list"
  dr_events :: "routed_event list"

text \<open>The \<open>Display\<close> of an error, which \<open>thiserror\<close> derives.\<close>

fun error_string :: "pubsub_error \<Rightarrow> string" where
  "error_string (Validation m) = ''validation failed: '' @ m"
| "error_string (Storage m) = ''storage failed: '' @ m"

section \<open>Candidates\<close>

fun decision_priority :: "policy_decision \<Rightarrow> int" where
  "decision_priority (Allow p) = p"
| "decision_priority (Throttle p _) = p"
| "decision_priority (Drop _) = 0"

fun is_drop :: "policy_decision \<Rightarrow> bool" where
  "is_drop (Drop _) = True"
| "is_drop _ = False"

definition source_candidate_of :: "source_route \<Rightarrow> source_candidate" where
  "source_candidate_of route = \<lparr>cand_source = rt_source route, cand_priority = rt_priority route,
     cand_reason = rt_reason route, cand_freshness_hint = None\<rparr>"

definition route_decision ::
  "pubsub_policy \<Rightarrow> string option \<Rightarrow> string list option \<Rightarrow> source_route \<Rightarrow> pubsub_error + policy_decision" where
  "route_decision policy author capabilities route =
     check_source policy (source_candidate_of route) author
       (case capabilities of None \<Rightarrow> rt_capabilities route | Some cs \<Rightarrow> cs)"

text \<open>The loop of \<open>allowed_candidates\<close>, from position \<open>ordinal\<close> on.\<close>

fun collect_candidates ::
  "pubsub_policy \<Rightarrow> string option \<Rightarrow> string list option \<Rightarrow> nat \<Rightarrow> route_query_source list \<Rightarrow>
     pubsub_error + route_candidate list" where
  "collect_candidates policy author capabilities ordinal [] = Inr []"
| "collect_candidates policy author capabilities ordinal (src # srcs) =
     (case route_decision policy author capabilities (rq_route src) of
        Inl err \<Rightarrow> Inl err
      | Inr decision \<Rightarrow>
          (case collect_candidates policy author capabilities (Suc ordinal) srcs of
             Inl err \<Rightarrow> Inl err
           | Inr rest \<Rightarrow>
               Inr (if is_drop decision then rest
                    else \<lparr>rc_effective_priority = i32_sat_add (rt_priority (rq_route src)) (decision_priority decision),
                          rc_ordinal = ordinal, rc_source = src, rc_decision = decision\<rparr> # rest)))"

definition candidate_key :: "route_candidate \<Rightarrow> int \<times> nat" where
  "candidate_key c = (- rc_effective_priority c, rc_ordinal c)"

definition allowed_candidates ::
  "route_query_source list \<Rightarrow> string option \<Rightarrow> pubsub_policy \<Rightarrow> string list option \<Rightarrow>
     pubsub_error + route_candidate list" where
  "allowed_candidates routes author policy capabilities =
     map_sum id (sort_key candidate_key) (collect_candidates policy author capabilities 0 routes)"

abbreviation rc_dataset :: "route_candidate \<Rightarrow> string" where
  "rc_dataset c \<equiv> rt_dataset_id (rq_route (rc_source c))"

fun add_to_group :: "route_candidate \<Rightarrow> (string \<times> route_candidate list) list \<Rightarrow> (string \<times> route_candidate list) list" where
  "add_to_group c [] = [(rc_dataset c, [c])]"
| "add_to_group c ((dataset_id, replicas) # groups) =
     (if dataset_id = rc_dataset c then (dataset_id, replicas @ [c]) # groups
      else (dataset_id, replicas) # add_to_group c groups)"

definition group_by_dataset :: "route_candidate list \<Rightarrow> (string \<times> route_candidate list) list" where
  "group_by_dataset candidates = fold add_to_group candidates []"

section \<open>Merging events\<close>

definition routed_event_of :: "query_event \<Rightarrow> route_candidate \<Rightarrow> string \<Rightarrow> routed_event" where
  "routed_event_of q candidate dataset_id =
     \<lparr>re_event = qe_event q, re_source = qe_source q, re_priority = qe_priority q,
      re_provenance = [\<lparr>pv_route_id = rt_id (rq_route (rc_source candidate)), pv_dataset_id = dataset_id,
        pv_source = qe_source q, pv_priority = qe_priority q\<rparr>]\<rparr>"

fun source_kind_rank :: "event_source_kind \<Rightarrow> nat" where
  "source_kind_rank LocalIndex = 0"
| "source_kind_rank FipsEndpoint = 1"
| "source_kind_rank Peer = 2"
| "source_kind_rank Relay = 3"

definition provenance_key :: "provenance \<Rightarrow> string \<times> string \<times> nat \<times> string \<times> string option \<times> int" where
  "provenance_key p =
     (pv_dataset_id p, pv_route_id p, source_kind_rank (src_kind (pv_source p)), src_id (pv_source p),
      src_url (pv_source p), pv_priority p)"

abbreviation rid :: "routed_event \<Rightarrow> event_id" where
  "rid e \<equiv> ev_id (as_event (re_event e))"

definition merge_step ::
  "routed_event \<Rightarrow> routed_event list \<times> (event_id, nat) hmap \<Rightarrow> routed_event list \<times> (event_id, nat) hmap" where
  "merge_step e acc =
     (case acc of (merged, indices) \<Rightarrow>
        (case hm_get indices (rid e) of
           Some index \<Rightarrow>
             (merged[index := (merged ! index)\<lparr>re_provenance := re_provenance (merged ! index) @ re_provenance e\<rparr>], indices)
         | None \<Rightarrow> (merged @ [e], hm_insert (rid e) (length merged) indices)))"

definition tidy_provenance :: "routed_event \<Rightarrow> routed_event" where
  "tidy_provenance e = e\<lparr>re_provenance := remdups_adj (sort_key provenance_key (re_provenance e))\<rparr>"

definition merge_rank :: "nostr_lib \<Rightarrow> routed_event \<Rightarrow> int \<times> string" where
  "merge_rank lib e = (- int (unat (ev_created_at (as_event (re_event e)))), to_hex lib (rid e))"

definition merge_routed_events :: "nostr_lib \<Rightarrow> routed_event list \<Rightarrow> routed_event list" where
  "merge_routed_events lib events =
     sort_key (merge_rank lib) (map tidy_provenance (fst (fold merge_step events ([], []))))"

section \<open>Queries\<close>

definition attempt_of :: "route_candidate \<Rightarrow> string \<Rightarrow> route_attempt_outcome \<Rightarrow> route_attempt" where
  "attempt_of replica dataset_id outcome = \<lparr>ra_route = rq_route (rc_source replica), ra_dataset_id = dataset_id,
     ra_decision = rc_decision replica, ra_outcome = outcome\<rparr>"

fun query_dataset ::
  "nostr_lib \<Rightarrow> string \<Rightarrow> route_attempt list \<Rightarrow> route_candidate list \<Rightarrow> filter list \<Rightarrow> nat option \<Rightarrow> dataset_result" where
  "query_dataset lib dataset_id attempts [] filters limit =
     \<lparr>dr_report = \<lparr>ds_dataset_id = dataset_id, ds_complete = False, ds_event_count = 0\<rparr>,
      dr_attempts = attempts, dr_events = []\<rparr>"
| "query_dataset lib dataset_id attempts (replica # replicas) filters limit =
     (case rq_reader (rc_source replica) filters limit of
        Inr report \<Rightarrow>
          let events = merge_routed_events lib (map (\<lambda>q. routed_event_of q replica dataset_id) report)
          in \<lparr>dr_report = \<lparr>ds_dataset_id = dataset_id, ds_complete = True, ds_event_count = length events\<rparr>,
              dr_attempts = attempts @ [attempt_of replica dataset_id (Success (length events))],
              dr_events = events\<rparr>
      | Inl err \<Rightarrow>
          query_dataset lib dataset_id (attempts @ [attempt_of replica dataset_id (Failure (error_string err))])
            replicas filters limit)"

text \<open>
  \<open>join_concurrently\<close>: each future carries the number of polls that still answer \<open>Pending\<close> and its output. One
  pass polls every active future in order; \<open>None\<close> as the result is the \<open>expect\<close> that would panic.
\<close>

fun poll_pass :: "(nat \<times> 'a) option list \<Rightarrow> 'a option list \<Rightarrow> (nat \<times> 'a) option list \<times> 'a option list \<times> bool" where
  "poll_pass (None # fs) (out # outs) =
     (case poll_pass fs outs of (fs', outs', waiting) \<Rightarrow> (None # fs', out # outs', waiting))"
| "poll_pass (Some (0, x) # fs) (out # outs) =
     (case poll_pass fs outs of (fs', outs', waiting) \<Rightarrow> (None # fs', Some x # outs', waiting))"
| "poll_pass (Some (Suc n, x) # fs) (out # outs) =
     (case poll_pass fs outs of (fs', outs', waiting) \<Rightarrow> (Some (n, x) # fs', out # outs', True))"
| "poll_pass fs outs = (fs, outs, False)"

definition polls_left :: "(nat \<times> 'a) option list \<Rightarrow> nat" where
  "polls_left fs = sum_list (map (\<lambda>f. case f of None \<Rightarrow> 0 | Some (n, _) \<Rightarrow> n) fs)"

lemma poll_pass_left:
  "poll_pass fs outs = (fs', outs', waiting) \<Longrightarrow> polls_left fs' \<le> polls_left fs \<and> (waiting \<longrightarrow> polls_left fs' < polls_left fs)"
  by (induction fs outs arbitrary: fs' outs' waiting rule: poll_pass.induct)
    (fastforce simp: polls_left_def split: prod.splits)+

function join_loop :: "(nat \<times> 'a) option list \<Rightarrow> 'a option list \<Rightarrow> 'a list option" where
  "join_loop fs outs =
     (case poll_pass fs outs of (fs', outs', waiting) \<Rightarrow>
        if waiting then join_loop fs' outs'
        else if list_all (\<lambda>x. x \<noteq> None) outs' then Some (map the outs') else None)"
  by pat_completeness auto
termination
  by (relation "measure (\<lambda>(fs, _). polls_left fs)") (auto, metis poll_pass_left)

declare join_loop.simps [simp del]

definition join_concurrently :: "(nat \<times> 'a) list \<Rightarrow> 'a list option" where
  "join_concurrently futures = join_loop (map Some futures) (replicate (length futures) None)"

definition query_routes_with_policy ::
  "nostr_lib \<Rightarrow> (nat \<Rightarrow> nat) \<Rightarrow> route_query_source list \<Rightarrow> filter list \<Rightarrow> nat option \<Rightarrow> string option \<Rightarrow>
     pubsub_policy \<Rightarrow> string list option \<Rightarrow> (pubsub_error + routed_report) option" where
  "query_routes_with_policy lib delay routes filters limit author policy capabilities =
     (case allowed_candidates routes author policy capabilities of
        Inl err \<Rightarrow> Some (Inl err)
      | Inr candidates \<Rightarrow>
          let groups = group_by_dataset candidates in
          if limit = Some 0
          then Some (Inr \<lparr>rr_events = [], rr_attempts = [],
                 rr_datasets = map (\<lambda>(dataset_id, _). \<lparr>ds_dataset_id = dataset_id, ds_complete = True, ds_event_count = 0\<rparr>) groups,
                 rr_complete = True\<rparr>)
          else do {
            results \<leftarrow> join_concurrently
              (map (\<lambda>(i, dataset_id, replicas). (delay i, query_dataset lib dataset_id [] replicas filters limit))
                (enumerate 0 groups));
            let merged = merge_routed_events lib (concat (map dr_events results));
            Some (Inr \<lparr>rr_events = (case limit of None \<Rightarrow> merged | Some n \<Rightarrow> take n merged),
                 rr_attempts = concat (map dr_attempts results),
                 rr_datasets = map dr_report results,
                 rr_complete = list_all (\<lambda>r. ds_complete (dr_report r)) results\<rparr>)
          })"

end
