(* ===== verification/Memory_Bus.thy ===== *)
theory Memory_Bus
  imports Event_Bus Nostr_Instance
begin

text \<open>
  The in-memory bus of \<open>crates/nostr-pubsub/src/memory.rs\<close>: publication under an optional policy, live
  subscriptions, and queries over everything accepted. A handler is represented by a number; the calls
  a publication makes are part of its result. \<open>mem_poisoned\<close> is the state of the lock after a panic of
  a holder.
\<close>

record stored_event =
  se_event :: verified_event
  se_source :: event_source
  se_priority :: int

record memory_subscriber =
  ms_filters :: "filter list"
  ms_handler :: nat

record memory_state =
  mem_events :: "stored_event list"
  mem_next_subscription_id :: u64
  mem_subscriptions :: "(u64, memory_subscriber) hmap"
  mem_poisoned :: bool

definition memory_default :: memory_state where
  "memory_default = \<lparr>mem_events = [], mem_next_subscription_id = 0, mem_subscriptions = [], mem_poisoned = False\<rparr>"

type_synonym handler_call = "nat \<times> query_event"

definition lock_error :: pubsub_error where
  "lock_error = Storage ''event bus lock poisoned''"

definition mem_decision :: "pubsub_policy option \<Rightarrow> verified_event \<Rightarrow> event_source \<Rightarrow> pubsub_error + policy_decision" where
  "mem_decision policy v src = (case policy of None \<Rightarrow> Inr (Allow 0) | Some p \<Rightarrow> check_event p v src)"

definition mem_publish ::
  "nostr_lib \<Rightarrow> pubsub_policy option \<Rightarrow> verified_event \<Rightarrow> event_source \<Rightarrow> memory_state \<Rightarrow>
     (pubsub_error + publish_report) \<times> handler_call list \<times> memory_state" where
  "mem_publish lib policy v src st =
     (case mem_decision policy v src of
        Inl err \<Rightarrow> (Inl err, [], st)
      | Inr decision \<Rightarrow>
          (case report_parts decision of
             (accepted, priority, reason) \<Rightarrow>
               let report = \<lparr>rep_accepted = accepted, rep_priority = priority, rep_reason = reason\<rparr> in
               if \<not> accepted then (Inr report, [], st)
               else if mem_poisoned st then (Inl lock_error, [], st)
               else
                 let incoming = \<lparr>qe_event = v, qe_source = src, qe_priority = priority\<rparr>;
                     st' = st\<lparr>mem_events := mem_events st @ [\<lparr>se_event = v, se_source = src, se_priority = priority\<rparr>]\<rparr>;
                     handlers = map ms_handler
                       (filter (\<lambda>sub. filters_match lib (ms_filters sub) (as_event v)) (hm_values (mem_subscriptions st')))
                 in (Inr report, map (\<lambda>h. (h, incoming)) handlers, st')))"

text \<open>The loop of \<open>query\<close> for one filter: the seen identifiers, the selected events and the number of matches.\<close>

fun mem_scan ::
  "nostr_lib \<Rightarrow> filter \<Rightarrow> nat \<Rightarrow> stored_event list \<Rightarrow> event_id list \<times> query_event list \<Rightarrow>
     event_id list \<times> query_event list" where
  "mem_scan lib f matched [] acc = acc"
| "mem_scan lib f matched (x # xs) (seen, events) =
     (if (case f_limit f of None \<Rightarrow> False | Some limit \<Rightarrow> matched \<ge> limit) then (seen, events)
      else if \<not> match_event lib f (as_event (se_event x)) then mem_scan lib f matched xs (seen, events)
      else if ev_id (as_event (se_event x)) \<in> set seen then mem_scan lib f (Suc matched) xs (seen, events)
      else mem_scan lib f (Suc matched) xs
             (ev_id (as_event (se_event x)) # seen,
              events @ [\<lparr>qe_event = se_event x, qe_source = se_source x, qe_priority = se_priority x\<rparr>]))"

definition truncate_events :: "nat option \<Rightarrow> 'a list \<Rightarrow> 'a list" where
  "truncate_events limit xs = (case limit of None \<Rightarrow> xs | Some n \<Rightarrow> take n xs)"

definition mem_query ::
  "nostr_lib \<Rightarrow> filter list \<Rightarrow> nat option \<Rightarrow> memory_state \<Rightarrow> pubsub_error + query_report" where
  "mem_query lib filters limit st =
     (if mem_poisoned st then Inl lock_error
      else
        let ordered = sort_key (\<lambda>x. newest_first (as_event (se_event x))) (mem_events st);
            fs = (if filters = [] then [filter_new] else filters);
            events = snd (fold (\<lambda>f acc. mem_scan lib f 0 ordered acc) fs ([], []))
        in Inr (truncate_events limit (sort_key qe_rank events)))"

definition mem_subscribe ::
  "filter list \<Rightarrow> nat \<Rightarrow> memory_state \<Rightarrow> (pubsub_error + u64) \<times> memory_state" where
  "mem_subscribe filters handler st =
     (if mem_poisoned st then (Inl lock_error, st)
      else
        let i = mem_next_subscription_id st;
            st1 = st\<lparr>mem_next_subscription_id := mem_next_subscription_id st + 1\<rparr>
        in (Inr i,
            st1\<lparr>mem_subscriptions :=
              hm_insert i \<lparr>ms_filters = filters, ms_handler = handler\<rparr> (mem_subscriptions st1)\<rparr>))"

definition mem_close :: "u64 \<Rightarrow> memory_state \<Rightarrow> (pubsub_error + unit) \<times> memory_state" where
  "mem_close i st =
     (if mem_poisoned st then (Inl lock_error, st)
      else (Inr (), st\<lparr>mem_subscriptions := hm_remove i (mem_subscriptions st)\<rparr>))"

section \<open>Queries\<close>

abbreviation se_rank :: "stored_event \<Rightarrow> int \<times> event_id" where
  "se_rank x \<equiv> newest_first (as_event (se_event x))"

abbreviation se_id :: "stored_event \<Rightarrow> event_id" where
  "se_id x \<equiv> ev_id (as_event (se_event x))"

abbreviation report_of :: "stored_event \<Rightarrow> query_event" where
  "report_of x \<equiv> \<lparr>qe_event = se_event x, qe_source = se_source x, qe_priority = se_priority x\<rparr>"

definition mem_matches :: "nostr_lib \<Rightarrow> filter \<Rightarrow> stored_event list \<Rightarrow> stored_event list" where
  "mem_matches lib f ordered =
     truncate_events (f_limit f) (filter (\<lambda>x. match_event lib f (as_event (se_event x))) ordered)"

text \<open>Scanning is: take the first matches up to the limit, then add those with a new identifier.\<close>

fun add_new :: "stored_event list \<Rightarrow> event_id list \<times> query_event list \<Rightarrow> event_id list \<times> query_event list" where
  "add_new [] acc = acc"
| "add_new (x # xs) (seen, events) =
     (if se_id x \<in> set seen then add_new xs (seen, events)
      else add_new xs (se_id x # seen, events @ [report_of x]))"

lemma mem_scan_add_new:
  "mem_scan lib f matched xs acc =
     add_new (truncate_events (map_option (\<lambda>n. n - matched) (f_limit f))
       (filter (\<lambda>x. match_event lib f (as_event (se_event x))) xs)) acc"
proof (induction lib f matched xs acc rule: mem_scan.induct)
  case (2 lib f matched x xs seen events)
  show ?case
  proof (cases "f_limit f")
    case (Some limit)
    have "limit - matched = Suc (limit - Suc matched)" if "\<not> limit \<le> matched" using that by simp
    then show ?thesis using 2 Some by (auto simp: truncate_events_def take_Cons')
  qed (use 2 in \<open>auto simp: truncate_events_def\<close>)
qed (simp_all add: truncate_events_def split: option.split)

lemma add_new_append: "add_new (xs @ ys) acc = add_new ys (add_new xs acc)"
  by (induction xs acc rule: add_new.induct) simp_all

lemma scan_fold:
  "fold (\<lambda>f acc. mem_scan lib f 0 ordered acc) fs acc = add_new (concat (map (\<lambda>f. mem_matches lib f ordered) fs)) acc"
proof (induction fs arbitrary: acc)
  case (Cons f fs)
  have "mem_scan lib f 0 ordered acc = add_new (mem_matches lib f ordered) acc"
    by (cases "f_limit f") (simp_all add: mem_scan_add_new mem_matches_def)
  with Cons show ?case by (simp add: add_new_append)
qed simp

lemma add_new_props:
  assumes "set seen = qe_id ` set events" and "distinct (map qe_id events)"
  shows "let r = add_new xs (seen, events) in
    set (snd r) \<subseteq> set events \<union> report_of ` set xs \<and> qe_id ` set (snd r) = qe_id ` set events \<union> se_id ` set xs \<and>
    distinct (map qe_id (snd r))"
  using assms
proof (induction xs arbitrary: seen events)
  case (Cons x xs)
  show ?case
  proof (cases "se_id x \<in> set seen")
    case True
    then show ?thesis using Cons.IH[OF Cons.prems] Cons.prems(1) by (auto simp: Let_def)
  next
    case False
    have "set (se_id x # seen) = qe_id ` set (events @ [report_of x])" using Cons.prems(1) by auto
    moreover have "distinct (map qe_id (events @ [report_of x]))" using Cons.prems False by auto
    ultimately show ?thesis using Cons.IH[of "se_id x # seen" "events @ [report_of x]"] False
      by (auto simp: Let_def)
  qed
qed simp

lemma distinct_map_sort_key: "distinct (map g (sort_key f xs)) \<longleftrightarrow> distinct (map g xs)"
  by (simp add: distinct_map)

definition mem_selected :: "nostr_lib \<Rightarrow> filter list \<Rightarrow> memory_state \<Rightarrow> query_event list" where
  "mem_selected lib fs st =
     sort_key qe_rank (snd (add_new
       (concat (map (\<lambda>f. mem_matches lib f (sort_key se_rank (mem_events st))) (if fs = [] then [filter_new] else fs)))
       ([], [])))"

lemma mem_query_selected:
  "\<not> mem_poisoned st \<Longrightarrow> mem_query lib fs limit st = Inr (truncate_events limit (mem_selected lib fs st))"
  by (simp add: mem_query_def scan_fold mem_selected_def)

lemma mem_selected_props:
  shows "sorted (map qe_rank (mem_selected lib fs st))" and "distinct (map qe_id (mem_selected lib fs st))"
    and "set (mem_selected lib fs st) \<subseteq> report_of ` set (mem_events st)"
    and "qe_id ` set (mem_selected lib fs st) = (\<Union>f \<in> set (if fs = [] then [filter_new] else fs).
      se_id ` set (mem_matches lib f (sort_key se_rank (mem_events st))))"
proof -
  let ?fs = "if fs = [] then [filter_new] else fs"
  let ?found = "concat (map (\<lambda>f. mem_matches lib f (sort_key se_rank (mem_events st))) ?fs)"
  define events where "events = snd (add_new ?found ([], []))"
  have sel: "mem_selected lib fs st = sort_key qe_rank events" by (simp add: mem_selected_def events_def)
  have p: "set events \<subseteq> report_of ` set ?found" "qe_id ` set events = se_id ` set ?found" "distinct (map qe_id events)"
    using add_new_props[of "[]" "[]" ?found] unfolding Let_def events_def by simp_all
  have "set (mem_matches lib f (sort_key se_rank (mem_events st))) \<subseteq> set (mem_events st)" for f
    by (auto simp: mem_matches_def truncate_events_def dest: in_set_takeD split: option.splits)
  then have "set ?found \<subseteq> set (mem_events st)" by auto
  then show "set (mem_selected lib fs st) \<subseteq> report_of ` set (mem_events st)"
    using p(1) unfolding sel set_sort by blast
  show "qe_id ` set (mem_selected lib fs st) = (\<Union>f \<in> set ?fs.
      se_id ` set (mem_matches lib f (sort_key se_rank (mem_events st))))"
    unfolding sel set_sort p(2) by auto
  show "sorted (map qe_rank (mem_selected lib fs st))" unfolding sel by simp
  show "distinct (map qe_id (mem_selected lib fs st))" unfolding sel using p(3) by (simp add: distinct_map_sort_key)
qed

lemma truncate_events_props:
  shows "set (truncate_events limit xs) \<subseteq> set xs"
    and "sorted (map f xs) \<Longrightarrow> sorted (map f (truncate_events limit xs))"
    and "distinct (map g xs) \<Longrightarrow> distinct (map g (truncate_events limit xs))"
    and "length (truncate_events (Some n) xs) \<le> n"
  by (auto simp: truncate_events_def sorted_wrt_take distinct_take simp flip: take_map
    dest: in_set_takeD split: option.splits)

text \<open>
  A query of the in-memory bus returns each selected event once, newest first: the events whose identifiers are
  among the first matches of some filter (of the match-all filter when there is none), as published, cut at the
  query's own limit.
\<close>

theorem memory_query:
  assumes "\<not> mem_poisoned st"
  shows "\<exists>qs. mem_query lib fs None st = Inr qs \<and> mem_query lib fs limit st = Inr (truncate_events limit qs) \<and>
    sorted (map qe_rank qs) \<and> distinct (map qe_id qs) \<and> set qs \<subseteq> report_of ` set (mem_events st) \<and>
    qe_id ` set qs = (\<Union>f \<in> set (if fs = [] then [filter_new] else fs).
      se_id ` set (mem_matches lib f (sort_key se_rank (mem_events st))))"
  using mem_query_selected[OF assms, of lib fs] mem_selected_props[of lib fs st]
  by (intro exI[of _ "mem_selected lib fs st"]) (simp add: truncate_events_def)

section \<open>The interface\<close>

definition mem_bus_publish ::
  "nostr_lib \<Rightarrow> pubsub_policy option \<Rightarrow> unit \<Rightarrow> verified_event \<Rightarrow> event_source \<Rightarrow> memory_state \<Rightarrow>
     ((pubsub_error + publish_report) \<times> memory_state) option" where
  "mem_bus_publish lib policy env v src st =
     (case mem_publish lib policy v src st of (r, _, st') \<Rightarrow> Some (r, st'))"

abbreviation mem_contents :: "memory_state \<Rightarrow> verified_event set" where
  "mem_contents st \<equiv> se_event ` set (mem_events st)"

lemma mem_publish_cases:
  obtains (unchanged) r where "mem_publish lib policy v src st = (r, [], st)"
      and "\<And>rep. r = Inr rep \<Longrightarrow> \<not> rep_accepted rep"
  | (stored) rep calls where "mem_publish lib policy v src st = (Inr rep, calls,
        st\<lparr>mem_events := mem_events st @ [\<lparr>se_event = v, se_source = src, se_priority = rep_priority rep\<rparr>]\<rparr>)"
      and "rep_accepted rep"
      and "calls = map (\<lambda>sub. (ms_handler sub, \<lparr>qe_event = v, qe_source = src, qe_priority = rep_priority rep\<rparr>))
        (filter (\<lambda>sub. filters_match lib (ms_filters sub) (as_event v)) (hm_values (mem_subscriptions st)))"
      and "\<not> mem_poisoned st"
proof (cases "mem_decision policy v src")
  case (Inl err)
  then show thesis using that(1) by (simp add: mem_publish_def)
next
  case (Inr d)
  obtain a p r where d: "report_parts d = (a, p, r)" by (cases "report_parts d")
  show thesis
  proof (cases "a \<and> \<not> mem_poisoned st")
    case True
    then show thesis
      using that(2)[of "\<lparr>rep_accepted = True, rep_priority = p, rep_reason = r\<rparr>"] Inr d
      by (simp add: mem_publish_def comp_def)
  next
    case False
    then show thesis
      using that(1)[of "Inl lock_error"] that(1)[of "Inr \<lparr>rep_accepted = False, rep_priority = p, rep_reason = r\<rparr>"] Inr d
      by (cases a) (simp_all add: mem_publish_def)
  qed
qed

interpretation mem: event_bus "mem_bus_publish lib policy" "\<lambda>_. mem_query lib" mem_contents "\<lambda>_. True"
  for lib policy
proof
  show "\<exists>r s'. mem_bus_publish lib policy env v src s = Some (r, s') \<and> True \<and> mem_contents s' \<subseteq> insert v (mem_contents s)"
    for env v src s
    by (cases rule: mem_publish_cases[of lib policy v src s]) (auto simp: mem_bus_publish_def)
  show "mem_contents s' = mem_contents s"
    if "mem_bus_publish lib policy env v src s = Some (Inr rep, s')" "\<not> rep_accepted rep" for env v src s rep s'
    using that by (cases rule: mem_publish_cases[of lib policy v src s]) (auto simp: mem_bus_publish_def)
  show "v \<in> mem_contents s'"
    if "mem_bus_publish lib policy env v src s = Some (Inr rep, s')" "rep_accepted rep" for env v src s rep s'
    using that by (cases rule: mem_publish_cases[of lib policy v src s]) (auto simp: mem_bus_publish_def)
next
  fix s fs limit qs
  assume q: "mem_query lib fs limit s = Inr qs"
  then have np: "\<not> mem_poisoned s" by (auto simp: mem_query_def)
  then have qs: "qs = truncate_events limit (mem_selected lib fs s)" using q mem_query_selected[OF np] by simp
  have "set qs \<subseteq> report_of ` set (mem_events s)"
    unfolding qs by (rule subset_trans[OF truncate_events_props(1) mem_selected_props(3)])
  then have "qe_event ` set qs \<subseteq> qe_event ` report_of ` set (mem_events s)" by (rule image_mono)
  then show "qe_event ` set qs \<subseteq> mem_contents s" by (simp add: image_image)
  show "sorted (map qe_rank qs) \<and> distinct (map qe_id qs)"
    unfolding qs by (simp add: truncate_events_props mem_selected_props)
next
  show "length qs \<le> n" if "mem_query lib fs (Some n) s = Inr qs" for fs n s qs
    using that by (auto simp: mem_query_def Let_def truncate_events_def split: if_splits)
qed

text \<open>
  The in-memory bus answers every publication, and a query after any publications reports
  only published events, each once and newest first.
\<close>

theorem memory_reports_published:
  "\<exists>st. publish_all (mem_bus_publish lib policy) ps memory_default = Some st \<and>
    (\<forall>qs. mem_query lib fs limit st = Inr qs \<longrightarrow>
       qe_event ` set qs \<subseteq> (\<lambda>(_, v, _). v) ` set ps \<and> sorted (map qe_rank qs) \<and> distinct (map qe_id qs))"
proof -
  obtain st where "publish_all (mem_bus_publish lib policy) ps memory_default = Some st"
    using mem.publish_all_returns by blast
  then show ?thesis
    using mem.query_reports_published[of memory_default lib policy ps st fs limit] by (auto simp: memory_default_def)
qed

section \<open>Subscriptions\<close>

datatype mem_op = MPublish verified_event event_source | MSubscribe "filter list" nat | MClose u64

fun mem_apply :: "nostr_lib \<Rightarrow> pubsub_policy option \<Rightarrow> mem_op \<Rightarrow> memory_state \<Rightarrow> memory_state" where
  "mem_apply lib policy (MPublish v src) st = snd (snd (mem_publish lib policy v src st))"
| "mem_apply lib policy (MSubscribe fs h) st = snd (mem_subscribe fs h st)"
| "mem_apply lib policy (MClose i) st = snd (mem_close i st)"

definition mem_run :: "nostr_lib \<Rightarrow> pubsub_policy option \<Rightarrow> mem_op list \<Rightarrow> memory_state \<Rightarrow> memory_state" where
  "mem_run lib policy ops st = fold (mem_apply lib policy) ops st"

text \<open>Identifiers are handed out in order: all keys are below the next one, which has not wrapped yet.\<close>

definition subs_ok :: "nat \<Rightarrow> memory_state \<Rightarrow> bool" where
  "subs_ok n st \<longleftrightarrow>
     hm_wf (mem_subscriptions st) \<and> mem_next_subscription_id st = word_of_nat n \<and>
     (\<forall>k \<in> keys (mem_subscriptions st). unat k < n)"

lemma publish_keeps_subs:
  "mem_subscriptions (snd (snd (mem_publish lib policy v src st))) = mem_subscriptions st"
  "mem_next_subscription_id (snd (snd (mem_publish lib policy v src st))) = mem_next_subscription_id st"
  by (cases rule: mem_publish_cases[of lib policy v src st]; simp)+

lemma unat_of_small: "n < 2 ^ 64 \<Longrightarrow> unat (word_of_nat n :: u64) = n"
  by (simp add: unat_of_nat take_bit_nat_eq_self)

lemma subs_ok_fresh: "subs_ok n st \<Longrightarrow> n < 2 ^ 64 \<Longrightarrow> mem_next_subscription_id st \<notin> keys (mem_subscriptions st)"
  unfolding subs_ok_def by (metis less_irrefl unat_of_small)

lemma subs_ok_subscribe:
  assumes "subs_ok n st" and "n < 2 ^ 64"
  shows "\<exists>m \<le> Suc n. subs_ok m (snd (mem_subscribe fs h st))"
proof (cases "mem_poisoned st")
  case False
  then have "subs_ok (Suc n) (snd (mem_subscribe fs h st))"
    using assms unat_of_small[of n] by (auto simp: subs_ok_def mem_subscribe_def Let_def less_Suc_eq)
  then show ?thesis by blast
qed (use assms in \<open>auto simp: mem_subscribe_def intro!: exI[of _ n]\<close>)

lemma subs_ok_apply:
  assumes "subs_ok n st" and "n < 2 ^ 64"
  shows "\<exists>m \<le> Suc n. subs_ok m (mem_apply lib policy op st)"
proof (cases op)
  case (MPublish v src)
  then show ?thesis using assms by (intro exI[of _ n]) (simp add: subs_ok_def publish_keeps_subs)
next
  case (MClose i)
  then show ?thesis using assms by (intro exI[of _ n]) (auto simp: subs_ok_def mem_close_def set_hm_remove)
qed (use subs_ok_subscribe[OF assms] in simp)

lemma subs_ok_run:
  "subs_ok n st \<Longrightarrow> n + length ops \<le> 2 ^ 64 \<Longrightarrow> \<exists>m \<le> n + length ops. subs_ok m (mem_run lib policy ops st)"
proof (induction ops arbitrary: n st)
  case (Cons op ops)
  obtain m where "m \<le> Suc n" and "subs_ok m (mem_apply lib policy op st)"
    using subs_ok_apply[of n st lib policy op] Cons.prems by auto
  then obtain k where "k \<le> m + length ops" and "subs_ok k (mem_run lib policy (op # ops) st)"
    using Cons.IH[of m] Cons.prems(2) unfolding mem_run_def by fastforce
  then show ?case using \<open>m \<le> Suc n\<close> by (intro exI[of _ k]) simp
qed (auto simp: mem_run_def)

lemma subscription_kept:
  assumes "subs_ok n st" and "hm_get (mem_subscriptions st) i = Some sub" and "MClose i \<notin> set ops"
    and "n + length ops \<le> 2 ^ 64"
  shows "hm_get (mem_subscriptions (mem_run lib policy ops st)) i = Some sub"
  using assms
proof (induction ops arbitrary: n st)
  case (Cons op ops)
  have n: "n < 2 ^ 64" using Cons.prems(4) by simp
  obtain m where "m \<le> Suc n" and "subs_ok m (mem_apply lib policy op st)"
    using subs_ok_apply[OF Cons.prems(1) n] by blast
  moreover have "hm_get (mem_subscriptions (mem_apply lib policy op st)) i = Some sub"
  proof (cases op)
    case (MSubscribe fs h)
    have "i \<noteq> mem_next_subscription_id st"
      using subs_ok_fresh[OF Cons.prems(1) n] hm_get_in_keys[OF Cons.prems(2)] by blast
    then show ?thesis using Cons.prems(2) MSubscribe by (simp add: mem_subscribe_def Let_def)
  qed (use Cons.prems(2,3) in \<open>auto simp: publish_keeps_subs mem_close_def\<close>)
  ultimately show ?case using Cons.IH[of m] Cons.prems(3,4) by (simp add: mem_run_def)
qed (simp add: mem_run_def)

lemma subs_ok_start: "subs_ok 0 memory_default"
  by (simp add: subs_ok_def memory_default_def)

text \<open>
  C23: a live subscription gets an identifier no open subscription has, stays registered with its filters and handler
  until it is closed, whatever else happens on the bus; an accepted publication calls exactly the handlers of
  the subscriptions whose filters match, so this one if they match; closing removes it.
\<close>

theorem memory_subscription_lifetime:
  assumes "length ops + length ops' + 1 \<le> 2 ^ 64" and "MClose i \<notin> set ops'"
    and "mem_subscribe fs h (mem_run lib policy ops memory_default) = (Inr i, st1)"
    and "mem_publish lib policy v src (mem_run lib policy ops' st1) = (Inr rep, calls, st2)"
  shows "i \<notin> keys (mem_subscriptions (mem_run lib policy ops memory_default)) \<and>
    hm_get (mem_subscriptions st2) i = Some \<lparr>ms_filters = fs, ms_handler = h\<rparr> \<and>
    calls = (if rep_accepted rep
      then map (\<lambda>sub. (ms_handler sub, \<lparr>qe_event = v, qe_source = src, qe_priority = rep_priority rep\<rparr>))
        (filter (\<lambda>sub. filters_match lib (ms_filters sub) (as_event v)) (hm_values (mem_subscriptions st2)))
      else []) \<and>
    (mem_poisoned st2 \<or> i \<notin> keys (mem_subscriptions (snd (mem_close i st2))))"
proof -
  let ?st = "mem_run lib policy ops memory_default"
  obtain n where n: "n \<le> length ops" "subs_ok n ?st"
    using subs_ok_run[OF subs_ok_start, of ops lib policy] assms(1) by auto
  have small: "n < 2 ^ 64" using n(1) assms(1) by simp
  have i: "i = mem_next_subscription_id ?st" and get: "hm_get (mem_subscriptions st1) i = Some \<lparr>ms_filters = fs, ms_handler = h\<rparr>"
    using assms(3) by (auto simp: mem_subscribe_def Let_def split: if_splits)
  obtain m where "m \<le> Suc n" "subs_ok m st1" using subs_ok_subscribe[OF n(2) small, of fs h] assms(3) by auto
  then have "hm_get (mem_subscriptions (mem_run lib policy ops' st1)) i = Some \<lparr>ms_filters = fs, ms_handler = h\<rparr>"
    using n(1) assms(1) by (intro subscription_kept[OF _ get assms(2)]) auto
  moreover have "mem_subscriptions st2 = mem_subscriptions (mem_run lib policy ops' st1)"
    using publish_keeps_subs(1)[of lib policy v src "mem_run lib policy ops' st1"] assms(4) by simp
  moreover have "i \<notin> keys (mem_subscriptions ?st)" using subs_ok_fresh[OF n(2) small] i by simp
  moreover have "mem_poisoned st2 \<or> i \<notin> keys (mem_subscriptions (snd (mem_close i st2)))" by (simp add: mem_close_def)
  ultimately show ?thesis
    by (cases rule: mem_publish_cases[of lib policy v src "mem_run lib policy ops' st1"]) (use assms(4) in auto)
qed

section \<open>Instances\<close>

theorem memory_query_witness:
  "\<not> mem_poisoned memory_default \<and>
   (\<exists>qs. mem_query demo_lib [] None memory_default = Inr qs \<and> distinct (map qe_id qs))"
proof -
  have "\<not> mem_poisoned memory_default" by (simp add: memory_default_def)
  with memory_query[OF this, of demo_lib "[]" None] show ?thesis by blast
qed

theorem memory_subscription_lifetime_witness:
  "\<exists>rep calls st2. mem_publish demo_lib None (VerifiedEvent (demo_event 7 1 1)) (es_peer ''p'')
       (mem_run demo_lib None [MClose 3] (snd (mem_subscribe [] 5 memory_default))) = (Inr rep, calls, st2) \<and>
     calls = [(5, \<lparr>qe_event = VerifiedEvent (demo_event 7 1 1), qe_source = es_peer ''p'', qe_priority = 0\<rparr>)]"
proof -
  let ?v = "VerifiedEvent (demo_event 7 1 1)"
  let ?st = "mem_run demo_lib None [MClose 3] (snd (mem_subscribe [] 5 memory_default))"
  have sub: "mem_subscribe [] 5 (mem_run demo_lib None [] memory_default) = (Inr 0, snd (mem_subscribe [] 5 memory_default))"
    by (simp add: mem_run_def mem_subscribe_def memory_default_def)
  have subs: "mem_subscriptions ?st = [(0, \<lparr>ms_filters = [], ms_handler = 5\<rparr>)]" and np: "\<not> mem_poisoned ?st"
    by (simp_all add: mem_run_def mem_subscribe_def memory_default_def mem_close_def)
  obtain rep calls st2 where pub: "mem_publish demo_lib None ?v (es_peer ''p'') ?st = (Inr rep, calls, st2)"
    and rep: "rep_accepted rep" "rep_priority rep = 0" and st2: "mem_subscriptions st2 = mem_subscriptions ?st"
    using np by (simp add: mem_publish_def mem_decision_def)
  have "calls = map (\<lambda>sub. (ms_handler sub, \<lparr>qe_event = ?v, qe_source = es_peer ''p'', qe_priority = rep_priority rep\<rparr>))
      (filter (\<lambda>sub. filters_match demo_lib (ms_filters sub) (as_event ?v)) (hm_values (mem_subscriptions st2)))"
    using memory_subscription_lifetime[OF _ _ sub pub] rep(1) by simp
  then show ?thesis using pub rep st2 subs by (simp add: filters_match_def)
qed

theorem memory_reports_published_witness:
  "\<exists>st qs. publish_all (mem_bus_publish demo_lib None) [((), VerifiedEvent (demo_event 7 1 4), es_peer ''p'')] memory_default = Some st \<and>
     mem_query demo_lib [] None st = Inr qs \<and> qe_event ` set qs \<subseteq> {VerifiedEvent (demo_event 7 1 4)}"
proof -
  let ?ps = "[((), VerifiedEvent (demo_event 7 1 4), es_peer ''p'')]"
  obtain st where st: "publish_all (mem_bus_publish demo_lib None) ?ps memory_default = Some st" "\<not> mem_poisoned st"
    by (simp add: mem_bus_publish_def mem_publish_def mem_decision_def memory_default_def)
  obtain qs where "mem_query demo_lib [] None st = Inr qs" using mem_query_selected[OF st(2)] by blast
  with memory_reports_published[of demo_lib None ?ps "[]" None] st show ?thesis by auto
qed

end
