(* ===== verification/Routes_Query.thy ===== *)
theory Routes_Query
  imports Routes Memory_Bus
begin

text \<open>
  What routed queries guarantee: concurrent evaluation returns the outputs in order whatever the
  polling, merging keeps one entry per identifier with all provenance, each dataset is
  answered by its best available replica, and the report says exactly which datasets are complete.
\<close>

section \<open>Concurrent evaluation\<close>

fun joined :: "'a list \<Rightarrow> (nat \<times> 'a) option list \<Rightarrow> 'a option list \<Rightarrow> bool" where
  "joined [] [] [] = True"
| "joined (x # xs) (None # fs) (out # outs) = (out = Some x \<and> joined xs fs outs)"
| "joined (x # xs) (Some (_, y) # fs) (_ # outs) = (y = x \<and> joined xs fs outs)"
| "joined _ _ _ = False"

lemma poll_pass_joined:
  "poll_pass fs outs = (fs', outs', waiting) \<Longrightarrow> joined xs fs outs \<Longrightarrow>
     joined xs fs' outs' \<and> (\<not> waiting \<longrightarrow> outs' = map Some xs)"
proof (induction fs outs arbitrary: xs fs' outs' waiting rule: poll_pass.induct)
  case (1 fs out outs)
  then show ?case by (cases xs) (fastforce split: prod.splits)+
next
  case (2 y fs out outs)
  then show ?case by (cases xs) (fastforce split: prod.splits)+
next
  case (3 n y fs out outs)
  then show ?case by (cases xs) (fastforce split: prod.splits)+
qed (use joined.elims(2) in fastforce)+

lemma join_loop_joined: "joined xs fs outs \<Longrightarrow> join_loop fs outs = Some xs"
proof (induction fs outs rule: join_loop.induct)
  case (1 fs outs)
  obtain fs' outs' waiting where p: "poll_pass fs outs = (fs', outs', waiting)" by (cases "poll_pass fs outs")
  have j: "joined xs fs' outs'" "\<not> waiting \<Longrightarrow> outs' = map Some xs" using poll_pass_joined[OF p 1(2)] by simp_all
  show ?case
  proof (cases waiting)
    case True
    then show ?thesis using 1(1)[OF p[symmetric] refl] j(1) p by (subst join_loop.simps) simp
  next
    case False
    then show ?thesis using j(2) p by (subst join_loop.simps) (simp add: list_all_iff comp_def)
  qed
qed

lemma join_concurrently_outputs: "join_concurrently futures = Some (map snd futures)"
proof -
  have "joined (map snd futures) (map Some futures) (replicate (length futures) None)"
    by (induction futures) auto
  then show ?thesis unfolding join_concurrently_def by (rule join_loop_joined)
qed

section \<open>Merging\<close>

text \<open>The reference: the first event of each identifier, with the provenance of all of them.\<close>

definition first_events :: "routed_event list \<Rightarrow> routed_event list" where
  "first_events events = fold (\<lambda>e acc. if rid e \<in> rid ` set acc then acc else acc @ [e]) events []"

definition with_all_provenance :: "routed_event list \<Rightarrow> routed_event \<Rightarrow> routed_event" where
  "with_all_provenance events e = e\<lparr>re_provenance := concat (map re_provenance (filter (\<lambda>x. rid x = rid e) events))\<rparr>"

lemma first_events_snoc:
  "first_events (xs @ [e]) = (if rid e \<in> rid ` set (first_events xs) then first_events xs else first_events xs @ [e])"
  by (simp add: first_events_def)

lemma first_events_props:
  "distinct (map rid (first_events xs)) \<and> rid ` set (first_events xs) = rid ` set xs \<and> set (first_events xs) \<subseteq> set xs"
  by (induction xs rule: rev_induct) (auto simp: first_events_snoc first_events_def)

lemma rid_with_all [simp]: "rid (with_all_provenance xs e) = rid e"
  by (simp add: with_all_provenance_def)

lemma with_all_snoc_other: "rid x \<noteq> rid e \<Longrightarrow> with_all_provenance (xs @ [e]) x = with_all_provenance xs x"
  by (simp add: with_all_provenance_def eq_commute)

lemma with_all_snoc_same:
  "rid x = rid e \<Longrightarrow> with_all_provenance (xs @ [e]) x =
     (with_all_provenance xs x)\<lparr>re_provenance := re_provenance (with_all_provenance xs x) @ re_provenance e\<rparr>"
  by (simp add: with_all_provenance_def)

lemma with_all_snoc_new: "rid e \<notin> rid ` set xs \<Longrightarrow> with_all_provenance (xs @ [e]) e = e"
proof -
  assume "rid e \<notin> rid ` set xs"
  then have "filter (\<lambda>x. rid x = rid e) xs = []" by (auto simp: filter_empty_conv image_iff)
  then show ?thesis by (simp add: with_all_provenance_def)
qed

lemma merge_fold:
  "\<exists>indices. fold merge_step xs ([], []) = (map (with_all_provenance xs) (first_events xs), indices) \<and>
     (\<forall>k i. hm_get indices k = Some i \<longleftrightarrow> i < length (first_events xs) \<and> rid (first_events xs ! i) = k)"
proof (induction xs rule: rev_induct)
  case Nil
  show ?case by (simp add: first_events_def)
next
  case (snoc e xs)
  let ?f = "first_events xs"
  have props: "distinct (map rid ?f)" "rid ` set ?f = rid ` set xs" using first_events_props by blast+
  obtain indices where fold: "fold merge_step xs ([], []) = (map (with_all_provenance xs) ?f, indices)"
    and idx: "\<And>k i. hm_get indices k = Some i \<longleftrightarrow> i < length ?f \<and> rid (?f ! i) = k"
    using snoc.IH by blast
  let ?m = "map (with_all_provenance xs) ?f"
  have step: "fold merge_step (xs @ [e]) ([], []) = merge_step e (?m, indices)" by (simp add: fold)
  show ?case
  proof (cases "rid e \<in> rid ` set ?f")
    case True
    then obtain i where i: "i < length ?f" "rid (?f ! i) = rid e" by (auto simp: in_set_conv_nth)
    then have get: "hm_get indices (rid e) = Some i" using idx by blast
    have other: "rid (?f ! j) \<noteq> rid e" if "j < length ?f" "j \<noteq> i" for j
      using nth_eq_iff_index_eq[OF props(1), of j i] i that by simp
    have "?m[i := (?m ! i)\<lparr>re_provenance := re_provenance (?m ! i) @ re_provenance e\<rparr>] =
        map (with_all_provenance (xs @ [e])) ?f"
      using i other by (intro nth_equalityI) (auto simp: nth_list_update with_all_snoc_same with_all_snoc_other)
    then have "merge_step e (?m, indices) = (map (with_all_provenance (xs @ [e])) ?f, indices)"
      by (simp add: merge_step_def get)
    then show ?thesis using step True idx by (simp add: first_events_snoc)
  next
    case False
    then have get: "hm_get indices (rid e) = None"
    proof (cases "hm_get indices (rid e)")
      case (Some i)
      then have "i < length ?f" and "rid (?f ! i) = rid e" using idx by blast+
      then have "rid e \<in> rid ` set ?f" by (metis imageI nth_mem)
      with False show ?thesis by contradiction
    qed
    have "map (with_all_provenance (xs @ [e])) (?f @ [e]) = map (with_all_provenance xs) ?f @ [e]"
    proof -
      have "rid x \<noteq> rid e" if "x \<in> set ?f" for x using False that by (metis imageI)
      then show ?thesis using False props(2) with_all_snoc_new[of e xs] by (simp add: with_all_snoc_other)
    qed
    moreover have "hm_get (hm_insert (rid e) (length ?f) indices) k = Some j \<longleftrightarrow>
        j < length (?f @ [e]) \<and> rid ((?f @ [e]) ! j) = k" for k j
    proof -
      have "rid (?f ! j) \<noteq> rid e" if "j < length ?f" using False nth_mem[OF that] by (metis imageI)
      then show ?thesis using idx[of k j] by (auto simp: nth_append less_Suc_eq)
    qed
    moreover have "merge_step e (?m, indices) = (?m @ [e], hm_insert (rid e) (length ?f) indices)"
      by (simp add: merge_step_def get)
    ultimately show ?thesis
      using step False by (simp only: first_events_snoc if_False) blast
  qed
qed

lemma provenance_key_inj: "provenance_key p = provenance_key q \<Longrightarrow> p = q"
proof -
  assume "provenance_key p = provenance_key q"
  moreover have "source_kind_rank k = source_kind_rank l \<Longrightarrow> k = l" for k l by (cases k; cases l) simp_all
  ultimately show "p = q" by (cases p; cases q) (auto simp: provenance_key_def intro: event_source.equality)
qed

lemma sorted_remdups_adj_distinct: "sorted (map f xs) \<Longrightarrow> inj f \<Longrightarrow> distinct (remdups_adj xs) \<and> sorted (map f (remdups_adj xs))"
proof (induction xs rule: remdups_adj.induct)
  case (3 x y xs)
  then have "x \<notin> set xs" if "x \<noteq> y" using that by (auto dest: injD order.antisym)
  with 3 show ?case by auto
qed simp_all

lemma merge_ids:
  "distinct (map rid (merge_routed_events lib xs)) \<and> rid ` set (merge_routed_events lib xs) = rid ` set xs"
proof -
  obtain indices where f: "fold merge_step xs ([], []) = (map (with_all_provenance xs) (first_events xs), indices)"
    using merge_fold by blast
  have tidy: "rid (tidy_provenance e) = rid e" for e by (simp add: tidy_provenance_def)
  then have "map rid (map tidy_provenance (map (with_all_provenance xs) (first_events xs))) = map rid (first_events xs)"
    by simp
  then show ?thesis
    using first_events_props[of xs] tidy unfolding merge_routed_events_def f
    by (simp add: distinct_map_sort_key image_image comp_def)
qed

text \<open>
  Merging keeps one entry per event identifier, in order of time and identifier. The entry is the first one
  received, and its provenance lists exactly the distinct provenances of all entries with that identifier, sorted.
\<close>

theorem merge_keeps_provenance:
  "distinct (map rid (merge_routed_events lib xs)) \<and> rid ` set (merge_routed_events lib xs) = rid ` set xs \<and>
   sorted (map (merge_rank lib) (merge_routed_events lib xs)) \<and>
   (\<forall>m \<in> set (merge_routed_events lib xs).
      (\<exists>e \<in> set (first_events xs). rid m = rid e \<and> re_event m = re_event e \<and> re_source m = re_source e \<and> re_priority m = re_priority e) \<and>
      set (re_provenance m) = (\<Union>x \<in> {x \<in> set xs. rid x = rid m}. set (re_provenance x)) \<and>
      distinct (re_provenance m) \<and> sorted (map provenance_key (re_provenance m)))"
proof -
  obtain indices where f: "fold merge_step xs ([], []) = (map (with_all_provenance xs) (first_events xs), indices)"
    using merge_fold by blast
  have entry: "(\<exists>e \<in> set (first_events xs). rid m = rid e \<and> re_event m = re_event e \<and> re_source m = re_source e \<and> re_priority m = re_priority e) \<and>
      set (re_provenance m) = (\<Union>x \<in> {x \<in> set xs. rid x = rid m}. set (re_provenance x)) \<and>
      distinct (re_provenance m) \<and> sorted (map provenance_key (re_provenance m))"
    if "m \<in> set (merge_routed_events lib xs)" for m
  proof -
    obtain e where e: "e \<in> set (first_events xs)" "m = tidy_provenance (with_all_provenance xs e)"
    proof -
      have "set (merge_routed_events lib xs) = (\<lambda>e. tidy_provenance (with_all_provenance xs e)) ` set (first_events xs)"
        by (simp add: merge_routed_events_def f image_image)
      then show thesis using that \<open>m \<in> set (merge_routed_events lib xs)\<close> by blast
    qed
    have "inj provenance_key" by (rule injI) (rule provenance_key_inj)
    then show ?thesis
      using e sorted_remdups_adj_distinct[of provenance_key "sort_key provenance_key (re_provenance (with_all_provenance xs e))"]
      by (auto simp: tidy_provenance_def with_all_provenance_def)
  qed
  then show ?thesis using merge_ids[of lib xs] by (simp add: merge_routed_events_def)
qed

section \<open>Candidates and groups\<close>

lemma collect_candidates_spec:
  assumes "collect_candidates policy author capabilities n routes = Inr cs"
  shows "c \<in> set cs \<longleftrightarrow> (\<exists>i < length routes. \<exists>d. route_decision policy author capabilities (rq_route (routes ! i)) = Inr d \<and>
    \<not> is_drop d \<and> c = \<lparr>rc_effective_priority = i32_sat_add (rt_priority (rq_route (routes ! i))) (decision_priority d),
      rc_ordinal = n + i, rc_source = routes ! i, rc_decision = d\<rparr>)"
  using assms
proof (induction routes arbitrary: n cs)
  case (Cons src routes)
  obtain d where d: "route_decision policy author capabilities (rq_route src) = Inr d"
    using Cons.prems by (auto split: sum.splits)
  obtain rest where rest: "collect_candidates policy author capabilities (Suc n) routes = Inr rest"
    using Cons.prems d by (auto split: sum.splits)
  have cs: "c \<in> set cs \<longleftrightarrow> (\<not> is_drop d \<and> c = \<lparr>rc_effective_priority = i32_sat_add (rt_priority (rq_route src)) (decision_priority d),
      rc_ordinal = n, rc_source = src, rc_decision = d\<rparr>) \<or> c \<in> set rest"
    using Cons.prems d rest by (auto split: if_splits)
  show ?case unfolding cs Cons.IH[OF rest] using d by (auto simp: Ex_less_Suc2)
qed simp

lemma add_to_group_map:
  assumes "distinct ds"
  shows "add_to_group c (map (\<lambda>d. (d, F d)) ds) =
    (if rc_dataset c \<in> set ds then map (\<lambda>d. (d, if d = rc_dataset c then F d @ [c] else F d)) ds
     else map (\<lambda>d. (d, F d)) ds @ [(rc_dataset c, [c])])"
  using assms by (induction ds) auto

definition datasets_of :: "route_candidate list \<Rightarrow> string list" where
  "datasets_of cs = fold (\<lambda>c ds. if rc_dataset c \<in> set ds then ds else ds @ [rc_dataset c]) cs []"

lemma datasets_of_snoc:
  "datasets_of (cs @ [c]) = (if rc_dataset c \<in> set (datasets_of cs) then datasets_of cs else datasets_of cs @ [rc_dataset c])"
  by (simp add: datasets_of_def)

lemma datasets_of_props: "distinct (datasets_of cs) \<and> set (datasets_of cs) = rc_dataset ` set cs"
  by (induction cs rule: rev_induct) (auto simp: datasets_of_snoc datasets_of_def)

lemma group_by_dataset_eq:
  "group_by_dataset cs = map (\<lambda>d. (d, filter (\<lambda>c. rc_dataset c = d) cs)) (datasets_of cs)"
proof (induction cs rule: rev_induct)
  case Nil
  show ?case by (simp add: group_by_dataset_def datasets_of_def)
next
  case (snoc c cs)
  have "group_by_dataset (cs @ [c]) = add_to_group c (group_by_dataset cs)" by (simp add: group_by_dataset_def)
  moreover have "filter (\<lambda>x. rc_dataset x = d) cs = []" if "d \<notin> set (datasets_of cs)" for d
    using that datasets_of_props[of cs] by (auto simp: filter_empty_conv)
  ultimately show ?case
    using datasets_of_props[of cs] unfolding snoc.IH
    by (auto simp: add_to_group_map datasets_of_snoc)
qed

section \<open>Replicas\<close>

definition answers :: "filter list \<Rightarrow> nat option \<Rightarrow> route_candidate \<Rightarrow> bool" where
  "answers filters limit c \<longleftrightarrow> (\<exists>report. rq_reader (rc_source c) filters limit = Inr report)"

text \<open>The replica a dataset is answered by: the first of its candidates whose reader succeeds.\<close>

definition chosen :: "filter list \<Rightarrow> nat option \<Rightarrow> route_candidate list \<Rightarrow> string \<Rightarrow> route_candidate option" where
  "chosen filters limit cs d = find (answers filters limit) (filter (\<lambda>c. rc_dataset c = d) cs)"

definition answered_events :: "nostr_lib \<Rightarrow> filter list \<Rightarrow> nat option \<Rightarrow> string \<Rightarrow> route_candidate option \<Rightarrow> routed_event list" where
  "answered_events lib filters limit d choice =
     (case choice of
        None \<Rightarrow> []
      | Some c \<Rightarrow> (case rq_reader (rc_source c) filters limit of
                   Inl _ \<Rightarrow> []
                 | Inr report \<Rightarrow> merge_routed_events lib (map (\<lambda>q. routed_event_of q c d) report)))"

lemma query_dataset_choice:
  "dr_events (query_dataset lib d attempts replicas filters limit) =
     answered_events lib filters limit d (find (answers filters limit) replicas) \<and>
   ds_complete (dr_report (query_dataset lib d attempts replicas filters limit)) =
     (find (answers filters limit) replicas \<noteq> None) \<and>
   ds_dataset_id (dr_report (query_dataset lib d attempts replicas filters limit)) = d"
proof (induction lib d attempts replicas filters limit rule: query_dataset.induct)
  case (2 lib d attempts replica replicas filters limit)
  show ?case
  proof (cases "rq_reader (rc_source replica) filters limit")
    case (Inl err)
    then have "\<not> answers filters limit replica" by (simp add: answers_def)
    then show ?thesis using 2 Inl by simp
  next
    case (Inr report)
    then have "answers filters limit replica" by (simp add: answers_def)
    then show ?thesis using Inr by (simp add: answered_events_def Let_def)
  qed
qed (simp add: answered_events_def)

lemma chosen_Some:
  "chosen filters limit cs d = Some c \<Longrightarrow> c \<in> set cs \<and> rc_dataset c = d \<and> answers filters limit c"
  unfolding chosen_def by (auto simp: find_Some_iff in_set_conv_nth dest: nth_mem)

lemma chosen_None: "chosen filters limit cs d = None \<longleftrightarrow> (\<forall>c \<in> set cs. rc_dataset c = d \<longrightarrow> \<not> answers filters limit c)"
  unfolding chosen_def by (auto simp: find_None_iff)

section \<open>Routed queries\<close>

lemma allowed_candidates_spec:
  assumes "allowed_candidates routes author policy capabilities = Inr cs"
  shows "sorted (map candidate_key cs) \<and>
    (\<forall>c. c \<in> set cs \<longleftrightarrow> (\<exists>i < length routes. \<exists>d. route_decision policy author capabilities (rq_route (routes ! i)) = Inr d \<and>
       \<not> is_drop d \<and> c = \<lparr>rc_effective_priority = i32_sat_add (rt_priority (rq_route (routes ! i))) (decision_priority d),
         rc_ordinal = i, rc_source = routes ! i, rc_decision = d\<rparr>))"
proof -
  obtain cs0 where cs0: "collect_candidates policy author capabilities 0 routes = Inr cs0" "cs = sort_key candidate_key cs0"
    using assms by (cases "collect_candidates policy author capabilities 0 routes") (auto simp: allowed_candidates_def)
  then show ?thesis using collect_candidates_spec[OF cs0(1)] by simp
qed

definition reported_ids :: "filter list \<Rightarrow> nat option \<Rightarrow> route_candidate list \<Rightarrow> event_id set" where
  "reported_ids filters limit cs =
     (\<Union>d \<in> rc_dataset ` set cs. case chosen filters limit cs d of
        None \<Rightarrow> {}
      | Some c \<Rightarrow> (case rq_reader (rc_source c) filters limit of Inl _ \<Rightarrow> {} | Inr report \<Rightarrow> qe_id ` set report))"

lemma answered_ids:
  "rid ` set (answered_events lib filters limit d choice) =
     (case choice of
        None \<Rightarrow> {}
      | Some c \<Rightarrow> (case rq_reader (rc_source c) filters limit of Inl _ \<Rightarrow> {} | Inr report \<Rightarrow> qe_id ` set report))"
  using merge_ids[of lib]
  by (auto simp: answered_events_def routed_event_of_def image_image split: option.split sum.split)

definition dataset_results ::
  "nostr_lib \<Rightarrow> filter list \<Rightarrow> nat option \<Rightarrow> route_candidate list \<Rightarrow> dataset_result list" where
  "dataset_results lib filters limit cs =
     map (\<lambda>d. query_dataset lib d [] (filter (\<lambda>c. rc_dataset c = d) cs) filters limit) (datasets_of cs)"

lemma query_routes_results:
  assumes "allowed_candidates routes author policy capabilities = Inr cs" and "limit \<noteq> Some 0"
  shows "query_routes_with_policy lib delay routes filters limit author policy capabilities =
    (let results = dataset_results lib filters limit cs;
         merged = merge_routed_events lib (concat (map dr_events results))
     in Some (Inr \<lparr>rr_events = truncate_events limit merged, rr_attempts = concat (map dr_attempts results),
          rr_datasets = map dr_report results, rr_complete = list_all (\<lambda>r. ds_complete (dr_report r)) results\<rparr>))"
proof -
  have snd_enum: "map (\<lambda>x. g (snd x)) (enumerate n ys) = map g ys" for g :: "string \<times> route_candidate list \<Rightarrow> dataset_result" and n ys
    by (metis (no_types, lifting) comp_def list.map_comp map_eq_conv map_snd_enumerate)
  let ?g = "\<lambda>p. query_dataset lib (fst p) [] (snd p) filters limit"
  have "join_concurrently (map (\<lambda>(i, d, replicas). (delay i, query_dataset lib d [] replicas filters limit))
      (enumerate 0 (group_by_dataset cs))) = Some (map (\<lambda>x. ?g (snd x)) (enumerate 0 (group_by_dataset cs)))"
    unfolding join_concurrently_outputs by (simp add: comp_def case_prod_beta)
  also have "map (\<lambda>x. ?g (snd x)) (enumerate 0 (group_by_dataset cs)) = dataset_results lib filters limit cs"
    unfolding snd_enum[of ?g] by (simp add: group_by_dataset_eq dataset_results_def comp_def)
  finally show ?thesis
    using assms by (simp add: query_routes_with_policy_def Let_def truncate_events_def)
qed

lemma merged_ids:
  "distinct (map rid (merge_routed_events lib (concat (map dr_events (dataset_results lib filters limit cs))))) \<and>
   rid ` set (merge_routed_events lib (concat (map dr_events (dataset_results lib filters limit cs)))) =
     reported_ids filters limit cs"
proof -
  have "rid ` set (concat (map dr_events (dataset_results lib filters limit cs))) = reported_ids filters limit cs"
    using datasets_of_props[of cs] unfolding reported_ids_def dataset_results_def
    by (simp add: query_dataset_choice image_UN answered_ids chosen_def)
  then show ?thesis
    using merge_ids[of lib "concat (map dr_events (dataset_results lib filters limit cs))"] by simp
qed

lemma query_routes_none:
  assumes "allowed_candidates routes author policy capabilities = Inr cs"
  shows "query_routes_with_policy lib delay routes filters (Some 0) author policy capabilities =
    Some (Inr \<lparr>rr_events = [], rr_attempts = [],
      rr_datasets = map (\<lambda>d. \<lparr>ds_dataset_id = d, ds_complete = True, ds_event_count = 0\<rparr>) (datasets_of cs), rr_complete = True\<rparr>)"
  using assms by (simp add: query_routes_with_policy_def group_by_dataset_eq comp_def)

lemma allowed_sources:
  assumes "allowed_candidates routes author policy capabilities = Inr cs"
  shows "rc_source ` set cs =
    {r \<in> set routes. \<exists>d. route_decision policy author capabilities (rq_route r) = Inr d \<and> \<not> is_drop d}"
proof (intro equalityI subsetI)
  fix r assume "r \<in> rc_source ` set cs"
  then obtain c where "c \<in> set cs" "r = rc_source c" by blast
  with allowed_candidates_spec[OF assms]
  show "r \<in> {r \<in> set routes. \<exists>d. route_decision policy author capabilities (rq_route r) = Inr d \<and> \<not> is_drop d}" by auto
next
  fix r assume "r \<in> {r \<in> set routes. \<exists>d. route_decision policy author capabilities (rq_route r) = Inr d \<and> \<not> is_drop d}"
  then obtain i d where i: "i < length routes" "routes ! i = r" "route_decision policy author capabilities (rq_route r) = Inr d" "\<not> is_drop d"
    by (auto simp: in_set_conv_nth)
  let ?c = "\<lparr>rc_effective_priority = i32_sat_add (rt_priority (rq_route (routes ! i))) (decision_priority d),
     rc_ordinal = i, rc_source = routes ! i, rc_decision = d\<rparr>"
  have "?c \<in> set cs" using allowed_candidates_spec[OF assms] i by blast
  from imageI[OF this, of rc_source] show "r \<in> rc_source ` set cs" using i(2) by simp
qed

text \<open>
  C26: a routed query. Exactly the routes the policy does not drop are candidates, in order of effective priority and
  position. Each dataset appears once; events are reported once and within the limit; and, whatever the interleaving
  of the concurrent dataset queries, they come from the first answering replica of a dataset, none of
  those missing when there is no limit. A dataset is complete exactly when one of its replicas answers, and the report when every
  dataset is. The limit zero is different: then no route is asked, nothing is reported, and every dataset and
  the report count as complete.
\<close>

theorem routed_query:
  assumes "allowed_candidates routes author policy capabilities = Inr cs"
  shows "\<exists>rep. query_routes_with_policy lib delay routes filters limit author policy capabilities = Some (Inr rep) \<and>
    rc_source ` set cs = {r \<in> set routes. \<exists>d. route_decision policy author capabilities (rq_route r) = Inr d \<and> \<not> is_drop d} \<and>
    sorted (map candidate_key cs) \<and>
    distinct (map ds_dataset_id (rr_datasets rep)) \<and> ds_dataset_id ` set (rr_datasets rep) = rc_dataset ` set cs \<and>
    (if limit = Some 0 then rr_events rep = [] \<and> rr_attempts rep = [] \<and> rr_complete rep \<and> list_all ds_complete (rr_datasets rep)
     else
       (\<forall>d \<in> set (rr_datasets rep). ds_complete d \<longleftrightarrow> (\<exists>c \<in> set cs. rc_dataset c = ds_dataset_id d \<and> answers filters limit c)) \<and>
       (rr_complete rep \<longleftrightarrow> (\<forall>c \<in> set cs. \<exists>c' \<in> set cs. rc_dataset c' = rc_dataset c \<and> answers filters limit c')) \<and>
       distinct (map rid (rr_events rep)) \<and> (case limit of None \<Rightarrow> True | Some n \<Rightarrow> length (rr_events rep) \<le> n) \<and>
       rid ` set (rr_events rep) \<subseteq> reported_ids filters limit cs \<and>
       (limit = None \<longrightarrow> rid ` set (rr_events rep) = reported_ids filters limit cs))"
proof (cases "limit = Some 0")
  case True
  then show ?thesis
    using query_routes_none[OF assms, of lib delay filters] allowed_candidates_spec[OF assms] allowed_sources[OF assms]
      datasets_of_props[of cs] by (auto simp: comp_def image_image list_all_iff)
next
  case False
  let ?results = "dataset_results lib filters limit cs"
  let ?merged = "merge_routed_events lib (concat (map dr_events ?results))"
  let ?rep = "\<lparr>rr_events = truncate_events limit ?merged, rr_attempts = concat (map dr_attempts ?results),
     rr_datasets = map dr_report ?results, rr_complete = list_all (\<lambda>r. ds_complete (dr_report r)) ?results\<rparr>"
  have res: "query_routes_with_policy lib delay routes filters limit author policy capabilities = Some (Inr ?rep)"
    using query_routes_results[OF assms False] by (simp add: Let_def)
  have ds: "distinct (datasets_of cs)" "set (datasets_of cs) = rc_dataset ` set cs" using datasets_of_props by blast+
  have ids: "map ds_dataset_id (map dr_report ?results) = datasets_of cs"
    by (simp add: dataset_results_def query_dataset_choice comp_def)
  have merged: "distinct (map rid ?merged)" "rid ` set ?merged = reported_ids filters limit cs"
    using merged_ids[of lib filters limit cs] by blast+
  have "rr_complete ?rep \<longleftrightarrow> (\<forall>d \<in> rc_dataset ` set cs. chosen filters limit cs d \<noteq> None)"
    by (simp add: dataset_results_def list_all_iff query_dataset_choice ds(2) chosen_def)
  then have complete: "rr_complete ?rep \<longleftrightarrow> (\<forall>c \<in> set cs. \<exists>c' \<in> set cs. rc_dataset c' = rc_dataset c \<and> answers filters limit c')"
    unfolding chosen_None by auto
  have each: "\<forall>d \<in> set (rr_datasets ?rep). ds_complete d \<longleftrightarrow> (\<exists>c \<in> set cs. rc_dataset c = ds_dataset_id d \<and> answers filters limit c)"
    using chosen_None[of filters limit cs]
    by (auto simp: dataset_results_def query_dataset_choice chosen_def)
  have "ds_dataset_id ` set (rr_datasets ?rep) = rc_dataset ` set cs"
    using arg_cong[OF ids, of set] ds(2) by (simp add: image_image)
  moreover have "rid ` set (rr_events ?rep) \<subseteq> reported_ids filters limit cs"
    using truncate_events_props(1)[of limit ?merged] merged(2) by auto
  moreover have "case limit of None \<Rightarrow> True | Some n \<Rightarrow> length (rr_events ?rep) \<le> n"
    by (simp add: truncate_events_def split: option.split)
  moreover have "limit = None \<longrightarrow> rid ` set (rr_events ?rep) = reported_ids filters limit cs"
    using merged(2) by (auto simp: truncate_events_def)
  moreover have "distinct (map rid (rr_events ?rep))"
    using truncate_events_props(3)[OF merged(1)] by simp
  moreover have "distinct (map ds_dataset_id (rr_datasets ?rep))" using ids ds(1) by simp
  moreover have "sorted (map candidate_key cs)" using allowed_candidates_spec[OF assms] by blast
  ultimately show ?thesis
    unfolding if_not_P[OF False] using res complete each allowed_sources[OF assms] by blast
qed

section \<open>Instance\<close>

definition allow_all :: pubsub_policy where
  "allow_all = \<lparr>check_event = (\<lambda>_ _. Inr (Allow 0)), check_source = (\<lambda>_ _ _. Inr (Allow 0))\<rparr>"

definition demo_routes :: "route_query_source list" where
  "demo_routes = [\<lparr>rq_route = rt_peer ''a'', rq_reader = (\<lambda>_ _. Inl (Storage ''down''))\<rparr>,
     \<lparr>rq_route = rt_relay ''b'', rq_reader = (\<lambda>_ _. Inr [\<lparr>qe_event = VerifiedEvent (demo_event 7 1 4), qe_source = es_relay ''b'', qe_priority = 0\<rparr>])\<rparr>]"

theorem routed_query_witness:
  "\<exists>cs rep. allowed_candidates demo_routes None allow_all None = Inr cs \<and>
     query_routes_with_policy demo_lib (\<lambda>i. 3 - i) demo_routes [] None None allow_all None = Some (Inr rep) \<and>
     rr_complete rep \<and> rid ` set (rr_events rep) = {7}"
proof -
  obtain cs where cs: "allowed_candidates demo_routes None allow_all None = Inr cs"
    by (simp add: allowed_candidates_def demo_routes_def route_decision_def allow_all_def)
  have two: "cs = [\<lparr>rc_effective_priority = 100, rc_ordinal = 0, rc_source = demo_routes ! 0, rc_decision = Allow 0\<rparr>,
      \<lparr>rc_effective_priority = -100, rc_ordinal = 1, rc_source = demo_routes ! 1, rc_decision = Allow 0\<rparr>]"
    using cs by (simp add: allowed_candidates_def demo_routes_def route_decision_def allow_all_def candidate_key_def
      rt_peer_def rt_relay_def from_source_def es_peer_def es_relay_def SOURCE_PRIORITY_PEER_def SOURCE_PRIORITY_RELAY_def
      i32_sat_add_def clamp_int_def)
  have same: "\<forall>c \<in> set cs. rc_dataset c = ''default''"
    by (simp add: two demo_routes_def rt_peer_def rt_relay_def from_source_def DEFAULT_ROUTE_DATASET_ID_def)
  have "chosen [] None cs ''default'' = Some (cs ! 1)"
    using same by (simp add: chosen_def two answers_def demo_routes_def)
  then have "reported_ids [] None cs = {7}"
    using same by (auto simp: reported_ids_def two demo_routes_def demo_event_def)
  moreover have "\<forall>c \<in> set cs. \<exists>c' \<in> set cs. rc_dataset c' = rc_dataset c \<and> answers [] None c'"
    using same by (simp add: two answers_def demo_routes_def)
  ultimately show ?thesis
    using routed_query[OF cs, of demo_lib "\<lambda>i. 3 - i" "[]" None] cs by auto
qed

theorem merge_keeps_provenance_witness:
  "\<exists>m. merge_routed_events demo_lib
      [routed_event_of \<lparr>qe_event = VerifiedEvent (demo_event 7 1 4), qe_source = es_relay ''b'', qe_priority = 0\<rparr>
         \<lparr>rc_effective_priority = 0, rc_ordinal = 0, rc_source = demo_routes ! 1, rc_decision = Allow 0\<rparr> ''d''] = [m] \<and>
     distinct (re_provenance m)"
proof -
  let ?e = "routed_event_of \<lparr>qe_event = VerifiedEvent (demo_event 7 1 4), qe_source = es_relay ''b'', qe_priority = 0\<rparr>
     \<lparr>rc_effective_priority = 0, rc_ordinal = 0, rc_source = demo_routes ! 1, rc_decision = Allow 0\<rparr> ''d''"
  have "merge_routed_events demo_lib [?e] = [tidy_provenance ?e]"
    by (simp add: merge_routed_events_def merge_step_def)
  with merge_keeps_provenance[of demo_lib "[?e]"] show ?thesis by auto
qed

end
