(* ===== verification/Router.thy ===== *)
theory Router
  imports Routes_Query
begin

text \<open>
  The owned router, \<open>crates/nostr-pubsub/src/router.rs\<close>: publication to every route the policy does not drop, and
  queries through the routed query. Publishers act on a shared state \<open>'w\<close>, which stands for the state behind the
  buses; each publisher is a function on it.
\<close>

record 'w publish_target =
  pt_route :: source_route
  pt_publish :: "verified_event \<Rightarrow> event_source \<Rightarrow> 'w \<Rightarrow> (pubsub_error + publish_report) \<times> 'w"

record 'w router =
  ro_policy :: pubsub_policy
  ro_query_sources :: "route_query_source list"
  ro_publish_sources :: "'w publish_target list"

definition router_new :: "pubsub_policy \<Rightarrow> 'w router" where
  "router_new policy = \<lparr>ro_policy = policy, ro_query_sources = [], ro_publish_sources = []\<rparr>"

definition with_query_source :: "route_query_source \<Rightarrow> 'w router \<Rightarrow> 'w router" where
  "with_query_source source r = r\<lparr>ro_query_sources := ro_query_sources r @ [source]\<rparr>"

definition with_publish_source :: "'w publish_target \<Rightarrow> 'w router \<Rightarrow> 'w router" where
  "with_publish_source target r = r\<lparr>ro_publish_sources := ro_publish_sources r @ [target]\<rparr>"

definition query_with_context ::
  "nostr_lib \<Rightarrow> (nat \<Rightarrow> nat) \<Rightarrow> 'w router \<Rightarrow> filter list \<Rightarrow> nat option \<Rightarrow> string option \<Rightarrow> string list option \<Rightarrow>
     (pubsub_error + routed_report) option" where
  "query_with_context lib delay r filters limit author capabilities =
     query_routes_with_policy lib delay (ro_query_sources r) filters limit author (ro_policy r) capabilities"

definition router_query ::
  "nostr_lib \<Rightarrow> (nat \<Rightarrow> nat) \<Rightarrow> 'w router \<Rightarrow> filter list \<Rightarrow> nat option \<Rightarrow> (pubsub_error + query_report) option" where
  "router_query lib delay r filters limit =
     map_option (map_sum id (\<lambda>rep. map (\<lambda>e. \<lparr>qe_event = re_event e, qe_source = re_source e, qe_priority = re_priority e\<rparr>)
       (rr_events rep)))
       (query_with_context lib delay r filters limit None None)"

record publish_tally =
  ta_accepted :: nat
  ta_attempted :: nat
  ta_priority :: int
  ta_failures :: "string list"

definition I32_MIN :: int where "I32_MIN = - (2 ^ 31)"

definition tally_start :: publish_tally where
  "tally_start = \<lparr>ta_accepted = 0, ta_attempted = 0, ta_priority = I32_MIN, ta_failures = []\<rparr>"

definition count_outcome :: "source_route \<Rightarrow> pubsub_error + publish_report \<Rightarrow> publish_tally \<Rightarrow> publish_tally" where
  "count_outcome route outcome t =
     (case outcome of
        Inr report \<Rightarrow>
          if rep_accepted report
          then t\<lparr>ta_accepted := Suc (ta_accepted t), ta_priority := max (ta_priority t) (rep_priority report)\<rparr>
          else t\<lparr>ta_failures := ta_failures t @
                   [rt_id route @ '': '' @ (case rep_reason report of None \<Rightarrow> ''rejected'' | Some m \<Rightarrow> m)]\<rparr>
      | Inl err \<Rightarrow> t\<lparr>ta_failures := ta_failures t @ [rt_id route @ '': '' @ error_string err]\<rparr>)"

fun publish_targets ::
  "pubsub_policy \<Rightarrow> verified_event \<Rightarrow> event_source \<Rightarrow> 'w publish_target list \<Rightarrow> publish_tally \<Rightarrow> 'w \<Rightarrow>
     (pubsub_error + publish_tally) \<times> 'w" where
  "publish_targets policy v src [] t w = (Inr t, w)"
| "publish_targets policy v src (target # targets) t w =
     (case route_decision policy None None (pt_route target) of
        Inl err \<Rightarrow> (Inl err, w)
      | Inr decision \<Rightarrow>
          if is_drop decision then publish_targets policy v src targets t w
          else (case pt_publish target v src w of
                  (outcome, w') \<Rightarrow>
                    publish_targets policy v src targets
                      (count_outcome (pt_route target) outcome (t\<lparr>ta_attempted := Suc (ta_attempted t)\<rparr>)) w'))"

fun join_with :: "string \<Rightarrow> string list \<Rightarrow> string" where
  "join_with sep [] = []"
| "join_with sep [x] = x"
| "join_with sep (x # y # ys) = x @ sep @ join_with sep (y # ys)"

definition tally_report :: "publish_tally \<Rightarrow> publish_report" where
  "tally_report t =
     \<lparr>rep_accepted = 0 < ta_accepted t,
      rep_priority = (if 0 < ta_accepted t then ta_priority t else 0),
      rep_reason = (if ta_failures t \<noteq> [] then Some (join_with ''; '' (ta_failures t))
                    else if ta_attempted t = 0 then Some ''no publish route was selected'' else None)\<rparr>"

definition publish_to_routes ::
  "'w router \<Rightarrow> verified_event \<Rightarrow> event_source \<Rightarrow> 'w \<Rightarrow> (pubsub_error + publish_report) \<times> 'w" where
  "publish_to_routes r v src w =
     (case publish_targets (ro_policy r) v src (ro_publish_sources r) tally_start w of
        (Inl err, w') \<Rightarrow> (Inl err, w')
      | (Inr t, w') \<Rightarrow> (Inr (tally_report t), w'))"

section \<open>Publication\<close>

text \<open>The reference: publish to each selected target once, in order, and collect the outcomes.\<close>

fun publish_each ::
  "verified_event \<Rightarrow> event_source \<Rightarrow> 'w publish_target list \<Rightarrow> 'w \<Rightarrow> (pubsub_error + publish_report) list \<times> 'w" where
  "publish_each v src [] w = ([], w)"
| "publish_each v src (target # targets) w =
     (case pt_publish target v src w of (outcome, w') \<Rightarrow>
        (case publish_each v src targets w' of (outcomes, w'') \<Rightarrow> (outcome # outcomes, w'')))"

definition selected_targets :: "pubsub_policy \<Rightarrow> 'w publish_target list \<Rightarrow> 'w publish_target list" where
  "selected_targets policy targets =
     filter (\<lambda>t. case route_decision policy None None (pt_route t) of Inl _ \<Rightarrow> False | Inr d \<Rightarrow> \<not> is_drop d) targets"

fun accepted_priority :: "pubsub_error + publish_report \<Rightarrow> int option" where
  "accepted_priority (Inr report) = (if rep_accepted report then Some (rep_priority report) else None)"
| "accepted_priority (Inl _) = None"

lemma publish_targets_each:
  assumes "\<forall>t \<in> set targets. \<exists>d. route_decision policy None None (pt_route t) = Inr d"
  shows "\<exists>t'. publish_targets policy v src targets t w = (Inr t', snd (publish_each v src (selected_targets policy targets) w)) \<and>
    (let outcomes = fst (publish_each v src (selected_targets policy targets) w) in
     ta_accepted t' = ta_accepted t + length (List.map_filter accepted_priority outcomes) \<and>
     ta_attempted t' = ta_attempted t + length (selected_targets policy targets) \<and>
     ta_priority t' = fold max (List.map_filter accepted_priority outcomes) (ta_priority t) \<and>
     (ta_failures t' = [] \<longleftrightarrow> ta_failures t = [] \<and> (\<forall>x \<in> set outcomes. accepted_priority x \<noteq> None)))"
  using assms
proof (induction targets arbitrary: t w)
  case Nil
  show ?case by (simp add: selected_targets_def List.map_filter_simps)
next
  case (Cons target targets)
  obtain d where d: "route_decision policy None None (pt_route target) = Inr d" using Cons.prems by auto
  have rest: "\<forall>t \<in> set targets. \<exists>d. route_decision policy None None (pt_route t) = Inr d" using Cons.prems by simp
  show ?case
  proof (cases "is_drop d")
    case True
    then show ?thesis using Cons.IH[OF rest, of t w] d by (simp add: selected_targets_def)
  next
    case False
    obtain outcome w1 where p: "pt_publish target v src w = (outcome, w1)" by (cases "pt_publish target v src w")
    let ?t1 = "count_outcome (pt_route target) outcome (t\<lparr>ta_attempted := Suc (ta_attempted t)\<rparr>)"
    have sel: "selected_targets policy (target # targets) = target # selected_targets policy targets"
      using d False by (simp add: selected_targets_def)
    have t1: "ta_attempted ?t1 = Suc (ta_attempted t)"
      "ta_accepted ?t1 = ta_accepted t + (if accepted_priority outcome = None then 0 else 1)"
      "ta_priority ?t1 = (case accepted_priority outcome of None \<Rightarrow> ta_priority t | Some p \<Rightarrow> max p (ta_priority t))"
      "ta_failures ?t1 = [] \<longleftrightarrow> ta_failures t = [] \<and> accepted_priority outcome \<noteq> None"
      by (cases outcome; simp add: count_outcome_def max.commute)+
    show ?thesis
      using Cons.IH[OF rest, of ?t1 w1] d False p sel t1
      by (cases "accepted_priority outcome")
        (auto simp: case_prod_beta List.map_filter_simps Let_def split: prod.splits)
  qed
qed

text \<open>
  C27: publishing through the router publishes to every route the policy allows, once each and in order, also
  after failures; it is accepted exactly when some route accepted, with the highest priority among those, and gives no
  reason exactly when at least one route was selected and all of them accepted.
\<close>

theorem router_publishes:
  assumes "\<forall>t \<in> set (ro_publish_sources r). \<exists>d. route_decision (ro_policy r) None None (pt_route t) = Inr d"
  shows "\<exists>rep outcomes w'. publish_to_routes r v src w = (Inr rep, w') \<and>
    publish_each v src (selected_targets (ro_policy r) (ro_publish_sources r)) w = (outcomes, w') \<and>
    (rep_accepted rep \<longleftrightarrow> (\<exists>x \<in> set outcomes. accepted_priority x \<noteq> None)) \<and>
    rep_priority rep = (if rep_accepted rep then fold max (List.map_filter accepted_priority outcomes) I32_MIN else 0) \<and>
    (rep_reason rep = None \<longleftrightarrow>
       selected_targets (ro_policy r) (ro_publish_sources r) \<noteq> [] \<and> (\<forall>x \<in> set outcomes. accepted_priority x \<noteq> None))"
proof -
  obtain outcomes w' where e: "publish_each v src (selected_targets (ro_policy r) (ro_publish_sources r)) w = (outcomes, w')"
    by (cases "publish_each v src (selected_targets (ro_policy r) (ro_publish_sources r)) w")
  obtain t' where t': "publish_targets (ro_policy r) v src (ro_publish_sources r) tally_start w = (Inr t', w')"
    "ta_accepted t' = length (List.map_filter accepted_priority outcomes)"
    "ta_attempted t' = length (selected_targets (ro_policy r) (ro_publish_sources r))"
    "ta_priority t' = fold max (List.map_filter accepted_priority outcomes) I32_MIN"
    "ta_failures t' = [] \<longleftrightarrow> (\<forall>x \<in> set outcomes. accepted_priority x \<noteq> None)"
    using publish_targets_each[OF assms, of v src tally_start w] by (auto simp: e Let_def tally_start_def)
  have "List.map_filter accepted_priority outcomes = [] \<longleftrightarrow> (\<forall>x \<in> set outcomes. accepted_priority x = None)"
    by (simp add: List.map_filter_def filter_empty_conv)
  then show ?thesis using e t' by (auto simp: publish_to_routes_def tally_report_def)
qed

text \<open>
  The router as a bus: a query through it reports each event once and within the limit, and only events that an
  answering route of the router reported.
\<close>

theorem router_query_sound:
  assumes "allowed_candidates (ro_query_sources r) None (ro_policy r) None = Inr cs" and "limit \<noteq> Some 0"
  shows "\<exists>qs. router_query lib delay r filters limit = Some (Inr qs) \<and> distinct (map qe_id qs) \<and>
    (case limit of None \<Rightarrow> True | Some n \<Rightarrow> length qs \<le> n) \<and> qe_id ` set qs \<subseteq> reported_ids filters limit cs"
proof -
  let ?results = "dataset_results lib filters limit cs"
  let ?merged = "merge_routed_events lib (concat (map dr_events ?results))"
  let ?q = "\<lambda>e. \<lparr>qe_event = re_event e, qe_source = re_source e, qe_priority = re_priority e\<rparr>"
  have "router_query lib delay r filters limit = Some (Inr (map ?q (truncate_events limit ?merged)))"
    using query_routes_results[OF assms, of lib delay filters] by (simp add: router_query_def query_with_context_def Let_def)
  moreover have "map qe_id (map ?q xs) = map rid xs" for xs by simp
  moreover have "rid ` set (truncate_events limit ?merged) \<subseteq> reported_ids filters limit cs"
    using image_mono[OF truncate_events_props(1)[of limit ?merged], of rid] merged_ids[of lib filters limit cs] by simp
  ultimately show ?thesis
    using truncate_events_props(3)[of rid ?merged limit] merged_ids[of lib filters limit cs]
    by (auto simp: truncate_events_def image_image comp_def split: option.split)
qed

section \<open>Instances\<close>

definition demo_router :: "nat router" where
  "demo_router =
     with_publish_source \<lparr>pt_route = rt_relay ''b'', pt_publish = (\<lambda>_ _ w. (Inl (Storage ''down''), w + 1))\<rparr>
       (with_publish_source \<lparr>pt_route = rt_peer ''a'', pt_publish =
           (\<lambda>_ _ w. (Inr \<lparr>rep_accepted = True, rep_priority = 5, rep_reason = None\<rparr>, w + 1))\<rparr>
         (with_query_source (demo_routes ! 1) (router_new allow_all)))"

lemma demo_router_fields [simp]:
  "ro_policy demo_router = allow_all" "ro_query_sources demo_router = [demo_routes ! 1]"
  "route_decision allow_all a c route = Inr (Allow 0)"
  by (simp_all add: demo_router_def with_publish_source_def with_query_source_def router_new_def route_decision_def allow_all_def)

theorem router_publishes_witness:
  "\<exists>rep. publish_to_routes demo_router (VerifiedEvent (demo_event 7 1 4)) (es_peer ''p'') 0 = (Inr rep, 2) \<and>
     rep_accepted rep \<and> rep_reason rep \<noteq> None"
proof -
  have "publish_each (VerifiedEvent (demo_event 7 1 4)) (es_peer ''p'')
      (selected_targets (ro_policy demo_router) (ro_publish_sources demo_router)) 0 =
      ([Inr \<lparr>rep_accepted = True, rep_priority = 5, rep_reason = None\<rparr>, Inl (Storage ''down'')], 2)"
    by (simp add: selected_targets_def) (simp add: demo_router_def with_publish_source_def with_query_source_def router_new_def)
  with router_publishes[of demo_router "VerifiedEvent (demo_event 7 1 4)" "es_peer ''p''" 0] show ?thesis by auto
qed

theorem router_query_sound_witness:
  "\<exists>qs. router_query demo_lib (\<lambda>_. 0) demo_router [] (Some 1) = Some (Inr qs) \<and> length qs \<le> 1"
proof -
  obtain cs where "allowed_candidates (ro_query_sources demo_router) None (ro_policy demo_router) None = Inr cs"
    by (simp add: allowed_candidates_def)
  from router_query_sound[OF this, of "Some 1" demo_lib "\<lambda>_. 0" "[]"] show ?thesis by auto
qed

end
