(* ===== verification/Live_Routes.thy ===== *)
theory Live_Routes
  imports Router
begin

text \<open>
  Live subscriptions over several routes, \<open>crates/nostr-pubsub/src/live_routes.rs\<close>: opening one subscription
  per allowed route, closing all of them when one fails, the shared window of seen identifiers that
  removes duplicates across routes, and the combined delivery status. Subscribers act on a shared state \<open>'w\<close>
  and return handles \<open>'h\<close>; the closure installed at a route is represented by the route it captures.
\<close>

definition DEFAULT_LIVE_DEDUP_EVENTS :: nat where "DEFAULT_LIVE_DEDUP_EVENTS = 4096"

datatype delivery_status = Active | Closed | Lagged

record live_event =
  le_event :: verified_event
  le_source :: event_source
  le_priority :: int
  le_route :: source_route

record live_options =
  lo_author_pubkey :: "string option"
  lo_capabilities :: "string list option"
  lo_max_seen_events :: nat

definition live_options_default :: live_options where
  "live_options_default = \<lparr>lo_author_pubkey = None, lo_capabilities = None, lo_max_seen_events = DEFAULT_LIVE_DEDUP_EVENTS\<rparr>"

section \<open>The window of seen events\<close>

record seen_events =
  sn_maximum :: nat
  sn_ids :: "event_id set"
  sn_order :: "event_id list"

definition seen_new :: "nat \<Rightarrow> seen_events" where
  "seen_new maximum = \<lparr>sn_maximum = maximum, sn_ids = {}, sn_order = []\<rparr>"

fun seen_evict :: "nat \<Rightarrow> event_id set \<Rightarrow> event_id list \<Rightarrow> event_id set \<times> event_id list" where
  "seen_evict maximum ids [] = (ids, [])"
| "seen_evict maximum ids (x # xs) =
     (if length (x # xs) > maximum then seen_evict maximum (ids - {x}) xs else (ids, x # xs))"

definition seen_insert :: "event_id \<Rightarrow> seen_events \<Rightarrow> bool \<times> seen_events" where
  "seen_insert i s =
     (if i \<in> sn_ids s then (False, s)
      else case seen_evict (sn_maximum s) (insert i (sn_ids s)) (sn_order s @ [i]) of
             (ids, order) \<Rightarrow> (True, s\<lparr>sn_ids := ids, sn_order := order\<rparr>))"

definition seen_clear :: "seen_events \<Rightarrow> seen_events" where
  "seen_clear s = s\<lparr>sn_ids := {}, sn_order := []\<rparr>"

text \<open>The handler installed at \<open>route\<close>: deliver unless the identifier was seen.\<close>

definition live_incoming :: "source_route \<Rightarrow> query_event \<Rightarrow> seen_events \<Rightarrow> live_event list \<times> seen_events" where
  "live_incoming route q s =
     (case seen_insert (qe_id q) s of
        (should_deliver, s') \<Rightarrow>
          (if should_deliver
           then [\<lparr>le_event = qe_event q, le_source = qe_source q, le_priority = qe_priority q, le_route = route\<rparr>]
           else [], s'))"

fun live_run :: "(source_route \<times> query_event) list \<Rightarrow> seen_events \<Rightarrow> live_event list \<times> seen_events" where
  "live_run [] s = ([], s)"
| "live_run ((route, q) # qs) s =
     (case live_incoming route q s of (out, s') \<Rightarrow>
        (case live_run qs s' of (outs, s'') \<Rightarrow> (out @ outs, s'')))"

section \<open>Opening and closing\<close>

record ('h, 'w) live_source =
  lv_route :: source_route
  lv_subscribe :: "filter list \<Rightarrow> source_route \<Rightarrow> 'w \<Rightarrow> (pubsub_error + 'h) \<times> 'w"

record 'h live_subscription =
  sb_route_ids :: "string list"
  sb_subscriptions :: "'h list"
  sb_seen :: seen_events

fun close_each :: "('h \<Rightarrow> 'w \<Rightarrow> (pubsub_error + unit) \<times> 'w) \<Rightarrow> 'h list \<Rightarrow> string list \<Rightarrow> 'w \<Rightarrow> string list \<times> 'w" where
  "close_each close [] failures w = (failures, w)"
| "close_each close (h # hs) failures w =
     (case close h w of
        (Inl err, w') \<Rightarrow> close_each close hs (failures @ [error_string err]) w'
      | (Inr _, w') \<Rightarrow> close_each close hs failures w')"

definition close_subscriptions ::
  "('h \<Rightarrow> 'w \<Rightarrow> (pubsub_error + unit) \<times> 'w) \<Rightarrow> 'h list \<Rightarrow> 'w \<Rightarrow> (pubsub_error + unit) \<times> 'w" where
  "close_subscriptions close hs w =
     (case close_each close hs [] w of (failures, w') \<Rightarrow>
        (if failures = [] then Inr () else Inl (Storage (''close live routes: '' @ join_with ''; '' failures)), w'))"

fun allowed_live :: "pubsub_policy \<Rightarrow> live_options \<Rightarrow> ('h, 'w) live_source list \<Rightarrow> pubsub_error + ('h, 'w) live_source list" where
  "allowed_live policy options [] = Inr []"
| "allowed_live policy options (src # srcs) =
     (case route_decision policy (lo_author_pubkey options) (lo_capabilities options) (lv_route src) of
        Inl err \<Rightarrow> Inl err
      | Inr decision \<Rightarrow>
          (case allowed_live policy options srcs of
             Inl err \<Rightarrow> Inl err
           | Inr rest \<Rightarrow> Inr (if is_drop decision then rest else src # rest)))"

fun open_live ::
  "('h \<Rightarrow> 'w \<Rightarrow> (pubsub_error + unit) \<times> 'w) \<Rightarrow> filter list \<Rightarrow> ('h, 'w) live_source list \<Rightarrow> 'h list \<Rightarrow> string list \<Rightarrow> 'w \<Rightarrow>
     (pubsub_error + 'h list \<times> string list) \<times> 'w" where
  "open_live close filters [] active ids w = (Inr (active, ids), w)"
| "open_live close filters (src # srcs) active ids w =
     (case lv_subscribe src filters (lv_route src) w of
        (Inr h, w') \<Rightarrow> open_live close filters srcs (active @ [h]) (ids @ [rt_id (lv_route src)]) w'
      | (Inl err, w') \<Rightarrow>
          (case close_subscriptions close active w' of
             (Inr _, w'') \<Rightarrow> (Inl err, w'')
           | (Inl close_error, w'') \<Rightarrow>
               (Inl (Storage (error_string err @ ''; closing previously opened live routes failed: '' @ error_string close_error)), w'')))"

definition subscribe_routes_with_policy ::
  "('h \<Rightarrow> 'w \<Rightarrow> (pubsub_error + unit) \<times> 'w) \<Rightarrow> ('h, 'w) live_source list \<Rightarrow> filter list \<Rightarrow> pubsub_policy \<Rightarrow>
     live_options \<Rightarrow> 'w \<Rightarrow> (pubsub_error + 'h live_subscription) \<times> 'w" where
  "subscribe_routes_with_policy close routes filters policy options w =
     (if lo_max_seen_events options = 0
      then (Inl (Validation ''live route deduplication limit must be positive''), w)
      else case allowed_live policy options routes of
             Inl err \<Rightarrow> (Inl err, w)
           | Inr allowed \<Rightarrow>
               (case open_live close filters allowed [] [] w of
                  (Inl err, w') \<Rightarrow> (Inl err, w')
                | (Inr (active, ids), w') \<Rightarrow>
                    (Inr \<lparr>sb_route_ids = ids, sb_subscriptions = active, sb_seen = seen_new (lo_max_seen_events options)\<rparr>, w')))"

definition live_close ::
  "('h \<Rightarrow> 'w \<Rightarrow> (pubsub_error + unit) \<times> 'w) \<Rightarrow> 'h live_subscription \<Rightarrow> 'w \<Rightarrow>
     (pubsub_error + unit) \<times> 'h live_subscription \<times> 'w" where
  "live_close close sb w =
     (case close_subscriptions close (sb_subscriptions sb) w of (r, w') \<Rightarrow>
        (r, sb\<lparr>sb_subscriptions := [], sb_seen := seen_clear (sb_seen sb)\<rparr>, w'))"

text \<open>The loop of \<open>delivery_status\<close>, with its two variables.\<close>

fun status_loop :: "delivery_status option \<Rightarrow> bool \<Rightarrow> delivery_status option list \<Rightarrow> delivery_status option" where
  "status_loop known unknown [] = (if unknown then None else known)"
| "status_loop known unknown (Some Lagged # sts) = Some Lagged"
| "status_loop known unknown (Some Active # sts) = status_loop (Some Active) unknown sts"
| "status_loop known unknown (Some Closed # sts) =
     status_loop (case known of None \<Rightarrow> Some Closed | Some k \<Rightarrow> Some k) unknown sts"
| "status_loop known unknown (None # sts) = status_loop known True sts"

definition live_delivery_status :: "('h \<Rightarrow> delivery_status option) \<Rightarrow> 'h live_subscription \<Rightarrow> delivery_status option" where
  "live_delivery_status status sb = status_loop None False (map status (sb_subscriptions sb))"

text \<open>The router's live interface: \<open>subscribe_with_options\<close>, \<open>subscribe\<close> and the returned subscription.\<close>

definition subscribe_with_options ::
  "('h \<Rightarrow> 'w \<Rightarrow> (pubsub_error + unit) \<times> 'w) \<Rightarrow> 'r router \<Rightarrow> ('h, 'w) live_source list \<Rightarrow> filter list \<Rightarrow> live_options \<Rightarrow> 'w \<Rightarrow>
     (pubsub_error + 'h live_subscription) \<times> 'w" where
  "subscribe_with_options close r live_sources filters options w =
     subscribe_routes_with_policy close live_sources filters (ro_policy r) options w"

definition router_subscribe ::
  "('h \<Rightarrow> 'w \<Rightarrow> (pubsub_error + unit) \<times> 'w) \<Rightarrow> 'r router \<Rightarrow> ('h, 'w) live_source list \<Rightarrow> filter list \<Rightarrow> 'w \<Rightarrow>
     (pubsub_error + 'h live_subscription option) \<times> 'w" where
  "router_subscribe close r live_sources filters w =
     (case subscribe_with_options close r live_sources filters live_options_default w of
        (Inl err, w') \<Rightarrow> (Inl err, w')
      | (Inr sb, w') \<Rightarrow> (Inr (Some sb), w'))"

definition router_event_of :: "live_event \<Rightarrow> query_event" where
  "router_event_of e = \<lparr>qe_event = le_event e, qe_source = le_source e, qe_priority = le_priority e\<rparr>"

definition router_subscription_close ::
  "('h \<Rightarrow> 'w \<Rightarrow> (pubsub_error + unit) \<times> 'w) \<Rightarrow> 'h live_subscription option \<Rightarrow> 'w \<Rightarrow>
     (pubsub_error + unit) \<times> 'h live_subscription option \<times> 'w" where
  "router_subscription_close close inner w =
     (case inner of
        None \<Rightarrow> (Inr (), None, w)
      | Some sb \<Rightarrow> (case live_close close sb w of (r, _, w') \<Rightarrow> (r, None, w')))"

definition router_delivery_status ::
  "('h \<Rightarrow> delivery_status option) \<Rightarrow> 'h live_subscription option \<Rightarrow> delivery_status option" where
  "router_delivery_status status inner =
     (case inner of None \<Rightarrow> None | Some sb \<Rightarrow> live_delivery_status status sb)"

section \<open>Duplicate removal\<close>

definition seen_ok :: "nat \<Rightarrow> seen_events \<Rightarrow> bool" where
  "seen_ok maximum s \<longleftrightarrow>
     sn_maximum s = maximum \<and> sn_ids s = set (sn_order s) \<and> distinct (sn_order s) \<and> length (sn_order s) \<le> maximum"

lemma seen_evict_drop:
  "distinct order \<Longrightarrow> ids = set order \<Longrightarrow>
     seen_evict maximum ids order = (set (drop (length order - maximum) order), drop (length order - maximum) order)"
proof (induction maximum ids order rule: seen_evict.induct)
  case (2 maximum ids x xs)
  have "ids - {x} = set xs" using 2(2,3) by auto
  then show ?case using 2 by (auto simp: Suc_diff_le)
qed simp

lemma seen_insert_window:
  assumes "seen_ok (Suc m) s"
  shows "seen_insert i s = (i \<notin> set (sn_order s),
     s\<lparr>sn_ids := set (window_push (Suc m) i (sn_order s)), sn_order := window_push (Suc m) i (sn_order s)\<rparr>)"
proof (cases "i \<in> set (sn_order s)")
  case True
  then show ?thesis using assms by (cases s) (simp add: seen_insert_def seen_ok_def window_push_def)
next
  case False
  have "seen_evict (Suc m) (insert i (sn_ids s)) (sn_order s @ [i]) =
      (set (window_push (Suc m) i (sn_order s)), window_push (Suc m) i (sn_order s))"
    using assms False by (subst seen_evict_drop) (auto simp: seen_ok_def window_push_def)
  then show ?thesis using assms False by (simp add: seen_insert_def seen_ok_def)
qed

lemma seen_ok_insert: "seen_ok (Suc m) s \<Longrightarrow> seen_ok (Suc m) (snd (seen_insert i s))"
  using window_push_distinct[of "sn_order s" "Suc m" i] window_push_length[of "sn_order s" "Suc m" i]
  by (subst seen_insert_window) (simp_all add: seen_ok_def)

interpretation seen: fifo_window "\<lambda>i s. snd (seen_insert i s)" "\<lambda>i. i" sn_order "Suc m" "seen_ok (Suc m)" for m
proof
  show "seen_ok (Suc m) (snd (seen_insert x s))" if "seen_ok (Suc m) s" for x s using seen_ok_insert[OF that] .
  show "sn_order (snd (seen_insert x s)) = window_push (Suc m) x (sn_order s)" if "seen_ok (Suc m) s" for x s
    by (simp add: seen_insert_window[OF that])
  show "distinct (sn_order s) \<and> length (sn_order s) \<le> Suc m" if "seen_ok (Suc m) s" for s
    using that by (simp add: seen_ok_def)
qed simp

abbreviation le_id :: "live_event \<Rightarrow> event_id" where
  "le_id e \<equiv> ev_id (as_event (le_event e))"

definition recent :: "nat \<Rightarrow> 'a list \<Rightarrow> 'a list" where
  "recent n xs = drop (length xs - n) xs"

lemma window_push_recent:
  "0 < n \<Longrightarrow> window_push n x (recent n xs) = (if x \<in> set (recent n xs) then recent n xs else recent n (xs @ [x]))"
proof -
  assume n: "0 < n"
  have "drop (Suc (length (recent n xs)) - n) (recent n xs @ [x]) = recent n (xs @ [x])"
    using n by (cases "n \<le> length xs") (simp_all add: recent_def Suc_diff_le)
  then show ?thesis by (simp only: window_push_def)
qed

lemma distinct_windows_snoc:
  assumes "\<forall>k. distinct (take n (drop k xs))" and "x \<notin> set (recent n xs)"
  shows "distinct (take n (drop k (xs @ [x])))"
proof (cases "k + n \<le> length xs")
  case True
  then show ?thesis using assms(1) by simp
next
  case False
  have "set (drop k xs) \<subseteq> set (recent n xs)"
    unfolding recent_def using False by (intro set_drop_subset_set_drop) simp
  moreover have "take n (drop k xs) = drop k xs" using False by simp
  ultimately have "distinct (drop k xs)" and "x \<notin> set (drop k xs)" using assms by (metis, blast)
  then have d: "distinct (drop k xs @ [x])" by simp
  show ?thesis
  proof (cases "k \<le> length xs")
    case True
    then have "drop k (xs @ [x]) = drop k xs @ [x]" by simp
    then show ?thesis using distinct_take[OF d, of n] by (simp only:)
  qed simp
qed

lemma live_run_snoc:
  "live_run (xs @ [(route, q)]) s =
     (case live_run xs s of (outs, s') \<Rightarrow> (case live_incoming route q s' of (out, s'') \<Rightarrow> (outs @ out, s'')))"
  by (induction xs s rule: live_run.induct) (simp_all split: prod.splits)

lemma live_run_window:
  "seen_ok (Suc m) (snd (live_run qs (seen_new (Suc m)))) \<and>
   sn_order (snd (live_run qs (seen_new (Suc m)))) = recent (Suc m) (map le_id (fst (live_run qs (seen_new (Suc m))))) \<and>
   (\<forall>k. distinct (take (Suc m) (drop k (map le_id (fst (live_run qs (seen_new (Suc m)))))))) \<and>
   le_id ` set (fst (live_run qs (seen_new (Suc m)))) = (\<lambda>(_, q). qe_id q) ` set qs"
proof (induction qs rule: rev_induct)
  case Nil
  show ?case by (simp add: seen_ok_def seen_new_def recent_def)
next
  case (snoc x qs)
  obtain route q where x: "x = (route, q)" by (cases x)
  obtain outs s where run: "live_run qs (seen_new (Suc m)) = (outs, s)" by (cases "live_run qs (seen_new (Suc m))")
  have ok: "seen_ok (Suc m) s" and order: "sn_order s = recent (Suc m) (map le_id outs)"
    and windows: "\<forall>k. distinct (take (Suc m) (drop k (map le_id outs)))"
    and ids: "le_id ` set outs = (\<lambda>(_, q). qe_id q) ` set qs"
    using snoc.IH run by simp_all
  note ins = seen_insert_window[OF ok, of "qe_id q"]
  have ok': "seen_ok (Suc m) (snd (seen_insert (qe_id q) s))" by (rule seen_ok_insert[OF ok])
  show ?case
  proof (cases "qe_id q \<in> set (sn_order s)")
    case True
    then have "qe_id q \<in> le_id ` set outs" unfolding order recent_def by (auto dest: in_set_dropD)
    then show ?thesis
      using True ok' order windows ids run ins
      by (auto simp: x live_run_snoc live_incoming_def window_push_recent)
  next
    case False
    let ?new = "\<lparr>le_event = qe_event q, le_source = qe_source q, le_priority = qe_priority q, le_route = route\<rparr>"
    have run': "live_run (qs @ [x]) (seen_new (Suc m)) = (outs @ [?new], snd (seen_insert (qe_id q) s))"
      using run ins False by (simp add: x live_run_snoc live_incoming_def)
    have "sn_order (snd (seen_insert (qe_id q) s)) = recent (Suc m) (map le_id (outs @ [?new]))"
      using ins False order by (simp add: window_push_recent)
    moreover have "distinct (take (Suc m) (drop k (map le_id (outs @ [?new]))))" for k
      using distinct_windows_snoc[OF windows, of "qe_id q" k] False order by simp
    moreover have "le_id ` set (outs @ [?new]) = (\<lambda>(_, q). qe_id q) ` set (qs @ [x])" using ids by (simp add: x)
    ultimately show ?thesis using ok' unfolding run' fst_conv snd_conv by blast
  qed
qed

text \<open>
  C28: duplicates across routes. Over any sequence of incoming events from any routes, no event is lost: each
  identifier that arrived was delivered. An incoming event is suppressed exactly when its identifier is among
  the last \<open>max_seen_events\<close> deliveries, so any that many consecutive deliveries have pairwise different
  identifiers.
\<close>

theorem live_dedup:
  assumes "0 < maximum" and "live_run qs (seen_new maximum) = (outs, s)"
  shows "(fst (live_incoming route q s) = [] \<longleftrightarrow> qe_id q \<in> set (map le_id (recent maximum outs))) \<and>
    (\<forall>k. distinct (map le_id (take maximum (drop k outs)))) \<and>
    le_id ` set outs = (\<lambda>(_, q). qe_id q) ` set qs"
proof -
  obtain m where m: "maximum = Suc m" using assms(1) by (cases maximum) auto
  note w = live_run_window[of m qs, folded m, unfolded assms(2) fst_conv snd_conv]
  have "seen_ok (Suc m) s" using w m by simp
  from seen_insert_window[OF this, of "qe_id q"] show ?thesis
    using w by (auto simp: live_incoming_def recent_def take_map drop_map split: if_splits)
qed

section \<open>All or nothing\<close>

text \<open>Subscribing at routes in order, until the first failure.\<close>

fun open_each :: "filter list \<Rightarrow> ('h, 'w) live_source list \<Rightarrow> 'w \<Rightarrow> 'h list \<times> (pubsub_error option) \<times> 'w" where
  "open_each filters [] w = ([], None, w)"
| "open_each filters (src # srcs) w =
     (case lv_subscribe src filters (lv_route src) w of
        (Inl err, w') \<Rightarrow> ([], Some err, w')
      | (Inr h, w') \<Rightarrow> (case open_each filters srcs w' of (hs, err, w'') \<Rightarrow> (h # hs, err, w'')))"

lemma open_live_each:
  assumes "open_each filters srcs w = (hs, failed, w1)"
  shows "case failed of
      None \<Rightarrow> open_live close filters srcs active ids w = (Inr (active @ hs, ids @ map (\<lambda>s. rt_id (lv_route s)) srcs), w1)
    | Some err \<Rightarrow> \<exists>err'. open_live close filters srcs active ids w = (Inl err', snd (close_subscriptions close (active @ hs) w1)) \<and>
        (fst (close_subscriptions close (active @ hs) w1) = Inr () \<longrightarrow> err' = err)"
  using assms
proof (induction srcs arbitrary: w hs active ids)
  case (Cons src srcs)
  obtain r w' where sub: "lv_subscribe src filters (lv_route src) w = (r, w')"
    by (cases "lv_subscribe src filters (lv_route src) w")
  show ?case
  proof (cases r)
    case (Inl err)
    then show ?thesis
      using Cons.prems sub by (cases "close_subscriptions close active w'") (auto split: sum.splits)
  next
    case (Inr h)
    obtain hs' where hs': "open_each filters srcs w' = (hs', failed, w1)" "hs = h # hs'"
      using Cons.prems sub Inr by (auto split: prod.splits)
    show ?thesis
      using Cons.IH[OF hs'(1), of "active @ [h]" "ids @ [rt_id (lv_route src)]"] hs'(2) sub Inr
      by (cases failed) auto
  qed
qed auto

text \<open>
  Closing calls \<open>close\<close> once for each handle, in order and also after a failure; it succeeds exactly when every call does.
\<close>

lemma close_each_fold:
  "snd (close_each close hs failures w) = fold (\<lambda>h w. snd (close h w)) hs w"
proof (induction hs arbitrary: failures w)
  case (Cons h hs)
  then show ?case by (simp split: prod.split sum.split)
qed simp

lemma close_each_clean:
  "fst (close_each close hs failures w) = [] \<longleftrightarrow> failures = [] \<and>
     (\<forall>i < length hs. fst (close (hs ! i) (fold (\<lambda>h w. snd (close h w)) (take i hs) w)) = Inr ())"
proof (induction hs arbitrary: failures w)
  case (Cons h hs)
  obtain r w' where c: "close h w = (r, w')" by (cases "close h w")
  then show ?case by (cases r) (auto simp: Cons.IH All_less_Suc2)
qed simp

lemma close_subscriptions_fold:
  "snd (close_subscriptions close hs w) = fold (\<lambda>h w. snd (close h w)) hs w"
  "fst (close_subscriptions close hs w) = Inr () \<longleftrightarrow>
     (\<forall>i < length hs. fst (close (hs ! i) (fold (\<lambda>h w. snd (close h w)) (take i hs) w)) = Inr ())"
  using close_each_fold[of close hs "[]" w] close_each_clean[of close hs "[]" w] by (auto simp: close_subscriptions_def split: prod.split)

lemma allowed_live_filter:
  "allowed_live policy options routes = Inr allowed \<Longrightarrow>
     allowed = filter (\<lambda>src. \<exists>d. route_decision policy (lo_author_pubkey options) (lo_capabilities options) (lv_route src) = Inr d \<and> \<not> is_drop d) routes"
  by (induction routes arbitrary: allowed) (auto split: sum.splits if_splits)

text \<open>
  C29: subscribing is all or nothing. Exactly the routes the policy does not drop are subscribed, in order. If all
  succeed, the subscription holds one handle and one route identifier per route; if one fails, every handle
  opened before it is closed again, by one call of its \<open>close\<close> each, in order and also after one of them fails, and an
  error is returned, the route's own error if every one of these calls succeeded.
\<close>

theorem live_subscribe_all_or_nothing:
  assumes "lo_max_seen_events options \<noteq> 0" and "allowed_live policy options routes = Inr allowed"
    and "open_each filters allowed w = (hs, failed, w1)"
  shows "allowed = filter (\<lambda>src. \<exists>d. route_decision policy (lo_author_pubkey options) (lo_capabilities options) (lv_route src) = Inr d \<and> \<not> is_drop d) routes \<and>
    (case failed of
       None \<Rightarrow> \<exists>sb. subscribe_routes_with_policy close routes filters policy options w = (Inr sb, w1) \<and>
         sb_subscriptions sb = hs \<and> sb_route_ids sb = map (\<lambda>s. rt_id (lv_route s)) allowed
     | Some err \<Rightarrow> \<exists>err'. subscribe_routes_with_policy close routes filters policy options w =
         (Inl err', fold (\<lambda>h w. snd (close h w)) hs w1) \<and>
         ((\<forall>i < length hs. fst (close (hs ! i) (fold (\<lambda>h w. snd (close h w)) (take i hs) w1)) = Inr ()) \<longrightarrow> err' = err))"
  using open_live_each[OF assms(3), of close "[]" "[]"] assms(1,2) allowed_live_filter[OF assms(2)]
  by (cases failed) (auto simp: subscribe_routes_with_policy_def close_subscriptions_fold)

text \<open>The combined status: lagging wins, then an unknown one, then an active one.\<close>

lemma status_loop_spec:
  "known \<noteq> Some Lagged \<Longrightarrow> status_loop known unknown sts =
     (if Some Lagged \<in> set sts then Some Lagged
      else if unknown \<or> None \<in> set sts then None
      else if Some Active \<in> set sts \<or> known = Some Active then Some Active
      else if Some Closed \<in> set sts then Some Closed else known)"
  by (induction known unknown sts rule: status_loop.induct)
    (auto split: option.splits, (metis delivery_status.exhaust)+)

text \<open>
  The delivery status of a routed subscription is \<open>Lagged\<close> if any route lags; otherwise unknown if any route
  does not report or there is none; otherwise \<open>Active\<close> if any route is active, and \<open>Closed\<close> only if all are.
\<close>

theorem live_status:
  "live_delivery_status status sb =
     (let sts = status ` set (sb_subscriptions sb) in
      if Some Lagged \<in> sts then Some Lagged
      else if sts = {} \<or> None \<in> sts then None
      else if Some Active \<in> sts then Some Active else Some Closed)"
proof (cases "sb_subscriptions sb")
  case (Cons h hs)
  have "Some Closed \<in> set (map status (sb_subscriptions sb))"
    if t: "Some Lagged \<notin> set (map status (sb_subscriptions sb))" "None \<notin> set (map status (sb_subscriptions sb))"
      "Some Active \<notin> set (map status (sb_subscriptions sb))"
  proof -
    obtain a where a: "status h = Some a" using t(2) by (cases "status h") (auto simp: Cons)
    then have "a = Closed" using t(1,3) by (cases a) (auto simp: Cons)
    with a show ?thesis by (simp add: Cons)
  qed
  then show ?thesis by (auto simp: live_delivery_status_def status_loop_spec Let_def Cons)
qed (simp add: live_delivery_status_def Let_def)

section \<open>Instances\<close>

abbreviation demo_incoming :: "event_id \<Rightarrow> query_event" where
  "demo_incoming i \<equiv> \<lparr>qe_event = VerifiedEvent (demo_event i 1 4), qe_source = es_peer ''p'', qe_priority = 0\<rparr>"

theorem live_dedup_witness:
  "\<exists>outs s. live_run [(rt_peer ''a'', demo_incoming 7), (rt_relay ''b'', demo_incoming 7)] (seen_new 2) = (outs, s) \<and>
     fst (live_incoming (rt_peer ''c'') (demo_incoming 7) s) = [] \<and> le_id ` set outs = {7}"
proof -
  obtain outs s where run: "live_run [(rt_peer ''a'', demo_incoming 7), (rt_relay ''b'', demo_incoming 7)] (seen_new 2) = (outs, s)"
    by (cases "live_run [(rt_peer ''a'', demo_incoming 7), (rt_relay ''b'', demo_incoming 7)] (seen_new 2)")
  have "length outs = 1" using run by (auto simp: seen_new_def live_incoming_def seen_insert_def)
  then have "recent 2 outs = outs" by (simp add: recent_def)
  with live_dedup[OF _ run, of "rt_peer ''c''" "demo_incoming 7"] run show ?thesis
    by (auto simp: demo_event_def)
qed

theorem live_subscribe_all_or_nothing_witness:
  "subscribe_routes_with_policy (\<lambda>h w. (Inr (), w @ [h]))
     [\<lparr>lv_route = rt_peer ''a'', lv_subscribe = (\<lambda>_ _ w. (Inr 1, w))\<rparr>,
      \<lparr>lv_route = rt_peer ''b'', lv_subscribe = (\<lambda>_ _ w. (Inr 2, w))\<rparr>,
      \<lparr>lv_route = rt_relay ''c'', lv_subscribe = (\<lambda>_ _ w. (Inl (Storage ''down''), w))\<rparr>]
     [] allow_all live_options_default ([] :: nat list) = (Inl (Storage ''down''), [1, 2])"
proof -
  let ?rs = "[\<lparr>lv_route = rt_peer ''a'', lv_subscribe = (\<lambda>_ _ w. (Inr 1, w))\<rparr>,
      \<lparr>lv_route = rt_peer ''b'', lv_subscribe = (\<lambda>_ _ w. (Inr 2, w))\<rparr>,
      \<lparr>lv_route = rt_relay ''c'', lv_subscribe = (\<lambda>_ _ w. (Inl (Storage ''down''), w))\<rparr>] :: (nat, nat list) live_source list"
  have "allowed_live allow_all live_options_default ?rs = Inr ?rs" by simp
  moreover have "open_each [] ?rs [] = ([1, 2], Some (Storage ''down''), [])" by simp
  moreover have "lo_max_seen_events live_options_default \<noteq> 0"
    by (simp add: live_options_default_def DEFAULT_LIVE_DEDUP_EVENTS_def)
  ultimately show ?thesis
    using live_subscribe_all_or_nothing[of live_options_default allow_all ?rs ?rs "[]" "[]" "[1, 2]" "Some (Storage ''down'')" "[]"
      "\<lambda>h w. (Inr (), w @ [h])"] by auto
qed

end
