(* ===== verification/Pagination.thy ===== *)
theory Pagination
  imports Live_Routes
begin

text \<open>
  The bounded history cursor of \<open>crates/nostr-pubsub/src/pagination.rs\<close>, and what it means to page through a source:
  each advancing page makes progress, and when the cursor reports exhaustion, a source that answers as NIP-01
  describes has delivered every event of the requested interval. The counter of cursor identities is
  a state of its own; its compare-exchange loop is one step.
\<close>

record history_page_token =
  tk_cursor :: u64
  tk_page :: u64

record history_page =
  hp_token :: history_page_token
  hp_source :: source_id
  hp_filter :: filter

datatype page_completion = Complete | Partial

datatype page_status = Advanced | Retry | Exhausted | Limited | Stale

record page_outcome =
  po_status :: page_status
  po_oldest :: "u64 option"
  po_unique_events :: nat

record active_page =
  ap_token :: history_page_token
  ap_seen :: "event_id set"
  ap_oldest :: "u64 option"
  ap_overflow :: bool

record history_cursor =
  hc_source :: source_id
  hc_filter :: filter
  hc_initial_limit :: nat
  hc_max_limit :: nat
  hc_identity :: u64
  hc_generation :: u64
  hc_active :: "active_page option"
  hc_stopped :: bool

definition cursor_new ::
  "source_id \<Rightarrow> filter \<Rightarrow> u64 \<Rightarrow> nat \<Rightarrow> u64 \<Rightarrow> (pubsub_error + history_cursor) \<times> u64" where
  "cursor_new source f now max_limit next_id =
     (let limit = (case f_limit f of None \<Rightarrow> 100 | Some n \<Rightarrow> n) in
      if limit = 0 \<or> limit > max_limit \<or> max_limit > 65536
      then (Inl (Validation ''invalid history page limits''), next_id)
      else
        let until = (case f_until f of None \<Rightarrow> now | Some t \<Rightarrow> t) in
        if (case f_since f of None \<Rightarrow> False | Some since \<Rightarrow> since > until)
        then (Inl (Validation ''history since exceeds until''), next_id)
        else case checked_add next_id 1 of
               None \<Rightarrow> (Inl (Validation ''history cursor identity exhausted''), next_id)
             | Some next_id' \<Rightarrow>
                 (Inr \<lparr>hc_source = source, hc_filter = f\<lparr>f_limit := Some limit, f_until := Some until\<rparr>,
                       hc_initial_limit = limit, hc_max_limit = max_limit, hc_identity = next_id, hc_generation = 0,
                       hc_active = None, hc_stopped = False\<rparr>, next_id'))"

definition begin_page :: "history_cursor \<Rightarrow> history_page option \<times> history_cursor" where
  "begin_page c =
     (if hc_stopped c \<or> hc_active c \<noteq> None then (None, c)
      else case checked_add (hc_generation c) 1 of
             None \<Rightarrow> (None, c)
           | Some generation \<Rightarrow>
               let token = \<lparr>tk_cursor = hc_identity c, tk_page = generation\<rparr>
               in (Some \<lparr>hp_token = token, hp_source = hc_source c, hp_filter = hc_filter c\<rparr>,
                   c\<lparr>hc_generation := generation,
                     hc_active := Some \<lparr>ap_token = token, ap_seen = {}, ap_oldest = None, ap_overflow = False\<rparr>\<rparr>))"

definition observe :: "nostr_lib \<Rightarrow> history_page_token \<Rightarrow> query_event \<Rightarrow> history_cursor \<Rightarrow> bool \<times> history_cursor" where
  "observe lib token q c =
     (case hc_active c of
        None \<Rightarrow> (False, c)
      | Some page \<Rightarrow>
          if ap_token page \<noteq> token then (False, c)
          else
            let value = as_event (qe_event q) in
            if src_id (qe_source q) \<noteq> hc_source c \<or> \<not> match_event lib (hc_filter c) value \<or> ev_id value \<in> ap_seen page
            then (False, c)
            else if card (ap_seen page) = hc_max_limit c
            then (False, c\<lparr>hc_active := Some (page\<lparr>ap_overflow := True\<rparr>)\<rparr>)
            else (True, c\<lparr>hc_active := Some (page\<lparr>ap_seen := insert (ev_id value) (ap_seen page),
                     ap_oldest := Some (case ap_oldest page of None \<Rightarrow> ev_created_at value
                                        | Some oldest \<Rightarrow> min oldest (ev_created_at value))\<rparr>)\<rparr>))"

text \<open>The decision of \<open>finish_page\<close> about a page that belongs to the token; \<open>None\<close> is an \<open>expect\<close> that fails.\<close>

definition settle_page ::
  "active_page \<Rightarrow> page_completion \<Rightarrow> history_cursor \<Rightarrow> (page_status \<times> history_cursor) option" where
  "settle_page page completion c =
     (if ap_overflow page then Some (Limited, c\<lparr>hc_stopped := True\<rparr>)
      else if completion = Partial then Some (Retry, c)
      else case ap_oldest page of
             None \<Rightarrow> Some (Exhausted, c\<lparr>hc_stopped := True\<rparr>)
           | Some oldest \<Rightarrow>
               (case (f_until (hc_filter c), f_limit (hc_filter c)) of
                  (Some until, Some limit) \<Rightarrow>
                    Some (if oldest < until
                          then (Advanced, c\<lparr>hc_filter := (hc_filter c)\<lparr>f_until := Some oldest, f_limit := Some (hc_initial_limit c)\<rparr>\<rparr>)
                          else if card (ap_seen page) \<ge> limit
                          then if limit = hc_max_limit c then (Limited, c\<lparr>hc_stopped := True\<rparr>)
                               else (Advanced, c\<lparr>hc_filter := (hc_filter c)\<lparr>f_limit := Some (min (2 * limit) (hc_max_limit c))\<rparr>\<rparr>)
                          else if until = 0 \<or> (case f_since (hc_filter c) of None \<Rightarrow> False | Some since \<Rightarrow> since \<ge> until)
                          then (Exhausted, c\<lparr>hc_stopped := True\<rparr>)
                          else (Advanced, c\<lparr>hc_filter := (hc_filter c)\<lparr>f_until := Some (until - 1), f_limit := Some (hc_initial_limit c)\<rparr>\<rparr>))
                | _ \<Rightarrow> None))"

definition finish_page ::
  "history_page_token \<Rightarrow> page_completion \<Rightarrow> history_cursor \<Rightarrow> (page_outcome \<times> history_cursor) option" where
  "finish_page token completion c =
     (case hc_active c of
        None \<Rightarrow> Some (\<lparr>po_status = Stale, po_oldest = None, po_unique_events = 0\<rparr>, c)
      | Some page \<Rightarrow>
          if ap_token page \<noteq> token
          then Some (\<lparr>po_status = Stale, po_oldest = None, po_unique_events = 0\<rparr>, c)
          else map_option (\<lambda>(status, c'). (\<lparr>po_status = status, po_oldest = ap_oldest page, po_unique_events = card (ap_seen page)\<rparr>, c'))
                 (settle_page page completion (c\<lparr>hc_active := None\<rparr>)))"

definition cancel :: "history_cursor \<Rightarrow> history_cursor" where
  "cancel c = c\<lparr>hc_active := None, hc_stopped := True\<rparr>"

section \<open>The state of a cursor\<close>

definition cursor_ok :: "history_cursor \<Rightarrow> bool" where
  "cursor_ok c \<longleftrightarrow>
     1 \<le> hc_initial_limit c \<and> hc_initial_limit c \<le> hc_max_limit c \<and> hc_max_limit c \<le> 65536 \<and>
     (\<exists>until limit. f_until (hc_filter c) = Some until \<and> f_limit (hc_filter c) = Some limit \<and>
        1 \<le> limit \<and> limit \<le> hc_max_limit c) \<and>
     (case hc_active c of None \<Rightarrow> True | Some page \<Rightarrow> finite (ap_seen page) \<and> card (ap_seen page) \<le> hc_max_limit c)"

text \<open>What is left to do: the seconds before \<open>until\<close>, and for the current second the limits still to try.\<close>

definition history_measure :: "history_cursor \<Rightarrow> nat" where
  "history_measure c =
     (case (f_until (hc_filter c), f_limit (hc_filter c)) of
        (Some until, Some limit) \<Rightarrow> unat until * 65537 + (65536 - limit)
      | _ \<Rightarrow> 0)"

lemma cursor_ok_limit:
  "cursor_ok c \<Longrightarrow> 1 \<le> the (f_limit (hc_filter c)) \<and> the (f_limit (hc_filter c)) \<le> hc_max_limit c"
  by (auto simp: cursor_ok_def)

lemma cursor_new_ok: "cursor_new source f now max_limit n = (Inr c, n') \<Longrightarrow> cursor_ok c"
  by (auto simp: cursor_new_def Let_def cursor_ok_def split: if_splits option.splits)

lemma begin_page_ok: "cursor_ok c \<Longrightarrow> cursor_ok (snd (begin_page c))"
  by (auto simp: begin_page_def Let_def cursor_ok_def split: option.splits)

lemma observe_ok:
  assumes "cursor_ok c"
  shows "cursor_ok (snd (observe lib token q c))"
proof (cases "hc_active c")
  case (Some page)
  then show ?thesis using assms by (auto simp: observe_def Let_def cursor_ok_def card_insert_if)
qed (use assms in \<open>simp add: observe_def\<close>)

lemma settle_page_ok:
  assumes "cursor_ok c" and "hc_active c = None"
  shows "\<exists>status c'. settle_page page completion c = Some (status, c') \<and> cursor_ok c' \<and>
    (status = Advanced \<longrightarrow> history_measure c' < history_measure c) \<and>
    (status \<noteq> Advanced \<longrightarrow> hc_filter c' = hc_filter c) \<and> hc_active c' = None"
proof -
  obtain until limit where u: "f_until (hc_filter c) = Some until" and l: "f_limit (hc_filter c) = Some limit" "1 \<le> limit" "limit \<le> hc_max_limit c"
    using assms(1) by (auto simp: cursor_ok_def)
  have below: "unat t * 65537 + (65536 - hc_initial_limit c) < unat until * 65537 + (65536 - limit)" if "t < until" for t
  proof -
    have "unat t + 1 \<le> unat until" using that by (simp add: word_less_nat_alt)
    then have "(unat t + 1) * 65537 \<le> unat until * 65537" by (rule mult_le_mono1)
    then have "unat t * 65537 + 65537 \<le> unat until * 65537" by simp
    moreover have "65536 - hc_initial_limit c \<le> 65536" by simp
    ultimately show ?thesis by linarith
  qed
  have down: "until - 1 < until" if "until \<noteq> 0" using that by (simp add: word_less_nat_alt unat_minus_one unat_gt_0)
  show ?thesis
    using assms u l below down
    by (auto simp: settle_page_def cursor_ok_def history_measure_def split: option.splits)
qed

text \<open>
  C25: a page of a new cursor always settles, and paging ends. The requested limit stays between one and the
  maximum; a page that advances strictly lowers a measure of the seconds left and the limits still to try, so
  a cursor advances finitely often; a page that does not advance leaves the requested interval unchanged; and a
  callback with another token changes nothing.
\<close>

theorem history_progress:
  assumes "cursor_ok c" and "finish_page token completion c = r"
  shows "\<exists>outcome c'. r = Some (outcome, c') \<and> cursor_ok c' \<and>
    (po_status outcome = Advanced \<longrightarrow> history_measure c' < history_measure c) \<and>
    (po_status outcome \<noteq> Advanced \<longrightarrow> hc_filter c' = hc_filter c) \<and>
    (po_status outcome = Stale \<longrightarrow> c' = c) \<and>
    (map_option ap_token (hc_active c) \<noteq> Some token \<longrightarrow> po_status outcome = Stale) \<and>
    1 \<le> the (f_limit (hc_filter c')) \<and> the (f_limit (hc_filter c')) \<le> hc_max_limit c'"
proof (cases "map_option ap_token (hc_active c) = Some token")
  case False
  then have "r = Some (\<lparr>po_status = Stale, po_oldest = None, po_unique_events = 0\<rparr>, c)"
    using assms(2) by (auto simp: finish_page_def split: option.splits)
  then show ?thesis using assms(1) cursor_ok_limit[OF assms(1)] by simp
next
  case True
  then obtain page where page: "hc_active c = Some page" "ap_token page = token" by auto
  have "cursor_ok (c\<lparr>hc_active := None\<rparr>)" using assms(1) by (simp add: cursor_ok_def)
  then obtain status c' where settle: "settle_page page completion (c\<lparr>hc_active := None\<rparr>) = Some (status, c')"
    and c': "cursor_ok c'" "status = Advanced \<longrightarrow> history_measure c' < history_measure c"
      "status \<noteq> Advanced \<longrightarrow> hc_filter c' = hc_filter c"
    using settle_page_ok[of "c\<lparr>hc_active := None\<rparr>" page completion] by (auto simp: history_measure_def)
  have "status \<noteq> Stale"
    using settle by (auto simp: settle_page_def split: if_splits option.splits)
  then show ?thesis
    using assms(2) page settle c' True cursor_ok_limit[OF c'(1)] by (auto simp: finish_page_def)
qed

section \<open>Completeness\<close>

text \<open>
  What the cursor relies on about filters: the upper bound is inclusive and independent of the other fields, and
  the limit does not matter for matching.
\<close>

definition base_filter :: "filter \<Rightarrow> filter" where
  "base_filter f = f\<lparr>f_until := None, f_limit := None\<rparr>"

definition filter_law :: "nostr_lib \<Rightarrow> bool" where
  "filter_law lib \<longleftrightarrow>
     (\<forall>f e. match_event lib f e \<longleftrightarrow>
        match_event lib (base_filter f) e \<and> (case f_until f of None \<Rightarrow> True | Some until \<Rightarrow> ev_created_at e \<le> until))"

text \<open>
  A complete page of a source that holds the events \<open>E\<close>: it delivers matching events of \<open>E\<close>, all of them if it
  delivers fewer than the limit, and with an event every matching newer one.
\<close>

definition nip01_answer :: "nostr_lib \<Rightarrow> event set \<Rightarrow> filter \<Rightarrow> event set \<Rightarrow> bool" where
  "nip01_answer lib E f R \<longleftrightarrow>
     R \<subseteq> {e \<in> E. match_event lib f e} \<and>
     (case f_limit f of None \<Rightarrow> True | Some limit \<Rightarrow> card R < limit \<longrightarrow> R = {e \<in> E. match_event lib f e}) \<and>
     (\<forall>e \<in> E. \<forall>r \<in> R. match_event lib f e \<longrightarrow> ev_created_at r < ev_created_at e \<longrightarrow> e \<in> R)"

definition delivered :: "source_id \<Rightarrow> query_event list \<Rightarrow> event set" where
  "delivered source qs = {as_event (qe_event q) | q. q \<in> set qs \<and> src_id (qe_source q) = source}"

fun observe_all :: "nostr_lib \<Rightarrow> history_page_token \<Rightarrow> query_event list \<Rightarrow> history_cursor \<Rightarrow> event list \<times> history_cursor" where
  "observe_all lib token [] c = ([], c)"
| "observe_all lib token (q # qs) c =
     (case observe lib token q c of (new, c') \<Rightarrow>
        (case observe_all lib token qs c' of (es, c'') \<Rightarrow>
           (if new then as_event (qe_event q) # es else es, c'')))"

definition run_page ::
  "nostr_lib \<Rightarrow> query_event list \<Rightarrow> page_completion \<Rightarrow> history_cursor \<Rightarrow> (page_outcome \<times> event list \<times> history_cursor) option" where
  "run_page lib qs completion c =
     (case begin_page c of
        (None, _) \<Rightarrow> None
      | (Some page, c1) \<Rightarrow>
          (case observe_all lib (hp_token page) qs c1 of
             (es, c2) \<Rightarrow> map_option (\<lambda>(outcome, c3). (outcome, es, c3)) (finish_page (hp_token page) completion c2)))"

fun run_pages ::
  "nostr_lib \<Rightarrow> (query_event list \<times> page_completion) list \<Rightarrow> history_cursor \<Rightarrow> (page_status list \<times> event list \<times> history_cursor) option" where
  "run_pages lib [] c = Some ([], [], c)"
| "run_pages lib ((qs, completion) # pages) c =
     (case run_page lib qs completion c of
        None \<Rightarrow> None
      | Some (outcome, es, c') \<Rightarrow>
          (case run_pages lib pages c' of
             None \<Rightarrow> None
           | Some (sts, es', c'') \<Rightarrow> Some (po_status outcome # sts, es @ es', c'')))"

text \<open>Every complete page of the run is an answer to the filter the cursor asked with.\<close>

fun answered ::
  "nostr_lib \<Rightarrow> event set \<Rightarrow> (query_event list \<times> page_completion) list \<Rightarrow> history_cursor \<Rightarrow> bool" where
  "answered lib E [] c = True"
| "answered lib E ((qs, completion) # pages) c =
     ((completion = Complete \<longrightarrow> nip01_answer lib E (hc_filter c) (delivered (hc_source c) qs)) \<and>
      (case run_page lib qs completion c of None \<Rightarrow> True | Some (_, _, c') \<Rightarrow> answered lib E pages c'))"

definition page_of :: "event list \<Rightarrow> active_page \<Rightarrow> bool" where
  "page_of es page \<longleftrightarrow>
     ap_seen page = ev_id ` set es \<and>
     ap_oldest page = (if es = [] then None else Some (Min (ev_created_at ` set es)))"

lemma observe_step:
  assumes "hc_active c = Some page" and "ap_token page = token" and "page_of es page"
  shows "\<exists>new page'. observe lib token q c = (new, c\<lparr>hc_active := Some page'\<rparr>) \<and> ap_token page' = token \<and>
    page_of (if new then es @ [as_event (qe_event q)] else es) page' \<and>
    (new \<longrightarrow> src_id (qe_source q) = hc_source c \<and> match_event lib (hc_filter c) (as_event (qe_event q))) \<and>
    (ap_overflow page \<longrightarrow> ap_overflow page') \<and>
    (\<not> ap_overflow page' \<longrightarrow> src_id (qe_source q) = hc_source c \<longrightarrow> match_event lib (hc_filter c) (as_event (qe_event q)) \<longrightarrow>
       ev_id (as_event (qe_event q)) \<in> ap_seen page')"
proof -
  let ?e = "as_event (qe_event q)"
  consider (ignored) "src_id (qe_source q) \<noteq> hc_source c \<or> \<not> match_event lib (hc_filter c) ?e \<or> ev_id ?e \<in> ap_seen page"
    | (full) "src_id (qe_source q) = hc_source c" "match_event lib (hc_filter c) ?e" "ev_id ?e \<notin> ap_seen page"
        "card (ap_seen page) = hc_max_limit c"
    | (new) "src_id (qe_source q) = hc_source c" "match_event lib (hc_filter c) ?e" "ev_id ?e \<notin> ap_seen page"
        "card (ap_seen page) \<noteq> hc_max_limit c"
    by blast
  then show ?thesis
  proof cases
    case ignored
    have same: "c\<lparr>hc_active := Some page\<rparr> = c" using assms(1) by (cases c) simp
    have "observe lib token q c = (False, c)" using assms(1,2) ignored by (auto simp: observe_def Let_def)
    then show ?thesis using ignored assms(2,3) same by (intro exI[of _ False] exI[of _ page]) auto
  next
    case full
    then show ?thesis
      using assms by (intro exI[of _ False] exI[of _ "page\<lparr>ap_overflow := True\<rparr>"]) (auto simp: observe_def page_of_def)
  next
    case new
    let ?page = "page\<lparr>ap_seen := insert (ev_id ?e) (ap_seen page),
      ap_oldest := Some (case ap_oldest page of None \<Rightarrow> ev_created_at ?e | Some oldest \<Rightarrow> min oldest (ev_created_at ?e))\<rparr>"
    have "observe lib token q c = (True, c\<lparr>hc_active := Some ?page\<rparr>)"
      using new assms(1,2) by (simp add: observe_def Let_def)
    moreover have "page_of (es @ [?e]) ?page"
      using assms(3) by (cases "es = []") (auto simp: page_of_def min.commute)
    ultimately show ?thesis using new assms(2) by (intro exI[of _ True] exI[of _ ?page]) simp
  qed
qed

lemma observe_all_page:
  assumes "hc_active c = Some page" and "ap_token page = token" and "page_of es page"
  shows "\<exists>page' new. observe_all lib token qs c = (new, c\<lparr>hc_active := Some page'\<rparr>) \<and> ap_token page' = token \<and>
    page_of (es @ new) page' \<and> set new \<subseteq> {e \<in> delivered (hc_source c) qs. match_event lib (hc_filter c) e} \<and>
    (ap_overflow page \<longrightarrow> ap_overflow page') \<and>
    (\<not> ap_overflow page' \<longrightarrow>
       ev_id ` {e \<in> delivered (hc_source c) qs. match_event lib (hc_filter c) e} \<subseteq> ap_seen page')"
  using assms
proof (induction qs arbitrary: c page es)
  case Nil
  have "c\<lparr>hc_active := Some page\<rparr> = c" using Nil.prems(1) by (cases c) simp
  then show ?case using Nil.prems by (intro exI[of _ page] exI[of _ "[]"]) (auto simp: delivered_def)
next
  case (Cons q qs)
  let ?e = "as_event (qe_event q)"
  obtain new page1 where 1: "observe lib token q c = (new, c\<lparr>hc_active := Some page1\<rparr>)" "ap_token page1 = token"
    "page_of (if new then es @ [?e] else es) page1"
    and n: "new \<longrightarrow> src_id (qe_source q) = hc_source c \<and> match_event lib (hc_filter c) ?e"
    and o1: "ap_overflow page \<longrightarrow> ap_overflow page1"
    and s1: "\<not> ap_overflow page1 \<longrightarrow> src_id (qe_source q) = hc_source c \<longrightarrow> match_event lib (hc_filter c) ?e \<longrightarrow> ev_id ?e \<in> ap_seen page1"
    using observe_step[OF Cons.prems, of lib q] by blast
  let ?c1 = "c\<lparr>hc_active := Some page1\<rparr>"
  let ?es1 = "if new then es @ [?e] else es"
  obtain page2 es2 where 2: "observe_all lib token qs ?c1 = (es2, ?c1\<lparr>hc_active := Some page2\<rparr>)" "ap_token page2 = token"
    "page_of (?es1 @ es2) page2"
    and sub: "set es2 \<subseteq> {e \<in> delivered (hc_source c) qs. match_event lib (hc_filter c) e}"
    and o2: "ap_overflow page1 \<longrightarrow> ap_overflow page2"
    and s2: "\<not> ap_overflow page2 \<longrightarrow> ev_id ` {e \<in> delivered (hc_source c) qs. match_event lib (hc_filter c) e} \<subseteq> ap_seen page2"
    using Cons.IH[of ?c1 page1 ?es1] 1(2,3) by auto
  have grow: "ap_seen page1 \<subseteq> ap_seen page2" using 1(3) 2(3) by (auto simp: page_of_def)
  have del: "delivered (hc_source c) (q # qs) =
      (if src_id (qe_source q) = hc_source c then insert ?e (delivered (hc_source c) qs) else delivered (hc_source c) qs)"
    by (auto simp: delivered_def)
  have "observe_all lib token (q # qs) c = (if new then ?e # es2 else es2, c\<lparr>hc_active := Some page2\<rparr>)"
    using 1(1) 2(1) by simp
  moreover have "page_of (es @ (if new then ?e # es2 else es2)) page2" using 2(3) by (cases new) simp_all
  moreover have "set (if new then ?e # es2 else es2) \<subseteq> {e \<in> delivered (hc_source c) (q # qs). match_event lib (hc_filter c) e}"
    using sub n unfolding del by auto
  moreover have "\<not> ap_overflow page2 \<longrightarrow>
      ev_id ` {e \<in> delivered (hc_source c) (q # qs). match_event lib (hc_filter c) e} \<subseteq> ap_seen page2"
    using s1 s2 o2 grow unfolding del by auto
  ultimately show ?case using 2(2) o1 o2 by blast
qed

lemma match_bounded:
  assumes "filter_law lib" and "f_until f = Some until" and "base_filter f = base_filter g"
  shows "match_event lib f e \<longleftrightarrow> match_event lib (base_filter g) e \<and> ev_created_at e \<le> until"
  using assms by (metis (mono_tags, lifting) filter_law_def option.simps(5))

text \<open>What a settled page leaves: an event that matched is observed or still matches the next filter.\<close>

lemma settle_covers:
  assumes law: "filter_law lib" and fin: "finite E" and inj: "inj_on ev_id E" and ok: "cursor_ok c"
    and page: "page_of es page" and sub: "set es \<subseteq> R" and seen: "\<not> ap_overflow page \<longrightarrow> ev_id ` R \<subseteq> ap_seen page"
    and answer: "completion = Complete \<longrightarrow> nip01_answer lib E (hc_filter c) R"
    and settle: "settle_page page completion c = Some (status, c')"
    and e: "e \<in> E" "match_event lib (hc_filter c) e"
  shows "e \<in> set es \<or> status \<noteq> Exhausted \<and> match_event lib (hc_filter c') e"
proof (cases "ap_overflow page \<or> completion = Partial")
  case True
  then show ?thesis using settle e by (auto simp: settle_page_def split: if_splits)
next
  case False
  then have complete: "completion = Complete" by (cases completion) auto
  have ans: "nip01_answer lib E (hc_filter c) R" using answer complete by blast
  have RE: "R \<subseteq> E" using ans by (auto simp: nip01_answer_def)
  obtain until limit where u: "f_until (hc_filter c) = Some until" and l: "f_limit (hc_filter c) = Some limit" "1 \<le> limit"
    using ok by (auto simp: cursor_ok_def)
  have "ev_id ` R \<subseteq> ev_id ` set es" using seen False page by (simp add: page_of_def)
  then have R: "set es = R" using sub RE inj_on_image_eq_iff[OF inj, of "set es" R] by blast
  have card: "card (ap_seen page) = card R"
    using page R RE inj by (metis card_image inj_on_subset page_of_def)
  have all: "e \<in> R" if "card R < limit" using ans l(1) that e by (auto simp: nip01_answer_def)
  have until: "match_event lib g e \<longleftrightarrow> ev_created_at e \<le> t"
    if "f_until g = Some t" "base_filter g = base_filter (hc_filter c)" for g t
    using match_bounded[OF law that] match_bounded[OF law u refl, of e] e(2) by blast
  show ?thesis
  proof (cases "ap_oldest page")
    case None
    then have "R = {}" using page R by (auto simp: page_of_def split: if_splits)
    then show ?thesis using all l(2) R by simp
  next
    case (Some oldest)
    then have oldest: "oldest = Min (ev_created_at ` R)" and "R \<noteq> {}" using page R by (auto simp: page_of_def split: if_splits)
    then have "oldest \<in> ev_created_at ` R" using Min_in[of "ev_created_at ` R"] finite_subset[OF RE fin] by simp
    then obtain r where r: "r \<in> R" "ev_created_at r = oldest" by blast
    have newer: "e \<in> R" if "oldest < ev_created_at e" using ans r that e by (auto simp: nip01_answer_def)
    consider (older) "oldest < until" | (dense) "\<not> oldest < until" "card R \<ge> limit" | (few) "\<not> oldest < until" "card R < limit"
      by linarith
    then show ?thesis
    proof cases
      case older
      then have "status = Advanced" and "hc_filter c' = (hc_filter c)\<lparr>f_until := Some oldest, f_limit := Some (hc_initial_limit c)\<rparr>"
        using settle False complete Some u l(1) by (auto simp: settle_page_def)
      then show ?thesis using newer R until[of "hc_filter c'" oldest] by (auto simp: base_filter_def)
    next
      case dense
      have "match_event lib ((hc_filter c)\<lparr>f_limit := n\<rparr>) e" for n
        using until[of "(hc_filter c)\<lparr>f_limit := n\<rparr>" until] match_bounded[OF law u refl, of e] u e(2) by (simp add: base_filter_def)
      then show ?thesis
        using dense settle False complete Some u l(1) card e(2) by (auto simp: settle_page_def split: if_splits)
    next
      case few
      then show ?thesis using all R by blast
    qed
  qed
qed

lemma run_page_covers:
  assumes law: "filter_law lib" and fin: "finite E" and inj: "inj_on ev_id E" and ok: "cursor_ok c"
    and run: "run_page lib qs completion c = Some (outcome, es, c')"
    and answer: "completion = Complete \<longrightarrow> nip01_answer lib E (hc_filter c) (delivered (hc_source c) qs)"
  shows "cursor_ok c' \<and> (\<forall>e \<in> E. match_event lib (hc_filter c) e \<longrightarrow>
    e \<in> set es \<or> po_status outcome \<noteq> Exhausted \<and> match_event lib (hc_filter c') e)"
proof -
  obtain page c1 where b: "begin_page c = (Some page, c1)" using run by (auto simp: run_page_def split: prod.splits option.splits)
  define token where "token = hp_token page"
  define page0 where "page0 = \<lparr>ap_token = token, ap_seen = {}, ap_oldest = None, ap_overflow = False\<rparr>"
  have c1: "hc_active c1 = Some page0" "hc_filter c1 = hc_filter c" "hc_source c1 = hc_source c"
    using b by (auto simp: begin_page_def Let_def page0_def token_def split: if_splits option.splits)
  have ok1: "cursor_ok c1" using begin_page_ok[OF ok] b by simp
  have "page_of [] page0" by (simp add: page_of_def page0_def)
  then obtain page' new where 2: "observe_all lib token qs c1 = (new, c1\<lparr>hc_active := Some page'\<rparr>)" "ap_token page' = token"
    "page_of new page'" "set new \<subseteq> {e \<in> delivered (hc_source c) qs. match_event lib (hc_filter c) e}"
    "\<not> ap_overflow page' \<longrightarrow> ev_id ` {e \<in> delivered (hc_source c) qs. match_event lib (hc_filter c) e} \<subseteq> ap_seen page'"
    using observe_all_page[OF c1(1), of token "[]" lib qs] c1(2,3) by (auto simp: page0_def)
  have es: "new = es" and f: "finish_page token completion (c1\<lparr>hc_active := Some page'\<rparr>) = Some (outcome, c')"
    using run b 2(1) by (auto simp: run_page_def token_def)
  note 2 = 2[unfolded es]
  let ?R = "{e \<in> delivered (hc_source c) qs. match_event lib (hc_filter c) e}"
  let ?c = "c1\<lparr>hc_active := None\<rparr>"
  have okc: "cursor_ok ?c" using ok1 by (simp add: cursor_ok_def)
  obtain status where s: "settle_page page' completion ?c = Some (status, c')" "po_status outcome = status"
    using f 2(2) by (auto simp: finish_page_def)
  have "completion = Complete \<longrightarrow> nip01_answer lib E (hc_filter ?c) ?R"
  proof
    assume "completion = Complete"
    then have a: "nip01_answer lib E (hc_filter c) (delivered (hc_source c) qs)" using answer by blast
    then have "?R = delivered (hc_source c) qs" by (auto simp: nip01_answer_def)
    then show "nip01_answer lib E (hc_filter ?c) ?R" using a c1(2) by simp
  qed
  note cover = settle_covers[OF law fin inj okc 2(3,4,5) this s(1)]
  moreover have "cursor_ok c'" using settle_page_ok[OF okc, of page' completion] s(1) by auto
  ultimately show ?thesis using s(2) c1(2) by auto
qed

lemma run_pages_cover:
  assumes "filter_law lib" and "finite E" and "inj_on ev_id E" and "cursor_ok c"
    and "run_pages lib pages c = Some (sts, es, c')" and "answered lib E pages c"
  shows "\<forall>e \<in> E. match_event lib (hc_filter c) e \<longrightarrow> e \<in> set es \<or> Exhausted \<notin> set sts \<and> match_event lib (hc_filter c') e"
  using assms(4-)
proof (induction pages arbitrary: c sts es)
  case (Cons x pages)
  obtain qs completion where x: "x = (qs, completion)" by (cases x)
  obtain outcome es1 c1 where p: "run_page lib qs completion c = Some (outcome, es1, c1)"
    using Cons.prems(2) by (auto simp: x split: option.splits)
  obtain sts2 es2 where q: "run_pages lib pages c1 = Some (sts2, es2, c')" "sts = po_status outcome # sts2" "es = es1 @ es2"
    using Cons.prems(2) p by (auto simp: x split: option.splits)
  have "cursor_ok c1 \<and> (\<forall>e \<in> E. match_event lib (hc_filter c) e \<longrightarrow>
      e \<in> set es1 \<or> po_status outcome \<noteq> Exhausted \<and> match_event lib (hc_filter c1) e)"
    using run_page_covers[OF assms(1-3) Cons.prems(1) p] Cons.prems(3) by (simp add: x)
  moreover have "answered lib E pages c1" using Cons.prems(3) p by (simp add: x)
  ultimately show ?case using Cons.IH[OF _ q(1)] q(2,3) by fastforce
qed simp

text \<open>
  C24: exhaustion means completeness. Take a new cursor and any run of pages in which each complete page is an answer
  as NIP-01 describes it from a source holding the events \<open>E\<close> (partial pages may deliver anything). If a page ends as
  \<open>Exhausted\<close>, every event of \<open>E\<close> that matches the requested filter, up to the requested end or
  the starting time, has been observed, also where many events share a second.
\<close>

theorem history_exhausted_complete:
  assumes "filter_law lib" and "finite E" and "inj_on ev_id E"
    and "cursor_new source f now max_limit n = (Inr c, n')"
    and "run_pages lib pages c = Some (sts, es, c')" and "answered lib E pages c" and "Exhausted \<in> set sts"
  shows "\<forall>e \<in> E. match_event lib f e \<longrightarrow> ev_created_at e \<le> (case f_until f of None \<Rightarrow> now | Some t \<Rightarrow> t) \<longrightarrow> e \<in> set es"
proof (intro ballI impI)
  fix e
  assume e: "e \<in> E" "match_event lib f e" "ev_created_at e \<le> (case f_until f of None \<Rightarrow> now | Some t \<Rightarrow> t)"
  let ?until = "case f_until f of None \<Rightarrow> now | Some t \<Rightarrow> t"
  have c: "f_until (hc_filter c) = Some ?until" "base_filter (hc_filter c) = base_filter f"
    using assms(4) by (auto simp: cursor_new_def Let_def base_filter_def split: if_splits option.splits)
  have "match_event lib (base_filter f) e" using assms(1) e(2) unfolding filter_law_def by blast
  then have "match_event lib (hc_filter c) e" using match_bounded[OF assms(1) c] e(3) by blast
  then show "e \<in> set es"
    using run_pages_cover[OF assms(1-3) cursor_new_ok[OF assms(4)] assms(5,6)] assms(7) e(1) by blast
qed

section \<open>Instances\<close>

definition demo_cursor :: history_cursor where
  "demo_cursor = \<lparr>hc_source = ''p'', hc_filter = filter_new\<lparr>f_limit := Some 2, f_until := Some 50\<rparr>, hc_initial_limit = 2,
     hc_max_limit = 8, hc_identity = 1, hc_generation = 0, hc_active = None, hc_stopped = False\<rparr>"

lemma demo_cursor_new: "cursor_new ''p'' (filter_new\<lparr>f_limit := Some 2\<rparr>) 50 8 1 = (Inr demo_cursor, 2)"
  by (simp add: cursor_new_def demo_cursor_def filter_new_def checked_add_def)

lemma demo_filter_law: "filter_law demo_lib"
  by (simp add: filter_law_def demo_lib_def demo_match_def base_filter_def split: option.split)

theorem history_progress_witness:
  "\<exists>outcome c'. finish_page \<lparr>tk_cursor = 1, tk_page = 1\<rparr> Complete demo_cursor = Some (outcome, c') \<and> po_status outcome = Stale"
proof -
  have "cursor_ok demo_cursor" by (simp add: cursor_ok_def demo_cursor_def)
  from history_progress[OF this refl, of "\<lparr>tk_cursor = 1, tk_page = 1\<rparr>" Complete] show ?thesis
    by (auto simp: demo_cursor_def)
qed

lemmas page_eval =
  run_page_def begin_page_def demo_cursor_def checked_add_def Let_def observe_def finish_page_def settle_page_def
  es_peer_def demo_lib_def demo_match_def filter_new_def demo_event_def

abbreviation cursor_at :: "u64 \<Rightarrow> u64 \<Rightarrow> history_cursor" where
  "cursor_at until generation \<equiv>
     demo_cursor\<lparr>hc_filter := filter_new\<lparr>f_limit := Some 2, f_until := Some until\<rparr>, hc_generation := generation\<rparr>"

lemma demo_page_1:
  "run_page demo_lib [demo_incoming 7] Complete demo_cursor =
     Some (\<lparr>po_status = Advanced, po_oldest = Some 1, po_unique_events = 1\<rparr>, [demo_event 7 1 4], cursor_at 1 1)"
  by (simp add: page_eval)

lemma demo_page_2:
  "run_page demo_lib [demo_incoming 7] Complete (cursor_at 1 1) =
     Some (\<lparr>po_status = Advanced, po_oldest = Some 1, po_unique_events = 1\<rparr>, [demo_event 7 1 4], cursor_at 0 2)"
  by (simp add: page_eval)

lemma demo_page_3:
  "run_page demo_lib [] Complete (cursor_at 0 2) =
     Some (\<lparr>po_status = Exhausted, po_oldest = None, po_unique_events = 0\<rparr>, [], (cursor_at 0 3)\<lparr>hc_stopped := True\<rparr>)"
  by (simp add: page_eval)

theorem history_exhausted_complete_witness:
  "\<exists>sts es c'. run_pages demo_lib [([demo_incoming 7], Complete), ([demo_incoming 7], Complete), ([], Complete)] demo_cursor =
     Some (sts, es, c') \<and> demo_event 7 1 4 \<in> set es"
proof -
  let ?E = "{demo_event 7 1 4}"
  let ?pages = "[([demo_incoming 7], Complete), ([demo_incoming 7], Complete), ([], Complete)]"
  have run: "run_pages demo_lib ?pages demo_cursor =
      Some ([Advanced, Advanced, Exhausted], [demo_event 7 1 4, demo_event 7 1 4], (cursor_at 0 3)\<lparr>hc_stopped := True\<rparr>)"
    by (simp add: demo_page_1 demo_page_2 demo_page_3)
  have one: "delivered ''p'' [demo_incoming 7] = ?E" "delivered ''p'' [] = {}"
    by (auto simp: delivered_def es_peer_def)
  have m: "match_event demo_lib (filter_new\<lparr>f_limit := Some n, f_until := Some u\<rparr>) (demo_event 7 1 4) \<longleftrightarrow> 1 \<le> u" for n u
    by (simp add: demo_lib_def demo_match_def filter_new_def demo_event_def)
  have "answered demo_lib ?E ?pages demo_cursor"
    by (simp add: demo_page_1 demo_page_2 demo_page_3 nip01_answer_def)
      (simp add: demo_cursor_def one m cong: conj_cong)
  moreover have "match_event demo_lib (filter_new\<lparr>f_limit := Some 2\<rparr>) (demo_event 7 1 4)"
    by (simp add: demo_lib_def demo_match_def filter_new_def)
  ultimately show ?thesis
    using history_exhausted_complete[OF demo_filter_law _ _ demo_cursor_new run, of ?E] run
    by (auto simp: filter_new_def demo_event_def)
qed

end
