(* ===== verification/Records.thy ===== *)
theory Records
  imports Events
begin

text \<open>
  The record layer of a byte stream, \<open>RecordDecoder\<close> and \<open>encode_record\<close> of
  \<open>crates/nostr-pubsub-fips/src/stream.rs\<close>: a record is its length in four big-endian bytes followed by the
  payload. The decoder keeps at most one record's worth of input and returns a bounded number of records per call.
\<close>

section \<open>Operations\<close>

definition LENGTH_PREFIX_BYTES :: nat where
  "LENGTH_PREFIX_BYTES = 4"

text \<open>\<open>u32::to_be_bytes\<close> and \<open>u32::from_be_bytes\<close>.\<close>

definition to_be_bytes :: "u32 \<Rightarrow> bytes" where
  "to_be_bytes w = map (\<lambda>i. ucast (drop_bit i w)) [24, 16, 8, 0]"

definition from_be_bytes :: "bytes \<Rightarrow> u32" where
  "from_be_bytes bs = foldl (\<lambda>w b. push_bit 8 w + ucast b) 0 bs"

definition encode_record :: "bytes \<Rightarrow> nat \<Rightarrow> pubsub_error + bytes" where
  "encode_record payload max_record_bytes =
     (if length payload > max_record_bytes then Inl (Validation ''record exceeds the maximum'')
      else if length payload \<ge> 2 ^ 32 then Inl (Validation ''record is too large'')
      else Inr (to_be_bytes (word_of_nat (length payload)) @ payload))"

record record_decoder =
  rd_max_record_bytes :: nat
  rd_buffer :: bytes

definition rd_new :: "nat \<Rightarrow> record_decoder" where
  "rd_new max_record_bytes = \<lparr>rd_max_record_bytes = max_record_bytes, rd_buffer = []\<rparr>"

definition declared_length :: "bytes \<Rightarrow> nat" where
  "declared_length buffer = unat (from_be_bytes (take LENGTH_PREFIX_BYTES buffer))"

text \<open>The loop of \<open>push\<close>: the records taken off the buffer and what remains of it.\<close>

fun take_records :: "nat \<Rightarrow> nat \<Rightarrow> bytes \<Rightarrow> pubsub_error + bytes list \<times> bytes" where
  "take_records max_record_bytes 0 buffer = Inr ([], buffer)"
| "take_records max_record_bytes (Suc n) buffer =
     (if length buffer < LENGTH_PREFIX_BYTES then Inr ([], buffer)
      else let declared = declared_length buffer in
        if declared > max_record_bytes then Inl (Validation ''record declares too many bytes'')
        else if length buffer < LENGTH_PREFIX_BYTES + declared then Inr ([], buffer)
        else case take_records max_record_bytes n (drop (LENGTH_PREFIX_BYTES + declared) buffer) of
               Inl err \<Rightarrow> Inl err
             | Inr (records, rest) \<Rightarrow> Inr (take declared (drop LENGTH_PREFIX_BYTES buffer) # records, rest))"

definition rd_push :: "bytes \<Rightarrow> nat \<Rightarrow> record_decoder \<Rightarrow> (pubsub_error + bytes list) \<times> record_decoder" where
  "rd_push bytes max_records d =
     (if length (rd_buffer d) + length bytes > rd_max_record_bytes d + LENGTH_PREFIX_BYTES
      then (Inl (Validation ''record input exceeds the maximum buffered input''), d\<lparr>rd_buffer := []\<rparr>)
      else case take_records (rd_max_record_bytes d) max_records (rd_buffer d @ bytes) of
             Inl err \<Rightarrow> (Inl err, d\<lparr>rd_buffer := []\<rparr>)
           | Inr (records, rest) \<Rightarrow> (Inr records, d\<lparr>rd_buffer := rest\<rparr>))"

definition rd_len :: "record_decoder \<Rightarrow> nat" where
  "rd_len d = length (rd_buffer d)"

definition remaining_capacity :: "record_decoder \<Rightarrow> nat" where
  "remaining_capacity d = rd_max_record_bytes d + LENGTH_PREFIX_BYTES - length (rd_buffer d)"

definition has_complete_record :: "record_decoder \<Rightarrow> bool" where
  "has_complete_record d \<longleftrightarrow>
     (if length (rd_buffer d) < LENGTH_PREFIX_BYTES then False
      else declared_length (rd_buffer d) \<le> rd_max_record_bytes d \<and>
           LENGTH_PREFIX_BYTES + declared_length (rd_buffer d) \<le> length (rd_buffer d))"

section \<open>Framing\<close>

lemma length_to_be_bytes [simp]: "length (to_be_bytes w) = LENGTH_PREFIX_BYTES"
  by (simp add: to_be_bytes_def LENGTH_PREFIX_BYTES_def)

lemma low_byte: "ucast (ucast w :: u8) = take_bit 8 (w :: u32)"
  by (rule bit_word_eqI) (auto simp: bit_simps)

lemma shift_in_byte: "push_bit 8 (drop_bit (8 + n) w) + ucast (ucast (drop_bit n w) :: u8) = drop_bit n (w :: u32)"
  using bits_ident[of 8 "drop_bit n w"] by (simp add: low_byte add.commute)

lemma high_byte: "take_bit 8 (drop_bit 24 w) = drop_bit 24 (w :: u32)"
  by (rule bit_word_eqI) (auto simp: bit_simps dest: bit_imp_le_length)

lemma from_to_be_bytes [simp]: "from_be_bytes (to_be_bytes w) = w"
  using shift_in_byte[of 16 w] shift_in_byte[of 8 w] shift_in_byte[of 0 w]
  by (simp add: from_be_bytes_def to_be_bytes_def low_byte high_byte)

text \<open>The bytes of a record, and what it means that the buffer starts with a complete one.\<close>

definition record_bytes :: "bytes \<Rightarrow> bytes" where
  "record_bytes payload = to_be_bytes (word_of_nat (length payload)) @ payload"

definition complete :: "nat \<Rightarrow> bytes \<Rightarrow> bool" where
  "complete m b \<longleftrightarrow> LENGTH_PREFIX_BYTES \<le> length b \<and> declared_length b \<le> m \<and>
     LENGTH_PREFIX_BYTES + declared_length b \<le> length b"

lemma has_complete_record_eq: "has_complete_record d \<longleftrightarrow> complete (rd_max_record_bytes d) (rd_buffer d)"
  by (auto simp: has_complete_record_def complete_def)

lemma encode_record_Inr:
  "encode_record p m = Inr r \<longleftrightarrow> length p \<le> m \<and> length p < 2 ^ 32 \<and> r = record_bytes p"
  by (auto simp: encode_record_def record_bytes_def)

lemma length_record_bytes [simp]: "length (record_bytes p) = LENGTH_PREFIX_BYTES + length p"
  by (simp add: record_bytes_def)

lemma drop_record_bytes [simp]: "drop LENGTH_PREFIX_BYTES (record_bytes p) = p"
  by (simp add: record_bytes_def)

lemma prefix_of_record:
  assumes "b @ rest = record_bytes p @ s" and "length p < 2 ^ 32" and "LENGTH_PREFIX_BYTES \<le> length b"
  shows "declared_length b = length p"
    and "LENGTH_PREFIX_BYTES + length p \<le> length b \<Longrightarrow>
      take (length p) (drop LENGTH_PREFIX_BYTES b) = p \<and> b = record_bytes p @ drop (LENGTH_PREFIX_BYTES + length p) b"
proof -
  have "take LENGTH_PREFIX_BYTES b = take LENGTH_PREFIX_BYTES (b @ rest)" using assms(3) by simp
  also have "\<dots> = to_be_bytes (word_of_nat (length p))" by (simp only: assms(1)) (simp add: record_bytes_def)
  finally show "declared_length b = length p"
    using assms(2) by (simp add: declared_length_def unat_of_nat take_bit_nat_eq_self)
  assume len: "LENGTH_PREFIX_BYTES + length p \<le> length b"
  then have "take (LENGTH_PREFIX_BYTES + length p) b = take (LENGTH_PREFIX_BYTES + length p) (b @ rest)" by simp
  also have "\<dots> = record_bytes p" by (simp only: assms(1)) simp
  finally have t: "take (LENGTH_PREFIX_BYTES + length p) b = record_bytes p" .
  then have "take (length p) (drop LENGTH_PREFIX_BYTES b) = drop LENGTH_PREFIX_BYTES (record_bytes p)"
    using drop_take[of LENGTH_PREFIX_BYTES "LENGTH_PREFIX_BYTES + length p" b] by simp
  then show "take (length p) (drop LENGTH_PREFIX_BYTES b) = p \<and> b = record_bytes p @ drop (LENGTH_PREFIX_BYTES + length p) b"
    using t append_take_drop_id[of "LENGTH_PREFIX_BYTES + length p" b] by (simp add: record_bytes_def)
qed

lemma take_records_prefix:
  assumes "b @ rest = concat (map record_bytes ps)" and "\<forall>p \<in> set ps. length p \<le> m \<and> length p < 2 ^ 32"
  shows "\<exists>k b'. take_records m n b = Inr (take k ps, b') \<and> b = concat (map record_bytes (take k ps)) @ b' \<and>
    b' @ rest = concat (map record_bytes (drop k ps)) \<and> k \<le> length ps \<and> k \<le> n \<and> (k < n \<longrightarrow> \<not> complete m b')"
  using assms
proof (induction n arbitrary: b ps)
  case 0
  then show ?case by (intro exI[of _ 0] exI[of _ b]) simp
next
  case (Suc n)
  show ?case
  proof (cases "LENGTH_PREFIX_BYTES \<le> length b")
    case False
    then show ?thesis using Suc.prems by (intro exI[of _ 0] exI[of _ b]) (simp add: complete_def)
  next
    case long: True
    then obtain p ps' where ps: "ps = p # ps'"
      using Suc.prems(1) by (cases ps) (auto simp: LENGTH_PREFIX_BYTES_def)
    then have eq: "b @ rest = record_bytes p @ concat (map record_bytes ps')" using Suc.prems(1) by simp
    have p: "length p \<le> m" "length p < 2 ^ 32" using Suc.prems(2) ps by simp_all
    note first = prefix_of_record[OF eq p(2) long]
    show ?thesis
    proof (cases "LENGTH_PREFIX_BYTES + length p \<le> length b")
      case False
      then show ?thesis using Suc.prems long p(1) first(1)
        by (intro exI[of _ 0] exI[of _ b]) (simp add: complete_def)
    next
      case True
      let ?b = "drop (LENGTH_PREFIX_BYTES + length p) b"
      have b: "b = record_bytes p @ ?b" using first(2)[OF True] by blast
      then have "?b @ rest = concat (map record_bytes ps')"
        using eq by (metis append.assoc append_same_eq same_append_eq)
      moreover have "\<forall>p \<in> set ps'. length p \<le> m \<and> length p < 2 ^ 32" using Suc.prems(2) ps by simp
      ultimately obtain k b' where ih: "take_records m n ?b = Inr (take k ps', b')"
        "?b = concat (map record_bytes (take k ps')) @ b'" "b' @ rest = concat (map record_bytes (drop k ps'))"
        "k \<le> length ps'" "k \<le> n" "k < n \<longrightarrow> \<not> complete m b'"
        using Suc.IH[of ?b ps'] by blast
      then have "take_records m (Suc n) b = Inr (take (Suc k) ps, b')"
        using True long first p(1) ps by (simp add: Let_def)
      moreover have "b = concat (map record_bytes (take (Suc k) ps)) @ b'" using ih(2) b ps by simp
      moreover have "b' @ rest = concat (map record_bytes (drop (Suc k) ps))" using ih(3) ps by simp
      ultimately show ?thesis using ih(4-6) ps by (intro exI[of _ "Suc k"] exI[of _ b']) (simp del: take_records.simps)
    qed
  qed
qed

section \<open>Fragmented input\<close>

text \<open>
  Feeding a decoder with fragments. \<open>paced\<close> is the discipline of a driver that never reads more than
  \<open>remaining_input_capacity\<close> bytes; an empty fragment processes records that are already buffered.
\<close>

fun rd_feed :: "nat \<Rightarrow> bytes list \<Rightarrow> record_decoder \<Rightarrow> (pubsub_error + bytes list) \<times> record_decoder" where
  "rd_feed n [] d = (Inr [], d)"
| "rd_feed n (c # cs) d =
     (case rd_push c n d of
        (Inl err, d') \<Rightarrow> (Inl err, d')
      | (Inr records, d') \<Rightarrow>
          (case rd_feed n cs d' of
             (Inl err, d'') \<Rightarrow> (Inl err, d'')
           | (Inr later, d'') \<Rightarrow> (Inr (records @ later), d'')))"

fun paced :: "nat \<Rightarrow> bytes list \<Rightarrow> record_decoder \<Rightarrow> bool" where
  "paced n [] d \<longleftrightarrow> True"
| "paced n (c # cs) d \<longleftrightarrow> length c \<le> remaining_capacity d \<and> paced n cs (snd (rd_push c n d))"

lemma rd_push_prefix:
  assumes "rd_buffer d @ c @ rest = concat (map record_bytes ps)" and "\<forall>p \<in> set ps. length p \<le> rd_max_record_bytes d \<and> length p < 2 ^ 32"
    and "length c \<le> remaining_capacity d" and "length (rd_buffer d) \<le> rd_max_record_bytes d + LENGTH_PREFIX_BYTES"
  shows "\<exists>k b. rd_push c n d = (Inr (take k ps), d\<lparr>rd_buffer := b\<rparr>) \<and> k \<le> length ps \<and>
    rd_buffer d @ c = concat (map record_bytes (take k ps)) @ b \<and> b @ rest = concat (map record_bytes (drop k ps)) \<and>
    length b \<le> rd_max_record_bytes d + LENGTH_PREFIX_BYTES \<and> (0 < n \<longrightarrow> complete (rd_max_record_bytes d) (rd_buffer d @ c) \<longrightarrow> 0 < k)"
proof -
  have fits: "\<not> length (rd_buffer d) + length c > rd_max_record_bytes d + LENGTH_PREFIX_BYTES"
    using assms(3,4) by (simp add: remaining_capacity_def)
  obtain k b where k: "take_records (rd_max_record_bytes d) n (rd_buffer d @ c) = Inr (take k ps, b)"
    "rd_buffer d @ c = concat (map record_bytes (take k ps)) @ b" "b @ rest = concat (map record_bytes (drop k ps))"
    "k \<le> length ps" "k < n \<longrightarrow> \<not> complete (rd_max_record_bytes d) b"
    using take_records_prefix[of "rd_buffer d @ c" rest ps "rd_max_record_bytes d" n] assms(1,2) by auto
  have "length b \<le> length (rd_buffer d @ c)" by (subst k(2)) simp
  then have "length b \<le> rd_max_record_bytes d + LENGTH_PREFIX_BYTES" using fits by simp
  moreover have "rd_push c n d = (Inr (take k ps), d\<lparr>rd_buffer := b\<rparr>)" using fits k(1) by (simp add: rd_push_def)
  moreover have "0 < k" if "0 < n" "complete (rd_max_record_bytes d) (rd_buffer d @ c)"
    using that k(2,5) by (cases k) auto
  ultimately show ?thesis using k(2-4) by blast
qed

lemma rd_feed_prefix:
  assumes "rd_buffer d @ concat cs @ rest = concat (map record_bytes ps)" and "paced n cs d"
    and "\<forall>p \<in> set ps. length p \<le> rd_max_record_bytes d \<and> length p < 2 ^ 32"
    and "length (rd_buffer d) \<le> rd_max_record_bytes d + LENGTH_PREFIX_BYTES"
  shows "\<exists>k b. rd_feed n cs d = (Inr (take k ps), d\<lparr>rd_buffer := b\<rparr>) \<and> k \<le> length ps \<and>
    rd_buffer d @ concat cs = concat (map record_bytes (take k ps)) @ b \<and> b @ rest = concat (map record_bytes (drop k ps)) \<and>
    length b \<le> rd_max_record_bytes d + LENGTH_PREFIX_BYTES"
  using assms
proof (induction cs arbitrary: d ps)
  case Nil
  then show ?case by (intro exI[of _ 0] exI[of _ "rd_buffer d"]) simp
next
  case (Cons c cs)
  obtain k b where 1: "rd_push c n d = (Inr (take k ps), d\<lparr>rd_buffer := b\<rparr>)" "k \<le> length ps"
    "rd_buffer d @ c = concat (map record_bytes (take k ps)) @ b" "b @ concat cs @ rest = concat (map record_bytes (drop k ps))"
    "length b \<le> rd_max_record_bytes d + LENGTH_PREFIX_BYTES"
    using rd_push_prefix[of d c "concat cs @ rest" ps n] Cons.prems by auto
  let ?d = "d\<lparr>rd_buffer := b\<rparr>"
  have "\<forall>p \<in> set (drop k ps). length p \<le> rd_max_record_bytes ?d \<and> length p < 2 ^ 32"
    using Cons.prems(3) by (auto dest: in_set_dropD)
  moreover have "rd_buffer ?d @ concat cs @ rest = concat (map record_bytes (drop k ps))" using 1(4) by simp
  moreover have "paced n cs ?d" using Cons.prems(2) 1(1) by simp
  moreover have "length (rd_buffer ?d) \<le> rd_max_record_bytes ?d + LENGTH_PREFIX_BYTES" using 1(5) by simp
  ultimately obtain j b' where 2: "rd_feed n cs (d\<lparr>rd_buffer := b\<rparr>) = (Inr (take j (drop k ps)), d\<lparr>rd_buffer := b'\<rparr>)" "j \<le> length (drop k ps)"
    "b @ concat cs = concat (map record_bytes (take j (drop k ps))) @ b'" "b' @ rest = concat (map record_bytes (drop j (drop k ps)))"
    "length b' \<le> rd_max_record_bytes d + LENGTH_PREFIX_BYTES"
    using Cons.IH[of ?d "drop k ps"] by force
  have t: "take (k + j) ps = take k ps @ take j (drop k ps)" by (simp add: take_add)
  have "rd_buffer d @ concat (c # cs) = concat (map record_bytes (take (k + j) ps)) @ b'"
    using arg_cong[OF 1(3), of "\<lambda>xs. xs @ concat cs"] 2(3) by (simp add: t)
  moreover have "rd_feed n (c # cs) d = (Inr (take (k + j) ps), d\<lparr>rd_buffer := b'\<rparr>)" using 1(1) 2(1) by (simp add: t)
  moreover have "b' @ rest = concat (map record_bytes (drop (k + j) ps))" using 2(4) by (simp add: add.commute)
  moreover have "k + j \<le> length ps" using 1(2) 2(2) by simp
  ultimately show ?case using 2(5) by blast
qed

text \<open>Without a complete record in the buffer there is room to read, and nothing is left of a stream that has ended.\<close>

lemma incomplete_buffer:
  assumes "b @ rest = concat (map record_bytes ps)" and "\<forall>p \<in> set ps. length p \<le> m \<and> length p < 2 ^ 32" and "\<not> complete m b"
  shows "length b < m + LENGTH_PREFIX_BYTES" and "rest = [] \<Longrightarrow> ps = [] \<and> b = []"
proof -
  have first: "declared_length b = length p \<and> length p \<le> m" if "LENGTH_PREFIX_BYTES \<le> length b" "ps = p # ps'" for p ps'
    using prefix_of_record(1)[of b rest p "concat (map record_bytes ps')"] assms(1,2) that by simp
  show "length b < m + LENGTH_PREFIX_BYTES"
  proof (cases "LENGTH_PREFIX_BYTES \<le> length b")
    case True
    then obtain p ps' where "ps = p # ps'" using assms(1) by (cases ps) (auto simp: LENGTH_PREFIX_BYTES_def)
    from first[OF True this] show ?thesis using assms(3) True by (auto simp: complete_def)
  qed simp
  assume "rest = []"
  show "ps = [] \<and> b = []"
  proof (cases ps)
    case Nil
    then show ?thesis using assms(1) by simp
  next
    case (Cons p ps')
    then have b: "b = record_bytes p @ concat (map record_bytes ps')" using assms(1) \<open>rest = []\<close> by simp
    then have "complete m b" using first[OF _ Cons] by (simp add: complete_def)
    with assms(3) show ?thesis by simp
  qed
qed

text \<open>
  C32: framing survives any fragmentation. When a driver that reads at most the remaining capacity feeds a decoder with any
  fragments of a stream of encoded records, no call fails; the records returned so far are a prefix of those sent,
  in order, and the buffer holds exactly the bytes after them, never more than one record. A buffered record is returned by
  the next call, and when none is buffered there is room to read on, and at the end of the stream all records have
  been returned.
\<close>

theorem record_framing:
  assumes "map (\<lambda>p. encode_record p m) ps = map Inr rs" and "concat cs @ rest = concat rs"
    and "paced n cs (rd_new m)" and "0 < n"
  shows "\<exists>k d. rd_feed n cs (rd_new m) = (Inr (take k ps), d) \<and> concat cs = concat (take k rs) @ rd_buffer d \<and>
    rd_len d \<le> m + LENGTH_PREFIX_BYTES \<and>
    (if has_complete_record d then \<exists>p more_records. fst (rd_push [] n d) = Inr (p # more_records)
     else 0 < remaining_capacity d \<and> (rest = [] \<longrightarrow> take k ps = ps \<and> rd_buffer d = []))"
proof -
  have rs: "rs = map record_bytes ps" and ps: "\<forall>p \<in> set ps. length p \<le> m \<and> length p < 2 ^ 32"
    using assms(1) by (induction ps arbitrary: rs) (auto simp: encode_record_Inr)
  have "concat cs @ rest = concat (map record_bytes ps)" using assms(2) rs by simp
  then obtain k b where k: "rd_feed n cs (rd_new m) = (Inr (take k ps), (rd_new m)\<lparr>rd_buffer := b\<rparr>)" "k \<le> length ps"
    "concat cs = concat (map record_bytes (take k ps)) @ b" "b @ rest = concat (map record_bytes (drop k ps))"
    "length b \<le> m + LENGTH_PREFIX_BYTES"
    using rd_feed_prefix[of "rd_new m" cs rest ps n] assms(3) ps by (auto simp: rd_new_def)
  let ?d = "\<lparr>rd_max_record_bytes = m, rd_buffer = b\<rparr>"
  have feed: "rd_feed n cs (rd_new m) = (Inr (take k ps), ?d)" using k(1) by (simp add: rd_new_def)
  have ps': "\<forall>p \<in> set (drop k ps). length p \<le> m \<and> length p < 2 ^ 32" using ps by (auto dest: in_set_dropD)
  have "\<exists>p more_records. fst (rd_push [] n ?d) = Inr (p # more_records)" if c: "has_complete_record ?d"
  proof -
    obtain j b' where j: "rd_push [] n ?d = (Inr (take j (drop k ps)), ?d\<lparr>rd_buffer := b'\<rparr>)" "j \<le> length (drop k ps)" "0 < j"
      using rd_push_prefix[of ?d "[]" rest "drop k ps" n] k(4,5) ps' assms(4) c by (auto simp: has_complete_record_eq)
    then have "take j (drop k ps) \<noteq> []" by auto
    then obtain p q where "take j (drop k ps) = p # q" by (cases "take j (drop k ps)") blast+
    then show ?thesis using j(1) by simp
  qed
  moreover have "0 < remaining_capacity ?d \<and> (rest = [] \<longrightarrow> take k ps = ps \<and> rd_buffer ?d = [])"
    if "\<not> has_complete_record ?d"
    using incomplete_buffer[OF k(4) ps'] that by (auto simp: has_complete_record_eq remaining_capacity_def)
  ultimately show ?thesis using feed k(3,5) rs
    by (intro exI[of _ k] exI[of _ ?d]) (simp add: rd_len_def take_map)
qed

theorem record_framing_witness:
  "\<exists>d. rd_feed 4 [[0, 0, 0], [2, 7], [8]] (rd_new 8) = (Inr [[7, 8]], d) \<and> rd_buffer d = []"
proof -
  have e: "map (\<lambda>p. encode_record p 8) [[7, 8]] = map Inr [[0, 0, 0, 2, 7, 8]]"
    by (simp add: encode_record_def to_be_bytes_def)
  have p: "paced 4 [[0, 0, 0], [2, 7], [8]] (rd_new 8)" by code_simp
  have "\<not> has_complete_record \<lparr>rd_max_record_bytes = 8, rd_buffer = []\<rparr>"
    by (simp add: has_complete_record_def LENGTH_PREFIX_BYTES_def)
  moreover have "snd (rd_feed 4 [[0, 0, 0], [2, 7], [8]] (rd_new 8)) = \<lparr>rd_max_record_bytes = 8, rd_buffer = []\<rparr>" by code_simp
  ultimately show ?thesis using record_framing[OF e, of "[[0, 0, 0], [2, 7], [8]]" "[]" 4] p by auto
qed

end
