(* ===== verification/Inv_Want.thy ===== *)
theory Inv_Want
  imports Mesh
begin

text \<open>
  The envelope codec of the mesh messages (\<open>InvWantCodec\<close> in \<open>crates/nostr-pubsub/src/mesh.rs\<close>) and the
  network-neutral stream messages of \<open>crates/nostr-pubsub/src/inv_want.rs\<close>. The JSON text of an envelope is the
  parameter \<open>envelope_lib\<close>.
\<close>

section \<open>Envelopes\<close>

record envelope_lib =
  env_encode :: "string \<Rightarrow> u8 \<Rightarrow> wire_message \<Rightarrow> bytes option"
  env_decode :: "bytes \<Rightarrow> (string \<times> u8 \<times> wire_message) option"

definition envelope_law :: "envelope_lib \<Rightarrow> bool" where
  "envelope_law el \<longleftrightarrow> (\<forall>protocol version m b. env_encode el protocol version m = Some b \<longrightarrow> env_decode el b = Some (protocol, version, m))"

record inv_want_codec =
  iw_protocol :: string
  iw_version :: u8
  iw_max_wire_bytes :: nat

definition iw_new :: "string \<Rightarrow> u8 \<Rightarrow> nat \<Rightarrow> inv_want_codec" where
  "iw_new protocol version max_wire_bytes =
     \<lparr>iw_protocol = protocol, iw_version = version, iw_max_wire_bytes = max max_wire_bytes 1\<rparr>"

definition check_wire_len :: "inv_want_codec \<Rightarrow> nat \<Rightarrow> pubsub_error option" where
  "check_wire_len codec n =
     (if n > iw_max_wire_bytes codec then Some (Validation ''inv/want wire payload exceeds the maximum'') else None)"

definition iw_encode :: "envelope_lib \<Rightarrow> inv_want_codec \<Rightarrow> wire_message \<Rightarrow> pubsub_error + bytes" where
  "iw_encode el codec m =
     (case env_encode el (iw_protocol codec) (iw_version codec) m of
        None \<Rightarrow> Inl (Validation ''invalid inv/want JSON'')
      | Some encoded \<Rightarrow> (case check_wire_len codec (length encoded) of Some err \<Rightarrow> Inl err | None \<Rightarrow> Inr encoded))"

definition iw_decode :: "envelope_lib \<Rightarrow> inv_want_codec \<Rightarrow> bytes \<Rightarrow> pubsub_error + wire_message" where
  "iw_decode el codec payload =
     (case check_wire_len codec (length payload) of
        Some err \<Rightarrow> Inl err
      | None \<Rightarrow>
          (case env_decode el payload of
             None \<Rightarrow> Inl (Validation ''invalid inv/want JSON'')
           | Some (protocol, version, m) \<Rightarrow>
               if protocol \<noteq> iw_protocol codec then Inl (Validation ''unsupported inv/want protocol'')
               else if version \<noteq> iw_version codec then Inl (Validation ''unsupported inv/want version'')
               else Inr m))"

text \<open>A codec reads what a codec with the same protocol and version wrote, and nothing written under another one.\<close>

lemma iw_decode_encode:
  assumes "envelope_law el" and "iw_encode el c1 m = Inr b" and "length b \<le> iw_max_wire_bytes c2"
  shows "iw_decode el c2 b =
    (if iw_protocol c1 \<noteq> iw_protocol c2 then Inl (Validation ''unsupported inv/want protocol'')
     else if iw_version c1 \<noteq> iw_version c2 then Inl (Validation ''unsupported inv/want version'')
     else Inr m)"
proof -
  have "env_encode el (iw_protocol c1) (iw_version c1) m = Some b"
    using assms(2) by (auto simp: iw_encode_def split: option.splits)
  then have "env_decode el b = Some (iw_protocol c1, iw_version c1, m)" using assms(1) unfolding envelope_law_def by blast
  then show ?thesis using assms(3) by (simp add: iw_decode_def check_wire_len_def)
qed

section \<open>Stream messages\<close>

record content_key =
  ck_stream_id :: string
  ck_origin :: source_id
  ck_seq :: u64

record pubsub_inventory =
  pi_key :: content_key
  pi_payload_bytes :: u64
  pi_hop_limit :: u8

record pubsub_want =
  pw_key :: content_key

record pubsub_frame =
  pf_key :: content_key
  pf_payload :: bytes
  pf_hop_limit :: u8

datatype inv_want_message = MInventory pubsub_inventory | MWant pubsub_want | MFrame pubsub_frame

definition inventory_want :: "pubsub_inventory \<Rightarrow> pubsub_want" where
  "inventory_want i = \<lparr>pw_key = pi_key i\<rparr>"

definition frame_inventory :: "pubsub_frame \<Rightarrow> pubsub_inventory" where
  "frame_inventory frame =
     \<lparr>pi_key = pf_key frame,
      pi_payload_bytes = (if length (pf_payload frame) < 2 ^ 64 then word_of_nat (length (pf_payload frame)) else - 1),
      pi_hop_limit = pf_hop_limit frame\<rparr>"

fun message_key :: "inv_want_message \<Rightarrow> content_key" where
  "message_key (MInventory i) = pi_key i"
| "message_key (MWant want) = pw_key want"
| "message_key (MFrame frame) = pf_key frame"

fun message_stream_id :: "inv_want_message \<Rightarrow> string" where
  "message_stream_id (MInventory i) = ck_stream_id (pi_key i)"
| "message_stream_id (MWant want) = ck_stream_id (pw_key want)"
| "message_stream_id (MFrame frame) = ck_stream_id (pf_key frame)"

text \<open>The three messages of one exchange carry the same key, and the announced size never exceeds the payload's.\<close>

lemma exchange_keys:
  "message_key (MInventory (frame_inventory f)) = message_key (MFrame f)"
  "message_key (MWant (inventory_want (frame_inventory f))) = message_key (MFrame f)"
  "message_stream_id m = ck_stream_id (message_key m)"
  by (simp_all add: frame_inventory_def inventory_want_def) (cases m; simp)

lemma announced_size: "unat (pi_payload_bytes (frame_inventory f)) = min (length (pf_payload f)) (2 ^ 64 - 1)"
proof (cases "length (pf_payload f) < 2 ^ 64")
  case True
  then show ?thesis by (simp add: frame_inventory_def unat_of_nat take_bit_nat_eq_self min_def)
next
  case False
  then show ?thesis by (simp add: frame_inventory_def min_def unsigned_minus_1_eq_mask mask_eq_exp_minus_1)
qed

end
