(* ===== verification/Inv_Want_Stream.thy ===== *)
theory Inv_Want_Stream
  imports Records Inv_Want Mesh_History
begin

text \<open>
  The policy-aware record stream above the mesh, \<open>FipsInvWantStream\<close> of
  \<open>crates/nostr-pubsub-fips/src/stream.rs\<close>: bytes from a peer become records, envelopes, messages of
  the mesh, and the mesh's actions become records for other peers and deliveries to the application. A policy
  is a function held in the state; a call that awaits it holds the stream exclusively and is one step. The JSON
  text of envelopes is the parameter \<open>envelope_lib\<close>. A panic of \<open>replay_cached_to_peer\<close> is \<open>None\<close>.
\<close>

section \<open>Data\<close>

definition FIPS_NOSTR_PUBSUB_INV_WANT_PROTOCOL :: string where
  "FIPS_NOSTR_PUBSUB_INV_WANT_PROTOCOL = ''nostr.pubsub''"

definition FIPS_NOSTR_PUBSUB_INV_WANT_VERSION :: u8 where
  "FIPS_NOSTR_PUBSUB_INV_WANT_VERSION = 1"

definition DEFAULT_INV_WANT_MAX_WIRE_BYTES :: nat where
  "DEFAULT_INV_WANT_MAX_WIRE_BYTES = 1024 * 1024 + 4096"

record stream_options =
  so_mesh :: mesh_options
  so_protocol :: string
  so_protocol_version :: u8
  so_max_record_bytes :: nat
  so_max_input_peers :: nat
  so_max_records_per_receive :: nat

definition stream_options_default :: stream_options where
  "stream_options_default =
     \<lparr>so_mesh = default_options, so_protocol = FIPS_NOSTR_PUBSUB_INV_WANT_PROTOCOL,
      so_protocol_version = FIPS_NOSTR_PUBSUB_INV_WANT_VERSION,
      so_max_record_bytes = DEFAULT_INV_WANT_MAX_WIRE_BYTES, so_max_input_peers = 64, so_max_records_per_receive = 64\<rparr>"

datatype stream_action = SSend string bytes | SDeliver query_event

type_synonym peer_policy = "string \<Rightarrow> pubsub_error + mesh_peer option"

record stream =
  sm_mesh :: mesh
  sm_codec :: inv_want_codec
  sm_options :: stream_options
  sm_event_policy :: "pubsub_policy option"
  sm_peer_policy :: "peer_policy option"
  sm_inputs :: "(string, record_decoder) hmap"

section \<open>Construction\<close>

text \<open>The whitespace that \<open>str::trim\<close> removes, among the characters below 256.\<close>

definition is_whitespace :: "char \<Rightarrow> bool" where
  "is_whitespace c \<longleftrightarrow> (let n = of_char c :: nat in 9 \<le> n \<and> n \<le> 13 \<or> n = 32 \<or> n = 133 \<or> n = 160)"

text \<open>The last check of \<open>validate\<close>, that the buffer size does not overflow, cannot fail after the second.\<close>

definition stream_options_validate :: "stream_options \<Rightarrow> pubsub_error option" where
  "stream_options_validate opts =
     (if so_max_record_bytes opts = 0 then Some (Validation ''max_record_bytes must be greater than zero'')
      else if list_all is_whitespace (so_protocol opts) then Some (Validation ''protocol must not be empty'')
      else if so_max_record_bytes opts > 2 ^ 32 - 1 then Some (Validation ''max_record_bytes exceeds the record prefix'')
      else if so_max_input_peers opts = 0 then Some (Validation ''max_input_peers must be greater than zero'')
      else if so_max_records_per_receive opts = 0 then Some (Validation ''max_records_per_receive must be greater than zero'')
      else None)"

definition stream_new :: "stream_options \<Rightarrow> pubsub_error + stream" where
  "stream_new opts =
     (case stream_options_validate opts of
        Some err \<Rightarrow> Inl err
      | None \<Rightarrow>
          Inr \<lparr>sm_mesh = mesh_new (so_mesh opts),
               sm_codec = iw_new (so_protocol opts) (so_protocol_version opts) (so_max_record_bytes opts),
               sm_options = opts, sm_event_policy = None, sm_peer_policy = None, sm_inputs = []\<rparr>)"

definition with_event_policy :: "pubsub_policy \<Rightarrow> stream \<Rightarrow> stream" where
  "with_event_policy policy s = s\<lparr>sm_event_policy := Some policy\<rparr>"

definition with_peer_policy :: "peer_policy \<Rightarrow> stream \<Rightarrow> stream" where
  "with_peer_policy policy s = s\<lparr>sm_peer_policy := Some policy\<rparr>"

section \<open>Operations\<close>

definition select_peer :: "stream \<Rightarrow> string \<Rightarrow> pubsub_error + mesh_peer option" where
  "select_peer s peer_id =
     (case (case sm_peer_policy s of
              Some policy \<Rightarrow> policy peer_id
            | None \<Rightarrow> Inr (Some (mesh_peer_new peer_id))) of
        Inl err \<Rightarrow> Inl err
      | Inr selected \<Rightarrow> Inr (map_option (\<lambda>peer. peer\<lparr>mp_id := peer_id\<rparr>) selected))"

fun collect_peers :: "stream \<Rightarrow> string list \<Rightarrow> (string, mesh_peer) hmap \<Rightarrow> pubsub_error + (string, mesh_peer) hmap" where
  "collect_peers s [] selected = Inr selected"
| "collect_peers s (peer_id # peer_ids) selected =
     (case select_peer s peer_id of
        Inl err \<Rightarrow> Inl err
      | Inr None \<Rightarrow> collect_peers s peer_ids selected
      | Inr (Some peer) \<Rightarrow> collect_peers s peer_ids (bmap_insert peer_id peer selected))"

definition select_peers :: "stream \<Rightarrow> string list \<Rightarrow> pubsub_error + mesh_peer list" where
  "select_peers s peer_ids = map_sum (\<lambda>err. err) (map snd) (collect_peers s peer_ids [])"

definition ensure_event_record_fits :: "nostr_lib \<Rightarrow> envelope_lib \<Rightarrow> stream \<Rightarrow> verified_event \<Rightarrow> pubsub_error option" where
  "ensure_event_record_fits lib el s v =
     (case iw_encode el (sm_codec s) (Frame (to_hex lib (ev_id (as_event v))) (as_event v)) of
        Inl err \<Rightarrow> Some err
      | Inr _ \<Rightarrow> None)"

text \<open>One action of the mesh; the admitted event is the one a \<open>Deliver\<close> must be about.\<close>

fun encode_action ::
  "envelope_lib \<Rightarrow> stream \<Rightarrow> (verified_event \<times> int) option \<Rightarrow> action \<Rightarrow> pubsub_error + stream_action" where
  "encode_action el s admitted_delivery (Send peer_id message) =
     (case iw_encode el (sm_codec s) message of
        Inl err \<Rightarrow> Inl err
      | Inr payload \<Rightarrow>
          (case encode_record payload (so_max_record_bytes (sm_options s)) of
             Inl err \<Rightarrow> Inl err
           | Inr r \<Rightarrow> Inr (SSend peer_id r)))"
| "encode_action el s None (Deliver source_peer e) =
     Inl (Storage ''mesh delivered an event outside frame admission'')"
| "encode_action el s (Some (verified, priority)) (Deliver source_peer e) =
     Inr (SDeliver \<lparr>qe_event = verified, qe_source = es_fips_endpoint source_peer, qe_priority = priority\<rparr>)"

fun encode_actions ::
  "envelope_lib \<Rightarrow> stream \<Rightarrow> (verified_event \<times> int) option \<Rightarrow> action list \<Rightarrow> pubsub_error + stream_action list" where
  "encode_actions el s admitted_delivery [] = Inr []"
| "encode_actions el s admitted_delivery (a # actions) =
     (case encode_action el s admitted_delivery a of
        Inl err \<Rightarrow> Inl err
      | Inr x \<Rightarrow> map_sum (\<lambda>err. err) (Cons x) (encode_actions el s admitted_delivery actions))"

text \<open>The end of every operation that calls the mesh: its error, or its actions encoded.\<close>

definition finish ::
  "envelope_lib \<Rightarrow> stream \<Rightarrow> (verified_event \<times> int) option \<Rightarrow> action list result \<times> mesh \<Rightarrow>
     (pubsub_error + stream_action list) \<times> stream" where
  "finish el s admitted_delivery r =
     (case r of
        (Inl err, m) \<Rightarrow> (Inl err, s\<lparr>sm_mesh := m\<rparr>)
      | (Inr actions, m) \<Rightarrow> (encode_actions el s admitted_delivery actions, s\<lparr>sm_mesh := m\<rparr>))"

definition stream_seed :: "nostr_lib \<Rightarrow> envelope_lib \<Rightarrow> verified_event \<Rightarrow> u64 \<Rightarrow> stream \<Rightarrow> (pubsub_error + unit) \<times> stream" where
  "stream_seed lib el v now_ms s =
     (case ensure_event_record_fits lib el s v of
        Some err \<Rightarrow> (Inl err, s)
      | None \<Rightarrow> (case seed_verified lib v now_ms (sm_mesh s) of (r, m) \<Rightarrow> (r, s\<lparr>sm_mesh := m\<rparr>)))"

definition stream_publish ::
  "nostr_lib \<Rightarrow> envelope_lib \<Rightarrow> verified_event \<Rightarrow> string list \<Rightarrow> u64 \<Rightarrow> stream \<Rightarrow>
     (pubsub_error + stream_action list) \<times> stream" where
  "stream_publish lib el v connected_peers now_ms s =
     (case ensure_event_record_fits lib el s v of
        Some err \<Rightarrow> (Inl err, s)
      | None \<Rightarrow>
          (case select_peers s connected_peers of
             Inl err \<Rightarrow> (Inl err, s)
           | Inr peers \<Rightarrow> finish el s None (publish_verified lib v peers now_ms (sm_mesh s))))"

definition peer_connected ::
  "envelope_lib \<Rightarrow> string \<Rightarrow> u64 \<Rightarrow> stream \<Rightarrow> ((pubsub_error + stream_action list) \<times> stream) option" where
  "peer_connected el peer_id now_ms s =
     (case select_peer s peer_id of
        Inl err \<Rightarrow> Some (Inl err, s)
      | Inr None \<Rightarrow> Some (Inr [], s)
      | Inr (Some _) \<Rightarrow>
          (case replay_cached_to_peer peer_id now_ms (sm_mesh s) of
             (None, m) \<Rightarrow> None
           | (Some actions, m) \<Rightarrow> Some (finish el s None (Inr actions, m))))"

definition stream_disconnect_peer :: "string \<Rightarrow> stream \<Rightarrow> stream" where
  "stream_disconnect_peer peer_id s = s\<lparr>sm_inputs := hm_remove peer_id (sm_inputs s)\<rparr>"

definition decode_records :: "string \<Rightarrow> bytes \<Rightarrow> stream \<Rightarrow> (pubsub_error + bytes list) \<times> stream" where
  "decode_records peer_id bytes s =
     (if \<not> hm_contains (sm_inputs s) peer_id \<and> length (sm_inputs s) \<ge> so_max_input_peers (sm_options s)
      then (Inl (Storage ''FIPS pubsub input peer limit''), s)
      else let d = (case hm_get (sm_inputs s) peer_id of
                      Some d \<Rightarrow> d
                    | None \<Rightarrow> rd_new (so_max_record_bytes (sm_options s)))
           in case rd_push bytes (so_max_records_per_receive (sm_options s)) d of
                (r, d') \<Rightarrow> (r, s\<lparr>sm_inputs := hm_insert peer_id d' (sm_inputs s)\<rparr>))"

text \<open>The verdict of the event policy: an error, a refusal, or the priority of an admitted event.\<close>

definition admission :: "stream \<Rightarrow> verified_event \<Rightarrow> event_source \<Rightarrow> pubsub_error + int option" where
  "admission s v source =
     (case sm_event_policy s of
        None \<Rightarrow> Inr (Some (default_priority (src_kind source)))
      | Some policy \<Rightarrow>
          (case check_event policy v source of
             Inr (Allow priority) \<Rightarrow> Inr (Some priority)
           | Inr (Throttle priority _) \<Rightarrow> Inr (Some priority)
           | Inr (Drop _) \<Rightarrow> Inr None
           | Inl err \<Rightarrow> Inl err))"

definition receive_message ::
  "nostr_lib \<Rightarrow> envelope_lib \<Rightarrow> string \<Rightarrow> wire_message \<Rightarrow> mesh_peer list \<Rightarrow> u64 \<Rightarrow> stream \<Rightarrow>
     (pubsub_error + stream_action list) \<times> stream" where
  "receive_message lib el source_peer message peers now_ms s =
     (case message of
        Frame event_id e \<Rightarrow>
          (case try_from_event lib e of
             Inl err \<Rightarrow> (Inl err, s\<lparr>sm_mesh := record_invalid_message source_peer (sm_mesh s)\<rparr>)
           | Inr verified \<Rightarrow>
               (case admission s verified (es_fips_endpoint source_peer) of
                  Inl err \<Rightarrow> (Inl err, s\<lparr>sm_mesh := dismiss_frame source_peer event_id (sm_mesh s)\<rparr>)
                | Inr None \<Rightarrow> (Inr [], s\<lparr>sm_mesh := dismiss_frame source_peer event_id (sm_mesh s)\<rparr>)
                | Inr (Some priority) \<Rightarrow>
                    finish el s (Some (verified, priority))
                      (receive_verified_frame lib source_peer event_id verified peers now_ms (sm_mesh s))))
      | _ \<Rightarrow> finish el s None (receive lib source_peer message peers now_ms (sm_mesh s)))"

text \<open>The loop of \<open>receive_bytes\<close> over the decoded records.\<close>

fun receive_records ::
  "nostr_lib \<Rightarrow> envelope_lib \<Rightarrow> string \<Rightarrow> mesh_peer list \<Rightarrow> u64 \<Rightarrow> bytes list \<Rightarrow> stream \<Rightarrow>
     (pubsub_error + stream_action list) \<times> stream" where
  "receive_records lib el source_peer peers now_ms [] s = (Inr [], s)"
| "receive_records lib el source_peer peers now_ms (r # records) s =
     (case iw_decode el (sm_codec s) r of
        Inl err \<Rightarrow> (Inl err, s\<lparr>sm_mesh := record_invalid_message source_peer (sm_mesh s)\<rparr>)
      | Inr message \<Rightarrow>
          (case receive_message lib el source_peer message peers now_ms s of
             (Inl err, s') \<Rightarrow> (Inl err, s')
           | (Inr actions, s') \<Rightarrow>
               (case receive_records lib el source_peer peers now_ms records s' of
                  (Inl err, s'') \<Rightarrow> (Inl err, s'')
                | (Inr output, s'') \<Rightarrow> (Inr (actions @ output), s''))))"

definition receive_bytes ::
  "nostr_lib \<Rightarrow> envelope_lib \<Rightarrow> string \<Rightarrow> bytes \<Rightarrow> string list \<Rightarrow> u64 \<Rightarrow> stream \<Rightarrow>
     (pubsub_error + stream_action list) \<times> stream" where
  "receive_bytes lib el source_peer bytes connected_peers now_ms s =
     (case select_peer s source_peer of
        Inl err \<Rightarrow> (Inl err, s)
      | Inr None \<Rightarrow> (Inr [], stream_disconnect_peer source_peer s)
      | Inr (Some _) \<Rightarrow>
          (case decode_records source_peer bytes s of
             (Inl err, s1) \<Rightarrow> (Inl err, s1)
           | (Inr records, s1) \<Rightarrow>
               (case select_peers s1 connected_peers of
                  Inl err \<Rightarrow> (Inl err, s1)
                | Inr peers \<Rightarrow> receive_records lib el source_peer peers now_ms records s1)))"

definition stream_maintain :: "u64 \<Rightarrow> stream \<Rightarrow> stream" where
  "stream_maintain now_ms s = s\<lparr>sm_mesh := maintain now_ms (sm_mesh s)\<rparr>"

definition buffered_input_bytes :: "stream \<Rightarrow> string \<Rightarrow> nat" where
  "buffered_input_bytes s peer_id = (case hm_get (sm_inputs s) peer_id of None \<Rightarrow> 0 | Some d \<Rightarrow> rd_len d)"

definition remaining_input_capacity :: "stream \<Rightarrow> string \<Rightarrow> nat" where
  "remaining_input_capacity s peer_id =
     (case hm_get (sm_inputs s) peer_id of
        None \<Rightarrow> so_max_record_bytes (sm_options s) + LENGTH_PREFIX_BYTES
      | Some d \<Rightarrow> remaining_capacity d)"

definition has_ready_input :: "stream \<Rightarrow> string \<Rightarrow> bool" where
  "has_ready_input s peer_id = (case hm_get (sm_inputs s) peer_id of None \<Rightarrow> False | Some d \<Rightarrow> has_complete_record d)"

end
