(* ===== verification/Stream_Mesh.thy ===== *)
theory Stream_Mesh
  imports Inv_Want_Stream
begin

text \<open>
  The stream implements the mesh: whatever the application and the peers do, the mesh inside a stream is in a state
  that the mesh's own step relation reaches, every record the stream emits encodes an action of that mesh, and
  the retained input is bounded. What holds of reachable meshes therefore holds of streams.
\<close>

section \<open>What the mesh returns\<close>

lemma receive_frame_delivers:
  assumes "fst (receive_frame lib p k e peers now vs s) = Inr acts" and "Deliver q e' \<in> set acts"
  shows "q = p \<and> e' = e"
  using assms
  by (auto simp: receive_frame_def split: sum.splits option.splits if_splits prod.splits)
    (metis frame_delivers fst_conv)+

lemma receive_without_frame:
  assumes "receive lib p m peers now s = (Inr acts, s')" and "\<And>k e. m \<noteq> Frame k e"
  shows "Deliver q e' \<notin> set acts"
proof (cases m)
  case (Inventory k kind sz h)
  then have "receive_inventory p k kind sz h now (prune now s) = (Inr acts, s')"
    using assms(1) by (simp add: receive_def charge_error_Inr)
  then show ?thesis
    by (auto simp: receive_inventory_def retry_inventory_def open_route_def Let_def
      split: sum.splits if_splits option.splits prod.splits)
next
  case (Want k)
  then have "receive_want p k now (prune now s) = (Inr acts, s')"
    using assms(1) by (simp add: receive_def charge_error_Inr)
  then show ?thesis by (auto simp: receive_want_def Let_def split: sum.splits if_splits option.splits)
qed (use assms(2) in simp)

lemma replay_cached_returns:
  assumes "mesh_inv lib now s"
  shows "\<exists>acts. collect_actions (map (cached_inventory s p) ks) = Some acts"
proof (induction ks)
  case (Cons k ks)
  have "\<exists>a. cached_inventory s p k = Some a"
  proof (cases "map_of (cached_events s) k")
    case (Some c)
    then have "admitted lib (options s) k c"
      using assms map_of_SomeD[OF Some] by (auto simp: mesh_inv_def cache_inv_def)
    then obtain w :: u32 where "ce_payload_bytes c = ucast w" by (auto simp: admitted_def)
    then have "unat (ce_payload_bytes c) < 2 ^ 32"
      using unsigned_less[of w, where 'a = nat] by (simp add: unsigned_ucast_eq take_bit_nat_eq_self)
    then show ?thesis using Some by (simp add: cached_inventory_def)
  qed (simp add: cached_inventory_def)
  then obtain a where "cached_inventory s p k = Some a" by blast
  then show ?case using Cons by (cases a) auto
qed simp

section \<open>Emitted actions\<close>

text \<open>The action of the mesh that a stream action stands for.\<close>

fun emitted :: "envelope_lib \<Rightarrow> stream \<Rightarrow> entry list \<Rightarrow> stream_action \<Rightarrow> bool" where
  "emitted el s log (SSend p r) \<longleftrightarrow>
     (\<exists>m payload. Out (Send p m) \<in> set log \<and> iw_encode el (sm_codec s) m = Inr payload \<and>
        encode_record payload (so_max_record_bytes (sm_options s)) = Inr r)"
| "emitted el s log (SDeliver q) \<longleftrightarrow>
     (\<exists>p. Out (Deliver p (as_event (qe_event q))) \<in> set log \<and> qe_source q = es_fips_endpoint p)"

lemma emitted_cong:
  assumes "sm_codec s' = sm_codec s" and "sm_options s' = sm_options s" and "emitted el s log x" and "set log \<subseteq> set log'"
  shows "emitted el s' log' x"
  using assms by (cases x; simp) blast+

lemma encode_actions_emitted:
  assumes "encode_actions el s ad acts = Inr outs"
    and "\<And>p e. Deliver p e \<in> set acts \<Longrightarrow> \<exists>v prio. ad = Some (v, prio) \<and> e = as_event v"
    and "x \<in> set outs"
  shows "emitted el s (map Out acts) x"
  using assms
proof (induction acts arbitrary: outs)
  case (Cons a acts)
  then obtain y ys where y: "encode_action el s ad a = Inr y" "encode_actions el s ad acts = Inr ys" "outs = y # ys"
    by (cases "encode_action el s ad a"; cases "encode_actions el s ad acts") auto
  have "emitted el s [Out a] y"
  proof (cases a)
    case (Send p m)
    then show ?thesis using y(1) by (auto split: sum.splits)
  next
    case (Deliver p e)
    then obtain v prio where "ad = Some (v, prio)" "e = as_event v" using Cons.prems(2)[of p e] by auto
    then show ?thesis using y(1) Deliver by auto
  qed
  moreover have "emitted el s (map Out acts) x" if "x \<in> set ys"
    using Cons.IH[OF y(2) _ that] Cons.prems(2) by auto
  ultimately show ?case
    using Cons.prems(3) y(3) emitted_cong[of s s el "[Out a]" x "map Out (a # acts)"]
      emitted_cong[of s s el "map Out acts" x "map Out (a # acts)"] by auto
qed simp

section \<open>Bounded input\<close>

definition inputs_ok :: "stream \<Rightarrow> bool" where
  "inputs_ok s \<longleftrightarrow> hm_wf (sm_inputs s) \<and> length (sm_inputs s) \<le> so_max_input_peers (sm_options s) \<and>
     (\<forall>(p, d) \<in> set (sm_inputs s). rd_max_record_bytes d = so_max_record_bytes (sm_options s) \<and>
        rd_len d \<le> so_max_record_bytes (sm_options s) + LENGTH_PREFIX_BYTES)"

lemma take_records_length: "take_records m n b = Inr (rs, rest) \<Longrightarrow> length rest \<le> length b"
proof (induction n arbitrary: b rs)
  case (Suc n)
  then show ?case
    by (auto simp: Let_def split: if_splits sum.splits prod.splits dest!: Suc.IH)
qed simp

lemma rd_push_bounded:
  assumes "rd_push c n d = (r, d')"
  shows "rd_max_record_bytes d' = rd_max_record_bytes d \<and> rd_len d' \<le> rd_max_record_bytes d + LENGTH_PREFIX_BYTES"
  using assms by (auto simp: rd_push_def rd_len_def split: if_splits sum.splits prod.splits dest!: take_records_length)

lemma decode_records_ok:
  assumes "inputs_ok s" and "decode_records p bytes s = (r, s')"
  shows "inputs_ok s' \<and> (\<exists>inputs. s' = s\<lparr>sm_inputs := inputs\<rparr>)"
proof (cases "\<not> hm_contains (sm_inputs s) p \<and> length (sm_inputs s) \<ge> so_max_input_peers (sm_options s)")
  case True
  then show ?thesis using assms by (auto simp: decode_records_def intro: exI[of _ "sm_inputs s"])
next
  case False
  define d where "d = (case hm_get (sm_inputs s) p of Some d \<Rightarrow> d | None \<Rightarrow> rd_new (so_max_record_bytes (sm_options s)))"
  obtain d' where push: "rd_push bytes (so_max_records_per_receive (sm_options s)) d = (r, d')"
    and s': "s' = s\<lparr>sm_inputs := hm_insert p d' (sm_inputs s)\<rparr>"
    using assms(2) unfolding decode_records_def Let_def d_def[symmetric] if_not_P[OF False]
    by (cases "rd_push bytes (so_max_records_per_receive (sm_options s)) d") simp
  have "rd_max_record_bytes d = so_max_record_bytes (sm_options s)"
    using assms(1) by (auto simp: d_def inputs_ok_def rd_new_def split: option.splits dest!: map_of_SomeD)
  moreover have "length (hm_insert p d' (sm_inputs s)) \<le> so_max_input_peers (sm_options s)"
    using False assms(1) by (auto simp: inputs_ok_def length_hm_insert)
  ultimately show ?thesis
    using assms(1) rd_push_bounded[OF push] s' by (auto simp: inputs_ok_def set_hm_insert)
qed

lemma inputs_ok_disconnect: "inputs_ok s \<Longrightarrow> inputs_ok (stream_disconnect_peer p s)"
  by (auto simp: inputs_ok_def stream_disconnect_peer_def set_hm_remove intro: le_trans[OF length_hm_remove_le])

section \<open>Simulation\<close>

text \<open>
  \<open>simulates\<close>: from a reachable mesh with history \<open>log\<close>, the operation leads to a reachable mesh with a longer history
  that contains what the operation returned; the codec, the options and the bound on the input are kept.
\<close>

definition simulates ::
  "nostr_lib \<Rightarrow> envelope_lib \<Rightarrow> mesh_options \<Rightarrow> u64 \<Rightarrow> u64 \<Rightarrow> stream \<Rightarrow> entry list \<Rightarrow> (pubsub_error + stream_action list) \<times> stream \<Rightarrow> bool" where
  "simulates lib el o0 c now s log res \<longleftrightarrow>
     (case res of (r, s') \<Rightarrow>
        sm_codec s' = sm_codec s \<and> sm_options s' = sm_options s \<and> inputs_ok s' \<and>
        (\<exists>c' new. c \<le> c' \<and> c' \<le> now \<and> mesh_reachable lib o0 (c', sm_mesh s', log @ new) \<and>
           (\<forall>outs. r = Inr outs \<longrightarrow> (\<forall>x \<in> set outs. emitted el s (log @ new) x))))"

lemma emitted_inputs [simp]: "emitted el (s\<lparr>sm_inputs := inputs\<rparr>) log x = emitted el s log x"
  by (cases x) simp_all

lemma simulates_inputs: "simulates lib el o0 c now (s\<lparr>sm_inputs := inputs\<rparr>) log res = simulates lib el o0 c now s log res"
  by (simp add: simulates_def)

lemma simulates_idle:
  assumes "mesh_reachable lib o0 (c, sm_mesh s, log)" and "c \<le> now" and "inputs_ok s'"
    and "s' = s\<lparr>sm_inputs := inputs\<rparr>" and "r = Inl err \<or> r = Inr []"
  shows "simulates lib el o0 c now s log (r, s')"
  using assms unfolding simulates_def by (auto intro!: exI[of _ c] exI[of _ "[]"])

lemma simulates_step:
  assumes "mesh_reachable lib o0 (c, sm_mesh s, log)" and "mesh_step lib (c, sm_mesh s, log) (c', m', log @ new)"
    and "c \<le> c'" and "c' \<le> now" and "inputs_ok s"
    and "\<And>outs x. r = Inr outs \<Longrightarrow> x \<in> set outs \<Longrightarrow> emitted el s new x"
  shows "simulates lib el o0 c now s log (r, s\<lparr>sm_mesh := m'\<rparr>)"
proof -
  have "emitted el s (log @ new) x" if "r = Inr outs" "x \<in> set outs" for outs x
    using emitted_cong[OF refl refl assms(6)[OF that], of "log @ new"] by simp
  then show ?thesis
    using reachable_step[OF assms(1,2)] assms(3-5)
    unfolding simulates_def by (auto simp: inputs_ok_def intro!: exI[of _ c'] exI[of _ new])
qed

lemma simulates_finish:
  assumes "mesh_reachable lib o0 (c, sm_mesh s, log)" and "c \<le> now" and "inputs_ok s"
    and "mesh_step lib (c, sm_mesh s, log) (now, snd res, log @ before @ returned (fst res))"
    and "\<And>acts p e. fst res = Inr acts \<Longrightarrow> Deliver p e \<in> set acts \<Longrightarrow> \<exists>v prio. ad = Some (v, prio) \<and> e = as_event v"
  shows "simulates lib el o0 c now s log (finish el s ad res)"
proof (cases res)
  case (Pair r m)
  show ?thesis
  proof (cases r)
    case (Inl err)
    then show ?thesis using assms Pair by (auto simp: finish_def intro!: simulates_step)
  next
    case (Inr acts)
    have "emitted el s (before @ map Out acts) x" if "encode_actions el s ad acts = Inr outs" "x \<in> set outs" for outs x
      using emitted_cong[OF refl refl encode_actions_emitted[OF that(1) _ that(2)], of "before @ map Out acts"] assms(5) Pair Inr
      by auto
    then have "simulates lib el o0 c now s log (encode_actions el s ad acts, s\<lparr>sm_mesh := m\<rparr>)"
      using assms Pair Inr by (intro simulates_step[where new = "before @ map Out acts" and c' = now]) auto
    then show ?thesis using Pair Inr by (simp add: finish_def)
  qed
qed

lemma receive_message_simulates:
  assumes "mesh_reachable lib o0 (c, sm_mesh s, log)" and "c \<le> now" and "inputs_ok s"
  shows "simulates lib el o0 c now s log (receive_message lib el p m peers now s)"
proof (cases m)
  case (Frame k e)
  have invalid: "mesh_step lib (c, sm_mesh s, log) (c, record_invalid_message p (sm_mesh s), log @ [])"
    using step_invalid by simp
  have dismiss: "mesh_step lib (c, sm_mesh s, log) (c, dismiss_frame p k (sm_mesh s), log @ [])"
    using step_dismiss by simp
  show ?thesis
  proof (cases "try_from_event lib e")
    case (Inl err)
    then show ?thesis using assms invalid Frame
      by (auto simp: receive_message_def intro!: simulates_step[where new = "[]"])
  next
    case (Inr v)
    then have v: "v = VerifiedEvent e" "verify lib e" by (auto simp: try_from_event_def split: if_splits)
    show ?thesis
    proof (cases "admission s v (es_fips_endpoint p)")
      case (Inl err)
      then show ?thesis using assms dismiss Frame Inr
        by (auto simp: receive_message_def intro!: simulates_step[where new = "[]"])
    next
      case adm: (Inr prio)
      show ?thesis
      proof (cases prio)
        case None
        then show ?thesis using assms dismiss Frame Inr adm
          by (auto simp: receive_message_def intro!: simulates_step[where new = "[]"])
      next
        case (Some n)
        let ?res = "receive_verified_frame lib p k v peers now (sm_mesh s)"
        have step: "mesh_step lib (c, sm_mesh s, log) (now, snd ?res, log @ [In p (Frame k (as_event v))] @ returned (fst ?res))"
          using step_receive_verified[OF assms(2), of lib v p k peers "sm_mesh s" "fst ?res" "snd ?res" log] v by simp
        have del: "\<exists>v' prio'. Some (v, n) = Some (v', prio') \<and> e' = as_event v'"
          if "fst ?res = Inr acts" "Deliver q e' \<in> set acts" for acts q e'
        proof -
          have "fst (receive_frame lib p k (as_event v) peers now False (prune now (sm_mesh s))) = Inr acts"
            using that(1) by (simp add: receive_verified_frame_def receive_inventory_fst)
          then have "e' = as_event v" using receive_frame_delivers that(2) by blast
          then show ?thesis by blast
        qed
        have "simulates lib el o0 c now s log (finish el s (Some (v, n)) ?res)"
          by (rule simulates_finish[OF assms step del])
        then show ?thesis using Frame Inr adm Some by (simp add: receive_message_def)
      qed
    qed
  qed
next
  case (Inventory k kind sz h)
  let ?res = "receive lib p m peers now (sm_mesh s)"
  have step: "mesh_step lib (c, sm_mesh s, log) (now, snd ?res, log @ [In p m] @ returned (fst ?res))"
    using step_receive[OF assms(2), of lib p m peers "sm_mesh s" "fst ?res" "snd ?res" log] by simp
  have del: "Deliver q e \<notin> set acts" if "fst ?res = Inr acts" for acts q e
    using receive_without_frame[of lib p m peers now "sm_mesh s" acts "snd ?res"] that Inventory by (metis prod.collapse wire_message.distinct(3))
  have "simulates lib el o0 c now s log (finish el s None ?res)"
    by (rule simulates_finish[OF assms step]) (use del in blast)
  then show ?thesis using Inventory by (simp add: receive_message_def)
next
  case (Want k)
  let ?res = "receive lib p m peers now (sm_mesh s)"
  have step: "mesh_step lib (c, sm_mesh s, log) (now, snd ?res, log @ [In p m] @ returned (fst ?res))"
    using step_receive[OF assms(2), of lib p m peers "sm_mesh s" "fst ?res" "snd ?res" log] by simp
  have del: "Deliver q e \<notin> set acts" if "fst ?res = Inr acts" for acts q e
    using receive_without_frame[of lib p m peers now "sm_mesh s" acts "snd ?res"] that Want by (metis prod.collapse wire_message.distinct(5))
  have "simulates lib el o0 c now s log (finish el s None ?res)"
    by (rule simulates_finish[OF assms step]) (use del in blast)
  then show ?thesis using Want by (simp add: receive_message_def)
qed

lemma receive_records_simulates:
  assumes "mesh_reachable lib o0 (c, sm_mesh s, log)" and "c \<le> now" and "inputs_ok s"
  shows "simulates lib el o0 c now s log (receive_records lib el p peers now records s)"
  using assms
proof (induction records arbitrary: c s log)
  case Nil
  then show ?case by (auto intro: simulates_idle[where inputs = "sm_inputs s"])
next
  case (Cons r records)
  show ?case
  proof (cases "iw_decode el (sm_codec s) r")
    case (Inl err)
    have "mesh_step lib (c, sm_mesh s, log) (c, record_invalid_message p (sm_mesh s), log @ [])"
      using step_invalid by simp
    then show ?thesis using Cons.prems Inl by (auto intro!: simulates_step[where new = "[]"])
  next
    case (Inr m)
    obtain r1 s1 where 1: "receive_message lib el p m peers now s = (r1, s1)" by (cases "receive_message lib el p m peers now s")
    have sim: "simulates lib el o0 c now s log (r1, s1)" using receive_message_simulates[OF Cons.prems] 1 by metis
    then obtain c1 new where s1: "sm_codec s1 = sm_codec s" "sm_options s1 = sm_options s" "inputs_ok s1" "c \<le> c1" "c1 \<le> now"
      "mesh_reachable lib o0 (c1, sm_mesh s1, log @ new)" "\<And>outs x. r1 = Inr outs \<Longrightarrow> x \<in> set outs \<Longrightarrow> emitted el s (log @ new) x"
      unfolding simulates_def by auto
    show ?thesis
    proof (cases r1)
      case (Inl err)
      then show ?thesis using sim Inr 1 by simp
    next
      case acts: (Inr acts)
      obtain r2 s2 where 2: "receive_records lib el p peers now records s1 = (r2, s2)"
        by (cases "receive_records lib el p peers now records s1")
      then have "simulates lib el o0 c1 now s1 (log @ new) (r2, s2)" using Cons.IH[OF s1(6,5,3)] by simp
      then obtain c2 new2 where s2: "sm_codec s2 = sm_codec s1" "sm_options s2 = sm_options s1" "inputs_ok s2" "c1 \<le> c2" "c2 \<le> now"
        "mesh_reachable lib o0 (c2, sm_mesh s2, log @ new @ new2)"
        "\<And>outs x. r2 = Inr outs \<Longrightarrow> x \<in> set outs \<Longrightarrow> emitted el s1 (log @ new @ new2) x"
        unfolding simulates_def by auto
      have a: "emitted el s (log @ new @ new2) x" if "x \<in> set acts" for x
        using emitted_cong[OF refl refl s1(7)[OF acts that], of "log @ new @ new2"] by auto
      have b: "emitted el s (log @ new @ new2) x" if "r2 = Inr outs" "x \<in> set outs" for outs x
        by (rule emitted_cong[OF s1(1,2)[symmetric] s2(7)[OF that] order_refl])
      have "receive_records lib el p peers now (r # records) s =
          (case r2 of Inl err \<Rightarrow> (Inl err, s2) | Inr output \<Rightarrow> (Inr (acts @ output), s2))"
        using Inr 1 2 acts by (simp split: sum.split)
      then show ?thesis
        using s1(1,2,4) s2(1-6) a b unfolding simulates_def
        by (cases r2) (auto intro!: exI[of _ c2] exI[of _ "new @ new2"])
    qed
  qed
qed

lemma receive_bytes_simulates:
  assumes "mesh_reachable lib o0 (c, sm_mesh s, log)" and "c \<le> now" and "inputs_ok s"
  shows "simulates lib el o0 c now s log (receive_bytes lib el p bytes connected now s)"
proof -
  have idle: "simulates lib el o0 c now s log (Inl err, s)" for err
    by (rule simulates_idle[OF assms, where inputs = "sm_inputs s"]) simp_all
  have gone: "simulates lib el o0 c now s log (Inr [], stream_disconnect_peer p s)"
  proof (rule simulates_idle[OF assms(1,2)])
    show "inputs_ok (stream_disconnect_peer p s)" using assms(3) by (rule inputs_ok_disconnect)
  qed (simp_all add: stream_disconnect_peer_def)
  obtain r s1 where d: "decode_records p bytes s = (r, s1)" by (cases "decode_records p bytes s")
  obtain inputs where s1: "inputs_ok s1" "s1 = s\<lparr>sm_inputs := inputs\<rparr>" using decode_records_ok[OF assms(3) d] by blast
  have failed: "simulates lib el o0 c now s log (Inl err, s1)" for err
    by (rule simulates_idle[OF assms(1,2) s1]) simp
  have "mesh_reachable lib o0 (c, sm_mesh s1, log)" using assms(1) s1(2) by simp
  from receive_records_simulates[OF this assms(2) s1(1), of el p]
  have received: "simulates lib el o0 c now s log (receive_records lib el p peers now records s1)" for peers records
    using s1(2) by (simp add: simulates_inputs)
  show ?thesis
    using idle gone failed received d by (auto simp: receive_bytes_def split: sum.split option.split)
qed

section \<open>Runs\<close>

datatype stream_op =
    SeedOp verified_event
  | PublishOp verified_event "string list"
  | ConnectedOp string
  | DisconnectOp string
  | BytesOp string bytes "string list"
  | MaintainOp
  | EventPolicyOp pubsub_policy
  | PeerPolicyOp peer_policy

fun stream_apply ::
  "nostr_lib \<Rightarrow> envelope_lib \<Rightarrow> u64 \<Rightarrow> stream_op \<Rightarrow> stream \<Rightarrow> ((pubsub_error + stream_action list) \<times> stream) option" where
  "stream_apply lib el now (SeedOp v) s =
     (case stream_seed lib el v now s of (r, s') \<Rightarrow> Some (map_sum (\<lambda>err. err) (\<lambda>_. []) r, s'))"
| "stream_apply lib el now (PublishOp v connected) s = Some (stream_publish lib el v connected now s)"
| "stream_apply lib el now (ConnectedOp p) s = peer_connected el p now s"
| "stream_apply lib el now (DisconnectOp p) s = Some (Inr [], stream_disconnect_peer p s)"
| "stream_apply lib el now (BytesOp p bytes connected) s = Some (receive_bytes lib el p bytes connected now s)"
| "stream_apply lib el now MaintainOp s = Some (Inr [], stream_maintain now s)"
| "stream_apply lib el now (EventPolicyOp policy) s = Some (Inr [], with_event_policy policy s)"
| "stream_apply lib el now (PeerPolicyOp policy) s = Some (Inr [], with_peer_policy policy s)"

fun stream_run ::
  "nostr_lib \<Rightarrow> envelope_lib \<Rightarrow> (u64 \<times> stream_op) list \<Rightarrow> stream \<Rightarrow> (stream_action list \<times> stream) option" where
  "stream_run lib el [] s = Some ([], s)"
| "stream_run lib el ((now, op) # ops) s =
     (case stream_apply lib el now op s of
        None \<Rightarrow> None
      | Some (r, s') \<Rightarrow>
          map_option (\<lambda>(outs, s''). ((case r of Inl _ \<Rightarrow> [] | Inr acts \<Rightarrow> acts) @ outs, s'')) (stream_run lib el ops s'))"

fun op_verified :: "nostr_lib \<Rightarrow> stream_op \<Rightarrow> bool" where
  "op_verified lib (SeedOp v) \<longleftrightarrow> verify lib (as_event v)"
| "op_verified lib (PublishOp v _) \<longleftrightarrow> verify lib (as_event v)"
| "op_verified lib _ \<longleftrightarrow> True"

lemma stream_seed_simulates:
  assumes "mesh_reachable lib o0 (c, sm_mesh s, log)" and "c \<le> now" and "inputs_ok s" and "verify lib (as_event v)"
    and "stream_apply lib el now (SeedOp v) s = Some res"
  shows "simulates lib el o0 c now s log res"
proof (cases "ensure_event_record_fits lib el s v")
  case None
  let ?r = "seed_verified lib v now (sm_mesh s)"
  have "mesh_step lib (c, sm_mesh s, log) (now, snd ?r, log @ [])"
    using step_seed[OF assms(2,4), of "sm_mesh s" "fst ?r" "snd ?r" log] by simp
  then have "simulates lib el o0 c now s log (map_sum (\<lambda>err. err) (\<lambda>_. []) (fst ?r), s\<lparr>sm_mesh := snd ?r\<rparr>)"
    using assms(1-3) by (intro simulates_step[where new = "[]" and c' = now]) (cases "fst ?r"; auto)+
  then show ?thesis using assms(5) None by (auto simp: stream_seed_def split_def)
next
  case (Some err)
  then show ?thesis using assms simulates_idle[OF assms(1-3), where inputs = "sm_inputs s"] by (auto simp: stream_seed_def)
qed

lemma stream_publish_simulates:
  assumes "mesh_reachable lib o0 (c, sm_mesh s, log)" and "c \<le> now" and "inputs_ok s" and "verify lib (as_event v)"
  shows "simulates lib el o0 c now s log (stream_publish lib el v connected now s)"
proof -
  have idle: "simulates lib el o0 c now s log (Inl err, s)" for err
    by (rule simulates_idle[OF assms(1-3), where inputs = "sm_inputs s"]) simp_all
  have "simulates lib el o0 c now s log (finish el s None (publish_verified lib v peers now (sm_mesh s)))" for peers
  proof (rule simulates_finish[OF assms(1-3), where before = "[]"])
    let ?r = "publish_verified lib v peers now (sm_mesh s)"
    show "mesh_step lib (c, sm_mesh s, log) (now, snd ?r, log @ [] @ returned (fst ?r))"
      using step_publish_verified[OF assms(2,4), of peers "sm_mesh s" "fst ?r" "snd ?r" log] by simp
    show "\<exists>v' prio. None = Some (v', prio) \<and> e = as_event v'"
      if "fst ?r = Inr acts" "Deliver p e \<in> set acts" for acts p e
      using that by (auto simp: publish_verified_def publish_validated_def send_to_selected_peers_def Let_def split_def
        split: sum.splits if_splits)
  qed
  then show ?thesis using idle by (auto simp: stream_publish_def split: option.split sum.split)
qed

lemma peer_connected_simulates:
  assumes "nostr_laws lib" and "usize_limits o0"
    and "mesh_reachable lib o0 (c, sm_mesh s, log)" and "c \<le> now" and "inputs_ok s"
  shows "\<exists>res. peer_connected el p now s = Some res \<and> simulates lib el o0 c now s log res"
proof (cases "\<exists>peer. select_peer s p = Inr (Some peer)")
  case True
  let ?m = "prune now (sm_mesh s)"
  obtain acts where acts: "collect_actions (map (cached_inventory ?m p) (cache_order ?m)) = Some acts"
    using replay_cached_returns[OF reachable_prune(1)[OF assms(1-4)]] by blast
  then have r: "replay_cached_to_peer p now (sm_mesh s) = (Some acts, ?m)" by (simp add: replay_cached_to_peer_def Let_def)
  have "simulates lib el o0 c now s log (finish el s None (Inr acts, ?m))"
  proof (rule simulates_finish[OF assms(3-5), where before = "[]"])
    show "mesh_step lib (c, sm_mesh s, log) (now, snd (Inr acts :: action list result, ?m), log @ [] @ returned (fst (Inr acts, ?m)))"
      using step_replay_cached[OF assms(4) r] by simp
    show "\<exists>v prio. None = Some (v, prio) \<and> e = as_event v"
      if t: "fst (Inr acts :: action list result, ?m) = Inr acts'" "Deliver q e \<in> set acts'" for acts' q e
    proof -
      have "Deliver q e \<in> set acts" using t by simp
      from collect_actions_set[OF acts this] show ?thesis by (auto simp: cached_inventory_def split: option.splits if_splits)
    qed
  qed
  moreover have "peer_connected el p now s = Some (finish el s None (Inr acts, ?m))"
    using True r by (auto simp: peer_connected_def)
  ultimately show ?thesis by blast
next
  case False
  then show ?thesis using simulates_idle[OF assms(3-5), where inputs = "sm_inputs s"]
    by (auto simp: peer_connected_def split: sum.split option.split)
qed

lemma stream_apply_simulates:
  assumes laws: "nostr_laws lib" "usize_limits o0"
    and st: "mesh_reachable lib o0 (c, sm_mesh s, log)" "c \<le> now" "inputs_ok s" and v: "op_verified lib op"
  shows "\<exists>res. stream_apply lib el now op s = Some res \<and> simulates lib el o0 c now s log res"
proof (cases op)
  case (SeedOp v)
  then show ?thesis using stream_seed_simulates[OF st, of v el] v by (auto simp: split_def)
next
  case (PublishOp v connected)
  then show ?thesis using stream_publish_simulates[OF st, of v el connected] v by simp
next
  case (ConnectedOp p)
  then show ?thesis using peer_connected_simulates[OF laws st] by simp
next
  case (DisconnectOp p)
  have "simulates lib el o0 c now s log (Inr [], stream_disconnect_peer p s)"
    by (rule simulates_idle[OF st(1,2) inputs_ok_disconnect[OF st(3)]]) (simp_all add: stream_disconnect_peer_def)
  then show ?thesis using DisconnectOp by simp
next
  case (BytesOp p bytes connected)
  then show ?thesis using receive_bytes_simulates[OF st] by simp
next
  case MaintainOp
  have "mesh_step lib (c, sm_mesh s, log) (now, maintain now (sm_mesh s), log @ [])" using step_maintain[OF st(2)] by simp
  then have "simulates lib el o0 c now s log (Inr [], s\<lparr>sm_mesh := maintain now (sm_mesh s)\<rparr>)"
    using st by (intro simulates_step[where new = "[]" and c' = now]) auto
  then show ?thesis using MaintainOp by (simp add: stream_maintain_def)
qed (use st in \<open>auto simp: simulates_def with_event_policy_def with_peer_policy_def inputs_ok_def
  intro!: exI[of _ c] exI[of _ "[]"]\<close>)

lemma stream_run_simulates:
  assumes laws: "nostr_laws lib" "usize_limits o0"
    and st: "mesh_reachable lib o0 (c, sm_mesh s, log)" "sorted (c # map fst ops)" "inputs_ok s"
    and v: "list_all (\<lambda>(_, op). op_verified lib op) ops"
  shows "\<exists>outs s' c' new. stream_run lib el ops s = Some (outs, s') \<and> mesh_reachable lib o0 (c', sm_mesh s', log @ new) \<and>
    inputs_ok s' \<and> sm_codec s' = sm_codec s \<and> sm_options s' = sm_options s \<and> (\<forall>x \<in> set outs. emitted el s (log @ new) x)"
  using st v
proof (induction ops arbitrary: c s log)
  case Nil
  then show ?case by (auto intro!: exI[of _ c] exI[of _ "[]"])
next
  case (Cons nop ops)
  obtain now op where nop: "nop = (now, op)" by force
  have ok: "c \<le> now" "op_verified lib op" using Cons.prems(2,4) nop by auto
  from stream_apply_simulates[OF laws Cons.prems(1) ok(1) Cons.prems(3) ok(2)]
  obtain r s1 where 1: "stream_apply lib el now op s = Some (r, s1)" "simulates lib el o0 c now s log (r, s1)" by fastforce
  then obtain c1 new where s1: "sm_codec s1 = sm_codec s" "sm_options s1 = sm_options s" "inputs_ok s1" "c1 \<le> now"
    "mesh_reachable lib o0 (c1, sm_mesh s1, log @ new)" "\<And>acts x. r = Inr acts \<Longrightarrow> x \<in> set acts \<Longrightarrow> emitted el s (log @ new) x"
    unfolding simulates_def by auto
  have "sorted (c1 # map fst ops)" using Cons.prems(2) s1(4) nop by (auto intro: order_trans)
  then obtain outs s' c' new' where ih: "stream_run lib el ops s1 = Some (outs, s')" "mesh_reachable lib o0 (c', sm_mesh s', log @ new @ new')"
    "inputs_ok s'" "sm_codec s' = sm_codec s1" "sm_options s' = sm_options s1" "\<And>x. x \<in> set outs \<Longrightarrow> emitted el s1 (log @ new @ new') x"
    using Cons.IH[OF s1(5) _ s1(3)] Cons.prems(4) nop by auto
  have "emitted el s (log @ new @ new') x" if x: "x \<in> set ((case r of Inl _ \<Rightarrow> [] | Inr acts \<Rightarrow> acts) @ outs)" for x
  proof (cases "x \<in> set outs")
    case True
    show ?thesis by (rule emitted_cong[OF s1(1,2)[symmetric] ih(6)[OF True] order_refl])
  next
    case False
    then obtain acts where acts: "r = Inr acts" "x \<in> set acts" using x by (auto split: sum.splits)
    show ?thesis by (rule emitted_cong[OF refl refl s1(6)[OF acts]]) auto
  qed
  then show ?case
    using nop 1(1) ih s1(1,2) by (intro exI[of _ "(case r of Inl _ \<Rightarrow> [] | Inr acts \<Rightarrow> acts) @ outs"] exI[of _ s'] exI[of _ c'] exI[of _ "new @ new'"]) simp
qed

lemma stream_new_ok: "stream_new opts = Inr s \<Longrightarrow> inputs_ok s \<and> sm_mesh s = mesh_new (so_mesh opts) \<and> sm_options s = opts"
  by (auto simp: stream_new_def inputs_ok_def split: option.splits)

lemma buffered_bound:
  assumes "inputs_ok s"
  shows "buffered_input_bytes s p \<le> so_max_record_bytes (sm_options s) + LENGTH_PREFIX_BYTES"
  using assms by (auto simp: buffered_input_bytes_def inputs_ok_def split: option.split dest!: map_of_SomeD)

text \<open>
  C3: the stream refines the mesh. Whatever bytes arrive in whatever fragments, whichever peers connect and whatever
  policies are installed, no operation panics, and the mesh inside is in a state its own transition system
  reaches, with a history in which every emitted record is the encoding of an action of the mesh, and every event handed to
  the application verifies, was requested from the peer named as its source and came from it. At most
  \<open>max_input_peers\<close> peers hold input, each at most one record.
\<close>

theorem stream_refines_mesh:
  assumes "nostr_laws lib" and "usize_limits (so_mesh opts)" and "stream_new opts = Inr s0"
    and "sorted (map fst ops)" and "list_all (\<lambda>(_, op). op_verified lib op) ops"
  shows "\<exists>outs s c log. stream_run lib el ops s0 = Some (outs, s) \<and> mesh_reachable lib (so_mesh opts) (c, sm_mesh s, log) \<and>
    length (sm_inputs s) \<le> so_max_input_peers opts \<and>
    buffered_input_bytes s p \<le> so_max_record_bytes opts + LENGTH_PREFIX_BYTES \<and>
    (\<forall>a \<in> set outs. case a of
       SSend p r \<Rightarrow> \<exists>m payload. Out (Send p m) \<in> set log \<and> iw_encode el (sm_codec s) m = Inr payload \<and>
         encode_record payload (so_max_record_bytes opts) = Inr r
     | SDeliver q \<Rightarrow> let e = as_event (qe_event q); k = to_hex lib (ev_id e) in verify lib e \<and>
         (\<exists>p. qe_source q = es_fips_endpoint p \<and> Out (Send p (Want k)) \<in> set log \<and> In p (Frame k e) \<in> set log))"
proof -
  note new = stream_new_ok[OF assms(3)]
  have "mesh_reachable lib (so_mesh opts) (0, sm_mesh s0, [])" using new by (auto simp: mesh_reachable_def mesh_start_def)
  moreover have "sorted (0 # map fst ops)" using assms(4) by simp
  ultimately obtain outs s c log where run: "stream_run lib el ops s0 = Some (outs, s)"
    "mesh_reachable lib (so_mesh opts) (c, sm_mesh s, log)" "inputs_ok s" "sm_codec s = sm_codec s0" "sm_options s = opts"
    "\<And>x. x \<in> set outs \<Longrightarrow> emitted el s0 log x"
    using stream_run_simulates[OF assms(1,2), of 0 s0 "[]" ops el] assms(5) new by auto
  have deliver: "let e = as_event (qe_event q); k = to_hex lib (ev_id e) in verify lib e \<and>
      (\<exists>p. qe_source q = es_fips_endpoint p \<and> Out (Send p (Want k)) \<in> set log \<and> In p (Frame k e) \<in> set log)"
    if q: "SDeliver q \<in> set outs" for q
  proof -
    obtain p where p: "Out (Deliver p (as_event (qe_event q))) \<in> set log" "qe_source q = es_fips_endpoint p"
      using run(6)[OF q] by auto
    then obtain i where "i < length log" "log ! i = Out (Deliver p (as_event (qe_event q)))" by (auto simp: in_set_conv_nth)
    then show ?thesis using reachable_log_sound[OF assms(1,2) run(2), of i] p(2)
      by (auto simp: Let_def dest: in_set_takeD)
  qed
  have "case a of
       SSend p r \<Rightarrow> \<exists>m payload. Out (Send p m) \<in> set log \<and> iw_encode el (sm_codec s) m = Inr payload \<and>
         encode_record payload (so_max_record_bytes opts) = Inr r
     | SDeliver q \<Rightarrow> let e = as_event (qe_event q); k = to_hex lib (ev_id e) in verify lib e \<and>
         (\<exists>p. qe_source q = es_fips_endpoint p \<and> Out (Send p (Want k)) \<in> set log \<and> In p (Frame k e) \<in> set log)"
    if "a \<in> set outs" for a
    using run(4,5) run(6)[OF that] deliver that new by (cases a) auto
  then show ?thesis
    using run(1-3,5) buffered_bound[OF run(3), of p] unfolding inputs_ok_def by blast
qed

section \<open>Admission\<close>

lemma finish_state [simp]: "snd (finish el s ad res) = s\<lparr>sm_mesh := snd res\<rparr>"
  by (simp add: finish_def split: prod.split sum.split)

lemma receive_message_state: "\<exists>m'. snd (receive_message lib el p m peers now s) = s\<lparr>sm_mesh := m'\<rparr>"
  by (auto simp: receive_message_def split: wire_message.split sum.split option.split)

lemma encode_actions_deliver:
  assumes "encode_actions el s ad acts = Inr outs" and "SDeliver q \<in> set outs"
  shows "\<exists>p e v prio. Deliver p e \<in> set acts \<and> ad = Some (v, prio) \<and>
    q = \<lparr>qe_event = v, qe_source = es_fips_endpoint p, qe_priority = prio\<rparr>"
  using assms
proof (induction acts arbitrary: outs)
  case (Cons a acts)
  then obtain y ys where y: "encode_action el s ad a = Inr y" "encode_actions el s ad acts = Inr ys" "outs = y # ys"
    by (cases "encode_action el s ad a"; cases "encode_actions el s ad acts") auto
  show ?case
  proof (cases "SDeliver q \<in> set ys")
    case True
    then show ?thesis using Cons.IH[OF y(2)] by (meson list.set_intros(2))
  next
    case False
    then have "encode_action el s ad a = Inr (SDeliver q)" using Cons.prems(2) y by auto
    then show ?thesis by (cases "(el, s, ad, a)" rule: encode_action.cases) (auto split: sum.splits)
  qed
qed simp

lemma receive_message_admits:
  assumes "fst (receive_message lib el p m peers now s) = Inr outs" and "SDeliver q \<in> set outs"
  shows "qe_source q = es_fips_endpoint p \<and> admission s (qe_event q) (es_fips_endpoint p) = Inr (Some (qe_priority q))"
proof (cases "\<exists>k e. m = Frame k e")
  case True
  then obtain k e where m: "m = Frame k e" by blast
  obtain v prio where v: "admission s v (es_fips_endpoint p) = Inr (Some prio)"
    "fst (finish el s (Some (v, prio)) (receive_verified_frame lib p k v peers now (sm_mesh s))) = Inr outs"
    using assms m by (auto simp: receive_message_def split: sum.splits option.splits)
  then obtain acts where acts: "fst (receive_verified_frame lib p k v peers now (sm_mesh s)) = Inr acts"
    "encode_actions el s (Some (v, prio)) acts = Inr outs"
    by (auto simp: finish_def split: prod.splits sum.splits)
  obtain p' e' where d: "Deliver p' e' \<in> set acts" "q = \<lparr>qe_event = v, qe_source = es_fips_endpoint p', qe_priority = prio\<rparr>"
    using encode_actions_deliver[OF acts(2) assms(2)] by blast
  have "p' = p"
    using receive_frame_delivers[of lib p k "as_event v" peers now False "prune now (sm_mesh s)" acts p' e'] acts(1) d(1)
    by (simp add: receive_verified_frame_def receive_inventory_fst)
  then show ?thesis using d(2) v(1) by simp
next
  case False
  then have "receive_message lib el p m peers now s = finish el s None (receive lib p m peers now (sm_mesh s))"
    by (cases m) (auto simp: receive_message_def)
  then obtain acts where "encode_actions el s None acts = Inr outs"
    using assms(1) by (auto simp: finish_def split: prod.splits sum.splits)
  from encode_actions_deliver[OF this assms(2)] show ?thesis by simp
qed

lemma receive_records_admits:
  assumes "fst (receive_records lib el p peers now records s) = Inr outs" and "SDeliver q \<in> set outs"
  shows "qe_source q = es_fips_endpoint p \<and> admission s (qe_event q) (es_fips_endpoint p) = Inr (Some (qe_priority q))"
  using assms
proof (induction records arbitrary: s outs)
  case (Cons r records)
  then obtain m where m: "iw_decode el (sm_codec s) r = Inr m" by (cases "iw_decode el (sm_codec s) r") auto
  obtain r1 s1 where 1: "receive_message lib el p m peers now s = (r1, s1)" by (cases "receive_message lib el p m peers now s")
  obtain r2 s2 where 2: "receive_records lib el p peers now records s1 = (r2, s2)"
    by (cases "receive_records lib el p peers now records s1")
  obtain acts outs2 where r: "r1 = Inr acts" "r2 = Inr outs2" "outs = acts @ outs2"
    using Cons.prems(1) m 1 2 by (cases r1; cases r2) auto
  have "admission s1 = admission s"
    using receive_message_state[of lib el p m peers now s] 1 by (auto simp: admission_def fun_eq_iff)
  then show ?case
    using Cons.prems(2) r Cons.IH[of s1 outs2] receive_message_admits[of lib el p m peers now s acts q] 1 2 by auto
qed simp

text \<open>
  C33: the stream hands to the application only what its policies admit. An event delivered while bytes of a peer
  are processed names that peer as its source; the peer is selected by the peer policy and the event policy allows or
  throttles exactly this event from this source, at the priority it is delivered with.
\<close>

theorem stream_admission:
  assumes "fst (receive_bytes lib el p bytes connected now s) = Inr outs" and "SDeliver q \<in> set outs"
  shows "qe_source q = es_fips_endpoint p \<and> (\<exists>peer. select_peer s p = Inr (Some peer)) \<and>
    (case sm_event_policy s of
       None \<Rightarrow> qe_priority q = SOURCE_PRIORITY_FIPS_ENDPOINT
     | Some policy \<Rightarrow> check_event policy (qe_event q) (qe_source q) = Inr (Allow (qe_priority q)) \<or>
         (\<exists>reason. check_event policy (qe_event q) (qe_source q) = Inr (Throttle (qe_priority q) reason)))"
proof -
  obtain peer where peer: "select_peer s p = Inr (Some peer)"
    using assms by (auto simp: receive_bytes_def split: sum.splits option.splits)
  obtain r s1 where d: "decode_records p bytes s = (r, s1)" by (cases "decode_records p bytes s")
  obtain records peers where rec: "fst (receive_records lib el p peers now records s1) = Inr outs"
    using assms(1) peer d by (auto simp: receive_bytes_def split: sum.splits)
  have "sm_event_policy s1 = sm_event_policy s"
    using d by (auto simp: decode_records_def Let_def split: if_splits prod.splits)
  then have "admission s1 = admission s" by (simp add: admission_def fun_eq_iff)
  then have "qe_source q = es_fips_endpoint p" "admission s (qe_event q) (qe_source q) = Inr (Some (qe_priority q))"
    using receive_records_admits[OF rec assms(2)] by simp_all
  then show ?thesis using peer
    by (auto simp: admission_def es_fips_endpoint_def split: option.splits sum.splits policy_decision.splits)
qed

end
