(* ===== verification/Stream_Demo.thy ===== *)
theory Stream_Demo
  imports Stream_Mesh Mesh_Demo
begin

text \<open>
  A stream with the default options at node \<open>B\<close> of \<open>Mesh_Demo\<close>: an announcement arrives from \<open>A\<close> and is answered, then the
  event arrives. If a malformed record follows in the same fragment, the delivery is lost.
\<close>

section \<open>The run\<close>

definition demo_env :: envelope_lib where
  "demo_env = \<lparr>env_encode = (\<lambda>protocol version m. Some (case m of Inventory _ _ _ _ \<Rightarrow> [1] | Want _ \<Rightarrow> [2] | Frame _ _ \<Rightarrow> [3])),
     env_decode = (\<lambda>b. if b = [1] then Some (''nostr.pubsub'', 1, demo_inv)
                      else if b = [3] then Some (''nostr.pubsub'', 1, Frame demo_k demo_e) else None)\<rparr>"

definition demo_policy_event :: query_event where
  "demo_policy_event = \<lparr>qe_event = VerifiedEvent demo_e, qe_source = es_fips_endpoint ''A'', qe_priority = SOURCE_PRIORITY_FIPS_ENDPOINT\<rparr>"

abbreviation demo_max :: nat where "demo_max \<equiv> 1052672"

definition demo_stream :: "mesh \<Rightarrow> (string, record_decoder) hmap \<Rightarrow> stream" where
  "demo_stream m inputs = \<lparr>sm_mesh = m, sm_codec = \<lparr>iw_protocol = ''nostr.pubsub'', iw_version = 1, iw_max_wire_bytes = demo_max\<rparr>,
     sm_options = stream_options_default, sm_event_policy = None, sm_peer_policy = None, sm_inputs = inputs\<rparr>"

lemma demo_stream_new: "stream_new stream_options_default = Inr (demo_stream demo_s0 [])"
  by (simp add: stream_new_def stream_options_validate_def stream_options_default_def demo_stream_def demo_s0_def iw_new_def
    DEFAULT_INV_WANT_MAX_WIRE_BYTES_def FIPS_NOSTR_PUBSUB_INV_WANT_PROTOCOL_def FIPS_NOSTR_PUBSUB_INV_WANT_VERSION_def
    is_whitespace_def)

lemma take_records_next:
  assumes "length p \<le> m" and "length p < 2 ^ 32"
  shows "take_records m (Suc n) (record_bytes p @ b) =
    (case take_records m n b of Inl err \<Rightarrow> Inl err | Inr (rs, rest) \<Rightarrow> Inr (p # rs, rest))"
  using prefix_of_record[of "record_bytes p @ b" "[]" p b] assms
  by (cases "take_records m n b") (auto simp: Let_def)

lemma take_records_Nil: "take_records m n [] = Inr ([], [])"
  by (cases n) (simp_all add: LENGTH_PREFIX_BYTES_def)

lemma push_records:
  assumes "length a \<le> 1" "length b \<le> 1"
  shows "rd_push (record_bytes a) 64 (rd_new demo_max) = (Inr [a], rd_new demo_max)"
    and "rd_push (record_bytes a @ record_bytes b) 64 (rd_new demo_max) = (Inr [a, b], rd_new demo_max)"
proof -
  have one: "take_records demo_max (Suc n) (record_bytes a) = Inr ([a], [])" for n
    using take_records_next[of a demo_max n "[]"] assms by (simp add: take_records_Nil)
  have two: "take_records demo_max (Suc (Suc n)) (record_bytes a @ record_bytes b) = Inr ([a, b], [])" for n
    using take_records_next[of a demo_max "Suc n" "record_bytes b"] take_records_next[of b demo_max n "[]"] assms
    by (simp add: take_records_Nil)
  show "rd_push (record_bytes a) 64 (rd_new demo_max) = (Inr [a], rd_new demo_max)"
    using assms one[of 63] by (simp add: rd_push_def rd_new_def LENGTH_PREFIX_BYTES_def)
  show "rd_push (record_bytes a @ record_bytes b) 64 (rd_new demo_max) = (Inr [a, b], rd_new demo_max)"
    using assms two[of 62] by (simp add: rd_push_def rd_new_def LENGTH_PREFIX_BYTES_def)
qed

lemma demo_decode:
  assumes "inputs = [] \<or> inputs = [(''A'', rd_new demo_max)]" and "rd_push bytes 64 (rd_new demo_max) = (Inr rs, rd_new demo_max)"
  shows "decode_records ''A'' bytes (demo_stream m inputs) = (Inr rs, demo_stream m [(''A'', rd_new demo_max)])"
  using assms by (auto simp: decode_records_def demo_stream_def stream_options_default_def DEFAULT_INV_WANT_MAX_WIRE_BYTES_def)

lemma demo_receive_bytes:
  assumes "inputs = [] \<or> inputs = [(''A'', rd_new demo_max)]" and "rd_push bytes 64 (rd_new demo_max) = (Inr rs, rd_new demo_max)"
  shows "receive_bytes demo_lib demo_env ''A'' bytes [] now (demo_stream m inputs) =
    receive_records demo_lib demo_env ''A'' [] now rs (demo_stream m [(''A'', rd_new demo_max)])"
proof -
  have "select_peer (demo_stream m inputs) ''A'' = Inr (Some (mesh_peer_new ''A''))"
    by (simp add: demo_stream_def select_peer_def mesh_peer_new_def)
  then show ?thesis by (simp add: receive_bytes_def demo_decode[OF assms] select_peers_def)
qed

section \<open>The messages\<close>

definition demo_b4 :: mesh where
  "demo_b4 = snd (receive_verified_frame demo_lib ''A'' demo_k (VerifiedEvent demo_e) [] 8 demo_b1)"

lemma demo_b4_step:
  "fst (receive_verified_frame demo_lib ''A'' demo_k (VerifiedEvent demo_e) [] 8 demo_b1) = Inr [Deliver ''A'' demo_e]"
  "hm_get (upstream_routes demo_b4) demo_k = Some \<lparr>ur_peer_id = ''A'', ur_alternate_peers = [],
       ur_transport_disrupted_peers = [], ur_event_kind = 1, ur_payload_bytes = 100, ur_hop_limit = 16,
       ur_expires_at_ms = 120006, ur_fulfilled = True\<rparr>"
  "hm_get (want_forwarded demo_b4) demo_k = Some 120006" "options demo_b4 = default_options" "next_prune_at_ms demo_b4 = Some 120006"
proof -
  have key: "to_hex demo_lib (ev_id demo_e) = demo_k" by (simp add: demo_k_def)
  have room: "make_room 100 s = s" if "cached_events s = []" "cached_event_bytes s = 0" "options s = default_options" for s
    using that by (subst make_room.simps) (simp add: sat_add_def)
  have sel: "select_mesh_peers [] (Some ''A'') 8 1 = []" by code_simp
  have val: "validate_verified_event demo_lib opts demo_e = Inr (demo_k, 100)"
    if "max_event_bytes opts = 1048576" "allowed_kinds opts = None" for opts
    using demo_validate[OF that] by (simp add: validate_event_Inr)
  note eval = demo_b1_step(2) demo_s0_def receive_verified_frame_def prune_def mesh_new_def
        receive_frame_def route_provider_def val accept_frame_def record_peer_behavior_def
        store_event_def key room track_expiry_def remember_delivered_def remove_pending_event_def
        send_to_selected_peers_def peers_with_behavior_def sel[unfolded One_nat_def] charge_error_def Let_def demo_sum
  show "fst (receive_verified_frame demo_lib ''A'' demo_k (VerifiedEvent demo_e) [] 8 demo_b1) = Inr [Deliver ''A'' demo_e]"
    by (simp add: eval)
  show "hm_get (upstream_routes demo_b4) demo_k = Some \<lparr>ur_peer_id = ''A'', ur_alternate_peers = [],
       ur_transport_disrupted_peers = [], ur_event_kind = 1, ur_payload_bytes = 100, ur_hop_limit = 16,
       ur_expires_at_ms = 120006, ur_fulfilled = True\<rparr>"
    "hm_get (want_forwarded demo_b4) demo_k = Some 120006" "options demo_b4 = default_options" "next_prune_at_ms demo_b4 = Some 120006"
    unfolding demo_b4_def by (simp_all add: eval)
qed

lemma demo_again:
  assumes "upstream_routes m = upstream_routes demo_b4" "want_forwarded m = want_forwarded demo_b4" "options m = default_options"
    "next_prune_at_ms m = Some 120006"
  shows "receive_verified_frame demo_lib ''A'' demo_k (VerifiedEvent demo_e) [] 9 m = (Inr [], m)"
proof -
  have "validate_verified_event demo_lib default_options demo_e = Inr (demo_k, 100)"
    using demo_validate[of default_options] by (simp add: validate_event_Inr)
  then show ?thesis using assms demo_b4_step
    by (simp add: receive_verified_frame_def prune_def receive_frame_def route_provider_def charge_error_def)
qed

abbreviation demo_inputs :: "(string, record_decoder) hmap" where "demo_inputs \<equiv> [(''A'', rd_new demo_max)]"

lemma demo_decoded:
  "iw_decode demo_env (sm_codec (demo_stream m inputs)) [1] = Inr demo_inv"
  "iw_decode demo_env (sm_codec (demo_stream m inputs)) [3] = Inr (Frame demo_k demo_e)"
  "iw_decode demo_env (sm_codec (demo_stream m inputs)) [9] = Inl (Validation ''invalid inv/want JSON'')"
  by (simp_all add: iw_decode_def demo_env_def demo_stream_def check_wire_len_def)

lemma demo_message_inv:
  "receive_message demo_lib demo_env ''A'' demo_inv [] 6 (demo_stream demo_s0 inputs) =
     (Inr [SSend ''A'' (record_bytes [2])], demo_stream demo_b1 inputs)"
proof -
  have "receive_message demo_lib demo_env ''A'' demo_inv [] 6 (demo_stream demo_s0 inputs) =
      finish demo_env (demo_stream demo_s0 inputs) None (receive demo_lib ''A'' demo_inv [] 6 demo_s0)"
    by (simp add: receive_message_def demo_stream_def demo_inv_def)
  then show ?thesis
    by (simp add: demo_b1_step(1) finish_def demo_stream_def iw_encode_def demo_env_def check_wire_len_def encode_record_def
      record_bytes_def stream_options_default_def DEFAULT_INV_WANT_MAX_WIRE_BYTES_def)
qed

lemma demo_message_frame:
  "receive_message demo_lib demo_env ''A'' (Frame demo_k demo_e) [] now (demo_stream m inputs) =
     finish demo_env (demo_stream m inputs) (Some (VerifiedEvent demo_e, SOURCE_PRIORITY_FIPS_ENDPOINT))
       (receive_verified_frame demo_lib ''A'' demo_k (VerifiedEvent demo_e) [] now m)"
  by (simp add: receive_message_def demo_stream_def try_from_event_def demo_verify admission_def es_fips_endpoint_def)

lemma demo_message_frame_8:
  "receive_message demo_lib demo_env ''A'' (Frame demo_k demo_e) [] 8 (demo_stream demo_b1 inputs) =
     (Inr [SDeliver demo_policy_event], demo_stream demo_b4 inputs)"
proof -
  have "receive_verified_frame demo_lib ''A'' demo_k (VerifiedEvent demo_e) [] 8 demo_b1 = (Inr [Deliver ''A'' demo_e], demo_b4)"
    using demo_b4_step(1) by (simp add: demo_b4_def prod_eq_iff)
  then show ?thesis unfolding demo_message_frame by (simp add: finish_def demo_policy_event_def demo_stream_def)
qed

lemma demo_bytes_inv:
  "receive_bytes demo_lib demo_env ''A'' (record_bytes [1]) [] 6 (demo_stream demo_s0 []) =
     (Inr [SSend ''A'' (record_bytes [2])], demo_stream demo_b1 demo_inputs)"
  using demo_receive_bytes[of "[]" "record_bytes [1]" "[[1]]" 6 demo_s0] push_records(1)[of "[1]" "[]"]
  by (simp add: demo_decoded demo_message_inv)

lemma demo_bytes_frame:
  "receive_bytes demo_lib demo_env ''A'' (record_bytes [3]) [] 8 (demo_stream demo_b1 demo_inputs) =
     (Inr [SDeliver demo_policy_event], demo_stream demo_b4 demo_inputs)"
  using demo_receive_bytes[of demo_inputs "record_bytes [3]" "[[3]]" 8 demo_b1] push_records(1)[of "[3]" "[]"]
  by (simp add: demo_decoded demo_message_frame_8)

text \<open>
  An event is lost when an undecodable record follows its frame in the same fragment: the call returns only the error,
  the mesh has recorded the event as received, and sending the frame again delivers nothing.
\<close>

lemma error_discards_delivery:
  "fst (receive_bytes demo_lib demo_env ''A'' (record_bytes [3]) [] 8 (demo_stream demo_b1 demo_inputs)) = Inr [SDeliver demo_policy_event] \<and>
   (\<exists>s. receive_bytes demo_lib demo_env ''A'' (record_bytes [3] @ record_bytes [9]) [] 8 (demo_stream demo_b1 demo_inputs) =
        (Inl (Validation ''invalid inv/want JSON''), s) \<and>
      fst (receive_bytes demo_lib demo_env ''A'' (record_bytes [3]) [] 9 s) = Inr [])"
proof -
  let ?m = "record_invalid_message ''A'' demo_b4"
  have s: "receive_bytes demo_lib demo_env ''A'' (record_bytes [3] @ record_bytes [9]) [] 8 (demo_stream demo_b1 demo_inputs) =
      (Inl (Validation ''invalid inv/want JSON''), demo_stream ?m demo_inputs)"
    using demo_receive_bytes[of demo_inputs "record_bytes [3] @ record_bytes [9]" "[[3], [9]]" 8 demo_b1] push_records(2)[of "[3]" "[9]"]
    by (simp add: demo_decoded demo_message_frame_8) (simp add: demo_stream_def)
  have "receive_verified_frame demo_lib ''A'' demo_k (VerifiedEvent demo_e) [] 9 ?m = (Inr [], ?m)"
    by (rule demo_again) (simp_all add: demo_b4_step)
  then have "fst (receive_bytes demo_lib demo_env ''A'' (record_bytes [3]) [] 9 (demo_stream ?m demo_inputs)) = Inr []"
    using demo_receive_bytes[of demo_inputs "record_bytes [3]" "[[3]]" 9 ?m] push_records(1)[of "[3]" "[]"]
    by (simp add: demo_decoded demo_message_frame finish_def)
  with s demo_bytes_frame show ?thesis by simp
qed

section \<open>Instances\<close>

theorem stream_refines_mesh_witness:
  "\<exists>outs s c log. stream_run demo_lib demo_env [(6, BytesOp ''A'' (record_bytes [1]) []), (8, BytesOp ''A'' (record_bytes [3]) [])]
      (demo_stream demo_s0 []) = Some (outs, s) \<and> SDeliver demo_policy_event \<in> set outs \<and>
    mesh_reachable demo_lib default_options (c, sm_mesh s, log) \<and> In ''A'' (Frame demo_k demo_e) \<in> set log"
proof -
  have run: "stream_run demo_lib demo_env [(6, BytesOp ''A'' (record_bytes [1]) []), (8, BytesOp ''A'' (record_bytes [3]) [])]
      (demo_stream demo_s0 []) = Some ([SSend ''A'' (record_bytes [2]), SDeliver demo_policy_event], demo_stream demo_b4 demo_inputs)"
    by (simp add: demo_bytes_inv demo_bytes_frame)
  have mesh: "so_mesh stream_options_default = default_options" by (simp add: stream_options_default_def)
  from stream_refines_mesh[of demo_lib stream_options_default, unfolded mesh, OF demo_hyps demo_stream_new,
      of "[(6, BytesOp ''A'' (record_bytes [1]) []), (8, BytesOp ''A'' (record_bytes [3]) [])]" demo_env "''A''"]
  obtain c log where "mesh_reachable demo_lib default_options (c, demo_b4, log)" "In ''A'' (Frame demo_k demo_e) \<in> set log"
    unfolding run by (auto simp: Let_def demo_policy_event_def es_fips_endpoint_def demo_stream_def demo_k_def)
  then show ?thesis using run by (auto simp: demo_stream_def)
qed

theorem stream_admission_witness:
  "qe_source demo_policy_event = es_fips_endpoint ''A'' \<and> qe_priority demo_policy_event = SOURCE_PRIORITY_FIPS_ENDPOINT"
  using stream_admission[of demo_lib demo_env "''A''" "record_bytes [3]" "[]" 8 "demo_stream demo_b1 demo_inputs"
      "[SDeliver demo_policy_event]" demo_policy_event] demo_bytes_frame
  by (simp add: demo_stream_def)

end
