(* ===== verification/Local_Delivery.thy ===== *)
theory Local_Delivery
  imports Live_Routes
begin

text \<open>
  Delivery to one local subscriber, \<open>crates/nostr-pubsub-fips/src/local_delivery.rs\<close>: a bounded channel, a bounded queue of
  bodies waiting for room in it, and a window of delivered identifiers. The channel of \<open>tokio::sync::mpsc\<close> is its queue,
  its capacity and whether the receiver exists. All calls run under one lock and are single steps.
\<close>

section \<open>The channel\<close>

record channel =
  ch_queue :: "query_event list"
  ch_capacity :: nat
  ch_open :: bool

datatype send_result = Sent channel | Full | SendClosed

definition try_send :: "query_event \<Rightarrow> channel \<Rightarrow> send_result" where
  "try_send q ch =
     (if \<not> ch_open ch then SendClosed
      else if length (ch_queue ch) \<ge> ch_capacity ch then Full
      else Sent (ch\<lparr>ch_queue := ch_queue ch @ [q]\<rparr>))"

section \<open>Operations\<close>

definition FIPS_NOSTR_PUBSUB_MAX_SEEN_EVENT_IDS :: nat where
  "FIPS_NOSTR_PUBSUB_MAX_SEEN_EVENT_IDS = 4096"

record delivery =
  dl_sender :: bool
  dl_pending :: "query_event list"
  dl_pending_ids :: "string set"
  dl_delivered_ids :: "string set"
  dl_delivered_order :: "string list"
  dl_maximum_pending :: nat
  dl_status :: delivery_status

definition delivery_new :: "nat \<Rightarrow> delivery" where
  "delivery_new maximum_pending =
     \<lparr>dl_sender = True, dl_pending = [], dl_pending_ids = {}, dl_delivered_ids = {}, dl_delivered_order = [],
      dl_maximum_pending = maximum_pending, dl_status = Active\<rparr>"

abbreviation event_key :: "nostr_lib \<Rightarrow> query_event \<Rightarrow> string" where
  "event_key lib q \<equiv> to_hex lib (ev_id (as_event (qe_event q)))"

fun trim_delivered :: "string list \<Rightarrow> string set \<Rightarrow> string list \<times> string set" where
  "trim_delivered [] ids = ([], ids)"
| "trim_delivered (removed # order) ids =
     (if length (removed # order) > FIPS_NOSTR_PUBSUB_MAX_SEEN_EVENT_IDS
      then trim_delivered order (ids - {removed}) else (removed # order, ids))"

definition mark_delivered :: "string \<Rightarrow> delivery \<Rightarrow> delivery" where
  "mark_delivered i d =
     (case trim_delivered (dl_delivered_order d @ [i]) (insert i (dl_delivered_ids d)) of
        (order, ids) \<Rightarrow> d\<lparr>dl_delivered_order := order, dl_delivered_ids := ids\<rparr>)"

definition dl_close :: "delivery \<Rightarrow> delivery" where
  "dl_close d =
     (let d1 = (if dl_status d = Active then d\<lparr>dl_status := Closed\<rparr> else d)
      in if dl_pending d1 = [] then d1\<lparr>dl_sender := False\<rparr> else d1)"

text \<open>The loop of \<open>refill\<close>, over the pending bodies.\<close>

fun refill_pending :: "nostr_lib \<Rightarrow> query_event list \<Rightarrow> delivery \<Rightarrow> channel \<Rightarrow> delivery \<times> channel" where
  "refill_pending lib [] d ch = (d\<lparr>dl_pending := []\<rparr>, ch)"
| "refill_pending lib (q # pending) d ch =
     (if \<not> dl_sender d then (d\<lparr>dl_pending := q # pending\<rparr>, ch)
      else case try_send q ch of
             Sent ch' \<Rightarrow>
               refill_pending lib pending
                 (mark_delivered (event_key lib q) (d\<lparr>dl_pending := pending, dl_pending_ids := dl_pending_ids d - {event_key lib q}\<rparr>)) ch'
           | Full \<Rightarrow> (d\<lparr>dl_pending := q # pending\<rparr>, ch)
           | SendClosed \<Rightarrow> (dl_close (d\<lparr>dl_pending := [], dl_pending_ids := {}\<rparr>), ch))"

definition refill :: "nostr_lib \<Rightarrow> delivery \<Rightarrow> channel \<Rightarrow> delivery \<times> channel" where
  "refill lib d ch =
     (case refill_pending lib (dl_pending d) d ch of
        (d1, ch1) \<Rightarrow>
          (if dl_status d1 \<noteq> Active \<and> dl_pending d1 = [] then d1\<lparr>dl_sender := False\<rparr> else d1, ch1))"

definition delivery_contains :: "string \<Rightarrow> delivery \<Rightarrow> bool" where
  "delivery_contains i d \<longleftrightarrow> i \<in> dl_delivered_ids d \<or> i \<in> dl_pending_ids d"

definition enqueue :: "nostr_lib \<Rightarrow> query_event \<Rightarrow> delivery \<Rightarrow> channel \<Rightarrow> bool \<times> delivery \<times> channel" where
  "enqueue lib q d ch =
     (if dl_status d \<noteq> Active then (False, d, ch)
      else if delivery_contains (event_key lib q) d then (False, d, ch)
      else case refill lib d ch of
             (d1, ch1) \<Rightarrow>
               if \<not> dl_sender d1 then (False, d1, ch1)
               else case try_send q ch1 of
                      Sent ch2 \<Rightarrow> (True, mark_delivered (event_key lib q) d1, ch2)
                    | Full \<Rightarrow>
                        if length (dl_pending d1) = dl_maximum_pending d1
                        then (False, d1\<lparr>dl_status := Lagged\<rparr>, ch1)
                        else (True, d1\<lparr>dl_pending := dl_pending d1 @ [q],
                                      dl_pending_ids := insert (event_key lib q) (dl_pending_ids d1)\<rparr>, ch1)
                    | SendClosed \<Rightarrow> (False, dl_close d1, ch1))"

section \<open>Runs\<close>

text \<open>The subscriber takes events from the channel and may drop its receiver.\<close>

datatype delivery_op = Enqueue query_event | Refill | CloseDelivery | Take | DropReceiver

record delivery_run =
  run_delivery :: delivery
  run_channel :: channel
  run_accepted :: "query_event list"
  run_received :: "query_event list"

fun delivery_step :: "nostr_lib \<Rightarrow> delivery_op \<Rightarrow> delivery_run \<Rightarrow> delivery_run" where
  "delivery_step lib (Enqueue q) r =
     (case enqueue lib q (run_delivery r) (run_channel r) of
        (accepted, d, ch) \<Rightarrow>
          r\<lparr>run_delivery := d, run_channel := ch, run_accepted := run_accepted r @ (if accepted then [q] else [])\<rparr>)"
| "delivery_step lib Refill r =
     (case refill lib (run_delivery r) (run_channel r) of (d, ch) \<Rightarrow> r\<lparr>run_delivery := d, run_channel := ch\<rparr>)"
| "delivery_step lib CloseDelivery r = r\<lparr>run_delivery := dl_close (run_delivery r)\<rparr>"
| "delivery_step lib Take r =
     (case ch_queue (run_channel r) of
        [] \<Rightarrow> r
      | q # queue \<Rightarrow> r\<lparr>run_channel := (run_channel r)\<lparr>ch_queue := queue\<rparr>, run_received := run_received r @ [q]\<rparr>)"
| "delivery_step lib DropReceiver r = r\<lparr>run_channel := (run_channel r)\<lparr>ch_open := False\<rparr>\<rparr>"

definition delivery_start :: "nat \<Rightarrow> nat \<Rightarrow> delivery_run" where
  "delivery_start capacity maximum_pending =
     \<lparr>run_delivery = delivery_new maximum_pending,
      run_channel = \<lparr>ch_queue = [], ch_capacity = capacity, ch_open = True\<rparr>, run_accepted = [], run_received = []\<rparr>"

section \<open>Order and loss\<close>

abbreviation max_seen :: nat where "max_seen \<equiv> FIPS_NOSTR_PUBSUB_MAX_SEEN_EVENT_IDS"

definition last_seen :: "'a list \<Rightarrow> 'a list" where
  "last_seen xs = drop (length xs - max_seen) xs"

lemma last_seen_snoc: "last_seen (last_seen xs @ [x]) = last_seen (xs @ [x])"
  by (cases "length xs < max_seen") (auto simp: last_seen_def drop_Cons' Suc_diff_le not_less)

lemma set_last_seen: "set (last_seen xs) \<subseteq> set xs"
  unfolding last_seen_def by (rule set_drop_subset)

lemma distinct_last_seen: "distinct xs \<Longrightarrow> distinct (last_seen xs)"
  unfolding last_seen_def by (rule distinct_drop)

lemma last_seen_append: "set (last_seen (xs @ ys)) \<subseteq> set (last_seen xs) \<union> set ys"
proof -
  have "length xs - max_seen \<le> length (xs @ ys) - max_seen" by simp
  from set_drop_subset_set_drop[OF this, of xs] show ?thesis
    using set_drop_subset[of "length (xs @ ys) - max_seen - length xs" ys] unfolding last_seen_def drop_append set_append by blast
qed

lemma last_seen_Nil [simp]: "last_seen [] = []"
  by (simp add: last_seen_def)

lemma trim_delivered_eq: "distinct order \<Longrightarrow> trim_delivered order (set order) = (last_seen order, set (last_seen order))"
proof (induction order)
  case (Cons x xs)
  show ?case
  proof (cases "length (x # xs) > max_seen")
    case True
    then have "Suc (length xs) - max_seen = Suc (length xs - max_seen)" by simp
    then show ?thesis using True Cons by (simp add: insert_Diff_if last_seen_def)
  qed (simp add: last_seen_def)
qed simp

text \<open>
  The invariant, over the list of events handed to the channel so far: the window lists the last of
  them, the pending bodies follow, all these identifiers are distinct, and a queue is never left without a sender.
\<close>

definition delivery_ok :: "nostr_lib \<Rightarrow> query_event list \<Rightarrow> delivery \<Rightarrow> bool" where
  "delivery_ok lib sent d \<longleftrightarrow>
     dl_delivered_order d = last_seen (map (event_key lib) sent) \<and> dl_delivered_ids d = set (dl_delivered_order d) \<and>
     dl_pending_ids d = event_key lib ` set (dl_pending d) \<and>
     distinct (dl_delivered_order d @ map (event_key lib) (dl_pending d)) \<and>
     length (dl_pending d) \<le> dl_maximum_pending d \<and> (dl_pending d \<noteq> [] \<longrightarrow> dl_sender d) \<and>
     (dl_status d = Active \<longrightarrow> dl_sender d)"

lemma delivery_ok_distinct: "delivery_ok lib sent d \<Longrightarrow> distinct (dl_delivered_order d @ map (event_key lib) (dl_pending d))"
  unfolding delivery_ok_def by blast

text \<open>An identifier that is new to the window enters it; the rest of the state is as given.\<close>

lemma delivery_ok_mark:
  assumes w: "dl_delivered_order d = last_seen (map (event_key lib) sent)" "dl_delivered_ids d = set (dl_delivered_order d)"
    and p: "dl_pending_ids d = event_key lib ` set (dl_pending d)"
    and new: "distinct (dl_delivered_order d @ event_key lib q # map (event_key lib) (dl_pending d))"
    and rest: "length (dl_pending d) \<le> dl_maximum_pending d" "dl_pending d \<noteq> [] \<longrightarrow> dl_sender d" "dl_status d = Active \<longrightarrow> dl_sender d"
  defines "d' \<equiv> mark_delivered (event_key lib q) d"
  shows "delivery_ok lib (sent @ [q]) d'" and "dl_pending d' = dl_pending d" and "dl_sender d' = dl_sender d"
    and "dl_status d' = dl_status d" and "dl_maximum_pending d' = dl_maximum_pending d"
proof -
  let ?o = "dl_delivered_order d @ [event_key lib q]"
  have dist: "distinct ?o" using new by simp
  have d': "d' = d\<lparr>dl_delivered_order := last_seen ?o, dl_delivered_ids := set (last_seen ?o)\<rparr>"
    unfolding d'_def mark_delivered_def using trim_delivered_eq[OF dist] w(2) by simp
  have "last_seen ?o = last_seen (map (event_key lib) (sent @ [q]))"
    using w(1) last_seen_snoc[of "map (event_key lib) sent" "event_key lib q"] by simp
  moreover have "set (last_seen ?o) \<inter> set (map (event_key lib) (dl_pending d)) = {}"
    using subset_trans[OF set_last_seen[of ?o], of "insert (event_key lib q) (set (dl_delivered_order d))"] new
    by (auto simp del: set_map dest: subsetD)
  then have "distinct (last_seen ?o @ map (event_key lib) (dl_pending d))"
    using distinct_last_seen[OF dist] new by simp
  ultimately show "delivery_ok lib (sent @ [q]) d'" using p rest by (simp add: delivery_ok_def d')
  show "dl_pending d' = dl_pending d" "dl_sender d' = dl_sender d" "dl_status d' = dl_status d"
    "dl_maximum_pending d' = dl_maximum_pending d" by (simp_all add: d')
qed

text \<open>What a refill does while the receiver exists: some pending bodies move to the channel, in order.\<close>

lemma refill_pending_ok:
  assumes "delivery_ok lib sent d" and "ch_open ch" and "refill_pending lib (dl_pending d) d ch = (d', ch')"
  shows "\<exists>moved. delivery_ok lib (sent @ moved) d' \<and> ch' = ch\<lparr>ch_queue := ch_queue ch @ moved\<rparr> \<and>
    moved @ dl_pending d' = dl_pending d \<and> dl_status d' = dl_status d \<and> dl_maximum_pending d' = dl_maximum_pending d \<and>
    dl_sender d' = dl_sender d \<and> (length (ch_queue ch') < ch_capacity ch \<longrightarrow> dl_pending d' = [])"
  using assms
proof (induction "dl_pending d" arbitrary: d ch sent)
  case Nil
  then have "refill_pending lib [] d ch = (d', ch')" by simp
  then have "d' = d" "ch' = ch" using Nil.hyps by auto
  then show ?case using Nil.prems(1) Nil.hyps by (intro exI[of _ "[]"]) auto
next
  case (Cons q rest)
  have p: "dl_pending d = q # rest" using Cons.hyps(2) by simp
  have sender: "dl_sender d" using Cons.prems(1) p by (simp add: delivery_ok_def)
  show ?case
  proof (cases "length (ch_queue ch) \<ge> ch_capacity ch")
    case True
    then have "refill_pending lib (dl_pending d) d ch = (d, ch)"
      using Cons.prems(2) sender p by (simp add: try_send_def)
    then have "d' = d" "ch' = ch" using Cons.prems(3) by simp_all
    then show ?thesis using Cons.prems(1) p True by (intro exI[of _ "[]"]) auto
  next
    case False
    let ?d0 = "d\<lparr>dl_pending := rest, dl_pending_ids := dl_pending_ids d - {event_key lib q}\<rparr>"
    let ?d1 = "mark_delivered (event_key lib q) ?d0"
    let ?ch = "ch\<lparr>ch_queue := ch_queue ch @ [q]\<rparr>"
    have mark: "delivery_ok lib (sent @ [q]) ?d1" "dl_pending ?d1 = rest" "dl_sender ?d1 = dl_sender d"
      "dl_status ?d1 = dl_status d" "dl_maximum_pending ?d1 = dl_maximum_pending d"
    proof -
      have k: "event_key lib q \<notin> event_key lib ` set rest" using Cons.prems(1) p by (simp add: delivery_ok_def)
      have "dl_delivered_order ?d0 = last_seen (map (event_key lib) sent)" "dl_delivered_ids ?d0 = set (dl_delivered_order ?d0)"
        using Cons.prems(1) by (simp_all add: delivery_ok_def)
      moreover have "dl_pending_ids ?d0 = event_key lib ` set (dl_pending ?d0)"
        using Cons.prems(1) p k by (simp add: delivery_ok_def)
      moreover have "distinct (dl_delivered_order ?d0 @ event_key lib q # map (event_key lib) (dl_pending ?d0))"
        using delivery_ok_distinct[OF Cons.prems(1)] p by simp
      moreover have "length (dl_pending ?d0) \<le> dl_maximum_pending ?d0" using Cons.prems(1) p by (simp add: delivery_ok_def)
      ultimately show "delivery_ok lib (sent @ [q]) ?d1" "dl_pending ?d1 = rest" "dl_sender ?d1 = dl_sender d"
        "dl_status ?d1 = dl_status d" "dl_maximum_pending ?d1 = dl_maximum_pending d"
        using delivery_ok_mark[of ?d0 lib sent q] sender by simp_all
    qed
    have "refill_pending lib (dl_pending ?d1) ?d1 ?ch = (d', ch')"
      using Cons.prems(2,3) p sender False mark(2) by (simp add: try_send_def)
    from Cons.hyps(1)[OF mark(2)[symmetric] mark(1) _ this] Cons.prems(2)
    obtain moved where m: "delivery_ok lib ((sent @ [q]) @ moved) d'" "ch' = ?ch\<lparr>ch_queue := ch_queue ?ch @ moved\<rparr>"
      "moved @ dl_pending d' = rest" "dl_status d' = dl_status d" "dl_maximum_pending d' = dl_maximum_pending d"
      "dl_sender d' = dl_sender d" "length (ch_queue ch') < ch_capacity ch \<longrightarrow> dl_pending d' = []"
      unfolding mark(2-5) by auto
    then show ?thesis using p by (intro exI[of _ "q # moved"]) simp
  qed
qed

lemma refill_ok:
  assumes "delivery_ok lib sent d" and "ch_open ch" and "refill lib d ch = (d', ch')"
  shows "\<exists>moved. delivery_ok lib (sent @ moved) d' \<and> ch' = ch\<lparr>ch_queue := ch_queue ch @ moved\<rparr> \<and>
    moved @ dl_pending d' = dl_pending d \<and> dl_status d' = dl_status d \<and> dl_maximum_pending d' = dl_maximum_pending d \<and>
    (length (ch_queue ch') < ch_capacity ch \<longrightarrow> dl_pending d' = [])"
proof -
  obtain d1 where r: "refill_pending lib (dl_pending d) d ch = (d1, ch')"
    and d': "d' = (if dl_status d1 \<noteq> Active \<and> dl_pending d1 = [] then d1\<lparr>dl_sender := False\<rparr> else d1)"
    using assms(3) by (auto simp: refill_def split: prod.splits)
  from refill_pending_ok[OF assms(1,2) r] show ?thesis unfolding d' by (auto simp: delivery_ok_def)
qed

lemma dl_close_ok: "delivery_ok lib sent d \<Longrightarrow> delivery_ok lib sent (dl_close d)"
  by (auto simp: delivery_ok_def dl_close_def Let_def)

lemma dl_close_fields [simp]: "dl_pending (dl_close d) = dl_pending d" "dl_maximum_pending (dl_close d) = dl_maximum_pending d"
  by (simp_all add: dl_close_def Let_def)

lemma enqueue_ok:
  assumes ok: "delivery_ok lib sent d" and op: "ch_open ch" and e: "enqueue lib q d ch = (a, d', ch')"
  shows "\<exists>moved. delivery_ok lib (sent @ moved) d' \<and> ch' = ch\<lparr>ch_queue := ch_queue ch @ moved\<rparr> \<and>
    moved @ dl_pending d' = dl_pending d @ (if a then [q] else []) \<and> dl_maximum_pending d' = dl_maximum_pending d"
proof (cases "dl_status d \<noteq> Active \<or> delivery_contains (event_key lib q) d")
  case True
  then show ?thesis using e ok by (intro exI[of _ "[]"]) (auto simp: enqueue_def split: if_splits)
next
  case False
  obtain d1 ch1 where r: "refill lib d ch = (d1, ch1)" by force
  from refill_ok[OF ok op r] obtain moved where m: "delivery_ok lib (sent @ moved) d1" "ch1 = ch\<lparr>ch_queue := ch_queue ch @ moved\<rparr>"
    "moved @ dl_pending d1 = dl_pending d" "dl_status d1 = dl_status d" "dl_maximum_pending d1 = dl_maximum_pending d"
    "length (ch_queue ch1) < ch_capacity ch \<longrightarrow> dl_pending d1 = []" by blast
  have sender: "dl_sender d1" using m(1,4) False by (simp add: delivery_ok_def)
  have new: "event_key lib q \<notin> set (dl_delivered_order d1)" "event_key lib q \<notin> event_key lib ` set (dl_pending d1)"
  proof -
    have "set (dl_delivered_order d1) \<subseteq> set (dl_delivered_order d) \<union> event_key lib ` set moved"
      using m(1) ok last_seen_append[of "map (event_key lib) sent" "map (event_key lib) moved"] by (simp add: delivery_ok_def)
    moreover have "set moved \<union> set (dl_pending d1) = set (dl_pending d)" using arg_cong[OF m(3), of set] by simp
    moreover have "event_key lib q \<notin> set (dl_delivered_order d)" "event_key lib q \<notin> event_key lib ` set (dl_pending d)"
      using False ok by (auto simp: delivery_contains_def delivery_ok_def)
    ultimately show "event_key lib q \<notin> set (dl_delivered_order d1)" "event_key lib q \<notin> event_key lib ` set (dl_pending d1)" by blast+
  qed
  show ?thesis
  proof (cases "length (ch_queue ch1) \<ge> ch_capacity ch1")
    case True
    then have "enqueue lib q d ch = (if length (dl_pending d1) = dl_maximum_pending d1
        then (False, d1\<lparr>dl_status := Lagged\<rparr>, ch1)
        else (True, d1\<lparr>dl_pending := dl_pending d1 @ [q], dl_pending_ids := insert (event_key lib q) (dl_pending_ids d1)\<rparr>, ch1))"
      using False r sender op m(2) by (simp add: enqueue_def try_send_def)
    then show ?thesis
      using e m new sender by (intro exI[of _ moved]) (auto simp: delivery_ok_def split: if_splits)
  next
    case room: False
    let ?d2 = "mark_delivered (event_key lib q) d1"
    have p: "dl_pending d1 = []" using m(2,6) room by simp
    have mark: "delivery_ok lib ((sent @ moved) @ [q]) ?d2" "dl_pending ?d2 = []" "dl_maximum_pending ?d2 = dl_maximum_pending d1"
      using delivery_ok_mark[of d1 lib "sent @ moved" q] m(1) new p by (auto simp: delivery_ok_def)
    have "enqueue lib q d ch = (True, ?d2, ch1\<lparr>ch_queue := ch_queue ch1 @ [q]\<rparr>)"
      using False r sender op m(2) room by (simp add: enqueue_def try_send_def)
    then show ?thesis using e m(2,3,5) mark p by (intro exI[of _ "moved @ [q]"]) auto
  qed
qed

section \<open>The whole run\<close>

lemma refill_pending_channel:
  assumes "refill_pending lib pending d ch = (d', ch')"
  shows "ch_open ch' = ch_open ch \<and> ch_capacity ch' = ch_capacity ch"
  using assms
  by (induction lib pending d ch rule: refill_pending.induct)
    (auto simp: try_send_def split: if_splits)

lemma refill_channel:
  assumes "refill lib d ch = (d', ch')"
  shows "ch_open ch' = ch_open ch \<and> ch_capacity ch' = ch_capacity ch"
  using assms refill_pending_channel by (auto simp: refill_def split: prod.splits)

lemma enqueue_channel:
  assumes "enqueue lib q d ch = (a, d', ch')"
  shows "ch_open ch' = ch_open ch \<and> ch_capacity ch' = ch_capacity ch"
  using assms refill_channel[of lib d ch]
  by (auto simp: enqueue_def try_send_def split: if_splits prod.splits)

definition run_ok :: "nostr_lib \<Rightarrow> nat \<Rightarrow> nat \<Rightarrow> delivery_run \<Rightarrow> bool" where
  "run_ok lib capacity n r \<longleftrightarrow> ch_capacity (run_channel r) = capacity \<and>
     (ch_open (run_channel r) \<longrightarrow>
        delivery_ok lib (run_received r @ ch_queue (run_channel r)) (run_delivery r) \<and>
        dl_maximum_pending (run_delivery r) = n \<and>
        run_received r @ ch_queue (run_channel r) @ dl_pending (run_delivery r) = run_accepted r)"

text \<open>A step that moves some accepted bodies on, and perhaps accepts a new one, keeps the order.\<close>

lemma run_ok_moved:
  assumes ok: "run_ok lib capacity n r"
    and chan: "ch_open ch = ch_open (run_channel r) \<and> ch_capacity ch = ch_capacity (run_channel r)"
    and r': "r' = r\<lparr>run_delivery := d, run_channel := ch, run_accepted := run_accepted r @ new\<rparr>"
    and moved: "\<And>sent. delivery_ok lib sent (run_delivery r) \<Longrightarrow> ch_open (run_channel r) \<Longrightarrow>
      \<exists>moved. delivery_ok lib (sent @ moved) d \<and> ch = (run_channel r)\<lparr>ch_queue := ch_queue (run_channel r) @ moved\<rparr> \<and>
        moved @ dl_pending d = dl_pending (run_delivery r) @ new \<and> dl_maximum_pending d = dl_maximum_pending (run_delivery r)"
  shows "run_ok lib capacity n r'"
proof (cases "ch_open (run_channel r)")
  case True
  let ?q = "ch_queue (run_channel r)"
  have old: "delivery_ok lib (run_received r @ ?q) (run_delivery r)" "dl_maximum_pending (run_delivery r) = n"
    "run_received r @ ?q @ dl_pending (run_delivery r) = run_accepted r"
    using ok True by (simp_all add: run_ok_def)
  obtain moved where m: "delivery_ok lib ((run_received r @ ?q) @ moved) d" "ch_queue ch = ?q @ moved"
    "moved @ dl_pending d = dl_pending (run_delivery r) @ new" "dl_maximum_pending d = n"
    using moved[OF old(1) True] old(2) by auto
  have "run_received r @ ch_queue ch @ dl_pending d = run_received r @ ?q @ (moved @ dl_pending d)" by (simp add: m(2))
  also have "\<dots> = (run_received r @ ?q @ dl_pending (run_delivery r)) @ new" by (simp add: m(3))
  finally show ?thesis using m(1,2,4) old(3) ok chan by (simp add: r' run_ok_def)
qed (use ok chan in \<open>simp add: r' run_ok_def\<close>)

lemma run_ok_step:
  assumes "run_ok lib capacity n r"
  shows "run_ok lib capacity n (delivery_step lib op r)"
proof (cases op)
  case (Enqueue q)
  obtain a d ch where e: "enqueue lib q (run_delivery r) (run_channel r) = (a, d, ch)" using prod_cases3 by blast
  then have "delivery_step lib op r = r\<lparr>run_delivery := d, run_channel := ch, run_accepted := run_accepted r @ (if a then [q] else [])\<rparr>"
    using Enqueue by simp
  from run_ok_moved[OF assms enqueue_channel[OF e] this enqueue_ok[OF _ _ e]] show ?thesis by blast
next
  case Refill
  obtain d ch where e: "refill lib (run_delivery r) (run_channel r) = (d, ch)" by force
  then have "delivery_step lib op r = r\<lparr>run_delivery := d, run_channel := ch, run_accepted := run_accepted r @ []\<rparr>"
    using Refill by simp
  from run_ok_moved[OF assms refill_channel[OF e] this] show ?thesis using refill_ok[OF _ _ e] by fastforce
next
  case CloseDelivery
  then show ?thesis using assms by (auto simp: run_ok_def intro: dl_close_ok)
next
  case Take
  then show ?thesis using assms by (cases "ch_queue (run_channel r)") (auto simp: run_ok_def)
qed (use assms in \<open>auto simp: run_ok_def\<close>)

lemma run_ok_fold: "run_ok lib capacity n (fold (delivery_step lib) ops (delivery_start capacity n))"
proof (induction ops rule: rev_induct)
  case Nil
  then show ?case by (simp add: run_ok_def delivery_start_def delivery_ok_def delivery_new_def)
qed (simp add: run_ok_step)

text \<open>
  C35: local delivery loses and reorders nothing. Whatever the interleaving of arrivals, refills, closing and the
  subscriber's progress, as long as the subscriber keeps its receiver, the events it has taken, followed by those in the
  channel and those pending, are exactly the accepted events in order of acceptance; at most \<open>maximum_pending\<close> are
  pending; no identifier occurs twice among the last 4096 events handed over and the pending ones; and pending events
  always move on once the channel is empty, even after the subscription was closed or lagged.
\<close>

theorem local_delivery_fifo:
  assumes "fold (delivery_step lib) ops (delivery_start capacity n) = r" and "ch_open (run_channel r)"
  shows "run_received r @ ch_queue (run_channel r) @ dl_pending (run_delivery r) = run_accepted r \<and>
    length (dl_pending (run_delivery r)) \<le> n \<and>
    distinct (last_seen (map (event_key lib) (run_received r @ ch_queue (run_channel r))) @
      map (event_key lib) (dl_pending (run_delivery r))) \<and>
    (0 < capacity \<and> ch_queue (run_channel r) = [] \<and> dl_pending (run_delivery r) \<noteq> [] \<longrightarrow>
       ch_queue (run_channel (delivery_step lib Refill r)) \<noteq> [])"
proof -
  have ok: "run_ok lib capacity n r" using run_ok_fold assms(1) by metis
  let ?sent = "run_received r @ ch_queue (run_channel r)"
  have d: "delivery_ok lib ?sent (run_delivery r)" "dl_maximum_pending (run_delivery r) = n"
    "run_received r @ ch_queue (run_channel r) @ dl_pending (run_delivery r) = run_accepted r"
    using ok assms(2) by (auto simp: run_ok_def)
  have "ch_queue ch \<noteq> []" if "0 < capacity" "ch_queue (run_channel r) = []" "dl_pending (run_delivery r) \<noteq> []"
      "refill lib (run_delivery r) (run_channel r) = (d', ch)" for d' ch
    using refill_ok[OF d(1) assms(2) that(4)] that(1-3) ok by (auto simp: run_ok_def)
  then have "0 < capacity \<and> ch_queue (run_channel r) = [] \<and> dl_pending (run_delivery r) \<noteq> [] \<longrightarrow>
       ch_queue (run_channel (delivery_step lib Refill r)) \<noteq> []" by (auto split: prod.split)
  moreover have "length (dl_pending (run_delivery r)) \<le> n" using d(1,2) by (simp add: delivery_ok_def)
  moreover have dist: "distinct (last_seen (map (event_key lib) ?sent) @ map (event_key lib) (dl_pending (run_delivery r)))"
    using d(1) unfolding delivery_ok_def by metis
  ultimately show ?thesis using d(3) dist by blast
qed

text \<open>A subscriber with room for one event and one pending event: both arrive in order, the third finds no room.\<close>

lemma demo_key_eq [simp]: "to_hex demo_lib (ev_id (demo_event i s k)) = to_hex demo_lib (ev_id (demo_event j t l)) \<longleftrightarrow> i = j"
  using demo_laws by (simp add: nostr_laws_def hex_law_def inj_eq demo_event_def)

lemma demo_delivery_run:
  "fold (delivery_step demo_lib) [Enqueue (demo_incoming 1), Enqueue (demo_incoming 2), Enqueue (demo_incoming 3), Take]
      (delivery_start 1 1) =
    \<lparr>run_delivery = (delivery_new 1)\<lparr>dl_pending := [demo_incoming 2], dl_pending_ids := {event_key demo_lib (demo_incoming 2)},
        dl_delivered_ids := {event_key demo_lib (demo_incoming 1)}, dl_delivered_order := [event_key demo_lib (demo_incoming 1)],
        dl_status := Lagged\<rparr>,
      run_channel = \<lparr>ch_queue = [], ch_capacity = 1, ch_open = True\<rparr>,
      run_accepted = [demo_incoming 1, demo_incoming 2], run_received = [demo_incoming 1]\<rparr>"
  by (simp add: delivery_start_def delivery_new_def enqueue_def refill_def delivery_contains_def try_send_def
      mark_delivered_def FIPS_NOSTR_PUBSUB_MAX_SEEN_EVENT_IDS_def)

theorem local_delivery_fifo_witness:
  "\<exists>r. fold (delivery_step demo_lib) [Enqueue (demo_incoming 1), Enqueue (demo_incoming 2), Enqueue (demo_incoming 3), Take]
      (delivery_start 1 1) = r \<and> ch_open (run_channel r) \<and> run_accepted r = [demo_incoming 1, demo_incoming 2] \<and>
    run_received r @ ch_queue (run_channel r) @ dl_pending (run_delivery r) = run_accepted r \<and>
    ch_queue (run_channel (delivery_step demo_lib Refill r)) \<noteq> []"
  using local_delivery_fifo[OF demo_delivery_run] unfolding demo_delivery_run by simp

end
