(* ===== verification/Recent_Events.thy ===== *)
theory Recent_Events
  imports Local_Delivery Subscriptions
begin

text \<open>
  The cache of recent events of a client, \<open>RecentEvents\<close> of \<open>crates/nostr-pubsub-fips/src/recent_events.rs\<close>: a window of event bodies and a
  longer window of seen identifiers.
\<close>

section \<open>Operations\<close>

record cached_recent =
  rc_event :: verified_event
  rc_source :: event_source
  rc_hop_limit :: u8

record recent_events =
  rv_max_payload_events :: nat
  rv_max_seen_ids :: nat
  rv_event_ids :: "string set"
  rv_event_id_order :: "string list"
  rv_entries :: "cached_recent list"

definition recent_new :: "nat \<Rightarrow> nat \<Rightarrow> recent_events" where
  "recent_new max_payload_events max_seen_ids =
     \<lparr>rv_max_payload_events = max_payload_events, rv_max_seen_ids = max_seen_ids, rv_event_ids = {}, rv_event_id_order = [], rv_entries = []\<rparr>"

fun trim_seen :: "nat \<Rightarrow> string list \<Rightarrow> string set \<Rightarrow> string list \<times> string set" where
  "trim_seen max_seen_ids [] ids = ([], ids)"
| "trim_seen max_seen_ids (removed # order) ids =
     (if card ids > max_seen_ids then trim_seen max_seen_ids order (ids - {removed}) else (removed # order, ids))"

abbreviation verified_key :: "nostr_lib \<Rightarrow> verified_event \<Rightarrow> string" where
  "verified_key lib v \<equiv> to_hex lib (ev_id (as_event v))"

definition recent_insert :: "nostr_lib \<Rightarrow> verified_event \<Rightarrow> event_source \<Rightarrow> u8 \<Rightarrow> recent_events \<Rightarrow> bool \<times> recent_events" where
  "recent_insert lib v source hop_limit s =
     (let event_id = verified_key lib v
      in if event_id \<in> rv_event_ids s then (False, s)
         else let entries = rv_entries s @ [\<lparr>rc_event = v, rc_source = source, rc_hop_limit = hop_limit\<rparr>];
                  (order, ids) = trim_seen (rv_max_seen_ids s) (rv_event_id_order s @ [event_id]) (insert event_id (rv_event_ids s))
              in (True, s\<lparr>rv_entries := drop (length entries - rv_max_payload_events s) entries, rv_event_id_order := order, rv_event_ids := ids\<rparr>))"

definition recent_contains :: "string \<Rightarrow> recent_events \<Rightarrow> bool" where
  "recent_contains event_id s \<longleftrightarrow> event_id \<in> rv_event_ids s"

definition recent_event :: "nostr_lib \<Rightarrow> string \<Rightarrow> recent_events \<Rightarrow> verified_event option" where
  "recent_event lib event_id s =
     (case from_hex lib event_id of
        None \<Rightarrow> None
      | Some i \<Rightarrow> map_option rc_event (find (\<lambda>cached. ev_id (as_event (rc_event cached)) = i) (rv_entries s)))"

definition recent_insert_for_publish :: "nostr_lib \<Rightarrow> verified_event \<Rightarrow> event_source \<Rightarrow> u8 \<Rightarrow> recent_events \<Rightarrow> bool \<times> recent_events" where
  "recent_insert_for_publish lib v source hop_limit s =
     (let i = verified_key lib v;
          s1 = (if recent_event lib i s = None \<and> i \<in> rv_event_ids s
                then s\<lparr>rv_event_ids := rv_event_ids s - {i}, rv_event_id_order := filter (\<lambda>seen. seen \<noteq> i) (rv_event_id_order s)\<rparr>
                else s)
      in recent_insert lib v source hop_limit s1)"

definition recent_matching :: "nostr_lib \<Rightarrow> filter list \<Rightarrow> recent_events \<Rightarrow> cached_recent list" where
  "recent_matching lib filters s = filter (\<lambda>cached. interest_from_filters lib filters (rc_event cached) = Subscribed) (rv_entries s)"

section \<open>The two windows\<close>

abbreviation recent_key :: "nostr_lib \<Rightarrow> cached_recent \<Rightarrow> string" where
  "recent_key lib c \<equiv> verified_key lib (rc_event c)"

definition recent_ok :: "nostr_lib \<Rightarrow> recent_events \<Rightarrow> bool" where
  "recent_ok lib s \<longleftrightarrow> 0 < rv_max_payload_events s \<and> rv_max_payload_events s \<le> rv_max_seen_ids s \<and>
     distinct (rv_event_id_order s) \<and> rv_event_ids s = set (rv_event_id_order s) \<and>
     length (rv_event_id_order s) \<le> rv_max_seen_ids s \<and> length (rv_entries s) \<le> rv_max_payload_events s \<and>
     (\<exists>older. rv_event_id_order s = older @ map (recent_key lib) (rv_entries s))"

lemma trim_seen_eq:
  "distinct order \<Longrightarrow> trim_seen cap order (set order) = (drop (length order - cap) order, set (drop (length order - cap) order))"
proof (induction order)
  case (Cons i order)
  then have "insert i (set order) - {i} = set order" by auto
  then show ?case using Cons by (auto simp: distinct_card Suc_diff_le not_less drop_Cons')
qed simp

lemma suffix_drop:
  assumes "order = older @ ks" and "length ks \<le> cap"
  shows "\<exists>older'. drop (length order - cap) order = older' @ ks"
proof -
  have "length order - cap \<le> length older" using assms by simp
  then show ?thesis unfolding assms(1) by (intro exI[of _ "drop (length (older @ ks) - cap) older"]) simp
qed

lemma recent_insert_ok:
  assumes ok: "recent_ok lib s" and i: "recent_insert lib v src hop s = (r, s')"
  shows "recent_ok lib s'" and "r \<longleftrightarrow> \<not> recent_contains (verified_key lib v) s" and "\<not> r \<Longrightarrow> s' = s"
    and "rv_event_id_order s' = window_push (rv_max_seen_ids s) (verified_key lib v) (rv_event_id_order s)"
    and "r \<Longrightarrow> \<exists>older. rv_entries s' = older @ [\<lparr>rc_event = v, rc_source = src, rc_hop_limit = hop\<rparr>]"
    and "rv_max_seen_ids s' = rv_max_seen_ids s" "rv_max_payload_events s' = rv_max_payload_events s"
proof -
  let ?k = "verified_key lib v" and ?c = "\<lparr>rc_event = v, rc_source = src, rc_hop_limit = hop\<rparr>" and ?mp = "rv_max_payload_events s" and ?ms = "rv_max_seen_ids s"
  have d: "distinct (rv_event_id_order s)" "rv_event_ids s = set (rv_event_id_order s)" using ok by (simp_all add: recent_ok_def)
  obtain older where old: "rv_event_id_order s = older @ map (recent_key lib) (rv_entries s)" using ok by (auto simp: recent_ok_def)
  have "recent_ok lib s' \<and> (r \<longleftrightarrow> \<not> recent_contains ?k s) \<and> (\<not> r \<longrightarrow> s' = s) \<and> rv_event_id_order s' = window_push ?ms ?k (rv_event_id_order s) \<and>
    (r \<longrightarrow> (\<exists>older. rv_entries s' = older @ [?c])) \<and> rv_max_seen_ids s' = ?ms \<and> rv_max_payload_events s' = ?mp"
  proof (cases "?k \<in> rv_event_ids s")
    case True
    then show ?thesis using i ok d by (simp add: recent_insert_def recent_contains_def window_push_def)
  next
    case False
    let ?es = "rv_entries s @ [?c]" and ?o = "rv_event_id_order s @ [?k]"
    have dist: "distinct ?o" and set: "insert ?k (rv_event_ids s) = set ?o" using False d by auto
    let ?es' = "drop (length ?es - ?mp) ?es" and ?o' = "drop (length ?o - ?ms) ?o"
    have s': "s' = s\<lparr>rv_entries := ?es', rv_event_id_order := ?o', rv_event_ids := set ?o'\<rparr>" and r: r
      using i False trim_seen_eq[OF dist, of ?ms] unfolding recent_insert_def Let_def set by auto
    have "?o = older @ map (recent_key lib) ?es" using old by simp
    then have "?o = (older @ take (length ?es - ?mp) (map (recent_key lib) ?es)) @ map (recent_key lib) ?es'"
      by (simp only: append_assoc drop_map[symmetric] append_take_drop_id)
    moreover have "length (map (recent_key lib) ?es') \<le> ?ms" using ok by (auto simp: recent_ok_def)
    ultimately have suf: "\<exists>older. ?o' = older @ map (recent_key lib) ?es'" by (rule suffix_drop)
    have "distinct ?o'" "length ?o' \<le> ?ms" "length ?es' \<le> ?mp" using distinct_drop[OF dist] unfolding length_drop by (simp_all del: drop_append)
    with suf ok have "recent_ok lib s'" unfolding s' recent_ok_def by (simp del: drop_append)
    moreover have "length ?es - ?mp \<le> length (rv_entries s)" using ok by (auto simp: recent_ok_def)
    then have "?es' = drop (length ?es - ?mp) (rv_entries s) @ [?c]" by simp
    moreover have "rv_event_id_order s' = window_push ?ms ?k (rv_event_id_order s)" using False d by (simp add: s' window_push_def)
    ultimately show ?thesis using r False by (auto simp: s' recent_contains_def simp del: drop_append)
  qed
  then show "recent_ok lib s'" "r \<longleftrightarrow> \<not> recent_contains ?k s" "\<not> r \<Longrightarrow> s' = s" "rv_event_id_order s' = window_push ?ms ?k (rv_event_id_order s)"
    "r \<Longrightarrow> \<exists>older. rv_entries s' = older @ [?c]" "rv_max_seen_ids s' = ?ms" "rv_max_payload_events s' = ?mp" by blast+
qed

lemma recent_new_ok: "0 < p \<Longrightarrow> p \<le> m \<Longrightarrow> recent_ok lib (recent_new p m)"
  by (simp add: recent_ok_def recent_new_def)

text \<open>The window of seen identifiers, as an instance of the bounded windows of the program.\<close>

interpretation recent_window: fifo_window
  "\<lambda>(v, source, hop_limit) s. snd (recent_insert lib v source hop_limit s)" "\<lambda>(v, _, _). verified_key lib v" rv_event_id_order "Suc m"
  "\<lambda>s. recent_ok lib s \<and> rv_max_seen_ids s = Suc m" for lib m
proof (unfold_locales, goal_cases)
  case (1 s x)
  then show ?case using recent_insert_ok[OF _ surjective_pairing] by (cases x) fastforce
next
  case (2 s x)
  then show ?case using recent_insert_ok(4)[OF _ surjective_pairing] by (cases x) fastforce
qed (auto simp: recent_ok_def)

text \<open>A forgotten body is in the window of identifiers only, so that dropping its identifier keeps the order of the others.\<close>

text \<open>\<open>EventId::from_hex\<close> reads back what \<open>to_hex\<close> prints.\<close>

definition reads_hex :: "nostr_lib \<Rightarrow> event_id \<Rightarrow> bool" where
  "reads_hex lib i \<longleftrightarrow> from_hex lib (to_hex lib i) = Some i"

lemma recent_event_None:
  assumes "hex_law lib" and "reads_hex lib i"
  shows "recent_event lib (to_hex lib i) s = None \<longleftrightarrow> to_hex lib i \<notin> recent_key lib ` set (rv_entries s)"
proof -
  have inj: "to_hex lib i = to_hex lib j \<longleftrightarrow> j = i" for j using assms(1) by (auto simp: hex_law_def inj_eq)
  show ?thesis using assms(2) unfolding recent_event_def reads_hex_def by (simp add: find_None_iff image_iff inj) blast
qed

lemma recent_forget_ok:
  assumes ok: "recent_ok lib s" and new: "i \<notin> recent_key lib ` set (rv_entries s)"
  shows "recent_ok lib (s\<lparr>rv_event_ids := rv_event_ids s - {i}, rv_event_id_order := filter (\<lambda>seen. seen \<noteq> i) (rv_event_id_order s)\<rparr>)"
proof -
  obtain older where old: "rv_event_id_order s = older @ map (recent_key lib) (rv_entries s)" using ok by (auto simp: recent_ok_def)
  have "filter (\<lambda>seen. seen \<noteq> i) (map (recent_key lib) (rv_entries s)) = map (recent_key lib) (rv_entries s)"
    using new by (auto simp: filter_id_conv)
  then have "filter (\<lambda>seen. seen \<noteq> i) (rv_event_id_order s) = filter (\<lambda>seen. seen \<noteq> i) older @ map (recent_key lib) (rv_entries s)"
    by (simp add: old)
  then have "\<exists>older. filter (\<lambda>seen. seen \<noteq> i) (rv_event_id_order s) = older @ map (recent_key lib) (rv_entries s)" by blast
  moreover have "length (filter (\<lambda>seen. seen \<noteq> i) (rv_event_id_order s)) \<le> rv_max_seen_ids s"
    using ok by (intro le_trans[OF length_filter_le]) (simp add: recent_ok_def)
  moreover have "rv_event_ids s - {i} = set (filter (\<lambda>seen. seen \<noteq> i) (rv_event_id_order s))" using ok by (simp add: recent_ok_def set_diff_eq)
  ultimately show ?thesis using ok unfolding recent_ok_def by simp
qed

lemma recent_publish_ok:
  assumes ok: "recent_ok lib s" and hex: "hex_law lib" "reads_hex lib (ev_id (as_event v))"
    and i: "recent_insert_for_publish lib v src hop s = (r, s')"
  shows "recent_ok lib s'" and "recent_event lib (verified_key lib v) s' \<noteq> None" and "recent_contains (verified_key lib v) s'"
    and "r \<longleftrightarrow> recent_event lib (verified_key lib v) s = None"
    and "rv_max_seen_ids s' = rv_max_seen_ids s" "rv_max_payload_events s' = rv_max_payload_events s"
proof -
  let ?k = "verified_key lib v"
  note none = recent_event_None[OF hex]
  define s1 where "s1 = (if recent_event lib ?k s = None \<and> ?k \<in> rv_event_ids s
    then s\<lparr>rv_event_ids := rv_event_ids s - {?k}, rv_event_id_order := filter (\<lambda>seen. seen \<noteq> ?k) (rv_event_id_order s)\<rparr> else s)"
  have ins: "recent_insert lib v src hop s1 = (r, s')" using i by (simp add: recent_insert_for_publish_def Let_def s1_def)
  have ok1: "recent_ok lib s1"
  proof (cases "recent_event lib ?k s = None")
    case True
    then have "?k \<notin> recent_key lib ` set (rv_entries s)" using none by blast
    from recent_forget_ok[OF ok this] show ?thesis using ok by (simp add: s1_def)
  qed (use ok in \<open>auto simp: s1_def\<close>)
  note n = recent_insert_ok[OF ok1 ins]
  have known: "?k \<in> rv_event_ids t" if "recent_ok lib t" "?k \<in> recent_key lib ` set (rv_entries t)" for t
  proof -
    have "rv_event_ids t = set (rv_event_id_order t)" and "\<exists>older. rv_event_id_order t = older @ map (recent_key lib) (rv_entries t)"
      using that(1) by (simp_all add: recent_ok_def)
    then show ?thesis using that(2) by (metis UnCI list.set_map set_append)
  qed
  have r: "r \<longleftrightarrow> recent_event lib ?k s = None"
    using n(2) known[OF ok] none[of s] by (auto simp: s1_def recent_contains_def)
  moreover have cached: "?k \<in> recent_key lib ` set (rv_entries s')"
  proof (cases r)
    case True
    then show ?thesis using n(5) by auto
  next
    case False
    then show ?thesis using n(3) r none[of s] by (auto simp: s1_def)
  qed
  ultimately show "recent_event lib ?k s' \<noteq> None" "recent_contains ?k s'" "r \<longleftrightarrow> recent_event lib ?k s = None"
    using none[of s'] known[OF n(1)] by (auto simp: recent_contains_def)
  show "recent_ok lib s'" "rv_max_seen_ids s' = rv_max_seen_ids s" "rv_max_payload_events s' = rv_max_payload_events s"
    using n(1,6,7) by (auto simp: s1_def)
qed

section \<open>Runs\<close>

datatype recent_op = Gossip verified_event event_source u8 | Republish verified_event event_source u8

fun recent_step :: "nostr_lib \<Rightarrow> recent_op \<Rightarrow> recent_events \<Rightarrow> recent_events" where
  "recent_step lib (Gossip v src hop) s = snd (recent_insert lib v src hop s)"
| "recent_step lib (Republish v src hop) s = snd (recent_insert_for_publish lib v src hop s)"

fun op_reads :: "nostr_lib \<Rightarrow> recent_op \<Rightarrow> bool" where
  "op_reads lib (Gossip v src hop) \<longleftrightarrow> True"
| "op_reads lib (Republish v src hop) \<longleftrightarrow> reads_hex lib (ev_id (as_event v))"

lemma recent_run_ok:
  assumes "hex_law lib" and "recent_ok lib s" and "\<forall>c\<in>set ops. op_reads lib c"
  shows "recent_ok lib (fold (recent_step lib) ops s) \<and> rv_max_seen_ids (fold (recent_step lib) ops s) = rv_max_seen_ids s \<and>
    rv_max_payload_events (fold (recent_step lib) ops s) = rv_max_payload_events s"
  using assms(2,3)
proof (induction ops arbitrary: s)
  case (Cons c ops)
  have "recent_ok lib (recent_step lib c s) \<and> rv_max_seen_ids (recent_step lib c s) = rv_max_seen_ids s \<and>
      rv_max_payload_events (recent_step lib c s) = rv_max_payload_events s"
  proof (cases c)
    case (Gossip v src hop)
    then show ?thesis using recent_insert_ok(1,6,7)[OF Cons.prems(1) surjective_pairing] by simp
  next
    case (Republish v src hop)
    then show ?thesis using recent_publish_ok(1,5,6)[OF Cons.prems(1) assms(1) _ surjective_pairing] Cons.prems(2) by simp
  qed
  then show ?case using Cons.IH[of "recent_step lib c s"] Cons.prems(2) by simp
qed simp

text \<open>
  C40: the cache of recent events. After any sequence of gossiped and published events at most \<open>p\<close> bodies and \<open>m\<close> identifiers are kept, no identifier twice, and the
  bodies are those of the newest identifiers, in order. A gossiped event is taken exactly when its identifier is not in the window, a published one exactly when its body is not cached, and
  a published event can be fetched afterwards.
\<close>

theorem recent_events_windows:
  assumes "0 < p" and "p \<le> m" and "hex_law lib" and "\<forall>c\<in>set ops. op_reads lib c" and "reads_hex lib (ev_id (as_event v))"
    and s: "fold (recent_step lib) ops (recent_new p m) = s"
  shows "length (rv_entries s) \<le> p \<and> length (rv_event_id_order s) \<le> m \<and> distinct (rv_event_id_order s) \<and> rv_event_ids s = set (rv_event_id_order s) \<and>
    (\<exists>older. rv_event_id_order s = older @ map (recent_key lib) (rv_entries s)) \<and>
    (fst (recent_insert lib v src hop s) \<longleftrightarrow> \<not> recent_contains (verified_key lib v) s) \<and>
    (fst (recent_insert_for_publish lib v src hop s) \<longleftrightarrow> recent_event lib (verified_key lib v) s = None) \<and>
    recent_event lib (verified_key lib v) (snd (recent_insert_for_publish lib v src hop s)) \<noteq> None"
proof -
  have ok: "recent_ok lib s" and caps: "rv_max_seen_ids s = m" "rv_max_payload_events s = p"
    using recent_run_ok[OF assms(3) recent_new_ok[OF assms(1,2)] assms(4)] s by (auto simp: recent_new_def)
  note ins = recent_insert_ok(2)[OF ok surjective_pairing] and pub = recent_publish_ok(2,4)[OF ok assms(3,5) surjective_pairing]
  show ?thesis using ok caps ins pub unfolding recent_ok_def by blast
qed

text \<open>Room for one body and two identifiers: a second event pushes the first body out, and publishing the first again fetches it back.\<close>

theorem recent_events_windows_witness:
  "let lib = demo_lib\<lparr>from_hex := (\<lambda>s. if s = to_hex demo_lib 7 then Some 7 else None)\<rparr>; v = VerifiedEvent (demo_event 7 0 1);
       s = fold (recent_step lib) [Republish v (es_local_index []) 3, Gossip (VerifiedEvent (demo_event 8 0 1)) (es_peer ''p'') 1] (recent_new 1 2)
   in recent_contains (verified_key lib v) s \<and> recent_event lib (verified_key lib v) s = None \<and>
      recent_event lib (verified_key lib v) (snd (recent_insert_for_publish lib v (es_local_index []) 3 s)) \<noteq> None"
proof -
  let ?lib = "demo_lib\<lparr>from_hex := (\<lambda>s. if s = to_hex demo_lib 7 then Some 7 else None)\<rparr>" and ?v = "VerifiedEvent (demo_event 7 0 1)"
  let ?ops = "[Republish ?v (es_local_index []) 3, Gossip (VerifiedEvent (demo_event 8 0 1)) (es_peer ''p'') 1]"
  have law: "hex_law ?lib" "reads_hex ?lib (ev_id (as_event ?v))" "\<forall>c\<in>set ?ops. op_reads ?lib c"
    using demo_laws by (simp_all add: hex_law_def nostr_laws_def reads_hex_def demo_event_def)
  have key: "to_hex demo_lib 8 \<noteq> to_hex demo_lib 7" using demo_laws by (simp add: nostr_laws_def hex_law_def inj_eq)
  have s: "recent_contains (verified_key ?lib ?v) (fold (recent_step ?lib) ?ops (recent_new 1 2))"
    "recent_event ?lib (verified_key ?lib ?v) (fold (recent_step ?lib) ?ops (recent_new 1 2)) = None"
    using key by (simp_all add: recent_insert_for_publish_def recent_insert_def recent_new_def recent_event_def recent_contains_def demo_event_def card_insert_if Let_def)
  show ?thesis using recent_events_windows[OF _ _ law(1,3,2) refl, of 1 2 "es_local_index []" 3] s by (simp add: Let_def)
qed

end
