(* ===== verification/Wire.thy ===== *)
theory Wire
  imports Subscription_Store
begin

text \<open>
  The FIPS wire format, \<open>crates/nostr-pubsub/src/wire.rs\<close>: messages, the frame codec with its size limit and
  the checks of each message type, and the adapter that applies inbound frames to the subscription
  store. JSON text and the message types of the \<open>nostr\<close> crate are the parameter \<open>wire_lib\<close>; what the round
  trip relies on for one message is \<open>wire_law\<close>.
\<close>

section \<open>Data\<close>

datatype jvalue = JNull | JBool bool | JUInt u64 | JNumber string | JStr string | JArr "jvalue list"
  | JObj "(string \<times> jvalue) list"

datatype nostr_client_message = NReq string "filter list" | NClose string | NEvent event | NOtherClient

datatype nostr_relay_message = NDeliver string event | NOk event_id bool string | NOtherRelay

record wire_lib =
  json_parse :: "bytes \<Rightarrow> jvalue option"
  json_print :: "jvalue \<Rightarrow> bytes"
  client_json :: "nostr_client_message \<Rightarrow> bytes"
  client_from_value :: "jvalue \<Rightarrow> nostr_client_message option"
  relay_json :: "nostr_relay_message \<Rightarrow> bytes"
  relay_from_value :: "jvalue \<Rightarrow> nostr_relay_message option"

definition DEFAULT_FIPS_PUBSUB_MAX_FRAME_BYTES :: nat where
  "DEFAULT_FIPS_PUBSUB_MAX_FRAME_BYTES = 64 * 1024"

datatype fips_message =
    FReq string "filter list"
  | FClose string
  | FEvent "string option" verified_event
  | FOk event_id bool string
  | FInv "string list" event_id u16 u32 u8
  | FWant event_id

record wire_codec =
  max_frame_bytes :: nat

definition wire_codec_default :: wire_codec where
  "wire_codec_default = \<lparr>max_frame_bytes = DEFAULT_FIPS_PUBSUB_MAX_FRAME_BYTES\<rparr>"

definition wire_codec_new :: "nat \<Rightarrow> pubsub_error + wire_codec" where
  "wire_codec_new n =
     (if n = 0 then Inl (Validation ''FIPS pubsub max frame bytes must be greater than zero'')
      else Inr \<lparr>max_frame_bytes = n\<rparr>)"

definition invalid_frame :: "string \<Rightarrow> pubsub_error" where
  "invalid_frame message = Validation (''invalid FIPS pubsub frame: '' @ message)"

definition check_frame_size :: "wire_codec \<Rightarrow> nat \<Rightarrow> pubsub_error option" where
  "check_frame_size codec n =
     (if n > max_frame_bytes codec then Some (invalid_frame ''frame exceeds the limit'') else None)"

section \<open>Encoding\<close>

definition inv_value :: "nostr_lib \<Rightarrow> string list \<Rightarrow> event_id \<Rightarrow> u16 \<Rightarrow> u32 \<Rightarrow> u8 \<Rightarrow> jvalue" where
  "inv_value lib ids i kind payload_bytes hop_limit =
     JArr [JStr ''INV'', JArr (map JStr ids), JStr (to_hex lib i), JUInt (ucast kind), JUInt (ucast payload_bytes),
           JUInt (ucast hop_limit)]"

definition want_value :: "nostr_lib \<Rightarrow> event_id \<Rightarrow> jvalue" where
  "want_value lib i = JArr [JStr ''WANT'', JStr (to_hex lib i)]"

fun message_json :: "nostr_lib \<Rightarrow> wire_lib \<Rightarrow> fips_message \<Rightarrow> bytes" where
  "message_json lib wl (FReq i fs) = client_json wl (NReq i fs)"
| "message_json lib wl (FClose i) = client_json wl (NClose i)"
| "message_json lib wl (FEvent None v) = client_json wl (NEvent (as_event v))"
| "message_json lib wl (FEvent (Some i) v) = relay_json wl (NDeliver i (as_event v))"
| "message_json lib wl (FOk i accepted message) = relay_json wl (NOk i accepted message)"
| "message_json lib wl (FInv ids i kind payload_bytes hop_limit) = json_print wl (inv_value lib ids i kind payload_bytes hop_limit)"
| "message_json lib wl (FWant i) = json_print wl (want_value lib i)"

definition encode_frame :: "nostr_lib \<Rightarrow> wire_lib \<Rightarrow> wire_codec \<Rightarrow> fips_message \<Rightarrow> pubsub_error + bytes" where
  "encode_frame lib wl codec m =
     (let frame = message_json lib wl m in
      case check_frame_size codec (length frame) of Some err \<Rightarrow> Inl err | None \<Rightarrow> Inr frame)"

section \<open>Decoding\<close>

definition decode_req :: "wire_lib \<Rightarrow> jvalue \<Rightarrow> pubsub_error + fips_message" where
  "decode_req wl value =
     (case client_from_value wl value of
        None \<Rightarrow> Inl (invalid_frame ''message'')
      | Some (NReq i fs) \<Rightarrow> Inr (FReq i fs)
      | Some _ \<Rightarrow> Inl (invalid_frame ''expected REQ message''))"

definition decode_close :: "wire_lib \<Rightarrow> jvalue \<Rightarrow> pubsub_error + fips_message" where
  "decode_close wl value =
     (case client_from_value wl value of
        None \<Rightarrow> Inl (invalid_frame ''message'')
      | Some (NClose i) \<Rightarrow> Inr (FClose i)
      | Some _ \<Rightarrow> Inl (invalid_frame ''expected CLOSE message''))"

definition decode_published_event :: "nostr_lib \<Rightarrow> wire_lib \<Rightarrow> jvalue \<Rightarrow> pubsub_error + fips_message" where
  "decode_published_event lib wl value =
     (case client_from_value wl value of
        None \<Rightarrow> Inl (invalid_frame ''message'')
      | Some (NEvent e) \<Rightarrow> map_sum (\<lambda>err. err) (FEvent None) (try_from_event lib e)
      | Some _ \<Rightarrow> Inl (invalid_frame ''expected client EVENT message''))"

definition decode_delivered_event :: "nostr_lib \<Rightarrow> wire_lib \<Rightarrow> jvalue \<Rightarrow> pubsub_error + fips_message" where
  "decode_delivered_event lib wl value =
     (case relay_from_value wl value of
        None \<Rightarrow> Inl (invalid_frame ''message'')
      | Some (NDeliver i e) \<Rightarrow> map_sum (\<lambda>err. err) (FEvent (Some i)) (try_from_event lib e)
      | Some _ \<Rightarrow> Inl (invalid_frame ''expected subscription EVENT message''))"

definition decode_ok :: "wire_lib \<Rightarrow> jvalue \<Rightarrow> pubsub_error + fips_message" where
  "decode_ok wl value =
     (case relay_from_value wl value of
        None \<Rightarrow> Inl (invalid_frame ''message'')
      | Some (NOk i status message) \<Rightarrow> Inr (FOk i status message)
      | Some _ \<Rightarrow> Inl (invalid_frame ''expected OK message''))"

definition field :: "jvalue list \<Rightarrow> nat \<Rightarrow> jvalue option" where
  "field items n = (if n < length items then Some (items ! n) else None)"

fun distinct_strings :: "string list \<Rightarrow> jvalue list \<Rightarrow> pubsub_error + string list" where
  "distinct_strings seen [] = Inr []"
| "distinct_strings seen (JStr i # vs) =
     (if i \<in> set seen then Inl (invalid_frame ''INV subscription ids must be unique'')
      else map_sum (\<lambda>err. err) ((#) i) (distinct_strings (i # seen) vs))"
| "distinct_strings seen (_ # vs) = Inl (invalid_frame ''INV subscription id must be a string'')"

definition decode_subscription_ids :: "jvalue list \<Rightarrow> nat \<Rightarrow> pubsub_error + string list" where
  "decode_subscription_ids items n =
     (case field items n of
        Some (JArr values) \<Rightarrow>
          if values = [] then Inl (invalid_frame ''INV requires at least one subscription id'')
          else distinct_strings [] values
      | _ \<Rightarrow> Inl (invalid_frame ''INV subscription ids must be an array''))"

definition decode_event_id :: "nostr_lib \<Rightarrow> jvalue list \<Rightarrow> nat \<Rightarrow> string \<Rightarrow> pubsub_error + event_id" where
  "decode_event_id lib items n message_type =
     (case field items n of
        Some (JStr s) \<Rightarrow>
          (case from_hex lib s of
             None \<Rightarrow> Inl (invalid_frame (message_type @ '' event id is invalid''))
           | Some i \<Rightarrow> Inr i)
      | _ \<Rightarrow> Inl (invalid_frame (message_type @ '' event id must be a string'')))"

definition decode_unsigned :: "jvalue list \<Rightarrow> nat \<Rightarrow> string \<Rightarrow> pubsub_error + 'a::len word" where
  "decode_unsigned items n name =
     (case field items n of
        Some (JUInt value) \<Rightarrow>
          if unat value < 2 ^ LENGTH('a) then Inr (ucast value) else Inl (invalid_frame (name @ '' is out of range''))
      | _ \<Rightarrow> Inl (invalid_frame (name @ '' must be an unsigned integer'')))"

definition decode_inv :: "nostr_lib \<Rightarrow> jvalue list \<Rightarrow> pubsub_error + fips_message" where
  "decode_inv lib items =
     (case decode_subscription_ids items 1 of Inl err \<Rightarrow> Inl err | Inr ids \<Rightarrow>
      case decode_event_id lib items 2 ''INV'' of Inl err \<Rightarrow> Inl err | Inr i \<Rightarrow>
      case decode_unsigned items 3 ''INV event kind'' of Inl err \<Rightarrow> Inl err | Inr kind \<Rightarrow>
      case decode_unsigned items 4 ''INV payload bytes'' of Inl err \<Rightarrow> Inl err | Inr payload_bytes \<Rightarrow>
      case decode_unsigned items 5 ''INV hop limit'' of Inl err \<Rightarrow> Inl err | Inr hop_limit \<Rightarrow>
      if hop_limit = 0 then Inl (invalid_frame ''INV hop limit must be greater than zero'')
      else Inr (FInv ids i kind payload_bytes hop_limit))"

definition decode_want :: "nostr_lib \<Rightarrow> jvalue list \<Rightarrow> pubsub_error + fips_message" where
  "decode_want lib items = map_sum (\<lambda>err. err) FWant (decode_event_id lib items 1 ''WANT'')"

definition decode_message :: "nostr_lib \<Rightarrow> wire_lib \<Rightarrow> jvalue list \<Rightarrow> string \<Rightarrow> pubsub_error + fips_message" where
  "decode_message lib wl items message_type =
     (let value = JArr items; n = length items in
      if message_type = ''REQ'' \<and> n \<ge> 3 then decode_req wl value
      else if message_type = ''CLOSE'' \<and> n = 2 then decode_close wl value
      else if message_type = ''EVENT'' \<and> n = 2 then decode_published_event lib wl value
      else if message_type = ''EVENT'' \<and> n = 3 then decode_delivered_event lib wl value
      else if message_type = ''OK'' \<and> n = 4 then decode_ok wl value
      else if message_type = ''INV'' \<and> n = 6 then decode_inv lib items
      else if message_type = ''WANT'' \<and> n = 2 then decode_want lib items
      else if message_type = ''REQ'' then Inl (invalid_frame ''REQ requires an id and at least one filter'')
      else if message_type = ''CLOSE'' then Inl (invalid_frame ''CLOSE requires exactly an id'')
      else if message_type = ''EVENT'' then Inl (invalid_frame ''EVENT requires an event and optional subscription id'')
      else if message_type = ''INV''
      then Inl (invalid_frame ''INV requires subscription ids, event id, kind, byte size, and hop limit'')
      else if message_type = ''WANT'' then Inl (invalid_frame ''WANT requires exactly an event id'')
      else Inl (invalid_frame (''unsupported Nostr message type '' @ message_type)))"

definition decode_frame :: "nostr_lib \<Rightarrow> wire_lib \<Rightarrow> wire_codec \<Rightarrow> bytes \<Rightarrow> pubsub_error + fips_message" where
  "decode_frame lib wl codec frame =
     (case check_frame_size codec (length frame) of
        Some err \<Rightarrow> Inl err
      | None \<Rightarrow>
          if frame = [] then Inl (invalid_frame ''frame is empty'')
          else case json_parse wl frame of
                 None \<Rightarrow> Inl (invalid_frame ''invalid JSON'')
               | Some (JArr items) \<Rightarrow>
                   (case items of
                      JStr message_type # _ \<Rightarrow> decode_message lib wl items message_type
                    | _ \<Rightarrow> Inl (invalid_frame ''message type must be a string''))
               | Some _ \<Rightarrow> Inl (invalid_frame ''message must be a JSON array''))"

section \<open>The adapter\<close>

record wire_adapter =
  wa_codec :: wire_codec
  wa_subscriptions :: sub_store

record fips_inbound =
  in_message :: fips_message
  in_update :: subscription_update

definition adapter_new :: "wire_codec \<Rightarrow> sub_store \<Rightarrow> wire_adapter" where
  "adapter_new codec subscriptions = \<lparr>wa_codec = codec, wa_subscriptions = subscriptions\<rparr>"

definition disconnect_peer :: "sub_json \<Rightarrow> source_id \<Rightarrow> wire_adapter \<Rightarrow> (subscription list \<times> wire_adapter) option" where
  "disconnect_peer js p a =
     map_option (\<lambda>(removed, st). (removed, a\<lparr>wa_subscriptions := st\<rparr>)) (remove_peer js p (wa_subscriptions a))"

definition decode_inbound ::
  "nostr_lib \<Rightarrow> wire_lib \<Rightarrow> sub_json \<Rightarrow> source_id \<Rightarrow> bytes \<Rightarrow> wire_adapter \<Rightarrow>
     ((pubsub_error + fips_inbound) \<times> wire_adapter) option" where
  "decode_inbound lib wl js p frame a =
     (case decode_frame lib wl (wa_codec a) frame of
        Inl err \<Rightarrow> Some (Inl err, a)
      | Inr m \<Rightarrow>
          (case m of
             FReq i fs \<Rightarrow>
               map_option (\<lambda>(r, st).
                 (case r of Inl err \<Rightarrow> Inl err | Inr _ \<Rightarrow> Inr \<lparr>in_message = m, in_update = UpdSubscribed\<rparr>,
                  a\<lparr>wa_subscriptions := st\<rparr>))
                 (upsert js p \<lparr>sub_id = i, sub_filters = fs\<rparr> (wa_subscriptions a))
           | FClose i \<Rightarrow>
               map_option (\<lambda>(_, st). (Inr \<lparr>in_message = m, in_update = UpdClosed\<rparr>, a\<lparr>wa_subscriptions := st\<rparr>))
                 (remove js p i (wa_subscriptions a))
           | _ \<Rightarrow> Some (Inr \<lparr>in_message = m, in_update = UpdIgnored\<rparr>, a)))"

definition encode_outbound :: "nostr_lib \<Rightarrow> wire_lib \<Rightarrow> wire_adapter \<Rightarrow> fips_message \<Rightarrow> pubsub_error + bytes" where
  "encode_outbound lib wl a m = encode_frame lib wl (wa_codec a) m"

section \<open>Round trip\<close>

text \<open>The messages the codec accepts: verified events, and announcements for distinct subscriptions with a hop left.\<close>

fun message_ok :: "nostr_lib \<Rightarrow> fips_message \<Rightarrow> bool" where
  "message_ok lib (FReq i fs) \<longleftrightarrow> True"
| "message_ok lib (FClose i) \<longleftrightarrow> True"
| "message_ok lib (FEvent i v) \<longleftrightarrow> verify lib (as_event v)"
| "message_ok lib (FOk i accepted message) \<longleftrightarrow> True"
| "message_ok lib (FInv ids i kind payload_bytes hop_limit) \<longleftrightarrow> ids \<noteq> [] \<and> distinct ids \<and> hop_limit \<noteq> 0"
| "message_ok lib (FWant i) \<longleftrightarrow> True"

definition client_shape :: "wire_lib \<Rightarrow> nostr_client_message \<Rightarrow> string \<Rightarrow> nat \<Rightarrow> bool" where
  "client_shape wl m tag n \<longleftrightarrow>
     (\<exists>args. json_parse wl (client_json wl m) = Some (JArr (JStr tag # args)) \<and> length args = n \<and>
        client_from_value wl (JArr (JStr tag # args)) = Some m)"

definition relay_shape :: "wire_lib \<Rightarrow> nostr_relay_message \<Rightarrow> string \<Rightarrow> nat \<Rightarrow> bool" where
  "relay_shape wl m tag n \<longleftrightarrow>
     (\<exists>args. json_parse wl (relay_json wl m) = Some (JArr (JStr tag # args)) \<and> length args = n \<and>
        relay_from_value wl (JArr (JStr tag # args)) = Some m)"

text \<open>
  The documented behaviour of the libraries on one message: the text of a \<open>nostr\<close> message parses to an array with its
  type and its fields, which reads back as the message; printed JSON parses back; an identifier's
  hexadecimal form reads back. Of a \<open>REQ\<close> without filters only the text is relied on, an array with the type and the
  identifier.
\<close>

definition req_text :: "wire_lib \<Rightarrow> string \<Rightarrow> bool" where
  "req_text wl i \<longleftrightarrow> json_parse wl (client_json wl (NReq i [])) = Some (JArr [JStr ''REQ'', JStr i])"

fun wire_law :: "nostr_lib \<Rightarrow> wire_lib \<Rightarrow> fips_message \<Rightarrow> bool" where
  "wire_law lib wl (FReq i fs) \<longleftrightarrow>
     (if fs = [] then req_text wl i else client_shape wl (NReq i fs) ''REQ'' (Suc (length fs)))"
| "wire_law lib wl (FClose i) \<longleftrightarrow> client_shape wl (NClose i) ''CLOSE'' 1"
| "wire_law lib wl (FEvent None v) \<longleftrightarrow> client_shape wl (NEvent (as_event v)) ''EVENT'' 1"
| "wire_law lib wl (FEvent (Some i) v) \<longleftrightarrow> relay_shape wl (NDeliver i (as_event v)) ''EVENT'' 2"
| "wire_law lib wl (FOk i accepted message) \<longleftrightarrow> relay_shape wl (NOk i accepted message) ''OK'' 3"
| "wire_law lib wl (FInv ids i kind payload_bytes hop_limit) \<longleftrightarrow>
     json_parse wl (json_print wl (inv_value lib ids i kind payload_bytes hop_limit)) =
       Some (inv_value lib ids i kind payload_bytes hop_limit) \<and> from_hex lib (to_hex lib i) = Some i"
| "wire_law lib wl (FWant i) \<longleftrightarrow>
     json_parse wl (json_print wl (want_value lib i)) = Some (want_value lib i) \<and> from_hex lib (to_hex lib i) = Some i"

lemma distinct_strings_map:
  "distinct ids \<Longrightarrow> set ids \<inter> set seen = {} \<Longrightarrow> distinct_strings seen (map JStr ids) = Inr ids"
  by (induction ids arbitrary: seen) auto

lemma distinct_strings_sound:
  "distinct_strings seen vs = Inr ids \<Longrightarrow> distinct ids \<and> set ids \<inter> set seen = {} \<and> length ids = length vs"
proof (induction seen vs arbitrary: ids rule: distinct_strings.induct)
  case (2 seen i vs)
  then obtain rest where "distinct_strings (i # seen) vs = Inr rest" "ids = i # rest" "i \<notin> set seen"
    by (cases "distinct_strings (i # seen) vs") (auto split: if_splits)
  then show ?case using 2 by auto
qed simp_all

lemma decode_unsigned_ucast:
  assumes "n < length items" and "items ! n = JUInt (ucast (x :: 'a::len word))" and "LENGTH('a) \<le> 64"
  shows "decode_unsigned items n name = Inr x"
proof -
  have "unat x < 2 ^ LENGTH('a)" by (rule unsigned_less)
  also have "\<dots> \<le> 2 ^ 64" using assms(3) by (intro power_increasing) simp_all
  finally have up: "unat (ucast x :: u64) = unat x" by (simp add: unsigned_ucast_eq take_bit_nat_eq_self)
  moreover have "ucast (ucast x :: u64) = x" by (simp add: word_unat_eq_iff unsigned_ucast_eq[of "ucast x :: u64"] up take_bit_nat_eq_self unsigned_less)
  ultimately show ?thesis using assms(1,2) by (simp add: decode_unsigned_def field_def)
qed

lemma decode_inv_value:
  assumes "from_hex lib (to_hex lib i) = Some i" and "ids \<noteq> []" and "distinct ids" and "hop_limit \<noteq> 0"
  shows "decode_inv lib [JStr ''INV'', JArr (map JStr ids), JStr (to_hex lib i), JUInt (ucast kind), JUInt (ucast payload_bytes),
    JUInt (ucast hop_limit)] = Inr (FInv ids i (kind :: u16) (payload_bytes :: u32) (hop_limit :: u8))"
    (is "decode_inv lib ?f = _")
proof -
  have "decode_subscription_ids ?f 1 = Inr ids"
    using assms(2,3) by (simp add: decode_subscription_ids_def field_def distinct_strings_map)
  moreover have "decode_event_id lib ?f 2 ''INV'' = Inr i" using assms(1) by (simp add: decode_event_id_def field_def)
  moreover have "decode_unsigned ?f 3 ''INV event kind'' = Inr kind" by (rule decode_unsigned_ucast) simp_all
  moreover have "decode_unsigned ?f 4 ''INV payload bytes'' = Inr payload_bytes" by (rule decode_unsigned_ucast) simp_all
  moreover have "decode_unsigned ?f 5 ''INV hop limit'' = Inr hop_limit" by (rule decode_unsigned_ucast) simp_all
  ultimately show ?thesis using assms(4) by (simp add: decode_inv_def)
qed

lemma decode_message_tags:
  "2 \<le> length args \<Longrightarrow> decode_message lib wl (JStr ''REQ'' # args) ''REQ'' = decode_req wl (JArr (JStr ''REQ'' # args))"
  "length args = 1 \<Longrightarrow> decode_message lib wl (JStr ''CLOSE'' # args) ''CLOSE'' = decode_close wl (JArr (JStr ''CLOSE'' # args))"
  "length args = 1 \<Longrightarrow> decode_message lib wl (JStr ''EVENT'' # args) ''EVENT'' = decode_published_event lib wl (JArr (JStr ''EVENT'' # args))"
  "length args = 2 \<Longrightarrow> decode_message lib wl (JStr ''EVENT'' # args) ''EVENT'' = decode_delivered_event lib wl (JArr (JStr ''EVENT'' # args))"
  "length args = 3 \<Longrightarrow> decode_message lib wl (JStr ''OK'' # args) ''OK'' = decode_ok wl (JArr (JStr ''OK'' # args))"
  "length args = 5 \<Longrightarrow> decode_message lib wl (JStr ''INV'' # args) ''INV'' = decode_inv lib (JStr ''INV'' # args)"
  "length args = 1 \<Longrightarrow> decode_message lib wl (JStr ''WANT'' # args) ''WANT'' = decode_want lib (JStr ''WANT'' # args)"
  by (simp_all add: decode_message_def Let_def)

text \<open>What the law of a message gives: its text parses to a tagged array, which decodes to the message.\<close>

definition reads_back :: "nostr_lib \<Rightarrow> wire_lib \<Rightarrow> fips_message \<Rightarrow> bool" where
  "reads_back lib wl m \<longleftrightarrow>
     (\<exists>items tag. json_parse wl (message_json lib wl m) = Some (JArr (JStr tag # items)) \<and>
        decode_message lib wl (JStr tag # items) tag = Inr m)"

lemma client_reads_back:
  assumes "client_shape wl c tag n" and "message_json lib wl m = client_json wl c"
    and "\<And>args. length args = n \<Longrightarrow> client_from_value wl (JArr (JStr tag # args)) = Some c \<Longrightarrow>
      decode_message lib wl (JStr tag # args) tag = Inr m"
  shows "reads_back lib wl m"
  using assms unfolding client_shape_def reads_back_def by metis

lemma relay_reads_back:
  assumes "relay_shape wl c tag n" and "message_json lib wl m = relay_json wl c"
    and "\<And>args. length args = n \<Longrightarrow> relay_from_value wl (JArr (JStr tag # args)) = Some c \<Longrightarrow>
      decode_message lib wl (JStr tag # args) tag = Inr m"
  shows "reads_back lib wl m"
  using assms unfolding relay_shape_def reads_back_def by metis

text \<open>
  The messages the decoder takes back: requests with a filter, events that verify, and announcements for distinct
  subscriptions, at least one, with a hop left.
\<close>

definition decodable :: "nostr_lib \<Rightarrow> fips_message \<Rightarrow> bool" where
  "decodable lib m \<longleftrightarrow>
     (case m of
        FReq i fs \<Rightarrow> fs \<noteq> []
      | FEvent i v \<Rightarrow> verify lib (as_event v)
      | FInv ids i kind payload_bytes hop_limit \<Rightarrow> ids \<noteq> [] \<and> distinct ids \<and> hop_limit \<noteq> 0
      | _ \<Rightarrow> True)"

lemma decodable_simps [simp]:
  "decodable lib (FReq i fs) \<longleftrightarrow> fs \<noteq> []" "decodable lib (FClose i)" "decodable lib (FEvent sid v) \<longleftrightarrow> verify lib (as_event v)"
  "decodable lib (FOk j accepted message)" "decodable lib (FWant j)"
  "decodable lib (FInv ids j kind payload_bytes hop_limit) \<longleftrightarrow> ids \<noteq> [] \<and> distinct ids \<and> hop_limit \<noteq> 0"
  by (simp_all add: decodable_def)

lemma decode_message_roundtrip:
  assumes "decodable lib m" and "wire_law lib wl m"
  shows "reads_back lib wl m"
proof (cases m)
  case (FReq i fs)
  then show ?thesis
    using assms by (intro client_reads_back[of wl "NReq i fs" "''REQ''" "Suc (length fs)"])
      (auto simp: decode_message_tags decode_req_def Suc_le_eq)
next
  case (FClose i)
  then show ?thesis
    using assms by (intro client_reads_back[of wl "NClose i" "''CLOSE''" 1]) (auto simp: decode_message_tags decode_close_def)
next
  case (FEvent sid v)
  have v: "try_from_event lib (as_event v) = Inr v" using assms(1) FEvent by (simp add: try_from_event_def)
  show ?thesis
  proof (cases sid)
    case None
    then show ?thesis
      using assms FEvent v by (intro client_reads_back[of wl "NEvent (as_event v)" "''EVENT''" 1])
        (auto simp: decode_message_tags decode_published_event_def)
  next
    case (Some i)
    then show ?thesis
      using assms FEvent v by (intro relay_reads_back[of wl "NDeliver i (as_event v)" "''EVENT''" 2])
        (auto simp: decode_message_tags decode_delivered_event_def)
  qed
next
  case (FOk i accepted message)
  then show ?thesis
    using assms by (intro relay_reads_back[of wl "NOk i accepted message" "''OK''" 3])
      (auto simp: decode_message_tags decode_ok_def)
next
  case (FInv ids i kind payload_bytes hop_limit)
  then show ?thesis
    using assms decode_inv_value[of lib i ids hop_limit kind payload_bytes]
    unfolding reads_back_def
    by (intro exI[of _ "[JArr (map JStr ids), JStr (to_hex lib i), JUInt (ucast kind), JUInt (ucast payload_bytes),
        JUInt (ucast hop_limit)]"] exI[of _ "''INV''"]) (simp add: inv_value_def decode_message_tags)
next
  case (FWant i)
  then show ?thesis
    using assms unfolding reads_back_def
    by (intro exI[of _ "[JStr (to_hex lib i)]"] exI[of _ "''WANT''"])
      (simp add: want_value_def decode_message_tags decode_want_def decode_event_id_def field_def)
qed

text \<open>The other messages are encoded too, but their frames are refused.\<close>

lemma distinct_strings_refuses:
  "\<not> (distinct ids \<and> set ids \<inter> set seen = {}) \<Longrightarrow> \<exists>err. distinct_strings seen (map JStr ids) = Inl err"
proof (induction ids arbitrary: seen)
  case (Cons i ids)
  show ?case
  proof (cases "i \<in> set seen")
    case False
    then obtain err where "distinct_strings (i # seen) (map JStr ids) = Inl err" using Cons.IH[of "i # seen"] Cons.prems by auto
    then show ?thesis using False by simp
  qed simp
qed simp

lemma decode_inv_refuses:
  assumes "\<not> (ids \<noteq> [] \<and> distinct ids \<and> hop_limit \<noteq> 0)"
  shows "\<exists>err. decode_inv lib [JStr ''INV'', JArr (map JStr ids), JStr (to_hex lib i), JUInt (ucast kind), JUInt (ucast payload_bytes),
    JUInt (ucast (hop_limit :: u8))] = Inl err"
    (is "\<exists>err. decode_inv lib ?f = Inl err")
proof (cases "ids \<noteq> [] \<and> distinct ids")
  case True
  then have "decode_unsigned ?f 5 ''INV hop limit'' = Inr (0 :: u8)" using assms by (intro decode_unsigned_ucast) auto
  then show ?thesis by (auto simp: decode_inv_def split: sum.split)
next
  case False
  then have "\<exists>err. decode_subscription_ids ?f 1 = Inl err"
    using distinct_strings_refuses[of ids "[]"] by (auto simp: decode_subscription_ids_def field_def)
  then show ?thesis by (auto simp: decode_inv_def)
qed

lemma decode_event_refuses:
  assumes "\<not> verify lib (as_event v)" and "wire_law lib wl (FEvent sid v)"
  shows "\<exists>items tag err. json_parse wl (message_json lib wl (FEvent sid v)) = Some (JArr (JStr tag # items)) \<and>
    decode_message lib wl (JStr tag # items) tag = Inl err"
proof -
  have v: "\<exists>err. try_from_event lib (as_event v) = Inl err" using assms(1) by (simp add: try_from_event_def)
  show ?thesis
  proof (cases sid)
    case None
    then obtain args where "json_parse wl (message_json lib wl (FEvent sid v)) = Some (JArr (JStr ''EVENT'' # args))" "length args = 1"
        "client_from_value wl (JArr (JStr ''EVENT'' # args)) = Some (NEvent (as_event v))"
      using assms(2) by (auto simp: client_shape_def)
    then show ?thesis using v by (auto simp: decode_message_tags decode_published_event_def)
  next
    case (Some i)
    then obtain args where "json_parse wl (message_json lib wl (FEvent sid v)) = Some (JArr (JStr ''EVENT'' # args))" "length args = 2"
        "relay_from_value wl (JArr (JStr ''EVENT'' # args)) = Some (NDeliver i (as_event v))"
      using assms(2) by (auto simp: relay_shape_def)
    then show ?thesis using v by (auto simp: decode_message_tags decode_delivered_event_def)
  qed
qed

lemma decode_message_refuses:
  assumes "\<not> decodable lib m" and "wire_law lib wl m"
  shows "\<exists>items tag err. json_parse wl (message_json lib wl m) = Some (JArr (JStr tag # items)) \<and>
    decode_message lib wl (JStr tag # items) tag = Inl err"
proof (cases m)
  case (FReq i fs)
  then show ?thesis
    using assms by (auto simp: req_text_def decode_message_def Let_def)
next
  case (FEvent sid v)
  then show ?thesis using assms decode_event_refuses by auto
next
  case (FInv ids i kind payload_bytes hop_limit)
  then show ?thesis
    using assms decode_inv_refuses[of ids hop_limit lib i kind payload_bytes]
    by (intro exI[of _ "[JArr (map JStr ids), JStr (to_hex lib i), JUInt (ucast kind), JUInt (ucast payload_bytes),
        JUInt (ucast hop_limit)]"] exI[of _ "''INV''"]) (auto simp: inv_value_def decode_message_tags)
qed (use assms in simp_all)

text \<open>
  C30: which frames round trip. Every message whose text is within the size limit is encoded. Its frame decodes to the
  very message if it is a request with at least one filter, a verified event with or without a subscription, an
  announcement for a non-empty list of distinct subscriptions with a positive hop limit, or any
  \<open>CLOSE\<close>, \<open>OK\<close> or \<open>WANT\<close>, for any kind, size and hop values at their width; the decoder refuses the frame
  of every other message, a \<open>REQ\<close> without filters and an \<open>INV\<close> without subscriptions, with a repeated one or
  with the hop limit zero, although the encoder writes it.
\<close>

theorem wire_roundtrip:
  assumes "wire_law lib wl m" and "json_parse wl [] = None" and "length (message_json lib wl m) \<le> max_frame_bytes codec"
  shows "\<exists>frame. encode_frame lib wl codec m = Inr frame \<and>
    (if case m of
          FReq i fs \<Rightarrow> fs \<noteq> []
        | FEvent i v \<Rightarrow> verify lib (as_event v)
        | FInv ids i kind payload_bytes hop_limit \<Rightarrow> ids \<noteq> [] \<and> distinct ids \<and> hop_limit \<noteq> 0
        | _ \<Rightarrow> True
     then decode_frame lib wl codec frame = Inr m
     else \<exists>err. decode_frame lib wl codec frame = Inl err)"
proof -
  let ?frame = "message_json lib wl m"
  have size: "check_frame_size codec (length ?frame) = None" using assms(3) by (simp add: check_frame_size_def)
  then have enc: "encode_frame lib wl codec m = Inr ?frame" by (simp add: encode_frame_def)
  have dec: "decode_frame lib wl codec ?frame = decode_message lib wl (JStr tag # items) tag"
    if "json_parse wl ?frame = Some (JArr (JStr tag # items))" for items tag
  proof -
    have "?frame \<noteq> []" using that assms(2) by auto
    then show ?thesis using size that by (simp add: decode_frame_def)
  qed
  have "if decodable lib m then decode_frame lib wl codec ?frame = Inr m else \<exists>err. decode_frame lib wl codec ?frame = Inl err"
    using decode_message_roundtrip[of lib m wl] decode_message_refuses[of lib m wl] assms(1) dec
    unfolding reads_back_def by auto
  then show ?thesis using enc unfolding decodable_def by blast
qed

lemma decode_event_ok:
  "decode_published_event lib wl value = Inr m \<Longrightarrow> message_ok lib m"
  "decode_delivered_event lib wl value = Inr m \<Longrightarrow> message_ok lib m"
  by (auto simp: decode_published_event_def decode_delivered_event_def try_from_event_def
      split: if_splits option.splits nostr_client_message.splits nostr_relay_message.splits)

lemma decode_subscription_ids_ok: "decode_subscription_ids items n = Inr ids \<Longrightarrow> ids \<noteq> [] \<and> distinct ids"
  by (auto simp: decode_subscription_ids_def dest: distinct_strings_sound split: option.splits jvalue.splits if_splits)

lemma decode_plain_ok:
  "decode_req wl value = Inr m \<Longrightarrow> message_ok lib m" "decode_close wl value = Inr m \<Longrightarrow> message_ok lib m"
  "decode_ok wl value = Inr m \<Longrightarrow> message_ok lib m" "decode_inv lib items = Inr m \<Longrightarrow> message_ok lib m"
  "decode_want lib items = Inr m \<Longrightarrow> message_ok lib m"
  by (auto simp: decode_req_def decode_close_def decode_ok_def decode_inv_def decode_want_def map_sum_def
      dest: decode_subscription_ids_ok
      split: if_splits option.splits nostr_client_message.splits nostr_relay_message.splits sum.splits)

lemma decode_message_ok: "decode_message lib wl items tag = Inr m \<Longrightarrow> message_ok lib m"
  unfolding decode_message_def Let_def by (auto dest: decode_event_ok decode_plain_ok split: if_split_asm)

section \<open>Inbound frames\<close>

datatype adapter_op = AFrame source_id bytes | ADisconnect source_id

fun adapter_apply :: "nostr_lib \<Rightarrow> wire_lib \<Rightarrow> sub_json \<Rightarrow> adapter_op \<Rightarrow> wire_adapter \<Rightarrow> wire_adapter option" where
  "adapter_apply lib wl js (AFrame p frame) a = map_option snd (decode_inbound lib wl js p frame a)"
| "adapter_apply lib wl js (ADisconnect p) a = map_option snd (disconnect_peer js p a)"

fun adapter_run :: "nostr_lib \<Rightarrow> wire_lib \<Rightarrow> sub_json \<Rightarrow> adapter_op list \<Rightarrow> wire_adapter \<Rightarrow> wire_adapter option" where
  "adapter_run lib wl js [] a = Some a"
| "adapter_run lib wl js (x # xs) a =
     (case adapter_apply lib wl js x a of None \<Rightarrow> None | Some a' \<Rightarrow> adapter_run lib wl js xs a')"

lemma decode_inbound_ok:
  assumes ok: "store_ok js (wa_subscriptions a)"
  shows "\<exists>r a'. decode_inbound lib wl js p frame a = Some (r, a') \<and> wa_codec a' = wa_codec a \<and>
    store_ok js (wa_subscriptions a') \<and> st_limits (wa_subscriptions a') = st_limits (wa_subscriptions a) \<and>
    (\<forall>err. r = Inl err \<longrightarrow> a' = a) \<and>
    (\<forall>inb. r = Inr inb \<longrightarrow> decode_frame lib wl (wa_codec a) frame = Inr (in_message inb) \<and>
       (\<forall>i fs. in_message inb = FReq i fs \<longrightarrow>
          get_subscription (wa_subscriptions a') p i = Some \<lparr>sub_id = i, sub_filters = fs\<rparr>))"
proof (cases "decode_frame lib wl (wa_codec a) frame")
  case (Inl err)
  then show ?thesis using ok by (simp add: decode_inbound_def)
next
  case (Inr m)
  show ?thesis
  proof (cases m)
    case (FReq i fs)
    obtain res st' where u: "upsert js p \<lparr>sub_id = i, sub_filters = fs\<rparr> (wa_subscriptions a) = Some (res, st')"
      "store_ok js st'" "st_limits st' = st_limits (wa_subscriptions a)"
      "\<forall>x. res = Inr x \<longrightarrow> get_subscription st' p i = Some \<lparr>sub_id = i, sub_filters = fs\<rparr>" "\<forall>err. res = Inl err \<longrightarrow> st' = wa_subscriptions a"
      using upsert_ok[OF ok, of p "\<lparr>sub_id = i, sub_filters = fs\<rparr>"] by auto
    then show ?thesis using Inr FReq by (cases res; cases a) (auto simp: decode_inbound_def)
  next
    case (FClose i)
    then show ?thesis using Inr remove_ok[OF ok, of p i] by (auto simp: decode_inbound_def)
  qed (use ok Inr in \<open>auto simp: decode_inbound_def\<close>)
qed

lemma adapter_run_ok:
  "store_ok js (wa_subscriptions a) \<Longrightarrow>
     \<exists>a'. adapter_run lib wl js xs a = Some a' \<and> store_ok js (wa_subscriptions a') \<and>
       st_limits (wa_subscriptions a') = st_limits (wa_subscriptions a) \<and> wa_codec a' = wa_codec a"
proof (induction xs arbitrary: a)
  case (Cons x xs)
  have "\<exists>a1. adapter_apply lib wl js x a = Some a1 \<and> store_ok js (wa_subscriptions a1) \<and>
      st_limits (wa_subscriptions a1) = st_limits (wa_subscriptions a) \<and> wa_codec a1 = wa_codec a"
  proof (cases x)
    case (AFrame p frame)
    then show ?thesis using decode_inbound_ok[OF Cons.prems, of lib wl p frame] by auto
  next
    case (ADisconnect p)
    then show ?thesis using remove_peer_store_ok[OF Cons.prems, of p] by (auto simp: disconnect_peer_def)
  qed
  then show ?case using Cons.IH by fastforce
qed simp

text \<open>
  C31: whatever bytes peers send and whenever they disconnect, the adapter never panics and its subscription store stays
  within its limits. An accepted frame is no longer than the limit and carries a message in order: events are
  verified, announcements name distinct subscriptions and a positive hop limit; an accepted request is in force; and a
  refused frame leaves the adapter unchanged.
\<close>

theorem inbound_frames_safe:
  assumes "adapter_run lib wl js ops (adapter_new codec (store_new limits)) = r"
  shows "\<exists>a res a'. r = Some a \<and> length (st_peers (wa_subscriptions a)) \<le> max_peers limits \<and>
    list_all (\<lambda>(q, s). length (ss_subscriptions s) \<le> max_subscriptions_per_peer limits) (st_peers (wa_subscriptions a)) \<and>
    decode_inbound lib wl js p frame a = Some (res, a') \<and>
    (case res of
       Inl err \<Rightarrow> a' = a
     | Inr inb \<Rightarrow> length frame \<le> max_frame_bytes codec \<and> message_ok lib (in_message inb) \<and>
         (case in_message inb of
            FReq i fs \<Rightarrow> get_subscription (wa_subscriptions a') p i = Some \<lparr>sub_id = i, sub_filters = fs\<rparr>
          | _ \<Rightarrow> True))"
proof -
  obtain a where a: "r = Some a" "store_ok js (wa_subscriptions a)" "st_limits (wa_subscriptions a) = limits" "wa_codec a = codec"
    using adapter_run_ok[of js "adapter_new codec (store_new limits)" lib wl ops] store_ok_new[of js limits] assms
    by (auto simp: adapter_new_def store_new_def)
  obtain res a' where d: "decode_inbound lib wl js p frame a = Some (res, a')" "\<forall>err. res = Inl err \<longrightarrow> a' = a"
    "\<forall>inb. res = Inr inb \<longrightarrow> decode_frame lib wl codec frame = Inr (in_message inb) \<and>
       (\<forall>i fs. in_message inb = FReq i fs \<longrightarrow>
          get_subscription (wa_subscriptions a') p i = Some \<lparr>sub_id = i, sub_filters = fs\<rparr>)"
    using decode_inbound_ok[OF a(2), of lib wl p frame] a(4) by auto
  have sound: "length frame \<le> max_frame_bytes codec \<and> message_ok lib m" if "decode_frame lib wl codec frame = Inr m" for m
    using that decode_message_ok
    by (auto simp: decode_frame_def check_frame_size_def split: if_splits option.splits jvalue.splits list.splits)
  have "case res of
       Inl err \<Rightarrow> a' = a
     | Inr inb \<Rightarrow> length frame \<le> max_frame_bytes codec \<and> message_ok lib (in_message inb) \<and>
         (case in_message inb of
            FReq i fs \<Rightarrow> get_subscription (wa_subscriptions a') p i = Some \<lparr>sub_id = i, sub_filters = fs\<rparr>
          | _ \<Rightarrow> True)"
    using d(2,3) sound by (auto split: sum.split fips_message.split)
  moreover have "list_all (\<lambda>(q, s). length (ss_subscriptions s) \<le> max_subscriptions_per_peer limits) (st_peers (wa_subscriptions a))"
    using a(2,3) unfolding list_all_iff store_ok_def set_ok_def by blast
  moreover have "length (st_peers (wa_subscriptions a)) \<le> max_peers limits" using a(2,3) by (simp add: store_ok_def)
  ultimately show ?thesis using a(1) d(1) by blast
qed

section \<open>Instances\<close>

definition hex_lib :: nostr_lib where
  "hex_lib = demo_lib\<lparr>from_hex := (\<lambda>s. if s = to_hex demo_lib 7 then Some 7 else None)\<rparr>"

text \<open>A library that knows nine texts, one for each kind of message and two the decoder refuses.\<close>

definition demo_texts :: "(jvalue \<times> bytes) list" where
  "demo_texts = [
     (inv_value hex_lib [''s''] 7 1 100 16, [1]),
     (inv_value hex_lib [''s''] 7 1 100 0, [2]),
     (want_value hex_lib 7, [3]),
     (JArr [JStr ''REQ'', JStr ''s'', JNull], [4]),
     (JArr [JStr ''REQ'', JStr ''s''], [5]),
     (JArr [JStr ''CLOSE'', JStr ''s''], [6]),
     (JArr [JStr ''EVENT'', JNull], [7]),
     (JArr [JStr ''EVENT'', JStr ''s'', JNull], [8]),
     (JArr [JStr ''OK'', JStr ''7'', JBool True, JStr '' ''], [9])]"

definition text_lib :: wire_lib where
  "text_lib = \<lparr>
     json_parse = map_of (map (\<lambda>(v, b). (b, v)) demo_texts),
     json_print = (\<lambda>v. case map_of demo_texts v of Some b \<Rightarrow> b | None \<Rightarrow> [0]),
     client_json = (\<lambda>m. case m of NReq i fs \<Rightarrow> if fs = [] then [5] else [4] | NClose i \<Rightarrow> [6] | NEvent e \<Rightarrow> [7] | _ \<Rightarrow> [0]),
     client_from_value = map_of [
       (JArr [JStr ''REQ'', JStr ''s'', JNull], NReq ''s'' [filter_new]),
       (JArr [JStr ''CLOSE'', JStr ''s''], NClose ''s''),
       (JArr [JStr ''EVENT'', JNull], NEvent (demo_event 7 1 4))],
     relay_json = (\<lambda>m. case m of NDeliver i e \<Rightarrow> [8] | NOk i a t \<Rightarrow> [9] | _ \<Rightarrow> [0]),
     relay_from_value = map_of [
       (JArr [JStr ''EVENT'', JStr ''s'', JNull], NDeliver ''s'' (demo_event 7 1 4)),
       (JArr [JStr ''OK'', JStr ''7'', JBool True, JStr '' ''], NOk 7 True '' '')]\<rparr>"

abbreviation demo_messages :: "fips_message list" where
  "demo_messages \<equiv> [FInv [''s''] 7 1 100 16, FWant 7, FReq ''s'' [filter_new], FClose ''s'',
     FEvent None (VerifiedEvent (demo_event 7 1 4)), FEvent (Some ''s'') (VerifiedEvent (demo_event 7 1 4)), FOk 7 True '' '']"

abbreviation refused_messages :: "fips_message list" where
  "refused_messages \<equiv> [FInv [''s''] 7 1 100 0, FReq ''s'' []]"

lemma text_law: "list_all (wire_law hex_lib text_lib) (demo_messages @ refused_messages)"
  by (simp add: text_lib_def demo_texts_def hex_lib_def client_shape_def relay_shape_def req_text_def
      inv_value_def want_value_def)

lemma text_short: "length (message_json hex_lib text_lib m) \<le> max_frame_bytes wire_codec_default"
proof -
  have "length (json_print text_lib v) = 1" for v
    by (auto simp: text_lib_def demo_texts_def split: option.split dest!: map_of_SomeD)
  then show ?thesis
    by (cases "(hex_lib, text_lib, m)" rule: message_json.cases)
      (auto simp: text_lib_def wire_codec_default_def DEFAULT_FIPS_PUBSUB_MAX_FRAME_BYTES_def)
qed

theorem wire_roundtrip_witness:
  "list_all (\<lambda>m. \<exists>frame. encode_frame hex_lib text_lib wire_codec_default m = Inr frame \<and>
      decode_frame hex_lib text_lib wire_codec_default frame = Inr m) demo_messages \<and>
   list_all (\<lambda>m. \<exists>frame err. encode_frame hex_lib text_lib wire_codec_default m = Inr frame \<and>
      decode_frame hex_lib text_lib wire_codec_default frame = Inl err) refused_messages"
proof -
  have empty: "json_parse text_lib [] = None" by (simp add: text_lib_def demo_texts_def)
  have verified: "verify hex_lib (demo_event 7 1 4)" using demo_event_verifies by (simp add: hex_lib_def)
  note trip = wire_roundtrip[OF _ empty text_short]
  have law: "wire_law hex_lib text_lib m" if "m \<in> set (demo_messages @ refused_messages)" for m
    using text_law that unfolding list_all_iff by (rule bspec)
  have "\<exists>frame. encode_frame hex_lib text_lib wire_codec_default m = Inr frame \<and>
      decode_frame hex_lib text_lib wire_codec_default frame = Inr m" if m: "m \<in> set demo_messages" for m
  proof -
    have "m \<in> set (demo_messages @ refused_messages)" using m by auto
    from trip[OF law[OF this]] show ?thesis using m verified by auto
  qed
  moreover have "\<exists>frame err. encode_frame hex_lib text_lib wire_codec_default m = Inr frame \<and>
      decode_frame hex_lib text_lib wire_codec_default frame = Inl err" if m: "m \<in> set refused_messages" for m
  proof -
    have "m \<in> set (demo_messages @ refused_messages)" using m by auto
    from trip[OF law[OF this]] show ?thesis using m by auto
  qed
  ultimately show ?thesis unfolding list_all_iff by blast
qed

theorem inbound_frames_safe_witness:
  "\<exists>a res a'. adapter_run hex_lib text_lib demo_js [AFrame ''p'' [2], ADisconnect ''p''] (adapter_new wire_codec_default (store_new default_limits)) = Some a \<and>
     decode_inbound hex_lib text_lib demo_js ''p'' [1] a = Some (res, a')"
  using inbound_frames_safe[OF refl, of hex_lib text_lib demo_js "[AFrame ''p'' [2], ADisconnect ''p'']" wire_codec_default default_limits
    "''p''" "[1]"] by blast

end
