(* ===== verification/Privacy_Roles.thy ===== *)
theory Privacy_Roles
  imports Wire
begin

text \<open>
  The privacy roles of a FIPS client, \<open>crates/nostr-pubsub-fips/src/privacy_roles.rs\<close>: which filters a client may subscribe to and which events it
  may export. The JSON form of a filter (\<open>serde_json::to_value\<close>), the hexadecimal form of a public key and the
  advertisement filter of \<open>fips_core\<close> are the parameter \<open>role_lib\<close>. The result of a check is \<open>None\<close> or its error.
\<close>

section \<open>Parameters\<close>

record role_lib =
  filter_value :: "filter \<Rightarrow> jvalue option"
  key_hex :: "pubkey \<Rightarrow> string"
  key_from_hex :: "string \<Rightarrow> pubkey option"
  peerfinding_filter :: filter

fun jget :: "string \<Rightarrow> jvalue \<Rightarrow> jvalue option" where
  "jget k (JObj members) = map_of members k"
| "jget k v = None"

fun jarray :: "jvalue \<Rightarrow> jvalue list option" where
  "jarray (JArr vs) = Some vs"
| "jarray v = None"

fun jstr :: "jvalue \<Rightarrow> string option" where
  "jstr (JStr s) = Some s"
| "jstr v = None"

abbreviation array_member :: "string \<Rightarrow> jvalue \<Rightarrow> jvalue list option" where
  "array_member k v \<equiv> Option.bind (jget k v) jarray"

definition invalid_option :: "string \<Rightarrow> pubsub_error" where
  "invalid_option message = Validation (''invalid FIPS pubsub client option: '' @ message)"

section \<open>Discovery\<close>

datatype discovery_scope = ScopeAuthor pubkey | ScopeDevice pubkey

fun scope_kind :: "discovery_scope \<Rightarrow> u16 \<Rightarrow> bool" where
  "scope_kind (ScopeAuthor _) kind \<longleftrightarrow> kind \<in> {0, 1059, 10002, 10050, 30078, 37368, 37195}"
| "scope_kind (ScopeDevice _) kind \<longleftrightarrow> kind = 37368"

fun scope_fields :: "discovery_scope \<Rightarrow> string \<times> string \<times> pubkey" where
  "scope_fields (ScopeAuthor key) = (''authors'', ''#p'', key)"
| "scope_fields (ScopeDevice key) = (''#p'', ''authors'', key)"

definition starts_with :: "string \<Rightarrow> string \<Rightarrow> bool" where
  "starts_with p s \<longleftrightarrow> take (length p) s = p"

definition group_roster :: "jvalue \<Rightarrow> bool" where
  "group_roster value \<longleftrightarrow>
     (case array_member ''#type'' value of None \<Rightarrow> False | Some vs \<Rightarrow> list_ex (\<lambda>v. jstr v = Some ''group_roster'') vs) \<or>
     (case array_member ''#d'' value of
        None \<Rightarrow> False
      | Some vs \<Rightarrow> list_ex (\<lambda>v. case jstr v of None \<Rightarrow> False | Some s \<Rightarrow> starts_with ''group_roster'' s) vs)"

definition scope_validate :: "role_lib \<Rightarrow> discovery_scope \<Rightarrow> filter \<Rightarrow> pubsub_error option" where
  "scope_validate rl scope f =
     (case filter_value rl f of
        None \<Rightarrow> Some (Storage ''encode filter'')
      | Some value \<Rightarrow>
          (case scope_fields scope of
             (member, forbidden, key) \<Rightarrow>
               let valid_key = (case array_member member value of Some [k] \<Rightarrow> jstr k = Some (key_hex rl key) | _ \<Rightarrow> False);
                   allowed = (case f_kinds f of None \<Rightarrow> False | Some kinds \<Rightarrow> kinds \<noteq> [] \<and> list_all (scope_kind scope) kinds)
               in if \<not> valid_key \<or> \<not> allowed \<or> jget forbidden value \<noteq> None \<or> group_roster value
                  then Some (invalid_option ''discovery filter crosses its single public subject'') else None))"

definition scope_from_filter :: "role_lib \<Rightarrow> filter \<Rightarrow> pubsub_error + discovery_scope" where
  "scope_from_filter rl f =
     (case filter_value rl f of
        None \<Rightarrow> Inl (Storage ''encode filter'')
      | Some value \<Rightarrow>
          (case (case (array_member ''authors'' value, array_member ''#p'' value) of
                   (Some [k], None) \<Rightarrow> Some (True, k)
                 | (None, Some [k]) \<Rightarrow> Some (False, k)
                 | _ \<Rightarrow> None) of
             None \<Rightarrow> Inl (invalid_option ''discovery requires exactly one author or AppKeys device'')
           | Some (author, k) \<Rightarrow>
               (case key_from_hex rl (case jstr k of None \<Rightarrow> [] | Some s \<Rightarrow> s) of
                  None \<Rightarrow> Inl (invalid_option ''invalid discovery key'')
                | Some key \<Rightarrow>
                    let scope = (if author then ScopeAuthor key else ScopeDevice key)
                    in case scope_validate rl scope f of Some err \<Rightarrow> Inl err | None \<Rightarrow> Inr scope)))"

section \<open>Roles\<close>

datatype client_role = RoleFull | RoleReceiver "pubkey list" | RoleDiscovery discovery_scope | RolePublisher

definition is_private :: "u16 \<Rightarrow> bool" where
  "is_private kind \<longleftrightarrow> kind \<in> {1059, 1060, 21111}"

fun advertises :: "client_role \<Rightarrow> bool" where
  "advertises RoleFull \<longleftrightarrow> True"
| "advertises role \<longleftrightarrow> False"

text \<open>The condition on one kind of a receiver's filter.\<close>

definition receiver_kind :: "pubkey list \<Rightarrow> filter \<Rightarrow> jvalue \<Rightarrow> u16 \<Rightarrow> bool" where
  "receiver_kind public_authors f value kind \<longleftrightarrow>
     (let explicitly_public = (case f_authors f of None \<Rightarrow> False | Some authors \<Rightarrow> authors \<noteq> [] \<and> list_all (\<lambda>a. a \<in> set public_authors) authors)
      in if is_private kind then jget ''#p'' value \<noteq> None \<or> (case f_authors f of None \<Rightarrow> False | Some authors \<Rightarrow> authors \<noteq> [])
         else if kind \<in> {30078, 37368} then explicitly_public
         else if kind \<in> {0, 10002, 10050, 37195} then explicitly_public \<or> (f_authors f = None \<and> jget ''#p'' value = None)
         else f_authors f = None \<or> explicitly_public)"

definition not_allowed :: pubsub_error where
  "not_allowed = invalid_option ''subscription is not allowed on this FIPS privacy role''"

fun role_allows :: "role_lib \<Rightarrow> client_role \<Rightarrow> filter \<Rightarrow> pubsub_error option" where
  "role_allows rl RoleFull f = None"
| "role_allows rl RolePublisher f = Some not_allowed"
| "role_allows rl (RoleDiscovery scope) f = scope_validate rl scope f"
| "role_allows rl (RoleReceiver public_authors) f =
     (case filter_value rl f of
        None \<Rightarrow> Some (Storage ''encode filter'')
      | Some value \<Rightarrow>
          (case f_kinds f of
             None \<Rightarrow> Some not_allowed
           | Some kinds \<Rightarrow>
               if kinds \<noteq> [] \<and> list_all (receiver_kind public_authors f value) kinds then None else Some not_allowed))"

fun validate_filters :: "role_lib \<Rightarrow> client_role \<Rightarrow> filter list \<Rightarrow> pubsub_error option" where
  "validate_filters rl role [] = None"
| "validate_filters rl role (f # fs) =
     (if f\<lparr>f_limit := None\<rparr> = peerfinding_filter rl then validate_filters rl role fs
      else case role_allows rl role f of Some err \<Rightarrow> Some err | None \<Rightarrow> validate_filters rl role fs)"

fun can_export :: "client_role \<Rightarrow> verified_event \<Rightarrow> bool" where
  "can_export RoleFull v \<longleftrightarrow> True"
| "can_export (RoleReceiver authors) v \<longleftrightarrow> \<not> is_private (ev_kind (as_event v)) \<and> ev_pubkey (as_event v) \<in> set authors"
| "can_export (RoleDiscovery _) v \<longleftrightarrow> False"
| "can_export RolePublisher v \<longleftrightarrow> False"

definition validate_publication :: "client_role \<Rightarrow> verified_event \<Rightarrow> pubsub_error option" where
  "validate_publication role v =
     (if can_export role v then None else Some (invalid_option ''publication is not allowed on this FIPS privacy role''))"

section \<open>Properties of the checks\<close>

lemma validate_filters_iff:
  "validate_filters rl role fs = None \<longleftrightarrow>
     (\<forall>f\<in>set fs. f\<lparr>f_limit := None\<rparr> = peerfinding_filter rl \<or> role_allows rl role f = None)"
  by (induction fs) (auto split: option.split)

text \<open>A scope that was read from a filter accepts the filter.\<close>

lemma scope_from_filter_valid: "scope_from_filter rl f = Inr scope \<Longrightarrow> scope_validate rl scope f = None"
  by (auto simp: scope_from_filter_def Let_def split: option.splits list.splits prod.splits if_splits)

end
