(* ===== verification/Client_Peers.thy ===== *)
theory Client_Peers
  imports Privacy_Roles Mesh_Peers
begin

text \<open>
  The options of a FIPS client (\<open>crates/nostr-pubsub-fips/src/lib.rs\<close>) and its choice of peers (\<open>client_peers.rs\<close>): the check of the explicitly
  routed peers, the ranking by a policy, the bounded roster of connections, and the bounded set of
  peers an event is announced to. A \<open>PeerIdentity\<close> of \<open>fips_core\<close> is its canonical name, \<open>from_npub\<close> its parser; the values of
  \<open>DefaultHasher\<close> are a parameter. A failed \<open>expect\<close> is \<open>None\<close>. A \<open>Duration\<close> is its number of nanoseconds.
\<close>

section \<open>Options\<close>

definition FIPS_NOSTR_PUBSUB_MAX_FRAME_BYTES :: nat where "FIPS_NOSTR_PUBSUB_MAX_FRAME_BYTES = 65535 - 10"

record client_options =
  op_query_timeout :: nat
  op_max_frame_bytes :: nat
  op_max_connected_peers :: nat
  op_routed_peers :: "string list"
  op_max_inbound_routed_peers :: nat
  op_accept_anonymous_publications :: bool
  op_fanout :: nat
  op_max_active_subscriptions :: nat
  op_max_filters_per_subscription :: nat
  op_max_replay_events :: nat
  op_receive_batch_size :: nat
  op_max_hops :: u8

definition client_options_default :: client_options where
  "client_options_default =
     \<lparr>op_query_timeout = 500000000, op_max_frame_bytes = FIPS_NOSTR_PUBSUB_MAX_FRAME_BYTES, op_max_connected_peers = 64, op_routed_peers = [],
      op_max_inbound_routed_peers = 0, op_accept_anonymous_publications = False, op_fanout = 8, op_max_active_subscriptions = 64,
      op_max_filters_per_subscription = 4, op_max_replay_events = 8, op_receive_batch_size = 64, op_max_hops = 4\<rparr>"

definition outbound_peer_capacity :: "client_options \<Rightarrow> nat" where
  "outbound_peer_capacity o1 = op_max_connected_peers o1 - op_max_inbound_routed_peers o1"

definition subscription_limits :: "client_options \<Rightarrow> sub_limits" where
  "subscription_limits o1 =
     \<lparr>max_peers = op_max_connected_peers o1, max_subscriptions_per_peer = op_max_active_subscriptions o1 + 1,
      max_filters_per_subscription = op_max_filters_per_subscription o1\<rparr>"

definition positive_options :: "client_options \<Rightarrow> (string \<times> nat) list" where
  "positive_options o1 =
     [(''max_frame_bytes'', op_max_frame_bytes o1), (''max_connected_peers'', op_max_connected_peers o1), (''fanout'', op_fanout o1),
      (''max_active_subscriptions'', op_max_active_subscriptions o1), (''max_filters_per_subscription'', op_max_filters_per_subscription o1),
      (''max_replay_events'', op_max_replay_events o1), (''receive_batch_size'', op_receive_batch_size o1)]"

definition options_validate :: "client_options \<Rightarrow> pubsub_error option" where
  "options_validate o1 =
     (if op_accept_anonymous_publications o1 \<and> op_max_inbound_routed_peers o1 = 0
      then Some (invalid_option ''anonymous publication admission requires bounded inbound slots'')
      else if op_max_inbound_routed_peers o1 > op_max_connected_peers o1
      then Some (invalid_option ''max_inbound_routed_peers cannot exceed max_connected_peers'')
      else if op_query_timeout o1 = 0 then Some (invalid_option ''query_timeout must be greater than zero'')
      else case find (\<lambda>(name, value). value = 0) (positive_options o1) of
             Some (name, _) \<Rightarrow> Some (invalid_option (name @ '' must be greater than zero''))
           | None \<Rightarrow>
               if op_max_frame_bytes o1 > FIPS_NOSTR_PUBSUB_MAX_FRAME_BYTES
               then Some (invalid_option ''max_frame_bytes cannot exceed TCP/FIPS record limit 65525'')
               else if op_fanout o1 > op_max_connected_peers o1 then Some (invalid_option ''fanout cannot exceed max_connected_peers'')
               else if op_max_hops o1 = 0 then Some (invalid_option ''max_hops must be greater than zero'') else None)"

definition validate_peer_transport :: "client_options \<Rightarrow> bool \<Rightarrow> pubsub_error option" where
  "validate_peer_transport o1 restricted =
     (case options_validate o1 of
        Some err \<Rightarrow> Some err
      | None \<Rightarrow>
          if op_max_inbound_routed_peers o1 \<noteq> 0 \<and> restricted
          then Some (invalid_option ''inbound routed peers require an unrestricted FIPS client'') else None)"

section \<open>Links\<close>

datatype peer_link_epoch = Routed | Direct u64 | LocalService u64

definition requires_reset :: "peer_link_epoch \<Rightarrow> peer_link_epoch \<Rightarrow> bool" where
  "requires_reset new previous \<longleftrightarrow>
     \<not> (case (previous, new) of (Direct _, LocalService _) \<Rightarrow> True | _ \<Rightarrow> False) \<and> new \<noteq> previous"

record peer_link =
  ln_npub :: string
  ln_link_id :: peer_link_epoch

section \<open>Selection by a policy\<close>

type_synonym peer_policy = "string \<Rightarrow> pubsub_error + mesh_peer option"

definition hex16 :: "u64 \<Rightarrow> string" where
  "hex16 w = map (\<lambda>i. ''0123456789abcdef'' ! (unat (drop_bit (4 * (15 - i)) w) mod 16)) [0..<16]"

definition order_key :: "(string \<Rightarrow> u64) \<Rightarrow> string \<Rightarrow> string" where
  "order_key hash i = hex16 (hash i) @ '':'' @ i"

text \<open>The candidates in the order of the peers; \<open>live\<close> is the hash of a live event, which replaces the identity as tie-breaker.\<close>

fun policy_candidates :: "peer_policy \<Rightarrow> (string \<Rightarrow> u64) option \<Rightarrow> string list \<Rightarrow> pubsub_error + mesh_peer list" where
  "policy_candidates policy live [] = Inr []"
| "policy_candidates policy live (i # is) =
     (case policy i of
        Inl err \<Rightarrow> Inl err
      | Inr None \<Rightarrow> policy_candidates policy live is
      | Inr (Some candidate) \<Rightarrow>
          map_sum (\<lambda>err. err) ((#) (candidate\<lparr>mp_id := (case live of None \<Rightarrow> i | Some hash \<Rightarrow> order_key hash i)\<rparr>)) (policy_candidates policy live is))"

fun authenticated_ids :: "peer_policy \<Rightarrow> (string \<Rightarrow> u64) \<Rightarrow> string list \<Rightarrow> (string, string) hmap" where
  "authenticated_ids policy hash [] = []"
| "authenticated_ids policy hash (i # is) =
     (case policy i of
        Inr (Some _) \<Rightarrow> hm_insert (order_key hash i) i (authenticated_ids policy hash is)
      | _ \<Rightarrow> authenticated_ids policy hash is)"

fun take_ids :: "string list \<Rightarrow> (string, string) hmap \<Rightarrow> string list option" where
  "take_ids [] m = Some []"
| "take_ids (k # ks) m =
     (case hm_get m k of None \<Rightarrow> None | Some i \<Rightarrow> map_option ((#) i) (take_ids ks (hm_remove k m)))"

definition select_policy_peers ::
  "peer_policy \<Rightarrow> string list \<Rightarrow> nat \<Rightarrow> nat \<Rightarrow> (string \<Rightarrow> u64) option \<Rightarrow> (pubsub_error + string list) option" where
  "select_policy_peers policy ids capacity unknown_reserve live =
     (case policy_candidates policy live ids of
        Inl err \<Rightarrow> Some (Inl err)
      | Inr candidates \<Rightarrow>
          (let selected = map mp_id (select_mesh_peers candidates None capacity unknown_reserve)
           in case live of
                None \<Rightarrow> Some (Inr selected)
              | Some hash \<Rightarrow> map_option Inr (take_ids selected (authenticated_ids policy hash ids))))"

definition select_links :: "peer_policy option \<Rightarrow> peer_link list \<Rightarrow> nat \<Rightarrow> nat \<Rightarrow> (pubsub_error + peer_link list) option" where
  "select_links policy links capacity unknown_reserve =
     (case policy of
        None \<Rightarrow> Some (Inr (take capacity links))
      | Some policy \<Rightarrow>
          map_option (map_sum (\<lambda>err. err)
            (List.map_filter (\<lambda>npub. map_option (\<lambda>link_id. \<lparr>ln_npub = npub, ln_link_id = link_id\<rparr>)
               (map_of (rev (map (\<lambda>l. (ln_npub l, ln_link_id l)) links)) npub))))
            (select_policy_peers policy (map ln_npub links) capacity unknown_reserve None))"

section \<open>Routed peers\<close>

fun canonical_npubs :: "(string \<Rightarrow> string option) \<Rightarrow> string list \<Rightarrow> pubsub_error + string list" where
  "canonical_npubs from_npub [] = Inr []"
| "canonical_npubs from_npub (p # ps) =
     (case from_npub p of
        None \<Rightarrow> Inl (invalid_option ''invalid routed peer'')
      | Some npub \<Rightarrow> map_sum (\<lambda>err. err) ((#) npub) (canonical_npubs from_npub ps))"

definition validate_routed_peers ::
  "(string \<Rightarrow> string option) \<Rightarrow> string list \<Rightarrow> nat \<Rightarrow> string \<Rightarrow> bool \<Rightarrow> pubsub_error + string list" where
  "validate_routed_peers from_npub peers capacity local_npub transport_restricted =
     (if transport_restricted \<and> peers \<noteq> [] then Inl (invalid_option ''routed_peers require an unrestricted FIPS client'')
      else if length peers > capacity then Inl (invalid_option ''routed_peers cannot exceed max_connected_peers'')
      else map_sum (\<lambda>err. err) (\<lambda>npubs. remdups_adj (sort (filter (\<lambda>npub. npub \<noteq> local_npub) npubs))) (canonical_npubs from_npub peers))"

section \<open>The roster\<close>

text \<open>What the endpoint reports: its links, and the services advertised on this host.\<close>

record endpoint_peer =
  ep_npub :: string
  ep_connected :: bool
  ep_transport_type :: "string option"
  ep_link_id :: u64

record local_advert =
  la_npub :: string
  la_capabilities :: "(string \<times> u16 option) list"
  la_startup_epoch :: u64

definition FIPS_NOSTR_PUBSUB_SERVICE_PORT :: u16 where "FIPS_NOSTR_PUBSUB_SERVICE_PORT = 7368"

definition FIPS_NOSTR_PUBSUB_CAPABILITY :: string where "FIPS_NOSTR_PUBSUB_CAPABILITY = ''nostr.pubsub/1''"

definition local_services :: "string \<Rightarrow> local_advert list \<Rightarrow> (string, u64) hmap" where
  "local_services local_npub adverts =
     fold (\<lambda>a. bmap_insert (la_npub a) (la_startup_epoch a))
       (filter (\<lambda>a. la_npub a \<noteq> local_npub \<and>
          (FIPS_NOSTR_PUBSUB_CAPABILITY, Some FIPS_NOSTR_PUBSUB_SERVICE_PORT) \<in> set (la_capabilities a)) adverts) []"

record roster_config =
  ro_npub :: string
  ro_role :: client_role
  ro_options :: client_options
  ro_routed :: "string list"
  ro_peer_transport :: "string option"
  ro_excluded_transports :: "string set"
  ro_policy :: "peer_policy option"
  ro_reserve :: nat

definition direct_eligible :: "roster_config \<Rightarrow> local_advert list \<Rightarrow> endpoint_peer \<Rightarrow> bool" where
  "direct_eligible c adverts peer \<longleftrightarrow>
     (let unrestricted = (ro_peer_transport c = None \<and> ro_excluded_transports c = {})
      in ep_connected peer \<and> \<not> op_accept_anonymous_publications (ro_options c) \<and>
         (ro_peer_transport c = None \<or> ep_transport_type peer = ro_peer_transport c) \<and>
         (case ep_transport_type peer of None \<Rightarrow> True | Some t \<Rightarrow> t \<notin> ro_excluded_transports c) \<and>
         ep_npub peer \<notin> set (ro_routed c) \<and>
         (ep_npub peer \<notin> la_npub ` set adverts \<or> (\<not> unrestricted \<and> hm_contains (local_services (ro_npub c) adverts) (ep_npub peer))))"

fun dedup_by :: "('a \<Rightarrow> 'b) \<Rightarrow> 'a list \<Rightarrow> 'a list" where
  "dedup_by f (a # b # xs) = (if f a = f b then dedup_by f (a # xs) else a # dedup_by f (b # xs))"
| "dedup_by f xs = xs"

definition discovered_links :: "roster_config \<Rightarrow> endpoint_peer list \<Rightarrow> local_advert list \<Rightarrow> peer_link list" where
  "discovered_links c snapshot adverts =
     (if ro_peer_transport c = None \<and> ro_excluded_transports c = {}
      then map (\<lambda>(npub, epoch). \<lparr>ln_npub = npub, ln_link_id = LocalService epoch\<rparr>)
             (filter (\<lambda>(npub, _). npub \<notin> set (ro_routed c)) (local_services (ro_npub c) adverts))
      else []) @
     dedup_by ln_npub (sort_key ln_npub
       (map (\<lambda>peer. \<lparr>ln_npub = ep_npub peer, ln_link_id = Direct (ep_link_id peer)\<rparr>) (filter (direct_eligible c adverts) snapshot)))"

definition connected_peer_links ::
  "roster_config \<Rightarrow> pubsub_error + endpoint_peer list \<Rightarrow> pubsub_error + local_advert list \<Rightarrow> (pubsub_error + peer_link list) option" where
  "connected_peer_links c snapshot adverts =
     (case snapshot of
        Inl err \<Rightarrow> Some (Inl err)
      | Inr snapshot \<Rightarrow>
          (case adverts of
             Inl err \<Rightarrow> Some (Inl err)
           | Inr adverts \<Rightarrow>
               (let routed = map (\<lambda>npub. \<lparr>ln_npub = npub, ln_link_id = Routed\<rparr>) (ro_routed c);
                    capacity = outbound_peer_capacity (ro_options c)
                in if \<not> advertises (ro_role c) then Some (Inr routed)
                   else case select_links (ro_policy c) routed capacity 0 of
                          None \<Rightarrow> None
                        | Some (Inl err) \<Rightarrow> Some (Inl err)
                        | Some (Inr peers) \<Rightarrow>
                            map_option (map_sum (\<lambda>err. err) ((@) peers))
                              (select_links (ro_policy c) (discovered_links c snapshot adverts) (capacity - length peers) (ro_reserve c)))))"

section \<open>Targets of a live event\<close>

type_synonym targets = "(string \<times> string list) list"

definition add_target :: "string \<times> subscription \<Rightarrow> targets \<Rightarrow> targets" where
  "add_target = (\<lambda>(peer, sub) targets.
     if targets \<noteq> [] \<and> fst (last targets) = peer
     then butlast targets @ [(peer, snd (last targets) @ [sub_id sub])]
     else targets @ [(peer, [sub_id sub])])"

definition bounded_delivery_targets :: "(string \<Rightarrow> u64) \<Rightarrow> targets \<Rightarrow> nat \<Rightarrow> targets" where
  "bounded_delivery_targets hash targets fanout =
     (if length targets \<le> fanout then targets
      else take fanout (sort_key (\<lambda>target. (hash (fst target), fst target)) targets))"

fun take_targets :: "string list \<Rightarrow> targets \<Rightarrow> targets" where
  "take_targets [] m = []"
| "take_targets (i # is) m =
     (case hm_get m i of None \<Rightarrow> take_targets is m | Some subs \<Rightarrow> (i, subs) # take_targets is (hm_remove i m))"

text \<open>Two hashes rank the peers of an event: with a policy, the hash also covers the local name.\<close>

definition delivery_targets ::
  "nostr_lib \<Rightarrow> peer_policy option \<Rightarrow> nat \<Rightarrow> (string \<Rightarrow> u64) \<Rightarrow> (string \<Rightarrow> u64) \<Rightarrow> nat \<Rightarrow> sub_store \<Rightarrow> verified_event \<Rightarrow> source_id option \<Rightarrow>
     (pubsub_error + targets) option" where
  "delivery_targets lib policy reserve live_hash fanout_hash fanout st v excluded =
     (let targets = fold add_target (filter (\<lambda>(peer, _). excluded \<noteq> Some peer) (matching_peer_subscriptions lib st v)) []
      in case policy of
           Some policy \<Rightarrow>
             map_option (map_sum (\<lambda>err. err) (\<lambda>selected. take_targets selected targets))
               (select_policy_peers policy (map fst targets) fanout reserve (Some live_hash))
         | None \<Rightarrow> Some (Inr (bounded_delivery_targets fanout_hash targets fanout)))"

end
