(* ===== verification/Provider_Behavior.thy ===== *)
theory Provider_Behavior
  imports Events
begin

text \<open>
  Local evidence about providers, \<open>crates/nostr-pubsub-fips/src/provider_behavior.rs\<close>: violations score points that
  decay with time, and a provider that reaches the threshold is disconnected for a while.
\<close>

section \<open>Data\<close>

definition SCORE_DECAY_INTERVAL_MS :: u64 where "SCORE_DECAY_INTERVAL_MS = 30000"
definition DISCONNECT_SCORE :: u32 where "DISCONNECT_SCORE = 12"
definition RECONNECT_COOLDOWN_MS :: u64 where "RECONNECT_COOLDOWN_MS = 60000"
definition UNIQUE_FILTER_MISMATCH_GRACE :: u32 where "UNIQUE_FILTER_MISMATCH_GRACE = 3"
definition MAX_TRACKED_PROVIDERS :: nat where "MAX_TRACKED_PROVIDERS = 1024"

datatype provider_violation = MalformedFrame | UnansweredInventory | OutOfFilterEvent bool

record provider_state =
  pv_score :: u32
  pv_unique_filter_mismatches :: u32
  pv_updated_at_ms :: u64
  pv_cooldown_until_ms :: u64

definition provider_state_default :: provider_state where
  "provider_state_default =
     \<lparr>pv_score = 0, pv_unique_filter_mismatches = 0, pv_updated_at_ms = 0, pv_cooldown_until_ms = 0\<rparr>"

record provider_behavior =
  pb_peers :: "(string, provider_state) hmap"
  pb_order :: "string list"

definition provider_behavior_default :: provider_behavior where
  "provider_behavior_default = \<lparr>pb_peers = [], pb_order = []\<rparr>"

section \<open>Operations\<close>

definition sat_mul :: "u64 \<Rightarrow> u64 \<Rightarrow> u64" where
  "sat_mul a b = (if unat a * unat b < 2 ^ 64 then a * b else - 1)"

definition decay :: "u64 \<Rightarrow> provider_state \<Rightarrow> provider_state" where
  "decay now_ms state =
     (if pv_updated_at_ms state = 0 then state\<lparr>pv_updated_at_ms := now_ms\<rparr>
      else let elapsed = sat_sub now_ms (pv_updated_at_ms state);
               steps = elapsed div SCORE_DECAY_INTERVAL_MS
           in if steps = 0 then state
              else let steps32 = (if unat steps < 2 ^ 32 then ucast steps else - 1) :: u32
                   in state\<lparr>pv_score := sat_sub (pv_score state) steps32,
                            pv_unique_filter_mismatches := sat_sub (pv_unique_filter_mismatches state) steps32,
                            pv_updated_at_ms := sat_add (pv_updated_at_ms state)
                              (sat_mul (ucast steps32) SCORE_DECAY_INTERVAL_MS)\<rparr>)"

text \<open>The loop that makes room for a provider that is not tracked yet.\<close>

fun evict_providers :: "(string, provider_state) hmap \<Rightarrow> string list \<Rightarrow> (string, provider_state) hmap \<times> string list" where
  "evict_providers peers [] = (peers, [])"
| "evict_providers peers (oldest # order) =
     (if length peers \<ge> MAX_TRACKED_PROVIDERS then evict_providers (hm_remove oldest peers) order
      else (peers, oldest # order))"

text \<open>The points of a violation, and the state with the mismatch counted.\<close>

fun charge :: "provider_violation \<Rightarrow> provider_state \<Rightarrow> u32 \<times> provider_state" where
  "charge MalformedFrame state = (4, state)"
| "charge UnansweredInventory state = (2, state)"
| "charge (OutOfFilterEvent True) state = (1, state)"
| "charge (OutOfFilterEvent False) state =
     (let n = sat_add (pv_unique_filter_mismatches state) 1
      in (if n > UNIQUE_FILTER_MISMATCH_GRACE then 1 else 0, state\<lparr>pv_unique_filter_mismatches := n\<rparr>))"

definition track_provider :: "string \<Rightarrow> provider_behavior \<Rightarrow> (string, provider_state) hmap \<times> string list" where
  "track_provider peer b =
     (if hm_contains (pb_peers b) peer then (pb_peers b, pb_order b)
      else case evict_providers (pb_peers b) (pb_order b) of (peers, order) \<Rightarrow> (peers, order @ [peer]))"

definition judge :: "provider_violation \<Rightarrow> u64 \<Rightarrow> provider_state \<Rightarrow> u64 option \<times> provider_state" where
  "judge violation now_ms state0 =
     (case charge violation (decay now_ms state0) of
        (points, state1) \<Rightarrow>
          let state = state1\<lparr>pv_score := sat_add (pv_score state1) points\<rparr>
          in if pv_score state < DISCONNECT_SCORE \<or> now_ms < pv_cooldown_until_ms state then (None, state)
             else let until = sat_add now_ms RECONNECT_COOLDOWN_MS
                  in (Some until, state\<lparr>pv_cooldown_until_ms := until\<rparr>))"

definition record_violation :: "string \<Rightarrow> provider_violation \<Rightarrow> u64 \<Rightarrow> provider_behavior \<Rightarrow> u64 option \<times> provider_behavior" where
  "record_violation peer violation now_ms b =
     (case track_provider peer b of
        (peers, order) \<Rightarrow>
          (case judge violation now_ms (case hm_get peers peer of Some state \<Rightarrow> state | None \<Rightarrow> provider_state_default) of
             (result, state) \<Rightarrow> (result, \<lparr>pb_peers = hm_insert peer state peers, pb_order = order\<rparr>)))"

definition is_in_cooldown :: "string \<Rightarrow> u64 \<Rightarrow> provider_behavior \<Rightarrow> bool \<times> provider_behavior" where
  "is_in_cooldown peer now_ms b =
     (case hm_get (pb_peers b) peer of
        None \<Rightarrow> (False, b)
      | Some state \<Rightarrow>
          let state' = decay now_ms state
          in (now_ms < pv_cooldown_until_ms state', b\<lparr>pb_peers := hm_insert peer state' (pb_peers b)\<rparr>))"

section \<open>Evidence\<close>

text \<open>An upper bound of what a violation adds to a score.\<close>

fun points :: "provider_violation \<Rightarrow> nat" where
  "points MalformedFrame = 4"
| "points UnansweredInventory = 2"
| "points (OutOfFilterEvent _) = 1"

datatype provider_op = Violation string provider_violation u64 | AskCooldown string u64

fun provider_apply :: "provider_op \<Rightarrow> provider_behavior \<Rightarrow> provider_behavior" where
  "provider_apply (Violation p v now) b = snd (record_violation p v now b)"
| "provider_apply (AskCooldown p now) b = snd (is_in_cooldown p now b)"

definition evidence :: "string \<Rightarrow> provider_op list \<Rightarrow> nat" where
  "evidence p ops = sum_list (map (\<lambda>op. case op of Violation q v _ \<Rightarrow> if q = p then points v else 0 | AskCooldown _ _ \<Rightarrow> 0) ops)"

lemma evidence_simps [simp]:
  "evidence p [] = 0"
  "evidence p (ops @ [Violation q v now]) = evidence p ops + (if q = p then points v else 0)"
  "evidence p (ops @ [AskCooldown q now]) = evidence p ops"
  by (simp_all add: evidence_def)

lemma decay_score: "unat (pv_score (decay now s)) \<le> unat (pv_score s)"
  by (simp add: decay_def Let_def)

lemma decay_cooldown [simp]: "pv_cooldown_until_ms (decay now s) = pv_cooldown_until_ms s"
  by (simp add: decay_def Let_def)

lemma charge_points:
  "unat (fst (charge v s)) \<le> points v" "pv_score (snd (charge v s)) = pv_score s"
  "pv_cooldown_until_ms (snd (charge v s)) = pv_cooldown_until_ms s"
  by (induction v s rule: charge.induct) (simp_all add: Let_def)

definition provider_ok :: "(string \<Rightarrow> nat) \<Rightarrow> provider_behavior \<Rightarrow> bool" where
  "provider_ok ev b \<longleftrightarrow> fifo_ok MAX_TRACKED_PROVIDERS (pb_peers b) (pb_order b) \<and>
     (\<forall>p s. hm_get (pb_peers b) p = Some s \<longrightarrow> unat (pv_score s) \<le> ev p)"

lemma evict_providers_room:
  assumes "fifo_ok MAX_TRACKED_PROVIDERS m q"
  shows "evict_providers m q = fifo_room MAX_TRACKED_PROVIDERS m q"
proof (cases q)
  case (Cons k rest)
  have "hm_wf m" "k \<in> keys m" using assms Cons by (auto simp: fifo_ok_def)
  then have "Suc (length (hm_remove k m)) = length m" by (rule length_hm_remove)
  then have "\<not> length (hm_remove k m) \<ge> MAX_TRACKED_PROVIDERS" using assms by (simp add: fifo_ok_def)
  then have "evict_providers (hm_remove k m) rest = (hm_remove k m, rest)" by (cases rest) simp_all
  then show ?thesis using Cons by (simp add: fifo_room_def)
next
  case Nil
  then show ?thesis using fifo_ok_length[OF assms] by (simp add: fifo_room_def MAX_TRACKED_PROVIDERS_def)
qed

lemma judge_ok:
  assumes "judge v now s = (r, s')"
  shows "unat (pv_score s') \<le> unat (pv_score s) + points v"
    and "r = Some t \<Longrightarrow> 12 \<le> unat (pv_score s') \<and> t = sat_add now RECONNECT_COOLDOWN_MS \<and> pv_cooldown_until_ms s' = t"
  using assms decay_score[of now s] charge_points(1,2)[of v "decay now s"]
  by (auto simp: judge_def Let_def split_def DISCONNECT_SCORE_def word_less_nat_alt not_less split: if_splits)

lemma track_provider_ok:
  assumes fifo: "fifo_ok MAX_TRACKED_PROVIDERS (pb_peers b) (pb_order b)" and t: "track_provider p b = (m, q)"
  shows "fifo_ok MAX_TRACKED_PROVIDERS (hm_insert p s m) q" and "hm_get m p' = Some s' \<Longrightarrow> hm_get (pb_peers b) p' = Some s'"
proof -
  have "fifo_ok MAX_TRACKED_PROVIDERS (hm_insert p s m) q \<and> (hm_get m p' = Some s' \<longrightarrow> hm_get (pb_peers b) p' = Some s')"
  proof (cases "hm_contains (pb_peers b) p")
    case True
    then have "p \<in> keys (pb_peers b)" by auto
    then show ?thesis using fifo_ok_update[OF fifo] t True by (auto simp: track_provider_def)
  next
    case False
    then obtain q' where room: "fifo_room MAX_TRACKED_PROVIDERS (pb_peers b) (pb_order b) = (m, q')" and q: "q = q' @ [p]"
      using t evict_providers_room[OF fifo] by (auto simp: track_provider_def split: prod.splits)
    have "0 < MAX_TRACKED_PROVIDERS" by (simp add: MAX_TRACKED_PROVIDERS_def)
    note fr = fifo_ok_room[OF fifo this room]
    have "p \<notin> keys m" using False fr(4) by auto
    moreover have "hm_wf m" "hm_wf (pb_peers b)" using fr(1) fifo by (simp_all add: fifo_ok_def)
    ultimately show ?thesis using fifo_ok_push[OF fr(1,2)] q subsetD[OF fr(3)] by (simp add: hm_get_iff)
  qed
  then show "fifo_ok MAX_TRACKED_PROVIDERS (hm_insert p s m) q" "hm_get m p' = Some s' \<Longrightarrow> hm_get (pb_peers b) p' = Some s'" by auto
qed

lemma record_violation_ok:
  assumes "provider_ok ev b" and r: "record_violation p v now b = (r, b')"
  shows "provider_ok (ev(p := ev p + points v)) b'"
    and "\<exists>s. hm_get (pb_peers b') p = Some s \<and> (\<forall>t. r = Some t \<longrightarrow> 12 \<le> unat (pv_score s) \<and>
      t = sat_add now RECONNECT_COOLDOWN_MS \<and> pv_cooldown_until_ms s = t)"
proof -
  obtain m q where mq: "track_provider p b = (m, q)" by force
  define s0 where "s0 = (case hm_get m p of Some state \<Rightarrow> state | None \<Rightarrow> provider_state_default)"
  obtain s where j: "judge v now s0 = (r, s)" and b': "b' = \<lparr>pb_peers = hm_insert p s m, pb_order = q\<rparr>"
    using r unfolding record_violation_def mq by (cases "judge v now s0") (auto simp: s0_def)
  have fifo: "fifo_ok MAX_TRACKED_PROVIDERS (pb_peers b) (pb_order b)" using assms(1) by (simp add: provider_ok_def)
  note track = track_provider_ok[OF fifo mq]
  have "unat (pv_score s0) \<le> ev p"
    using assms(1) track(2) by (auto simp: s0_def provider_ok_def provider_state_default_def split: option.splits)
  then have "unat (pv_score s) \<le> ev p + points v" using judge_ok(1)[OF j] by simp
  then show "provider_ok (ev(p := ev p + points v)) b'"
    using track assms(1) by (auto simp: provider_ok_def b')
  show "\<exists>s. hm_get (pb_peers b') p = Some s \<and> (\<forall>t. r = Some t \<longrightarrow> 12 \<le> unat (pv_score s) \<and>
      t = sat_add now RECONNECT_COOLDOWN_MS \<and> pv_cooldown_until_ms s = t)"
    using judge_ok(2)[OF j] by (simp add: b')
qed

lemma is_in_cooldown_ok:
  assumes "provider_ok ev b" and "is_in_cooldown p now b = (r, b')"
  shows "provider_ok ev b'"
proof (cases "hm_get (pb_peers b) p")
  case (Some s)
  then have b': "b' = b\<lparr>pb_peers := hm_insert p (decay now s) (pb_peers b)\<rparr>"
    using assms(2) by (auto simp: is_in_cooldown_def Let_def)
  have "unat (pv_score (decay now s)) \<le> ev p"
    using assms(1) Some order_trans[OF decay_score] by (auto simp: provider_ok_def)
  moreover have "p \<in> keys (pb_peers b)" using Some by (auto dest: hm_get_in_keys)
  ultimately show ?thesis using assms(1) by (auto simp: b' provider_ok_def intro: fifo_ok_update)
qed (use assms in \<open>auto simp: is_in_cooldown_def\<close>)

lemma provider_run_ok: "provider_ok (\<lambda>p. evidence p ops) (fold provider_apply ops provider_behavior_default)"
proof (induction ops rule: rev_induct)
  case Nil
  then show ?case by (simp add: provider_ok_def provider_behavior_default_def fifo_ok_def)
next
  case (snoc op ops)
  let ?b = "fold provider_apply ops provider_behavior_default"
  show ?case
  proof (cases op)
    case (Violation p v now)
    have "provider_ok ((\<lambda>p. evidence p ops)(p := evidence p ops + points v)) (snd (record_violation p v now ?b))"
      using record_violation_ok(1)[OF snoc] by (metis prod.collapse)
    moreover have "(\<lambda>p. evidence p ops)(p := evidence p ops + points v) = (\<lambda>p'. evidence p' (ops @ [op]))"
      using Violation by (auto simp: fun_eq_iff)
    ultimately show ?thesis using Violation by simp
  next
    case (AskCooldown p now)
    then show ?thesis using is_in_cooldown_ok[OF snoc] by simp (metis prod.collapse)
  qed
qed



end
