(* ===== verification/Pending_Wants.thy ===== *)
theory Pending_Wants
  imports Provider_Behavior
begin

text \<open>
  Requests that wait for an event body, \<open>crates/nostr-pubsub-fips/src/pending_wants.rs\<close>: per event one selected provider, alternatives
  that announced the same event, and a retry counter with a growing delay. The clock \<open>now_ms()\<close> is an argument.
\<close>

section \<open>Data\<close>

record inventory_provider =
  ip_peer :: string
  ip_subscriptions :: "string list"
  ip_requested :: bool

record pending_inventory =
  pi_selected :: inventory_provider
  pi_alternatives :: "inventory_provider list"
  pi_event_kind :: u16
  pi_payload_bytes :: u32
  pi_hop_limit :: u8
  pi_requested_at_ms :: u64
  pi_retry_count :: u8

abbreviation providers :: "pending_inventory \<Rightarrow> inventory_provider list" where
  "providers p \<equiv> pi_selected p # pi_alternatives p"

definition requested_provider :: "string \<Rightarrow> pending_inventory \<Rightarrow> inventory_provider option" where
  "requested_provider peer_npub p = find (\<lambda>provider. ip_requested provider \<and> ip_peer provider = peer_npub) (providers p)"

definition MAX_WANT_RETRIES :: u8 where "MAX_WANT_RETRIES = 5"

record retry_batch =
  rb_retries :: "(string \<times> inventory_provider) list"
  rb_expired_providers :: "inventory_provider list"
  rb_expired_event_count :: nat

record pending_wants =
  pw_max_events :: nat
  pw_max_alternatives :: nat
  pw_entries :: "(string, pending_inventory) hmap"
  pw_order :: "string list"

definition pw_new :: "nat \<Rightarrow> nat \<Rightarrow> pending_wants" where
  "pw_new max_events max_alternatives =
     \<lparr>pw_max_events = max_events, pw_max_alternatives = max_alternatives, pw_entries = [], pw_order = []\<rparr>"

section \<open>Operations\<close>

definition merge_subscription_ids :: "string list \<Rightarrow> string list \<Rightarrow> string list" where
  "merge_subscription_ids existing incoming = remdups_adj (sort (existing @ incoming))"

text \<open>The alternatives with the identifiers of a provider merged into the first entry of its peer.\<close>

fun merge_alternative :: "inventory_provider \<Rightarrow> inventory_provider list \<Rightarrow> inventory_provider list option" where
  "merge_alternative provider [] = None"
| "merge_alternative provider (existing # rest) =
     (if ip_peer existing = ip_peer provider
      then Some (existing\<lparr>ip_subscriptions := merge_subscription_ids (ip_subscriptions existing) (ip_subscriptions provider)\<rparr> # rest)
      else map_option ((#) existing) (merge_alternative provider rest))"

definition add_provider :: "nat \<Rightarrow> inventory_provider \<Rightarrow> pending_inventory \<Rightarrow> pending_inventory" where
  "add_provider max_alternatives provider pending =
     (if ip_peer provider = ip_peer (pi_selected pending)
      then pending\<lparr>pi_selected := (pi_selected pending)\<lparr>ip_subscriptions :=
             merge_subscription_ids (ip_subscriptions (pi_selected pending)) (ip_subscriptions provider)\<rparr>\<rparr>
      else case merge_alternative provider (pi_alternatives pending) of
             Some alternatives \<Rightarrow> pending\<lparr>pi_alternatives := alternatives\<rparr>
           | None \<Rightarrow>
               if length (pi_alternatives pending) < max_alternatives
               then pending\<lparr>pi_alternatives := pi_alternatives pending @
                      [provider\<lparr>ip_requested := False, ip_subscriptions := remdups_adj (sort (ip_subscriptions provider))\<rparr>]\<rparr>
               else pending)"

fun evict_pending :: "nat \<Rightarrow> string list \<Rightarrow> (string, pending_inventory) hmap \<Rightarrow> string list \<times> (string, pending_inventory) hmap" where
  "evict_pending max_events [] entries = ([], entries)"
| "evict_pending max_events (oldest # order) entries =
     (if length entries > max_events then evict_pending max_events order (hm_remove oldest entries) else (oldest # order, entries))"

definition pw_insert :: "string \<Rightarrow> pending_inventory \<Rightarrow> pending_wants \<Rightarrow> bool \<times> pending_wants" where
  "pw_insert event_id incoming s =
     (case hm_get (pw_entries s) event_id of
        Some pending \<Rightarrow>
          if pi_event_kind pending \<noteq> pi_event_kind incoming \<or> pi_payload_bytes pending \<noteq> pi_payload_bytes incoming then (False, s)
          else (False, s\<lparr>pw_entries := hm_insert event_id (add_provider (pw_max_alternatives s) (pi_selected incoming) pending) (pw_entries s)\<rparr>)
      | None \<Rightarrow>
          (case evict_pending (pw_max_events s) (pw_order s @ [event_id]) (hm_insert event_id incoming (pw_entries s)) of
             (order, entries) \<Rightarrow> (True, s\<lparr>pw_order := order, pw_entries := entries\<rparr>)))"

definition take_matching ::
  "string \<Rightarrow> string \<Rightarrow> string \<Rightarrow> u16 \<Rightarrow> u32 \<Rightarrow> pending_wants \<Rightarrow> pending_inventory option \<times> pending_wants" where
  "take_matching event_id source_npub subscription_id event_kind payload_bytes s =
     (case hm_get (pw_entries s) event_id of
        None \<Rightarrow> (None, s)
      | Some pending \<Rightarrow>
          (case requested_provider source_npub pending of
             None \<Rightarrow> (None, s)
           | Some provider \<Rightarrow>
               if subscription_id \<notin> set (ip_subscriptions provider) \<or> pi_event_kind pending \<noteq> event_kind \<or> pi_payload_bytes pending \<noteq> payload_bytes
               then (None, s)
               else (Some pending,
                     s\<lparr>pw_order := filter (\<lambda>candidate. candidate \<noteq> event_id) (pw_order s), pw_entries := hm_remove event_id (pw_entries s)\<rparr>)))"

text \<open>The loops over the entries keep an entry, changed, or drop it.\<close>

definition retain_entries :: "(pending_inventory \<Rightarrow> pending_inventory option) \<Rightarrow> pending_wants \<Rightarrow> pending_wants" where
  "retain_entries f s =
     (let entries = List.map_filter (\<lambda>(event_id, pending). map_option (\<lambda>p. (event_id, p)) (f pending)) (pw_entries s)
      in s\<lparr>pw_entries := entries, pw_order := filter (hm_contains entries) (pw_order s)\<rparr>)"

definition without_subscription :: "string \<Rightarrow> inventory_provider \<Rightarrow> inventory_provider" where
  "without_subscription subscription_id provider =
     provider\<lparr>ip_subscriptions := filter (\<lambda>candidate. candidate \<noteq> subscription_id) (ip_subscriptions provider)\<rparr>"

definition forget_subscription :: "string \<Rightarrow> pending_inventory \<Rightarrow> pending_inventory option" where
  "forget_subscription subscription_id pending =
     (let selected = without_subscription subscription_id (pi_selected pending);
          alternatives = filter (\<lambda>provider. ip_subscriptions provider \<noteq> []) (map (without_subscription subscription_id) (pi_alternatives pending));
          (selected', alternatives') =
            (if ip_subscriptions selected = [] then (case alternatives of [] \<Rightarrow> (selected, []) | p # rest \<Rightarrow> (p, rest)) else (selected, alternatives))
      in if ip_subscriptions selected' = [] then None else Some (pending\<lparr>pi_selected := selected', pi_alternatives := alternatives'\<rparr>))"

definition pw_remove_subscription :: "string \<Rightarrow> pending_wants \<Rightarrow> pending_wants" where
  "pw_remove_subscription subscription_id = retain_entries (forget_subscription subscription_id)"

definition forget_peer :: "string \<Rightarrow> u64 \<Rightarrow> pending_inventory \<Rightarrow> pending_inventory option" where
  "forget_peer peer_npub now_ms pending =
     (let alternatives = filter (\<lambda>provider. ip_peer provider \<noteq> peer_npub) (pi_alternatives pending)
      in if ip_peer (pi_selected pending) = peer_npub
         then (case alternatives of
                 [] \<Rightarrow> None
               | p # rest \<Rightarrow> Some (pending\<lparr>pi_selected := p, pi_alternatives := rest, pi_retry_count := 0, pi_requested_at_ms := now_ms\<rparr>))
         else Some (pending\<lparr>pi_alternatives := alternatives\<rparr>))"

definition pw_remove_peer :: "string \<Rightarrow> u64 \<Rightarrow> pending_wants \<Rightarrow> pending_wants" where
  "pw_remove_peer peer_npub now_ms = retain_entries (forget_peer peer_npub now_ms)"

definition pw_clear :: "pending_wants \<Rightarrow> pending_wants" where
  "pw_clear s = s\<lparr>pw_entries := [], pw_order := []\<rparr>"

datatype retry_outcome = NotDue | Expired | Retried pending_inventory

definition retry_pending :: "u64 \<Rightarrow> u64 \<Rightarrow> pending_inventory \<Rightarrow> retry_outcome" where
  "retry_pending now_ms retry_after_ms pending =
     (let retry_delay = sat_mul retry_after_ms (push_bit (unat (min (pi_retry_count pending) MAX_WANT_RETRIES)) 1)
      in if sat_sub now_ms (pi_requested_at_ms pending) < retry_delay then NotDue
         else if pi_retry_count pending \<ge> MAX_WANT_RETRIES then Expired
         else let (selected, alternatives) =
                    (case pi_alternatives pending of [] \<Rightarrow> (pi_selected pending, []) | p # rest \<Rightarrow> (p, rest @ [pi_selected pending]))
              in Retried (pending\<lparr>pi_selected := selected\<lparr>ip_requested := True\<rparr>, pi_alternatives := alternatives,
                                  pi_requested_at_ms := now_ms, pi_retry_count := pi_retry_count pending + 1\<rparr>))"

text \<open>The batch of one pass, in the order in which the map yields its entries.\<close>

definition add_outcome :: "u64 \<Rightarrow> u64 \<Rightarrow> string \<times> pending_inventory \<Rightarrow> retry_batch \<Rightarrow> retry_batch" where
  "add_outcome now_ms retry_after_ms = (\<lambda>(event_id, pending) batch.
     (case retry_pending now_ms retry_after_ms pending of
        NotDue \<Rightarrow> batch
      | Expired \<Rightarrow>
          batch\<lparr>rb_expired_event_count := rb_expired_event_count batch + 1,
                rb_expired_providers := rb_expired_providers batch @ filter ip_requested (providers pending)\<rparr>
      | Retried p \<Rightarrow> batch\<lparr>rb_retries := rb_retries batch @ [(event_id, pi_selected p)]\<rparr>))"

definition retry_due :: "u64 \<Rightarrow> u64 \<Rightarrow> pending_wants \<Rightarrow> retry_batch \<times> pending_wants" where
  "retry_due now_ms retry_after_ms s =
     (fold (add_outcome now_ms retry_after_ms) (pw_entries s) \<lparr>rb_retries = [], rb_expired_providers = [], rb_expired_event_count = 0\<rparr>,
      retain_entries (\<lambda>pending. case retry_pending now_ms retry_after_ms pending of
                        NotDue \<Rightarrow> Some pending | Expired \<Rightarrow> None | Retried p \<Rightarrow> Some p) s)"

section \<open>Bounds\<close>

definition entry_ok :: "nat \<Rightarrow> pending_inventory \<Rightarrow> bool" where
  "entry_ok max_alternatives p \<longleftrightarrow>
     length (pi_alternatives p) \<le> max_alternatives \<and> distinct (map ip_peer (providers p)) \<and> pi_retry_count p \<le> MAX_WANT_RETRIES"

definition pw_ok :: "pending_wants \<Rightarrow> bool" where
  "pw_ok s \<longleftrightarrow> 0 < pw_max_events s \<and> fifo_ok (pw_max_events s) (pw_entries s) (pw_order s) \<and>
     (\<forall>(i, p)\<in>set (pw_entries s). entry_ok (pw_max_alternatives s) p)"

lemma map_filter_keys:
  assumes "\<And>x y. g x = Some y \<Longrightarrow> fst y = fst x"
  shows "map fst (List.map_filter g m) = map fst (filter (\<lambda>x. g x \<noteq> None) m)" and "hm_wf m \<Longrightarrow> hm_wf (List.map_filter g m)"
proof -
  show k: "map fst (List.map_filter g m) = map fst (filter (\<lambda>x. g x \<noteq> None) m)" using assms by (induction m) (auto simp: map_filter_def)
  show "hm_wf m \<Longrightarrow> hm_wf (List.map_filter g m)" unfolding k by (rule distinct_map_filter)
qed

lemma set_retain:
  "(i, p') \<in> set (pw_entries (retain_entries f s)) \<longleftrightarrow> (\<exists>p. (i, p) \<in> set (pw_entries s) \<and> f p = Some p')"
  by (force simp: retain_entries_def Let_def map_filter_def)

lemma retain_fifo: "fifo_ok cap (pw_entries s) (pw_order s) \<Longrightarrow> fifo_ok cap (pw_entries (retain_entries f s)) (pw_order (retain_entries f s))"
proof -
  assume a: "fifo_ok cap (pw_entries s) (pw_order s)"
  let ?g = "\<lambda>(event_id, pending). map_option (\<lambda>p. (event_id, p)) (f pending)"
  have e: "pw_entries (retain_entries f s) = List.map_filter ?g (pw_entries s)" "pw_order (retain_entries f s) = filter (hm_contains (List.map_filter ?g (pw_entries s))) (pw_order s)"
    by (simp_all add: retain_entries_def Let_def)
  have g: "\<And>x y. ?g x = Some y \<Longrightarrow> fst y = fst x" by (auto split: prod.splits)
  note k = map_filter_keys(1)[where g = ?g, OF g]
  have d: "distinct (map fst (List.map_filter ?g (pw_entries s)))"
    using a by (intro map_filter_keys(2)[OF g]) (simp_all add: fifo_ok_def)
  have sub: "keys (List.map_filter ?g (pw_entries s)) \<subseteq> keys (pw_entries s)" using k[of "pw_entries s"] by (metis (no_types, lifting) filter_is_subset image_mono set_map)
  have "length (List.map_filter ?g (pw_entries s)) \<le> length (pw_entries s)"
    by (metis k length_filter_le length_map)
  then show ?thesis using a d sub unfolding fifo_ok_def e by auto
qed

lemma retain_ok:
  assumes "pw_ok s" and "\<And>p p'. entry_ok (pw_max_alternatives s) p \<Longrightarrow> f p = Some p' \<Longrightarrow> entry_ok (pw_max_alternatives s) p'"
  shows "pw_ok (retain_entries f s)"
proof -
  have "pw_max_events (retain_entries f s) = pw_max_events s" "pw_max_alternatives (retain_entries f s) = pw_max_alternatives s"
    by (simp_all add: retain_entries_def Let_def)
  then show ?thesis using assms retain_fifo[of _ s f] unfolding pw_ok_def by (fastforce simp: set_retain)
qed

lemma forget_subscription_peers:
  assumes "forget_subscription sub p = Some p'"
  shows "pr' \<in> set (providers p') \<Longrightarrow> \<exists>pr\<in>set (providers p). pr' = without_subscription sub pr"
    and "pi_event_kind p' = pi_event_kind p" "pi_payload_bytes p' = pi_payload_bytes p" "pi_retry_count p' = pi_retry_count p"
    and "entry_ok m p \<Longrightarrow> entry_ok m p'"
proof -
  let ?alts = "filter (\<lambda>provider. ip_subscriptions provider \<noteq> []) (map (without_subscription sub) (pi_alternatives p))"
  let ?sel = "without_subscription sub (pi_selected p)"
  have p': "providers p' = ?sel # ?alts \<or> providers p' = ?alts" "pi_event_kind p' = pi_event_kind p" "pi_payload_bytes p' = pi_payload_bytes p"
    "pi_retry_count p' = pi_retry_count p"
    using assms by (auto simp: forget_subscription_def Let_def split: if_splits list.splits)
  then have "set (providers p') \<subseteq> set (?sel # ?alts)" by (metis set_subset_Cons subset_refl)
  also have "\<dots> \<subseteq> without_subscription sub ` set (providers p)" by auto
  finally show "pr' \<in> set (providers p') \<Longrightarrow> \<exists>pr\<in>set (providers p). pr' = without_subscription sub pr" by (auto simp del: list.set)
  show "pi_event_kind p' = pi_event_kind p" "pi_payload_bytes p' = pi_payload_bytes p" "pi_retry_count p' = pi_retry_count p"
    using p' by simp_all
  have peers: "map ip_peer (map (without_subscription sub) ps) = map ip_peer ps" for ps by (simp add: without_subscription_def)
  have d: "distinct (map ip_peer ?alts)" "set (map ip_peer ?alts) \<subseteq> ip_peer ` set (pi_alternatives p)" if "distinct (map ip_peer (pi_alternatives p))"
  proof -
    have "distinct (map ip_peer (map (without_subscription sub) (pi_alternatives p)))" unfolding peers by (rule that)
    then show "distinct (map ip_peer ?alts)" by (rule distinct_map_filter)
    show "set (map ip_peer ?alts) \<subseteq> ip_peer ` set (pi_alternatives p)" by (auto simp: without_subscription_def)
  qed
  have len: "length ?alts \<le> length (pi_alternatives p)" using length_filter_le[of _ "map (without_subscription sub) (pi_alternatives p)"] by simp
  assume ok: "entry_ok m p"
  have sel: "ip_peer ?sel = ip_peer (pi_selected p)" by (simp add: without_subscription_def)
  from p'(1) show "entry_ok m p'"
  proof
    assume "providers p' = ?sel # ?alts"
    moreover have "length ?alts \<le> m" by (rule order_trans[OF len]) (use ok in \<open>simp add: entry_ok_def\<close>)
    ultimately show ?thesis using ok d sel p'(4) by (auto simp: entry_ok_def)
  next
    assume a: "providers p' = ?alts"
    then have "length (pi_alternatives p') \<le> length ?alts" by (metis Suc_le_eq length_Cons lessI order_less_imp_le)
    from order_trans[OF this len] have "length (pi_alternatives p') \<le> m" using ok by (simp add: entry_ok_def)
    moreover have "distinct (map ip_peer (providers p'))" unfolding a using d ok by (simp add: entry_ok_def)
    ultimately show ?thesis using ok p'(4) by (simp add: entry_ok_def)
  qed
qed

lemma forget_peer_peers:
  assumes "forget_peer peer t p = Some p'"
  shows "pr \<in> set (providers p') \<Longrightarrow> pr \<in> set (providers p) \<and> ip_peer pr \<noteq> peer"
    and "pi_event_kind p' = pi_event_kind p" "pi_payload_bytes p' = pi_payload_bytes p" and "entry_ok m p \<Longrightarrow> entry_ok m p'"
proof -
  let ?alts = "filter (\<lambda>provider. ip_peer provider \<noteq> peer) (pi_alternatives p)"
  have len: "length ?alts \<le> length (pi_alternatives p)" by (rule length_filter_le)
  consider q rest where "?alts = q # rest"
      "p' = p\<lparr>pi_selected := q, pi_alternatives := rest, pi_retry_count := 0, pi_requested_at_ms := t\<rparr>"
    | "ip_peer (pi_selected p) \<noteq> peer" "p' = p\<lparr>pi_alternatives := ?alts\<rparr>"
    using assms by (auto simp: forget_peer_def Let_def split: if_splits list.splits)
  then have "(\<forall>pr\<in>set (providers p'). pr \<in> set (providers p) \<and> ip_peer pr \<noteq> peer) \<and> pi_event_kind p' = pi_event_kind p \<and>
      pi_payload_bytes p' = pi_payload_bytes p \<and> (entry_ok m p \<longrightarrow> entry_ok m p')"
  proof cases
    case 1
    have q: "set (q # rest) = {pr \<in> set (pi_alternatives p). ip_peer pr \<noteq> peer}"
      "distinct (map ip_peer (pi_alternatives p)) \<Longrightarrow> distinct (map ip_peer (q # rest))"
      unfolding 1(1)[symmetric] by (simp, rule distinct_map_filter)
    have "\<forall>pr\<in>set (q # rest). pr \<in> set (providers p) \<and> ip_peer pr \<noteq> peer" unfolding q(1) by simp
    then show ?thesis using q(2) len unfolding 1 by (auto simp: entry_ok_def)
  next
    case 2
    then show ?thesis using distinct_map_filter[of ip_peer "pi_alternatives p"] by (auto simp: entry_ok_def intro: order_trans[OF length_filter_le])
  qed
  then show "pr \<in> set (providers p') \<Longrightarrow> pr \<in> set (providers p) \<and> ip_peer pr \<noteq> peer"
    "pi_event_kind p' = pi_event_kind p" "pi_payload_bytes p' = pi_payload_bytes p" "entry_ok m p \<Longrightarrow> entry_ok m p'" by blast+
qed

lemma retry_count_step: "\<not> (n :: u8) \<ge> MAX_WANT_RETRIES \<Longrightarrow> n + 1 \<le> MAX_WANT_RETRIES \<and> unat (n + 1) = unat n + 1"
  unfolding MAX_WANT_RETRIES_def by (auto simp: word_le_nat_alt unat_word_ariths)

lemma retried:
  assumes "retry_pending now after p = Retried p'"
  shows "set (providers p') \<subseteq> insert ((pi_selected p')) (set (providers p))" and "ip_requested (pi_selected p')"
    and "\<exists>pr\<in>set (providers p). pi_selected p' = pr\<lparr>ip_requested := True\<rparr>"
    and "pi_event_kind p' = pi_event_kind p" "pi_payload_bytes p' = pi_payload_bytes p" and "entry_ok m p \<Longrightarrow> entry_ok m p'"
    and "pi_requested_at_ms p' = now" and "unat (pi_retry_count p') = unat (pi_retry_count p) + 1"
proof -
  obtain sel alts where sa: "(case pi_alternatives p of [] \<Rightarrow> (pi_selected p, []) | q # rest \<Rightarrow> (q, rest @ [pi_selected p])) = (sel, alts)" by force
  have p': "p' = p\<lparr>pi_selected := sel\<lparr>ip_requested := True\<rparr>, pi_alternatives := alts, pi_requested_at_ms := now, pi_retry_count := pi_retry_count p + 1\<rparr>"
    and c: "\<not> pi_retry_count p \<ge> MAX_WANT_RETRIES"
    using assms sa by (auto simp: retry_pending_def Let_def split: if_splits)
  have m: "mset (sel # alts) = mset (providers p)" using sa by (cases "pi_alternatives p") auto
  then have set: "set (sel # alts) = set (providers p)" "length alts = length (pi_alternatives p)"
    using mset_eq_setD[OF m] mset_eq_length[OF m] by simp_all
  have "mset (map ip_peer (sel # alts)) = mset (map ip_peer (providers p))" using arg_cong[OF m, of "image_mset ip_peer"] by simp
  then have d: "distinct (map ip_peer (sel # alts)) = distinct (map ip_peer (providers p))" by (rule mset_eq_imp_distinct_iff)
  note rc = retry_count_step[OF c]
  show "set (providers p') \<subseteq> insert (pi_selected p') (set (providers p))" using set(1) by (auto simp: p')
  show "ip_requested (pi_selected p')" "pi_event_kind p' = pi_event_kind p" "pi_payload_bytes p' = pi_payload_bytes p"
    "pi_requested_at_ms p' = now" "unat (pi_retry_count p') = unat (pi_retry_count p) + 1" using rc by (simp_all add: p')
  show "\<exists>pr\<in>set (providers p). pi_selected p' = pr\<lparr>ip_requested := True\<rparr>" using set(1) by (intro bexI[of _ sel]) (auto simp: p')
  show "entry_ok m p \<Longrightarrow> entry_ok m p'" using d set(2) rc by (simp add: entry_ok_def p')
qed

lemma merge_alternative_Some:
  assumes "merge_alternative pr xs = Some ys"
  shows "map ip_peer ys = map ip_peer xs"
    and "y \<in> set ys \<Longrightarrow> y \<in> set xs \<or> (\<exists>x\<in>set xs. ip_peer x = ip_peer pr \<and> y = x\<lparr>ip_subscriptions := merge_subscription_ids (ip_subscriptions x) (ip_subscriptions pr)\<rparr>)"
  using assms by (induction xs arbitrary: ys) (auto split: if_splits)

lemma merge_alternative_None: "merge_alternative pr xs = None \<longleftrightarrow> ip_peer pr \<notin> ip_peer ` set xs"
  by (induction xs) auto

lemma set_merge [simp]: "set (merge_subscription_ids xs ys) = set xs \<union> set ys"
  by (simp add: merge_subscription_ids_def)

text \<open>Every provider of the result is one of before, with identifiers of the newcomer when it is the newcomer's peer, or the newcomer, not yet requested.\<close>

lemma add_provider_ok:
  fixes pr p m
  defines "p' \<equiv> add_provider m pr p"
  shows "q \<in> set (providers p') \<Longrightarrow>
      (\<exists>x\<in>set (providers p). ip_peer q = ip_peer x \<and> ip_requested q = ip_requested x \<and>
        set (ip_subscriptions q) \<subseteq> set (ip_subscriptions x) \<union> (if ip_peer pr = ip_peer x then set (ip_subscriptions pr) else {})) \<or>
      (ip_peer q = ip_peer pr \<and> \<not> ip_requested q \<and> set (ip_subscriptions q) = set (ip_subscriptions pr))"
    and "pi_event_kind p' = pi_event_kind p" "pi_payload_bytes p' = pi_payload_bytes p" and "entry_ok m p \<Longrightarrow> entry_ok m p'"
proof -
  consider (selected) "ip_peer pr = ip_peer (pi_selected p)"
      "p' = p\<lparr>pi_selected := (pi_selected p)\<lparr>ip_subscriptions := merge_subscription_ids (ip_subscriptions (pi_selected p)) (ip_subscriptions pr)\<rparr>\<rparr>"
    | (alternative) ys where "merge_alternative pr (pi_alternatives p) = Some ys" "p' = p\<lparr>pi_alternatives := ys\<rparr>"
    | (new) "ip_peer pr \<noteq> ip_peer (pi_selected p)" "merge_alternative pr (pi_alternatives p) = None" "length (pi_alternatives p) < m"
      "p' = p\<lparr>pi_alternatives := pi_alternatives p @ [pr\<lparr>ip_requested := False, ip_subscriptions := remdups_adj (sort (ip_subscriptions pr))\<rparr>]\<rparr>"
    | (full) "p' = p"
    unfolding p'_def add_provider_def
    by (cases "ip_peer pr = ip_peer (pi_selected p)"; cases "merge_alternative pr (pi_alternatives p)"; cases "length (pi_alternatives p) < m") auto
  then have "(\<forall>q\<in>set (providers p').
      (\<exists>x\<in>set (providers p). ip_peer q = ip_peer x \<and> ip_requested q = ip_requested x \<and>
        set (ip_subscriptions q) \<subseteq> set (ip_subscriptions x) \<union> (if ip_peer pr = ip_peer x then set (ip_subscriptions pr) else {})) \<or>
      (ip_peer q = ip_peer pr \<and> \<not> ip_requested q \<and> set (ip_subscriptions q) = set (ip_subscriptions pr))) \<and>
    pi_event_kind p' = pi_event_kind p \<and> pi_payload_bytes p' = pi_payload_bytes p \<and> (entry_ok m p \<longrightarrow> entry_ok m p')"
  proof cases
    case selected
    then show ?thesis by (auto simp: entry_ok_def)
  next
    case alternative
    have len: "length ys = length (pi_alternatives p)" using arg_cong[OF merge_alternative_Some(1)[OF alternative(1)], of length] by simp
    have "ip_peer ` set ys = ip_peer ` set (pi_alternatives p)" using arg_cong[OF merge_alternative_Some(1)[OF alternative(1)], of set] by simp
    then have "entry_ok m p \<longrightarrow> entry_ok m p'" using merge_alternative_Some(1)[OF alternative(1)] len by (simp add: entry_ok_def alternative(2))
    then show ?thesis using merge_alternative_Some(2)[OF alternative(1)] by (fastforce simp: alternative(2))
  next
    case new
    then show ?thesis by (auto simp: entry_ok_def merge_alternative_None)
  qed auto
  then show "q \<in> set (providers p') \<Longrightarrow>
      (\<exists>x\<in>set (providers p). ip_peer q = ip_peer x \<and> ip_requested q = ip_requested x \<and>
        set (ip_subscriptions q) \<subseteq> set (ip_subscriptions x) \<union> (if ip_peer pr = ip_peer x then set (ip_subscriptions pr) else {})) \<or>
      (ip_peer q = ip_peer pr \<and> \<not> ip_requested q \<and> set (ip_subscriptions q) = set (ip_subscriptions pr))"
    "pi_event_kind p' = pi_event_kind p" "pi_payload_bytes p' = pi_payload_bytes p" "entry_ok m p \<Longrightarrow> entry_ok m p'" by blast+
qed

lemma evict_pending_ok:
  assumes "hm_wf entries" and "distinct order" and "set order = keys entries" and "length entries \<le> Suc cap"
    and "evict_pending cap order entries = (order', entries')"
  shows "fifo_ok cap entries' order'" and "set entries' \<subseteq> set entries"
proof -
  have len: "length order = length entries" using keys_length_eq[OF assms(1-3)] by simp
  have "fifo_ok cap entries' order' \<and> set entries' \<subseteq> set entries"
  proof (cases "length entries > cap")
    case False
    then have "order' = order" "entries' = entries" using assms(5) by (cases order; simp)+
    then show ?thesis using assms(1-3) False by (simp add: fifo_ok_def)
  next
    case True
    then obtain k rest where o: "order = k # rest" using len by (cases order) auto
    have k: "k \<in> keys entries" using assms(3) o by auto
    then have l: "length (hm_remove k entries) = cap" using length_hm_remove[OF assms(1) k] True assms(4) by simp
    then have r: "order' = rest" "entries' = hm_remove k entries" using assms(5) True o by (cases rest; simp)+
    then show ?thesis using assms(1-3) o l by (auto simp: fifo_ok_def set_hm_remove)
  qed
  then show "fifo_ok cap entries' order'" "set entries' \<subseteq> set entries" by auto
qed

lemma pw_insert_ok:
  assumes ok: "pw_ok s" and new: "entry_ok (pw_max_alternatives s) p" and i: "pw_insert event_id p s = (r, s')"
  shows "pw_ok s'" and "r \<longleftrightarrow> event_id \<notin> keys (pw_entries s)"
    and "(j, q) \<in> set (pw_entries s') \<Longrightarrow> (j, q) \<in> set (pw_entries s) \<or> j = event_id \<and>
      (if r then q = p else \<exists>q0. (j, q0) \<in> set (pw_entries s) \<and> q = add_provider (pw_max_alternatives s) (pi_selected p) q0 \<and>
         pi_event_kind p = pi_event_kind q0 \<and> pi_payload_bytes p = pi_payload_bytes q0)"
    and "pw_max_events s' = pw_max_events s" "pw_max_alternatives s' = pw_max_alternatives s"
proof -
  have f: "fifo_ok (pw_max_events s) (pw_entries s) (pw_order s)" and wf: "hm_wf (pw_entries s)" and cap: "0 < pw_max_events s"
    using ok by (simp_all add: pw_ok_def fifo_ok_def)
  have e: "entry_ok (pw_max_alternatives s) q" if "(j, q) \<in> set (pw_entries s)" for j q using ok that by (auto simp: pw_ok_def)
  have "pw_ok s' \<and> (r \<longleftrightarrow> event_id \<notin> keys (pw_entries s)) \<and>
    (\<forall>j q. (j, q) \<in> set (pw_entries s') \<longrightarrow> (j, q) \<in> set (pw_entries s) \<or> j = event_id \<and>
      (if r then q = p else \<exists>q0. (j, q0) \<in> set (pw_entries s) \<and> q = add_provider (pw_max_alternatives s) (pi_selected p) q0 \<and>
         pi_event_kind p = pi_event_kind q0 \<and> pi_payload_bytes p = pi_payload_bytes q0)) \<and>
    pw_max_events s' = pw_max_events s \<and> pw_max_alternatives s' = pw_max_alternatives s"
  proof (cases "hm_get (pw_entries s) event_id")
    case None
    let ?m = "hm_insert event_id p (pw_entries s)"
    obtain order entries where ev: "evict_pending (pw_max_events s) (pw_order s @ [event_id]) ?m = (order, entries)" by force
    have "length ?m \<le> Suc (pw_max_events s)" using f None by (simp add: fifo_ok_def length_hm_insert)
    from evict_pending_ok[OF _ _ _ this ev] f None have fifo: "fifo_ok (pw_max_events s) entries order" and "set entries \<subseteq> set ?m"
      by (auto simp: fifo_ok_def)
    then have sub: "set entries \<subseteq> insert (event_id, p) (set (pw_entries s))" using set_hm_insert_subset[of event_id p "pw_entries s"] by blast
    have s': "s' = s\<lparr>pw_order := order, pw_entries := entries\<rparr>" and r using i None ev by (simp_all add: pw_insert_def)
    have "\<forall>(j, q)\<in>set entries. entry_ok (pw_max_alternatives s) q" using sub new e by blast
    then have "pw_ok s'" using cap fifo by (simp add: pw_ok_def s')
    moreover have "(j, q) \<in> set (pw_entries s) \<or> j = event_id \<and> q = p" if "(j, q) \<in> set (pw_entries s')" for j q
      using that sub by (auto simp: s')
    ultimately show ?thesis using None \<open>r\<close> by (simp add: s')
  next
    case (Some q0)
    have q0: "(event_id, q0) \<in> set (pw_entries s)" using Some hm_get_iff[OF wf] by simp
    let ?q = "add_provider (pw_max_alternatives s) (pi_selected p) q0"
    consider "s' = s" "\<not> r" | "s' = s\<lparr>pw_entries := hm_insert event_id ?q (pw_entries s)\<rparr>" "\<not> r"
        "pi_event_kind p = pi_event_kind q0" "pi_payload_bytes p = pi_payload_bytes q0"
      using i Some by (auto simp: pw_insert_def split: if_splits)
    then show ?thesis
    proof cases
      case 1
      then show ?thesis using ok hm_get_in_keys[OF Some] by simp
    next
      case 2
      have k: "event_id \<in> keys (pw_entries s)" by (rule hm_get_in_keys[OF Some])
      have "set (hm_insert event_id ?q (pw_entries s)) \<subseteq> insert (event_id, ?q) (set (pw_entries s))" by (rule set_hm_insert_subset)
      moreover have "entry_ok (pw_max_alternatives s) ?q" by (rule add_provider_ok(4)[OF e[OF q0]])
      moreover note fifo_ok_update[OF f k, of ?q]
      ultimately show ?thesis using 2 cap k e q0 unfolding pw_ok_def by fastforce
    qed
  qed
  then show "pw_ok s'" "r \<longleftrightarrow> event_id \<notin> keys (pw_entries s)"
    "(j, q) \<in> set (pw_entries s') \<Longrightarrow> (j, q) \<in> set (pw_entries s) \<or> j = event_id \<and>
      (if r then q = p else \<exists>q0. (j, q0) \<in> set (pw_entries s) \<and> q = add_provider (pw_max_alternatives s) (pi_selected p) q0 \<and>
         pi_event_kind p = pi_event_kind q0 \<and> pi_payload_bytes p = pi_payload_bytes q0)"
    "pw_max_events s' = pw_max_events s" "pw_max_alternatives s' = pw_max_alternatives s" by blast+
qed

lemma take_matching_Some:
  assumes "pw_ok s" and "take_matching i peer sub kind bytes s = (Some p, s')"
  shows "(i, p) \<in> set (pw_entries s)" and "s' = s\<lparr>pw_order := filter (\<lambda>c. c \<noteq> i) (pw_order s), pw_entries := hm_remove i (pw_entries s)\<rparr>"
    and "\<exists>pr\<in>set (providers p). ip_requested pr \<and> ip_peer pr = peer \<and> sub \<in> set (ip_subscriptions pr)"
    and "pi_event_kind p = kind" "pi_payload_bytes p = bytes" and "pw_ok s'"
proof -
  have wf: "hm_wf (pw_entries s)" using assms(1) by (simp add: pw_ok_def fifo_ok_def)
  obtain q where q: "hm_get (pw_entries s) i = Some p" "requested_provider peer p = Some q" "sub \<in> set (ip_subscriptions q)"
    "pi_event_kind p = kind" "pi_payload_bytes p = bytes"
    and s': "s' = s\<lparr>pw_order := filter (\<lambda>c. c \<noteq> i) (pw_order s), pw_entries := hm_remove i (pw_entries s)\<rparr>"
    using assms(2) by (auto simp: take_matching_def split: option.splits if_splits)
  show "(i, p) \<in> set (pw_entries s)" using q(1) hm_get_iff[OF wf] by simp
  show "s' = s\<lparr>pw_order := filter (\<lambda>c. c \<noteq> i) (pw_order s), pw_entries := hm_remove i (pw_entries s)\<rparr>" by (rule s')
  show "pi_event_kind p = kind" "pi_payload_bytes p = bytes" by (rule q(4), rule q(5))
  show "\<exists>pr\<in>set (providers p). ip_requested pr \<and> ip_peer pr = peer \<and> sub \<in> set (ip_subscriptions pr)"
    using q(2,3) unfolding requested_provider_def find_Some_iff by (metis nth_mem)
  have "length (hm_remove i (pw_entries s)) \<le> pw_max_events s"
    using length_hm_remove_le[of i "pw_entries s"] assms(1) by (auto simp: pw_ok_def fifo_ok_def intro: order_trans)
  then show "pw_ok s'" using assms(1) unfolding s' by (auto simp: pw_ok_def fifo_ok_def set_hm_remove)
qed

lemma take_matching_None: "take_matching i peer sub kind bytes s = (None, s') \<Longrightarrow> s' = s"
  by (auto simp: take_matching_def split: option.splits if_splits)

section \<open>Runs\<close>

text \<open>
  The calls of the client. An announcement becomes a pending inventory as in \<open>accept_inventory\<close> of \<open>client_inner.rs\<close>; an answer is a body that
  arrives under a subscription. The log has what crosses the wire: announcements and answers that come in, requests that go out.
\<close>

definition pending_from :: "string \<Rightarrow> string list \<Rightarrow> u16 \<Rightarrow> u32 \<Rightarrow> u8 \<Rightarrow> u64 \<Rightarrow> pending_inventory" where
  "pending_from peer subs kind bytes hop_limit now_ms =
     \<lparr>pi_selected = \<lparr>ip_peer = peer, ip_subscriptions = subs, ip_requested = True\<rparr>, pi_alternatives = [], pi_event_kind = kind,
      pi_payload_bytes = bytes, pi_hop_limit = hop_limit, pi_requested_at_ms = now_ms, pi_retry_count = 0\<rparr>"

datatype want_op =
  Announce string string "string list" u16 u32 u8 u64
| Answer string string string u16 u32
| CloseSubscription string
| LosePeer string u64
| Retry u64 u64
| Forget

datatype want_event =
  Announced string string "string list" u16 u32
| Requested string string
| Answered string string string u16 u32

fun want_step :: "want_op \<Rightarrow> pending_wants \<Rightarrow> want_event list \<times> pending_wants" where
  "want_step (Announce i peer subs kind bytes hop t) s =
     (case pw_insert i (pending_from peer subs kind bytes hop t) s of
        (fresh, s') \<Rightarrow> (Announced i peer subs kind bytes # (if fresh then [Requested i peer] else []), s'))"
| "want_step (Answer i peer sub kind bytes) s =
     (case take_matching i peer sub kind bytes s of
        (None, s') \<Rightarrow> ([], s')
      | (Some _, s') \<Rightarrow> ([Answered i peer sub kind bytes], s'))"
| "want_step (CloseSubscription sub) s = ([], pw_remove_subscription sub s)"
| "want_step (LosePeer peer t) s = ([], pw_remove_peer peer t s)"
| "want_step (Retry t after) s =
     (case retry_due t after s of (batch, s') \<Rightarrow> (map (\<lambda>(i, provider). Requested i (ip_peer provider)) (rb_retries batch), s'))"
| "want_step Forget s = ([], pw_clear s)"

fun want_run :: "want_op list \<Rightarrow> want_event list \<times> pending_wants \<Rightarrow> want_event list \<times> pending_wants" where
  "want_run [] ls = ls"
| "want_run (c # cs) ls = (case want_step c (snd ls) of (es, s') \<Rightarrow> want_run cs (fst ls @ es, s'))"

text \<open>An event is awaited from its first request until it is answered.\<close>

fun awaiting_after :: "string \<Rightarrow> want_event \<Rightarrow> bool \<Rightarrow> bool" where
  "awaiting_after i (Requested j _) b \<longleftrightarrow> b \<or> j = i"
| "awaiting_after i (Answered j _ _ _ _) b \<longleftrightarrow> b \<and> j \<noteq> i"
| "awaiting_after i (Announced _ _ _ _ _) b \<longleftrightarrow> b"

definition awaiting :: "string \<Rightarrow> want_event list \<Rightarrow> bool" where
  "awaiting i log = fold (awaiting_after i) log False"

definition provider_logged :: "want_event list \<Rightarrow> string \<Rightarrow> u16 \<Rightarrow> u32 \<Rightarrow> inventory_provider \<Rightarrow> bool" where
  "provider_logged log i kind bytes pr \<longleftrightarrow>
     (\<forall>sub\<in>set (ip_subscriptions pr). \<exists>subs. Announced i (ip_peer pr) subs kind bytes \<in> set log \<and> sub \<in> set subs) \<and>
     (ip_requested pr \<longrightarrow> Requested i (ip_peer pr) \<in> set log)"

definition entry_logged :: "want_event list \<Rightarrow> string \<times> pending_inventory \<Rightarrow> bool" where
  "entry_logged log = (\<lambda>(i, p). awaiting i log \<and> (\<forall>pr\<in>set (providers p). provider_logged log i (pi_event_kind p) (pi_payload_bytes p) pr))"

fun answer_justified :: "want_event list \<Rightarrow> want_event \<Rightarrow> bool" where
  "answer_justified pre (Answered i peer sub kind bytes) \<longleftrightarrow>
     Requested i peer \<in> set pre \<and> (\<exists>subs. Announced i peer subs kind bytes \<in> set pre \<and> sub \<in> set subs) \<and> awaiting i pre"
| "answer_justified pre _ \<longleftrightarrow> True"

definition log_ok :: "want_event list \<Rightarrow> bool" where
  "log_ok log \<longleftrightarrow> (\<forall>pre e post. log = pre @ e # post \<longrightarrow> answer_justified pre e)"

definition run_ok :: "want_event list \<times> pending_wants \<Rightarrow> bool" where
  "run_ok ls \<longleftrightarrow> pw_ok (snd ls) \<and> (\<forall>x\<in>set (pw_entries (snd ls)). entry_logged (fst ls) x) \<and> log_ok (fst ls)"

lemma log_ok_append:
  assumes "log_ok log" and "\<And>pre e post. es = pre @ e # post \<Longrightarrow> answer_justified (log @ pre) e"
  shows "log_ok (log @ es)"
  unfolding log_ok_def
proof (intro allI impI)
  fix pre e post
  assume a: "log @ es = pre @ e # post"
  then consider us where "log = pre @ e # us" | us where "pre = log @ us" "es = us @ e # post"
    unfolding append_eq_append_conv2 by (auto simp: Cons_eq_append_conv append_eq_Cons_conv)
  then show "answer_justified pre e" using assms unfolding log_ok_def by cases blast+
qed

abbreviation quiet :: "want_event list \<Rightarrow> bool" where
  "quiet es \<equiv> \<forall>e\<in>set es. \<forall>i peer sub kind bytes. e \<noteq> Answered i peer sub kind bytes"

lemma log_ok_quiet: "log_ok log \<Longrightarrow> quiet es \<Longrightarrow> log_ok (log @ es)"
proof (rule log_ok_append)
  fix pre e post
  assume "quiet es" "es = pre @ e # post"
  then show "answer_justified (log @ pre) e" by (cases e) auto
qed

lemma awaiting_append: "awaiting i (log @ es) = fold (awaiting_after i) es (awaiting i log)"
  by (simp add: awaiting_def)

lemma awaiting_quiet: "awaiting i log \<Longrightarrow> quiet es \<Longrightarrow> awaiting i (log @ es)"
proof (induction es arbitrary: log)
  case (Cons e es)
  then have "awaiting i (log @ [e])" by (cases e) (auto simp: awaiting_append)
  from Cons.IH[OF this] Cons.prems(2) show ?case by simp
qed simp

lemma provider_logged_mono: "provider_logged log i kind bytes pr \<Longrightarrow> provider_logged (log @ es) i kind bytes pr"
  unfolding provider_logged_def by fastforce

lemma entry_logged_quiet: "entry_logged log x \<Longrightarrow> quiet es \<Longrightarrow> entry_logged (log @ es) x"
  using awaiting_quiet provider_logged_mono by (auto simp: entry_logged_def)

lemma fold_outcomes:
  "rb_retries (fold (add_outcome t after) m b) =
     rb_retries b @ List.map_filter (\<lambda>(i, p). case retry_pending t after p of Retried p' \<Rightarrow> Some (i, pi_selected p') | _ \<Rightarrow> None) m"
  "rb_expired_event_count (fold (add_outcome t after) m b) =
     rb_expired_event_count b + length (filter (\<lambda>(i, p). retry_pending t after p = Expired) m)"
  by (induction m arbitrary: b) (auto simp: add_outcome_def map_filter_def split: retry_outcome.split)

lemma retries_mem:
  "(i, pr) \<in> set (rb_retries (fst (retry_due t after s))) \<longleftrightarrow>
     (\<exists>p p'. (i, p) \<in> set (pw_entries s) \<and> retry_pending t after p = Retried p' \<and> pr = pi_selected p')"
  unfolding retry_due_def fst_conv fold_outcomes(1)
  by (force simp: map_filter_def split: retry_outcome.splits)

lemma announce_ok:
  assumes run: "run_ok (log, s)" and i: "pw_insert i (pending_from peer subs kind bytes hop t) s = (fresh, s')"
  defines "es \<equiv> Announced i peer subs kind bytes # (if fresh then [Requested i peer] else [])"
  shows "run_ok (log @ es, s')"
proof -
  let ?p = "pending_from peer subs kind bytes hop t"
  have ok: "pw_ok s" and old: "\<And>x. x \<in> set (pw_entries s) \<Longrightarrow> entry_logged log x" and lg: "log_ok log" using run by (auto simp: run_ok_def)
  have "entry_ok (pw_max_alternatives s) ?p" by (simp add: entry_ok_def pending_from_def MAX_WANT_RETRIES_def)
  note ins = pw_insert_ok[OF ok this i]
  have q: "quiet es" by (simp add: es_def)
  have "entry_logged (log @ es) x" if "x \<in> set (pw_entries s')" for x
  proof -
    obtain j p where x: "x = (j, p)" by force
    from ins(3)[OF that[unfolded x]] consider "(j, p) \<in> set (pw_entries s)" | "j = i" "fresh" "p = ?p"
      | q0 where "j = i" "\<not> fresh" "(i, q0) \<in> set (pw_entries s)" "p = add_provider (pw_max_alternatives s) (pi_selected ?p) q0"
        "kind = pi_event_kind q0" "bytes = pi_payload_bytes q0"
      by (auto simp: pending_from_def split: if_splits)
    then show ?thesis
    proof cases
      case 1
      then show ?thesis using entry_logged_quiet[OF old q] x by simp
    next
      case 2
      then show ?thesis by (auto simp: x entry_logged_def es_def pending_from_def provider_logged_def awaiting_append)
    next
      case 3
      have l: "entry_logged (log @ es) (i, q0)" by (rule entry_logged_quiet[OF old[OF 3(3)] q])
      have a: "Announced i peer subs kind bytes \<in> set (log @ es)" by (simp add: es_def)
      have sel: "ip_peer (pi_selected ?p) = peer" "ip_subscriptions (pi_selected ?p) = subs" by (simp_all add: pending_from_def)
      have old_logged: "provider_logged (log @ es) i kind bytes x" if "x \<in> set (providers q0)" for x
        using l that 3(5,6) by (auto simp: entry_logged_def)
      have "provider_logged (log @ es) i kind bytes pr" if pr: "pr \<in> set (providers p)" for pr
        using add_provider_ok(1)[OF pr[unfolded 3(4)]]
      proof
        assume "ip_peer pr = ip_peer (pi_selected ?p) \<and> \<not> ip_requested pr \<and> set (ip_subscriptions pr) = set (ip_subscriptions (pi_selected ?p))"
        then show ?thesis using a by (auto simp: provider_logged_def pending_from_def)
      next
        assume "\<exists>x\<in>set (providers q0). ip_peer pr = ip_peer x \<and> ip_requested pr = ip_requested x \<and> set (ip_subscriptions pr) \<subseteq>
          set (ip_subscriptions x) \<union> (if ip_peer (pi_selected ?p) = ip_peer x then set (ip_subscriptions (pi_selected ?p)) else {})"
        then obtain x where x: "provider_logged (log @ es) i kind bytes x" "ip_peer pr = ip_peer x" "ip_requested pr = ip_requested x"
          "set (ip_subscriptions pr) \<subseteq> set (ip_subscriptions x) \<union> (if peer = ip_peer x then set subs else {})"
          using old_logged unfolding sel by blast
        show ?thesis unfolding provider_logged_def
        proof (intro conjI ballI)
          fix sub assume "sub \<in> set (ip_subscriptions pr)"
          then have "sub \<in> set (ip_subscriptions x) \<or> peer = ip_peer x \<and> sub \<in> set subs" using x(4) by (auto split: if_splits)
          then show "\<exists>subs. Announced i (ip_peer pr) subs kind bytes \<in> set (log @ es) \<and> sub \<in> set subs"
            using x(1,2) a unfolding provider_logged_def by auto
        qed (use x in \<open>simp add: provider_logged_def\<close>)
      qed
      moreover have "pi_event_kind p = kind" "pi_payload_bytes p = bytes" using 3 add_provider_ok(2,3) by simp_all
      ultimately show ?thesis using l by (simp add: x 3(1) entry_logged_def)
    qed
  qed
  then show ?thesis using ins(1) log_ok_quiet[OF lg q] by (simp add: run_ok_def)
qed

lemma answer_ok_step:
  assumes run: "run_ok (log, s)" and t: "take_matching i peer sub kind bytes s = (Some p, s')"
  shows "run_ok (log @ [Answered i peer sub kind bytes], s')"
proof -
  have ok: "pw_ok s" and old: "\<And>x. x \<in> set (pw_entries s) \<Longrightarrow> entry_logged log x" and lg: "log_ok log" using run by (auto simp: run_ok_def)
  note tk = take_matching_Some[OF ok t]
  have l: "awaiting i log" "\<And>pr. pr \<in> set (providers p) \<Longrightarrow> provider_logged log i kind bytes pr"
    using old[OF tk(1)] tk(4,5) by (auto simp: entry_logged_def)
  obtain pr where pr: "pr \<in> set (providers p)" "ip_requested pr" "ip_peer pr = peer" "sub \<in> set (ip_subscriptions pr)" using tk(3) by blast
  have "answer_justified log (Answered i peer sub kind bytes)" using l(1) l(2)[OF pr(1)] pr by (auto simp: provider_logged_def)
  then have "log_ok (log @ [Answered i peer sub kind bytes])"
    by (intro log_ok_append[OF lg]) (auto simp: Cons_eq_append_conv)
  moreover have "entry_logged (log @ [Answered i peer sub kind bytes]) x" if "x \<in> set (pw_entries s')" for x
  proof -
    have "x \<in> set (pw_entries s)" "fst x \<noteq> i" using that by (auto simp: tk(2) set_hm_remove)
    then show ?thesis using old[of x] provider_logged_mono by (auto simp: entry_logged_def awaiting_append)
  qed
  ultimately show ?thesis using tk(6) by (simp add: run_ok_def)
qed

text \<open>The loops over the entries: what they keep follows from what was there, given the requests that go out.\<close>

lemma retain_run_ok:
  assumes run: "run_ok (log, s)" and q: "quiet es"
    and e: "\<And>m p p'. entry_ok m p \<Longrightarrow> f p = Some p' \<Longrightarrow> entry_ok m p'"
    and k: "\<And>p p'. f p = Some p' \<Longrightarrow> pi_event_kind p' = pi_event_kind p \<and> pi_payload_bytes p' = pi_payload_bytes p"
    and pr: "\<And>i p p' pr'. (i, p) \<in> set (pw_entries s) \<Longrightarrow> f p = Some p' \<Longrightarrow> pr' \<in> set (providers p') \<Longrightarrow>
      \<exists>pr\<in>set (providers p). ip_peer pr' = ip_peer pr \<and> set (ip_subscriptions pr') \<subseteq> set (ip_subscriptions pr) \<and>
        (ip_requested pr' \<longrightarrow> ip_requested pr \<or> Requested i (ip_peer pr) \<in> set es)"
  shows "run_ok (log @ es, retain_entries f s)"
proof -
  have ok: "pw_ok s" and old: "\<And>x. x \<in> set (pw_entries s) \<Longrightarrow> entry_logged log x" and lg: "log_ok log" using run by (auto simp: run_ok_def)
  have "entry_logged (log @ es) x" if x': "x \<in> set (pw_entries (retain_entries f s))" for x
  proof -
    obtain i p' where x: "x = (i, p')" by force
    obtain p where p: "(i, p) \<in> set (pw_entries s)" "f p = Some p'" using x' unfolding x set_retain by blast
    have l: "entry_logged (log @ es) (i, p)" by (rule entry_logged_quiet[OF old[OF p(1)] q])
    have "provider_logged (log @ es) i (pi_event_kind p) (pi_payload_bytes p) pr'" if pr': "pr' \<in> set (providers p')" for pr'
    proof -
      obtain pr where "pr \<in> set (providers p)" "ip_peer pr' = ip_peer pr" "set (ip_subscriptions pr') \<subseteq> set (ip_subscriptions pr)"
        "ip_requested pr' \<longrightarrow> ip_requested pr \<or> Requested i (ip_peer pr) \<in> set es" using pr[OF p pr'] by blast
      moreover from this have "provider_logged (log @ es) i (pi_event_kind p) (pi_payload_bytes p) pr" using l by (auto simp: entry_logged_def)
      ultimately show ?thesis unfolding provider_logged_def by auto
    qed
    then show ?thesis using l k[OF p(2)] by (simp add: x entry_logged_def)
  qed
  then show ?thesis using retain_ok[OF ok, of f] e log_ok_quiet[OF lg q] by (simp add: run_ok_def)
qed

lemma want_step_ok:
  assumes run: "run_ok (log, s)" and st: "want_step c s = (es, s')"
  shows "run_ok (log @ es, s')"
proof (cases c)
  case (Announce i peer subs kind bytes hop t)
  then show ?thesis using announce_ok[OF run] st by (auto split: prod.splits)
next
  case (Answer i peer sub kind bytes)
  obtain r s1 where t: "take_matching i peer sub kind bytes s = (r, s1)" by force
  show ?thesis
  proof (cases r)
    case None
    then show ?thesis using t take_matching_None[of i peer sub kind bytes s s1] st run by (simp add: Answer)
  next
    case (Some p)
    then show ?thesis using t answer_ok_step[OF run, of i peer sub kind bytes p s1] st by (simp add: Answer)
  qed
next
  case (CloseSubscription sub)
  have "run_ok (log @ [], retain_entries (forget_subscription sub) s)"
    by (rule retain_run_ok[OF run]) (use forget_subscription_peers in \<open>fastforce simp: without_subscription_def\<close>)+
  then show ?thesis using st by (simp add: CloseSubscription pw_remove_subscription_def)
next
  case (LosePeer peer t)
  have "run_ok (log @ [], retain_entries (forget_peer peer t) s)"
  proof (rule retain_run_ok[OF run])
    fix i p p' pr'
    assume "forget_peer peer t p = Some p'" "pr' \<in> set (providers p')"
    then have "pr' \<in> set (providers p)" using forget_peer_peers(1) by blast
    then show "\<exists>pr\<in>set (providers p). ip_peer pr' = ip_peer pr \<and> set (ip_subscriptions pr') \<subseteq> set (ip_subscriptions pr) \<and>
        (ip_requested pr' \<longrightarrow> ip_requested pr \<or> Requested i (ip_peer pr) \<in> set [])" by blast
  qed (simp, rule forget_peer_peers(4), simp_all add: forget_peer_peers(2,3))
  then show ?thesis using st by (simp add: LosePeer pw_remove_peer_def)
next
  case (Retry t after)
  let ?f = "\<lambda>pending. case retry_pending t after pending of NotDue \<Rightarrow> Some pending | Expired \<Rightarrow> None | Retried p \<Rightarrow> Some p"
  have es: "es = map (\<lambda>(i, provider). Requested i (ip_peer provider)) (rb_retries (fst (retry_due t after s)))" "s' = retain_entries ?f s"
    using st by (auto simp: Retry retry_due_def split: prod.splits)
  have cases: "p' = p \<or> retry_pending t after p = Retried p'" if "?f p = Some p'" for p p' using that by (auto split: retry_outcome.splits)
  have "run_ok (log @ es, retain_entries ?f s)"
  proof (rule retain_run_ok[OF run])
    show "quiet es" by (auto simp: es)
    show "entry_ok m p'" if "entry_ok m p" "?f p = Some p'" for m p p' using cases[OF that(2)] retried(6) that(1) by blast
    show "pi_event_kind p' = pi_event_kind p \<and> pi_payload_bytes p' = pi_payload_bytes p" if "?f p = Some p'" for p p'
      using cases[OF that] retried(4,5) by blast
    fix i p p' pr'
    assume p: "(i, p) \<in> set (pw_entries s)" "?f p = Some p'" "pr' \<in> set (providers p')"
    from cases[OF p(2)] show "\<exists>pr\<in>set (providers p). ip_peer pr' = ip_peer pr \<and> set (ip_subscriptions pr') \<subseteq> set (ip_subscriptions pr) \<and>
        (ip_requested pr' \<longrightarrow> ip_requested pr \<or> Requested i (ip_peer pr) \<in> set es)"
    proof
      assume r: "retry_pending t after p = Retried p'"
      then have "(i, pi_selected p') \<in> set (rb_retries (fst (retry_due t after s)))" using p(1) retries_mem by blast
      then have req: "Requested i (ip_peer (pi_selected p')) \<in> set es" by (force simp: es)
      obtain pr where pr: "pr \<in> set (providers p)" "pi_selected p' = pr\<lparr>ip_requested := True\<rparr>" using retried(3)[OF r] by blast
      show ?thesis
      proof (cases "pr' = pi_selected p'")
        case True
        then show ?thesis using pr req by (intro bexI[OF _ pr(1)]) simp
      next
        case False
        then have "pr' \<in> set (providers p)" using retried(1)[OF r] p(3) by blast
        then show ?thesis by blast
      qed
    qed (use p(3) in blast)
  qed
  then show ?thesis by (simp add: es(2))
next
  case Forget
  then show ?thesis using run st by (auto simp: run_ok_def pw_clear_def pw_ok_def)
qed

lemma want_run_ok: "run_ok ls \<Longrightarrow> run_ok (want_run cs ls)"
proof (induction cs ls rule: want_run.induct)
  case (2 c cs ls)
  obtain es s' where "want_step c (snd ls) = (es, s')" by force
  then show ?case using 2 want_step_ok[of "fst ls" "snd ls" c es s'] by simp
qed simp

lemma want_step_limits: "want_step c s = (es, s') \<Longrightarrow> pw_max_events s' = pw_max_events s \<and> pw_max_alternatives s' = pw_max_alternatives s"
  by (cases c) (auto simp: pw_insert_def take_matching_def pw_remove_subscription_def pw_remove_peer_def retry_due_def retain_entries_def
    pw_clear_def Let_def split: prod.splits option.splits if_splits)

lemma want_run_limits: "pw_max_events (snd (want_run cs ls)) = pw_max_events (snd ls) \<and>
    pw_max_alternatives (snd (want_run cs ls)) = pw_max_alternatives (snd ls)"
proof (induction cs ls rule: want_run.induct)
  case (2 c cs ls)
  obtain es s' where "want_step c (snd ls) = (es, s')" by force
  then show ?case using 2 want_step_limits[of c "snd ls" es s'] by simp
qed simp

text \<open>
  C36: a body is accepted only as the answer to a request. Whatever peers announce and answer, and however subscriptions close, peers leave and
  requests are retried: an answer that is accepted comes from a peer to which a request for that event was sent, was announced by that peer for that
  subscription with the same kind and size, and at most one answer is accepted between two requests. The number of pending events, the alternatives of
  each and its retries stay within their limits, and no peer stands twice among the providers of an event.
\<close>

theorem wants_solicited:
  assumes "0 < max_events" and "want_run ops ([], pw_new max_events max_alternatives) = (log, s)"
  shows "(\<forall>pre i peer sub kind bytes post. log = pre @ Answered i peer sub kind bytes # post \<longrightarrow>
      Requested i peer \<in> set pre \<and> (\<exists>subs. Announced i peer subs kind bytes \<in> set pre \<and> sub \<in> set subs) \<and> awaiting i pre) \<and>
    length (pw_entries s) \<le> max_events \<and> length (pw_order s) = length (pw_entries s) \<and>
    (\<forall>(i, p)\<in>set (pw_entries s). length (pi_alternatives p) \<le> max_alternatives \<and> distinct (map ip_peer (providers p)) \<and> pi_retry_count p \<le> MAX_WANT_RETRIES)"
proof -
  have "run_ok ([], pw_new max_events max_alternatives)" using assms(1) by (simp add: run_ok_def pw_ok_def pw_new_def log_ok_def)
  from want_run_ok[OF this, of ops] have ok: "pw_ok s" "log_ok log" unfolding assms(2) by (simp_all add: run_ok_def)
  have lim: "pw_max_events s = max_events \<and> pw_max_alternatives s = max_alternatives"
    using want_run_limits[of ops "([], pw_new max_events max_alternatives)"] unfolding assms(2) by (simp add: pw_new_def)
  have "Requested i peer \<in> set pre \<and> (\<exists>subs. Announced i peer subs kind bytes \<in> set pre \<and> sub \<in> set subs) \<and> awaiting i pre"
    if "log = pre @ Answered i peer sub kind bytes # post" for pre i peer sub kind bytes post
    using ok(2) that unfolding log_ok_def by (metis answer_justified.simps(1))
  then show ?thesis using ok(1) lim fifo_ok_length[of max_events "pw_entries s" "pw_order s"] unfolding pw_ok_def entry_ok_def
    by (simp add: fifo_ok_def)
qed

lemma demo_want_log:
  "fst (want_run [Announce ''e'' ''a'' [''s''] 1 20 3 100, Announce ''e'' ''b'' [''s''] 1 20 3 110, Answer ''e'' ''b'' ''s'' 1 20,
      Retry 2000 1000, Answer ''e'' ''b'' ''s'' 1 20] ([], pw_new 8 2)) =
    [Announced ''e'' ''a'' [''s''] 1 20, Requested ''e'' ''a'', Announced ''e'' ''b'' [''s''] 1 20, Requested ''e'' ''b'',
       Answered ''e'' ''b'' ''s'' 1 20]"
  by (simp add: pw_new_def pw_insert_def pending_from_def add_provider_def take_matching_def requested_provider_def retry_due_def
    add_outcome_def retry_pending_def retain_entries_def map_filter_def sat_mul_def sat_sub_def MAX_WANT_RETRIES_def Let_def)

theorem wants_solicited_witness:
  "\<exists>log s. want_run [Announce ''e'' ''a'' [''s''] 1 20 3 100, Announce ''e'' ''b'' [''s''] 1 20 3 110, Answer ''e'' ''b'' ''s'' 1 20,
      Retry 2000 1000, Answer ''e'' ''b'' ''s'' 1 20] ([], pw_new 8 2) = (log, s) \<and>
     log = [Announced ''e'' ''a'' [''s''] 1 20, Requested ''e'' ''a'', Announced ''e'' ''b'' [''s''] 1 20, Requested ''e'' ''b'',
       Answered ''e'' ''b'' ''s'' 1 20] \<and> Requested ''e'' ''b'' \<in> set (take 4 log) \<and> length (pw_entries s) \<le> 8"
proof -
  let ?ops = "[Announce ''e'' ''a'' [''s''] 1 20 3 100, Announce ''e'' ''b'' [''s''] 1 20 3 110, Answer ''e'' ''b'' ''s'' 1 20,
      Retry 2000 1000, Answer ''e'' ''b'' ''s'' 1 20]"
  let ?log = "[Announced ''e'' ''a'' [''s''] 1 20, Requested ''e'' ''a'', Announced ''e'' ''b'' [''s''] 1 20, Requested ''e'' ''b'',
       Answered ''e'' ''b'' ''s'' 1 20]"
  obtain log s where r: "want_run ?ops ([], pw_new 8 2) = (log, s)" by force
  have l: "log = ?log" using arg_cong[OF r, of fst] by (subst (asm) demo_want_log) simp
  have "log = take 4 log @ Answered ''e'' ''b'' ''s'' 1 20 # []" by (simp add: l)
  then show ?thesis using wants_solicited[OF _ r] l r by simp
qed

section \<open>Expiry\<close>

fun retry_passes :: "u64 list \<Rightarrow> u64 \<Rightarrow> pending_wants \<Rightarrow> retry_batch list \<times> pending_wants" where
  "retry_passes [] after s = ([], s)"
| "retry_passes (t # ts) after s =
     (case retry_due t after s of (b, s1) \<Rightarrow> case retry_passes ts after s1 of (bs, s2) \<Rightarrow> (b # bs, s2))"

text \<open>The longest delay is 32 times the base; passes that far apart find every entry due.\<close>

fun spaced :: "nat \<Rightarrow> u64 \<Rightarrow> u64 list \<Rightarrow> bool" where
  "spaced t after [] \<longleftrightarrow> True"
| "spaced t after (t' # ts) \<longleftrightarrow> t + 32 * unat after \<le> unat t' \<and> spaced (unat t') after ts"

lemma unat_shift: "n \<le> (5 :: u8) \<Longrightarrow> unat (push_bit (unat n) 1 :: u64) \<le> 32"
proof -
  assume "n \<le> 5"
  then have "unat n \<le> 5" by (simp add: word_le_nat_alt)
  then have "unat n = 0 \<or> unat n = 1 \<or> unat n = 2 \<or> unat n = 3 \<or> unat n = 4 \<or> unat n = 5" by linarith
  then show ?thesis by (elim disjE) simp_all
qed

lemma overdue_due:
  assumes "unat (pi_requested_at_ms p) + 32 * unat after \<le> unat t"
  shows "retry_pending t after p \<noteq> NotDue"
proof -
  let ?m = "push_bit (unat (min (pi_retry_count p) MAX_WANT_RETRIES)) 1 :: u64"
  have "unat ?m \<le> 32" by (rule unat_shift) (simp add: MAX_WANT_RETRIES_def)
  have "unat (sat_mul after ?m) \<le> unat after * unat ?m"
    by (auto simp: sat_mul_def unat_word_ariths unsigned_minus_1_eq_mask mask_eq_exp_minus_1)
  also have "\<dots> \<le> unat after * 32" by (rule mult_le_mono2) fact
  finally have "\<not> sat_sub t (pi_requested_at_ms p) < sat_mul after ?m" using assms by (simp add: word_less_nat_alt)
  then show ?thesis by (auto simp: retry_pending_def Let_def split: if_splits prod.split)
qed

lemma retry_expired: "retry_pending t after p = Expired \<Longrightarrow> MAX_WANT_RETRIES \<le> pi_retry_count p"
  by (auto simp: retry_pending_def Let_def split: if_splits prod.splits)

abbreviation retries_of :: "string \<Rightarrow> retry_batch \<Rightarrow> nat" where
  "retries_of i b \<equiv> length (filter (\<lambda>x. fst x = i) (rb_retries b))"

lemma retain_length:
  "length (pw_entries (retain_entries f s)) + length (filter (\<lambda>(i, p). f p = None) (pw_entries s)) = length (pw_entries s)"
proof -
  have "length (List.map_filter (\<lambda>(i, p). map_option (\<lambda>p'. (i, p')) (f p)) m) + length (filter (\<lambda>(i, p). f p = None) m) = length m" for m :: "(string \<times> pending_inventory) list"
    by (induction m) (auto simp: map_filter_def)
  then show ?thesis by (simp add: retain_entries_def Let_def)
qed

lemma hm_wf_count: "hm_wf m \<Longrightarrow> length (filter (\<lambda>x. fst x = i) m) = (if i \<in> keys m then 1 else 0)"
  by (induction m) (force simp: filter_empty_conv)+

lemma retry_pass:
  assumes ok: "pw_ok s" and due: "\<forall>(i, p)\<in>set (pw_entries s). retry_pending t after p \<noteq> NotDue" and r: "retry_due t after s = (b, s')"
  shows "pw_ok s'" and "length (pw_entries s') + rb_expired_event_count b = length (pw_entries s)"
    and "(i, p') \<in> set (pw_entries s') \<Longrightarrow> \<exists>p. (i, p) \<in> set (pw_entries s) \<and> retry_pending t after p = Retried p'"
    and "retries_of i b = (if i \<in> keys (pw_entries s') then 1 else 0)"
proof -
  let ?f = "\<lambda>pending. case retry_pending t after pending of NotDue \<Rightarrow> Some pending | Expired \<Rightarrow> None | Retried p \<Rightarrow> Some p"
  have s': "s' = retain_entries ?f s" and b: "b = fst (retry_due t after s)" using r by (simp_all add: retry_due_def)
  have "entry_ok m p'" if "entry_ok m p" "?f p = Some p'" for m p p'
    using that retried(6) by (auto split: retry_outcome.splits)
  then show ok': "pw_ok s'" unfolding s' by (intro retain_ok[OF ok]) blast
  have "filter (\<lambda>(i, p). ?f p = None) (pw_entries s) = filter (\<lambda>(i, p). retry_pending t after p = Expired) (pw_entries s)"
  proof (rule filter_cong[OF refl])
    fix x assume "x \<in> set (pw_entries s)"
    then show "(case x of (i, p) \<Rightarrow> ?f p = None) = (case x of (i, p) \<Rightarrow> retry_pending t after p = Expired)"
      by (cases "retry_pending t after (snd x)") (auto simp: case_prod_beta)
  qed
  then show "length (pw_entries s') + rb_expired_event_count b = length (pw_entries s)"
    using retain_length[of ?f s] unfolding s' b retry_due_def fst_conv fold_outcomes(2) by simp
  show mem: "\<exists>p. (i, p) \<in> set (pw_entries s) \<and> retry_pending t after p = Retried p'" if "(i, p') \<in> set (pw_entries s')" for i p'
    using that due unfolding s' set_retain by (fastforce split: retry_outcome.splits)
  have "distinct (map fst (rb_retries b))"
  proof -
    let ?g = "\<lambda>(i, p). case retry_pending t after p of Retried p' \<Rightarrow> Some (i, pi_selected p') | _ \<Rightarrow> None"
    have "hm_wf (List.map_filter ?g (pw_entries s))"
      using ok by (intro map_filter_keys(2)) (auto simp: pw_ok_def fifo_ok_def split: prod.splits retry_outcome.splits)
    then show ?thesis unfolding b retry_due_def fst_conv fold_outcomes(1) by simp
  qed
  then have "retries_of i b = (if i \<in> fst ` set (rb_retries b) then 1 else 0)" by (rule hm_wf_count)
  moreover have "i \<in> fst ` set (rb_retries b) \<longleftrightarrow> i \<in> keys (pw_entries s')"
  proof
    assume "i \<in> fst ` set (rb_retries b)"
    then obtain p p' where "(i, p) \<in> set (pw_entries s)" "retry_pending t after p = Retried p'" using retries_mem unfolding b by fastforce
    then have "(i, p') \<in> set (pw_entries s')" unfolding s' set_retain by (intro exI[of _ p]) simp
    then show "i \<in> keys (pw_entries s')" by force
  next
    assume "i \<in> keys (pw_entries s')"
    then obtain p' where "(i, p') \<in> set (pw_entries s')" by auto
    from mem[OF this] have "(i, pi_selected p') \<in> set (rb_retries b)" unfolding b retries_mem by blast
    then show "i \<in> fst ` set (rb_retries b)" by force
  qed
  ultimately show "retries_of i b = (if i \<in> keys (pw_entries s') then 1 else 0)" by simp
qed

lemma retry_passes_ok:
  assumes "pw_ok s" and "\<forall>(i, p)\<in>set (pw_entries s). unat (pi_requested_at_ms p) \<le> t0 \<and> 6 \<le> unat (pi_retry_count p) + length ts"
    and "spaced t0 after ts" and "retry_passes ts after s = (bs, s')"
  shows "pw_entries s' = [] \<and> pw_order s' = [] \<and> sum_list (map rb_expired_event_count bs) = length (pw_entries s) \<and>
    (\<forall>i. sum_list (map (retries_of i) bs) \<le> (case hm_get (pw_entries s) i of None \<Rightarrow> 0 | Some p \<Rightarrow> 5 - unat (pi_retry_count p)))"
  using assms
proof (induction ts arbitrary: s t0 bs)
  case Nil
  have "False" if "(i, p) \<in> set (pw_entries s)" for i p
    using Nil.prems(1) bspec[OF Nil.prems(2) that] that by (auto simp: pw_ok_def entry_ok_def MAX_WANT_RETRIES_def word_le_nat_alt)
  then have "pw_entries s = []" by (cases "pw_entries s") auto
  then show ?case using Nil.prems(1,4) by (auto simp: pw_ok_def fifo_ok_def)
next
  case (Cons t ts)
  obtain b s1 where r: "retry_due t after s = (b, s1)" by force
  obtain bs1 where rs: "retry_passes ts after s1 = (bs1, s')" and bs: "bs = b # bs1" using Cons.prems(4) r by (auto split: prod.splits)
  have due: "\<forall>(i, p)\<in>set (pw_entries s). retry_pending t after p \<noteq> NotDue"
  proof safe
    fix i p assume p: "(i, p) \<in> set (pw_entries s)" "retry_pending t after p = NotDue"
    then have "unat (pi_requested_at_ms p) + 32 * unat after \<le> unat t" using bspec[OF Cons.prems(2) p(1)] Cons.prems(3) by simp
    then show False using overdue_due p(2) by blast
  qed
  note ps = retry_pass[OF Cons.prems(1) due r]
  have n: "\<forall>(i, p')\<in>set (pw_entries s1). unat (pi_requested_at_ms p') \<le> unat t \<and> 6 \<le> unat (pi_retry_count p') + length ts"
  proof (intro ballI, clarify)
    fix i p' assume p': "(i, p') \<in> set (pw_entries s1)"
    obtain p where p: "(i, p) \<in> set (pw_entries s)" "retry_pending t after p = Retried p'" using ps(3)[OF p'] by blast
    then show "unat (pi_requested_at_ms p') \<le> unat t \<and> 6 \<le> unat (pi_retry_count p') + length ts"
      using retried(7,8)[OF p(2)] bspec[OF Cons.prems(2) p(1)] by simp
  qed
  have "spaced (unat t) after ts" using Cons.prems(3) by simp
  note ih = Cons.IH[OF ps(1) n this rs]
  have wf: "hm_wf (pw_entries s)" "hm_wf (pw_entries s1)" using Cons.prems(1) ps(1) by (simp_all add: pw_ok_def fifo_ok_def)
  have "sum_list (map (retries_of i) bs) \<le> (case hm_get (pw_entries s) i of None \<Rightarrow> 0 | Some p \<Rightarrow> 5 - unat (pi_retry_count p))" for i
  proof (cases "hm_get (pw_entries s1) i")
    case None
    then have "sum_list (map (retries_of i) bs1) = 0" "retries_of i b = 0" using ih ps(4)[of i] by (auto dest: spec[of _ i])
    then have "sum_list (map (retries_of i) bs) = 0" unfolding bs by simp
    then show ?thesis by (simp only: le0)
  next
    case (Some p')
    then have "(i, p') \<in> set (pw_entries s1)" using hm_get_iff[OF wf(2)] by simp
    then obtain p where p: "(i, p) \<in> set (pw_entries s)" "retry_pending t after p = Retried p'" using ps(3) by blast
    have "unat (pi_retry_count p') \<le> 5"
      using ps(1) \<open>(i, p') \<in> set (pw_entries s1)\<close> by (auto simp: pw_ok_def entry_ok_def MAX_WANT_RETRIES_def word_le_nat_alt)
    moreover have "hm_get (pw_entries s) i = Some p" using p(1) hm_get_iff[OF wf(1)] by simp
    moreover have "sum_list (map (retries_of i) bs1) \<le> 5 - unat (pi_retry_count p')" using ih Some by (auto dest: spec[of _ i])
    moreover have "retries_of i b \<le> 1" using ps(4)[of i] by simp
    ultimately show ?thesis using retried(8)[OF p(2)] by (simp add: bs)
  qed
  then show ?case using ih ps(2) by (simp add: bs)
qed

text \<open>
  C37: requests that are never answered come to an end. From any state of the client, six passes that lie at least 32 base delays apart leave nothing pending:
  every pending event is reported as expired exactly once, and until then it is requested again at most five times.
\<close>

theorem wants_expire:
  assumes "0 < max_events" and "want_run ops ([], pw_new max_events max_alternatives) = (log, s)"
    and "\<forall>(i, p)\<in>set (pw_entries s). unat (pi_requested_at_ms p) \<le> t0" and "spaced t0 after [t1, t2, t3, t4, t5, t6]"
    and "retry_passes [t1, t2, t3, t4, t5, t6] after s = (batches, s')"
  shows "pw_entries s' = [] \<and> pw_order s' = [] \<and> sum_list (map rb_expired_event_count batches) = length (pw_entries s) \<and>
    (\<forall>i. sum_list (map (retries_of i) batches) \<le> 5)"
proof -
  have "run_ok ([], pw_new max_events max_alternatives)" using assms(1) by (simp add: run_ok_def pw_ok_def pw_new_def log_ok_def)
  from want_run_ok[OF this, of ops] have ok: "pw_ok s" unfolding assms(2) by (simp add: run_ok_def)
  have "\<forall>(i, p)\<in>set (pw_entries s). unat (pi_requested_at_ms p) \<le> t0 \<and> 6 \<le> unat (pi_retry_count p) + length [t1, t2, t3, t4, t5, t6]"
    using assms(3) by auto
  note r = retry_passes_ok[OF ok this assms(4,5)]
  have "(case hm_get (pw_entries s) i of None \<Rightarrow> 0 | Some p \<Rightarrow> 5 - unat (pi_retry_count p)) \<le> 5" for i by (simp split: option.split)
  then show ?thesis using r order_trans by blast
qed

theorem wants_expire_witness:
  "\<exists>batches s'. retry_passes [1000, 2000, 3000, 4000, 5000, 6000] 10
      (snd (want_run [Announce ''e'' ''a'' [''s''] 1 20 3 100] ([], pw_new 8 2))) = (batches, s') \<and>
    pw_entries s' = [] \<and> sum_list (map rb_expired_event_count batches) = 1"
proof -
  obtain log s where r: "want_run [Announce ''e'' ''a'' [''s''] 1 20 3 100] ([], pw_new 8 2) = (log, s)" by force
  have s: "pw_entries s = [(''e'', pending_from ''a'' [''s''] 1 20 3 100)]" using r by (auto simp: pw_new_def pw_insert_def)
  obtain batches s' where b: "retry_passes [1000, 2000, 3000, 4000, 5000, 6000] 10 s = (batches, s')" by force
  have "pw_entries s' = [] \<and> pw_order s' = [] \<and> sum_list (map rb_expired_event_count batches) = length (pw_entries s) \<and>
    (\<forall>i. sum_list (map (retries_of i) batches) \<le> 5)"
    by (rule wants_expire[OF _ r _ _ b, of 100]) (simp_all add: s pending_from_def)
  then show ?thesis using b r s by simp
qed

end
