(* ===== verification/Seen_Ids.thy ===== *)
theory Seen_Ids
  imports Prelude
begin

text \<open>
  Bounded observations of event identifiers per peer and subscription, \<open>crates/nostr-pubsub-fips/src/seen_ids.rs\<close>. Every scope has a
  window of identifiers with an insertion queue, and one queue over all scopes carries the limit on the total; entries
  that have left a window stay in that queue until they come to its front or the queue is compacted. A subtraction
  that would underflow is \<open>None\<close>.
\<close>

section \<open>Operations\<close>

record obs_scope =
  sc_peer :: string
  sc_subscription :: string

record id_observation =
  ob_generation :: u64
  ob_matched :: bool

record id_window =
  iw_ids :: "(string, id_observation) hmap"
  iw_order :: "(string \<times> u64) list"

record observation =
  obs_first :: bool
  obs_previously_matched :: bool

type_synonym scope_map = "(obs_scope, id_window) hmap"

record seen_ids =
  si_max_per_scope :: nat
  si_max_total :: nat
  si_next_generation :: u64
  si_total :: nat
  si_scopes :: scope_map
  si_global_order :: "(obs_scope \<times> string \<times> u64) list"

definition seen_ids_new :: "nat \<Rightarrow> nat \<Rightarrow> seen_ids" where
  "seen_ids_new max_per_scope max_total =
     \<lparr>si_max_per_scope = max_per_scope, si_max_total = max_total, si_next_generation = 1, si_total = 0, si_scopes = [],
      si_global_order = []\<rparr>"

abbreviation current :: "(string, id_observation) hmap \<Rightarrow> string \<times> u64 \<Rightarrow> bool" where
  "current ids ig \<equiv> map_option ob_generation (hm_get ids (fst ig)) = Some (snd ig)"

fun trim_window ::
  "nat \<Rightarrow> (string \<times> u64) list \<Rightarrow> (string, id_observation) hmap \<Rightarrow> nat \<Rightarrow> ((string \<times> u64) list \<times> (string, id_observation) hmap \<times> nat) option" where
  "trim_window max_per_scope [] ids held_total = Some ([], ids, held_total)"
| "trim_window max_per_scope (oldest # order) ids held_total =
     (if length ids > max_per_scope then
        (if current ids oldest
         then (if held_total = 0 then None else trim_window max_per_scope order (hm_remove (fst oldest) ids) (held_total - 1))
         else trim_window max_per_scope order ids held_total)
      else Some (oldest # order, ids, held_total))"

definition live :: "scope_map \<Rightarrow> obs_scope \<times> string \<times> u64 \<Rightarrow> bool" where
  "live scopes t = (case hm_get scopes (fst t) of None \<Rightarrow> False | Some w \<Rightarrow> current (iw_ids w) (snd t))"

text \<open>One entry of the global queue that is still in its window leaves it; an emptied scope is removed.\<close>

definition drop_entry :: "obs_scope \<times> string \<times> u64 \<Rightarrow> scope_map \<Rightarrow> scope_map" where
  "drop_entry t scopes =
     (case hm_get scopes (fst t) of
        None \<Rightarrow> scopes
      | Some w \<Rightarrow>
          (let ids = hm_remove (fst (snd t)) (iw_ids w)
           in if ids = [] then hm_remove (fst t) scopes
              else hm_insert (fst t) \<lparr>iw_ids = ids, iw_order = dropWhile (\<lambda>ig. \<not> current ids ig) (iw_order w)\<rparr> scopes))"

fun evict_loop ::
  "nat \<Rightarrow> (obs_scope \<times> string \<times> u64) list \<Rightarrow> scope_map \<Rightarrow> nat \<Rightarrow> (obs_scope \<times> string \<times> u64) list \<times> scope_map \<times> nat" where
  "evict_loop max_total [] scopes held_total = ([], scopes, held_total)"
| "evict_loop max_total (t # order) scopes held_total =
     (if held_total > max_total then
        (if live scopes t then evict_loop max_total order (drop_entry t scopes) (held_total - 1)
         else evict_loop max_total order scopes held_total)
      else (t # order, scopes, held_total))"

definition evict_global :: "seen_ids \<Rightarrow> seen_ids" where
  "evict_global s =
     (case evict_loop (si_max_total s) (si_global_order s) (si_scopes s) (si_total s) of
        (order, scopes, held_total) \<Rightarrow>
          s\<lparr>si_scopes := scopes, si_total := held_total,
            si_global_order := (if length order > si_max_total s * 2 then filter (live scopes) order else order)\<rparr>)"

definition observe_with_match :: "string \<Rightarrow> string \<Rightarrow> string \<Rightarrow> bool \<Rightarrow> seen_ids \<Rightarrow> (observation \<times> seen_ids) option" where
  "observe_with_match peer_npub subscription_id event_id matched_subscription s =
     (let scope = \<lparr>sc_peer = peer_npub, sc_subscription = subscription_id\<rparr>;
          window = (case hm_get (si_scopes s) scope of None \<Rightarrow> \<lparr>iw_ids = [], iw_order = []\<rparr> | Some w \<Rightarrow> w)
      in case hm_get (iw_ids window) event_id of
           Some previous \<Rightarrow> Some (\<lparr>obs_first = False, obs_previously_matched = ob_matched previous\<rparr>, s)
         | None \<Rightarrow>
             (let generation = si_next_generation s;
                  ids = hm_insert event_id \<lparr>ob_generation = generation, ob_matched = matched_subscription\<rparr> (iw_ids window)
              in case trim_window (si_max_per_scope s) (iw_order window @ [(event_id, generation)]) ids (si_total s + 1) of
                   None \<Rightarrow> None
                 | Some (order, ids', held_total) \<Rightarrow>
                     Some (\<lparr>obs_first = True, obs_previously_matched = False\<rparr>,
                           evict_global (s\<lparr>si_next_generation := max (generation + 1) 1,
                             si_scopes := hm_insert scope \<lparr>iw_ids = ids', iw_order = order\<rparr> (si_scopes s),
                             si_global_order := si_global_order s @ [(scope, event_id, generation)],
                             si_total := held_total\<rparr>))))"

definition observe :: "string \<Rightarrow> string \<Rightarrow> string \<Rightarrow> seen_ids \<Rightarrow> (bool \<times> seen_ids) option" where
  "observe peer_npub subscription_id event_id s =
     map_option (\<lambda>(r, s'). (obs_first r, s')) (observe_with_match peer_npub subscription_id event_id False s)"

definition observe_response ::
  "string \<Rightarrow> string option \<Rightarrow> string \<Rightarrow> string \<Rightarrow> bool \<Rightarrow> seen_ids \<Rightarrow> (observation \<times> seen_ids) option" where
  "observe_response peer_npub wire_subscription response_subscription event_id matched_subscription s =
     (case (case wire_subscription of
              None \<Rightarrow> Some s
            | Some wire \<Rightarrow>
                if wire \<noteq> response_subscription
                then map_option snd (observe_with_match peer_npub wire event_id matched_subscription s) else Some s) of
        None \<Rightarrow> None
      | Some s1 \<Rightarrow> observe_with_match peer_npub response_subscription event_id matched_subscription s1)"

definition clear_scopes :: "(obs_scope \<Rightarrow> bool) \<Rightarrow> seen_ids \<Rightarrow> seen_ids" where
  "clear_scopes P s =
     (let removed = sum_list (map (\<lambda>(_, w). length (iw_ids w)) (filter (\<lambda>(scope, _). P scope) (si_scopes s)))
      in s\<lparr>si_scopes := filter (\<lambda>(scope, _). \<not> P scope) (si_scopes s), si_total := si_total s - removed,
           si_global_order := filter (\<lambda>(scope, _, _). \<not> P scope) (si_global_order s)\<rparr>)"

definition clear_peer :: "string \<Rightarrow> seen_ids \<Rightarrow> seen_ids" where
  "clear_peer peer_npub = clear_scopes (\<lambda>scope. sc_peer scope = peer_npub)"

definition clear_subscription :: "string \<Rightarrow> seen_ids \<Rightarrow> seen_ids" where
  "clear_subscription subscription_id = clear_scopes (\<lambda>scope. sc_subscription scope = subscription_id)"

section \<open>What the windows hold\<close>

text \<open>
  The specification keeps one list of the observations that are remembered, oldest first. A new one is appended; then the oldest of its scope
  leaves when the scope is over its limit, and the oldest of all when the total is.
\<close>

type_synonym remembered = "(obs_scope \<times> string \<times> bool) list"

fun drop_first :: "('a \<Rightarrow> bool) \<Rightarrow> 'a list \<Rightarrow> 'a list" where
  "drop_first P [] = []"
| "drop_first P (x # xs) = (if P x then xs else x # drop_first P xs)"

definition spec_observe :: "nat \<Rightarrow> nat \<Rightarrow> obs_scope \<Rightarrow> string \<Rightarrow> bool \<Rightarrow> remembered \<Rightarrow> observation \<times> remembered" where
  "spec_observe cap held_total scope i matched q =
     (case find (\<lambda>(sc, j, _). sc = scope \<and> j = i) q of
        Some (_, _, m) \<Rightarrow> (\<lparr>obs_first = False, obs_previously_matched = m\<rparr>, q)
      | None \<Rightarrow>
          (\<lparr>obs_first = True, obs_previously_matched = False\<rparr>,
           (let q1 = q @ [(scope, i, matched)];
                q2 = (if length (filter (\<lambda>t. fst t = scope) q1) > cap then drop_first (\<lambda>t. fst t = scope) q1 else q1)
            in if length q2 > held_total then tl q2 else q2)))"

definition entry :: "scope_map \<Rightarrow> obs_scope \<Rightarrow> string \<Rightarrow> id_observation option" where
  "entry scopes scope i = (case hm_get scopes scope of None \<Rightarrow> None | Some w \<Rightarrow> hm_get (iw_ids w) i)"

definition held :: "seen_ids \<Rightarrow> (obs_scope \<times> string \<times> u64) list" where
  "held s = filter (live (si_scopes s)) (si_global_order s)"

definition remembered :: "seen_ids \<Rightarrow> remembered" where
  "remembered s = map (\<lambda>(sc, i, g). (sc, i, ob_matched (the (entry (si_scopes s) sc i)))) (held s)"

abbreviation gens :: "(obs_scope \<times> string \<times> u64) list \<Rightarrow> u64 list" where
  "gens ts \<equiv> map (snd \<circ> snd) ts"

abbreviation of_scope :: "obs_scope \<Rightarrow> (obs_scope \<times> 'a) list \<Rightarrow> (obs_scope \<times> 'a) list" where
  "of_scope sc ts \<equiv> filter (\<lambda>t. fst t = sc) ts"

text \<open>The windows hold exactly the entries of a list, in its order.\<close>

definition tidy :: "scope_map \<Rightarrow> (obs_scope \<times> string \<times> u64) list \<Rightarrow> bool" where
  "tidy scopes ts \<longleftrightarrow> hm_wf scopes \<and> distinct (gens ts) \<and>
     (\<forall>sc w. hm_get scopes sc = Some w \<longrightarrow> hm_wf (iw_ids w) \<and> iw_ids w \<noteq> [] \<and> iw_order w = map snd (of_scope sc ts)) \<and>
     (\<forall>sc i g. (sc, i, g) \<in> set ts \<longleftrightarrow> map_option ob_generation (entry scopes sc i) = Some g)"

definition si_ok :: "seen_ids \<Rightarrow> bool" where
  "si_ok s \<longleftrightarrow> tidy (si_scopes s) (held s) \<and> sorted_wrt (<) (gens (si_global_order s)) \<and>
     (\<forall>g\<in>set (gens (si_global_order s)). g < si_next_generation s) \<and>
     si_total s = length (held s) \<and> si_total s \<le> si_max_total s \<and> length (si_global_order s) \<le> 2 * si_max_total s \<and>
     (\<forall>sc. length (of_scope sc (held s)) \<le> si_max_per_scope s)"

section \<open>Tidy windows\<close>

lemma live_entry: "live scopes (sc, i, g) \<longleftrightarrow> map_option ob_generation (entry scopes sc i) = Some g"
  by (simp add: live_def entry_def split: option.split)

lemma tidyD:
  assumes "tidy scopes ts"
  shows "hm_wf scopes" and "distinct (gens ts)" and "distinct ts"
    and "hm_get scopes sc = Some w \<Longrightarrow> hm_wf (iw_ids w)" and "hm_get scopes sc = Some w \<Longrightarrow> iw_ids w \<noteq> []"
    and "hm_get scopes sc = Some w \<Longrightarrow> iw_order w = map snd (of_scope sc ts)"
    and "(sc, i, g) \<in> set ts \<longleftrightarrow> map_option ob_generation (entry scopes sc i) = Some g"
  using assms unfolding tidy_def by (blast, blast, simp add: distinct_map, blast+)

lemma tidy_live: "tidy scopes ts \<Longrightarrow> t \<in> set ts \<longleftrightarrow> live scopes t"
  using tidyD(7) live_entry by (cases t) blast

lemma tidy_unique: "tidy scopes ts \<Longrightarrow> (sc, i, g) \<in> set ts \<Longrightarrow> (sc, i, g') \<in> set ts \<Longrightarrow> g = g'"
  using tidyD(7) by (metis option.inject)

lemma tidy_other:
  assumes "tidy scopes ts" and "(sc, i, g) \<in> set ts" and "x \<in> set ts" and "x \<noteq> (sc, i, g)"
  shows "fst x \<noteq> sc \<or> fst (snd x) \<noteq> i"
proof -
  obtain sc' j h where x: "x = (sc', j, h)" by (cases x)
  then show ?thesis using tidy_unique[OF assms(1,2), of h] assms(3,4) by auto
qed

lemma tidy_keys:
  assumes "tidy scopes ts" and "hm_get scopes sc = Some w"
  shows "keys (iw_ids w) = fst ` set (iw_order w)" and "distinct (map fst (iw_order w))" and "length (iw_ids w) = length (of_scope sc ts)"
proof -
  have o: "iw_order w = map snd (of_scope sc ts)" by (rule tidyD(6)[OF assms])
  show k: "keys (iw_ids w) = fst ` set (iw_order w)"
  proof -
    have "i \<in> keys (iw_ids w) \<longleftrightarrow> (\<exists>g. (sc, i, g) \<in> set ts)" for i
    proof -
      have "(\<exists>g. map_option ob_generation x = Some g) \<longleftrightarrow> x \<noteq> None" for x by auto
      then show ?thesis using assms(2) unfolding tidyD(7)[OF assms(1)] by (simp add: entry_def)
    qed
    moreover have "i \<in> fst ` set (iw_order w) \<longleftrightarrow> (\<exists>g. (sc, i, g) \<in> set ts)" for i
      unfolding o by (auto simp: image_iff)
    ultimately show ?thesis by blast
  qed
  show d: "distinct (map fst (iw_order w))"
  proof -
    have "inj_on (fst \<circ> snd) (set (of_scope sc ts))"
      using tidy_unique[OF assms(1)] by (auto simp: inj_on_def)
    then show ?thesis unfolding o using tidyD(3)[OF assms(1)] by (simp add: distinct_map)
  qed
  show "length (iw_ids w) = length (of_scope sc ts)"
    using keys_length_eq[of "iw_ids w" "map fst (iw_order w)"] k d tidyD(4)[OF assms] by (simp add: o image_image)
qed

lemma tidy_cong: "hm_wf scopes' \<Longrightarrow> (\<And>sc. hm_get scopes' sc = hm_get scopes sc) \<Longrightarrow> tidy scopes ts \<Longrightarrow> tidy scopes' ts"
  unfolding tidy_def entry_def by simp

lemma filter_Cons_mem: "filter P xs = x # rest \<Longrightarrow> x \<in> set xs" "filter P xs = x # rest \<Longrightarrow> P x"
  using filter_set[of P xs] by auto

lemma drop_first_filter:
  "distinct xs \<Longrightarrow> filter P xs = x # rest \<Longrightarrow> drop_first P xs = filter (\<lambda>y. y \<noteq> x) xs"
proof (induction xs)
  case (Cons y ys)
  show ?case
  proof (cases "P y")
    case True
    then have "x = y" using Cons.prems(2) by simp
    then show ?thesis using True Cons.prems(1) by (auto simp: filter_id_conv intro!: filter_True[symmetric])
  next
    case False
    then have "x \<noteq> y" using filter_Cons_mem[OF Cons.prems(2)] by blast
    then show ?thesis using False Cons by simp
  qed
qed simp

lemma drop_first_length: "filter P xs \<noteq> [] \<Longrightarrow> length (drop_first P xs) = length xs - 1"
proof (induction xs)
  case (Cons x xs)
  then show ?case by (cases "P x"; cases xs) auto
qed simp

lemma drop_first_subset: "set (drop_first P xs) \<subseteq> set xs" "length (filter Q (drop_first P xs)) \<le> length (filter Q xs)"
  by (induction xs) auto

lemma drop_first_count: "length (filter P (drop_first P xs)) = length (filter P xs) - 1"
  by (induction xs) auto

lemma drop_first_as_filter: "distinct xs \<Longrightarrow> filter (\<lambda>x. x \<in> set (drop_first P xs)) xs = drop_first P xs"
proof (induction xs)
  case (Cons x xs)
  have "x \<notin> set (drop_first P xs)" using Cons.prems drop_first_subset(1)[of P xs] by auto
  moreover have "filter (\<lambda>y. y = x \<or> y \<in> set (drop_first P xs)) xs = filter (\<lambda>y. y \<in> set (drop_first P xs)) xs"
    using Cons.prems by (intro filter_cong) auto
  ultimately show ?case using Cons by (auto simp: filter_id_conv)
qed simp

lemma filter_within: "A \<subseteq> B \<Longrightarrow> filter (\<lambda>x. x \<in> A) (filter (\<lambda>x. x \<in> B) xs) = filter (\<lambda>x. x \<in> A) xs"
  by (induction xs) auto

lemma drop_first_map: "(\<And>x. P (f x) = Q x) \<Longrightarrow> drop_first P (map f xs) = map f (drop_first Q xs)"
  by (induction xs) auto

text \<open>The oldest entry of a scope leaves its window.\<close>

lemma tidy_drop:
  assumes t: "tidy scopes ts" and w: "hm_get scopes sc = Some w" and first: "of_scope sc ts = (sc, i, g) # rest"
    and wf: "hm_wf scopes'" and other: "\<And>sc'. sc' \<noteq> sc \<Longrightarrow> hm_get scopes' sc' = hm_get scopes sc'"
    and here: "hm_get scopes' sc = (if hm_remove i (iw_ids w) = [] then None else Some \<lparr>iw_ids = hm_remove i (iw_ids w), iw_order = map snd rest\<rparr>)"
  shows "tidy scopes' (drop_first (\<lambda>t. fst t = sc) ts)"
    and "\<And>sc' j. entry scopes' sc' j = (if sc' = sc \<and> j = i then None else entry scopes sc' j)"
proof -
  let ?t = "(sc, i, g)"
  have df: "drop_first (\<lambda>t. fst t = sc) ts = filter (\<lambda>t. t \<noteq> ?t) ts" by (rule drop_first_filter[OF tidyD(3)[OF t] first])
  have e: "entry scopes' sc' j = (if sc' = sc \<and> j = i then None else entry scopes sc' j)" for sc' j
  proof (cases "sc' = sc")
    case True
    then show ?thesis using here w by (auto simp: entry_def) (metis hm_get_remove map_of.simps(1))
  qed (simp add: entry_def other)
  then show "\<And>sc' j. entry scopes' sc' j = (if sc' = sc \<and> j = i then None else entry scopes sc' j)" .
  have tin: "?t \<in> set ts" using filter_Cons_mem(1)[OF first] .
  show "tidy scopes' (drop_first (\<lambda>t. fst t = sc) ts)" unfolding df tidy_def
  proof (intro conjI allI impI)
    show "hm_wf scopes'" by (rule wf)
    show "distinct (gens (filter (\<lambda>t. t \<noteq> ?t) ts))" using tidyD(2)[OF t] by (rule distinct_map_filter)
    have os: "of_scope sc (filter (\<lambda>t. t \<noteq> ?t) ts) = rest"
    proof -
      have "of_scope sc (filter (\<lambda>t. t \<noteq> ?t) ts) = filter (\<lambda>t. t \<noteq> ?t) (of_scope sc ts)" by (simp add: conj_commute)
      moreover have "?t \<notin> set rest" using distinct_filter[OF tidyD(3)[OF t], of "\<lambda>t. fst t = sc"] first by simp
      ultimately show ?thesis unfolding first by (auto simp: filter_id_conv)
    qed
    have os': "of_scope sc' (filter (\<lambda>t. t \<noteq> ?t) ts) = of_scope sc' ts" if "sc' \<noteq> sc" for sc'
      using that by (auto intro!: filter_cong)
    fix sc' w' assume w': "hm_get scopes' sc' = Some w'"
    show "hm_wf (iw_ids w')" "iw_ids w' \<noteq> []" "iw_order w' = map snd (of_scope sc' (filter (\<lambda>t. t \<noteq> ?t) ts))"
      using w' here other[of sc'] os os'[of sc'] tidyD(4)[OF t w] tidyD(4-6)[OF t, of sc' w']
      by (cases "sc' = sc"; auto split: if_splits)+
  next
    fix sc' j g'
    show "(sc', j, g') \<in> set (filter (\<lambda>t. t \<noteq> ?t) ts) \<longleftrightarrow> map_option ob_generation (entry scopes' sc' j) = Some g'"
      using tidyD(7)[OF t, of sc' j g'] tidy_unique[OF t tin, of g'] unfolding e by auto
  qed
qed

text \<open>A new entry joins its window.\<close>

lemma tidy_push:
  assumes t: "tidy scopes ts" and new: "entry scopes sc i = None" and g: "g \<notin> set (gens ts)" and ob: "ob_generation ob = g"
    and w: "w = (case hm_get scopes sc of None \<Rightarrow> \<lparr>iw_ids = [], iw_order = []\<rparr> | Some w \<Rightarrow> w)"
  shows "tidy (hm_insert sc \<lparr>iw_ids = hm_insert i ob (iw_ids w), iw_order = iw_order w @ [(i, g)]\<rparr> scopes) (ts @ [(sc, i, g)])"
    and "\<And>sc' j. entry (hm_insert sc \<lparr>iw_ids = hm_insert i ob (iw_ids w), iw_order = iw_order w @ [(i, g)]\<rparr> scopes) sc' j =
      (if sc' = sc \<and> j = i then Some ob else entry scopes sc' j)"
proof -
  let ?w = "\<lparr>iw_ids = hm_insert i ob (iw_ids w), iw_order = iw_order w @ [(i, g)]\<rparr>"
  have e: "entry (hm_insert sc ?w scopes) sc' j = (if sc' = sc \<and> j = i then Some ob else entry scopes sc' j)" for sc' j
    by (auto simp: entry_def w split: option.split)
  then show "\<And>sc' j. entry (hm_insert sc ?w scopes) sc' j = (if sc' = sc \<and> j = i then Some ob else entry scopes sc' j)" .
  have ord: "iw_order w = map snd (of_scope sc ts)" "hm_wf (iw_ids w)"
  proof -
    have "of_scope sc ts = []" if "hm_get scopes sc = None"
      using that tidyD(7)[OF t, of sc] by (auto simp: filter_empty_conv entry_def)
    then show "iw_order w = map snd (of_scope sc ts)" "hm_wf (iw_ids w)"
      using tidyD(4,6)[OF t, of sc] by (cases "hm_get scopes sc"; simp add: w)+
  qed
  show "tidy (hm_insert sc ?w scopes) (ts @ [(sc, i, g)])" unfolding tidy_def
  proof (intro conjI allI impI)
    show "hm_wf (hm_insert sc ?w scopes)" using tidyD(1)[OF t] by simp
    show "distinct (gens (ts @ [(sc, i, g)]))" using tidyD(2)[OF t] g by simp
    fix sc' w' assume w': "hm_get (hm_insert sc ?w scopes) sc' = Some w'"
    show "hm_wf (iw_ids w')" "iw_ids w' \<noteq> []" "iw_order w' = map snd (of_scope sc' (ts @ [(sc, i, g)]))"
      using w' ord tidyD(4-6)[OF t, of sc' w'] by (cases "sc' = sc"; auto)+
  next
    fix sc' j g'
    show "(sc', j, g') \<in> set (ts @ [(sc, i, g)]) \<longleftrightarrow> map_option ob_generation (entry (hm_insert sc ?w scopes) sc' j) = Some g'"
      unfolding e using tidyD(7)[OF t, of sc' j g'] new ob by auto
  qed
qed

section \<open>The two evictions\<close>

text \<open>The eviction within a scope that holds at most one entry too many.\<close>

lemma trim_window_ok:
  assumes t: "tidy scopes ts" and w: "hm_get scopes sc = Some w" and len: "length (of_scope sc ts) \<le> Suc cap" and cap: "0 < cap"
    and n: "n = length ts"
  shows "\<exists>order ids. trim_window cap (iw_order w) (iw_ids w) n =
      Some (order, ids, length (if length (of_scope sc ts) > cap then drop_first (\<lambda>t. fst t = sc) ts else ts)) \<and>
      (\<forall>scopes'. hm_wf scopes' \<and> (\<forall>sc'. hm_get scopes' sc' = (if sc' = sc then Some \<lparr>iw_ids = ids, iw_order = order\<rparr> else hm_get scopes sc')) \<longrightarrow>
        tidy scopes' (if length (of_scope sc ts) > cap then drop_first (\<lambda>t. fst t = sc) ts else ts) \<and>
        (\<forall>t\<in>set (if length (of_scope sc ts) > cap then drop_first (\<lambda>t. fst t = sc) ts else ts).
          entry scopes' (fst t) (fst (snd t)) = entry scopes (fst t) (fst (snd t))))"
proof (cases "length (of_scope sc ts) > cap")
  case False
  then have "trim_window cap (iw_order w) (iw_ids w) n = Some (iw_order w, iw_ids w, length ts)"
    using tidy_keys(3)[OF t w] n by (cases "iw_order w") auto
  moreover have "tidy scopes' ts \<and> (\<forall>t\<in>set ts. entry scopes' (fst t) (fst (snd t)) = entry scopes (fst t) (fst (snd t)))"
    if "hm_wf scopes'" "\<And>sc'. hm_get scopes' sc' = (if sc' = sc then Some \<lparr>iw_ids = iw_ids w, iw_order = iw_order w\<rparr> else hm_get scopes sc')" for scopes'
  proof -
    have "hm_get scopes' sc' = hm_get scopes sc'" for sc' using that(2)[of sc'] w by simp
    then show ?thesis using tidy_cong[OF that(1) _ t] by (simp add: entry_def)
  qed
  ultimately show ?thesis using False by auto
next
  case True
  then obtain i g rest where first: "of_scope sc ts = (sc, i, g) # rest"
  proof (cases "of_scope sc ts")
    case (Cons x xs)
    then show ?thesis using filter_Cons_mem(2)[OF Cons] that by (cases x) auto
  qed simp
  note ord = tidyD(6)[OF t w, unfolded first]
  have lens: "length (iw_ids w) = Suc (length rest)" "length rest = cap" using tidy_keys(3)[OF t w] first len True by simp_all
  have tin: "(sc, i, g) \<in> set ts" using filter_Cons_mem(1)[OF first] .
  have cur: "map_option ob_generation (hm_get (iw_ids w) i) = Some g" using tin w unfolding tidyD(7)[OF t] by (simp add: entry_def)
  let ?ids = "hm_remove i (iw_ids w)" and ?ts = "drop_first (\<lambda>t. fst t = sc) ts"
  have "i \<in> keys (iw_ids w)" using cur by (cases "hm_get (iw_ids w) i") (auto dest: hm_get_in_keys)
  then have li: "length ?ids = cap" using lens length_hm_remove[of "iw_ids w" i] tidyD(4)[OF t w] by simp
  have "trim_window cap (map snd rest) ?ids (n - 1) = Some (map snd rest, ?ids, n - 1)" using li by (cases rest) auto
  moreover have "0 < n" using n tin by (cases ts) auto
  moreover have "length ?ts = n - 1"
    using drop_first_length[of "\<lambda>t. fst t = sc" ts] first n by simp
  ultimately have "trim_window cap (iw_order w) (iw_ids w) n = Some (map snd rest, ?ids, length ?ts)"
    using ord cur lens by simp
  moreover have "tidy scopes' ?ts \<and> (\<forall>t\<in>set ?ts. entry scopes' (fst t) (fst (snd t)) = entry scopes (fst t) (fst (snd t)))"
    if s': "hm_wf scopes'" "\<And>sc'. hm_get scopes' sc' = (if sc' = sc then Some \<lparr>iw_ids = ?ids, iw_order = map snd rest\<rparr> else hm_get scopes sc')" for scopes'
  proof -
    have "?ids \<noteq> []" using li cap by auto
    then have a: "hm_get scopes' sc = (if ?ids = [] then None else Some \<lparr>iw_ids = ?ids, iw_order = map snd rest\<rparr>)" using s'(2) by simp
    have b: "\<And>sc'. sc' \<noteq> sc \<Longrightarrow> hm_get scopes' sc' = hm_get scopes sc'" using s'(2) by simp
    have "fst x \<noteq> sc \<or> fst (snd x) \<noteq> i" if "x \<in> set ?ts" for x
      using that tidy_other[OF t tin, of x] unfolding drop_first_filter[OF tidyD(3)[OF t] first] by simp
    then show ?thesis using tidy_drop[OF t w first s'(1) b a] by auto
  qed
  ultimately show ?thesis using True by auto
qed

text \<open>The eviction from the front of the global queue, when at most one entry is too many.\<close>

lemma drop_entry_ok:
  assumes t: "tidy scopes (t # ts)"
  shows "tidy (drop_entry t scopes) ts"
    and "\<And>x. x \<in> set ts \<Longrightarrow> entry (drop_entry t scopes) (fst x) (fst (snd x)) = entry scopes (fst x) (fst (snd x))"
proof -
  obtain sc i g where tt: "t = (sc, i, g)" by (cases t)
  have tin: "(sc, i, g) \<in> set (t # ts)" by (simp add: tt)
  then obtain w where w: "hm_get scopes sc = Some w" unfolding tidyD(7)[OF t] by (auto simp: entry_def split: option.splits)
  let ?rest = "of_scope sc ts" and ?ids = "hm_remove i (iw_ids w)"
  have first: "of_scope sc (t # ts) = (sc, i, g) # ?rest" by (simp add: tt)
  have ord: "iw_order w = (i, g) # map snd ?rest" using tidyD(6)[OF t w] first by simp
  have "dropWhile (\<lambda>ig. \<not> current ?ids ig) (map snd ?rest) = map snd ?rest"
  proof (cases ?rest)
    case (Cons x xs)
    have x: "x \<in> set ts" "fst x = sc" using filter_Cons_mem[OF Cons] by simp_all
    obtain j h where xx: "x = (sc, j, h)" using x(2) by (cases x) auto
    have "j \<noteq> i" using tidy_unique[OF t tin, of h] x(1) tidyD(3)[OF t] by (auto simp: xx tt)
    moreover have "map_option ob_generation (entry scopes sc j) = Some h" using tidyD(7)[OF t, of sc j h] x(1) by (simp add: xx)
    ultimately show ?thesis using w unfolding Cons by (auto simp: xx entry_def)
  qed simp
  moreover have "\<not> current ?ids (i, g)" by simp
  ultimately have dw: "dropWhile (\<lambda>ig. \<not> current ?ids ig) (iw_order w) = map snd ?rest" unfolding ord by simp
  have d: "drop_entry t scopes = (if ?ids = [] then hm_remove sc scopes else hm_insert sc \<lparr>iw_ids = ?ids, iw_order = map snd ?rest\<rparr> scopes)"
    using w dw by (simp add: drop_entry_def tt Let_def)
  have s': "hm_wf (drop_entry t scopes)" "\<And>sc'. sc' \<noteq> sc \<Longrightarrow> hm_get (drop_entry t scopes) sc' = hm_get scopes sc'"
    "hm_get (drop_entry t scopes) sc = (if ?ids = [] then None else Some \<lparr>iw_ids = ?ids, iw_order = map snd ?rest\<rparr>)"
    using tidyD(1)[OF t] unfolding d by auto
  note r = tidy_drop[OF t w first s']
  show "tidy (drop_entry t scopes) ts" using r(1) by (simp add: tt)
  fix x assume "x \<in> set ts"
  moreover from this have "x \<noteq> (sc, i, g)" using tidyD(3)[OF t] by (auto simp: tt)
  ultimately have "fst x \<noteq> sc \<or> fst (snd x) \<noteq> i" by (intro tidy_other[OF t tin]) simp
  then show "entry (drop_entry t scopes) (fst x) (fst (snd x)) = entry scopes (fst x) (fst (snd x))" using r(2) by auto
qed

lemma evict_loop_ok:
  assumes "tidy scopes (filter (live scopes) order)" and "n = length (filter (live scopes) order)" and "n \<le> Suc m"
    and "sorted_wrt (<) (gens order)" and "evict_loop m order scopes n = (order', scopes', n')"
  defines "kept \<equiv> if n > m then tl (filter (live scopes) order) else filter (live scopes) order"
  shows "tidy scopes' kept \<and> filter (live scopes') order' = kept \<and> n' = length kept \<and> (\<exists>pre. order = pre @ order') \<and>
    (\<forall>x\<in>set kept. entry scopes' (fst x) (fst (snd x)) = entry scopes (fst x) (fst (snd x)))"
  using assms(1-5) unfolding kept_def
proof (induction order)
  case (Cons t order)
  show ?case
  proof (cases "n > m")
    case True
    show ?thesis
    proof (cases "live scopes t")
      case lv: True
      let ?L = "filter (live scopes) order"
      have n: "n = Suc (length ?L)" "length ?L = m" using Cons.prems(2,3) True lv by simp_all
      have td: "tidy scopes (t # ?L)" using Cons.prems(1) lv by simp
      have r: "order' = order" "scopes' = drop_entry t scopes" "n' = length ?L"
        using Cons.prems(5) True lv n by (cases order; simp)+
      note d = drop_entry_ok[OF td]
      have "filter (live (drop_entry t scopes)) order = ?L"
      proof (rule filter_cong[OF refl])
        fix x assume "x \<in> set order"
        then have "x \<noteq> t" using Cons.prems(4) by auto
        then show "live (drop_entry t scopes) x = live scopes x" using tidy_live[OF d(1), of x] tidy_live[OF td, of x] by simp
      qed
      then show ?thesis using d True lv n unfolding r by auto
    next
      case False
      then have "filter (live scopes) (t # order) = filter (live scopes) order" by simp
      note p = Cons.prems(1,2)[unfolded this] and same = this
      have "sorted_wrt (<) (gens order)" "evict_loop m order scopes n = (order', scopes', n')" using Cons.prems(4,5) True False by (simp_all add: comp_def)
      from Cons.IH[OF p Cons.prems(3) this] show ?thesis unfolding same by (metis append_Cons)
    qed
  next
    case False
    then have "order' = t # order" "scopes' = scopes" "n' = n" using Cons.prems(5) by simp_all
    then show ?thesis using Cons.prems(1,2) False by auto
  qed
qed auto

section \<open>Operations refine the specification\<close>

abbreviation view :: "scope_map \<Rightarrow> obs_scope \<times> string \<times> u64 \<Rightarrow> obs_scope \<times> string \<times> bool" where
  "view scopes t \<equiv> (fst t, fst (snd t), ob_matched (the (entry scopes (fst t) (fst (snd t)))))"

lemma remembered_view: "remembered s = map (view (si_scopes s)) (held s)"
  by (simp add: remembered_def case_prod_beta)

lemma find_view:
  assumes "tidy scopes ts"
  shows "find (\<lambda>(sc', j, _). sc' = sc \<and> j = i) (map (view scopes) ts) = map_option (\<lambda>ob. (sc, i, ob_matched ob)) (entry scopes sc i)"
proof (cases "entry scopes sc i")
  case None
  then have "\<not> (\<exists>g. (sc, i, g) \<in> set ts)" unfolding tidyD(7)[OF assms] by simp
  then show ?thesis using None by (auto simp: find_None_iff)
next
  case (Some ob)
  then have "(sc, i, ob_generation ob) \<in> set ts" unfolding tidyD(7)[OF assms] by simp
  from imageI[OF this, of "view scopes"] have "(sc, i, ob_matched ob) \<in> set (map (view scopes) ts)" using Some by simp
  then have "find (\<lambda>(sc', j, _). sc' = sc \<and> j = i) (map (view scopes) ts) \<noteq> None" unfolding find_None_iff by blast
  then obtain x where x: "find (\<lambda>(sc', j, _). sc' = sc \<and> j = i) (map (view scopes) ts) = Some x" by blast
  then show ?thesis using Some by (auto simp: find_Some_iff)
qed

lemma sorted_gens_snoc: "sorted_wrt (<) (gens ts) \<Longrightarrow> \<forall>h\<in>set (gens ts). h < g \<Longrightarrow> sorted_wrt (<) (gens (ts @ [(sc, i, g)]))"
  by (simp add: sorted_wrt_append)

lemma generation_fresh: "(g :: u64) \<noteq> - 1 \<Longrightarrow> g < max (g + 1) 1 \<and> unat (max (g + 1) 1) = unat g + 1"
proof -
  assume "g \<noteq> - 1"
  then have "1 + g \<noteq> 0" by (simp add: eq_neg_iff_add_eq_0 add.commute)
  from unatSuc[OF this] have u: "unat (g + 1) = unat g + 1" by (simp add: add.commute)
  have "max (g + 1) 1 = g + 1" by (rule max_absorb1) (use u in \<open>simp add: word_le_nat_alt\<close>)
  then show ?thesis using u by (simp add: word_less_nat_alt)
qed

text \<open>What every operation leaves alone.\<close>

abbreviation same_limits :: "seen_ids \<Rightarrow> seen_ids \<Rightarrow> bool" where
  "same_limits s s' \<equiv> si_max_per_scope s' = si_max_per_scope s \<and> si_max_total s' = si_max_total s"

lemma evict_global_ok:
  assumes t: "tidy (si_scopes s) (held s)" and srt: "sorted_wrt (<) (gens (si_global_order s))"
    and fresh: "\<forall>g\<in>set (gens (si_global_order s)). g < si_next_generation s"
    and n: "si_total s = length (held s)" "length (held s) \<le> Suc (si_max_total s)"
    and cap: "\<And>sc. length (of_scope sc (held s)) \<le> si_max_per_scope s"
  shows "si_ok (evict_global s)" and "remembered (evict_global s) = (if length (held s) > si_max_total s then tl (remembered s) else remembered s)"
    and "same_limits s (evict_global s)" and "si_next_generation (evict_global s) = si_next_generation s"
proof -
  obtain order scopes n' where e: "evict_loop (si_max_total s) (si_global_order s) (si_scopes s) (si_total s) = (order, scopes, n')"
    by (metis prod_cases3)
  define kept where "kept = (if length (held s) > si_max_total s then tl (held s) else held s)"
  have r: "tidy scopes kept" "filter (live scopes) order = kept" "n' = length kept"
    "\<And>x. x \<in> set kept \<Longrightarrow> entry scopes (fst x) (fst (snd x)) = entry (si_scopes s) (fst x) (fst (snd x))"
    using evict_loop_ok[OF t[unfolded held_def] n(1)[unfolded held_def] n(2)[folded n(1)] srt e] n(1)
    unfolding kept_def held_def by (auto split: if_splits)
  obtain pre where pre: "si_global_order s = pre @ order"
    using evict_loop_ok[OF t[unfolded held_def] n(1)[unfolded held_def] n(2)[folded n(1)] srt e] by blast
  let ?s = "evict_global s"
  define order' where "order' = (if length order > si_max_total s * 2 then filter (live scopes) order else order)"
  have s': "?s = s\<lparr>si_scopes := scopes, si_total := n', si_global_order := order'\<rparr>" by (simp add: evict_global_def e order'_def)
  have h: "held ?s = kept" using r(2) by (simp add: s' held_def order'_def flip: r(2))
  have sub: "set order' \<subseteq> set (si_global_order s)" by (auto simp: order'_def pre)
  have srt': "sorted_wrt (<) (gens order')"
    using srt unfolding pre order'_def by (simp add: sorted_wrt_append sorted_wrt_map sorted_wrt_filter)
  have lk: "length kept \<le> si_max_total s" using n(2) by (auto simp: kept_def)
  have "length (of_scope sc kept) \<le> si_max_per_scope s" for sc
  proof -
    have "length (of_scope sc kept) \<le> length (of_scope sc (held s))"
      unfolding kept_def by (cases "held s") auto
    then show ?thesis using cap[of sc] by (rule order_trans)
  qed
  then show "si_ok ?s" using r(1,2) h sub srt' lk fresh r(3) unfolding si_ok_def h
    by (auto simp: s' order'_def)
  have "remembered ?s = map (view (si_scopes s)) kept" unfolding remembered_view h using r(4) by (simp add: s')
  then show "remembered ?s = (if length (held s) > si_max_total s then tl (remembered s) else remembered s)"
    by (simp add: remembered_view kept_def map_tl)
  show "same_limits s ?s" "si_next_generation ?s = si_next_generation s" by (simp_all add: s')
qed

lemma si_observe_ok:
  assumes ok: "si_ok s" and cap: "0 < si_max_per_scope s" and gen: "si_next_generation s \<noteq> - 1"
  shows "\<exists>r s'. observe_with_match p sub i m s = Some (r, s') \<and> si_ok s' \<and> same_limits s s' \<and>
    unat (si_next_generation s') \<le> unat (si_next_generation s) + 1 \<and>
    spec_observe (si_max_per_scope s) (si_max_total s) \<lparr>sc_peer = p, sc_subscription = sub\<rparr> i m (remembered s) = (r, remembered s')"
proof -
  let ?sc = "\<lparr>sc_peer = p, sc_subscription = sub\<rparr>" and ?g = "si_next_generation s" and ?L = "held s"
  define w where "w = (case hm_get (si_scopes s) ?sc of None \<Rightarrow> \<lparr>iw_ids = [], iw_order = []\<rparr> | Some w \<Rightarrow> w)"
  have t: "tidy (si_scopes s) ?L" and srt: "sorted_wrt (<) (gens (si_global_order s))"
    and fresh: "\<forall>g\<in>set (gens (si_global_order s)). g < ?g" and n: "si_total s = length ?L" "length ?L \<le> si_max_total s"
    and per: "\<And>sc. length (of_scope sc ?L) \<le> si_max_per_scope s"
    using ok by (simp_all add: si_ok_def)
  have e: "hm_get (iw_ids w) i = entry (si_scopes s) ?sc i" by (simp add: w_def entry_def split: option.split)
  have f: "find (\<lambda>(sc', j, _). sc' = ?sc \<and> j = i) (remembered s) = map_option (\<lambda>ob. (?sc, i, ob_matched ob)) (entry (si_scopes s) ?sc i)"
    unfolding remembered_view by (rule find_view[OF t])
  show ?thesis
  proof (cases "entry (si_scopes s) ?sc i")
    case (Some ob)
    then have "observe_with_match p sub i m s = Some (\<lparr>obs_first = False, obs_previously_matched = ob_matched ob\<rparr>, s)"
      using e by (simp add: observe_with_match_def w_def Let_def)
    then show ?thesis using f Some ok by (simp add: spec_observe_def)
  next
    case None
    define ob where "ob = \<lparr>ob_generation = ?g, ob_matched = m\<rparr>"
    let ?w = "\<lparr>iw_ids = hm_insert i ob (iw_ids w), iw_order = iw_order w @ [(i, ?g)]\<rparr>"
    let ?S = "hm_insert ?sc ?w (si_scopes s)" and ?T = "?L @ [(?sc, i, ?g)]" and ?c = "si_max_per_scope s"
    have "?g \<notin> set (gens ?L)" using fresh by (auto simp: held_def)
    from tidy_push[OF t None this _ w_def, of ob] have T: "tidy ?S ?T"
      and ent: "\<And>sc' j. entry ?S sc' j = (if sc' = ?sc \<and> j = i then Some ob else entry (si_scopes s) sc' j)" by (simp_all add: ob_def)
    define T2 where "T2 = (if length (of_scope ?sc ?T) > ?c then drop_first (\<lambda>t. fst t = ?sc) ?T else ?T)"
    have T2c: "length (of_scope sc T2) \<le> ?c" for sc
    proof (cases "sc = ?sc")
      case True
      then show ?thesis using per[of ?sc] drop_first_count[of "\<lambda>t. fst t = ?sc" ?T] unfolding T2_def by auto
    next
      case False
      then show ?thesis using per[of sc] drop_first_subset(2)[of "\<lambda>t. fst t = sc" "\<lambda>t. fst t = ?sc" ?T] unfolding T2_def by auto
    qed
    have T2f: "filter (\<lambda>x. x \<in> set T2) ?T = T2"
      using drop_first_as_filter[OF tidyD(3)[OF T]] unfolding T2_def by (auto simp: filter_id_conv)
    obtain order ids where tr: "trim_window ?c (iw_order ?w) (iw_ids ?w) (length ?T) = Some (order, ids, length T2)"
      and td: "\<And>scopes'. hm_wf scopes' \<Longrightarrow> (\<And>sc'. hm_get scopes' sc' = (if sc' = ?sc then Some \<lparr>iw_ids = ids, iw_order = order\<rparr> else hm_get ?S sc')) \<Longrightarrow>
        tidy scopes' T2 \<and> (\<forall>t\<in>set T2. entry scopes' (fst t) (fst (snd t)) = entry ?S (fst t) (fst (snd t)))"
      using trim_window_ok[OF T _ _ cap refl, of ?sc ?w] per[of ?sc] unfolding T2_def by auto
    let ?S2 = "hm_insert ?sc \<lparr>iw_ids = ids, iw_order = order\<rparr> (si_scopes s)" and ?G = "si_global_order s @ [(?sc, i, ?g)]"
    let ?s1 = "s\<lparr>si_next_generation := max (?g + 1) 1, si_scopes := ?S2, si_global_order := ?G, si_total := length T2\<rparr>"
    have S2: "tidy ?S2 T2" "\<And>x. x \<in> set T2 \<Longrightarrow> entry ?S2 (fst x) (fst (snd x)) = entry ?S (fst x) (fst (snd x))"
      using td[of ?S2] tidyD(1)[OF t] by auto
    have held: "held ?s1 = T2"
    proof -
      have new: "(?sc, i, ?g) \<notin> set (si_global_order s)" using fresh by fastforce
      have "filter (\<lambda>x. x \<in> set ?T) ?G = ?T"
        using new tidy_live[OF t] by (auto simp: held_def intro!: filter_cong)
      moreover have "filter (\<lambda>x. x \<in> set T2) ?G = filter (\<lambda>x. x \<in> set T2) (filter (\<lambda>x. x \<in> set ?T) ?G)"
        by (rule filter_within[symmetric]) (metis T2f filter_is_subset)
      moreover have "live ?S2 = (\<lambda>x. x \<in> set T2)" using tidy_live[OF S2(1)] by blast
      ultimately have "filter (live ?S2) ?G = T2" using T2f by (simp only:)
      then show ?thesis unfolding held_def by simp
    qed
    have "map (view ?S2) T2 = map (view ?S) T2" using S2(2) by simp
    moreover have vT: "map (view ?S) ?T = remembered s @ [(?sc, i, m)]"
    proof -
      have "view ?S x = view (si_scopes s) x" if "x \<in> set ?L" for x
      proof -
        obtain sc' j h where x: "x = (sc', j, h)" by (cases x)
        have "\<not> (sc' = ?sc \<and> j = i)" using that None tidyD(7)[OF t, of sc' j h] by (auto simp: x)
        then show ?thesis using ent by (auto simp: x)
      qed
      then show ?thesis unfolding remembered_view using ent by (simp add: ob_def)
    qed
    ultimately have rem1: "remembered ?s1 = map (view ?S) T2" unfolding remembered_view held by simp
    have spec: "map (view ?S) T2 = (if length (of_scope ?sc (remembered s @ [(?sc, i, m)])) > ?c
        then drop_first (\<lambda>t. fst t = ?sc) (remembered s @ [(?sc, i, m)]) else remembered s @ [(?sc, i, m)])"
    proof -
      have "drop_first (\<lambda>t. fst t = ?sc) (map (view ?S) ?T) = map (view ?S) (drop_first (\<lambda>t. fst t = ?sc) ?T)"
        by (rule drop_first_map) simp
      moreover have "length (of_scope ?sc (map (view ?S) ?T)) = length (of_scope ?sc ?T)" by (simp add: filter_map comp_def)
      ultimately show ?thesis unfolding vT[symmetric] T2_def by (simp only: if_distrib[of "map (view ?S)"])
    qed
    have g: "?g < max (?g + 1) 1" "unat (max (?g + 1) 1) = unat ?g + 1" using generation_fresh[OF gen] by simp_all
    have fr: "\<forall>h\<in>set (gens ?G). h < max (?g + 1) 1" using fresh g(1) by (auto dest: order.strict_trans)
    have lenT2: "length T2 \<le> Suc (si_max_total s)"
      using n(2) length_filter_le[of "\<lambda>x. x \<in> set T2" ?T] unfolding T2f by simp
    note ev = evict_global_ok[of ?s1, unfolded held, simplified, OF S2(1) sorted_gens_snoc[OF srt fresh, simplified] fr[simplified] lenT2 T2c]
    have "observe_with_match p sub i m s = Some (\<lparr>obs_first = True, obs_previously_matched = False\<rparr>, evict_global ?s1)"
      using e None tr n(1) by (simp add: observe_with_match_def w_def[symmetric] ob_def[symmetric] Let_def)
    moreover have "spec_observe ?c (si_max_total s) ?sc i m (remembered s) =
        (\<lparr>obs_first = True, obs_previously_matched = False\<rparr>, remembered (evict_global ?s1))"
      using f None ev(2) rem1 unfolding spec_observe_def Let_def spec[symmetric] by simp
    ultimately show ?thesis using ev(1,3,4) g(2) by simp
  qed
qed

lemma filter_disjoint_length:
  "(\<And>x. A x \<Longrightarrow> \<not> B x) \<Longrightarrow> length (filter A xs) + length (filter B xs) = length (filter (\<lambda>x. A x \<or> B x) xs)"
  by (induction xs) auto

lemma scope_sizes: "distinct (map fst m) \<Longrightarrow> sum_list (map (\<lambda>(sc, w). length (of_scope sc ts)) m) = length (filter (\<lambda>t. fst t \<in> keys m) ts)"
proof (induction m)
  case (Cons x m)
  have "length (of_scope (fst x) ts) + length (filter (\<lambda>t. fst t \<in> keys m) ts) = length (filter (\<lambda>t. fst t = fst x \<or> fst t \<in> keys m) ts)"
    using Cons.prems by (intro filter_disjoint_length) auto
  then show ?case using Cons by (simp add: case_prod_beta)
qed simp

lemma clear_scopes_ok:
  assumes ok: "si_ok s"
  shows "si_ok (clear_scopes P s)" and "remembered (clear_scopes P s) = filter (\<lambda>(sc, _, _). \<not> P sc) (remembered s)"
    and "same_limits s (clear_scopes P s)" and "si_next_generation (clear_scopes P s) = si_next_generation s"
proof -
  let ?s = "clear_scopes P s" and ?L = "filter (\<lambda>t. \<not> P (fst t)) (held s)"
  let ?S = "filter (\<lambda>(scope, _). \<not> P scope) (si_scopes s)"
  have t: "tidy (si_scopes s) (held s)" and n: "si_total s = length (held s)" using ok by (simp_all add: si_ok_def)
  have wf: "hm_wf (si_scopes s)" by (rule tidyD(1)[OF t])
  have get: "hm_get ?S sc = (if P sc then None else hm_get (si_scopes s) sc)" for sc
    using hm_get_retain[OF wf, of "\<lambda>sc _. \<not> P sc" sc] by (auto split: option.split)
  have ent: "entry ?S sc i = (if P sc then None else entry (si_scopes s) sc i)" for sc i by (simp add: entry_def get)
  have lv: "live ?S x \<longleftrightarrow> \<not> P (fst x) \<and> live (si_scopes s) x" for x by (simp add: live_def get)
  have h: "held ?s = ?L" by (simp add: held_def clear_scopes_def Let_def lv case_prod_beta conj_commute)
  have td: "tidy ?S ?L" unfolding tidy_def
  proof (intro conjI allI impI)
    show "hm_wf ?S" using wf by simp
    show "distinct (gens ?L)" using tidyD(2)[OF t] by (rule distinct_map_filter)
    fix sc w assume "hm_get ?S sc = Some w"
    then have np: "\<not> P sc" and w: "hm_get (si_scopes s) sc = Some w" using get[of sc] by (auto split: if_splits)
    show "hm_wf (iw_ids w)" "iw_ids w \<noteq> []" using tidyD(4,5)[OF t w] by auto
    have "of_scope sc ?L = of_scope sc (held s)" using np by (auto intro!: filter_cong)
    then show "iw_order w = map snd (of_scope sc ?L)" using tidyD(6)[OF t w] by simp
  next
    fix sc i g
    show "(sc, i, g) \<in> set ?L \<longleftrightarrow> map_option ob_generation (entry ?S sc i) = Some g"
      using tidyD(7)[OF t, of sc i g] ent by auto
  qed
  let ?R = "filter (\<lambda>(scope, _). P scope) (si_scopes s)"
  have "sum_list (map (\<lambda>(_, w). length (iw_ids w)) ?R) = sum_list (map (\<lambda>(sc, w). length (of_scope sc (held s))) ?R)"
  proof (intro arg_cong[of _ _ sum_list] map_cong[OF refl])
    fix x assume "x \<in> set ?R"
    then have "hm_get (si_scopes s) (fst x) = Some (snd x)" using hm_get_iff[OF wf, of "fst x" "snd x"] by simp
    then show "(case x of (_, w) \<Rightarrow> length (iw_ids w)) = (case x of (sc, w) \<Rightarrow> length (of_scope sc (held s)))"
      using tidy_keys(3)[OF t] by (simp add: case_prod_beta)
  qed
  also have "\<dots> = length (filter (\<lambda>t. fst t \<in> keys ?R) (held s))" using wf by (intro scope_sizes) simp
  also have "filter (\<lambda>t. fst t \<in> keys ?R) (held s) = filter (\<lambda>t. P (fst t)) (held s)"
  proof (rule filter_cong[OF refl])
    fix x assume "x \<in> set (held s)"
    then have "fst x \<in> keys (si_scopes s)" using tidy_live[OF t, of x] by (auto simp: live_def hm_get_in_keys split: option.splits)
    then show "fst x \<in> keys ?R \<longleftrightarrow> P (fst x)" by auto
  qed
  finally have tot: "si_total s - sum_list (map (\<lambda>(_, w). length (iw_ids w)) ?R) = length ?L"
    using sum_length_filter_compl[of "\<lambda>t. P (fst t)" "held s"] n by simp
  have L: "length (of_scope sc ?L) \<le> length (of_scope sc (held s))" for sc
  proof -
    have "of_scope sc ?L = filter (\<lambda>t. \<not> P (fst t)) (of_scope sc (held s))" by (simp add: conj_commute)
    then show ?thesis by (simp only: length_filter_le)
  qed
  show "si_ok ?s" unfolding si_ok_def h
  proof (intro conjI allI)
    show "sorted_wrt (<) (gens (si_global_order ?s))"
      using ok by (simp add: si_ok_def clear_scopes_def Let_def sorted_wrt_map sorted_wrt_filter)
    show "length (of_scope sc ?L) \<le> si_max_per_scope ?s" for sc
      using ok L[of sc] by (auto simp: si_ok_def clear_scopes_def Let_def intro: order_trans)
    show "tidy (si_scopes ?s) ?L" "si_total ?s = length ?L" using td tot by (simp_all add: clear_scopes_def Let_def)
    have "si_total ?s \<le> si_total s" by (simp add: clear_scopes_def Let_def)
    also have "\<dots> \<le> si_max_total ?s" using ok by (simp add: si_ok_def clear_scopes_def Let_def)
    finally show "si_total ?s \<le> si_max_total ?s" .
    have "length (si_global_order ?s) \<le> length (si_global_order s)" by (simp add: clear_scopes_def Let_def)
    also have "\<dots> \<le> 2 * si_max_total ?s" using ok by (simp add: si_ok_def clear_scopes_def Let_def)
    finally show "length (si_global_order ?s) \<le> 2 * si_max_total ?s" .
  qed (use ok in \<open>auto simp: si_ok_def clear_scopes_def Let_def\<close>)
  have "map (view (si_scopes ?s)) ?L = map (view (si_scopes s)) ?L" using ent by (simp add: clear_scopes_def Let_def)
  then show "remembered ?s = filter (\<lambda>(sc, _, _). \<not> P sc) (remembered s)"
    unfolding remembered_view h by (simp add: filter_map comp_def case_prod_beta)
  show "same_limits s ?s" "si_next_generation ?s = si_next_generation s" by (simp_all add: clear_scopes_def Let_def)
qed

section \<open>Runs\<close>

datatype seen_op =
  Observe string string string
| ObserveMatch string string string bool
| ObserveResponse string "string option" string string bool
| ClearPeer string
| ClearSubscription string

fun seen_step :: "seen_op \<Rightarrow> seen_ids \<Rightarrow> (observation option \<times> seen_ids) option" where
  "seen_step (Observe p sub i) s =
     map_option (\<lambda>(first, s'). (Some \<lparr>obs_first = first, obs_previously_matched = False\<rparr>, s')) (observe p sub i s)"
| "seen_step (ObserveMatch p sub i m) s = map_option (\<lambda>(r, s'). (Some r, s')) (observe_with_match p sub i m s)"
| "seen_step (ObserveResponse p wire sub i m) s = map_option (\<lambda>(r, s'). (Some r, s')) (observe_response p wire sub i m s)"
| "seen_step (ClearPeer p) s = Some (None, clear_peer p s)"
| "seen_step (ClearSubscription sub) s = Some (None, clear_subscription sub s)"

fun seen_run :: "seen_op list \<Rightarrow> seen_ids \<Rightarrow> (observation option list \<times> seen_ids) option" where
  "seen_run [] s = Some ([], s)"
| "seen_run (c # cs) s =
     (case seen_step c s of
        None \<Rightarrow> None
      | Some (r, s1) \<Rightarrow> map_option (\<lambda>(rs, s2). (r # rs, s2)) (seen_run cs s1))"

text \<open>The same operations on the list of the specification.\<close>

fun spec_step :: "nat \<Rightarrow> nat \<Rightarrow> seen_op \<Rightarrow> remembered \<Rightarrow> observation option \<times> remembered" where
  "spec_step cap m (Observe p sub i) q =
     (case spec_observe cap m \<lparr>sc_peer = p, sc_subscription = sub\<rparr> i False q of
        (r, q') \<Rightarrow> (Some \<lparr>obs_first = obs_first r, obs_previously_matched = False\<rparr>, q'))"
| "spec_step cap m (ObserveMatch p sub i matched) q =
     (case spec_observe cap m \<lparr>sc_peer = p, sc_subscription = sub\<rparr> i matched q of (r, q') \<Rightarrow> (Some r, q'))"
| "spec_step cap m (ObserveResponse p wire sub i matched) q =
     (let q1 = (case wire of
                  None \<Rightarrow> q
                | Some w \<Rightarrow> if w = sub then q else snd (spec_observe cap m \<lparr>sc_peer = p, sc_subscription = w\<rparr> i matched q))
      in case spec_observe cap m \<lparr>sc_peer = p, sc_subscription = sub\<rparr> i matched q1 of (r, q') \<Rightarrow> (Some r, q'))"
| "spec_step cap m (ClearPeer p) q = (None, filter (\<lambda>(sc, _, _). sc_peer sc \<noteq> p) q)"
| "spec_step cap m (ClearSubscription sub) q = (None, filter (\<lambda>(sc, _, _). sc_subscription sc \<noteq> sub) q)"

fun spec_run :: "nat \<Rightarrow> nat \<Rightarrow> seen_op list \<Rightarrow> remembered \<Rightarrow> observation option list \<times> remembered" where
  "spec_run cap m [] q = ([], q)"
| "spec_run cap m (c # cs) q =
     (case spec_step cap m c q of (r, q1) \<Rightarrow> case spec_run cap m cs q1 of (rs, q2) \<Rightarrow> (r # rs, q2))"

lemma seen_step_ok:
  assumes ok: "si_ok s" and cap: "0 < si_max_per_scope s" and gen: "unat (si_next_generation s) + 2 < 2 ^ 64"
  shows "\<exists>r s'. seen_step c s = Some (r, s') \<and> si_ok s' \<and> same_limits s s' \<and>
    unat (si_next_generation s') \<le> unat (si_next_generation s) + 2 \<and>
    spec_step (si_max_per_scope s) (si_max_total s) c (remembered s) = (r, remembered s')"
proof -
  have small: "si_next_generation s' \<noteq> - 1" if "unat (si_next_generation s') + 1 < 2 ^ 64" for s'
    using that by (auto simp: unsigned_minus_1_eq_mask mask_eq_exp_minus_1)
  have gen0: "si_next_generation s \<noteq> - 1" using gen by (intro small) simp
  note obs = si_observe_ok[OF ok cap gen0]
  show ?thesis
  proof (cases c)
    case (Observe p sub i)
    then show ?thesis using obs[of p sub i False] by (auto simp: observe_def)
  next
    case (ObserveMatch p sub i m)
    then show ?thesis using obs[of p sub i m] by auto
  next
    case (ObserveResponse p wire sub i m)
    show ?thesis
    proof (cases "\<exists>w. wire = Some w \<and> w \<noteq> sub")
      case True
      then obtain w where w: "wire = Some w" "w \<noteq> sub" by blast
      obtain r1 s1 where o1: "observe_with_match p w i m s = Some (r1, s1)" "si_ok s1" "same_limits s s1"
        "unat (si_next_generation s1) \<le> unat (si_next_generation s) + 1"
        "spec_observe (si_max_per_scope s) (si_max_total s) \<lparr>sc_peer = p, sc_subscription = w\<rparr> i m (remembered s) = (r1, remembered s1)"
        using obs[of p w i m] by blast
      have cap1: "0 < si_max_per_scope s1" and gen1: "si_next_generation s1 \<noteq> - 1" using o1(3,4) cap gen by (auto intro!: small)
      from si_observe_ok[OF o1(2) cap1 gen1, of p sub i m] o1(3) obtain r2 s2 where o2: "observe_with_match p sub i m s1 = Some (r2, s2)" "si_ok s2"
        "same_limits s s2" "unat (si_next_generation s2) \<le> unat (si_next_generation s1) + 1"
        "spec_observe (si_max_per_scope s) (si_max_total s) \<lparr>sc_peer = p, sc_subscription = sub\<rparr> i m (remembered s1) = (r2, remembered s2)"
        by auto
      then show ?thesis using o1 w by (auto simp: ObserveResponse observe_response_def)
    next
      case False
      then show ?thesis using obs[of p sub i m] by (cases wire) (auto simp: ObserveResponse observe_response_def)
    qed
  next
    case (ClearPeer p)
    then show ?thesis using clear_scopes_ok[OF ok, of "\<lambda>sc. sc_peer sc = p"] by (simp add: clear_peer_def)
  next
    case (ClearSubscription sub)
    then show ?thesis using clear_scopes_ok[OF ok, of "\<lambda>sc. sc_subscription sc = sub"] by (simp add: clear_subscription_def)
  qed
qed

lemma seen_run_ok:
  assumes "si_ok s" and "0 < si_max_per_scope s" and "unat (si_next_generation s) + 2 * length cs < 2 ^ 64"
  shows "\<exists>rs s'. seen_run cs s = Some (rs, s') \<and> si_ok s' \<and> same_limits s s' \<and>
    spec_run (si_max_per_scope s) (si_max_total s) cs (remembered s) = (rs, remembered s')"
  using assms
proof (induction cs arbitrary: s)
  case (Cons c cs)
  have "unat (si_next_generation s) + 2 < 2 ^ 64" using Cons.prems(3) by simp
  from seen_step_ok[OF Cons.prems(1,2) this, of c] obtain r s1 where 1: "seen_step c s = Some (r, s1)" "si_ok s1" "same_limits s s1"
    "unat (si_next_generation s1) \<le> unat (si_next_generation s) + 2"
    "spec_step (si_max_per_scope s) (si_max_total s) c (remembered s) = (r, remembered s1)" by blast
  from Cons.IH[of s1] 1(2-4) Cons.prems(2,3) obtain rs s2 where "seen_run cs s1 = Some (rs, s2)" "si_ok s2" "same_limits s s2"
    "spec_run (si_max_per_scope s) (si_max_total s) cs (remembered s1) = (rs, remembered s2)" by auto
  then show ?case using 1 by auto
qed simp

lemma si_ok_new: "si_ok (seen_ids_new cap m)"
  by (simp add: si_ok_def seen_ids_new_def held_def tidy_def entry_def)

lemma si_ok_sizes:
  assumes "si_ok s"
  shows "length (si_scopes s) \<le> si_max_total s"
    and "(sc, w) \<in> set (si_scopes s) \<Longrightarrow> length (iw_order w) = length (iw_ids w) \<and> length (iw_ids w) \<le> si_max_per_scope s"
proof -
  have t: "tidy (si_scopes s) (held s)" and n: "si_total s = length (held s)" "si_total s \<le> si_max_total s"
    and per: "\<And>sc. length (of_scope sc (held s)) \<le> si_max_per_scope s" using assms by (simp_all add: si_ok_def)
  note wf = tidyD(1)[OF t]
  show "(sc, w) \<in> set (si_scopes s) \<Longrightarrow> length (iw_order w) = length (iw_ids w) \<and> length (iw_ids w) \<le> si_max_per_scope s"
    using tidy_keys(3)[OF t] tidyD(6)[OF t] per[of sc] unfolding hm_get_iff[OF wf] by auto
  have "keys (si_scopes s) \<subseteq> fst ` set (held s)"
  proof
    fix sc assume "sc \<in> keys (si_scopes s)"
    then obtain w where w: "hm_get (si_scopes s) sc = Some w" by (rule hm_keysE)
    then have "of_scope sc (held s) \<noteq> []" using tidyD(5)[OF t w] tidy_keys(3)[OF t w] by auto
    then show "sc \<in> fst ` set (held s)" by (force simp: filter_empty_conv)
  qed
  then have "card (keys (si_scopes s)) \<le> card (fst ` set (held s))" by (intro card_mono) simp_all
  also have "\<dots> \<le> length (held s)" using card_image_le[of "set (held s)" fst] card_length[of "held s"] by simp
  finally show "length (si_scopes s) \<le> si_max_total s" using n length_keys[OF wf] by simp
qed

text \<open>
  C38: the scoped observations are a bounded list. After any sequence of observations and resets (fewer than the generations of a
  64-bit counter), nothing has underflowed, every observation was answered as by the plain list of the observations that are remembered,
  with the limit per scope and the limit over all, and the memory is bounded: a scope's queue is exactly as long as its window, no scope is empty, and
  the global queue with its stale entries has at most twice the limit.
\<close>

theorem seen_ids_refine:
  assumes "0 < cap" and "cap \<le> m" and "2 * length ops + 1 < 2 ^ 64"
  shows "\<exists>rs s. seen_run ops (seen_ids_new cap m) = Some (rs, s) \<and> spec_run cap m ops [] = (rs, remembered s) \<and>
    si_total s = length (remembered s) \<and> length (remembered s) \<le> m \<and> length (si_global_order s) \<le> 2 * m \<and> length (si_scopes s) \<le> m \<and>
    (\<forall>(sc, w)\<in>set (si_scopes s). iw_ids w \<noteq> [] \<and> length (iw_order w) = length (iw_ids w) \<and> length (iw_ids w) \<le> cap)"
proof -
  let ?s = "seen_ids_new cap m"
  have new: "si_max_per_scope ?s = cap" "si_max_total ?s = m" "unat (si_next_generation ?s) = 1" "remembered ?s = []"
    by (simp_all add: seen_ids_new_def remembered_def held_def)
  from seen_run_ok[OF si_ok_new, of cap m ops] assms(1,3) obtain rs s where
    r: "seen_run ops ?s = Some (rs, s)" "si_ok s" "same_limits ?s s" "spec_run cap m ops [] = (rs, remembered s)"
    unfolding new by auto
  have len: "length (remembered s) = length (held s)" by (simp add: remembered_view)
  have "iw_ids w \<noteq> []" if "(sc, w) \<in> set (si_scopes s)" for sc w
  proof -
    have t: "tidy (si_scopes s) (held s)" using r(2) by (simp add: si_ok_def)
    show ?thesis using that tidyD(5)[OF t] hm_get_iff[OF tidyD(1)[OF t]] by blast
  qed
  then show ?thesis using r si_ok_sizes[OF r(2)] new(1,2) len by (auto simp: si_ok_def)
qed

text \<open>Two peers, the smallest limits: the second identifier of a peer evicts its first, and the third overall the oldest of all.\<close>

theorem seen_ids_refine_witness:
  "\<exists>rs s. seen_run [Observe ''a'' ''s'' ''1'', Observe ''a'' ''s'' ''1'', Observe ''b'' ''s'' ''1'', Observe ''a'' ''s'' ''2'', Observe ''a'' ''s'' ''1'']
      (seen_ids_new 1 2) = Some (rs, s) \<and> map (map_option obs_first) rs = [Some True, Some False, Some True, Some True, Some True] \<and>
    length (remembered s) \<le> 2 \<and> length (si_global_order s) \<le> 4"
proof -
  let ?ops = "[Observe ''a'' ''s'' ''1'', Observe ''a'' ''s'' ''1'', Observe ''b'' ''s'' ''1'', Observe ''a'' ''s'' ''2'', Observe ''a'' ''s'' ''1'']"
  have "map (map_option obs_first) (fst (spec_run 1 2 ?ops [])) = [Some True, Some False, Some True, Some True, Some True]" by code_simp
  moreover obtain rs s where "seen_run ?ops (seen_ids_new 1 2) = Some (rs, s)" "spec_run 1 2 ?ops [] = (rs, remembered s)"
    "length (remembered s) \<le> 2" "length (si_global_order s) \<le> 2 * 2"
    using seen_ids_refine[of 1 2 ?ops] by auto
  ultimately show ?thesis by auto
qed

end
