(* ===== verification/Fips_Client.thy ===== *)
theory Fips_Client
  imports Recent_Events Client_Peers Pending_Wants Seen_Ids
begin

text \<open>
  The FIPS client, \<open>ClientInner\<close> of \<open>crates/nostr-pubsub-fips/src/client_inner.rs\<close> with its handlers in \<open>client_received_event.rs\<close>,
  \<open>client_publication.rs\<close>, \<open>recent_events.rs\<close>, \<open>anonymous_publication.rs\<close>, \<open>replay_source.rs\<close>, \<open>client_transport.rs\<close> and \<open>client_lifecycle.rs\<close>. Every mutex is a field of the
  state, and a handler is one step. The queues to the transport and to the replay workers are bounded and may be full. An
  \<open>Arc\<close> that several owners share is an index: deliveries live in a list, and an active subscription holds the index
  of its delivery. A panic is \<open>None\<close>; the clock, the answers of the endpoint and of an application's event store are arguments.
\<close>

section \<open>Environment\<close>

text \<open>
  Parameters: the libraries, the name of the endpoint, the parser of peer names, the length of an event's JSON text, the optional policies
  and the two hashes of an event and a peer.
\<close>

record client_env =
  ce_nostr :: nostr_lib
  ce_wire :: wire_lib
  ce_json :: sub_json
  ce_roles :: role_lib
  ce_from_npub :: "string \<Rightarrow> string option"
  ce_event_text :: "event \<Rightarrow> string"
  ce_event_policy :: "(verified_event \<Rightarrow> event_source \<Rightarrow> pubsub_error + policy_decision) option"
  ce_peer_policy :: "peer_policy option"
  ce_reserve :: nat
  ce_live_hash :: "event_id \<Rightarrow> string \<Rightarrow> u64"
  ce_fanout_hash :: "event_id \<Rightarrow> string \<Rightarrow> u64"

section \<open>State\<close>

record active_subscription =
  as_filters :: "filter list"
  as_fresh :: bool
  as_peers :: "string list"
  as_delivery :: nat

datatype transport_command = TSend string bytes | TCooldown string

datatype replay_query = ReplaySubscription string "filter list" "event_id list" nat | ReplayEvent event_id

record replay_request =
  rq_peer :: string
  rq_source :: nat
  rq_query :: replay_query

record pending_publication =
  pp_providers :: "string list"
  pp_reply :: bool

record remote_publication =
  rm_event_id :: event_id
  rm_provider :: string

record client_counters =
  n_req :: u64
  n_close :: u64
  n_event :: u64
  n_inv :: u64
  n_want :: u64
  n_want_sent :: u64
  n_subscription_events :: u64
  n_expired_wants :: u64
  n_cooldowns :: u64

record client =
  cl_open :: bool
  cl_role :: client_role
  cl_publications :: "(event_id, pending_publication) hmap"
  cl_replies :: "(event_id \<times> (pubsub_error + remote_publication)) list"
  cl_codec :: wire_codec
  cl_options :: client_options
  cl_transport :: "transport_command list"
  cl_transport_capacity :: nat
  cl_replay_source :: "nat option"
  cl_replay :: "replay_request list"
  cl_replay_capacity :: nat
  cl_counters :: client_counters
  cl_next_subscription_id :: u64
  cl_subscriptions :: "(string, active_subscription) hmap"
  cl_deliveries :: "(delivery \<times> channel) list"
  cl_peer_subscriptions :: sub_store
  cl_recent :: recent_events
  cl_observed_inventories :: seen_ids
  cl_observed_full_events :: seen_ids
  cl_behavior :: provider_behavior
  cl_wants :: pending_wants

definition FIPS_NOSTR_PUBSUB_MAX_OBSERVED_IDS_PER_SCOPE :: nat where "FIPS_NOSTR_PUBSUB_MAX_OBSERVED_IDS_PER_SCOPE = 1024"
definition FIPS_NOSTR_PUBSUB_MAX_OBSERVED_IDS :: nat where "FIPS_NOSTR_PUBSUB_MAX_OBSERVED_IDS = 16384"

definition wants_from_options :: "client_options \<Rightarrow> pending_wants" where
  "wants_from_options o1 = pw_new (max 1 ((op_max_active_subscriptions o1 + 1) * op_max_replay_events o1)) (op_max_connected_peers o1)"

text \<open>
  \<open>tokio::sync::mpsc::channel\<close> panics on the capacity zero and above \<open>Semaphore::MAX_PERMITS\<close>, which is \<open>usize::MAX >> 3\<close>.
\<close>

definition MAX_PERMITS :: nat where "MAX_PERMITS = (2 ^ 64 - 1) div 8"

definition channel_panics :: "nat \<Rightarrow> bool" where
  "channel_panics capacity \<longleftrightarrow> capacity = 0 \<or> capacity > MAX_PERMITS"

definition command_capacity :: "client_options \<Rightarrow> nat" where
  "command_capacity o1 = max 1 (min (op_max_connected_peers o1 * op_receive_batch_size o1) (2 ^ 64 - 1))"

definition replay_capacity :: "client_options \<Rightarrow> nat" where
  "replay_capacity o1 = max (op_max_connected_peers o1) (op_receive_batch_size o1)"

text \<open>The state of a new client: \<open>start_for_role\<close>, up to the tasks it spawns. \<open>codec\<close> is the result of \<open>FipsPubsubWireCodec::new\<close>.\<close>

definition client_state :: "client_options \<Rightarrow> client_role \<Rightarrow> wire_codec \<Rightarrow> client" where
  "client_state o1 role codec =
     \<lparr>cl_open = True, cl_role = role, cl_publications = [], cl_replies = [], cl_codec = codec, cl_options = o1,
      cl_transport = [], cl_transport_capacity = command_capacity o1,
      cl_replay_source = None, cl_replay = [], cl_replay_capacity = replay_capacity o1,
      cl_counters = \<lparr>n_req = 0, n_close = 0, n_event = 0, n_inv = 0, n_want = 0, n_want_sent = 0, n_subscription_events = 0,
        n_expired_wants = 0, n_cooldowns = 0\<rparr>,
      cl_next_subscription_id = 1, cl_subscriptions = [], cl_deliveries = [],
      cl_peer_subscriptions = store_new (subscription_limits o1),
      cl_recent = recent_new (op_max_replay_events o1) FIPS_NOSTR_PUBSUB_MAX_SEEN_EVENT_IDS,
      cl_observed_inventories = seen_ids_new FIPS_NOSTR_PUBSUB_MAX_OBSERVED_IDS_PER_SCOPE FIPS_NOSTR_PUBSUB_MAX_OBSERVED_IDS,
      cl_observed_full_events = seen_ids_new FIPS_NOSTR_PUBSUB_MAX_OBSERVED_IDS_PER_SCOPE FIPS_NOSTR_PUBSUB_MAX_OBSERVED_IDS,
      cl_behavior = provider_behavior_default, cl_wants = wants_from_options o1\<rparr>"

text \<open>\<open>start_for_role\<close> up to the state: \<open>None\<close> is the panic of one of its two channels.\<close>

definition client_new :: "client_options \<Rightarrow> client_role \<Rightarrow> (pubsub_error + client) option" where
  "client_new o1 role =
     (case wire_codec_new (op_max_frame_bytes o1) of
        Inl err \<Rightarrow> Some (Inl err)
      | Inr codec \<Rightarrow>
          if channel_panics (command_capacity o1) \<or> channel_panics (replay_capacity o1) then None
          else Some (Inr (client_state o1 role codec)))"

abbreviation count_event :: "(client_counters \<Rightarrow> client_counters) \<Rightarrow> client \<Rightarrow> client" where
  "count_event f s \<equiv> s\<lparr>cl_counters := f (cl_counters s)\<rparr>"

abbreviation event_text_key :: "client_env \<Rightarrow> verified_event \<Rightarrow> string" where
  "event_text_key E v \<equiv> verified_key (ce_nostr E) v"

definition admit :: "client \<Rightarrow> pubsub_error option" where
  "admit s = (if cl_open s then None else Some (Storage ''FIPS pubsub client is shut down''))"

definition event_payload_bytes :: "client_env \<Rightarrow> verified_event \<Rightarrow> pubsub_error + u32" where
  "event_payload_bytes E v =
     (let n = length (ce_event_text E (as_event v))
      in if n < 2 ^ 32 then Inr (of_nat n) else Inl (Validation ''Nostr event payload is too large''))"

definition event_decision :: "client_env \<Rightarrow> verified_event \<Rightarrow> event_source \<Rightarrow> pubsub_error + policy_decision" where
  "event_decision E v source =
     (case ce_event_policy E of Some policy \<Rightarrow> policy v source | None \<Rightarrow> Inr (Allow SOURCE_PRIORITY_FIPS_ENDPOINT))"

definition event_is_admitted :: "client_env \<Rightarrow> verified_event \<Rightarrow> event_source \<Rightarrow> bool" where
  "event_is_admitted E v source \<longleftrightarrow>
     (case event_decision E v source of Inl err \<Rightarrow> False | Inr (Drop reason) \<Rightarrow> False | Inr _ \<Rightarrow> True)"

section \<open>Sending\<close>

definition transport_try_send :: "transport_command \<Rightarrow> client \<Rightarrow> bool \<times> client" where
  "transport_try_send c s =
     (if length (cl_transport s) < cl_transport_capacity s then (True, s\<lparr>cl_transport := cl_transport s @ [c]\<rparr>) else (False, s))"

fun message_allowed :: "client_env \<Rightarrow> client \<Rightarrow> string \<Rightarrow> fips_message \<Rightarrow> pubsub_error + bool" where
  "message_allowed E s peer (FClose i) = Inr True"
| "message_allowed E s peer (FWant i) =
     Inr (case cl_role s of RolePublisher \<Rightarrow> False | _ \<Rightarrow> True)"
| "message_allowed E s peer (FReq i filters) =
     (case cl_role s of
        RoleFull \<Rightarrow> Inr True
      | role \<Rightarrow> (case validate_filters (ce_roles E) role filters of Some err \<Rightarrow> Inl err | None \<Rightarrow> Inr True))"
| "message_allowed E s peer (FEvent i v) =
     Inr (case cl_role s of
            RoleFull \<Rightarrow> True
          | RoleReceiver authors \<Rightarrow> can_export (cl_role s) v
          | RolePublisher \<Rightarrow>
              i = None \<and>
              (case hm_get (cl_publications s) (ev_id (as_event v)) of None \<Rightarrow> False | Some pending \<Rightarrow> peer \<in> set (pp_providers pending))
          | RoleDiscovery scope \<Rightarrow> False)"
| "message_allowed E s peer (FInv ids i kind payload_bytes hop_limit) =
     Inr (case cl_role s of
            RoleFull \<Rightarrow> True
          | RoleReceiver authors \<Rightarrow>
              (case recent_event (ce_nostr E) (to_hex (ce_nostr E) i) (cl_recent s) of
                 None \<Rightarrow> False
               | Some v \<Rightarrow> ev_kind (as_event v) = kind \<and> can_export (cl_role s) v)
          | _ \<Rightarrow> False)"
| "message_allowed E s peer (FOk i accepted message) = Inr (cl_role s = RoleFull)"

definition validate_outbound :: "client_env \<Rightarrow> string \<Rightarrow> bytes \<Rightarrow> client \<Rightarrow> pubsub_error option" where
  "validate_outbound E peer frame s =
     (case decode_frame (ce_nostr E) (ce_wire E) (cl_codec s) frame of
        Inl err \<Rightarrow> Some err
      | Inr m \<Rightarrow>
          (case message_allowed E s peer m of
             Inl err \<Rightarrow> Some err
           | Inr allowed \<Rightarrow>
               if allowed then None else Some (invalid_option ''outbound frame is not allowed on this FIPS privacy role'')))"

definition send_frame :: "client_env \<Rightarrow> string \<Rightarrow> bytes \<Rightarrow> client \<Rightarrow> pubsub_error option \<times> client" where
  "send_frame E peer frame s =
     (case validate_outbound E peer frame s of
        Some err \<Rightarrow> (Some err, s)
      | None \<Rightarrow>
          (case transport_try_send (TSend peer frame) s of
             (True, s') \<Rightarrow> (None, s')
           | (False, s') \<Rightarrow> (Some (Storage ''queue TCP/FIPS Nostr pubsub frame''), s')))"

definition encode :: "client_env \<Rightarrow> client \<Rightarrow> fips_message \<Rightarrow> pubsub_error + bytes" where
  "encode E s m = encode_frame (ce_nostr E) (ce_wire E) (cl_codec s) m"

text \<open>Encode a message and send it, ignoring both errors, as the handlers do.\<close>

definition send_message :: "client_env \<Rightarrow> string \<Rightarrow> fips_message \<Rightarrow> client \<Rightarrow> client" where
  "send_message E peer m s = (case encode E s m of Inl err \<Rightarrow> s | Inr frame \<Rightarrow> snd (send_frame E peer frame s))"

definition record_provider_violation :: "string \<Rightarrow> provider_violation \<Rightarrow> u64 \<Rightarrow> client \<Rightarrow> client" where
  "record_provider_violation peer violation now_ms s =
     (case record_violation peer violation now_ms (cl_behavior s) of
        (cooldown, b) \<Rightarrow>
          let s1 = s\<lparr>cl_behavior := b\<rparr>
          in if cooldown = None then s1
             else case transport_try_send (TCooldown peer) s1 of
                    (True, s2) \<Rightarrow> count_event (\<lambda>c. c\<lparr>n_cooldowns := n_cooldowns c + 1\<rparr>) s2
                  | (False, s2) \<Rightarrow> s2)"

definition inventory_frame :: "client_env \<Rightarrow> string list \<Rightarrow> verified_event \<Rightarrow> u8 \<Rightarrow> client \<Rightarrow> (pubsub_error + bytes) \<times> client" where
  "inventory_frame E ids v hop_limit s =
     (if \<not> can_export (cl_role s) v then (Inl (invalid_option ''inventory author is not public on this receiver''), s)
      else
        (let s1 = (case cl_role s of
                     RoleReceiver authors \<Rightarrow>
                       s\<lparr>cl_recent := snd (recent_insert_for_publish (ce_nostr E) v (es_local_index ''approved-public-replay'') hop_limit (cl_recent s))\<rparr>
                   | _ \<Rightarrow> s)
         in case event_payload_bytes E v of
              Inl err \<Rightarrow> (Inl err, s1)
            | Inr payload_bytes \<Rightarrow> (encode E s1 (FInv ids (ev_id (as_event v)) (ev_kind (as_event v)) payload_bytes hop_limit), s1)))"

fun send_each_inventory :: "client_env \<Rightarrow> verified_event \<Rightarrow> u8 \<Rightarrow> targets \<Rightarrow> client \<Rightarrow> nat \<times> client" where
  "send_each_inventory E v hop_limit [] s = (0, s)"
| "send_each_inventory E v hop_limit ((npub, ids) # rest) s =
     (case ce_from_npub E npub of
        None \<Rightarrow> send_each_inventory E v hop_limit rest s
      | Some peer \<Rightarrow>
          (case inventory_frame E ids v hop_limit s of
             (Inl err, s1) \<Rightarrow> send_each_inventory E v hop_limit rest s1
           | (Inr frame, s1) \<Rightarrow>
               (case send_frame E peer frame s1 of
                  (sent, s2) \<Rightarrow>
                    (case send_each_inventory E v hop_limit rest s2 of (n, s3) \<Rightarrow> (if sent = None then n + 1 else n, s3)))))"

definition send_inventories :: "client_env \<Rightarrow> targets \<Rightarrow> verified_event \<Rightarrow> u8 \<Rightarrow> client \<Rightarrow> nat \<times> client" where
  "send_inventories E targets v hop_limit s = (if hop_limit = 0 then (0, s) else send_each_inventory E v hop_limit targets s)"

definition peer_delivery_targets :: "client_env \<Rightarrow> verified_event \<Rightarrow> source_id option \<Rightarrow> client \<Rightarrow> (pubsub_error + targets) option" where
  "peer_delivery_targets E v excluded s =
     delivery_targets (ce_nostr E) (ce_peer_policy E) (ce_reserve E) (ce_live_hash E (ev_id (as_event v)))
       (ce_fanout_hash E (ev_id (as_event v))) (op_fanout (cl_options s)) (cl_peer_subscriptions s) v excluded"

section \<open>Local subscriptions\<close>

fun send_each_close :: "client_env \<Rightarrow> bytes \<Rightarrow> string list \<Rightarrow> client \<Rightarrow> client" where
  "send_each_close E frame [] s = s"
| "send_each_close E frame (npub # npubs) s =
     (case ce_from_npub E npub of
        None \<Rightarrow> send_each_close E frame npubs s
      | Some peer \<Rightarrow> send_each_close E frame npubs (snd (transport_try_send (TSend peer frame) s)))"

definition send_close :: "client_env \<Rightarrow> string \<Rightarrow> string list \<Rightarrow> client \<Rightarrow> client" where
  "send_close E key peers s = (case encode E s (FClose key) of Inl err \<Rightarrow> s | Inr frame \<Rightarrow> send_each_close E frame peers s)"

definition update_delivery :: "nat \<Rightarrow> (delivery \<Rightarrow> delivery) \<Rightarrow> client \<Rightarrow> client" where
  "update_delivery h f s = s\<lparr>cl_deliveries := (cl_deliveries s)[h := map_prod f (\<lambda>ch. ch) (cl_deliveries s ! h)]\<rparr>"

definition close_subscription :: "client_env \<Rightarrow> string \<Rightarrow> client \<Rightarrow> client" where
  "close_subscription E key s =
     (case hm_get (cl_subscriptions s) key of
        None \<Rightarrow> s
      | Some active \<Rightarrow>
          let s1 = update_delivery (as_delivery active) dl_close (s\<lparr>cl_subscriptions := hm_remove key (cl_subscriptions s)\<rparr>)
          in send_close E key (as_peers active)
               (s1\<lparr>cl_wants := pw_remove_subscription key (cl_wants s1),
                   cl_observed_inventories := clear_subscription key (cl_observed_inventories s1)\<rparr>))"

abbreviation delivery_at :: "client \<Rightarrow> nat \<Rightarrow> delivery" where
  "delivery_at s h \<equiv> fst (cl_deliveries s ! h)"

definition wants_event :: "client_env \<Rightarrow> string \<Rightarrow> verified_event \<Rightarrow> active_subscription \<Rightarrow> bool" where
  "wants_event E npub v active \<longleftrightarrow>
     npub \<in> set (as_peers active) \<and> interest_from_filters (ce_nostr E) (as_filters active) v = Subscribed"

definition deliver_local :: "client_env \<Rightarrow> nat \<Rightarrow> verified_event \<Rightarrow> event_source \<Rightarrow> client \<Rightarrow> bool \<times> client" where
  "deliver_local E h v source s =
     (case cl_deliveries s ! h of
        (d, ch) \<Rightarrow>
          (case enqueue (ce_nostr E) \<lparr>qe_event = v, qe_source = source, qe_priority = SOURCE_PRIORITY_FIPS_ENDPOINT\<rparr> d ch of
             (accepted, d', ch') \<Rightarrow> (accepted, s\<lparr>cl_deliveries := (cl_deliveries s)[h := (d', ch')]\<rparr>)))"

fun deliver_each :: "client_env \<Rightarrow> string \<Rightarrow> verified_event \<Rightarrow> (string \<times> active_subscription) list \<Rightarrow> client \<Rightarrow> bool \<times> string list \<times> client" where
  "deliver_each E npub v [] s = (False, [], s)"
| "deliver_each E npub v ((key, active) # rest) s =
     (if \<not> wants_event E npub v active \<or> delivery_contains (event_text_key E v) (delivery_at s (as_delivery active))
      then deliver_each E npub v rest s
      else case deliver_local E (as_delivery active) v (es_fips_endpoint npub) s of
             (accepted, s1) \<Rightarrow>
               (case deliver_each E npub v rest s1 of
                  (delivered, lagged, s2) \<Rightarrow>
                    (accepted \<or> delivered, if dl_status (delivery_at s1 (as_delivery active)) = Lagged then key # lagged else lagged, s2)))"

definition deliver_local_event :: "client_env \<Rightarrow> string \<Rightarrow> verified_event \<Rightarrow> client \<Rightarrow> bool \<times> client" where
  "deliver_local_event E npub v s =
     (case deliver_each E npub v (cl_subscriptions s) s of
        (delivered, lagged, s1) \<Rightarrow> (delivered, fold (close_subscription E) lagged s1))"

definition event_matches_subscription :: "client_env \<Rightarrow> string \<Rightarrow> string option \<Rightarrow> verified_event \<Rightarrow> client \<Rightarrow> bool" where
  "event_matches_subscription E npub subscription_id v s \<longleftrightarrow>
     (case subscription_id of
        Some i \<Rightarrow> (case hm_get (cl_subscriptions s) i of None \<Rightarrow> False | Some active \<Rightarrow> wants_event E npub v active)
      | None \<Rightarrow> list_ex (\<lambda>(_, active). wants_event E npub v active) (cl_subscriptions s))"

fun replay_each :: "client_env \<Rightarrow> active_subscription \<Rightarrow> cached_recent list \<Rightarrow> client \<Rightarrow> client" where
  "replay_each E active [] s = s"
| "replay_each E active (cached # rest) s =
     (if interest_from_filters (ce_nostr E) (as_filters active) (rc_event cached) = Subscribed
      then replay_each E active rest (snd (deliver_local E (as_delivery active) (rc_event cached) (rc_source cached) s))
      else replay_each E active rest s)"

definition replay_local_events :: "client_env \<Rightarrow> string \<Rightarrow> client \<Rightarrow> client" where
  "replay_local_events E key s =
     (case hm_get (cl_subscriptions s) key of
        None \<Rightarrow> s
      | Some active \<Rightarrow>
          let s1 = replay_each E active (rv_entries (cl_recent s)) s
          in if dl_status (delivery_at s1 (as_delivery active)) = Lagged then close_subscription E key s1 else s1)"

section \<open>Inventories\<close>

record advertisement =
  ad_subscriptions :: "string list"
  ad_event_id :: event_id
  ad_kind :: u16
  ad_payload_bytes :: u32
  ad_hop_limit :: u8

fun observe_each :: "string \<Rightarrow> string \<Rightarrow> string list \<Rightarrow> seen_ids \<Rightarrow> (string list \<times> seen_ids) option" where
  "observe_each npub event_id [] o1 = Some ([], o1)"
| "observe_each npub event_id (i # is) o1 =
     (case observe npub i event_id o1 of
        None \<Rightarrow> None
      | Some (first, o2) \<Rightarrow>
          map_option (\<lambda>(ids, o3). (if first then i # ids else ids, o3)) (observe_each npub event_id is o2))"

definition candidate_subscriptions :: "client_env \<Rightarrow> string \<Rightarrow> advertisement \<Rightarrow> client \<Rightarrow> string list" where
  "candidate_subscriptions E npub inv1 s =
     (let event_id = to_hex (ce_nostr E) (ad_event_id inv1); already_seen = recent_contains event_id (cl_recent s)
      in filter (\<lambda>i. case hm_get (cl_subscriptions s) i of
                       None \<Rightarrow> False
                     | Some active \<Rightarrow> npub \<in> set (as_peers active) \<and> (\<not> already_seen \<or> as_fresh active) \<and>
                         \<not> delivery_contains event_id (delivery_at s (as_delivery active))) (ad_subscriptions inv1))"

definition accept_inventory :: "client_env \<Rightarrow> string \<Rightarrow> advertisement \<Rightarrow> u64 \<Rightarrow> client \<Rightarrow> ((pubsub_error + bytes option) \<times> client) option" where
  "accept_inventory E npub inv1 now_ms s =
     (if length (ad_subscriptions inv1) > op_max_active_subscriptions (cl_options s) + 1 then Some (Inr None, s)
      else
        (let event_id = to_hex (ce_nostr E) (ad_event_id inv1)
         in case observe_each npub event_id (candidate_subscriptions E npub inv1 s) (cl_observed_inventories s) of
              None \<Rightarrow> None
            | Some (ids, o1) \<Rightarrow>
                (let s1 = s\<lparr>cl_observed_inventories := o1\<rparr>
                 in if ids = [] then Some (Inr None, s1)
                    else case pw_insert event_id
                                \<lparr>pi_selected = \<lparr>ip_peer = npub, ip_subscriptions = ids, ip_requested = True\<rparr>, pi_alternatives = [],
                                 pi_event_kind = ad_kind inv1, pi_payload_bytes = ad_payload_bytes inv1, pi_hop_limit = ad_hop_limit inv1,
                                 pi_requested_at_ms = now_ms, pi_retry_count = 0\<rparr> (cl_wants s1) of
                           (should_request, w) \<Rightarrow>
                             (let s2 = s1\<lparr>cl_wants := w\<rparr>
                              in if \<not> should_request then Some (Inr None, s2)
                                 else Some (map_sum (\<lambda>err. err) Some (encode E s2 (FWant (ad_event_id inv1))), s2)))))"

text \<open>A body that is cached already satisfies the fresh subscriptions of the advertising peer.\<close>

fun deliver_fresh :: "client_env \<Rightarrow> string \<Rightarrow> verified_event \<Rightarrow> string list \<Rightarrow> client \<Rightarrow> string list \<times> client" where
  "deliver_fresh E npub v [] s = ([], s)"
| "deliver_fresh E npub v (i # is) s =
     (case hm_get (cl_subscriptions s) i of
        None \<Rightarrow> deliver_fresh E npub v is s
      | Some active \<Rightarrow>
          if as_fresh active \<and> npub \<in> set (as_peers active) \<and>
             \<not> delivery_contains (event_text_key E v) (delivery_at s (as_delivery active)) \<and>
             interest_from_filters (ce_nostr E) (as_filters active) v = Subscribed
          then (case deliver_local E (as_delivery active) v (es_fips_endpoint npub) s of
                  (accepted, s1) \<Rightarrow>
                    (case deliver_fresh E npub v is s1 of
                       (lagged, s2) \<Rightarrow> (if dl_status (delivery_at s1 (as_delivery active)) = Lagged then i # lagged else lagged, s2)))
          else deliver_fresh E npub v is s)"

definition handle_inv :: "client_env \<Rightarrow> string \<Rightarrow> advertisement \<Rightarrow> u64 \<Rightarrow> client \<Rightarrow> client option" where
  "handle_inv E npub inv1 now_ms s0 =
     (let s = count_event (\<lambda>c. c\<lparr>n_inv := n_inv c + 1\<rparr>) s0
      in if length (ad_subscriptions inv1) > op_max_active_subscriptions (cl_options s) + 1 then Some s
         else case recent_event (ce_nostr E) (to_hex (ce_nostr E) (ad_event_id inv1)) (cl_recent s) of
                Some v \<Rightarrow>
                  if ev_kind (as_event v) \<noteq> ad_kind inv1 \<or> event_payload_bytes E v \<noteq> Inr (ad_payload_bytes inv1) \<or>
                     \<not> event_is_admitted E v (es_fips_endpoint npub) then Some s
                  else (case deliver_fresh E npub v (ad_subscriptions inv1) s of
                          (lagged, s1) \<Rightarrow> Some (fold (close_subscription E) lagged s1))
              | None \<Rightarrow>
                  (case accept_inventory E npub inv1 now_ms s of
                     None \<Rightarrow> None
                   | Some (Inr (Some frame), s1) \<Rightarrow>
                       (case send_frame E npub frame s1 of
                          (None, s2) \<Rightarrow> Some (count_event (\<lambda>c. c\<lparr>n_want_sent := n_want_sent c + 1\<rparr>) s2)
                        | (Some err, s2) \<Rightarrow> Some s2)
                   | Some (_, s1) \<Rightarrow> Some s1))"

text \<open>The frame of one retry; a name or an identifier that does not parse, or a frame that is too long, is skipped.\<close>

definition retry_frame :: "client_env \<Rightarrow> client \<Rightarrow> string \<times> inventory_provider \<Rightarrow> (string \<times> bytes) option" where
  "retry_frame E s = (\<lambda>(event_id, provider).
     (case ce_from_npub E (ip_peer provider) of
        None \<Rightarrow> None
      | Some peer \<Rightarrow>
          (case from_hex (ce_nostr E) event_id of
             None \<Rightarrow> None
           | Some i \<Rightarrow> (case encode E s (FWant i) of Inl err \<Rightarrow> None | Inr frame \<Rightarrow> Some (peer, frame)))))"

definition retry_pending_frames :: "client_env \<Rightarrow> u64 \<Rightarrow> client \<Rightarrow> (string \<times> bytes) list \<times> client" where
  "retry_pending_frames E now_ms s =
     (let ms = op_query_timeout (cl_options s) div 1000000;
          retry_after_ms = (if ms < 2 ^ 64 then of_nat ms else - 1)
      in case retry_due now_ms retry_after_ms (cl_wants s) of
           (due, w) \<Rightarrow>
             let s1 = count_event (\<lambda>c. c\<lparr>n_expired_wants := n_expired_wants c + of_nat (rb_expired_event_count due)\<rparr>) (s\<lparr>cl_wants := w\<rparr>);
                 s2 = fold (\<lambda>provider s. case ce_from_npub E (ip_peer provider) of
                              None \<Rightarrow> s
                            | Some peer \<Rightarrow> record_provider_violation peer UnansweredInventory now_ms s) (rb_expired_providers due) s1
             in (List.map_filter (retry_frame E s2) (rb_retries due), s2))"

section \<open>Received events\<close>

definition complete_want :: "client_env \<Rightarrow> string \<Rightarrow> string \<Rightarrow> verified_event \<Rightarrow> client \<Rightarrow> (pubsub_error + u8 option) \<times> client" where
  "complete_want E npub subscription_id v s =
     (case event_payload_bytes E v of
        Inl err \<Rightarrow> (Inl err, s)
      | Inr payload_bytes \<Rightarrow>
          (case hm_get (cl_subscriptions s) subscription_id of
             None \<Rightarrow> (Inr None, s)
           | Some active \<Rightarrow>
               if \<not> wants_event E npub v active then (Inr None, s)
               else case take_matching (event_text_key E v) npub subscription_id (ev_kind (as_event v)) payload_bytes (cl_wants s) of
                      (None, w) \<Rightarrow> (Inr None, s\<lparr>cl_wants := w\<rparr>)
                    | (Some pending, w) \<Rightarrow> (Inr (Some (sat_sub (pi_hop_limit pending) 1)), s\<lparr>cl_wants := w\<rparr>)))"

definition remember_event :: "client_env \<Rightarrow> verified_event \<Rightarrow> event_source \<Rightarrow> u8 \<Rightarrow> client \<Rightarrow> bool \<times> client" where
  "remember_event E v source hop_limit s =
     (case recent_insert (ce_nostr E) v source hop_limit (cl_recent s) of (new, r) \<Rightarrow> (new, s\<lparr>cl_recent := r\<rparr>))"

text \<open>Announce an event to the interested peers; an error of the selection counts as no target.\<close>

definition announce :: "client_env \<Rightarrow> verified_event \<Rightarrow> u8 \<Rightarrow> string \<Rightarrow> client \<Rightarrow> client option" where
  "announce E v hop_limit excluded s =
     (case peer_delivery_targets E v (Some excluded) s of
        None \<Rightarrow> None
      | Some (Inl err) \<Rightarrow> Some s
      | Some (Inr targets) \<Rightarrow> Some (snd (send_inventories E targets v hop_limit s)))"

definition handle_event :: "client_env \<Rightarrow> string \<Rightarrow> string option \<Rightarrow> verified_event \<Rightarrow> client \<Rightarrow> client option" where
  "handle_event E npub subscription_id v s =
     (case (case subscription_id of
              Some i \<Rightarrow> (case complete_want E npub i v s of
                            (Inr (Some hop_limit), s1) \<Rightarrow> (hop_limit, s1)
                          | (_, s1) \<Rightarrow> (0, s1))
            | None \<Rightarrow> (op_max_hops (cl_options s), s)) of
        (hop_limit, s1) \<Rightarrow>
          let s2 = (if subscription_id \<noteq> None then count_event (\<lambda>c. c\<lparr>n_subscription_events := n_subscription_events c + 1\<rparr>) s1 else s1)
          in case deliver_local_event E npub v s2 of
               (False, s3) \<Rightarrow> Some s3
             | (True, s3) \<Rightarrow>
                 (case remember_event E v (es_fips_endpoint npub) hop_limit s3 of
                    (new, s4) \<Rightarrow> if new \<and> hop_limit > 0 then announce E v hop_limit npub s4 else Some s4))"

definition accept_publication :: "client_env \<Rightarrow> string \<Rightarrow> verified_event \<Rightarrow> client \<Rightarrow> client option" where
  "accept_publication E peer v s =
     (let source = es_fips_endpoint peer; accepted = event_is_admitted E v source;
          message = FOk (ev_id (as_event v)) accepted (if accepted then [] else ''blocked: event policy'')
      in map_option (send_message E peer message)
           (if \<not> accepted then Some s
            else case remember_event E v source (op_max_hops (cl_options s)) (snd (deliver_local_event E peer v s)) of
                   (True, s1) \<Rightarrow> announce E v (op_max_hops (cl_options s)) peer s1
                 | (False, s1) \<Rightarrow> Some s1))"

definition fresh_response_subscription :: "client_env \<Rightarrow> string \<Rightarrow> verified_event \<Rightarrow> client \<Rightarrow> string option" where
  "fresh_response_subscription E peer v s =
     (case hm_get (pw_entries (cl_wants s)) (event_text_key E v) of
        None \<Rightarrow> None
      | Some request \<Rightarrow>
          (case requested_provider peer request of
             None \<Rightarrow> None
           | Some provider \<Rightarrow>
               if pi_event_kind request \<noteq> ev_kind (as_event v) \<or> event_payload_bytes E v \<noteq> Inr (pi_payload_bytes request) then None
               else find (\<lambda>i. case hm_get (cl_subscriptions s) i of
                                None \<Rightarrow> False
                              | Some active \<Rightarrow> as_fresh active \<and> wants_event E peer v active \<and>
                                  \<not> delivery_contains (event_text_key E v) (delivery_at s (as_delivery active))) (ip_subscriptions provider)))"

definition handle_received_event :: "client_env \<Rightarrow> string \<Rightarrow> string option \<Rightarrow> verified_event \<Rightarrow> u64 \<Rightarrow> client \<Rightarrow> client option" where
  "handle_received_event E peer subscription_id v now_ms s0 =
     (let s = count_event (\<lambda>c. c\<lparr>n_event := n_event c + 1\<rparr>) s0
      in if subscription_id = None \<and> op_accept_anonymous_publications (cl_options s) then accept_publication E peer v s
         else
           (let is_subscribed = event_matches_subscription E peer subscription_id v s;
                fresh_id = (if is_subscribed \<and> subscription_id \<noteq> None then fresh_response_subscription E peer v s else None);
                response_id = (case fresh_id of Some i \<Rightarrow> Some i | None \<Rightarrow> subscription_id)
            in case observe_response peer subscription_id (case response_id of None \<Rightarrow> [] | Some i \<Rightarrow> i) (event_text_key E v) is_subscribed
                      (cl_observed_full_events s) of
                 None \<Rightarrow> None
               | Some (observation, o1) \<Rightarrow>
                   (let s1 = s\<lparr>cl_observed_full_events := o1\<rparr>
                    in if \<not> is_subscribed
                       then Some (if obs_previously_matched observation then s1
                                  else record_provider_violation peer (OutOfFilterEvent (\<not> obs_first observation)) now_ms s1)
                       else if \<not> obs_first observation then Some s1
                       else if \<not> event_is_admitted E v (es_fips_endpoint peer) then Some s1
                       else handle_event E peer response_id v s1)))"

section \<open>Requests of peers\<close>

definition queue_replay :: "string \<Rightarrow> replay_query \<Rightarrow> client \<Rightarrow> client" where
  "queue_replay peer query s =
     (if peer_filter_count (cl_peer_subscriptions s) peer = 0 then s
      else case cl_replay_source s of
             None \<Rightarrow> s
           | Some source \<Rightarrow>
               if length (cl_replay s) < cl_replay_capacity s
               then s\<lparr>cl_replay := cl_replay s @ [\<lparr>rq_peer = peer, rq_source = source, rq_query = query\<rparr>]\<rparr> else s)"

definition query_limit :: "filter list \<Rightarrow> nat \<Rightarrow> nat" where
  "query_limit filters maximum =
     (if filters = [] then maximum
      else min (fold (\<lambda>f acc. acc + (case f_limit f of None \<Rightarrow> maximum | Some n \<Rightarrow> n)) filters 0) maximum)"

fun replay_inventories :: "client_env \<Rightarrow> string \<Rightarrow> string \<Rightarrow> cached_recent list \<Rightarrow> client \<Rightarrow> event_id list \<times> client" where
  "replay_inventories E peer subscription_id [] s = ([], s)"
| "replay_inventories E peer subscription_id (cached # rest) s =
     (case inventory_frame E [subscription_id] (rc_event cached) (rc_hop_limit cached) s of
        (Inl err, s1) \<Rightarrow> replay_inventories E peer subscription_id rest s1
      | (Inr frame, s1) \<Rightarrow>
          (case replay_inventories E peer subscription_id rest (snd (send_frame E peer frame s1)) of
             (excluded, s2) \<Rightarrow> (ev_id (as_event (rc_event cached)) # excluded, s2)))"

definition handle_req :: "client_env \<Rightarrow> string \<Rightarrow> string \<Rightarrow> filter list \<Rightarrow> client \<Rightarrow> client option" where
  "handle_req E peer subscription_id filters s =
     (case upsert (ce_json E) peer \<lparr>sub_id = subscription_id, sub_filters = filters\<rparr> (cl_peer_subscriptions s) of
        None \<Rightarrow> None
      | Some (Inl err, st) \<Rightarrow> Some (s\<lparr>cl_peer_subscriptions := st\<rparr>)
      | Some (Inr _, st) \<Rightarrow>
          (let s1 = s\<lparr>cl_peer_subscriptions := st\<rparr>; limit = query_limit filters (op_max_replay_events (cl_options s))
           in case replay_inventories E peer subscription_id
                     (take limit (filter (\<lambda>cached. rc_hop_limit cached > 0) (recent_matching (ce_nostr E) filters (cl_recent s1)))) s1 of
                (excluded, s2) \<Rightarrow>
                  Some (if length excluded < limit then queue_replay peer (ReplaySubscription subscription_id filters excluded limit) s2 else s2)))"

definition handle_close :: "client_env \<Rightarrow> string \<Rightarrow> string \<Rightarrow> client \<Rightarrow> client option" where
  "handle_close E peer subscription_id s =
     map_option (\<lambda>(_, st). s\<lparr>cl_peer_subscriptions := st\<rparr>) (remove (ce_json E) peer subscription_id (cl_peer_subscriptions s))"

definition event_for_want :: "client_env \<Rightarrow> string \<Rightarrow> event_id \<Rightarrow> client \<Rightarrow> (string \<times> verified_event) option" where
  "event_for_want E peer event_id s =
     (case recent_event (ce_nostr E) (to_hex (ce_nostr E) event_id) (cl_recent s) of
        None \<Rightarrow> None
      | Some v \<Rightarrow>
          (case matching_subscriptions (ce_nostr E) (cl_peer_subscriptions s) peer v of
             [] \<Rightarrow> None
           | sub # _ \<Rightarrow> Some (sub_id sub, v)))"

definition handle_want :: "client_env \<Rightarrow> string \<Rightarrow> event_id \<Rightarrow> client \<Rightarrow> client" where
  "handle_want E peer event_id s =
     (case event_for_want E peer event_id s of
        None \<Rightarrow> queue_replay peer (ReplayEvent event_id) s
      | Some (subscription_id, v) \<Rightarrow> send_message E peer (FEvent (Some subscription_id) v) s)"

definition handle_publication_receipt :: "string \<Rightarrow> event_id \<Rightarrow> bool \<Rightarrow> string \<Rightarrow> client \<Rightarrow> client" where
  "handle_publication_receipt peer event_id accepted message s =
     (case hm_get (cl_publications s) event_id of
        None \<Rightarrow> s
      | Some operation \<Rightarrow>
          if peer \<notin> set (pp_providers operation) then s
          else let providers1 = removeAll peer (pp_providers operation)
               in if accepted \<or> providers1 = []
                  then s\<lparr>cl_publications := hm_remove event_id (cl_publications s),
                         cl_replies := cl_replies s @
                           (if pp_reply operation
                            then [(event_id, if accepted then Inr \<lparr>rm_event_id = event_id, rm_provider = peer\<rparr>
                                             else Inl (Storage (''provider rejected anonymous publication: '' @ message)))] else [])\<rparr>
                  else s\<lparr>cl_publications := hm_insert event_id (operation\<lparr>pp_providers := providers1\<rparr>) (cl_publications s)\<rparr>)"

definition handle_frame :: "client_env \<Rightarrow> string \<Rightarrow> bytes \<Rightarrow> u64 \<Rightarrow> client \<Rightarrow> client option" where
  "handle_frame E peer frame now_ms s =
     (case decode_frame (ce_nostr E) (ce_wire E) (cl_codec s) frame of
        Inl err \<Rightarrow> Some (record_provider_violation peer MalformedFrame now_ms s)
      | Inr (FOk event_id accepted message) \<Rightarrow> Some (handle_publication_receipt peer event_id accepted message s)
      | Inr (FReq subscription_id filters) \<Rightarrow>
          handle_req E peer subscription_id filters (count_event (\<lambda>c. c\<lparr>n_req := n_req c + 1\<rparr>) s)
      | Inr (FClose subscription_id) \<Rightarrow> handle_close E peer subscription_id (count_event (\<lambda>c. c\<lparr>n_close := n_close c + 1\<rparr>) s)
      | Inr (FEvent subscription_id v) \<Rightarrow> handle_received_event E peer subscription_id v now_ms s
      | Inr (FInv ids event_id kind payload_bytes hop_limit) \<Rightarrow>
          handle_inv E peer \<lparr>ad_subscriptions = ids, ad_event_id = event_id, ad_kind = kind, ad_payload_bytes = payload_bytes,
            ad_hop_limit = hop_limit\<rparr> now_ms s
      | Inr (FWant event_id) \<Rightarrow> Some (handle_want E peer event_id (count_event (\<lambda>c. c\<lparr>n_want := n_want c + 1\<rparr>) s)))"

end
