(* ===== verification/Client_Calls.thy ===== *)
theory Client_Calls
  imports Fips_Client
begin

text \<open>
  The calls of an application and of the background tasks on a FIPS client: subscribing and reading a subscription, publishing, the one-shot anonymous
  publication, the replay workers over an application's event store, the transport's bookkeeping per peer, and shutdown; then the
  transition system over all of them and over received frames.
\<close>

section \<open>Subscriptions of the application\<close>

fun decimal :: "nat \<Rightarrow> string" where
  "decimal n = (if n < 10 then [char_of (48 + n)] else decimal (n div 10) @ [char_of (48 + n mod 10)])"

declare decimal.simps [simp del]

fun connected_peers :: "client_env \<Rightarrow> peer_link list \<Rightarrow> pubsub_error + (string \<times> string) list" where
  "connected_peers E [] = Inr []"
| "connected_peers E (l # ls) =
     (case ce_from_npub E (ln_npub l) of
        None \<Rightarrow> Inl (Validation ''invalid authenticated FIPS peer'')
      | Some identity \<Rightarrow> map_sum (\<lambda>err. err) ((#) (ln_npub l, identity)) (connected_peers E ls))"

definition clamp_limit :: "nat \<Rightarrow> filter \<Rightarrow> filter" where
  "clamp_limit maximum f = f\<lparr>f_limit := Some (min (case f_limit f of None \<Rightarrow> maximum | Some n \<Rightarrow> n) maximum)\<rparr>"

fun send_each_req :: "client_env \<Rightarrow> string \<Rightarrow> bytes \<Rightarrow> (string \<times> string) list \<Rightarrow> client \<Rightarrow> nat \<times> pubsub_error option \<times> client" where
  "send_each_req E key frame [] s = (0, None, s)"
| "send_each_req E key frame ((npub, identity) # peers) s =
     (case send_frame E identity frame s of
        (None, s1) \<Rightarrow> (case send_each_req E key frame peers s1 of (sent, err, s2) \<Rightarrow> (sent + 1, err, s2))
      | (Some e, s1) \<Rightarrow>
          (let s2 = (case hm_get (cl_subscriptions s1) key of
                       None \<Rightarrow> s1
                     | Some active \<Rightarrow> s1\<lparr>cl_subscriptions := hm_insert key (active\<lparr>as_peers := removeAll npub (as_peers active)\<rparr>) (cl_subscriptions s1)\<rparr>)
           in case send_each_req E key frame peers s2 of (sent, err, s3) \<Rightarrow> (sent, if err = None then Some e else err, s3)))"

definition drop_receiver :: "nat \<Rightarrow> client \<Rightarrow> client" where
  "drop_receiver h s = s\<lparr>cl_deliveries := (cl_deliveries s)[h := map_prod (\<lambda>d. d) (\<lambda>ch. ch\<lparr>ch_open := False\<rparr>) (cl_deliveries s ! h)]\<rparr>"

text \<open>The registration of a subscription, from the new channel to the local replay.\<close>

definition open_subscription :: "client_env \<Rightarrow> string \<Rightarrow> filter list \<Rightarrow> bool \<Rightarrow> string list \<Rightarrow> client \<Rightarrow> nat \<times> client" where
  "open_subscription E key filters replay_local peers s =
     (let h = length (cl_deliveries s); n = op_max_replay_events (cl_options s);
          s1 = s\<lparr>cl_deliveries := cl_deliveries s @ [(delivery_new n, \<lparr>ch_queue = [], ch_capacity = n, ch_open = True\<rparr>)],
                 cl_subscriptions := hm_insert key \<lparr>as_filters = filters, as_fresh = \<not> replay_local, as_peers = remdups peers, as_delivery = h\<rparr>
                   (cl_subscriptions s)\<rparr>
      in (h, if replay_local then replay_local_events E key s1 else s1))"

definition client_subscribe ::
  "client_env \<Rightarrow> filter list \<Rightarrow> bool \<Rightarrow> pubsub_error + peer_link list \<Rightarrow> client \<Rightarrow> ((pubsub_error + string \<times> nat) \<times> client) option" where
  "client_subscribe E filters0 replay_local links s =
     (let filters1 = (if filters0 = [] then [filter_new] else filters0); maximum = op_max_replay_events (cl_options s);
          filters = map (clamp_limit maximum) filters1
      in case admit s of Some err \<Rightarrow> Some (Inl err, s) | None \<Rightarrow>
         if length filters1 > op_max_filters_per_subscription (cl_options s)
         then Some (Inl (Validation (''FIPS pubsub filter count '' @ decimal (length filters1) @ '' exceeds limit '' @
           decimal (op_max_filters_per_subscription (cl_options s)))), s)
         else case validate_filters (ce_roles E) (cl_role s) filters1 of Some err \<Rightarrow> Some (Inl err, s) | None \<Rightarrow>
         case links of Inl err \<Rightarrow> Some (Inl err, s) | Inr ls \<Rightarrow>
         case connected_peers E ls of
           Inl err \<Rightarrow> Some (Inl err, s)
         | Inr peers \<Rightarrow>
             (let key = ''fips-'' @ decimal (unat (cl_next_subscription_id s));
                  s1 = s\<lparr>cl_next_subscription_id := cl_next_subscription_id s + 1\<rparr>
              in case encode E s1 (FReq key filters) of
                   Inl err \<Rightarrow> Some (Inl err, s1)
                 | Inr frame \<Rightarrow>
                     if channel_panics maximum then None
                     else if length (cl_subscriptions s1) \<ge> op_max_active_subscriptions (cl_options s1) + 1
                     then Some (Inl (Storage (''application FIPS pubsub subscription limit is '' @ decimal (op_max_active_subscriptions (cl_options s1)))), s1)
                     else (case open_subscription E key filters replay_local (map fst peers) s1 of
                             (h, s2) \<Rightarrow>
                               (case send_each_req E key frame peers s2 of
                                  (sent, last_error, s3) \<Rightarrow>
                                    if peers \<noteq> [] \<and> sent = 0
                                    then Some (Inl (case last_error of Some err \<Rightarrow> err | None \<Rightarrow> Storage ''no connected FIPS pubsub peers''),
                                               drop_receiver h (close_subscription E key s3))
                                    else Some (Inr (key, h), s3)))))"

datatype recv_error = Empty | Disconnected

definition refill_at :: "client_env \<Rightarrow> nat \<Rightarrow> client \<Rightarrow> client" where
  "refill_at E h s = (case cl_deliveries s ! h of (d, ch) \<Rightarrow> s\<lparr>cl_deliveries := (cl_deliveries s)[h := refill (ce_nostr E) d ch]\<rparr>)"

definition client_try_recv :: "client_env \<Rightarrow> nat \<Rightarrow> client \<Rightarrow> (recv_error + query_event) \<times> client" where
  "client_try_recv E h s =
     (let s1 = refill_at E h s
      in case cl_deliveries s1 ! h of
           (d, ch) \<Rightarrow>
             (case ch_queue ch of
                [] \<Rightarrow> (Inl (if dl_sender d then Empty else Disconnected), refill_at E h s1)
              | q # queue \<Rightarrow> (Inr q, refill_at E h (s1\<lparr>cl_deliveries := (cl_deliveries s1)[h := (d, ch\<lparr>ch_queue := queue\<rparr>)]\<rparr>))))"

text \<open>Closing or dropping a subscription: \<open>cleanup\<close>, and the end of its receiver.\<close>

definition client_close :: "client_env \<Rightarrow> string \<Rightarrow> nat \<Rightarrow> client \<Rightarrow> client" where
  "client_close E key h s = drop_receiver h (close_subscription E key s)"

section \<open>Publishing\<close>

definition client_publish_report :: "nat \<Rightarrow> nat \<Rightarrow> string \<Rightarrow> pubsub_error + publish_report" where
  "client_publish_report sent peer_count peers =
     (if sent = 0 then Inl (Storage (''failed to publish to '' @ decimal peer_count @ '' '' @ peers))
      else Inr \<lparr>rep_accepted = True, rep_priority = SOURCE_PRIORITY_FIPS_ENDPOINT,
        rep_reason = (if sent < peer_count then Some (''sent to '' @ decimal sent @ '' of '' @ decimal peer_count @ '' '' @ peers) else None)\<rparr>)"

definition client_publish :: "client_env \<Rightarrow> verified_event \<Rightarrow> event_source \<Rightarrow> client \<Rightarrow> ((pubsub_error + publish_report) \<times> client) option" where
  "client_publish E v source s =
     (case validate_publication (cl_role s) v of Some err \<Rightarrow> Some (Inl err, s) | None \<Rightarrow>
      case admit s of Some err \<Rightarrow> Some (Inl err, s) | None \<Rightarrow>
      case event_decision E v source of Inl err \<Rightarrow> Some (Inl err, s) | Inr decision \<Rightarrow>
      (case report_parts decision of
         (accepted, priority, reason) \<Rightarrow>
           if \<not> accepted then Some (Inr \<lparr>rep_accepted = accepted, rep_priority = priority, rep_reason = reason\<rparr>, s)
           else (case peer_delivery_targets E v None s of
                   None \<Rightarrow> None
                 | Some (Inl err) \<Rightarrow> Some (Inl err, s)
                 | Some (Inr subscribed) \<Rightarrow>
                     (case recent_insert_for_publish (ce_nostr E) v source (op_max_hops (cl_options s)) (cl_recent s) of
                        (is_new, r) \<Rightarrow>
                          (let s1 = s\<lparr>cl_recent := r\<rparr>
                           in if \<not> is_new
                              then Some (Inr \<lparr>rep_accepted = True, rep_priority = priority, rep_reason = Some ''event was already published''\<rparr>, s1)
                              else if subscribed \<noteq> []
                              then (case send_inventories E subscribed v (op_max_hops (cl_options s1)) s1 of
                                      (sent, s2) \<Rightarrow>
                                        (case client_publish_report sent (length subscribed) ''subscribed FIPS peers'' of
                                           Inl err \<Rightarrow> Some (Inl err, s2)
                                         | Inr report \<Rightarrow>
                                             Some (Inr (report\<lparr>rep_priority := priority,
                                               rep_reason := (if rep_reason report = None then reason else rep_reason report)\<rparr>), s2)))
                              else Some (Inr \<lparr>rep_accepted = True, rep_priority = priority, rep_reason = Some ''cached for live FIPS subscriptions''\<rparr>, s1))))))"

definition hex_digits :: "string \<Rightarrow> bool" where
  "hex_digits s \<longleftrightarrow> list_all (\<lambda>c. c \<in> set ''0123456789abcdefABCDEF'') s"

definition tags_named :: "string \<Rightarrow> event \<Rightarrow> string list list" where
  "tags_named name e = filter (\<lambda>tag. tag \<noteq> [] \<and> hd tag = name) (ev_tags e)"

definition validate_envelope :: "verified_event \<Rightarrow> pubsub_error option" where
  "validate_envelope v =
     (let e = as_event v;
          recipient_ok = (case tags_named ''p'' e of [[_, key]] \<Rightarrow> length key = 64 \<and> hex_digits key | _ \<Rightarrow> False)
      in if \<not> is_private (ev_kind e) \<or> \<not> recipient_ok \<or> (ev_kind e = 1060 \<and> tags_named ''v'' e \<noteq> [[''v'', ''2'']])
         then Some (invalid_option ''anonymous publisher requires one recipient-bound private envelope'') else None)"

fun send_each_event :: "client_env \<Rightarrow> bytes \<Rightarrow> (string \<times> string) list \<Rightarrow> client \<Rightarrow> pubsub_error option \<times> client" where
  "send_each_event E frame [] s = (None, s)"
| "send_each_event E frame ((npub, identity) # peers) s =
     (case send_frame E identity frame s of
        (Some err, s1) \<Rightarrow> (Some err, s1)
      | (None, s1) \<Rightarrow> send_each_event E frame peers s1)"

text \<open>\<open>publish_inner\<close> up to its wait for a receipt.\<close>

definition anonymous_publish :: "client_env \<Rightarrow> verified_event \<Rightarrow> nat \<Rightarrow> pubsub_error + peer_link list \<Rightarrow> client \<Rightarrow> pubsub_error option \<times> client" where
  "anonymous_publish E v timeout links s =
     (case validate_envelope v of Some err \<Rightarrow> (Some err, s) | None \<Rightarrow>
      if timeout = 0 then (Some (invalid_option ''publication timeout must be positive''), s)
      else case links of Inl err \<Rightarrow> (Some err, s) | Inr ls \<Rightarrow>
      case connected_peers E ls of Inl err \<Rightarrow> (Some err, s) | Inr peers \<Rightarrow>
      if peers = [] then (Some (invalid_option ''anonymous publisher has no selected provider''), s)
      else (let s1 = s\<lparr>cl_publications := hm_insert (ev_id (as_event v)) \<lparr>pp_providers = remdups (map fst peers), pp_reply = True\<rparr> (cl_publications s)\<rparr>
            in case encode E s1 (FEvent None v) of Inl err \<Rightarrow> (Some err, s1) | Inr frame \<Rightarrow> send_each_event E frame peers s1))"

section \<open>Replay from an application's store\<close>

definition bounded_events :: "nostr_lib \<Rightarrow> query_event list \<Rightarrow> filter list \<Rightarrow> event_id list \<Rightarrow> nat \<Rightarrow> (verified_event \<times> event_source) list" where
  "bounded_events lib report filters excluded limit =
     (let events = map (\<lambda>q. (qe_event q, qe_source q))
            (filter (\<lambda>q. ev_id (as_event (qe_event q)) \<notin> set excluded \<and> interest_from_filters lib filters (qe_event q) = Subscribed) (take limit report))
      in take (limit - length excluded)
           (dedup_by (\<lambda>x. ev_id (as_event (fst x)))
              (sort_key (\<lambda>x. (- int (unat (ev_created_at (as_event (fst x)))), ev_id (as_event (fst x)))) events)))"

text \<open>The answer to one event: an announcement for a subscription, the body for a request; \<open>None\<close> if the peer has no matching subscription.\<close>

definition serve_event :: "client_env \<Rightarrow> string \<Rightarrow> replay_query \<Rightarrow> verified_event \<Rightarrow> client \<Rightarrow> client" where
  "serve_event E peer query v s =
     (let matches = matching_subscriptions (ce_nostr E) (cl_peer_subscriptions s) peer v
      in case query of
           ReplaySubscription i _ _ _ \<Rightarrow>
             if \<not> list_ex (\<lambda>sub. sub_id sub = i) matches then s
             else (case inventory_frame E [i] v (op_max_hops (cl_options s)) s of
                     (Inl err, s1) \<Rightarrow> s1
                   | (Inr frame, s1) \<Rightarrow> snd (send_frame E peer frame s1))
         | ReplayEvent i \<Rightarrow>
             (case matches of
                [] \<Rightarrow> s
              | sub # _ \<Rightarrow> if ev_id (as_event v) \<noteq> i then s else send_message E peer (FEvent (Some (sub_id sub)) v) s))"

fun serve_each :: "client_env \<Rightarrow> string \<Rightarrow> nat \<Rightarrow> replay_query \<Rightarrow> (verified_event \<times> event_source) list \<Rightarrow> client \<Rightarrow> client" where
  "serve_each E peer source query [] s = s"
| "serve_each E peer source query ((v, src) # rest) s =
     (if \<not> event_is_admitted E v src then serve_each E peer source query rest s
      else if admit s \<noteq> None \<or> cl_replay_source s \<noteq> Some source then s
      else serve_each E peer source query rest (serve_event E peer query v s))"

fun replay_parts :: "replay_query \<Rightarrow> nat \<times> filter list \<times> event_id list" where
  "replay_parts (ReplaySubscription i filters excluded limit) = (limit, filters, excluded)"
| "replay_parts (ReplayEvent i) = (1, [filter_new\<lparr>f_ids := Some [i], f_limit := Some 1\<rparr>], [])"

text \<open>One turn of a worker; \<open>report\<close> is what the application's store answers, and nothing when the query fails or times out.\<close>

definition serve :: "client_env \<Rightarrow> query_event list \<Rightarrow> client \<Rightarrow> client" where
  "serve E report s =
     (case cl_replay s of
        [] \<Rightarrow> s
      | request # requests \<Rightarrow>
          let s1 = s\<lparr>cl_replay := requests\<rparr>
          in case replay_parts (rq_query request) of
               (limit, filters, excluded) \<Rightarrow>
                 if limit = 0 then s1
                 else serve_each E (rq_peer request) (rq_source request) (rq_query request)
                        (bounded_events (ce_nostr E) report filters excluded limit) s1)"

definition set_replay_source :: "nat option \<Rightarrow> client \<Rightarrow> pubsub_error option \<times> client" where
  "set_replay_source source s =
     (case (if source = None then None else admit s) of Some err \<Rightarrow> (Some err, s) | None \<Rightarrow> (None, s\<lparr>cl_replay_source := source\<rparr>))"

section \<open>Peers and shutdown\<close>

definition reset_peer_epoch :: "string \<Rightarrow> u64 \<Rightarrow> client \<Rightarrow> client" where
  "reset_peer_epoch npub now_ms s =
     s\<lparr>cl_observed_inventories := clear_peer npub (cl_observed_inventories s), cl_observed_full_events := clear_peer npub (cl_observed_full_events s),
       cl_wants := pw_remove_peer npub now_ms (cl_wants s)\<rparr>"

definition forget_peer_state :: "client_env \<Rightarrow> string \<Rightarrow> u64 \<Rightarrow> client \<Rightarrow> client option" where
  "forget_peer_state E npub now_ms s =
     (let s1 = reset_peer_epoch npub now_ms s
      in map_option (\<lambda>(_, st). s1\<lparr>cl_peer_subscriptions := st,
             cl_subscriptions := map (\<lambda>(key, active). (key, active\<lparr>as_peers := removeAll npub (as_peers active)\<rparr>)) (cl_subscriptions s1)\<rparr>)
           (remove_peer (ce_json E) npub (cl_peer_subscriptions s1)))"

definition replay_frames_for_peer :: "client_env \<Rightarrow> string \<Rightarrow> client \<Rightarrow> bytes list \<times> client" where
  "replay_frames_for_peer E npub s =
     (List.map_filter (\<lambda>(key, active). case encode E s (FReq key (as_filters active)) of Inl err \<Rightarrow> None | Inr frame \<Rightarrow> Some frame) (cl_subscriptions s),
      s\<lparr>cl_subscriptions := map (\<lambda>(key, active). (key, active\<lparr>as_peers := List.insert npub (as_peers active)\<rparr>)) (cl_subscriptions s)\<rparr>)"

definition peer_is_in_cooldown :: "string \<Rightarrow> u64 \<Rightarrow> client \<Rightarrow> bool \<times> client" where
  "peer_is_in_cooldown npub now_ms s = map_prod (\<lambda>b. b) (\<lambda>pb. s\<lparr>cl_behavior := pb\<rparr>) (is_in_cooldown npub now_ms (cl_behavior s))"

fun close_actives :: "client_env \<Rightarrow> (string \<times> active_subscription) list \<Rightarrow> client \<Rightarrow> client" where
  "close_actives E [] s = s"
| "close_actives E ((key, active) # rest) s =
     close_actives E rest (send_close E key (as_peers active) (update_delivery (as_delivery active) dl_close s))"

definition close_all :: "client_env \<Rightarrow> client \<Rightarrow> client" where
  "close_all E s =
     (let s1 = close_actives E (cl_subscriptions s) (s\<lparr>cl_open := False, cl_replay_source := None, cl_subscriptions := []\<rparr>)
      in s1\<lparr>cl_publications := [], cl_wants := pw_clear (cl_wants s1)\<rparr>)"

section \<open>Transition system\<close>

text \<open>
  One step is a received frame, a call of the application or a turn of a background task. A step comes with the policies as they stand then, and the
  clock. The frames a step hands to the connection directly, past the queue, are its second result; the third is the event an application read.
  \<open>PeerConnected\<close> is a new connection, \<open>StreamAdopted\<close> an inbound stream whose peer was discovered, which keeps its state.
\<close>

datatype client_op =
    FrameFrom string bytes
  | Subscribe "filter list" bool "pubsub_error + peer_link list"
  | TryRecv nat
  | CloseSubscription string nat
  | PublishEvent verified_event event_source
  | AnonymousPublish verified_event nat "pubsub_error + peer_link list"
  | SetReplaySource "nat option"
  | ServeReplay "query_event list"
  | PeerConnected string bool
  | StreamAdopted string
  | PeerGone string
  | CooldownCheck string
  | RetryWants
  | TransportTurn
  | Shutdown

record step_context =
  sx_event_policy :: "(verified_event \<Rightarrow> event_source \<Rightarrow> pubsub_error + policy_decision) option"
  sx_peer_policy :: "peer_policy option"
  sx_now :: u64
  sx_op :: client_op

type_synonym step_result = "client \<times> (string \<times> bytes) list \<times> query_event list"

fun client_step :: "client_env \<Rightarrow> u64 \<Rightarrow> client_op \<Rightarrow> client \<Rightarrow> step_result option" where
  "client_step E now_ms (FrameFrom peer frame) s = map_option (\<lambda>s'. (s', [], [])) (handle_frame E peer frame now_ms s)"
| "client_step E now_ms (Subscribe filters replay_local links) s = map_option (\<lambda>(_, s'). (s', [], [])) (client_subscribe E filters replay_local links s)"
| "client_step E now_ms (TryRecv h) s =
     (if h < length (cl_deliveries s)
      then (case client_try_recv E h s of (r, s') \<Rightarrow> Some (s', [], case r of Inl _ \<Rightarrow> [] | Inr q \<Rightarrow> [q])) else Some (s, [], []))"
| "client_step E now_ms (CloseSubscription key h) s = Some (client_close E key h s, [], [])"
| "client_step E now_ms (PublishEvent v source) s = map_option (\<lambda>(_, s'). (s', [], [])) (client_publish E v source s)"
| "client_step E now_ms (AnonymousPublish v timeout links) s = Some (snd (anonymous_publish E v timeout links s), [], [])"
| "client_step E now_ms (SetReplaySource source) s = Some (snd (set_replay_source source s), [], [])"
| "client_step E now_ms (ServeReplay report) s = Some (serve E report s, [], [])"
| "client_step E now_ms (PeerConnected npub inbound) s =
     (let s1 = reset_peer_epoch npub now_ms s
      in if inbound then Some (s1, [], [])
         else case replay_frames_for_peer E npub s1 of (frames, s2) \<Rightarrow> Some (s2, map (Pair npub) frames, []))"
| "client_step E now_ms (StreamAdopted npub) s =
     (case replay_frames_for_peer E npub s of (frames, s') \<Rightarrow> Some (s', map (Pair npub) frames, []))"
| "client_step E now_ms (PeerGone npub) s = map_option (\<lambda>s'. (s', [], [])) (forget_peer_state E npub now_ms s)"
| "client_step E now_ms (CooldownCheck npub) s = Some (snd (peer_is_in_cooldown npub now_ms s), [], [])"
| "client_step E now_ms RetryWants s = (case retry_pending_frames E now_ms s of (frames, s') \<Rightarrow> Some (s', frames, []))"
| "client_step E now_ms TransportTurn s = Some (s\<lparr>cl_transport := tl (cl_transport s)\<rparr>, [], [])"
| "client_step E now_ms Shutdown s = Some (close_all E s, [], [])"

end
