(* ===== verification/Client_Safety.thy ===== *)
theory Client_Safety
  imports Client_Calls
begin

text \<open>
  What a FIPS client lets through: every event it caches, delivers or announces was introduced by a step whose policy admitted it, every
  delivered event matches the filters of its subscription, and every frame it sends is one its privacy role allows, to that peer. What a role allows is
  stated here independently of the client's own checks.
\<close>

section \<open>Parameters\<close>

text \<open>Documented behaviour of the parameters: an identifier's text is read back as no other one, and a filter's limit shows in no other member of its JSON form.\<close>

definition hex_sound :: "nostr_lib \<Rightarrow> bool" where
  "hex_sound lib \<longleftrightarrow> (\<forall>i j. from_hex lib (to_hex lib i) = Some j \<longrightarrow> j = i)"

definition limit_law :: "role_lib \<Rightarrow> bool" where
  "limit_law rl \<longleftrightarrow>
     (\<forall>f n. (filter_value rl (f\<lparr>f_limit := n\<rparr>) = None \<longleftrightarrow> filter_value rl f = None) \<and>
        (\<forall>a b. filter_value rl f = Some a \<longrightarrow> filter_value rl (f\<lparr>f_limit := n\<rparr>) = Some b \<longrightarrow> (\<forall>k. k \<noteq> ''limit'' \<longrightarrow> jget k b = jget k a)))"

text \<open>
  An identifier is a hash of all other members of an event but the signature: verified events with the same identifier differ at most in it.
\<close>

definition id_hash_law :: "nostr_lib \<Rightarrow> bool" where
  "id_hash_law lib \<longleftrightarrow>
     (\<forall>e e'. verify lib e \<longrightarrow> verify lib e' \<longrightarrow> ev_id e = ev_id e' \<longrightarrow> e = e'\<lparr>ev_sig := ev_sig e\<rparr>)"

section \<open>What a role may send\<close>

text \<open>
  Stated apart from the checks of the client. Gift wraps, double-ratchet messages and invites are the private kinds; a receiver exports the other events of its public
  authors, a publisher recipient-bound private envelopes.
\<close>

abbreviation private_kinds :: "u16 set" where
  "private_kinds \<equiv> {1059, 1060, 21111}"

fun exports :: "client_role \<Rightarrow> event \<Rightarrow> bool" where
  "exports RoleFull e \<longleftrightarrow> True"
| "exports (RoleReceiver authors) e \<longleftrightarrow> ev_kind e \<notin> private_kinds \<and> ev_pubkey e \<in> set authors"
| "exports (RoleDiscovery scope) e \<longleftrightarrow> False"
| "exports RolePublisher e \<longleftrightarrow> False"

definition private_envelope :: "event \<Rightarrow> bool" where
  "private_envelope e \<longleftrightarrow>
     ev_kind e \<in> private_kinds \<and>
     (\<exists>key. filter (\<lambda>tag. tag \<noteq> [] \<and> hd tag = ''p'') (ev_tags e) = [[''p'', key]] \<and> length key = 64 \<and> set key \<subseteq> set ''0123456789abcdefABCDEF'') \<and>
     (ev_kind e = 1060 \<longrightarrow> filter (\<lambda>tag. tag \<noteq> [] \<and> hd tag = ''v'') (ev_tags e) = [[''v'', ''2'']])"

text \<open>The filters a role may subscribe with, besides the one for peer advertisements: a discovery client names its single subject and nobody else, a receiver
  names only public authors unless it asks for private kinds.\<close>

definition names_only :: "pubkey list \<Rightarrow> filter \<Rightarrow> bool" where
  "names_only authors f \<longleftrightarrow> (\<exists>named. f_authors f = Some named \<and> named \<noteq> [] \<and> set named \<subseteq> set authors)"

definition receiver_filter :: "role_lib \<Rightarrow> pubkey list \<Rightarrow> filter \<Rightarrow> bool" where
  "receiver_filter rl authors f \<longleftrightarrow>
     (\<exists>value kinds. filter_value rl f = Some value \<and> f_kinds f = Some kinds \<and> kinds \<noteq> [] \<and>
        (\<forall>kind\<in>set kinds.
           (kind \<in> private_kinds \<longrightarrow> jget ''#p'' value \<noteq> None \<or> (\<exists>a rest. f_authors f = Some (a # rest))) \<and>
           (kind \<notin> private_kinds \<longrightarrow> f_authors f = None \<or> names_only authors f) \<and>
           (kind \<in> {30078, 37368} \<longrightarrow> names_only authors f) \<and>
           (kind \<in> {0, 10002, 10050, 37195} \<longrightarrow> names_only authors f \<or> jget ''#p'' value = None)))"

definition discovery_filter :: "role_lib \<Rightarrow> discovery_scope \<Rightarrow> filter \<Rightarrow> bool" where
  "discovery_filter rl scope f \<longleftrightarrow>
     (\<exists>value kinds. filter_value rl f = Some value \<and> f_kinds f = Some kinds \<and> kinds \<noteq> [] \<and>
        (case scope of
           ScopeAuthor key \<Rightarrow> set kinds \<subseteq> {0, 1059, 10002, 10050, 30078, 37368, 37195} \<and>
             jget ''authors'' value = Some (JArr [JStr (key_hex rl key)]) \<and> jget ''#p'' value = None
         | ScopeDevice key \<Rightarrow> set kinds \<subseteq> {37368} \<and>
             jget ''#p'' value = Some (JArr [JStr (key_hex rl key)]) \<and> jget ''authors'' value = None) \<and>
        (\<forall>vs. jget ''#type'' value = Some (JArr vs) \<longrightarrow> JStr ''group_roster'' \<notin> set vs) \<and>
        (\<forall>vs rest. jget ''#d'' value = Some (JArr vs) \<longrightarrow> JStr (''group_roster'' @ rest) \<notin> set vs))"

definition role_filter :: "role_lib \<Rightarrow> client_role \<Rightarrow> filter \<Rightarrow> bool" where
  "role_filter rl role f \<longleftrightarrow>
     f\<lparr>f_limit := None\<rparr> = peerfinding_filter rl \<or>
     (case role of
        RoleFull \<Rightarrow> True
      | RoleReceiver authors \<Rightarrow> receiver_filter rl authors f
      | RoleDiscovery scope \<Rightarrow> discovery_filter rl scope f
      | RolePublisher \<Rightarrow> False)"

text \<open>The messages a role may send to a peer; \<open>A\<close> holds of the admitted events, \<open>P\<close> of an event and a peer it was published to anonymously.\<close>

fun role_message :: "role_lib \<Rightarrow> client_role \<Rightarrow> (verified_event \<Rightarrow> bool) \<Rightarrow> (verified_event \<Rightarrow> string \<Rightarrow> bool) \<Rightarrow> string \<Rightarrow> fips_message \<Rightarrow> bool" where
  "role_message rl role A P peer (FEvent i v) \<longleftrightarrow>
     (if role = RolePublisher then i = None \<and> P v peer else exports role (as_event v))"
| "role_message rl role A P peer (FInv ids i kind payload_bytes hop_limit) \<longleftrightarrow>
     (\<exists>v. A v \<and> ev_id (as_event v) = i \<and> ev_kind (as_event v) = kind \<and> exports role (as_event v))"
| "role_message rl role A P peer (FReq i fs) \<longleftrightarrow> list_all (role_filter rl role) fs"
| "role_message rl role A P peer (FWant i) \<longleftrightarrow> role \<noteq> RolePublisher"
| "role_message rl role A P peer (FOk i accepted message) \<longleftrightarrow> False"
| "role_message rl role A P peer (FClose i) \<longleftrightarrow> True"

text \<open>What a run is judged by: the constants of the client, the anonymous publications and the announcements received, as event or identifier and peer.\<close>

record client_bounds =
  cb_role :: client_role
  cb_codec :: wire_codec
  cb_options :: client_options
  cb_published :: "verified_event \<Rightarrow> string \<Rightarrow> bool"
  cb_announced :: "event_id \<Rightarrow> string \<Rightarrow> bool"

text \<open>A frame is the text of a message, of a request only for an event the peer announced.\<close>

definition sendable :: "client_env \<Rightarrow> client_bounds \<Rightarrow> string \<Rightarrow> bytes \<Rightarrow> bool" where
  "sendable E K peer frame \<longleftrightarrow> (\<exists>m. frame = message_json (ce_nostr E) (ce_wire E) m \<and> (\<forall>i. m = FWant i \<longrightarrow> cb_announced K i peer))"

definition frame_ok :: "client_env \<Rightarrow> (verified_event \<Rightarrow> bool) \<Rightarrow> client_bounds \<Rightarrow> string \<Rightarrow> bytes \<Rightarrow> bool" where
  "frame_ok E A K peer frame \<longleftrightarrow>
     sendable E K peer frame \<and>
     (cb_role K = RoleFull \<or> (\<exists>key. frame = message_json (ce_nostr E) (ce_wire E) (FClose key)) \<or>
      (\<exists>m. decode_frame (ce_nostr E) (ce_wire E) (cb_codec K) frame = Inr m \<and> role_message (ce_roles E) (cb_role K) A (cb_published K) peer m))"

section \<open>The invariant\<close>

abbreviation contents :: "delivery \<times> channel \<Rightarrow> query_event set" where
  "contents dc \<equiv> set (ch_queue (snd dc)) \<union> set (dl_pending (fst dc))"

definition fits :: "client_env \<Rightarrow> (verified_event \<Rightarrow> bool) \<Rightarrow> filter list \<Rightarrow> query_event \<Rightarrow> bool" where
  "fits E A fs q \<longleftrightarrow> A (qe_event q) \<and> interest_from_filters (ce_nostr E) fs (qe_event q) = Subscribed"

definition sub_sound :: "client_env \<Rightarrow> client_role \<Rightarrow> filter list list \<Rightarrow> active_subscription \<Rightarrow> bool" where
  "sub_sound E role F a \<longleftrightarrow>
     as_delivery a < length F \<and> as_filters a = F ! as_delivery a \<and> validate_filters (ce_roles E) role (as_filters a) = None"

definition wants_ok :: "nostr_lib \<Rightarrow> (event_id \<Rightarrow> string \<Rightarrow> bool) \<Rightarrow> pending_wants \<Rightarrow> bool" where
  "wants_ok lib W w \<longleftrightarrow>
     (\<forall>(key, p)\<in>set (pw_entries w). \<forall>pr\<in>set (providers p). \<forall>i. from_hex lib key = Some i \<longrightarrow> W i (ip_peer pr))"

definition publications_ok :: "nostr_lib \<Rightarrow> (verified_event \<Rightarrow> string \<Rightarrow> bool) \<Rightarrow> (event_id, pending_publication) hmap \<Rightarrow> bool" where
  "publications_ok lib P ps \<longleftrightarrow>
     (\<forall>(i, pp)\<in>set ps. \<forall>peer\<in>set (pp_providers pp). \<forall>v. verify lib (as_event v) \<longrightarrow> ev_id (as_event v) = i \<longrightarrow> P v peer)"

definition sound :: "client_env \<Rightarrow> (verified_event \<Rightarrow> bool) \<Rightarrow> client_bounds \<Rightarrow> filter list list \<Rightarrow> client \<Rightarrow> bool" where
  "sound E A K F s \<longleftrightarrow>
     cb_role K = cl_role s \<and> cb_codec K = cl_codec s \<and> cb_options K = cl_options s \<and>
     (\<forall>c\<in>set (rv_entries (cl_recent s)). A (rc_event c)) \<and>
     length (cl_deliveries s) = length F \<and> (\<forall>h<length F. \<forall>q\<in>contents (cl_deliveries s ! h). fits E A (F ! h) q) \<and>
     (\<forall>x\<in>set (cl_subscriptions s). sub_sound E (cl_role s) F (snd x)) \<and>
     (\<forall>p f. TSend p f \<in> set (cl_transport s) \<longrightarrow> frame_ok E A K p f) \<and>
     publications_ok (ce_nostr E) (cb_published K) (cl_publications s) \<and> wants_ok (ce_nostr E) (cb_announced K) (cl_wants s)"

lemma soundD:
  assumes "sound E A K F s"
  shows "c \<in> set (rv_entries (cl_recent s)) \<Longrightarrow> A (rc_event c)"
    and "length (cl_deliveries s) = length F"
    and "h < length F \<Longrightarrow> q \<in> contents (cl_deliveries s ! h) \<Longrightarrow> fits E A (F ! h) q"
    and "x \<in> set (cl_subscriptions s) \<Longrightarrow> sub_sound E (cl_role s) F (snd x)"
    and "hm_get (cl_subscriptions s) key = Some a \<Longrightarrow> sub_sound E (cl_role s) F a"
    and "publications_ok (ce_nostr E) (cb_published K) (cl_publications s)" and "wants_ok (ce_nostr E) (cb_announced K) (cl_wants s)"
    and "cl_role s = cb_role K" "cl_codec s = cb_codec K" "cl_options s = cb_options K"
proof -
  note s = assms[unfolded sound_def]
  show "length (cl_deliveries s) = length F" "publications_ok (ce_nostr E) (cb_published K) (cl_publications s)"
    "wants_ok (ce_nostr E) (cb_announced K) (cl_wants s)" "cl_role s = cb_role K" "cl_codec s = cb_codec K" "cl_options s = cb_options K"
    using s by simp_all
  show "c \<in> set (rv_entries (cl_recent s)) \<Longrightarrow> A (rc_event c)" using s by blast
  show "h < length F \<Longrightarrow> q \<in> contents (cl_deliveries s ! h) \<Longrightarrow> fits E A (F ! h) q" using s by blast
  show sub: "x \<in> set (cl_subscriptions s) \<Longrightarrow> sub_sound E (cl_role s) F (snd x)" for x using s by blast
  show "hm_get (cl_subscriptions s) key = Some a \<Longrightarrow> sub_sound E (cl_role s) F a" using sub[of "(key, a)"] map_of_SomeD by force
qed

text \<open>Fields the invariant does not read.\<close>

lemma sound_other [simp]:
  "sound E A K F (s\<lparr>cl_open := b\<rparr>) = sound E A K F s" "sound E A K F (s\<lparr>cl_replies := rs\<rparr>) = sound E A K F s"
  "sound E A K F (s\<lparr>cl_replay_source := src\<rparr>) = sound E A K F s" "sound E A K F (s\<lparr>cl_replay := rq\<rparr>) = sound E A K F s"
  "sound E A K F (s\<lparr>cl_counters := c\<rparr>) = sound E A K F s" "sound E A K F (s\<lparr>cl_next_subscription_id := n\<rparr>) = sound E A K F s"
  "sound E A K F (s\<lparr>cl_peer_subscriptions := st\<rparr>) = sound E A K F s" "sound E A K F (s\<lparr>cl_observed_inventories := o1\<rparr>) = sound E A K F s"
  "sound E A K F (s\<lparr>cl_observed_full_events := o1\<rparr>) = sound E A K F s" "sound E A K F (s\<lparr>cl_behavior := pb\<rparr>) = sound E A K F s"
  by (simp_all add: sound_def)

lemma sound_wants: "sound E A K F s \<Longrightarrow> wants_ok (ce_nostr E) (cb_announced K) w \<Longrightarrow> sound E A K F (s\<lparr>cl_wants := w\<rparr>)"
  by (simp add: sound_def)

section \<open>The checks of the roles\<close>

lemma can_export_exports: "can_export role v \<longleftrightarrow> exports role (as_event v)"
  by (cases role) (auto simp: is_private_def)

lemma array_member_eq: "array_member k val = Some vs \<longleftrightarrow> jget k val = Some (JArr vs)"
  by (cases "jget k val") (auto elim!: jarray.elims)

lemma jstr_eq: "jstr v = Some t \<longleftrightarrow> v = JStr t"
  by (cases v) auto

lemma starts_with_append: "starts_with p s \<longleftrightarrow> (\<exists>rest. s = p @ rest)"
  unfolding starts_with_def by (metis append_take_drop_id append_eq_conv_conj)

lemma group_roster_iff:
  "group_roster val \<longleftrightarrow> (\<exists>vs. jget ''#type'' val = Some (JArr vs) \<and> JStr ''group_roster'' \<in> set vs) \<or>
     (\<exists>vs rest. jget ''#d'' val = Some (JArr vs) \<and> JStr (''group_roster'' @ rest) \<in> set vs)"
proof -
  have d: "(case jstr v of None \<Rightarrow> False | Some s \<Rightarrow> starts_with ''group_roster'' s) \<longleftrightarrow> (\<exists>rest. v = JStr (''group_roster'' @ rest))" for v
    by (cases v) (simp_all add: starts_with_append)
  have arr: "(case array_member k val of None \<Rightarrow> False | Some vs \<Rightarrow> Q vs) \<longleftrightarrow> (\<exists>vs. jget k val = Some (JArr vs) \<and> Q vs)" for k Q
  proof (cases "jget k val")
    case (Some x)
    then show ?thesis by (cases x) simp_all
  qed simp
  show ?thesis unfolding group_roster_def arr d list_ex_iff jstr_eq by blast
qed

lemma single_key: "(case array_member k val of Some [x] \<Rightarrow> jstr x = Some t | _ \<Rightarrow> False) \<longleftrightarrow> jget k val = Some (JArr [JStr t])"
proof -
  have "(case array_member k val of Some [x] \<Rightarrow> jstr x = Some t | _ \<Rightarrow> False) \<longleftrightarrow> array_member k val = Some [JStr t]"
    by (auto simp: jstr_eq split: option.split list.split)
  then show ?thesis unfolding array_member_eq .
qed

lemma scope_validate_filter: "scope_validate rl scope f = None \<Longrightarrow> discovery_filter rl scope f"
proof (cases "filter_value rl f")
  case (Some val)
  assume v: "scope_validate rl scope f = None"
  then obtain kinds where k: "f_kinds f = Some kinds" "kinds \<noteq> []" "list_all (scope_kind scope) kinds"
    using Some by (cases "f_kinds f"; cases scope) (auto simp: scope_validate_def Let_def split: if_splits)
  have "\<not> group_roster val" using v Some by (cases scope) (auto simp: scope_validate_def Let_def split: if_splits)
  moreover have "case scope of ScopeAuthor key \<Rightarrow> jget ''authors'' val = Some (JArr [JStr (key_hex rl key)]) \<and> jget ''#p'' val = None
      | ScopeDevice key \<Rightarrow> jget ''#p'' val = Some (JArr [JStr (key_hex rl key)]) \<and> jget ''authors'' val = None"
    using v Some unfolding scope_validate_def by (cases scope) (simp_all only: option.case scope_fields.simps prod.case Let_def single_key discovery_scope.case, auto split: if_splits)
  ultimately show ?thesis using Some k unfolding discovery_filter_def group_roster_iff by (cases scope) (auto simp: list_all_iff)
qed (simp add: scope_validate_def)

lemma receiver_validate_filter:
  assumes "role_allows rl (RoleReceiver authors) f = None"
  shows "receiver_filter rl authors f"
proof -
  obtain val kinds where v: "filter_value rl f = Some val" "f_kinds f = Some kinds" "kinds \<noteq> []"
    and all: "\<forall>kind\<in>set kinds. receiver_kind authors f val kind"
    using assms by (auto simp: list_all_iff split: option.splits if_splits)
  have pub: "(case f_authors f of None \<Rightarrow> False | Some named \<Rightarrow> named \<noteq> [] \<and> list_all (\<lambda>a. a \<in> set authors) named) \<longleftrightarrow> names_only authors f"
    by (auto simp: names_only_def list_all_iff split: option.split)
  have some: "(case f_authors f of None \<Rightarrow> False | Some named \<Rightarrow> named \<noteq> []) \<longleftrightarrow> (\<exists>a rest. f_authors f = Some (a # rest))"
    by (auto simp: neq_Nil_conv split: option.split)
  have "(kind \<in> private_kinds \<longrightarrow> jget ''#p'' val \<noteq> None \<or> (\<exists>a rest. f_authors f = Some (a # rest))) \<and>
      (kind \<notin> private_kinds \<longrightarrow> f_authors f = None \<or> names_only authors f) \<and> (kind \<in> {30078, 37368} \<longrightarrow> names_only authors f) \<and>
      (kind \<in> {0, 10002, 10050, 37195} \<longrightarrow> names_only authors f \<or> jget ''#p'' val = None)" if "kind \<in> set kinds" for kind
  proof -
    have "receiver_kind authors f val kind" using all that by blast
    then show ?thesis unfolding receiver_kind_def Let_def pub some is_private_def by (auto split: if_splits)
  qed
  with v show ?thesis unfolding receiver_filter_def by blast
qed

lemma validate_filters_role: "validate_filters rl role fs = None \<Longrightarrow> list_all (role_filter rl role) fs"
proof -
  have "role_allows rl role f = None \<Longrightarrow> role_filter rl role f" for f
    using scope_validate_filter[of rl _ f] receiver_validate_filter[of rl _ f] unfolding role_filter_def by (cases role) simp_all
  moreover have "f\<lparr>f_limit := None\<rparr> = peerfinding_filter rl \<Longrightarrow> role_filter rl role f" for f by (simp add: role_filter_def)
  ultimately show "validate_filters rl role fs = None \<Longrightarrow> list_all (role_filter rl role) fs"
    unfolding validate_filters_iff list_all_iff by blast
qed

lemma validate_envelope_private:
  assumes "validate_envelope v = None"
  shows "private_envelope (as_event v)"
proof -
  let ?e = "as_event v"
  have k: "is_private (ev_kind ?e)" and p: "case tags_named ''p'' ?e of [[_, key]] \<Rightarrow> length key = 64 \<and> hex_digits key | _ \<Rightarrow> False"
    and ver: "ev_kind ?e = 1060 \<Longrightarrow> tags_named ''v'' ?e = [[''v'', ''2'']]"
    using assms unfolding validate_envelope_def Let_def by (auto split: if_splits)
  from p obtain name key where t: "tags_named ''p'' ?e = [[name, key]]" "length key = 64" "hex_digits key"
    by (auto split: list.splits)
  have "[name, key] \<in> set (tags_named ''p'' ?e)" using t(1) by simp
  then have "name = ''p''" by (simp add: tags_named_def)
  with t have "\<exists>key. tags_named ''p'' ?e = [[''p'', key]] \<and> length key = 64 \<and> set key \<subseteq> set ''0123456789abcdefABCDEF''"
    unfolding hex_digits_def list_all_iff by blast
  then show ?thesis
    using k ver unfolding private_envelope_def tags_named_def is_private_def by blast
qed

section \<open>Pending requests\<close>

lemma wants_retain:
  assumes "wants_ok lib W w" and "\<And>p p' pr'. f p = Some p' \<Longrightarrow> pr' \<in> set (providers p') \<Longrightarrow> \<exists>pr\<in>set (providers p). ip_peer pr' = ip_peer pr"
  shows "wants_ok lib W (retain_entries f w)"
  unfolding wants_ok_def
proof (intro ballI, clarify)
  fix key p' pr' i
  assume "(key, p') \<in> set (pw_entries (retain_entries f w))" and pr': "pr' \<in> set (providers p')" and i: "from_hex lib key = Some i"
  then obtain p where p: "(key, p) \<in> set (pw_entries w)" "f p = Some p'" by (auto simp: set_retain)
  from assms(2)[OF p(2) pr'] obtain pr where pr: "pr \<in> set (providers p)" "ip_peer pr' = ip_peer pr" by blast
  have "\<forall>x\<in>set (providers p). W i (ip_peer x)" using assms(1) p(1) i unfolding wants_ok_def by blast
  then show "W i (ip_peer pr')" unfolding pr(2) using pr(1) by blast
qed

lemma wants_removed:
  assumes "wants_ok lib W w"
  shows "wants_ok lib W (pw_remove_subscription key w)" and "wants_ok lib W (pw_remove_peer peer now w)" and "wants_ok lib W (pw_clear w)"
proof -
  show "wants_ok lib W (pw_remove_subscription key w)" unfolding pw_remove_subscription_def
  proof (rule wants_retain[OF assms])
    fix p p' pr' assume "forget_subscription key p = Some p'" "pr' \<in> set (providers p')"
    then obtain pr where "pr \<in> set (providers p)" "pr' = without_subscription key pr" using forget_subscription_peers(1) by blast
    then show "\<exists>pr\<in>set (providers p). ip_peer pr' = ip_peer pr" by (intro bexI[of _ pr]) (simp_all add: without_subscription_def)
  qed
  show "wants_ok lib W (pw_remove_peer peer now w)" unfolding pw_remove_peer_def
    using forget_peer_peers(1) by (intro wants_retain[OF assms]) blast
  show "wants_ok lib W (pw_clear w)" by (simp add: wants_ok_def pw_clear_def)
qed

lemma wants_taken:
  assumes "wants_ok lib W w"
  shows "wants_ok lib W (snd (take_matching i peer sub kind bytes w))"
proof -
  have "set (pw_entries (snd (take_matching i peer sub kind bytes w))) \<subseteq> set (pw_entries w)"
    by (auto simp: take_matching_def set_hm_remove split: option.split)
  then show ?thesis using assms unfolding wants_ok_def by blast
qed

lemma evict_pending_subset: "set (snd (evict_pending n order entries)) \<subseteq> set entries"
proof (induction n order entries rule: evict_pending.induct)
  case (2 n oldest order entries)
  then show ?case using set_hm_remove[of oldest entries] by auto
qed simp

lemma wants_inserted:
  assumes "wants_ok lib W w" and "pi_alternatives p = []" and "\<And>i. from_hex lib key = Some i \<Longrightarrow> W i (ip_peer (pi_selected p))"
  shows "wants_ok lib W (snd (pw_insert key p w))"
proof -
  have old: "W i (ip_peer pr)" if "(k, q) \<in> set (pw_entries w)" "pr \<in> set (providers q)" "from_hex lib k = Some i" for k q pr i
    using assms(1) that unfolding wants_ok_def by blast
  have "W i (ip_peer pr)" if e: "(k, q) \<in> set (pw_entries (snd (pw_insert key p w)))" and pr: "pr \<in> set (providers q)" and i: "from_hex lib k = Some i" for k q pr i
  proof (cases "hm_get (pw_entries w) key")
    case None
    let ?m = "hm_insert key p (pw_entries w)"
    have "pw_entries (snd (pw_insert key p w)) = snd (evict_pending (pw_max_events w) (pw_order w @ [key]) ?m)"
      by (simp add: pw_insert_def None split: prod.split)
    then have "(k, q) \<in> set ?m" using e evict_pending_subset by fastforce
    then have "(k, q) = (key, p) \<or> (k, q) \<in> set (pw_entries w)" using set_hm_insert_subset[of key p "pw_entries w"] by blast
    then show ?thesis using old[OF _ pr i] assms(2,3) pr i by auto
  next
    case (Some pending)
    let ?q = "add_provider (pw_max_alternatives w) (pi_selected p) pending"
    have "(k, q) = (key, ?q) \<or> (k, q) \<in> set (pw_entries w)"
      using e set_hm_insert_subset[of key ?q "pw_entries w"] by (auto simp: pw_insert_def Some split: if_splits)
    moreover have "(key, pending) \<in> set (pw_entries w)" using Some by (rule map_of_SomeD)
    moreover have "(\<exists>x\<in>set (providers pending). ip_peer pr = ip_peer x) \<or> ip_peer pr = ip_peer (pi_selected p)" if "pr \<in> set (providers ?q)"
      using add_provider_ok(1)[OF that] by blast
    ultimately show ?thesis using old pr i assms(3)[of i] by (metis Pair_inject)
  qed
  then show ?thesis unfolding wants_ok_def by blast
qed

lemma wants_retried:
  assumes "wants_ok lib W w"
  shows "wants_ok lib W (snd (retry_due now after w))"
    and "(key, pr) \<in> set (rb_retries (fst (retry_due now after w))) \<Longrightarrow> from_hex lib key = Some i \<Longrightarrow> W i (ip_peer pr)"
proof -
  have peers: "\<exists>pr\<in>set (providers p). ip_peer pr' = ip_peer pr" if "retry_pending now after p = Retried p'" "pr' \<in> set (providers p')" for p p' pr'
  proof -
    from retried(3)[OF that(1)] obtain pr where pr: "pr \<in> set (providers p)" "pi_selected p' = pr\<lparr>ip_requested := True\<rparr>" by blast
    have "pr' = pi_selected p' \<or> pr' \<in> set (providers p)" using retried(1)[OF that(1)] that(2) by blast
    then show ?thesis using pr by force
  qed
  show "wants_ok lib W (snd (retry_due now after w))" unfolding retry_due_def snd_conv
    using peers by (intro wants_retain[OF assms]) (auto split: retry_outcome.splits)
  assume "(key, pr) \<in> set (rb_retries (fst (retry_due now after w)))" and i: "from_hex lib key = Some i"
  then obtain p p' where p: "(key, p) \<in> set (pw_entries w)" "retry_pending now after p = Retried p'" "pr = pi_selected p'"
    using retries_mem by blast
  from peers[OF p(2), of pr] p(3) obtain x where "x \<in> set (providers p)" "ip_peer pr = ip_peer x" by auto
  moreover have "\<forall>x\<in>set (providers p). W i (ip_peer x)" using assms p(1) i unfolding wants_ok_def by blast
  ultimately show "W i (ip_peer pr)" by metis
qed

section \<open>Sending\<close>

lemma sound_try_send:
  assumes "sound E A K F s" and "\<And>p f. c = TSend p f \<Longrightarrow> frame_ok E A K p f"
  shows "sound E A K F (snd (transport_try_send c s))"
  using assms by (auto simp: sound_def transport_try_send_def)

lemma recent_event_Some:
  assumes "hex_sound lib" and "recent_event lib (to_hex lib i) r = Some v"
  shows "ev_id (as_event v) = i" and "\<exists>c\<in>set (rv_entries r). rc_event c = v"
  using assms by (auto simp: recent_event_def hex_sound_def find_Some_iff split: option.splits)

lemma decode_frame_ok: "decode_frame lib wl codec frame = Inr m \<Longrightarrow> message_ok lib m"
  by (auto simp: decode_frame_def dest: decode_message_ok split: option.splits if_splits jvalue.splits list.splits)

lemma allowed_role_message:
  assumes "sound E A K F s" and "hex_sound (ce_nostr E)" and "message_ok (ce_nostr E) m" and "message_allowed E s peer m = Inr True"
    and "cl_role s \<noteq> RoleFull"
  shows "role_message (ce_roles E) (cl_role s) A (cb_published K) peer m"
proof (cases m)
  case (FReq i fs)
  then have "validate_filters (ce_roles E) (cl_role s) fs = None" using assms(4,5) by (cases "cl_role s") (auto split: option.splits)
  then show ?thesis using FReq validate_filters_role by simp
next
  case (FEvent i v)
  show ?thesis
  proof (cases "cl_role s = RolePublisher")
    case True
    then obtain pp where "hm_get (cl_publications s) (ev_id (as_event v)) = Some pp" "peer \<in> set (pp_providers pp)" "i = None"
      using assms(4) FEvent by (auto split: option.splits)
    then have "cb_published K v peer"
      using soundD(6)[OF assms(1)] assms(3) FEvent map_of_SomeD[of "cl_publications s"] unfolding publications_ok_def by fastforce
    then show ?thesis using True FEvent \<open>i = None\<close> by simp
  next
    case False
    then show ?thesis using assms(4,5) FEvent by (cases "cl_role s") (auto simp: can_export_exports)
  qed
next
  case (FInv ids i kind payload_bytes hop_limit)
  then obtain authors v where "cl_role s = RoleReceiver authors"
    "recent_event (ce_nostr E) (to_hex (ce_nostr E) i) (cl_recent s) = Some v" "ev_kind (as_event v) = kind" "can_export (cl_role s) v"
    using assms(4,5) by (cases "cl_role s") (auto split: option.splits)
  moreover from this have "A v" and "ev_id (as_event v) = i" using recent_event_Some[OF assms(2)] soundD(1)[OF assms(1)] by blast+
  ultimately show ?thesis using FInv unfolding can_export_exports by auto
qed (use assms(4,5) in \<open>auto split: client_role.splits\<close>)

lemma sendable_message: "(\<And>i. m = FWant i \<Longrightarrow> cb_announced K i peer) \<Longrightarrow> sendable E K peer (message_json (ce_nostr E) (ce_wire E) m)"
  unfolding sendable_def by blast

lemma encoded: "encode E s m = Inr frame \<Longrightarrow> frame = message_json (ce_nostr E) (ce_wire E) m"
  by (auto simp: encode_def encode_frame_def Let_def split: option.splits)

lemma sound_send_frame:
  assumes "sound E A K F s" and "hex_sound (ce_nostr E)" and "sendable E K peer frame"
  shows "sound E A K F (snd (send_frame E peer frame s))"
proof (cases "validate_outbound E peer frame s")
  case None
  then obtain m where m: "decode_frame (ce_nostr E) (ce_wire E) (cl_codec s) frame = Inr m" "message_allowed E s peer m = Inr True"
    by (auto simp: validate_outbound_def split: sum.splits if_splits)
  then have "frame_ok E A K peer frame"
    using assms(3) allowed_role_message[OF assms(1,2) decode_frame_ok[OF m(1)] m(2)] soundD(8,9)[OF assms(1)] by (auto simp: frame_ok_def)
  then have "sound E A K F (snd (transport_try_send (TSend peer frame) s))" using sound_try_send[OF assms(1)] by blast
  then show ?thesis using None by (auto simp: send_frame_def split: prod.split bool.split)
qed (use assms in \<open>simp add: send_frame_def\<close>)

lemma sound_send_message:
  assumes "sound E A K F s" and "hex_sound (ce_nostr E)" and "\<And>i. m \<noteq> FWant i"
  shows "sound E A K F (send_message E peer m s)"
  using assms(1) sound_send_frame[OF assms(1,2) sendable_message[of m K peer E]] assms(3)
  by (auto simp: send_message_def dest!: encoded split: sum.split)

lemma sound_violation: "sound E A K F s \<Longrightarrow> sound E A K F (record_provider_violation peer violation now s)"
  using sound_try_send[of E A K F "s\<lparr>cl_behavior := b\<rparr>" "TCooldown peer" for b]
  by (auto simp: record_provider_violation_def Let_def split: prod.split bool.split) (metis snd_conv)+

lemma recent_insert_entries: "c \<in> set (rv_entries (snd (recent_insert lib v src hop r))) \<Longrightarrow> rc_event c = v \<or> c \<in> set (rv_entries r)"
  by (auto simp: recent_insert_def Let_def dest: in_set_dropD split: if_splits prod.splits)

lemma recent_publish_entries: "c \<in> set (rv_entries (snd (recent_insert_for_publish lib v src hop r))) \<Longrightarrow> rc_event c = v \<or> c \<in> set (rv_entries r)"
  by (auto simp: recent_insert_for_publish_def Let_def dest: recent_insert_entries split: if_splits)

lemma sound_recent:
  assumes "sound E A K F s" and "A v" and "\<And>c. c \<in> set (rv_entries r) \<Longrightarrow> rc_event c = v \<or> c \<in> set (rv_entries (cl_recent s))"
  shows "sound E A K F (s\<lparr>cl_recent := r\<rparr>)"
  using assms by (auto simp: sound_def)

lemma sound_inventory_frame:
  assumes "sound E A K F s" and "A v"
  shows "sound E A K F (snd (inventory_frame E ids v hop s))"
proof -
  have "sound E A K F (s\<lparr>cl_recent := snd (recent_insert_for_publish (ce_nostr E) v src hop (cl_recent s))\<rparr>)" for src
    by (rule sound_recent[OF assms recent_publish_entries])
  then show ?thesis using assms(1) by (auto simp: inventory_frame_def Let_def split: client_role.split sum.split)
qed

lemma inventory_frame_sendable: "inventory_frame E ids v hop s = (Inr frame, s1) \<Longrightarrow> sendable E K peer frame"
  by (auto simp: inventory_frame_def Let_def dest!: encoded intro!: sendable_message split: if_splits sum.splits)

lemma sound_send_each_inventory:
  assumes "hex_sound (ce_nostr E)" and "A v"
  shows "sound E A K F s \<Longrightarrow> sound E A K F (snd (send_each_inventory E v hop targets s))"
proof (induction targets arbitrary: s)
  case (Cons t targets)
  obtain npub ids where t: "t = (npub, ids)" by force
  obtain r s1 where i: "inventory_frame E ids v hop s = (r, s1)" by force
  then have 1: "sound E A K F s1" using sound_inventory_frame[OF Cons.prems assms(2), of ids hop] by simp
  have sent: "sound E A K F (snd (send_frame E peer frame s1))" if "r = Inr frame" for peer frame
    using sound_send_frame[OF 1 assms(1)] inventory_frame_sendable[of E ids v hop s frame s1 K peer] i that by simp
  show ?case using Cons 1 sent
    by (auto simp: t i split: option.split sum.split prod.split) (metis snd_conv)+
qed simp

lemma sound_send_inventories: "hex_sound (ce_nostr E) \<Longrightarrow> A v \<Longrightarrow> sound E A K F s \<Longrightarrow> sound E A K F (snd (send_inventories E targets v hop s))"
  by (simp add: send_inventories_def sound_send_each_inventory)

section \<open>Local delivery\<close>

lemma refill_pending_contents:
  "refill_pending lib ps d ch = (d', ch') \<Longrightarrow> contents (d', ch') \<subseteq> set ps \<union> set (ch_queue ch)"
proof (induction lib ps d ch rule: refill_pending.induct)
  case (2 lib q pending d ch)
  show ?case
  proof (cases "try_send q ch")
    case (Sent ch1)
    then have "set (ch_queue ch1) \<subseteq> insert q (set (ch_queue ch))" by (auto simp: try_send_def split: if_splits)
    then show ?thesis using 2 Sent by (auto split: if_splits)
  qed (use 2(2) in \<open>auto split: if_splits\<close>)
qed auto

lemma refill_contents: "refill lib d ch = (d', ch') \<Longrightarrow> contents (d', ch') \<subseteq> contents (d, ch)"
  using refill_pending_contents[of lib "dl_pending d" d ch] by (fastforce simp: refill_def split: prod.splits if_splits)

lemma mark_delivered_pending [simp]: "dl_pending (mark_delivered i d) = dl_pending d"
  by (simp add: mark_delivered_def split: prod.split)

lemma enqueue_contents: "enqueue lib q d ch = (r, d', ch') \<Longrightarrow> contents (d', ch') \<subseteq> insert q (contents (d, ch))"
proof -
  assume e: "enqueue lib q d ch = (r, d', ch')"
  obtain d1 ch1 where "refill lib d ch = (d1, ch1)" by force
  moreover from this have "contents (d1, ch1) \<subseteq> contents (d, ch)" by (rule refill_contents)
  ultimately show ?thesis using e by (auto simp: enqueue_def try_send_def split: if_splits)
qed

lemma sound_delivery:
  assumes "sound E A K F s" and "h < length F \<Longrightarrow> \<forall>q\<in>contents dc. fits E A (F ! h) q"
  shows "sound E A K F (s\<lparr>cl_deliveries := (cl_deliveries s)[h := dc]\<rparr>)"
proof -
  have "\<forall>q\<in>contents ((cl_deliveries s)[h := dc] ! k). fits E A (F ! k) q" if "k < length F" for k
    using assms that soundD(2,3)[OF assms(1)] by (cases "k = h") auto
  then show ?thesis using assms(1) unfolding sound_def by simp
qed

lemma sound_deliver_local:
  assumes "sound E A K F s" and "A v" and "h < length F \<Longrightarrow> interest_from_filters (ce_nostr E) (F ! h) v = Subscribed"
  shows "sound E A K F (snd (deliver_local E h v src s))"
proof -
  let ?q = "\<lparr>qe_event = v, qe_source = src, qe_priority = SOURCE_PRIORITY_FIPS_ENDPOINT\<rparr>"
  obtain d ch where dc: "cl_deliveries s ! h = (d, ch)" by force
  obtain r d' ch' where e: "enqueue (ce_nostr E) ?q d ch = (r, d', ch')" using prod_cases3 by blast
  have "fits E A (F ! h) q" if "h < length F" "q \<in> contents (d', ch')" for q
    using enqueue_contents[OF e] that assms(2,3) soundD(3)[OF assms(1) that(1)] dc by (auto simp: fits_def)
  then show ?thesis using sound_delivery[OF assms(1)] by (simp add: deliver_local_def dc e)
qed

lemma sound_update_close: "sound E A K F s \<Longrightarrow> sound E A K F (update_delivery h dl_close s)"
  unfolding update_delivery_def using soundD(3)[of E A K F s h] by (intro sound_delivery) (auto simp: map_prod_def split: prod.splits)

lemma sound_send_each_close:
  assumes "frame = message_json (ce_nostr E) (ce_wire E) (FClose key)"
  shows "sound E A K F s \<Longrightarrow> sound E A K F (send_each_close E frame npubs s)"
proof (induction npubs arbitrary: s)
  case (Cons npub npubs)
  have "sound E A K F (snd (transport_try_send (TSend peer frame) s))" for peer
    using assms Cons.prems sendable_message[of "FClose key" K peer E] by (intro sound_try_send) (auto simp: frame_ok_def)
  then show ?case using Cons by (auto split: option.split)
qed simp

lemma sound_send_close: "sound E A K F s \<Longrightarrow> sound E A K F (send_close E key peers s)"
  by (auto simp: send_close_def encode_def encode_frame_def Let_def sound_send_each_close split: sum.split option.splits)

lemma sound_subscriptions:
  assumes "sound E A K F s" and "\<And>x. x \<in> set subs \<Longrightarrow> sub_sound E (cl_role s) F (snd x)"
  shows "sound E A K F (s\<lparr>cl_subscriptions := subs\<rparr>)"
  using assms by (simp add: sound_def)

lemma sound_close_subscription:
  assumes "sound E A K F s"
  shows "sound E A K F (close_subscription E key s)"
proof -
  have "sound E A K F (s\<lparr>cl_subscriptions := hm_remove key (cl_subscriptions s)\<rparr>)"
    by (rule sound_subscriptions[OF assms]) (use soundD(4)[OF assms] in \<open>auto simp: set_hm_remove\<close>)
  from sound_wants[OF sound_update_close[OF this] wants_removed(1)[OF soundD(7)[OF sound_update_close[OF this]]]]
  show ?thesis using assms by (auto simp: close_subscription_def Let_def intro!: sound_send_close split: option.split)
qed

lemma sound_close_fold: "sound E A K F s \<Longrightarrow> sound E A K F (fold (close_subscription E) keys1 s)"
  by (induction keys1 arbitrary: s) (simp_all add: sound_close_subscription)

lemma sound_deliver_each:
  assumes "A v"
  shows "sound E A K F s \<Longrightarrow> \<forall>x\<in>set subs. sub_sound E role F (snd x) \<Longrightarrow> sound E A K F (snd (snd (deliver_each E npub v subs s)))"
proof (induction subs arbitrary: s)
  case (Cons x subs)
  obtain key active where x: "x = (key, active)" by force
  show ?case
  proof (cases "\<not> wants_event E npub v active \<or> delivery_contains (event_text_key E v) (delivery_at s (as_delivery active))")
    case True
    then show ?thesis using Cons by (simp add: x)
  next
    case False
    then have "interest_from_filters (ce_nostr E) (F ! as_delivery active) v = Subscribed"
      using Cons.prems(2) by (simp add: x sub_sound_def wants_event_def)
    then have "sound E A K F (snd (deliver_local E (as_delivery active) v (es_fips_endpoint npub) s))"
      using Cons.prems(1) assms by (intro sound_deliver_local)
    then show ?thesis using Cons.IH Cons.prems(2) False by (auto simp: x split: prod.split) (metis snd_conv)
  qed
qed simp

lemma sound_deliver_local_event:
  assumes "sound E A K F s" and "A v"
  shows "sound E A K F (snd (deliver_local_event E npub v s))"
proof -
  have "sound E A K F (snd (snd (deliver_each E npub v (cl_subscriptions s) s)))"
    using sound_deliver_each[where subs = "cl_subscriptions s", OF assms(2,1)] soundD(4)[OF assms(1)] by blast
  then show ?thesis by (auto simp: deliver_local_event_def split: prod.split intro!: sound_close_fold)
qed

lemma sound_replay_each:
  assumes "sub_sound E role F active"
  shows "sound E A K F s \<Longrightarrow> \<forall>c\<in>set cs. A (rc_event c) \<Longrightarrow> sound E A K F (replay_each E active cs s)"
proof (induction cs arbitrary: s)
  case (Cons c cs)
  have "sound E A K F (snd (deliver_local E (as_delivery active) (rc_event c) (rc_source c) s))"
    if "interest_from_filters (ce_nostr E) (as_filters active) (rc_event c) = Subscribed"
    using Cons.prems that assms by (intro sound_deliver_local) (auto simp: sub_sound_def)
  then show ?case using Cons by simp
qed simp

lemma sound_replay_local_events:
  assumes "sound E A K F s"
  shows "sound E A K F (replay_local_events E key s)"
proof (cases "hm_get (cl_subscriptions s) key")
  case (Some active)
  have "sound E A K F (replay_each E active (rv_entries (cl_recent s)) s)"
    using sound_replay_each[OF soundD(5)[OF assms Some] assms] soundD(1)[OF assms] by blast
  then show ?thesis using Some by (simp add: replay_local_events_def Let_def sound_close_subscription)
qed (use assms in \<open>simp add: replay_local_events_def\<close>)

lemma sound_deliver_fresh:
  assumes "A v"
  shows "sound E A K F s \<Longrightarrow> sound E A K F (snd (deliver_fresh E npub v ids s))"
proof (induction ids arbitrary: s)
  case (Cons i ids)
  show ?case
  proof (cases "hm_get (cl_subscriptions s) i")
    case (Some active)
    have "sound E A K F (snd (deliver_local E (as_delivery active) v (es_fips_endpoint npub) s))"
      if "interest_from_filters (ce_nostr E) (as_filters active) v = Subscribed"
      using that soundD(5)[OF Cons.prems Some] assms Cons.prems by (intro sound_deliver_local) (auto simp: sub_sound_def)
    then show ?thesis using Cons Some by (auto split: prod.split) (metis snd_conv)
  qed (use Cons in simp)
qed simp

section \<open>Handlers\<close>

lemma sound_accept_inventory:
  assumes "accept_inventory E npub inv1 now s = Some (r, s')" and "hex_sound (ce_nostr E)" and "sound E A K F s"
    and "cb_announced K (ad_event_id inv1) npub"
  shows "sound E A K F s'" and "r = Inr (Some frame) \<Longrightarrow> sendable E K npub frame"
proof -
  let ?key = "to_hex (ce_nostr E) (ad_event_id inv1)"
  have "sound E A K F (s\<lparr>cl_observed_inventories := o1, cl_wants := snd (pw_insert ?key p (cl_wants s))\<rparr>)"
    if "pi_alternatives p = []" "ip_peer (pi_selected p) = npub" for o1 p
  proof -
    have "wants_ok (ce_nostr E) (cb_announced K) (snd (pw_insert ?key p (cl_wants s)))"
      using that assms(2,4) by (intro wants_inserted[OF soundD(7)[OF assms(3)]]) (auto simp: hex_sound_def)
    then show ?thesis using sound_wants[of E A K F "s\<lparr>cl_observed_inventories := o1\<rparr>"] assms(3) by simp
  qed
  then show "sound E A K F s'" using assms(1,3)
    by (auto simp: accept_inventory_def Let_def split: if_splits option.splits prod.splits) (metis inventory_provider.select_convs(1) pending_inventory.select_convs(1,2) snd_conv)+
  show "r = Inr (Some frame) \<Longrightarrow> sendable E K npub frame"
    using assms(1,4) by (auto simp: accept_inventory_def Let_def map_sum_def dest!: encoded intro!: sendable_message split: if_splits option.splits prod.splits sum.splits)
qed

lemma sound_handle_inv:
  assumes "sound E A K F s" and "hex_sound (ce_nostr E)" and "handle_inv E npub inv1 now s = Some s'" and "cb_announced K (ad_event_id inv1) npub"
  shows "sound E A K F s'"
proof -
  define s1 where "s1 = count_event (\<lambda>c. c\<lparr>n_inv := n_inv c + 1\<rparr>) s"
  have 1: "sound E A K F s1" using assms(1) by (simp add: s1_def)
  note h = assms(3)[unfolded handle_inv_def Let_def s1_def[symmetric]]
  show ?thesis
  proof (cases "recent_event (ce_nostr E) (to_hex (ce_nostr E) (ad_event_id inv1)) (cl_recent s1)")
    case None
    note acc = sound_accept_inventory[OF _ assms(2) 1 assms(4)]
    have "sound E A K F (snd (send_frame E npub frame s2))" if "accept_inventory E npub inv1 now s1 = Some (Inr (Some frame), s2)" for s2 frame
      using sound_send_frame[OF acc(1)[OF that] assms(2) acc(2)[OF that refl]] .
    then show ?thesis using h None 1 acc(1)
      by (auto split: if_splits option.splits prod.splits sum.splits)
  next
    case (Some v)
    then have "A v" using recent_event_Some(2)[OF assms(2) Some] soundD(1)[OF 1] by blast
    then have "sound E A K F (snd (deliver_fresh E npub v (ad_subscriptions inv1) s1))" using 1 by (rule sound_deliver_fresh)
    then show ?thesis using h Some 1 by (auto split: if_splits prod.splits intro: sound_close_fold)
  qed
qed

lemma sound_charge_expired:
  "sound E A K F s \<Longrightarrow> sound E A K F (fold (\<lambda>provider s. case ce_from_npub E (ip_peer (provider :: inventory_provider)) of
      None \<Rightarrow> s | Some peer \<Rightarrow> record_provider_violation peer UnansweredInventory now s) ps s)"
  by (induction ps arbitrary: s) (auto simp: sound_violation split: option.split)

lemma sound_retry_pending_frames:
  assumes "sound E A K F s"
  shows "sound E A K F (snd (retry_pending_frames E now s))"
proof -
  have "sound E A K F (s\<lparr>cl_wants := snd (retry_due now after (cl_wants s))\<rparr>)" for after
    using sound_wants[OF assms wants_retried(1)[OF soundD(7)[OF assms]]] .
  then show ?thesis unfolding retry_pending_frames_def Let_def by (auto intro!: sound_charge_expired split: prod.split) (metis snd_conv)+
qed

lemma sound_complete_want:
  assumes "sound E A K F s"
  shows "sound E A K F (snd (complete_want E npub i v s))"
proof -
  have "sound E A K F (s\<lparr>cl_wants := snd (take_matching k npub i kind bytes (cl_wants s))\<rparr>)" for k kind bytes
    using sound_wants[OF assms wants_taken[OF soundD(7)[OF assms]]] .
  then show ?thesis using assms by (auto simp: complete_want_def split: sum.split option.split prod.split) (metis snd_conv)+
qed

lemma sound_remember_event: "sound E A K F s \<Longrightarrow> A v \<Longrightarrow> sound E A K F (snd (remember_event E v src hop s))"
  using sound_recent[of E A K F s v "snd (recent_insert (ce_nostr E) v src hop (cl_recent s))", OF _ _ recent_insert_entries]
  by (simp add: remember_event_def case_prod_beta)

lemma sound_announce:
  "announce E v hop excluded s = Some s' \<Longrightarrow> hex_sound (ce_nostr E) \<Longrightarrow> A v \<Longrightarrow> sound E A K F s \<Longrightarrow> sound E A K F s'"
  by (auto simp: announce_def sound_send_inventories split: option.splits sum.splits)

lemma sound_handle_event:
  assumes "handle_event E npub i v s = Some s'" and "hex_sound (ce_nostr E)" and "A v" and "sound E A K F s"
  shows "sound E A K F s'"
proof -
  obtain hop s1 where 1: "(case i of Some i \<Rightarrow> (case complete_want E npub i v s of (Inr (Some hop_limit), s1) \<Rightarrow> (hop_limit, s1) | (_, s1) \<Rightarrow> (0, s1))
      | None \<Rightarrow> (op_max_hops (cl_options s), s)) = (hop, s1)" by force
  then have "s1 = s \<or> (\<exists>j. s1 = snd (complete_want E npub j v s))" by (auto split: option.splits prod.splits sum.splits) (metis snd_conv)+
  then have s1: "sound E A K F s1" using assms(4) sound_complete_want by blast
  define s2 where "s2 = (if i \<noteq> None then count_event (\<lambda>c. c\<lparr>n_subscription_events := n_subscription_events c + 1\<rparr>) s1 else s1)"
  obtain d s3 where 3: "deliver_local_event E npub v s2 = (d, s3)" by force
  have s3: "sound E A K F s3" using sound_deliver_local_event[of E A K F s2 v npub] s1 assms(3) 3 by (simp add: s2_def split: if_splits)
  obtain new s4 where 4: "remember_event E v (es_fips_endpoint npub) hop s3 = (new, s4)" by force
  have s4: "sound E A K F s4" using sound_remember_event[OF s3 assms(3)] 4 by (metis snd_conv)
  show ?thesis using assms(1) s3 s4 sound_announce[where A = A, OF _ assms(2,3) s4] unfolding handle_event_def 1 Let_def s2_def[symmetric] prod.case
    by (auto simp: 3 4 split: bool.splits if_splits)
qed

lemma sound_accept_publication:
  assumes "accept_publication E peer v s = Some s'" and "hex_sound (ce_nostr E)" and "event_is_admitted E v (es_fips_endpoint peer) \<Longrightarrow> A v"
    and "sound E A K F s"
  shows "sound E A K F s'"
proof (cases "event_is_admitted E v (es_fips_endpoint peer)")
  case True
  note a = assms(3)[OF True]
  obtain new s1 where 1: "remember_event E v (es_fips_endpoint peer) (op_max_hops (cl_options s)) (snd (deliver_local_event E peer v s)) = (new, s1)" by force
  have s1: "sound E A K F s1" using sound_remember_event[OF sound_deliver_local_event[OF assms(4) a] a] 1 by (metis snd_conv)
  then show ?thesis using assms(1) True sound_announce[where A = A, OF _ assms(2) a s1] assms(2)
    by (auto simp: accept_publication_def Let_def 1 sound_send_message split: bool.splits)
next
  case False
  then show ?thesis using assms(1,2,4) by (auto simp: accept_publication_def Let_def sound_send_message)
qed

lemma sound_handle_received_event:
  assumes "handle_received_event E peer i v now s = Some s'" and "hex_sound (ce_nostr E)"
    and "event_is_admitted E v (es_fips_endpoint peer) \<Longrightarrow> A v" and "sound E A K F s"
  shows "sound E A K F s'"
proof -
  let ?s = "count_event (\<lambda>c. c\<lparr>n_event := n_event c + 1\<rparr>) s"
  have 1: "sound E A K F ?s" using assms(4) by simp
  have "sound E A K F (?s\<lparr>cl_observed_full_events := o1\<rparr>)" for o1 using assms(4) by simp
  then show ?thesis
    using assms(1) sound_accept_publication[where A = A, OF _ assms(2,3) 1] sound_handle_event[where A = A, OF _ assms(2) assms(3)]
    unfolding handle_received_event_def Let_def
    by (auto simp: sound_violation split: if_splits option.splits prod.splits)
qed

lemma sound_queue_replay: "sound E A K F s \<Longrightarrow> sound E A K F (queue_replay peer query s)"
  by (auto simp: queue_replay_def split: option.split)

lemma sound_replay_inventories:
  assumes "hex_sound (ce_nostr E)"
  shows "sound E A K F s \<Longrightarrow> \<forall>c\<in>set cs. A (rc_event c) \<Longrightarrow> sound E A K F (snd (replay_inventories E peer i cs s))"
proof (induction cs arbitrary: s)
  case (Cons c cs)
  obtain r s1 where i: "inventory_frame E [i] (rc_event c) (rc_hop_limit c) s = (r, s1)" by force
  then have 1: "sound E A K F s1" using sound_inventory_frame[OF Cons.prems(1), of "rc_event c" "[i]" "rc_hop_limit c"] Cons.prems(2) by simp
  have sent: "sound E A K F (snd (send_frame E peer frame s1))" if "r = Inr frame" for frame
    using sound_send_frame[OF 1 assms] inventory_frame_sendable[of E "[i]" "rc_event c" "rc_hop_limit c" s frame s1 K peer] i that by simp
  then show ?case using Cons.IH Cons.prems(2) 1
    by (cases r) (auto simp: i split: prod.split, (metis snd_conv)+)
qed simp

lemma sound_handle_req:
  assumes "handle_req E peer i filters s = Some s'" and "hex_sound (ce_nostr E)" and "sound E A K F s"
  shows "sound E A K F s'"
proof -
  have cached: "\<forall>c\<in>set (take n (filter P (recent_matching lib fs (cl_recent s)))). A (rc_event c)" for n P lib fs
    using soundD(1)[OF assms(3)] by (auto simp: recent_matching_def dest: in_set_takeD)
  have "sound E A K F (snd (replay_inventories E peer i (take n (filter P (recent_matching lib filters (cl_recent s)))) (s\<lparr>cl_peer_subscriptions := st\<rparr>)))"
    for n P lib st using cached assms(3) by (intro sound_replay_inventories[OF assms(2)]) simp_all
  then show ?thesis using assms(1,3) unfolding handle_req_def Let_def
    by (auto split: option.splits sum.splits prod.splits if_splits intro!: sound_queue_replay) (metis snd_conv)+
qed

lemma sound_handle_close: "handle_close E peer i s = Some s' \<Longrightarrow> sound E A K F s \<Longrightarrow> sound E A K F s'"
  by (auto simp: handle_close_def)

lemma sound_handle_want: "hex_sound (ce_nostr E) \<Longrightarrow> sound E A K F s \<Longrightarrow> sound E A K F (handle_want E peer i s)"
  by (auto simp: handle_want_def sound_queue_replay sound_send_message split: option.split)

lemma sound_publications:
  assumes "sound E A K F s" and "publications_ok (ce_nostr E) (cb_published K) ps"
  shows "sound E A K F (s\<lparr>cl_publications := ps\<rparr>)"
  using assms by (simp add: sound_def)

lemma publications_insert:
  assumes "publications_ok lib P ps" and "\<And>peer v. peer \<in> set (pp_providers pp) \<Longrightarrow> verify lib (as_event v) \<Longrightarrow> ev_id (as_event v) = i \<Longrightarrow> P v peer"
  shows "publications_ok lib P (hm_insert i pp ps)"
  using assms set_hm_insert_subset[of i pp ps] unfolding publications_ok_def by blast

lemma sound_receipt:
  assumes "sound E A K F s"
  shows "sound E A K F (handle_publication_receipt peer i accepted message s)"
proof -
  note ok = soundD(6)[OF assms]
  have rem: "sound E A K F (s\<lparr>cl_publications := hm_remove i (cl_publications s)\<rparr>)"
    using ok by (intro sound_publications[OF assms]) (auto simp: publications_ok_def set_hm_remove)
  have ins: "sound E A K F (s\<lparr>cl_publications := hm_insert i (pp\<lparr>pp_providers := removeAll peer (pp_providers pp)\<rparr>) (cl_publications s)\<rparr>)"
    if "hm_get (cl_publications s) i = Some pp" for pp
    using ok map_of_SomeD[OF that] by (intro sound_publications[OF assms] publications_insert) (auto simp: publications_ok_def)
  show ?thesis using assms rem ins by (auto simp: handle_publication_receipt_def Let_def split: option.split)
qed

lemma sound_handle_frame:
  assumes "handle_frame E peer frame now s = Some s'" and "hex_sound (ce_nostr E)" and "sound E A K F s"
    and "\<And>i v. decode_frame (ce_nostr E) (ce_wire E) (cl_codec s) frame = Inr (FEvent i v) \<Longrightarrow> event_is_admitted E v (es_fips_endpoint peer) \<Longrightarrow> A v"
    and "\<And>ids i kind bytes hop. decode_frame (ce_nostr E) (ce_wire E) (cl_codec s) frame = Inr (FInv ids i kind bytes hop) \<Longrightarrow> cb_announced K i peer"
  shows "sound E A K F s'"
proof (cases "decode_frame (ce_nostr E) (ce_wire E) (cl_codec s) frame")
  case (Inl err)
  then show ?thesis using assms(1,3) by (auto simp: handle_frame_def sound_violation)
next
  case (Inr m)
  have counted: "sound E A K F (s\<lparr>cl_counters := c\<rparr>)" for c using assms(3) by simp
  show ?thesis
  proof (cases m)
    case (FEvent i v)
    then show ?thesis using assms Inr sound_handle_received_event[where A = A, OF _ assms(2) _ assms(3)] by (auto simp: handle_frame_def)
  next
    case (FInv ids i kind payload_bytes hop_limit)
    then have "cb_announced K i peer" using assms(5) Inr by blast
    then show ?thesis using assms(1) Inr FInv by (auto simp: handle_frame_def intro!: sound_handle_inv[OF assms(3,2)])
  qed (use assms(1-3) Inr counted in \<open>auto simp: handle_frame_def sound_receipt sound_handle_want
      intro: sound_handle_req sound_handle_close\<close>)
qed

section \<open>Calls\<close>

lemma role_allows_limit:
  assumes "limit_law rl"
  shows "role_allows rl role (f\<lparr>f_limit := n\<rparr>) = role_allows rl role f"
proof (cases "filter_value rl f")
  case None
  then have "filter_value rl (f\<lparr>f_limit := n\<rparr>) = None" using assms by (simp add: limit_law_def)
  then show ?thesis using None by (cases role) (simp_all add: scope_validate_def)
next
  case (Some a)
  then have "filter_value rl (f\<lparr>f_limit := n\<rparr>) \<noteq> None" using assms by (simp add: limit_law_def)
  then obtain b where b: "filter_value rl (f\<lparr>f_limit := n\<rparr>) = Some b" by blast
  have k: "jget k b = jget k a" if "k \<noteq> ''limit''" for k using assms Some b that by (simp add: limit_law_def)
  have "receiver_kind authors (f\<lparr>f_limit := n\<rparr>) b = receiver_kind authors f a" for authors
    by (rule ext) (simp add: receiver_kind_def k)
  moreover have "group_roster b = group_roster a" by (simp add: group_roster_def k)
  moreover have "scope_validate rl scope (f\<lparr>f_limit := n\<rparr>) = scope_validate rl scope f" for scope
    using Some b k calculation(2) by (cases scope) (simp_all add: scope_validate_def)
  ultimately show ?thesis using Some b by (cases role) (simp_all split: option.split)
qed

lemma validate_filters_clamp: "limit_law rl \<Longrightarrow> validate_filters rl role (map (clamp_limit n) fs) = None \<longleftrightarrow> validate_filters rl role fs = None"
  by (simp add: validate_filters_iff clamp_limit_def role_allows_limit)

lemma sound_send_each_req:
  assumes "hex_sound (ce_nostr E)" and "\<And>peer. sendable E K peer frame"
  shows "sound E A K F s \<Longrightarrow> sound E A K F (snd (snd (send_each_req E key frame peers s)))"
proof (induction peers arbitrary: s)
  case (Cons p peers)
  obtain npub identity where p: "p = (npub, identity)" by force
  obtain r s1 where f: "send_frame E identity frame s = (r, s1)" by force
  have 1: "sound E A K F s1" using sound_send_frame[OF Cons.prems assms, of identity] f by simp
  have "sound E A K F (s1\<lparr>cl_subscriptions := hm_insert key (active\<lparr>as_peers := ps\<rparr>) (cl_subscriptions s1)\<rparr>)"
    if "hm_get (cl_subscriptions s1) key = Some active" for active ps
    by (rule sound_subscriptions[OF 1])
      (use set_hm_insert_subset[of key "active\<lparr>as_peers := ps\<rparr>" "cl_subscriptions s1"] soundD(4,5)[OF 1] that in \<open>fastforce simp: sub_sound_def\<close>)
  then show ?case using Cons.IH 1 by (cases r) (auto simp: p f Let_def split: prod.split option.split, (metis snd_conv)+)
qed simp

lemma sound_open:
  assumes s: "sound E A K F s" and v: "validate_filters (ce_roles E) (cl_role s) filters = None"
  shows "sound E A K (F @ [filters]) (s\<lparr>cl_deliveries := cl_deliveries s @ [(delivery_new n, \<lparr>ch_queue = [], ch_capacity = n, ch_open = True\<rparr>)],
    cl_subscriptions := hm_insert key \<lparr>as_filters = filters, as_fresh = b, as_peers = ps, as_delivery = length (cl_deliveries s)\<rparr> (cl_subscriptions s)\<rparr>)"
    (is "sound E A K ?F (s\<lparr>cl_deliveries := ?D, cl_subscriptions := hm_insert key ?a (cl_subscriptions s)\<rparr>)")
proof -
  have "\<forall>q\<in>contents (?D ! h). fits E A (?F ! h) q" if "h < length ?F" for h
    using that soundD(2,3)[OF s] by (cases "h = length F") (auto simp: nth_append delivery_new_def)
  moreover have "sub_sound E (cl_role s) ?F (snd x)" if "x \<in> set (hm_insert key ?a (cl_subscriptions s))" for x
  proof (cases "x = (key, ?a)")
    case False
    then have "x \<in> set (cl_subscriptions s)" using that set_hm_insert_subset by fastforce
    then show ?thesis using soundD(4)[OF s, of x] by (auto simp: sub_sound_def nth_append)
  qed (use v soundD(2)[OF s] in \<open>auto simp: sub_sound_def nth_append\<close>)
  ultimately show ?thesis using s unfolding sound_def by simp
qed

lemma sound_drop_receiver: "sound E A K F s \<Longrightarrow> sound E A K F (drop_receiver h s)"
  unfolding drop_receiver_def using soundD(3)[of E A K F s h] by (intro sound_delivery) (auto simp: map_prod_def split: prod.splits)

abbreviation requested :: "client \<Rightarrow> filter list \<Rightarrow> filter list" where
  "requested s fs \<equiv> map (clamp_limit (op_max_replay_events (cl_options s))) (if fs = [] then [filter_new] else fs)"

lemma sound_subscribe:
  assumes c: "client_subscribe E fs replay links s = Some (r, s')" and law: "hex_sound (ce_nostr E)" "limit_law (ce_roles E)" and s: "sound E A K F s"
  shows "sound E A K F s' \<or> sound E A K (F @ [requested s fs]) s'"
proof -
  define key where "key = ''fips-'' @ decimal (unat (cl_next_subscription_id s))"
  define s1 where "s1 = s\<lparr>cl_next_subscription_id := cl_next_subscription_id s + 1\<rparr>"
  define gs where "gs = requested s fs"
  have s1: "sound E A K F s1" using s by (simp add: s1_def)
  have opened: "sound E A K (F @ [gs]) (snd (open_subscription E key gs replay peers s1))"
    if "validate_filters (ce_roles E) (cl_role s) (if fs = [] then [filter_new] else fs) = None" for peers
  proof -
    have "validate_filters (ce_roles E) (cl_role s1) gs = None" unfolding gs_def using that validate_filters_clamp[OF law(2)] by (simp add: s1_def)
    from sound_open[OF s1 this] show ?thesis by (simp add: open_subscription_def Let_def sound_replay_local_events)
  qed
  show ?thesis
  proof (cases "s' = s \<or> s' = s1")
    case True
    then show ?thesis using s s1 by blast
  next
    case False
    then obtain peers frame where enc: "encode E s1 (FReq key gs) = Inr frame" and v: "validate_filters (ce_roles E) (cl_role s) (if fs = [] then [filter_new] else fs) = None"
      and e: "(case open_subscription E key gs replay (map fst peers) s1 of (h, s2) \<Rightarrow>
        (case send_each_req E key frame peers s2 of (sent, last_error, s3) \<Rightarrow>
          if peers \<noteq> [] \<and> sent = 0
          then Some (Inl (case last_error of Some err \<Rightarrow> err | None \<Rightarrow> Storage ''no connected FIPS pubsub peers''), drop_receiver h (close_subscription E key s3))
          else Some (Inr (key, h), s3))) = Some (r, s')"
      using c unfolding client_subscribe_def Let_def key_def[symmetric] s1_def[symmetric] gs_def[symmetric]
      by (auto simp del: if_split split: option.splits sum.splits if_split_asm)
    obtain h s2 where o: "open_subscription E key gs replay (map fst peers) s1 = (h, s2)" by force
    obtain n err s3 where q: "send_each_req E key frame peers s2 = (n, err, s3)" using prod_cases3 by blast
    have "sendable E K peer frame" for peer using encoded[OF enc] sendable_message[of "FReq key gs" K peer E] by simp
    then have 3: "sound E A K (F @ [gs]) s3" using sound_send_each_req[OF law(1)] opened[OF v, of "map fst peers"] o q by (metis snd_conv)
    have "s' = drop_receiver h (close_subscription E key s3) \<or> s' = s3" using e unfolding o q prod.case by (auto split: if_splits)
    then show ?thesis using 3 sound_drop_receiver[OF sound_close_subscription[OF 3]] unfolding gs_def by blast
  qed
qed

lemma sound_refill_at:
  assumes "sound E A K F s"
  shows "sound E A K F (refill_at E h s)"
proof -
  obtain d ch where dc: "cl_deliveries s ! h = (d, ch)" by force
  have "contents (refill (ce_nostr E) d ch) \<subseteq> contents (d, ch)" using refill_contents[OF surjective_pairing] by simp
  then have "sound E A K F (s\<lparr>cl_deliveries := (cl_deliveries s)[h := refill (ce_nostr E) d ch]\<rparr>)"
    using soundD(3)[OF assms, of h] dc by (intro sound_delivery[OF assms]) auto
  then show ?thesis by (simp add: refill_at_def dc)
qed

lemma sound_try_recv:
  assumes "sound E A K F s" and "h < length (cl_deliveries s)" and "client_try_recv E h s = (r, s')"
  shows "sound E A K F s'" and "r = Inr q \<Longrightarrow> fits E A (F ! h) q"
proof -
  define s1 where "s1 = refill_at E h s"
  have s1: "sound E A K F s1" unfolding s1_def by (rule sound_refill_at[OF assms(1)])
  have h: "h < length F" using assms(2) soundD(2)[OF assms(1)] by simp
  obtain d ch where dc: "cl_deliveries s1 ! h = (d, ch)" by force
  have all: "fits E A (F ! h) q" if "q \<in> set (ch_queue ch) \<union> set (dl_pending d)" for q
    using soundD(3)[OF s1 h] that dc by auto
  have taken: "sound E A K F (s1\<lparr>cl_deliveries := (cl_deliveries s1)[h := (d, ch\<lparr>ch_queue := qs\<rparr>)]\<rparr>)" if "ch_queue ch = q # qs" for q qs
    using all that by (intro sound_delivery[OF s1]) auto
  show "sound E A K F s'" "r = Inr q \<Longrightarrow> fits E A (F ! h) q"
    using assms(3) sound_refill_at[OF s1] sound_refill_at[OF taken] all unfolding client_try_recv_def Let_def s1_def[symmetric] dc prod.case
    by (auto split: list.splits)
qed

lemma sound_publish:
  assumes "client_publish E v src s = Some (r, s')" and "hex_sound (ce_nostr E)" and "event_is_admitted E v src \<Longrightarrow> A v" and "sound E A K F s"
  shows "sound E A K F s'"
proof (cases "event_is_admitted E v src")
  case True
  note a = assms(3)[OF True]
  have ins: "sound E A K F (s\<lparr>cl_recent := snd (recent_insert_for_publish (ce_nostr E) v src hop (cl_recent s))\<rparr>)" for hop
    by (rule sound_recent[OF assms(4) a recent_publish_entries])
  show ?thesis using assms(1,4) ins[of "op_max_hops (cl_options s)"] sound_send_inventories[where A = A, OF assms(2) a ins]
    unfolding client_publish_def Let_def
    by (auto split: option.splits sum.splits prod.splits if_splits) (metis snd_conv)+
next
  case False
  then have "s' = s" using assms(1) unfolding client_publish_def Let_def event_is_admitted_def
    by (auto split: option.splits sum.splits prod.splits if_splits policy_decision.splits)
  then show ?thesis using assms(4) by simp
qed

lemma sound_send_each_event:
  assumes "hex_sound (ce_nostr E)" and "\<And>peer. sendable E K peer frame"
  shows "sound E A K F s \<Longrightarrow> sound E A K F (snd (send_each_event E frame peers s))"
proof (induction peers arbitrary: s)
  case (Cons p peers)
  obtain npub identity where p: "p = (npub, identity)" by force
  have 1: "sound E A K F (snd (send_frame E identity frame s))" by (rule sound_send_frame[OF Cons.prems assms])
  show ?case using Cons.IH[OF 1] 1 by (cases "send_frame E identity frame s") (auto simp: p split: option.split)
qed simp

lemma connected_peers_names: "connected_peers E ls = Inr peers \<Longrightarrow> map fst peers = map ln_npub ls"
  by (induction ls arbitrary: peers) (auto simp: map_sum_def split: option.splits sum.splits)

lemma sound_anonymous_publish:
  assumes "hex_sound (ce_nostr E)" and "sound E A K F s"
    and "\<And>ls peer w. links = Inr ls \<Longrightarrow> private_envelope (as_event v) \<Longrightarrow> peer \<in> ln_npub ` set ls \<Longrightarrow> verify (ce_nostr E) (as_event w) \<Longrightarrow>
      ev_id (as_event w) = ev_id (as_event v) \<Longrightarrow> cb_published K w peer"
  shows "sound E A K F (snd (anonymous_publish E v timeout links s))"
proof (cases "\<exists>ls peers. validate_envelope v = None \<and> links = Inr ls \<and> connected_peers E ls = Inr peers")
  case True
  then obtain ls peers where v: "validate_envelope v = None" and ls: "links = Inr ls" "connected_peers E ls = Inr peers" by blast
  let ?pp = "\<lparr>pp_providers = remdups (map fst peers), pp_reply = True\<rparr>"
  define s1 where "s1 = s\<lparr>cl_publications := hm_insert (ev_id (as_event v)) ?pp (cl_publications s)\<rparr>"
  have "set (pp_providers ?pp) = ln_npub ` set ls" using arg_cong[OF connected_peers_names[OF ls(2)], of set] by simp
  then have s1: "sound E A K F s1" unfolding s1_def
    using assms(3)[OF ls(1) validate_envelope_private[OF v]]
    by (intro sound_publications[OF assms(2)] publications_insert[OF soundD(6)[OF assms(2)]]) auto
  have "sound E A K F (snd (send_each_event E frame peers s1))" if "encode E s1 (FEvent None v) = Inr frame" for frame
    using encoded[OF that] sendable_message[of "FEvent None v" K _ E] by (intro sound_send_each_event[OF assms(1) _ s1]) simp
  then show ?thesis using v ls assms(2) s1 by (auto simp: anonymous_publish_def Let_def s1_def[symmetric] split: sum.split)
qed (use assms(2) in \<open>auto simp: anonymous_publish_def split: option.split sum.split\<close>)

lemma dedup_by_set: "set (dedup_by f xs) \<subseteq> set xs"
  by (induction f xs rule: dedup_by.induct) auto

lemma bounded_events_report:
  assumes "x \<in> set (bounded_events lib report fs excluded limit)"
  shows "\<exists>q\<in>set report. x = (qe_event q, qe_source q)"
proof -
  have "x \<in> set (sort_key (\<lambda>x. (- int (unat (ev_created_at (as_event (fst x)))), ev_id (as_event (fst x))))
      (map (\<lambda>q. (qe_event q, qe_source q)) (filter (\<lambda>q. ev_id (as_event (qe_event q)) \<notin> set excluded \<and>
         interest_from_filters lib fs (qe_event q) = Subscribed) (take limit report))))"
    using assms unfolding bounded_events_def Let_def by (blast dest: in_set_takeD subsetD[OF dedup_by_set])
  then show ?thesis by (auto dest: in_set_takeD)
qed

lemma sound_serve_event:
  assumes "hex_sound (ce_nostr E)" and "A v" and "sound E A K F s"
  shows "sound E A K F (serve_event E peer query v s)"
proof -
  have inv: "sound E A K F s1" if "inventory_frame E ids v hop s = (r, s1)" for ids hop r s1
    using sound_inventory_frame[OF assms(3,2), of ids hop] that by simp
  have "sound E A K F (snd (send_frame E peer frame s1))" if "inventory_frame E ids v hop s = (Inr frame, s1)" for ids hop frame s1
    using sound_send_frame[OF inv[OF that] assms(1) inventory_frame_sendable[OF that]] .
  then show ?thesis using inv assms(3) sound_send_message[OF assms(3,1)]
    by (auto simp: serve_event_def Let_def split: replay_query.split list.split prod.split sum.split)
qed

lemma sound_serve_each:
  assumes "hex_sound (ce_nostr E)"
  shows "sound E A K F s \<Longrightarrow> \<forall>(v, src)\<in>set evs. event_is_admitted E v src \<longrightarrow> A v \<Longrightarrow> sound E A K F (serve_each E peer source query evs s)"
  by (induction evs arbitrary: s) (auto simp: sound_serve_event[OF assms])

lemma sound_serve:
  assumes "hex_sound (ce_nostr E)" and "sound E A K F s" and "\<forall>q\<in>set report. event_is_admitted E (qe_event q) (qe_source q) \<longrightarrow> A (qe_event q)"
  shows "sound E A K F (serve E report s)"
proof -
  have "\<forall>(v, src)\<in>set (bounded_events lib report fs excluded limit). event_is_admitted E v src \<longrightarrow> A v" for lib fs excluded limit
    using bounded_events_report assms(3) by fastforce
  then show ?thesis using assms(2) sound_serve_each[OF assms(1)] by (auto simp: serve_def Let_def split: list.split prod.split)
qed

lemma sound_peers: "sound E A K F s \<Longrightarrow> sound E A K F (s\<lparr>cl_subscriptions := map (\<lambda>(key, active). (key, active\<lparr>as_peers := g (as_peers active)\<rparr>)) (cl_subscriptions s)\<rparr>)"
  by (rule sound_subscriptions, assumption) (auto simp: sub_sound_def dest!: soundD(4))

lemma sound_reset: "sound E A K F s \<Longrightarrow> sound E A K F (reset_peer_epoch npub now s)"
  using sound_wants[of E A K F "s\<lparr>cl_observed_inventories := o1, cl_observed_full_events := o2\<rparr>" "pw_remove_peer npub now (cl_wants s)" for o1 o2]
    wants_removed(2)[OF soundD(7)] by (simp add: reset_peer_epoch_def)

lemma sound_forget_peer_state: "forget_peer_state E npub now s = Some s' \<Longrightarrow> sound E A K F s \<Longrightarrow> sound E A K F s'"
  using sound_peers[of E A K F "(reset_peer_epoch npub now s)\<lparr>cl_peer_subscriptions := st\<rparr>" "removeAll npub" for st]
    sound_reset[of E A K F s npub now] by (auto simp: forget_peer_state_def Let_def)

lemma sound_close_actives: "sound E A K F s \<Longrightarrow> sound E A K F (close_actives E subs s)"
  by (induction E subs s rule: close_actives.induct) (simp_all add: sound_send_close sound_update_close)

lemma sound_close_all:
  assumes "sound E A K F s"
  shows "sound E A K F (close_all E s)"
proof -
  have "sound E A K F (s\<lparr>cl_open := False, cl_replay_source := None, cl_subscriptions := []\<rparr>)"
    using sound_subscriptions[of E A K F "s\<lparr>cl_open := False, cl_replay_source := None\<rparr>" "[]"] assms by simp
  note closed = sound_close_actives[OF this, of "cl_subscriptions s"]
  have "sound E A K F ((close_actives E (cl_subscriptions s) (s\<lparr>cl_open := False, cl_replay_source := None, cl_subscriptions := []\<rparr>))\<lparr>cl_publications := []\<rparr>)"
    by (rule sound_publications[OF closed]) (simp add: publications_ok_def)
  from sound_wants[OF this wants_removed(3)[OF soundD(7)[OF closed]]] show ?thesis by (simp add: close_all_def Let_def)
qed

end
