(* ===== verification/Client_Runs.thy ===== *)
theory Client_Runs
  imports Client_Safety
begin

text \<open>
  Runs of a FIPS client: the transition system over received frames, application calls and background turns, with the history the properties speak
  of, and the two safety properties.
\<close>

section \<open>Histories\<close>

text \<open>The filters every delivery was opened with, the frames handed to connections directly, and the events an application has read.\<close>

record client_node =
  nd_client :: client
  nd_filters :: "filter list list"
  nd_direct :: "(string \<times> bytes) list"
  nd_received :: "(nat \<times> query_event) list"

definition step_env :: "client_env \<Rightarrow> step_context \<Rightarrow> client_env" where
  "step_env E cx = E\<lparr>ce_event_policy := sx_event_policy cx, ce_peer_policy := sx_peer_policy cx\<rparr>"

fun opened_filters :: "client_op \<Rightarrow> client \<Rightarrow> filter list" where
  "opened_filters (Subscribe fs _ _) s = requested s fs"
| "opened_filters _ s = []"

fun read_handle :: "client_op \<Rightarrow> nat" where
  "read_handle (TryRecv h) = h"
| "read_handle _ = 0"

definition node_step :: "client_env \<Rightarrow> step_context \<Rightarrow> client_node \<Rightarrow> client_node option" where
  "node_step E cx nd =
     (let s = nd_client nd
      in map_option (\<lambda>(s', frames, events).
           \<lparr>nd_client = s',
            nd_filters = nd_filters nd @ (if length (cl_deliveries s) < length (cl_deliveries s') then [opened_filters (sx_op cx) s] else []),
            nd_direct = nd_direct nd @ frames, nd_received = nd_received nd @ map (Pair (read_handle (sx_op cx))) events\<rparr>)
         (client_step (step_env E cx) (sx_now cx) (sx_op cx) s))"

fun node_run :: "client_env \<Rightarrow> step_context list \<Rightarrow> client_node \<Rightarrow> client_node option" where
  "node_run E [] nd = Some nd"
| "node_run E (cx # cxs) nd = (case node_step E cx nd of None \<Rightarrow> None | Some nd' \<Rightarrow> node_run E cxs nd')"

definition node_start :: "client_options \<Rightarrow> client_role \<Rightarrow> client_node" where
  "node_start o1 role =
     \<lparr>nd_client = client_state o1 role \<lparr>max_frame_bytes = op_max_frame_bytes o1\<rparr>, nd_filters = [], nd_direct = [], nd_received = []\<rparr>"

lemma client_new_start: "client_new o1 role = Some (Inr s) \<Longrightarrow> s = nd_client (node_start o1 role)"
  by (auto simp: client_new_def node_start_def wire_codec_new_def split: if_splits)

text \<open>A step introduces an event when its policy admits it: in a frame of a peer, by publication, or from the application's store.\<close>

fun introduces :: "client_env \<Rightarrow> wire_codec \<Rightarrow> client_op \<Rightarrow> verified_event \<Rightarrow> bool" where
  "introduces E codec (FrameFrom peer frame) v \<longleftrightarrow>
     (\<exists>i. decode_frame (ce_nostr E) (ce_wire E) codec frame = Inr (FEvent i v)) \<and> event_is_admitted E v (es_fips_endpoint peer)"
| "introduces E codec (PublishEvent w source) v \<longleftrightarrow> w = v \<and> event_is_admitted E v source"
| "introduces E codec (ServeReplay report) v \<longleftrightarrow> (\<exists>q\<in>set report. qe_event q = v \<and> event_is_admitted E v (qe_source q))"
| "introduces E codec _ v \<longleftrightarrow> False"

definition introduced :: "client_env \<Rightarrow> wire_codec \<Rightarrow> step_context list \<Rightarrow> verified_event \<Rightarrow> bool" where
  "introduced E codec cxs v \<longleftrightarrow> verify (ce_nostr E) (as_event v) \<and> (\<exists>cx\<in>set cxs. introduces (step_env E cx) codec (sx_op cx) v)"

text \<open>Applications pass values of type \<open>VerifiedEvent\<close>, which only verified events have.\<close>

fun op_verified :: "nostr_lib \<Rightarrow> client_op \<Rightarrow> bool" where
  "op_verified lib (PublishEvent v source) \<longleftrightarrow> verify lib (as_event v)"
| "op_verified lib (AnonymousPublish v timeout links) \<longleftrightarrow> verify lib (as_event v)"
| "op_verified lib (ServeReplay report) \<longleftrightarrow> (\<forall>q\<in>set report. verify lib (as_event (qe_event q)))"
| "op_verified lib _ \<longleftrightarrow> True"

text \<open>
  An event was published anonymously to a peer when an envelope, the event up to its signature, was handed to a publication with the peer among its
  providers; an event was announced by a peer when a frame of the peer said so.
\<close>

definition published_to :: "step_context list \<Rightarrow> verified_event \<Rightarrow> string \<Rightarrow> bool" where
  "published_to cxs v peer \<longleftrightarrow>
     (\<exists>cx\<in>set cxs. \<exists>w timeout ls. sx_op cx = AnonymousPublish w timeout (Inr ls) \<and> peer \<in> ln_npub ` set ls \<and>
        private_envelope (as_event w) \<and> as_event v = (as_event w)\<lparr>ev_sig := ev_sig (as_event v)\<rparr>)"

definition announced_by :: "client_env \<Rightarrow> wire_codec \<Rightarrow> step_context list \<Rightarrow> event_id \<Rightarrow> string \<Rightarrow> bool" where
  "announced_by E codec cxs i peer \<longleftrightarrow>
     (\<exists>cx\<in>set cxs. \<exists>frame ids kind payload_bytes hop_limit. sx_op cx = FrameFrom peer frame \<and>
        decode_frame (ce_nostr E) (ce_wire E) codec frame = Inr (FInv ids i kind payload_bytes hop_limit))"

text \<open>The frames that bypass the queue: requests to a peer that announced the event, and the client's own subscriptions.\<close>

definition direct_ok :: "client_env \<Rightarrow> client_bounds \<Rightarrow> string \<Rightarrow> bytes \<Rightarrow> bool" where
  "direct_ok E K peer frame \<longleftrightarrow>
     (\<exists>i npub. frame = message_json (ce_nostr E) (ce_wire E) (FWant i) \<and> ce_from_npub E npub = Some peer \<and> cb_announced K i npub) \<or>
     (\<exists>key fs. frame = message_json (ce_nostr E) (ce_wire E) (FReq key fs) \<and> list_all (role_filter (ce_roles E) (cb_role K)) fs)"

text \<open>What a step may add to the two.\<close>

definition step_bounds :: "client_env \<Rightarrow> client_bounds \<Rightarrow> client_op \<Rightarrow> bool" where
  "step_bounds E K op \<longleftrightarrow>
     (\<forall>peer frame ids i kind payload_bytes hop_limit. op = FrameFrom peer frame \<longrightarrow>
        decode_frame (ce_nostr E) (ce_wire E) (cb_codec K) frame = Inr (FInv ids i kind payload_bytes hop_limit) \<longrightarrow> cb_announced K i peer) \<and>
     (\<forall>w timeout ls peer v. op = AnonymousPublish w timeout (Inr ls) \<longrightarrow> private_envelope (as_event w) \<longrightarrow> peer \<in> ln_npub ` set ls \<longrightarrow>
        verify (ce_nostr E) (as_event v) \<longrightarrow> ev_id (as_event v) = ev_id (as_event w) \<longrightarrow> cb_published K v peer)"

section \<open>Steps\<close>

lemma step_env_fields [simp]:
  "ce_nostr (step_env E cx) = ce_nostr E" "ce_wire (step_env E cx) = ce_wire E" "ce_roles (step_env E cx) = ce_roles E" "ce_json (step_env E cx) = ce_json E"
  "ce_from_npub (step_env E cx) = ce_from_npub E"
  by (simp_all add: step_env_def)

lemma sound_step_env [simp]: "sound (step_env E cx) A K F s = sound E A K F s"
  by (simp add: sound_def fits_def frame_ok_def sub_sound_def sendable_def)

lemma direct_step_env [simp]: "direct_ok (step_env E cx) K peer f = direct_ok E K peer f" "step_bounds (step_env E cx) K op = step_bounds E K op"
  by (simp_all add: direct_ok_def step_bounds_def)

lemma retry_direct:
  assumes "sound E A K F s" and "(p, f) \<in> set (fst (retry_pending_frames E now s))"
  shows "direct_ok E K p f"
proof -
  obtain key pr after s2 where r: "(key, pr) \<in> set (rb_retries (fst (retry_due now after (cl_wants s))))" "retry_frame E s2 (key, pr) = Some (p, f)"
    using assms(2) by (auto simp: retry_pending_frames_def Let_def List.map_filter_def case_prod_beta)
  then obtain i where i: "ce_from_npub E (ip_peer pr) = Some p" "from_hex (ce_nostr E) key = Some i" "f = message_json (ce_nostr E) (ce_wire E) (FWant i)"
    by (auto simp: retry_frame_def split: option.splits sum.splits dest!: encoded)
  have "cb_announced K i (ip_peer pr)" using wants_retried(2)[OF soundD(7)[OF assms(1)] r(1) i(2)] .
  then show ?thesis using i unfolding direct_ok_def by blast
qed

lemma replay_direct:
  assumes "sound E A K F s" and "f \<in> set (fst (replay_frames_for_peer E npub s))"
  shows "direct_ok E K npub f"
proof -
  obtain key active where a: "(key, active) \<in> set (cl_subscriptions s)" "encode E s (FReq key (as_filters active)) = Inr f"
    using assms(2) by (auto simp: replay_frames_for_peer_def List.map_filter_def split: sum.splits)
  have "list_all (role_filter (ce_roles E) (cb_role K)) (as_filters active)"
    using soundD(4)[OF assms(1) a(1)] soundD(8)[OF assms(1)] by (auto simp: sub_sound_def intro: validate_filters_role)
  then show ?thesis using encoded[OF a(2)] unfolding direct_ok_def by blast
qed

lemma step_sound:
  assumes s: "sound E A K F s" and st: "client_step E now op s = Some (s', frames, events)"
    and law: "hex_sound (ce_nostr E)" "limit_law (ce_roles E)" and intro: "\<And>v. introduces E (cl_codec s) op v \<Longrightarrow> A v" and bounds: "step_bounds E K op"
  shows "(sound E A K F s' \<or> sound E A K (F @ [opened_filters op s]) s') \<and> (\<forall>(p, f)\<in>set frames. direct_ok E K p f) \<and>
    (\<forall>q\<in>set events. read_handle op < length F \<and> fits E A (F ! read_handle op) q)"
proof (cases op)
  case (FrameFrom peer frame)
  have ann: "cb_announced K i peer" if "decode_frame (ce_nostr E) (ce_wire E) (cl_codec s) frame = Inr (FInv ids i kind bytes hop)" for ids i kind bytes hop
    using bounds that FrameFrom soundD(9)[OF s] unfolding step_bounds_def by metis
  have "introduces E (cl_codec s) op v" if "decode_frame (ce_nostr E) (ce_wire E) (cl_codec s) frame = Inr (FEvent i v)"
    "event_is_admitted E v (es_fips_endpoint peer)" for i v using that FrameFrom by auto
  then show ?thesis using st FrameFrom sound_handle_frame[OF _ law(1) s _ ann] intro by auto
next
  case (AnonymousPublish v timeout links)
  have "sound E A K F (snd (anonymous_publish E v timeout links s))"
    by (rule sound_anonymous_publish[OF law(1) s]) (use bounds AnonymousPublish in \<open>auto simp: step_bounds_def\<close>)
  then show ?thesis using st AnonymousPublish by auto
next
  case (Subscribe fs replay links)
  then obtain r where "client_subscribe E fs replay links s = Some (r, s')" "frames = []" "events = []" using st by auto
  then show ?thesis using sound_subscribe[OF _ law s] Subscribe unfolding opened_filters.simps Subscribe by simp
next
  case (TryRecv h)
  then show ?thesis using st s sound_try_recv[OF s, of h] soundD(2)[OF s] by (auto split: if_splits prod.splits sum.splits)
next
  case (PublishEvent v src)
  then show ?thesis using st sound_publish[where A = A, OF _ law(1) _ s] intro by auto
next
  case (ServeReplay report)
  have "\<forall>q\<in>set report. event_is_admitted E (qe_event q) (qe_source q) \<longrightarrow> A (qe_event q)" using intro ServeReplay by auto
  then show ?thesis using ServeReplay st sound_serve[OF law(1) s] by auto
next
  case (PeerConnected npub inbound)
  let ?s = "reset_peer_epoch npub now s"
  have 1: "sound E A K F ?s" using s by (rule sound_reset)
  then show ?thesis using PeerConnected st replay_direct[OF 1, of _ npub] sound_peers[OF 1, of "List.insert npub"]
    by (auto simp: Let_def replay_frames_for_peer_def split: if_splits)
next
  case (StreamAdopted npub)
  then show ?thesis using st replay_direct[OF s, of _ npub] sound_peers[OF s, of "List.insert npub"]
    by (auto simp: replay_frames_for_peer_def)
next
  case RetryWants
  then show ?thesis using st sound_retry_pending_frames[OF s, of now] retry_direct[OF s, of _ _ now] by (auto split: prod.splits)
next
  case TransportTurn
  have "set (tl (cl_transport s)) \<subseteq> set (cl_transport s)" by (cases "cl_transport s") auto
  then have "sound E A K F (s\<lparr>cl_transport := tl (cl_transport s)\<rparr>)" using s unfolding sound_def by auto
  then show ?thesis using TransportTurn st by auto
next
  case (CloseSubscription key h)
  then show ?thesis using st s by (auto simp: client_close_def intro!: sound_drop_receiver sound_close_subscription)
next
  case (SetReplaySource source)
  then show ?thesis using st s by (auto simp: set_replay_source_def split: option.splits if_splits)
qed (use st s in \<open>auto simp: sound_close_all peer_is_in_cooldown_def intro: sound_forget_peer_state\<close>)

section \<open>Runs\<close>

definition node_sound :: "client_env \<Rightarrow> (verified_event \<Rightarrow> bool) \<Rightarrow> client_bounds \<Rightarrow> client_node \<Rightarrow> bool" where
  "node_sound E A K nd \<longleftrightarrow> sound E A K (nd_filters nd) (nd_client nd) \<and> (\<forall>(p, f)\<in>set (nd_direct nd). direct_ok E K p f) \<and>
     (\<forall>(h, q)\<in>set (nd_received nd). h < length (nd_filters nd) \<and> fits E A (nd_filters nd ! h) q)"

lemma node_step_sound:
  assumes n: "node_sound E A K nd" and st: "node_step E cx nd = Some nd'" and law: "hex_sound (ce_nostr E)" "limit_law (ce_roles E)"
    and intro: "\<And>v. introduces (step_env E cx) (cb_codec K) (sx_op cx) v \<Longrightarrow> A v" and bounds: "step_bounds E K (sx_op cx)"
  shows "node_sound E A K nd'"
proof -
  let ?s = "nd_client nd" and ?F = "nd_filters nd" and ?op = "sx_op cx"
  obtain s' frames events where e: "client_step (step_env E cx) (sx_now cx) ?op ?s = Some (s', frames, events)"
    and nd': "nd' = \<lparr>nd_client = s', nd_filters = ?F @ (if length (cl_deliveries ?s) < length (cl_deliveries s') then [opened_filters ?op ?s] else []),
      nd_direct = nd_direct nd @ frames, nd_received = nd_received nd @ map (Pair (read_handle ?op)) events\<rparr>"
    using st by (auto simp: node_step_def Let_def)
  have s: "sound (step_env E cx) A K ?F ?s" using n by (simp add: node_sound_def)
  from step_sound[OF s e] law intro bounds soundD(9)[OF s] have r: "sound E A K ?F s' \<or> sound E A K (?F @ [opened_filters ?op ?s]) s'"
    "\<forall>(p, f)\<in>set frames. direct_ok E K p f" "\<forall>q\<in>set events. read_handle ?op < length ?F \<and> fits (step_env E cx) A (?F ! read_handle ?op) q"
    by simp_all
  have "sound E A K (nd_filters nd') s'" using r(1) soundD(2)[OF s] soundD(2)[of E A K _ s'] by (auto simp: nd')
  moreover have "\<forall>q\<in>set events. read_handle ?op < length ?F \<and> fits E A (?F ! read_handle ?op) q" using r(3) by (simp add: fits_def)
  ultimately show ?thesis using n r(2) by (auto simp: node_sound_def nd' nth_append)
qed

lemma node_run_sound:
  assumes "hex_sound (ce_nostr E)" "limit_law (ce_roles E)"
  shows "node_sound E A K nd \<Longrightarrow> node_run E cxs nd = Some nd' \<Longrightarrow>
    \<forall>cx\<in>set cxs. step_bounds E K (sx_op cx) \<and> (\<forall>v. introduces (step_env E cx) (cb_codec K) (sx_op cx) v \<longrightarrow> A v) \<Longrightarrow> node_sound E A K nd'"
  by (induction cxs arbitrary: nd) (auto split: option.splits intro: node_step_sound[OF _ _ assms])

lemma introduces_verified:
  "introduces (step_env E cx) codec op v \<Longrightarrow> op_verified (ce_nostr E) op \<Longrightarrow> verify (ce_nostr E) (as_event v)"
  by (cases op) (auto dest!: decode_frame_ok)

abbreviation the_codec :: "client_options \<Rightarrow> wire_codec" where
  "the_codec o1 \<equiv> \<lparr>max_frame_bytes = op_max_frame_bytes o1\<rparr>"

abbreviation start_bounds :: "client_options \<Rightarrow> client_role \<Rightarrow> (verified_event \<Rightarrow> string \<Rightarrow> bool) \<Rightarrow> (event_id \<Rightarrow> string \<Rightarrow> bool) \<Rightarrow> client_bounds" where
  "start_bounds o1 role P W \<equiv> \<lparr>cb_role = role, cb_codec = the_codec o1, cb_options = o1, cb_published = P, cb_announced = W\<rparr>"

lemma node_start_sound: "node_sound E A (start_bounds o1 role P W) (node_start o1 role)"
  by (simp add: node_sound_def node_start_def sound_def client_state_def recent_new_def publications_ok_def wants_ok_def wants_from_options_def pw_new_def)

lemma run_sound:
  assumes "hex_sound (ce_nostr E)" "limit_law (ce_roles E)" "\<forall>cx\<in>set cxs. op_verified (ce_nostr E) (sx_op cx)"
    "node_run E cxs (node_start o1 role) = Some nd" "\<forall>cx\<in>set cxs. step_bounds E (start_bounds o1 role P W) (sx_op cx)"
  shows "node_sound E (introduced E (the_codec o1) cxs) (start_bounds o1 role P W) nd"
proof (rule node_run_sound[OF assms(1,2) node_start_sound assms(4)])
  show "\<forall>cx\<in>set cxs. step_bounds E (start_bounds o1 role P W) (sx_op cx) \<and>
      (\<forall>v. introduces (step_env E cx) (cb_codec (start_bounds o1 role P W)) (sx_op cx) v \<longrightarrow> introduced E (the_codec o1) cxs v)"
    using assms(3,5) introduces_verified by (auto simp: introduced_def)
qed

lemma run_bounds:
  assumes "id_hash_law (ce_nostr E)" and "\<forall>cx\<in>set cxs. op_verified (ce_nostr E) (sx_op cx)" and "cx \<in> set cxs"
  shows "step_bounds E (start_bounds o1 role (published_to cxs) (announced_by E (the_codec o1) cxs)) (sx_op cx)"
proof -
  have "published_to cxs v peer" if "sx_op cx = AnonymousPublish w timeout (Inr ls)" "private_envelope (as_event w)" "peer \<in> ln_npub ` set ls"
    "verify (ce_nostr E) (as_event v)" "ev_id (as_event v) = ev_id (as_event w)" for w timeout ls peer v
  proof -
    have "op_verified (ce_nostr E) (sx_op cx)" using assms(2,3) by blast
    then have "as_event v = (as_event w)\<lparr>ev_sig := ev_sig (as_event v)\<rparr>" using assms(1) that by (auto simp: id_hash_law_def)
    with that assms(3) show ?thesis unfolding published_to_def by blast
  qed
  moreover have "announced_by E (the_codec o1) cxs i peer" if "sx_op cx = FrameFrom peer frame"
    "decode_frame (ce_nostr E) (ce_wire E) (the_codec o1) frame = Inr (FInv ids i kind bytes hop)" for peer frame ids i kind bytes hop
    using that assms(3) unfolding announced_by_def by blast
  ultimately show ?thesis unfolding step_bounds_def by (intro conjI allI impI) simp_all
qed

text \<open>
  C4: whatever frames peers send and however the application and the background tasks interleave with them, every event an application reads from a subscription
  has a valid signature, matches the filters the subscription was opened with, and was introduced by a step of the run whose policy admitted
  it: it arrived in a frame from a peer, was published locally, or came from the application's own store. The same holds for every event in the replay cache.
\<close>

theorem client_delivers_admitted:
  assumes "hex_sound (ce_nostr E)" and "limit_law (ce_roles E)" and "\<forall>cx\<in>set cxs. op_verified (ce_nostr E) (sx_op cx)"
    and "node_run E cxs (node_start o1 role) = Some nd"
  shows "(\<forall>(h, q)\<in>set (nd_received nd). h < length (nd_filters nd) \<and> verify (ce_nostr E) (as_event (qe_event q)) \<and>
      subscription_filters_match (ce_nostr E) (nd_filters nd ! h) (as_event (qe_event q)) \<and> introduced E (the_codec o1) cxs (qe_event q)) \<and>
    (\<forall>c\<in>set (rv_entries (cl_recent (nd_client nd))). introduced E (the_codec o1) cxs (rc_event c))"
proof -
  have "step_bounds E (start_bounds o1 role (\<lambda>_ _. True) (\<lambda>_ _. True)) op" for op by (simp add: step_bounds_def)
  then have n: "node_sound E (introduced E (the_codec o1) cxs) (start_bounds o1 role (\<lambda>_ _. True) (\<lambda>_ _. True)) nd"
    using run_sound[OF assms] by blast
  have "subscription_filters_match lib fs (as_event v)" if "interest_from_filters lib fs v = Subscribed" for lib fs v
    using that by (simp add: interest_from_filters_def split: if_splits)
  moreover have "verify (ce_nostr E) (as_event v)" if "introduced E (the_codec o1) cxs v" for v using that by (simp add: introduced_def)
  ultimately show ?thesis using n soundD(1)[of E "introduced E (the_codec o1) cxs" _ "nd_filters nd" "nd_client nd"]
    unfolding node_sound_def fits_def by fast
qed

text \<open>
  C5: the privacy role binds every frame. In every reachable state a frame waiting for the transport is the text of a message, of a \<open>WANT\<close> only to a peer that announced the event
  in a frame of the run; and, unless the role is unrestricted, it is a \<open>CLOSE\<close> or decodes to a message the role may send to this peer: a receiver announces only admitted events and
  delivers only events of a non-private kind by one of its public authors; a discovery client sends no event at all and no announcement; a publisher sends an event only without a
  subscription identifier, and only one that was, up to its signature, handed to a publication of the run with this peer among its providers, a private envelope with exactly one
  recipient; and the filters of a subscription request are the one for peer advertisements or, for a receiver, name only public authors (for private kinds: some author or recipient), for a
  discovery client, its single subject and allowed kinds, for a publisher none. The frames that bypass the queue are requests to peers that announced
  the event and the client's own subscriptions, under the same condition on filters.
\<close>

theorem client_role_binds:
  assumes "hex_sound (ce_nostr E)" and "limit_law (ce_roles E)" and "id_hash_law (ce_nostr E)" and "\<forall>cx\<in>set cxs. op_verified (ce_nostr E) (sx_op cx)"
    and "node_run E cxs (node_start o1 role) = Some nd"
  shows "(\<forall>p f. TSend p f \<in> set (cl_transport (nd_client nd)) \<longrightarrow>
      (\<exists>m. f = message_json (ce_nostr E) (ce_wire E) m \<and> (\<forall>i. m = FWant i \<longrightarrow> announced_by E (the_codec o1) cxs i p)) \<and>
      (role = RoleFull \<or> (\<exists>key. f = message_json (ce_nostr E) (ce_wire E) (FClose key)) \<or>
       (\<exists>m. decode_frame (ce_nostr E) (ce_wire E) (the_codec o1) f = Inr m \<and>
          role_message (ce_roles E) role (introduced E (the_codec o1) cxs) (published_to cxs) p m))) \<and>
    (\<forall>(p, f)\<in>set (nd_direct nd).
      (\<exists>i npub. f = message_json (ce_nostr E) (ce_wire E) (FWant i) \<and> ce_from_npub E npub = Some p \<and> announced_by E (the_codec o1) cxs i npub) \<or>
      (\<exists>key fs. f = message_json (ce_nostr E) (ce_wire E) (FReq key fs) \<and> list_all (role_filter (ce_roles E) role) fs))"
proof -
  let ?K = "start_bounds o1 role (published_to cxs) (announced_by E (the_codec o1) cxs)"
  have n: "node_sound E (introduced E (the_codec o1) cxs) ?K nd"
    using run_sound[OF assms(1,2,4,5)] run_bounds[OF assms(3,4)] by blast
  have "frame_ok E (introduced E (the_codec o1) cxs) ?K p f" if "TSend p f \<in> set (cl_transport (nd_client nd))" for p f
    using n that unfolding node_sound_def sound_def by blast
  moreover have "\<forall>(p, f)\<in>set (nd_direct nd). direct_ok E ?K p f" using n by (simp add: node_sound_def)
  ultimately show ?thesis unfolding frame_ok_def direct_ok_def sendable_def by simp
qed

end
