(* ===== verification/Client_Total.thy ===== *)
theory Client_Total
  imports Client_Runs
begin

text \<open>
  A FIPS client never panics, and its tables stay bounded: the subscription store's accounting and the scoped observations keep their invariants through every step,
  the selection of peers finds every identity it looks up, and every queue stays within its capacity.
\<close>

section \<open>Selection of peers\<close>

lemma take_ids_total: "distinct ks \<Longrightarrow> set ks \<subseteq> keys m \<Longrightarrow> take_ids ks m \<noteq> None"
proof (induction ks arbitrary: m)
  case (Cons k ks)
  then have "k \<in> keys m" by simp
  then obtain i where i: "hm_get m k = Some i" by (rule hm_keysE)
  have "take_ids ks (hm_remove k m) \<noteq> None" using Cons.prems by (intro Cons.IH) auto
  then show ?case by (simp add: i)
qed simp

lemma candidates_authenticated:
  "policy_candidates policy (Some hash) ids = Inr cs \<Longrightarrow> mp_id ` set cs \<subseteq> keys (authenticated_ids policy hash ids)"
proof (induction ids arbitrary: cs)
  case (Cons i ids)
  then show ?case by (cases "policy_candidates policy (Some hash) ids") (auto split: sum.splits option.splits, blast)
qed simp

lemma select_policy_total: "select_policy_peers policy ids capacity reserve lv \<noteq> None"
proof (cases "policy_candidates policy lv ids")
  case (Inr cs)
  show ?thesis
  proof (cases lv)
    case (Some hash)
    let ?sel = "select_mesh_peers cs None capacity reserve"
    have "mp_id ` set ?sel \<subseteq> mp_id ` set cs" using select_subset peer_candidates_props(2)[of cs None] by fast
    then have "set (map mp_id ?sel) \<subseteq> keys (authenticated_ids policy hash ids)"
      using candidates_authenticated[of policy hash ids cs] Inr Some by auto
    then have "take_ids (map mp_id ?sel) (authenticated_ids policy hash ids) \<noteq> None" by (intro take_ids_total select_ids_distinct)
    then show ?thesis using Inr Some by (auto simp: select_policy_peers_def Let_def)
  qed (use Inr in \<open>simp add: select_policy_peers_def\<close>)
qed (simp add: select_policy_peers_def)

lemma targets_total: "peer_delivery_targets E v excluded s \<noteq> None"
  using select_policy_total by (auto simp: peer_delivery_targets_def delivery_targets_def Let_def split: option.split)

section \<open>Observations\<close>

definition seen_fit :: "nat \<Rightarrow> seen_ids \<Rightarrow> bool" where
  "seen_fit n o1 \<longleftrightarrow> si_ok o1 \<and> si_max_per_scope o1 = FIPS_NOSTR_PUBSUB_MAX_OBSERVED_IDS_PER_SCOPE \<and>
     si_max_total o1 = FIPS_NOSTR_PUBSUB_MAX_OBSERVED_IDS \<and> unat (si_next_generation o1) \<le> 1 + n"

lemma seen_fit_observe:
  assumes "seen_fit n o1" and "n + 2 < 2 ^ 64"
  shows "\<exists>r o2. observe_with_match p sub i m o1 = Some (r, o2) \<and> seen_fit (n + 1) o2"
proof -
  have "si_next_generation o1 \<noteq> - 1" using assms by (auto simp: seen_fit_def unsigned_minus_1_eq_mask mask_eq_exp_minus_1)
  from si_observe_ok[OF _ _ this, of p sub i m] assms(1) show ?thesis
    by (auto simp: seen_fit_def FIPS_NOSTR_PUBSUB_MAX_OBSERVED_IDS_PER_SCOPE_def)
qed

lemma seen_fit_mono: "seen_fit n o1 \<Longrightarrow> n \<le> k \<Longrightarrow> seen_fit k o1"
  by (simp add: seen_fit_def)

lemma seen_fit_observe_each:
  "seen_fit n o1 \<Longrightarrow> n + length ids + 2 < 2 ^ 64 \<Longrightarrow> \<exists>r o2. observe_each p e ids o1 = Some (r, o2) \<and> seen_fit (n + length ids) o2"
proof (induction ids arbitrary: n o1)
  case (Cons i ids)
  then obtain r o2 where 1: "observe_with_match p i e False o1 = Some (r, o2)" "seen_fit (n + 1) o2" using seen_fit_observe[of n o1 p i e False] by auto
  then obtain r' o3 where "observe_each p e ids o2 = Some (r', o3)" "seen_fit (n + 1 + length ids) o3" using Cons.IH[of "n + 1" o2] Cons.prems(2) by auto
  then show ?case using 1 by (auto simp: observe_def)
qed simp

lemma seen_fit_response:
  assumes "seen_fit n o1" and "n + 3 < 2 ^ 64"
  shows "\<exists>r o2. observe_response p wire sub i m o1 = Some (r, o2) \<and> seen_fit (n + 2) o2"
proof (cases "\<exists>w. wire = Some w \<and> w \<noteq> sub")
  case True
  then obtain w where w: "wire = Some w" "w \<noteq> sub" by blast
  obtain r o2 where 1: "observe_with_match p w i m o1 = Some (r, o2)" "seen_fit (n + 1) o2" using seen_fit_observe[of n o1 p w i m] assms by auto
  then show ?thesis using seen_fit_observe[of "n + 1" o2 p sub i m] assms(2) w by (auto simp: observe_response_def)
next
  case False
  then show ?thesis using seen_fit_observe[of n o1 p sub i m] assms seen_fit_mono[of "n + 1" _ "n + 2"]
    by (cases wire) (auto simp: observe_response_def)
qed

lemma seen_fit_clear [simp]:
  "seen_fit n o1 \<Longrightarrow> seen_fit n (clear_peer p o1)" "seen_fit n o1 \<Longrightarrow> seen_fit n (clear_subscription i o1)"
  using clear_scopes_ok[of o1] by (auto simp: seen_fit_def clear_peer_def clear_subscription_def)

section \<open>The invariant\<close>

definition fit :: "client_env \<Rightarrow> client_options \<Rightarrow> nat \<Rightarrow> client \<Rightarrow> bool" where
  "fit E o1 n s \<longleftrightarrow>
     cl_options s = o1 \<and> store_ok (ce_json E) (cl_peer_subscriptions s) \<and> st_limits (cl_peer_subscriptions s) = subscription_limits o1 \<and>
     seen_fit n (cl_observed_inventories s) \<and> seen_fit n (cl_observed_full_events s) \<and>
     length (cl_subscriptions s) \<le> op_max_active_subscriptions o1 + 1 \<and>
     cl_transport_capacity s = command_capacity o1 \<and> length (cl_transport s) \<le> cl_transport_capacity s \<and>
     cl_replay_capacity s = replay_capacity o1 \<and> length (cl_replay s) \<le> cl_replay_capacity s \<and>
     rv_max_payload_events (cl_recent s) = op_max_replay_events o1 \<and> length (rv_entries (cl_recent s)) \<le> op_max_replay_events o1"

lemma fit_other [simp]:
  "fit E o1 n (s\<lparr>cl_open := b\<rparr>) = fit E o1 n s" "fit E o1 n (s\<lparr>cl_replies := rs\<rparr>) = fit E o1 n s"
  "fit E o1 n (s\<lparr>cl_publications := ps\<rparr>) = fit E o1 n s" "fit E o1 n (s\<lparr>cl_replay_source := src\<rparr>) = fit E o1 n s"
  "fit E o1 n (s\<lparr>cl_counters := c\<rparr>) = fit E o1 n s" "fit E o1 n (s\<lparr>cl_next_subscription_id := i\<rparr>) = fit E o1 n s"
  "fit E o1 n (s\<lparr>cl_deliveries := ds\<rparr>) = fit E o1 n s" "fit E o1 n (s\<lparr>cl_behavior := pb\<rparr>) = fit E o1 n s"
  "fit E o1 n (s\<lparr>cl_wants := w\<rparr>) = fit E o1 n s"
  by (simp_all add: fit_def)

lemma fit_mono: "fit E o1 n s \<Longrightarrow> n \<le> k \<Longrightarrow> fit E o1 k s"
  by (auto simp: fit_def intro: seen_fit_mono)

lemma fit_store:
  assumes "fit E o1 n s" and "store_ok (ce_json E) st" and "st_limits st = st_limits (cl_peer_subscriptions s)"
  shows "fit E o1 n (s\<lparr>cl_peer_subscriptions := st\<rparr>)"
  using assms by (simp add: fit_def)

lemma fit_recent:
  assumes "fit E o1 n s" and "rv_max_payload_events r = rv_max_payload_events (cl_recent s)"
    and "length (rv_entries r) \<le> max (length (rv_entries (cl_recent s))) (rv_max_payload_events (cl_recent s))"
  shows "fit E o1 n (s\<lparr>cl_recent := r\<rparr>)"
  using assms by (auto simp: fit_def)

lemma recent_insert_size:
  "rv_max_payload_events (snd (recent_insert lib v src hop r)) = rv_max_payload_events r"
  "length (rv_entries (snd (recent_insert lib v src hop r))) \<le> max (length (rv_entries r)) (rv_max_payload_events r)"
  by (auto simp: recent_insert_def Let_def split: prod.split)

lemma recent_publish_size:
  "rv_max_payload_events (snd (recent_insert_for_publish lib v src hop r)) = rv_max_payload_events r"
  "length (rv_entries (snd (recent_insert_for_publish lib v src hop r))) \<le> max (length (rv_entries r)) (rv_max_payload_events r)"
  using recent_insert_size(2)[of lib v src hop "r\<lparr>rv_event_ids := i, rv_event_id_order := q\<rparr>" for i q] recent_insert_size(2)[of lib v src hop r]
  by (auto simp: recent_insert_for_publish_def Let_def recent_insert_size(1))

section \<open>Sending and delivering\<close>

lemma fit_try_send: "fit E o1 n s \<Longrightarrow> fit E o1 n (snd (transport_try_send c s))"
  by (simp add: fit_def transport_try_send_def)

lemma fit_send_frame: "fit E o1 n s \<Longrightarrow> fit E o1 n (snd (send_frame E' peer frame s))"
  using fit_try_send[of E o1 n s "TSend peer frame"] by (auto simp: send_frame_def split: option.split prod.split bool.split)

lemma fit_send_message: "fit E o1 n s \<Longrightarrow> fit E o1 n (send_message E' peer m s)"
  by (auto simp: send_message_def fit_send_frame split: sum.split)

lemma fit_violation: "fit E o1 n s \<Longrightarrow> fit E o1 n (record_provider_violation peer violation now s)"
  using fit_try_send[of E o1 n "s\<lparr>cl_behavior := b\<rparr>" "TCooldown peer" for b]
  by (auto simp: record_provider_violation_def Let_def split: prod.split bool.split) (metis snd_conv)+

lemma fit_inventory_frame: "fit E o1 n s \<Longrightarrow> fit E o1 n (snd (inventory_frame E' ids v hop s))"
  using fit_recent[OF _ recent_publish_size] by (auto simp: inventory_frame_def Let_def split: client_role.split sum.split)

lemma fit_send_each_inventory: "fit E o1 n s \<Longrightarrow> fit E o1 n (snd (send_each_inventory E' v hop targets s))"
proof (induction targets arbitrary: s)
  case (Cons t targets)
  obtain npub ids where t: "t = (npub, ids)" by force
  obtain r s1 where i: "inventory_frame E' ids v hop s = (r, s1)" by force
  then have 1: "fit E o1 n s1" using fit_inventory_frame[OF Cons.prems, of E' ids v hop] by simp
  then show ?case using Cons fit_send_frame[OF 1] by (auto simp: t i split: option.split sum.split prod.split) (metis snd_conv)+
qed simp

lemma fit_send_inventories: "fit E o1 n s \<Longrightarrow> fit E o1 n (snd (send_inventories E' targets v hop s))"
  by (simp add: send_inventories_def fit_send_each_inventory)

lemma fit_deliver_local: "fit E o1 n s \<Longrightarrow> fit E o1 n (snd (deliver_local E' h v src s))"
  by (simp add: deliver_local_def split: prod.split)

lemma fit_send_close: "fit E o1 n s \<Longrightarrow> fit E o1 n (send_close E' key peers s)"
proof -
  have "fit E o1 n s \<Longrightarrow> fit E o1 n (send_each_close E' frame peers s)" for frame
    by (induction peers arbitrary: s) (auto simp: fit_try_send split: option.split)
  then show "fit E o1 n s \<Longrightarrow> fit E o1 n (send_close E' key peers s)" by (simp add: send_close_def split: sum.split)
qed

lemma fit_close_subscription:
  assumes "fit E o1 n s"
  shows "fit E o1 n (close_subscription E' key s)"
proof -
  have "fit E o1 n ((update_delivery h dl_close (s\<lparr>cl_subscriptions := hm_remove key (cl_subscriptions s)\<rparr>))\<lparr>cl_wants := w,
      cl_observed_inventories := clear_subscription key (cl_observed_inventories s)\<rparr>)" for h w
    using assms length_hm_remove_le[of key "cl_subscriptions s"] by (simp add: fit_def update_delivery_def)
  moreover have "cl_observed_inventories (update_delivery h f t) = cl_observed_inventories t" for h f t by (simp add: update_delivery_def)
  ultimately show ?thesis using assms by (auto simp: close_subscription_def Let_def split: option.split intro!: fit_send_close)
qed

lemma fit_close_fold: "fit E o1 n s \<Longrightarrow> fit E o1 n (fold (close_subscription E') ks s)"
  by (induction ks arbitrary: s) (simp_all add: fit_close_subscription)

lemma fit_deliver_local_event:
  assumes "fit E o1 n s"
  shows "fit E o1 n (snd (deliver_local_event E' npub v s))"
proof -
  have "fit E o1 n t \<Longrightarrow> fit E o1 n (snd (snd (deliver_each E' npub v subs t)))" for subs t
  proof (induction subs arbitrary: t)
    case (Cons x subs)
    obtain key active where x: "x = (key, active)" by force
    show ?case using Cons fit_deliver_local[OF Cons.prems, of E' "as_delivery active" v "es_fips_endpoint npub"]
      by (auto simp: x split: prod.split) (metis snd_conv)
  qed simp
  from this[OF assms] show ?thesis by (auto simp: deliver_local_event_def split: prod.split intro!: fit_close_fold) (metis snd_conv)
qed

lemma fit_replay_local_events:
  assumes "fit E o1 n s"
  shows "fit E o1 n (replay_local_events E' key s)"
proof -
  have "fit E o1 n t \<Longrightarrow> fit E o1 n (replay_each E' active cs t)" for active cs t
    by (induction cs arbitrary: t) (simp_all add: fit_deliver_local)
  then show ?thesis using assms by (auto simp: replay_local_events_def Let_def split: option.split intro!: fit_close_subscription)
qed

lemma fit_deliver_fresh: "fit E o1 n s \<Longrightarrow> fit E o1 n (snd (deliver_fresh E' npub v ids s))"
proof (induction ids arbitrary: s)
  case (Cons i ids)
  then show ?case using fit_deliver_local[OF Cons.prems, of E' _ v "es_fips_endpoint npub"]
    by (auto split: option.split prod.split) (metis snd_conv)
qed simp

section \<open>Handlers\<close>

lemma fit_accept_inventory:
  assumes "fit E o1 n s" and "n + op_max_active_subscriptions o1 + 3 < 2 ^ 64"
  shows "\<exists>r s'. accept_inventory E' npub inv1 now s = Some (r, s') \<and> fit E o1 (n + op_max_active_subscriptions o1 + 1) s'"
proof (cases "length (ad_subscriptions inv1) > op_max_active_subscriptions (cl_options s) + 1")
  case True
  then show ?thesis using assms by (auto simp: accept_inventory_def intro: fit_mono)
next
  case False
  let ?ids = "candidate_subscriptions E' npub inv1 s" and ?k = "to_hex (ce_nostr E') (ad_event_id inv1)"
  have "length ?ids \<le> length (ad_subscriptions inv1)" by (simp add: candidate_subscriptions_def Let_def)
  then have len: "length ?ids \<le> op_max_active_subscriptions o1 + 1" using False assms(1) by (simp add: fit_def)
  then have "n + length ?ids + 2 < 2 ^ 64" using assms(2) by simp
  then obtain r o2 where o: "observe_each npub ?k ?ids (cl_observed_inventories s) = Some (r, o2)" "seen_fit (n + length ?ids) o2"
    using seen_fit_observe_each[of n "cl_observed_inventories s" ?ids npub ?k] assms(1) by (auto simp: fit_def)
  have "seen_fit (n + op_max_active_subscriptions o1 + 1) o2" using o(2) len by (auto intro: seen_fit_mono)
  then have f: "fit E o1 (n + op_max_active_subscriptions o1 + 1) (s\<lparr>cl_observed_inventories := o2\<rparr>)"
    using fit_mono[OF assms(1), of "n + op_max_active_subscriptions o1 + 1"] by (simp add: fit_def)
  show ?thesis using False o(1) f by (auto simp: accept_inventory_def Let_def split: prod.split)
qed

lemma fit_handle_inv:
  assumes "fit E o1 n s" and "n + op_max_active_subscriptions o1 + 3 < 2 ^ 64"
  shows "\<exists>s'. handle_inv E' npub inv1 now s = Some s' \<and> fit E o1 (n + op_max_active_subscriptions o1 + 1) s'"
proof -
  let ?n = "n + op_max_active_subscriptions o1 + 1"
  define s1 where "s1 = count_event (\<lambda>c. c\<lparr>n_inv := n_inv c + 1\<rparr>) s"
  have 0: "fit E o1 n s1" using assms(1) by (simp add: s1_def)
  then have 1: "fit E o1 ?n s1" by (rule fit_mono) simp
  obtain r s2 where a: "accept_inventory E' npub inv1 now s1 = Some (r, s2)" "fit E o1 ?n s2" using fit_accept_inventory[OF 0 assms(2)] by blast
  have "fit E o1 ?n (snd (send_frame E' npub frame s2))" for frame by (rule fit_send_frame[OF a(2)])
  moreover have "fit E o1 ?n (snd (deliver_fresh E' npub v ids s1))" for v ids by (rule fit_deliver_fresh[OF 1])
  ultimately show ?thesis using 1 a unfolding handle_inv_def Let_def s1_def[symmetric]
    by (auto split: option.split prod.split sum.split intro!: fit_close_fold) (metis snd_conv)+
qed

lemma fit_announce: "fit E o1 n s \<Longrightarrow> \<exists>s'. announce E' v hop excluded s = Some s' \<and> fit E o1 n s'"
  using targets_total[of E' v "Some excluded" s] by (auto simp: announce_def fit_send_inventories split: option.split sum.split)

lemma fit_remember_event: "fit E o1 n s \<Longrightarrow> fit E o1 n (snd (remember_event E' v src hop s))"
  using fit_recent[OF _ recent_insert_size] by (simp add: remember_event_def case_prod_beta)

lemma fit_handle_event:
  assumes "fit E o1 n s"
  shows "\<exists>s'. handle_event E' npub i v s = Some s' \<and> fit E o1 n s'"
proof -
  obtain hop s1 where 1: "(case i of Some i \<Rightarrow> (case complete_want E' npub i v s of (Inr (Some hop_limit), s1) \<Rightarrow> (hop_limit, s1) | (_, s1) \<Rightarrow> (0, s1))
      | None \<Rightarrow> (op_max_hops (cl_options s), s)) = (hop, s1)" by force
  have "fit E o1 n (snd (complete_want E' npub j v s))" for j
    using assms by (auto simp: complete_want_def split: sum.split option.split prod.split)
  then have s1: "fit E o1 n s1" using 1 assms by (auto split: option.splits prod.splits sum.splits) (metis snd_conv)+
  define s2 where "s2 = (if i \<noteq> None then count_event (\<lambda>c. c\<lparr>n_subscription_events := n_subscription_events c + 1\<rparr>) s1 else s1)"
  obtain d s3 where 3: "deliver_local_event E' npub v s2 = (d, s3)" by force
  have s3: "fit E o1 n s3" using fit_deliver_local_event[of E o1 n s2 E' npub v] s1 3 by (simp add: s2_def split: if_splits)
  obtain new s4 where 4: "remember_event E' v (es_fips_endpoint npub) hop s3 = (new, s4)" by force
  have s4: "fit E o1 n s4" using fit_remember_event[OF s3] 4 by (metis snd_conv)
  show ?thesis using s3 s4 fit_announce[OF s4] unfolding handle_event_def 1 Let_def s2_def[symmetric] prod.case by (auto simp: 3 4 split: bool.split)
qed

lemma fit_accept_publication:
  assumes "fit E o1 n s"
  shows "\<exists>s'. accept_publication E' peer v s = Some s' \<and> fit E o1 n s'"
proof -
  obtain new s1 where 1: "remember_event E' v (es_fips_endpoint peer) (op_max_hops (cl_options s)) (snd (deliver_local_event E' peer v s)) = (new, s1)" by force
  have "fit E o1 n s1" using fit_remember_event[OF fit_deliver_local_event[OF assms]] 1 by (metis snd_conv)
  then show ?thesis using assms fit_announce[of E o1 n s1 E' v "op_max_hops (cl_options s)" peer]
    by (auto simp: accept_publication_def Let_def 1 fit_send_message split: bool.split)
qed

lemma fit_handle_received_event:
  assumes "fit E o1 n s" and "n + 3 < 2 ^ 64"
  shows "\<exists>s'. handle_received_event E' peer i v now s = Some s' \<and> fit E o1 (n + 2) s'"
proof -
  define s1 where "s1 = count_event (\<lambda>c. c\<lparr>n_event := n_event c + 1\<rparr>) s"
  have 0: "fit E o1 n s1" using assms(1) by (simp add: s1_def)
  have 1: "fit E o1 (n + 2) s1" using fit_mono[OF 0] by simp
  have obs: "\<exists>r o2. observe_response peer wire sub k m (cl_observed_full_events s1) = Some (r, o2) \<and> fit E o1 (n + 2) (s1\<lparr>cl_observed_full_events := o2\<rparr>)" for wire sub k m
    using seen_fit_response[of n "cl_observed_full_events s1" peer wire sub k m] 0 1 assms(2) by (auto simp: fit_def)
  show ?thesis
  proof (cases "i = None \<and> op_accept_anonymous_publications (cl_options s1)")
    case True
    then show ?thesis using fit_accept_publication[OF 1] unfolding handle_received_event_def Let_def s1_def[symmetric] by simp
  next
    case False
    let ?sub = "event_matches_subscription E' peer i v s1"
    let ?fresh = "if ?sub \<and> i \<noteq> None then fresh_response_subscription E' peer v s1 else None"
    let ?id = "case ?fresh of Some i \<Rightarrow> Some i | None \<Rightarrow> i"
    obtain r o2 where o: "observe_response peer i (case ?id of None \<Rightarrow> [] | Some i \<Rightarrow> i) (event_text_key E' v) ?sub (cl_observed_full_events s1) = Some (r, o2)"
      "fit E o1 (n + 2) (s1\<lparr>cl_observed_full_events := o2\<rparr>)" using obs by blast
    show ?thesis using fit_handle_event[OF o(2)] fit_violation[OF o(2)] o(2) False
      unfolding handle_received_event_def Let_def s1_def[symmetric] o(1) by (simp only: if_False option.case prod.case) (simp split: if_split)
  qed
qed

lemma fit_queue_replay: "fit E o1 n s \<Longrightarrow> fit E o1 n (queue_replay peer query s)"
  by (auto simp: queue_replay_def fit_def split: option.split)

lemma fit_handle_req:
  assumes "fit E o1 n s"
  shows "\<exists>s'. handle_req E peer i filters s = Some s' \<and> fit E o1 n s'"
proof -
  have each: "fit E o1 n t \<Longrightarrow> fit E o1 n (snd (replay_inventories E peer i cs t))" for cs t
  proof (induction cs arbitrary: t)
    case (Cons c cs)
    obtain r s1 where f: "inventory_frame E [i] (rc_event c) (rc_hop_limit c) t = (r, s1)" by force
    then have 1: "fit E o1 n s1" using fit_inventory_frame[OF Cons.prems, of E "[i]" "rc_event c" "rc_hop_limit c"] by simp
    then show ?case using Cons.IH fit_send_frame[OF 1] by (cases r) (auto simp: f split: prod.split, (metis snd_conv)+)
  qed simp
  obtain res st where u: "upsert (ce_json E) peer \<lparr>sub_id = i, sub_filters = filters\<rparr> (cl_peer_subscriptions s) = Some (res, st)"
    "store_ok (ce_json E) st" "st_limits st = st_limits (cl_peer_subscriptions s)"
    using upsert_ok[of "ce_json E" "cl_peer_subscriptions s" peer "\<lparr>sub_id = i, sub_filters = filters\<rparr>"] assms by (auto simp: fit_def)
  have f: "fit E o1 n (s\<lparr>cl_peer_subscriptions := st\<rparr>)" by (rule fit_store[OF assms u(2,3)])
  show ?thesis using f each[OF f] by (cases res) (auto simp: handle_req_def u(1) Let_def split: prod.split intro!: fit_queue_replay, (metis snd_conv)+)
qed

lemma fit_handle_frame:
  assumes "fit E o1 n s" and "n + op_max_active_subscriptions o1 + 4 < 2 ^ 64"
  shows "\<exists>s'. handle_frame E peer frame now s = Some s' \<and> fit E o1 (n + op_max_active_subscriptions o1 + 3) s'"
proof -
  let ?n = "n + op_max_active_subscriptions o1 + 3"
  have counted: "fit E o1 n (s\<lparr>cl_counters := c\<rparr>)" for c using assms(1) by simp
  have up: "fit E o1 n t \<Longrightarrow> fit E o1 ?n t" for t by (erule fit_mono) simp
  show ?thesis
  proof (cases "decode_frame (ce_nostr E) (ce_wire E) (cl_codec s) frame")
    case (Inl err)
    then show ?thesis using up[OF fit_violation[OF assms(1)]] by (auto simp: handle_frame_def)
  next
    case (Inr m)
    show ?thesis
    proof (cases m)
      case (FReq i fs)
      then show ?thesis using Inr fit_handle_req[OF counted, of peer i fs] up by (fastforce simp: handle_frame_def)
    next
      case (FClose i)
      obtain removed st where "remove (ce_json E) peer i (cl_peer_subscriptions s) = Some (removed, st)" "store_ok (ce_json E) st"
        "st_limits st = st_limits (cl_peer_subscriptions s)" using remove_ok assms(1) unfolding fit_def by blast
      then show ?thesis using FClose Inr up[OF fit_store[OF counted]] by (auto simp: handle_frame_def handle_close_def)
    next
      case (FEvent i v)
      have "n + 3 < 2 ^ 64" using assms(2) by simp
      then obtain s' where "handle_received_event E peer i v now s = Some s'" "fit E o1 (n + 2) s'" using fit_handle_received_event[OF assms(1)] by blast
      moreover from this(2) have "fit E o1 ?n s'" by (rule fit_mono) simp
      ultimately show ?thesis using FEvent Inr by (simp add: handle_frame_def)
    next
      case (FInv ids i kind bytes hop)
      have "n + op_max_active_subscriptions o1 + 3 < 2 ^ 64" using assms(2) by simp
      from fit_handle_inv[OF assms(1) this] FInv Inr show ?thesis by (fastforce simp: handle_frame_def intro: fit_mono)
    next
      case (FWant i)
      then show ?thesis using Inr up[OF fit_queue_replay] up[OF fit_send_message] assms(1)
        by (auto simp: handle_frame_def handle_want_def split: option.split)
    next
      case (FOk i accepted message)
      then show ?thesis using Inr up[OF assms(1)] by (auto simp: handle_frame_def handle_publication_receipt_def Let_def split: option.split)
    qed
  qed
qed

section \<open>Steps\<close>

lemma fit_subscribe:
  assumes f: "fit E o1 n s" and pos: "\<not> channel_panics (op_max_replay_events o1)"
  shows "\<exists>r s'. client_subscribe E' fs replay links s = Some (r, s') \<and> fit E o1 n s'"
proof -
  define key where "key = ''fips-'' @ decimal (unat (cl_next_subscription_id s))"
  define s1 where "s1 = s\<lparr>cl_next_subscription_id := cl_next_subscription_id s + 1\<rparr>"
  have s1: "fit E o1 n s1" using f by (simp add: s1_def)
  have o: "cl_options s = o1" "cl_options s1 = o1" using f by (simp_all add: fit_def s1_def)
  have opened: "fit E o1 n (snd (open_subscription E' key gs replay ps s1))" if "length (cl_subscriptions s1) < op_max_active_subscriptions o1 + 1" for gs ps
  proof -
    have "fit E o1 n (s1\<lparr>cl_deliveries := ds, cl_subscriptions := hm_insert key a (cl_subscriptions s1)\<rparr>)" for ds a
      using s1 that by (simp add: fit_def length_hm_insert)
    then show ?thesis by (simp add: open_subscription_def Let_def fit_replay_local_events)
  qed
  have req: "fit E o1 n t \<Longrightarrow> fit E o1 n (snd (snd (send_each_req E' key frame peers t)))" for frame peers t
  proof (induction peers arbitrary: t)
    case (Cons p peers)
    obtain npub identity where p: "p = (npub, identity)" by force
    obtain r t1 where e: "send_frame E' identity frame t = (r, t1)" by force
    have 1: "fit E o1 n t1" using fit_send_frame[OF Cons.prems, of E' identity frame] e by simp
    have "fit E o1 n (t1\<lparr>cl_subscriptions := hm_insert key a (cl_subscriptions t1)\<rparr>)" if "hm_get (cl_subscriptions t1) key = Some b" for a b
      using 1 hm_get_in_keys[OF that] by (simp add: fit_def length_hm_insert)
    then show ?case using Cons.IH 1 by (cases r) (auto simp: p e Let_def split: prod.split option.split, (metis snd_conv)+)
  qed simp
  have last: "\<exists>r s'. (case open_subscription E' key gs replay (map fst peers) s1 of (h, s2) \<Rightarrow>
      (case send_each_req E' key frame peers s2 of (sent, last_error, s3) \<Rightarrow>
        if peers \<noteq> [] \<and> sent = 0
        then Some (Inl (case last_error of Some err \<Rightarrow> err | None \<Rightarrow> Storage ''no connected FIPS pubsub peers''), drop_receiver h (close_subscription E' key s3))
        else Some (Inr (key, h), s3))) = Some (r, s') \<and> fit E o1 n s'"
    if "length (cl_subscriptions s1) < op_max_active_subscriptions o1 + 1" for gs peers frame
  proof -
    obtain h s2 where e: "open_subscription E' key gs replay (map fst peers) s1 = (h, s2)" by force
    obtain k err s3 where q: "send_each_req E' key frame peers s2 = (k, err, s3)" using prod_cases3 by blast
    have "fit E o1 n s3" using req opened[OF that, of gs "map fst peers"] e q by (metis snd_conv)
    then show ?thesis using fit_close_subscription[of E o1 n s3 E' key] by (auto simp: e q drop_receiver_def)
  qed
  show ?thesis using f s1 last pos unfolding client_subscribe_def Let_def key_def[symmetric] s1_def[symmetric] o
    by (auto simp del: if_split simp: not_le split: option.split sum.split if_split)
qed

lemma fit_publish:
  assumes "fit E o1 n s"
  shows "\<exists>r s'. client_publish E' v src s = Some (r, s') \<and> fit E o1 n s'"
proof -
  have ins: "fit E o1 n (s\<lparr>cl_recent := snd (recent_insert_for_publish (ce_nostr E') v src hop (cl_recent s))\<rparr>)" for hop
    by (rule fit_recent[OF assms recent_publish_size])
  obtain t where t: "peer_delivery_targets E' v None s = Some t" using targets_total[of E' v None s] by blast
  show ?thesis using assms ins[of "op_max_hops (cl_options s)"] fit_send_inventories[OF ins, of E'] t
    unfolding client_publish_def Let_def
    by (cases t) (auto simp: case_prod_beta split: option.split sum.split)
qed

lemma fit_serve:
  assumes "fit E o1 n s"
  shows "fit E o1 n (serve E' report s)"
proof -
  have ev: "fit E o1 n t \<Longrightarrow> fit E o1 n (serve_event E' peer query v t)" for peer query v t
    using fit_inventory_frame[of E o1 n t E'] fit_send_frame[of E o1 n _ E']
    by (auto simp: serve_event_def Let_def fit_send_message split: replay_query.split list.split prod.split sum.split) (metis snd_conv)+
  have each: "fit E o1 n t \<Longrightarrow> fit E o1 n (serve_each E' peer source query evs t)" for peer source query evs t
    by (induction evs arbitrary: t) (auto simp: ev)
  have "fit E o1 n (s\<lparr>cl_replay := rs\<rparr>)" if "cl_replay s = r # rs" for r rs using assms that by (simp add: fit_def)
  then show ?thesis using assms each by (auto simp: serve_def Let_def split: list.split prod.split)
qed

lemma fit_anonymous_publish: "fit E o1 n s \<Longrightarrow> fit E o1 n (snd (anonymous_publish E' v timeout links s))"
proof -
  have "fit E o1 n t \<Longrightarrow> fit E o1 n (snd (send_each_event E' frame peers t))" for frame peers t
  proof (induction peers arbitrary: t)
    case (Cons p peers)
    obtain npub identity where p: "p = (npub, identity)" by force
    have 1: "fit E o1 n (snd (send_frame E' identity frame t))" by (rule fit_send_frame[OF Cons.prems])
    show ?case using Cons.IH[OF 1] 1 by (cases "send_frame E' identity frame t") (auto simp: p split: option.split)
  qed simp
  then show "fit E o1 n s \<Longrightarrow> fit E o1 n (snd (anonymous_publish E' v timeout links s))"
    by (auto simp: anonymous_publish_def Let_def split: sum.split option.split)
qed

lemma fit_reset: "fit E o1 n s \<Longrightarrow> fit E o1 n (reset_peer_epoch npub now s)"
  by (simp add: fit_def reset_peer_epoch_def)

lemma fit_forget_peer_state:
  assumes "fit E o1 n s"
  shows "\<exists>s'. forget_peer_state E npub now s = Some s' \<and> fit E o1 n s'"
proof -
  let ?s = "reset_peer_epoch npub now s"
  have f: "fit E o1 n ?s" by (rule fit_reset[OF assms])
  then obtain removed st where "remove_peer (ce_json E) npub (cl_peer_subscriptions ?s) = Some (removed, st)" "store_ok (ce_json E) st"
    "st_limits st = st_limits (cl_peer_subscriptions ?s)" using remove_peer_store_ok unfolding fit_def by blast
  then show ?thesis using f by (auto simp: forget_peer_state_def Let_def fit_def)
qed

lemma fit_retry: "fit E o1 n s \<Longrightarrow> fit E o1 n (snd (retry_pending_frames E' now s))"
proof -
  have "fit E o1 n t \<Longrightarrow> fit E o1 n (fold (\<lambda>provider s. case ce_from_npub E' (ip_peer (provider :: inventory_provider)) of
      None \<Rightarrow> s | Some peer \<Rightarrow> record_provider_violation peer UnansweredInventory now s) ps t)" for ps t
    by (induction ps arbitrary: t) (auto simp: fit_violation split: option.split)
  then show "fit E o1 n s \<Longrightarrow> fit E o1 n (snd (retry_pending_frames E' now s))"
    unfolding retry_pending_frames_def Let_def by (simp add: case_prod_beta)
qed

lemma fit_close_all: "fit E o1 n s \<Longrightarrow> fit E o1 n (close_all E' s)"
proof -
  have "fit E o1 n t \<Longrightarrow> fit E o1 n (close_actives E' subs t)" for subs t
    by (induction E' subs t rule: close_actives.induct) (simp_all add: fit_send_close update_delivery_def)
  moreover have "fit E o1 n s \<Longrightarrow> fit E o1 n (s\<lparr>cl_open := False, cl_replay_source := None, cl_subscriptions := []\<rparr>)" by (simp add: fit_def)
  ultimately show "fit E o1 n s \<Longrightarrow> fit E o1 n (close_all E' s)" by (simp add: close_all_def Let_def)
qed

lemma fit_step:
  assumes f: "fit E o1 n s" and n: "n + op_max_active_subscriptions o1 + 4 < 2 ^ 64" and pos: "\<not> channel_panics (op_max_replay_events o1)"
  shows "\<exists>s' frames events. client_step E now op s = Some (s', frames, events) \<and> fit E o1 (n + op_max_active_subscriptions o1 + 3) s'"
proof (cases op)
  case (FrameFrom peer frame)
  then show ?thesis using fit_handle_frame[OF f n, of peer frame now] by auto
next
  case (Subscribe fs replay links)
  then show ?thesis using fit_subscribe[OF f pos, of E fs replay links] fit_mono[of E o1 n] by fastforce
next
  case (TryRecv h)
  have "fit E o1 n (snd (client_try_recv E h s))"
    using f by (auto simp: client_try_recv_def refill_at_def Let_def split: prod.split list.split)
  then show ?thesis using TryRecv f fit_mono[of E o1 n] by (auto split: prod.split)
next
  case (PublishEvent v src)
  then show ?thesis using fit_publish[OF f, of E v src] fit_mono[of E o1 n] by fastforce
next
  case (PeerConnected npub inbound)
  have "fit E o1 n (snd (replay_frames_for_peer E npub (reset_peer_epoch npub now s)))"
    using fit_reset[OF f, of npub now] by (simp add: replay_frames_for_peer_def fit_def)
  then show ?thesis using PeerConnected fit_reset[OF f, of npub now] fit_mono[of E o1 n] by (auto simp: Let_def split: prod.split)
next
  case (StreamAdopted npub)
  have "fit E o1 n (snd (replay_frames_for_peer E npub s))" using f by (simp add: replay_frames_for_peer_def fit_def)
  then show ?thesis using StreamAdopted fit_mono[of E o1 n] by (auto split: prod.split)
next
  case (PeerGone npub)
  then show ?thesis using fit_forget_peer_state[OF f, of npub now] fit_mono[of E o1 n] by fastforce
next
  case RetryWants
  then show ?thesis using fit_retry[OF f, of E now] fit_mono[of E o1 n] by (auto split: prod.split)
next
  case TransportTurn
  have "fit E o1 n (s\<lparr>cl_transport := tl (cl_transport s)\<rparr>)" using f by (auto simp: fit_def)
  then show ?thesis using TransportTurn fit_mono[of E o1 n] by auto
next
  case (SetReplaySource source)
  have "fit E o1 n (snd (set_replay_source source s))" using f by (simp add: set_replay_source_def split: option.split)
  then show ?thesis using SetReplaySource fit_mono[of E o1 n] by auto
next
  case (CooldownCheck npub)
  have "fit E o1 n (snd (peer_is_in_cooldown npub now s))" using f by (simp add: peer_is_in_cooldown_def)
  then show ?thesis using CooldownCheck fit_mono[of E o1 n] by auto
next
  case (CloseSubscription key h)
  have "fit E o1 n (client_close E key h s)" using fit_close_subscription[OF f, of E key] by (simp add: client_close_def drop_receiver_def)
  then show ?thesis using CloseSubscription fit_mono[of E o1 n] by auto
qed (use fit_mono[OF fit_serve[OF f]] fit_mono[OF fit_anonymous_publish[OF f]] fit_mono[OF fit_close_all[OF f]] in auto)

lemma fit_step_env [simp]: "fit (step_env E cx) o1 n s = fit E o1 n s"
  by (simp add: fit_def)

lemma node_run_total:
  assumes pos: "\<not> channel_panics (op_max_replay_events o1)"
  shows "fit E o1 n (nd_client nd) \<Longrightarrow> n + length cxs * (op_max_active_subscriptions o1 + 3) + 1 < 2 ^ 64 \<Longrightarrow>
    \<exists>nd'. node_run E cxs nd = Some nd' \<and> fit E o1 (n + length cxs * (op_max_active_subscriptions o1 + 3)) (nd_client nd')"
proof (induction cxs arbitrary: n nd)
  case (Cons cx cxs)
  let ?m = "op_max_active_subscriptions o1 + 3"
  have "n + op_max_active_subscriptions o1 + 4 < 2 ^ 64" using Cons.prems(2) by (simp add: algebra_simps)
  from fit_step[OF _ this pos, of "step_env E cx" "nd_client nd" "sx_now cx" "sx_op cx"] Cons.prems(1)
  obtain s' frames events where st: "client_step (step_env E cx) (sx_now cx) (sx_op cx) (nd_client nd) = Some (s', frames, events)" "fit E o1 (n + ?m) s'"
    by (auto simp: add.assoc)
  obtain nd1 where nd1: "node_step E cx nd = Some nd1" "nd_client nd1 = s'" using st(1) by (simp add: node_step_def Let_def)
  from Cons.IH[of "n + ?m" nd1] st(2) nd1(2) Cons.prems(2) nd1(1) show ?case by (simp add: algebra_simps)
qed simp

lemma valid_capacities:
  assumes "options_validate o1 = None" and "op_max_connected_peers o1 * op_receive_batch_size o1 \<le> MAX_PERMITS"
  shows "client_new o1 role = Some (Inr (nd_client (node_start o1 role)))"
    and "command_capacity o1 = op_max_connected_peers o1 * op_receive_batch_size o1"
proof -
  have pos: "0 < op_max_connected_peers o1" "0 < op_receive_batch_size o1" "0 < op_max_frame_bytes o1"
    using assms(1) by (auto simp: options_validate_def positive_options_def split: if_splits)
  then have le: "op_max_connected_peers o1 \<le> op_max_connected_peers o1 * op_receive_batch_size o1"
    "op_receive_batch_size o1 \<le> op_max_connected_peers o1 * op_receive_batch_size o1" by simp_all
  show c: "command_capacity o1 = op_max_connected_peers o1 * op_receive_batch_size o1"
    using pos assms(2) le by (simp add: command_capacity_def MAX_PERMITS_def)
  have "replay_capacity o1 \<le> op_max_connected_peers o1 * op_receive_batch_size o1" "0 < replay_capacity o1"
    using le pos by (simp_all add: replay_capacity_def)
  then have "\<not> channel_panics (replay_capacity o1)" using assms(2) by (simp add: channel_panics_def)
  moreover have "\<not> channel_panics (command_capacity o1)" using pos assms(2) by (simp add: c channel_panics_def)
  ultimately show "client_new o1 role = Some (Inr (nd_client (node_start o1 role)))"
    using pos(3) by (simp add: client_new_def wire_codec_new_def node_start_def)
qed


end
