(* ===== verification/Client_Demo.thy ===== *)
theory Client_Demo
  imports Client_Total
begin

text \<open>
  Closed instances of the client's properties: a receiver with one public author that publishes an event to a subscribed peer and reads it back, and a publisher
  that sends a private envelope to a provider.
\<close>

definition demo_note7 :: verified_event where "demo_note7 = VerifiedEvent (demo_event 7 0 1)"

definition demo_envelope :: verified_event where
  "demo_envelope = VerifiedEvent ((demo_event 9 0 1060)\<lparr>ev_tags := [[''p'', replicate 64 CHR ''a''], [''v'', ''2'']]\<rparr>)"

definition demo_wire :: wire_lib where
  "demo_wire = \<lparr>json_parse = (\<lambda>b. if b = [1] then Some (JArr [JStr ''REQ'', JStr ''s'', JObj []])
       else if b = [2] then Some (inv_value demo_lib [''s''] 7 1 0 4)
       else if b = [5] then Some (inv_value demo_lib [''fips-1''] 7 1 0 4)
       else if b = [6] then Some (JArr [JStr ''EVENT'', JObj []]) else None),
     json_print = (\<lambda>_. [2]), client_json = (\<lambda>m. case m of NEvent _ \<Rightarrow> [6] | _ \<Rightarrow> [3]),
     client_from_value = (\<lambda>v. case v of JArr (JStr tag # _) \<Rightarrow> if tag = ''REQ'' then Some (NReq ''s'' [filter_new])
       else if tag = ''EVENT'' then Some (NEvent (as_event demo_envelope)) else None | _ \<Rightarrow> None),
     relay_json = (\<lambda>_. [4]), relay_from_value = (\<lambda>_. None)\<rparr>"

definition demo_roles :: role_lib where
  "demo_roles = \<lparr>filter_value = (\<lambda>_. Some (JObj [])), key_hex = (\<lambda>_. []), key_from_hex = (\<lambda>_. None), peerfinding_filter = filter_new\<rparr>"

definition demo_client_env :: client_env where
  "demo_client_env = \<lparr>ce_nostr = demo_lib\<lparr>verify := (\<lambda>e. e = as_event demo_note7 \<or> e = as_event demo_envelope),
       from_hex := (\<lambda>s. if s = to_hex demo_lib 7 then Some 7 else None)\<rparr>, ce_wire = demo_wire, ce_json = demo_js,
     ce_roles = demo_roles, ce_from_npub = Some, ce_event_text = (\<lambda>_. []), ce_event_policy = None, ce_peer_policy = None, ce_reserve = 1,
     ce_live_hash = (\<lambda>_ _. 0), ce_fanout_hash = (\<lambda>_ _. 0)\<rparr>"

definition demo_context :: "client_op \<Rightarrow> step_context" where
  "demo_context op = \<lparr>sx_event_policy = None, sx_peer_policy = None, sx_now = 1000, sx_op = op\<rparr>"

definition demo_run :: "step_context list" where
  "demo_run = map demo_context [FrameFrom ''peer'' [1], PublishEvent demo_note7 (es_local_index ''app''), Subscribe [] True (Inr []), TryRecv 0]"

definition demo_publisher_run :: "step_context list" where
  "demo_publisher_run = map demo_context [Subscribe [] True (Inr []), PeerConnected ''peer'' False, FrameFrom ''peer'' [5]] @
     [(demo_context RetryWants)\<lparr>sx_now := 2000\<rparr>]"

definition demo_envelope_run :: "step_context list" where
  "demo_envelope_run = [demo_context (AnonymousPublish demo_envelope 1 (Inr [\<lparr>ln_npub = ''peer'', ln_link_id = Routed\<rparr>]))]"

definition demo_role :: client_role where "demo_role = RoleReceiver [7]"

lemmas demo_defs = demo_client_env_def demo_context_def demo_role_def demo_roles_def demo_wire_def demo_note7_def demo_envelope_def demo_run_def demo_publisher_run_def
  demo_envelope_run_def demo_js_def

lemmas frame_eval = handle_frame_def decode_frame_def check_frame_size_def decode_message_def decode_req_def inv_value_def decode_inv_def decode_subscription_ids_def
  decode_event_id_def decode_unsigned_def field_def encode_def encode_frame_def

lemmas store_eval = handle_req_def upsert_def subscription_contribution_def subscription_limits_def store_new_def touch_peer_def evict_peers_over_limit_def
  upsert_insert_def set_upsert_def subtract_opt_def add_retained_def query_limit_def filter_new_def queue_replay_def peer_filter_count_def peer_subscriptions_def

lemmas recent_eval = recent_matching_def recent_new_def recent_insert_for_publish_def recent_insert_def recent_event_def interest_from_filters_def subscription_filters_match_def
  FIPS_NOSTR_PUBSUB_MAX_SEEN_EVENT_IDS_def

lemmas client_eval = node_step_def step_env_def node_start_def client_state_def command_capacity_def replay_capacity_def channel_panics_def MAX_PERMITS_def
  client_options_default_def FIPS_NOSTR_PUBSUB_MAX_FRAME_BYTES_def
  client_publish_def validate_publication_def is_private_def admit_def event_decision_def peer_delivery_targets_def delivery_targets_def matching_peer_subscriptions_def
  sub_matches_def matches_event_def add_target_def bounded_delivery_targets_def send_inventories_def inventory_frame_def event_payload_bytes_def send_frame_def
  validate_outbound_def transport_try_send_def client_publish_report_def demo_event_def

lemmas subscribe_eval = client_subscribe_def clamp_limit_def open_subscription_def replay_local_events_def deliver_local_def delivery_new_def enqueue_def refill_def
  delivery_contains_def try_send_def mark_delivered_def client_try_recv_def refill_at_def demo_lib_def demo_match_def

lemma demo_client_laws:
  "hex_sound (ce_nostr demo_client_env)" "limit_law (ce_roles demo_client_env)" "id_hash_law (ce_nostr demo_client_env)"
  "\<forall>cx\<in>set demo_run. op_verified (ce_nostr demo_client_env) (sx_op cx)" "\<forall>cx\<in>set demo_envelope_run. op_verified (ce_nostr demo_client_env) (sx_op cx)"
  using demo_laws by (auto simp: demo_defs hex_sound_def limit_law_def id_hash_law_def demo_lib_def demo_event_def nostr_laws_def hex_law_def inj_eq)

lemma demo_client_run:
  "\<exists>nd. node_run demo_client_env demo_run (node_start client_options_default demo_role) = Some nd \<and>
     cl_transport (nd_client nd) = [TSend ''peer'' [2]] \<and> map (\<lambda>(h, q). (h, qe_event q)) (nd_received nd) = [(0, demo_note7)]"
  by (simp add: demo_defs frame_eval store_eval recent_eval client_eval subscribe_eval Let_def)

lemma demo_envelope_sent:
  "\<exists>nd. node_run demo_client_env demo_envelope_run (node_start client_options_default RolePublisher) = Some nd \<and>
     cl_transport (nd_client nd) = [TSend ''peer'' [6]]"
  "decode_frame (ce_nostr demo_client_env) demo_wire (the_codec client_options_default) [6] = Inr (FEvent None demo_envelope)"
  by (simp_all add: demo_defs frame_eval client_eval anonymous_publish_def validate_envelope_def tags_named_def hex_digits_def list_all_iff
    decode_published_event_def try_from_event_def Let_def)

theorem client_delivers_admitted_witness:
  "\<exists>nd. node_run demo_client_env demo_run (node_start client_options_default demo_role) = Some nd \<and> nd_received nd \<noteq> [] \<and>
     (\<forall>(h, q)\<in>set (nd_received nd). h < length (nd_filters nd) \<and> introduced demo_client_env (the_codec client_options_default) demo_run (qe_event q))"
proof -
  obtain nd where nd: "node_run demo_client_env demo_run (node_start client_options_default demo_role) = Some nd"
    "map (\<lambda>(h, q). (h, qe_event q)) (nd_received nd) = [(0, demo_note7)]" using demo_client_run by iprover
  then show ?thesis using client_delivers_admitted[OF demo_client_laws(1,2,4) nd(1)] by fastforce
qed

text \<open>
  The announcement in the receiver's queue is of the published event, by the public author; the event in the publisher's queue is the envelope it was given,
  for the provider it was given.
\<close>

theorem client_role_binds_witness:
  "(\<exists>nd. node_run demo_client_env demo_run (node_start client_options_default demo_role) = Some nd \<and> cl_transport (nd_client nd) = [TSend ''peer'' [2]] \<and>
      (\<exists>m. decode_frame (ce_nostr demo_client_env) demo_wire (the_codec client_options_default) [2] = Inr m \<and>
         role_message demo_roles demo_role (introduced demo_client_env (the_codec client_options_default) demo_run) (published_to demo_run) ''peer'' m)) \<and>
   (\<exists>nd. node_run demo_client_env demo_envelope_run (node_start client_options_default RolePublisher) = Some nd \<and>
      cl_transport (nd_client nd) = [TSend ''peer'' [6]] \<and> published_to demo_envelope_run demo_envelope ''peer'')"
proof (rule conjI)
  have eqs: "ce_wire demo_client_env = demo_wire" "ce_roles demo_client_env = demo_roles" by (simp_all add: demo_client_env_def)
  have no_close: "message_json (ce_nostr demo_client_env) demo_wire (FClose key) = [3]" for key by (simp add: demo_wire_def)
  have allowed: "\<exists>m. decode_frame (ce_nostr demo_client_env) demo_wire (the_codec client_options_default) f = Inr m \<and>
      role_message demo_roles role (introduced demo_client_env (the_codec client_options_default) cxs) (published_to cxs) p m"
    if "\<forall>cx\<in>set cxs. op_verified (ce_nostr demo_client_env) (sx_op cx)" "node_run demo_client_env cxs (node_start client_options_default role) = Some nd"
      "cl_transport (nd_client nd) = [TSend p f]" "role \<noteq> RoleFull" "f \<noteq> [3]" for cxs role nd p f
  proof -
    have "TSend p f \<in> set (cl_transport (nd_client nd))" using that(3) by simp
    with conjunct1[OF client_role_binds[OF demo_client_laws(1,2,3) that(1,2)]]
    have "role = RoleFull \<or> (\<exists>key. f = message_json (ce_nostr demo_client_env) (ce_wire demo_client_env) (FClose key)) \<or>
       (\<exists>m. decode_frame (ce_nostr demo_client_env) (ce_wire demo_client_env) (the_codec client_options_default) f = Inr m \<and>
          role_message (ce_roles demo_client_env) role (introduced demo_client_env (the_codec client_options_default) cxs) (published_to cxs) p m)"
      by iprover
    with that(4,5) show ?thesis unfolding eqs no_close by blast
  qed
  obtain nd where nd: "node_run demo_client_env demo_run (node_start client_options_default demo_role) = Some nd"
    "cl_transport (nd_client nd) = [TSend ''peer'' [2]]" using demo_client_run by iprover
  have "demo_role \<noteq> RoleFull" "[2] \<noteq> ([3] :: bytes)" by (simp_all add: demo_role_def)
  from nd allowed[OF demo_client_laws(4) nd this]
  show "\<exists>nd. node_run demo_client_env demo_run (node_start client_options_default demo_role) = Some nd \<and> cl_transport (nd_client nd) = [TSend ''peer'' [2]] \<and>
      (\<exists>m. decode_frame (ce_nostr demo_client_env) demo_wire (the_codec client_options_default) [2] = Inr m \<and>
         role_message demo_roles demo_role (introduced demo_client_env (the_codec client_options_default) demo_run) (published_to demo_run) ''peer'' m)" by iprover
  obtain nd2 where nd2: "node_run demo_client_env demo_envelope_run (node_start client_options_default RolePublisher) = Some nd2"
    "cl_transport (nd_client nd2) = [TSend ''peer'' [6]]" using demo_envelope_sent(1) by iprover
  have "RolePublisher \<noteq> RoleFull" "[6] \<noteq> ([3] :: bytes)" by simp_all
  from allowed[OF demo_client_laws(5) nd2 this] have "published_to demo_envelope_run demo_envelope ''peer''" unfolding demo_envelope_sent(2) by auto
  with nd2 show "\<exists>nd. node_run demo_client_env demo_envelope_run (node_start client_options_default RolePublisher) = Some nd \<and>
      cl_transport (nd_client nd) = [TSend ''peer'' [6]] \<and> published_to demo_envelope_run demo_envelope ''peer''" by iprover
qed


section \<open>Options that are valid and panic\<close>

text \<open>
  The bounds on the capacities are needed: with a larger number of cached events the options still validate, the client starts, and the first subscription
  panics; with more connected peers the start itself panics.
\<close>

lemma valid_options_panic:
  "options_validate (client_options_default\<lparr>op_max_replay_events := 2 ^ 61\<rparr>) = None"
  "client_subscribe demo_client_env [] True (Inr []) (nd_client (node_start (client_options_default\<lparr>op_max_replay_events := 2 ^ 61\<rparr>) RoleFull)) = None"
  "options_validate (client_options_default\<lparr>op_max_connected_peers := 2 ^ 61\<rparr>) = None"
  "client_new (client_options_default\<lparr>op_max_connected_peers := 2 ^ 61\<rparr>) RoleFull = None"
  by (simp_all add: options_validate_def positive_options_def client_options_default_def FIPS_NOSTR_PUBSUB_MAX_FRAME_BYTES_def client_new_def wire_codec_new_def
    command_capacity_def replay_capacity_def channel_panics_def MAX_PERMITS_def client_subscribe_def admit_def node_start_def client_state_def
    demo_defs subscription_limits_def frame_eval Let_def)

section \<open>A request that bypasses the role check\<close>

text \<open>
  A publisher may not send a \<open>WANT\<close>: the check of outbound frames refuses it. But an announcement of a peer for the publisher's own discovery subscription leaves a
  pending request, and the retry of that request goes to the connection without the check.
\<close>

lemmas want_eval = replay_frames_for_peer_def List.map_filter_def reset_peer_epoch_def clear_peer_def clear_scopes_def pw_remove_peer_def retain_entries_def forget_peer_def
  seen_ids_new_def wants_from_options_def pw_new_def handle_inv_def accept_inventory_def candidate_subscriptions_def recent_contains_def observe_def
  observe_with_match_def evict_global_def pw_insert_def retry_pending_frames_def retry_due_def retry_pending_def add_outcome_def retry_frame_def
  sat_mul_def sat_sub_def MAX_WANT_RETRIES_def

lemma decimal_one: "decimal (Suc 0) = ''1''"
  by (simp add: decimal.simps[of "Suc 0"] char_of_def bit_0)

lemma publisher_retries_want:
  "\<exists>nd. node_run demo_client_env demo_publisher_run (node_start client_options_default RolePublisher) = Some nd \<and>
     message_allowed demo_client_env (nd_client nd) ''peer'' (FWant 7) = Inr False \<and>
     (''peer'', message_json (ce_nostr demo_client_env) demo_wire (FWant 7)) \<in> set (nd_direct nd)"
  by (simp add: demo_defs frame_eval store_eval recent_eval client_eval subscribe_eval want_eval decimal_one Let_def)

end
