(* ===== verification/Negentropy_Codec.thy ===== *)
theory Negentropy_Codec
  imports Prelude
begin

text \<open>
  The byte codec of the set reconciliation, \<open>crates/nostr-pubsub-reconcile/src/codec.rs\<close>: reading a prefix of a byte
  slice and the base-128 integers, most significant digit first. A \<open>&mut &[u8]\<close> is the byte list that is left. The second
  reader of the crate, in \<open>validation.rs\<close>, has the same shape with its own errors; the interface \<open>var_int_reader\<close> states
  what both promise.
\<close>

unbundle bit_operations_syntax

section \<open>Errors\<close>

text \<open>
  The errors of the engine. \<open>Panicked\<close> stands for an index or a subtraction out of range, \<open>StorageError\<close> for whatever the storage
  of the negentropy crate reports.
\<close>

datatype neg_error =
    ParseEndsPrematurely | BadRange | UnexpectedMode u64
  | ProtocolVersionNotFound | InvalidProtocolVersion | UnsupportedProtocolVersion
  | FrameSizeLimitTooSmall | AlreadyBuiltInitialMessage | InitiatorError | NonInitiatorError
  | StorageError string | Panicked

section \<open>Definitions\<close>

definition get_bytes :: "nat \<Rightarrow> bytes \<Rightarrow> neg_error + bytes \<times> bytes" where
  "get_bytes n encoded =
     (if length encoded < n then Inl ParseEndsPrematurely else Inr (take n encoded, drop n encoded))"

definition checked_mul :: "u64 \<Rightarrow> u64 \<Rightarrow> u64 option" where
  "checked_mul a b = (if unat a * unat b < 2 ^ 64 then Some (a * b) else None)"

definition push_digit :: "u64 \<Rightarrow> u8 \<Rightarrow> u64 option" where
  "push_digit value byte = Option.bind (checked_mul value 128) (\<lambda>n. checked_add n (ucast (byte AND 127)))"

fun decode_digits :: "nat \<Rightarrow> u64 \<Rightarrow> bytes \<Rightarrow> neg_error + u64 \<times> bytes" where
  "decode_digits 0 value encoded = Inl BadRange"
| "decode_digits (Suc k) value encoded =
     (case get_bytes 1 encoded of
        Inl err \<Rightarrow> Inl err
      | Inr (digit, rest) \<Rightarrow>
          (case push_digit value (hd digit) of
             None \<Rightarrow> Inl BadRange
           | Some value' \<Rightarrow> if hd digit AND 128 = 0 then Inr (value', rest) else decode_digits k value' rest))"

definition decode_var_int :: "bytes \<Rightarrow> neg_error + u64 \<times> bytes" where
  "decode_var_int encoded = decode_digits 10 0 encoded"

function var_int_digits :: "u64 \<Rightarrow> bytes" where
  "var_int_digits n = (if n = 0 then [] else ucast (n AND 127) # var_int_digits (drop_bit 7 n))"
  by pat_completeness auto
termination
  by (relation "measure unat") (auto simp: drop_bit_eq_div unat_div unat_gt_0 intro: div_less_dividend)

definition encode_var_int :: "u64 \<Rightarrow> bytes" where
  "encode_var_int n =
     (if n = 0 then [0]
      else let out = rev (var_int_digits n) in map (\<lambda>b. b OR 128) (butlast out) @ [last out])"

declare var_int_digits.simps [simp del]

section \<open>The round trip\<close>

lemma get_bytes_Inr: "get_bytes n bs = Inr (pre, rest) \<longleftrightarrow> bs = pre @ rest \<and> length pre = n"
  by (auto simp: get_bytes_def)

lemma get_bytes_append [simp]: "length pre = n \<Longrightarrow> get_bytes n (pre @ rest) = Inr (pre, rest)"
  by (simp add: get_bytes_Inr)

lemma get_bytes_Cons [simp]: "get_bytes (Suc 0) (b # rest) = Inr ([b], rest)"
  by (simp add: get_bytes_def)

lemma get_bytes_1_Nil [simp]: "get_bytes (Suc 0) [] = Inl ParseEndsPrematurely"
  by (simp add: get_bytes_def)

text \<open>The value of a list of digits, most significant first.\<close>

definition digits_value :: "nat \<Rightarrow> nat list \<Rightarrow> nat" where
  "digits_value v ds = fold (\<lambda>d v. v * 128 + d) ds v"

lemma digits_value_simps [simp]:
  "digits_value v [] = v" "digits_value v (d # ds) = digits_value (v * 128 + d) ds"
  "digits_value v (ds @ es) = digits_value (digits_value v ds) es"
  by (simp_all add: digits_value_def)

lemma digits_value_mono: "v \<le> digits_value v ds"
proof (induction ds arbitrary: v)
  case (Cons d ds)
  then show ?case using order_trans[OF _ Cons.IH[of "v * 128 + d"], of v] by simp
qed simp

lemma unat_ucast_u8 [simp]: "unat (ucast (b :: u8) :: u64) = unat b"
  using unsigned_less[of b, where ?'a = nat] by (simp add: unsigned_ucast_eq take_bit_nat_eq_self)

lemma unat_and_127: "unat (b AND 127 :: u8) = unat b mod 128"
  using take_bit_eq_mod[of 7 "unat b"] unsigned_take_bit_eq[of 7 b, where ?'a = nat] take_bit_eq_mask[of 7 b]
  by (simp add: mask_eq_exp_minus_1)

lemma push_digit_Some:
  assumes "unat v * 128 + unat b mod 128 < 2 ^ 64"
  shows "\<exists>w. push_digit v b = Some w \<and> unat w = unat v * 128 + unat b mod 128"
  using assms by (simp add: push_digit_def checked_mul_def checked_add_def unat_word_ariths unat_and_127 bind_eq_Some_conv)

lemma push_digit_None: "\<not> unat v * 128 + unat b mod 128 < 2 ^ 64 \<Longrightarrow> push_digit v b = None"
  by (auto simp: push_digit_def checked_mul_def checked_add_def unat_word_ariths unat_and_127 bind_eq_None_conv)

lemma high_bit: "(b AND 128 = 0) \<longleftrightarrow> unat (b :: u8) < 128"
proof -
  have "unat b < 256" using unsigned_less[of b, where ?'a = nat] by simp
  have "b AND 128 = 0 \<longleftrightarrow> \<not> bit b 7"
    using and_exp_eq_0_iff_not_bit[of b 7] by simp
  also have "bit b 7 \<longleftrightarrow> bit (unat b) 7" by (simp add: bit_unsigned_iff)
  also have "\<dots> \<longleftrightarrow> odd (unat b div 128)" by (simp add: bit_iff_odd)
  also have "\<dots> \<longleftrightarrow> \<not> unat b < 128"
  proof (cases "unat b < 128")
    case False
    then have "unat b div 128 = 1" using \<open>unat b < 256\<close> by (simp add: div_nat_eqI)
    then show ?thesis using False by simp
  qed simp
  finally show ?thesis by blast
qed

lemma eq_of_nat: "unat w = x \<Longrightarrow> w = of_nat x"
  by auto

text \<open>Reading digits with the high bit set, then one without it.\<close>

lemma decode_digits_append:
  assumes "\<forall>d\<in>set (ds @ [d]). unat d < 128" and "length ds < k"
    and "digits_value (unat v) (map unat (ds @ [d])) < 2 ^ 64"
  shows "decode_digits k v (map (\<lambda>b. b OR 128) ds @ d # rest) =
    Inr (of_nat (digits_value (unat v) (map unat (ds @ [d]))), rest)"
  using assms
proof (induction ds arbitrary: k v)
  case Nil
  then obtain k' where k: "k = Suc k'" by (cases k) auto
  obtain w where w: "push_digit v d = Some w" "unat w = unat v * 128 + unat d"
    using push_digit_Some[of v d] Nil by auto
  have "w = of_nat (unat v * 128 + unat d)" using w(2) by (rule eq_of_nat)
  then show ?case using Nil w(1) high_bit[of d] by (simp add: k)
next
  case (Cons c ds)
  then obtain k' where k: "k = Suc k'" by (cases k) auto
  have c: "unat (c OR 128) = unat c + 128"
  proof -
    have "c AND 128 = 0" using Cons.prems(1) high_bit[of c] by simp
    then have "c OR 128 = c + 128" by (simp add: disjunctive_add_eq_or)
    then show ?thesis using Cons.prems(1) by (simp add: unat_word_ariths)
  qed
  have less: "unat v * 128 + unat c < 2 ^ 64"
    using Cons.prems(3) digits_value_mono[of "unat v * 128 + unat c" "map unat ds @ [unat d]"] by simp
  have m: "unat (c OR 128) mod 128 = unat c" using c Cons.prems(1) by simp
  obtain w where w: "push_digit v (c OR 128) = Some w" "unat w = unat v * 128 + unat c"
    using push_digit_Some[of v "c OR 128"] less unfolding m by blast
  have "\<not> (c OR 128) AND 128 = 0" unfolding high_bit using c by simp
  then show ?case using Cons.IH[of k' w] Cons.prems w k by simp
qed

lemma unat_and_u64: "unat (ucast (n AND 127 :: u64) :: u8) = unat n mod 128"
proof -
  have "unat (n AND 127) = unat n mod 128"
    using take_bit_eq_mod[of 7 "unat n"] unsigned_take_bit_eq[of 7 n, where ?'a = nat] take_bit_eq_mask[of 7 n]
    by (simp add: mask_eq_exp_minus_1)
  moreover have "unat n mod 128 < 128" by simp
  then have "unat n mod 128 < 2 ^ 8" by (rule less_trans) simp
  ultimately show ?thesis by (simp add: unsigned_ucast_eq take_bit_nat_eq_self)
qed

lemma unat_shift_7: "unat (drop_bit 7 (n :: u64)) = unat n div 128"
  by (simp add: drop_bit_eq_div unat_div)

lemma var_int_digits_value: "digits_value 0 (map unat (rev (var_int_digits n))) = unat n \<and> (\<forall>d\<in>set (var_int_digits n). unat d < 128)"
proof (induction n rule: var_int_digits.induct)
  case (1 n)
  show ?case
  proof (cases "n = 0")
    case False
    then show ?thesis using 1 by (subst (1 2) var_int_digits.simps) (simp add: unat_and_u64 unat_shift_7)
  qed (simp add: var_int_digits.simps)
qed

lemma var_int_digits_length: "unat n < 128 ^ k \<Longrightarrow> length (var_int_digits n) \<le> k"
proof (induction k arbitrary: n)
  case 0
  then show ?case by (simp add: var_int_digits.simps unat_eq_zero)
next
  case (Suc k)
  then have "unat (drop_bit 7 n) < 128 ^ k" by (simp add: unat_shift_7 less_mult_imp_div_less mult.commute)
  from Suc.IH[OF this] show ?case by (subst var_int_digits.simps) simp
qed

lemma decode_encode_var_int: "decode_var_int (encode_var_int n @ rest) = Inr (n, rest)"
proof (cases "n = 0")
  case True
  then show ?thesis
    using decode_digits_append[of "[]" 0 10 0 rest] by (simp add: encode_var_int_def decode_var_int_def)
next
  case False
  let ?o = "rev (var_int_digits n)"
  have ne: "?o \<noteq> []" using False by (simp add: var_int_digits.simps)
  have len: "length (butlast ?o) < 10"
    using var_int_digits_length[of n 10] unsigned_less[of n, where ?'a = nat] ne by simp
  have enc: "encode_var_int n @ rest = map (\<lambda>b. b OR 128) (butlast ?o) @ last ?o # rest"
    using False by (simp add: encode_var_int_def Let_def)
  have split: "butlast ?o @ [last ?o] = ?o" using ne by (rule append_butlast_last_id)
  have v: "digits_value (unat (0 :: u64)) (map unat (butlast ?o @ [last ?o])) = unat n"
    unfolding split using var_int_digits_value[of n] by simp
  have d: "\<forall>d\<in>set (butlast ?o @ [last ?o]). unat d < 128"
    unfolding split using var_int_digits_value[of n] by simp
  show ?thesis
    unfolding enc decode_var_int_def
    using decode_digits_append[OF d len, of 0 rest] unsigned_less[of n, where ?'a = nat] unfolding v by simp
qed

section \<open>Length\<close>

lemma encode_var_int_length: "0 < length (encode_var_int n) \<and> length (encode_var_int n) \<le> 10"
proof (cases "n = 0")
  case False
  then have "var_int_digits n \<noteq> []" by (simp add: var_int_digits.simps)
  then show ?thesis
    using var_int_digits_length[of n 10] unsigned_less[of n, where ?'a = nat] by (simp add: encode_var_int_def Let_def)
qed (simp add: encode_var_int_def)

lemma encode_var_int_short: "unat n < 128 \<Longrightarrow> length (encode_var_int n) = 1"
  using var_int_digits_length[of n 1] encode_var_int_length[of n] by (auto simp: encode_var_int_def Let_def)

lemma encode_var_int_0 [simp]: "encode_var_int 0 = [0]"
  by (simp add: encode_var_int_def)

section \<open>The contract of a reader\<close>

text \<open>
  A reader of these integers undoes the writer, takes at least one byte when it succeeds, and looks at nothing behind
  the bytes that it takes.
\<close>

locale var_int_reader =
  fixes read :: "bytes \<Rightarrow> 'e + u64 \<times> bytes"
  assumes read_encode: "read (encode_var_int n @ rest) = Inr (n, rest)"
    and read_prefix: "read bs = Inr (n, rest) \<Longrightarrow> \<exists>pre. pre \<noteq> [] \<and> bs = pre @ rest \<and> (\<forall>rest'. read (pre @ rest') = Inr (n, rest'))"
begin

lemma read_shortens: "read bs = Inr (n, rest) \<Longrightarrow> length rest < length bs"
  by (auto dest: read_prefix)

text \<open>A reader cannot succeed on one input and read something else from an extension of it.\<close>

lemma read_extend: "read bs = Inr (n, rest) \<Longrightarrow> read (bs @ more_bytes) = Inr (n, rest @ more_bytes)"
  by (auto dest: read_prefix)

lemma read_nonempty: "read bs = Inr (n, rest) \<Longrightarrow> bs \<noteq> []"
  by (auto dest: read_prefix)

end

lemma decode_digits_prefix:
  "decode_digits k v bs = Inr (n, rest) \<Longrightarrow>
    \<exists>pre. pre \<noteq> [] \<and> bs = pre @ rest \<and> (\<forall>rest'. decode_digits k v (pre @ rest') = Inr (n, rest'))"
proof (induction k v bs rule: decode_digits.induct)
  case (2 k v bs)
  then obtain b bs' w where b: "bs = b # bs'" "push_digit v b = Some w"
    by (cases bs) (auto split: option.splits)
  show ?case
  proof (cases "b AND 128 = 0")
    case True
    then show ?thesis using 2 b by (intro exI[of _ "[b]"]) auto
  next
    case False
    then obtain pre where "bs' = pre @ rest" "\<forall>rest'. decode_digits k w (pre @ rest') = Inr (n, rest')"
      using 2 b by fastforce
    then show ?thesis using False b by (intro exI[of _ "b # pre"]) auto
  qed
qed simp

interpretation codec: var_int_reader decode_var_int
proof
  show "decode_var_int (encode_var_int n @ rest) = Inr (n, rest)" for n rest by (rule decode_encode_var_int)
  show "\<exists>pre. pre \<noteq> [] \<and> bs = pre @ rest \<and> (\<forall>rest'. decode_var_int (pre @ rest') = Inr (n, rest'))"
    if "decode_var_int bs = Inr (n, rest)" for bs n rest
    using that unfolding decode_var_int_def by (rule decode_digits_prefix)
qed

end
