(* ===== verification/Negentropy.thy ===== *)
theory Negentropy
  imports Negentropy_Codec
begin

text \<open>
  The reconciliation engine, \<open>crates/nostr-pubsub-reconcile/src/engine.rs\<close>. Items, bounds and the sealed storage belong
  to the negentropy crate: the storage is the list of its items, its operations and the constructors of bounds are the fields
  of \<open>neg_lib\<close>, and \<open>neg_laws\<close> states the documented behaviour the engine relies on. Every method that takes
  \<open>&mut self\<close> returns the engine also when it fails.
\<close>

section \<open>The negentropy crate\<close>

record item =
  it_timestamp :: u64
  it_id :: bytes

record bound =
  bd_item :: item
  bd_id_len :: nat

record neg_lib =
  item_with_timestamp :: "u64 \<Rightarrow> item"
  bound_new :: bound
  bound_with_timestamp :: "u64 \<Rightarrow> bound"
  bound_with_timestamp_and_id :: "u64 \<Rightarrow> bytes \<Rightarrow> neg_error + bound"
  bound_from_item :: "item \<Rightarrow> bound"
  storage_iterate :: "item list \<Rightarrow> nat \<Rightarrow> nat \<Rightarrow> neg_error + (item \<times> nat) list"
  storage_lower_bound :: "item list \<Rightarrow> nat \<Rightarrow> nat \<Rightarrow> bound \<Rightarrow> nat"
  storage_fingerprint :: "item list \<Rightarrow> nat \<Rightarrow> nat \<Rightarrow> neg_error + bytes"
  storage_seal :: "item list \<Rightarrow> neg_error + item list"

text \<open>Constants of version 1 of the protocol; \<open>validation.rs\<close> has the same numbers as literals.\<close>

abbreviation PROTOCOL_VERSION :: u8 where "PROTOCOL_VERSION \<equiv> 0x61"
abbreviation ID_SIZE :: nat where "ID_SIZE \<equiv> 32"
abbreviation FINGERPRINT_SIZE :: nat where "FINGERPRINT_SIZE \<equiv> 16"

section \<open>Engine state\<close>

datatype mode = Skip | Fingerprint | IdList

definition mode_as_u64 :: "mode \<Rightarrow> u64" where
  "mode_as_u64 m = (case m of Skip \<Rightarrow> 0 | Fingerprint \<Rightarrow> 1 | IdList \<Rightarrow> 2)"

definition mode_try_from :: "u64 \<Rightarrow> neg_error + mode" where
  "mode_try_from n =
     (if n = 0 then Inr Skip else if n = 1 then Inr Fingerprint else if n = 2 then Inr IdList else Inl (UnexpectedMode n))"

definition MAX_U64 :: u64 where "MAX_U64 = - 1"

definition BUCKETS :: nat where "BUCKETS = 16"

definition DOUBLE_BUCKETS :: nat where "DOUBLE_BUCKETS = BUCKETS * 2"

record negentropy =
  ng_storage :: "item list"
  ng_frame_size_limit :: nat
  ng_is_initiator :: bool
  ng_last_timestamp_in :: u64
  ng_last_timestamp_out :: u64

definition ng_new :: "item list \<Rightarrow> nat \<Rightarrow> neg_error + negentropy" where
  "ng_new storage frame_size_limit =
     (if frame_size_limit \<noteq> 0 \<and> frame_size_limit < 4096 then Inl FrameSizeLimitTooSmall
      else Inr \<lparr>ng_storage = storage, ng_frame_size_limit = frame_size_limit, ng_is_initiator = False,
                ng_last_timestamp_in = 0, ng_last_timestamp_out = 0\<rparr>)"

definition exceeded_frame_size_limit :: "negentropy \<Rightarrow> nat \<Rightarrow> bool" where
  "exceeded_frame_size_limit ng n \<longleftrightarrow> ng_frame_size_limit ng \<noteq> 0 \<and> n > ng_frame_size_limit ng - 200"

section \<open>Decoding\<close>

definition decode_mode :: "bytes \<Rightarrow> neg_error + mode \<times> bytes" where
  "decode_mode encoded =
     (case decode_var_int encoded of
        Inl err \<Rightarrow> Inl err
      | Inr (n, rest) \<Rightarrow> map_sum (\<lambda>err. err) (\<lambda>m. (m, rest)) (mode_try_from n))"

definition decode_timestamp_in :: "bytes \<Rightarrow> negentropy \<Rightarrow> (neg_error + u64 \<times> bytes) \<times> negentropy" where
  "decode_timestamp_in encoded ng =
     (case decode_var_int encoded of
        Inl err \<Rightarrow> (Inl err, ng)
      | Inr (timestamp, rest) \<Rightarrow>
          let timestamp = sat_add (if timestamp = 0 then MAX_U64 else timestamp - 1) (ng_last_timestamp_in ng)
          in (Inr (timestamp, rest), ng\<lparr>ng_last_timestamp_in := timestamp\<rparr>))"

definition decode_bound_id :: "neg_lib \<Rightarrow> u64 \<Rightarrow> bytes \<Rightarrow> neg_error + bound \<times> bytes" where
  "decode_bound_id lib timestamp encoded =
     (case decode_var_int encoded of
        Inl err \<Rightarrow> Inl err
      | Inr (len, rest) \<Rightarrow>
          (case get_bytes (unat len) rest of
             Inl err \<Rightarrow> Inl err
           | Inr (i, rest') \<Rightarrow> map_sum (\<lambda>err. err) (\<lambda>b. (b, rest')) (bound_with_timestamp_and_id lib timestamp i)))"

definition decode_bound :: "neg_lib \<Rightarrow> bytes \<Rightarrow> negentropy \<Rightarrow> (neg_error + bound \<times> bytes) \<times> negentropy" where
  "decode_bound lib encoded ng =
     (case decode_timestamp_in encoded ng of
        (Inl err, ng') \<Rightarrow> (Inl err, ng')
      | (Inr (timestamp, rest), ng') \<Rightarrow> (decode_bound_id lib timestamp rest, ng'))"

section \<open>Encoding\<close>

definition encode_mode :: "mode \<Rightarrow> bytes" where
  "encode_mode m = encode_var_int (mode_as_u64 m)"

definition encode_timestamp_out :: "u64 \<Rightarrow> negentropy \<Rightarrow> bytes \<times> negentropy" where
  "encode_timestamp_out timestamp ng =
     (if timestamp = MAX_U64 then (encode_var_int 0, ng\<lparr>ng_last_timestamp_out := MAX_U64\<rparr>)
      else (encode_var_int (sat_add (sat_sub timestamp (ng_last_timestamp_out ng)) 1), ng\<lparr>ng_last_timestamp_out := timestamp\<rparr>))"

text \<open>\<open>Vec::resize\<close> with zeroes.\<close>

definition resize :: "bytes \<Rightarrow> nat \<Rightarrow> bytes" where
  "resize bs n = take n bs @ replicate (n - length bs) 0"

definition encode_bound :: "bound \<Rightarrow> negentropy \<Rightarrow> bytes \<times> negentropy" where
  "encode_bound b ng =
     (case encode_timestamp_out (it_timestamp (bd_item b)) ng of
        (timestamp, ng') \<Rightarrow> (timestamp @ encode_var_int (of_nat (bd_id_len b)) @ resize (it_id (bd_item b)) (bd_id_len b), ng'))"

fun shared_prefix :: "bytes \<Rightarrow> bytes \<Rightarrow> nat" where
  "shared_prefix (x # xs) (y # ys) = (if x \<noteq> y then 0 else Suc (shared_prefix xs ys))"
| "shared_prefix _ _ = 0"

text \<open>The slice \<open>curr_key[..=shared]\<close> is out of range when all 32 bytes agree.\<close>

definition get_minimal_bound :: "neg_lib \<Rightarrow> item \<Rightarrow> item \<Rightarrow> neg_error + bound" where
  "get_minimal_bound lib prev cur =
     (if it_timestamp cur \<noteq> it_timestamp prev then Inr (bound_with_timestamp lib (it_timestamp cur))
      else let shared = shared_prefix (it_id cur) (it_id prev)
           in if shared \<ge> length (it_id cur) then Inl Panicked
              else bound_with_timestamp_and_id lib (it_timestamp cur) (take (Suc shared) (it_id cur)))"

section \<open>Splitting a range\<close>

definition adjacent_items :: "neg_lib \<Rightarrow> item list \<Rightarrow> nat \<Rightarrow> neg_error + item \<times> item" where
  "adjacent_items lib storage cur =
     map_sum (\<lambda>err. err)
       (\<lambda>visited. fold (\<lambda>(item, index) (prev, after). if index = cur - 1 then (item, after) else (prev, item)) visited
          (item_with_timestamp lib 0, item_with_timestamp lib 0))
       (storage_iterate lib storage (cur - 1) (cur + 1))"

definition next_bound :: "neg_lib \<Rightarrow> item list \<Rightarrow> nat \<Rightarrow> nat \<Rightarrow> bound \<Rightarrow> neg_error + bound" where
  "next_bound lib storage cur upper upper_bound =
     (if cur = upper then Inr upper_bound
      else case adjacent_items lib storage cur of
             Inl err \<Rightarrow> Inl err
           | Inr (prev, after) \<Rightarrow> get_minimal_bound lib prev after)"

fun split_buckets :: "neg_lib \<Rightarrow> nat list \<Rightarrow> nat \<Rightarrow> nat \<Rightarrow> nat \<Rightarrow> nat \<Rightarrow> bound \<Rightarrow> bytes \<Rightarrow> negentropy \<Rightarrow> (neg_error + bytes) \<times> negentropy" where
  "split_buckets lib [] items_per_bucket buckets_with_extra cur upper upper_bound out ng = (Inr out, ng)"
| "split_buckets lib (i # is) items_per_bucket buckets_with_extra cur upper upper_bound out ng =
     (let bucket_size = items_per_bucket + (if i < buckets_with_extra then 1 else 0)
      in case storage_fingerprint lib (ng_storage ng) cur (cur + bucket_size) of
           Inl err \<Rightarrow> (Inl err, ng)
         | Inr our_fingerprint \<Rightarrow>
             (case next_bound lib (ng_storage ng) (cur + bucket_size) upper upper_bound of
                Inl err \<Rightarrow> (Inl err, ng)
              | Inr b \<Rightarrow>
                  (case encode_bound b ng of
                     (encoded, ng') \<Rightarrow>
                       split_buckets lib is items_per_bucket buckets_with_extra (cur + bucket_size) upper upper_bound
                         (out @ encoded @ encode_mode Fingerprint @ our_fingerprint) ng')))"

definition split_range :: "neg_lib \<Rightarrow> nat \<Rightarrow> nat \<Rightarrow> bound \<Rightarrow> negentropy \<Rightarrow> (neg_error + bytes) \<times> negentropy" where
  "split_range lib lower upper upper_bound ng =
     (if upper < lower then (Inl Panicked, ng)
      else if upper - lower < DOUBLE_BUCKETS then
        (case encode_bound upper_bound ng of
           (encoded, ng') \<Rightarrow>
             (case storage_iterate lib (ng_storage ng') lower upper of
                Inl err \<Rightarrow> (Inl err, ng')
              | Inr visited \<Rightarrow>
                  (Inr (encoded @ encode_mode IdList @ encode_var_int (of_nat (upper - lower)) @
                        concat (map (\<lambda>(item, _). it_id item) visited)), ng')))
      else split_buckets lib [0..<BUCKETS] ((upper - lower) div BUCKETS) ((upper - lower) mod BUCKETS) lower upper upper_bound [] ng)"

definition ng_initiate :: "neg_lib \<Rightarrow> negentropy \<Rightarrow> (neg_error + bytes) \<times> negentropy" where
  "ng_initiate lib ng =
     (if ng_is_initiator ng then (Inl AlreadyBuiltInitialMessage, ng)
      else let ng1 = ng\<lparr>ng_is_initiator := True\<rparr>
           in case split_range lib 0 (length (ng_storage ng1)) (bound_with_timestamp lib MAX_U64) ng1 of
                (Inl err, ng2) \<Rightarrow> (Inl err, ng2)
              | (Inr ranges, ng2) \<Rightarrow> (Inr (PROTOCOL_VERSION # ranges), ng2))"

section \<open>Answering a message\<close>

text \<open>The variables of \<open>reconcile_aux\<close> that live across ranges, with the engine.\<close>

record range_state =
  rs_engine :: negentropy
  rs_query :: bytes
  rs_output :: bytes
  rs_prev_bound :: bound
  rs_prev_index :: nat
  rs_skip :: bool
  rs_have :: "bytes list"
  rs_need :: "bytes list"

definition emit_skip :: "range_state \<Rightarrow> bytes \<times> range_state" where
  "emit_skip st =
     (if rs_skip st then
        (case encode_bound (rs_prev_bound st) (rs_engine st) of
           (encoded, ng) \<Rightarrow> (encoded @ encode_mode Skip, st\<lparr>rs_skip := False, rs_engine := ng\<rparr>))
      else ([], st))"

definition range_fingerprint :: "neg_lib \<Rightarrow> nat \<Rightarrow> nat \<Rightarrow> bound \<Rightarrow> range_state \<Rightarrow> (neg_error + bytes) \<times> range_state" where
  "range_fingerprint lib lower upper curr_bound st =
     (case get_bytes FINGERPRINT_SIZE (rs_query st) of
        Inl err \<Rightarrow> (Inl err, st)
      | Inr (their_fingerprint, rest) \<Rightarrow>
          let st1 = st\<lparr>rs_query := rest\<rparr>
          in case storage_fingerprint lib (ng_storage (rs_engine st1)) lower upper of
               Inl err \<Rightarrow> (Inl err, st1)
             | Inr our_fingerprint \<Rightarrow>
                 if their_fingerprint \<noteq> our_fingerprint then
                   (case emit_skip st1 of
                      (skipped, st2) \<Rightarrow>
                        (case split_range lib lower upper curr_bound (rs_engine st2) of
                           (Inl err, ng) \<Rightarrow> (Inl err, st2\<lparr>rs_engine := ng\<rparr>)
                         | (Inr ranges, ng) \<Rightarrow> (Inr (skipped @ ranges), st2\<lparr>rs_engine := ng\<rparr>)))
                 else (Inr [], st1\<lparr>rs_skip := True\<rparr>))"

text \<open>
  \<open>their_elems\<close> is a hash set; its elements are kept in the order of arrival, and only the set of the identifiers that
  remain in it is ever stated of the result.
\<close>

fun read_ids :: "nat \<Rightarrow> bytes \<Rightarrow> bytes list \<Rightarrow> neg_error + bytes list \<times> bytes" where
  "read_ids 0 query elems = Inr (elems, query)"
| "read_ids (Suc n) query elems =
     (case get_bytes ID_SIZE query of
        Inl err \<Rightarrow> Inl err
      | Inr (e, rest) \<Rightarrow> read_ids n rest (if e \<in> set elems then elems else elems @ [e]))"

definition compare_item :: "bool \<Rightarrow> item \<times> nat \<Rightarrow> bytes list \<times> bytes list \<Rightarrow> bytes list \<times> bytes list" where
  "compare_item initiator visited acc =
     (let k = it_id (fst visited); (have_ids, elems) = acc
      in if k \<notin> set elems then (if initiator then have_ids @ [k] else have_ids, elems)
         else (have_ids, removeAll k elems))"

fun collect_response :: "negentropy \<Rightarrow> nat \<Rightarrow> (item \<times> nat) list \<Rightarrow> bytes \<Rightarrow> nat \<Rightarrow> bytes \<times> nat \<times> (item \<times> nat) option" where
  "collect_response ng output_len [] response_ids n = (response_ids, n, None)"
| "collect_response ng output_len ((item, index) # visited) response_ids n =
     (if exceeded_frame_size_limit ng (output_len + length response_ids) then (response_ids, n, Some (item, index))
      else collect_response ng output_len visited (response_ids @ it_id item) (Suc n))"

definition respond_ids :: "neg_lib \<Rightarrow> nat \<Rightarrow> nat \<Rightarrow> bound \<Rightarrow> range_state \<Rightarrow> (neg_error + nat \<times> bool) \<times> range_state" where
  "respond_ids lib lower upper curr_bound st =
     (case emit_skip st of
        (skipped, st1) \<Rightarrow>
          (case storage_iterate lib (ng_storage (rs_engine st1)) lower upper of
             Inl err \<Rightarrow> (Inl err, st1)
           | Inr visited \<Rightarrow>
               (case collect_response (rs_engine st1) (length (rs_output st1)) visited [] 0 of
                  (response_ids, num_response_ids, stopped) \<Rightarrow>
                    let end_bound = (case stopped of None \<Rightarrow> curr_bound | Some (item, _) \<Rightarrow> bound_from_item lib item);
                        upper' = (case stopped of None \<Rightarrow> upper | Some (_, index) \<Rightarrow> index)
                    in case encode_bound end_bound (rs_engine st1) of
                         (encoded, ng) \<Rightarrow>
                           (Inr (upper', stopped \<noteq> None),
                            st1\<lparr>rs_engine := ng,
                                rs_output := rs_output st1 @ skipped @ encoded @ encode_mode IdList @
                                  encode_var_int (of_nat num_response_ids) @ response_ids\<rparr>))))"

definition range_id_list :: "neg_lib \<Rightarrow> nat \<Rightarrow> nat \<Rightarrow> bound \<Rightarrow> range_state \<Rightarrow> (neg_error + nat \<times> bool) \<times> range_state" where
  "range_id_list lib lower upper curr_bound st =
     (case decode_var_int (rs_query st) of
        Inl err \<Rightarrow> (Inl err, st)
      | Inr (num_ids, rest) \<Rightarrow>
          if unat num_ids > length rest div ID_SIZE then (Inl ParseEndsPrematurely, st\<lparr>rs_query := rest\<rparr>)
          else case read_ids (unat num_ids) rest [] of
                 Inl err \<Rightarrow> (Inl err, st)
               | Inr (their_elems, rest') \<Rightarrow>
                   (case storage_iterate lib (ng_storage (rs_engine st)) lower upper of
                      Inl err \<Rightarrow> (Inl err, st\<lparr>rs_query := rest'\<rparr>)
                    | Inr visited \<Rightarrow>
                        (case fold (compare_item (ng_is_initiator (rs_engine st))) visited (rs_have st, their_elems) of
                           (have_ids, remaining) \<Rightarrow>
                             if ng_is_initiator (rs_engine st) then
                               (Inr (upper, False),
                                st\<lparr>rs_query := rest', rs_have := have_ids, rs_skip := True, rs_need := rs_need st @ remaining\<rparr>)
                             else respond_ids lib lower upper curr_bound (st\<lparr>rs_query := rest', rs_have := have_ids\<rparr>))))"

text \<open>The end of one pass of the loop: \<open>True\<close> when the frame is full and the loop is left.\<close>

definition finish_range ::
  "neg_lib \<Rightarrow> nat \<Rightarrow> nat \<Rightarrow> bool \<Rightarrow> bound \<Rightarrow> u64 \<Rightarrow> bytes \<Rightarrow> range_state \<Rightarrow> (neg_error + bool) \<times> range_state" where
  "finish_range lib lower upper truncated curr_bound timestamp_before_range out st =
     (if truncated \<or> exceeded_frame_size_limit (rs_engine st) (length (rs_output st) + length out) then
        (let remaining = (if out = [] then upper else lower);
             ng1 = (if out \<noteq> [] then (rs_engine st)\<lparr>ng_last_timestamp_out := timestamp_before_range\<rparr> else rs_engine st);
             (skipped, ng2) =
               (if \<not> truncated then
                  (case encode_bound (if out = [] then curr_bound else rs_prev_bound st) ng1 of
                     (encoded, ng) \<Rightarrow> (encoded @ encode_mode Skip, ng))
                else ([], ng1))
         in case storage_fingerprint lib (ng_storage ng2) remaining (length (ng_storage ng2)) of
              Inl err \<Rightarrow> (Inl err, st\<lparr>rs_engine := ng2\<rparr>)
            | Inr remaining_fingerprint \<Rightarrow>
                (case encode_bound (bound_with_timestamp lib MAX_U64) ng2 of
                   (encoded, ng3) \<Rightarrow>
                     (Inr True,
                      st\<lparr>rs_engine := ng3,
                         rs_output := rs_output st @ skipped @ encoded @ encode_mode Fingerprint @ remaining_fingerprint\<rparr>)))
      else (Inr False, st\<lparr>rs_output := rs_output st @ out, rs_prev_index := upper, rs_prev_bound := curr_bound\<rparr>))"

definition reconcile_range :: "neg_lib \<Rightarrow> range_state \<Rightarrow> (neg_error + bool) \<times> range_state" where
  "reconcile_range lib st =
     (let timestamp_before_range = ng_last_timestamp_out (rs_engine st)
      in case decode_bound lib (rs_query st) (rs_engine st) of
           (Inl err, ng) \<Rightarrow> (Inl err, st\<lparr>rs_engine := ng\<rparr>)
         | (Inr (curr_bound, rest), ng) \<Rightarrow>
             (case decode_mode rest of
                Inl err \<Rightarrow> (Inl err, st\<lparr>rs_engine := ng\<rparr>)
              | Inr (m, rest') \<Rightarrow>
                  let st1 = st\<lparr>rs_engine := ng, rs_query := rest'\<rparr>;
                      lower = rs_prev_index st;
                      upper = storage_lower_bound lib (ng_storage ng) (rs_prev_index st) (length (ng_storage ng)) curr_bound
                  in case m of
                       Skip \<Rightarrow> finish_range lib lower upper False curr_bound timestamp_before_range [] (st1\<lparr>rs_skip := True\<rparr>)
                     | Fingerprint \<Rightarrow>
                         (case range_fingerprint lib lower upper curr_bound st1 of
                            (Inl err, st2) \<Rightarrow> (Inl err, st2)
                          | (Inr out, st2) \<Rightarrow> finish_range lib lower upper False curr_bound timestamp_before_range out st2)
                     | IdList \<Rightarrow>
                         (case range_id_list lib lower upper curr_bound st1 of
                            (Inl err, st2) \<Rightarrow> (Inl err, st2)
                          | (Inr (upper', truncated), st2) \<Rightarrow>
                              finish_range lib lower upper' truncated curr_bound timestamp_before_range [] st2)))"

text \<open>Every pass takes at least one byte from the message.\<close>

lemma map_sum_Inr: "map_sum f g x = Inr y \<longleftrightarrow> (\<exists>z. x = Inr z \<and> y = g z)"
  by (cases x) auto

lemma get_bytes_length: "get_bytes n bs = Inr (pre, rest) \<Longrightarrow> length rest = length bs - n"
  by (auto simp: get_bytes_Inr)

lemma read_ids_length: "read_ids n bs elems = Inr (ids, rest) \<Longrightarrow> length rest \<le> length bs"
proof (induction n arbitrary: bs elems)
  case (Suc n)
  then obtain e bs' where g: "get_bytes ID_SIZE bs = Inr (e, bs')" by (auto split: sum.splits)
  then have "length rest \<le> length bs'" using Suc.IH[of bs' "if e \<in> set elems then elems else elems @ [e]"] Suc.prems by simp
  then show ?case using get_bytes_length[OF g] by simp
qed simp

lemma emit_skip_query: "emit_skip st = (out, st') \<Longrightarrow> rs_query st' = rs_query st"
  by (auto simp: emit_skip_def split: prod.splits if_splits)

lemma finish_range_query: "finish_range lib lower upper tr cb t out st = (r, st') \<Longrightarrow> rs_query st' = rs_query st"
  by (auto simp: finish_range_def Let_def split: sum.splits prod.splits if_splits)

lemma respond_ids_query: "respond_ids lib lower upper cb st = (r, st') \<Longrightarrow> rs_query st' = rs_query st"
  by (auto simp: respond_ids_def Let_def split: sum.splits prod.splits dest: emit_skip_query)

lemma range_fingerprint_query:
  assumes "range_fingerprint lib lower upper cb st = (r, st')"
  shows "length (rs_query st') \<le> length (rs_query st)"
proof (cases "get_bytes FINGERPRINT_SIZE (rs_query st)")
  case (Inr p)
  obtain pre rest where p: "p = (pre, rest)" by force
  have "rs_query st' = rest"
    using assms Inr by (auto simp: p range_fingerprint_def Let_def split: sum.splits prod.splits if_splits dest!: emit_skip_query)
  then show ?thesis using get_bytes_length[OF Inr[unfolded p]] by simp
qed (use assms in \<open>simp add: range_fingerprint_def\<close>)

lemma range_id_list_query:
  assumes "range_id_list lib lower upper cb st = (Inr r, st')"
  shows "length (rs_query st') \<le> length (rs_query st)"
proof -
  obtain num rest where d: "decode_var_int (rs_query st) = Inr (num, rest)"
    using assms by (cases "decode_var_int (rs_query st)") (auto simp: range_id_list_def)
  obtain ids rest' where i: "read_ids (unat num) rest [] = Inr (ids, rest')"
    using assms d by (cases "read_ids (unat num) rest []") (auto simp: range_id_list_def split: if_splits)
  obtain visited where v: "storage_iterate lib (ng_storage (rs_engine st)) lower upper = Inr visited"
    using assms d i by (cases "storage_iterate lib (ng_storage (rs_engine st)) lower upper") (auto simp: range_id_list_def split: if_splits)
  have "rs_query st' = rest'"
    using assms d i v by (auto simp: range_id_list_def split: prod.splits if_splits dest!: respond_ids_query)
  then show ?thesis using read_ids_length[OF i] codec.read_shortens[OF d] by simp
qed

lemma decode_bound_length:
  assumes "decode_bound lib bs ng = (Inr (b, rest), ng')"
  shows "length rest < length bs"
proof -
  obtain ts r1 where t: "decode_var_int bs = Inr (ts, r1)"
    using assms by (cases "decode_var_int bs") (auto simp: decode_bound_def decode_timestamp_in_def)
  obtain len r2 where l: "decode_var_int r1 = Inr (len, r2)"
    using assms t by (cases "decode_var_int r1") (auto simp: decode_bound_def decode_timestamp_in_def decode_bound_id_def Let_def)
  obtain i r3 where g: "get_bytes (unat len) r2 = Inr (i, r3)"
    using assms t l by (cases "get_bytes (unat len) r2") (auto simp: decode_bound_def decode_timestamp_in_def decode_bound_id_def Let_def)
  have "r3 = rest" using assms t l g
    by (auto simp: decode_bound_def decode_timestamp_in_def decode_bound_id_def Let_def map_sum_Inr)
  then show ?thesis using codec.read_shortens[OF t] codec.read_shortens[OF l] get_bytes_length[OF g] by simp
qed

lemma decode_mode_length: "decode_mode bs = Inr (m, rest) \<Longrightarrow> length rest < length bs"
  by (auto simp: decode_mode_def map_sum_Inr split: sum.splits dest!: codec.read_shortens)

lemma reconcile_range_query:
  assumes "reconcile_range lib st = (Inr b, st')"
  shows "length (rs_query st') < length (rs_query st)"
proof -
  obtain cb rest ng where d: "decode_bound lib (rs_query st) (rs_engine st) = (Inr (cb, rest), ng)"
    using assms by (cases "decode_bound lib (rs_query st) (rs_engine st)")
      (auto simp: reconcile_range_def Let_def split: sum.splits)
  obtain m rest' where m: "decode_mode rest = Inr (m, rest')"
    using assms d by (cases "decode_mode rest") (auto simp: reconcile_range_def Let_def)
  have "length (rs_query st') \<le> length rest'"
  proof (cases m)
    case Skip
    then show ?thesis using assms d m by (auto simp: reconcile_range_def Let_def dest!: finish_range_query)
  next
    case Fingerprint
    then show ?thesis using assms d m
      by (auto simp: reconcile_range_def Let_def split: prod.splits sum.splits dest!: finish_range_query range_fingerprint_query)
  next
    case IdList
    then show ?thesis using assms d m
      by (auto simp: reconcile_range_def Let_def split: prod.splits sum.splits dest!: finish_range_query range_id_list_query)
  qed
  then show ?thesis using decode_bound_length[OF d] decode_mode_length[OF m] by simp
qed

function reconcile_ranges :: "neg_lib \<Rightarrow> range_state \<Rightarrow> (neg_error + unit) \<times> range_state" where
  "reconcile_ranges lib st =
     (if rs_query st = [] then (Inr (), st)
      else case reconcile_range lib st of
             (Inl err, st') \<Rightarrow> (Inl err, st')
           | (Inr True, st') \<Rightarrow> (Inr (), st')
           | (Inr False, st') \<Rightarrow> reconcile_ranges lib st')"
  by pat_completeness auto
termination
  by (relation "measure (\<lambda>(lib, st). length (rs_query st))") (auto dest: reconcile_range_query[OF sym])

declare reconcile_ranges.simps [simp del]

definition reconcile_aux :: "neg_lib \<Rightarrow> bytes \<Rightarrow> negentropy \<Rightarrow> (neg_error + bytes \<times> bytes list \<times> bytes list) \<times> negentropy" where
  "reconcile_aux lib query ng =
     (let ng1 = ng\<lparr>ng_last_timestamp_in := 0, ng_last_timestamp_out := 0\<rparr>
      in case get_bytes 1 query of
           Inl err \<Rightarrow> (Inl err, ng1)
         | Inr (version, rest) \<Rightarrow>
             if \<not> (0x60 \<le> hd version \<and> hd version \<le> 0x6F) then (Inl InvalidProtocolVersion, ng1)
             else if hd version \<noteq> PROTOCOL_VERSION then
               (if ng_is_initiator ng1 then Inl UnsupportedProtocolVersion else Inr ([PROTOCOL_VERSION], [], []), ng1)
             else case reconcile_ranges lib
                         \<lparr>rs_engine = ng1, rs_query = rest, rs_output = [PROTOCOL_VERSION], rs_prev_bound = bound_new lib,
                          rs_prev_index = 0, rs_skip = False, rs_have = [], rs_need = []\<rparr> of
                    (Inl err, st) \<Rightarrow> (Inl err, rs_engine st)
                  | (Inr _, st) \<Rightarrow> (Inr (rs_output st, rs_have st, rs_need st), rs_engine st))"

definition ng_reconcile :: "neg_lib \<Rightarrow> bytes \<Rightarrow> negentropy \<Rightarrow> (neg_error + bytes) \<times> negentropy" where
  "ng_reconcile lib query ng =
     (if ng_is_initiator ng then (Inl InitiatorError, ng)
      else case reconcile_aux lib query ng of
             (Inl err, ng') \<Rightarrow> (Inl err, ng')
           | (Inr (output, _, _), ng') \<Rightarrow> (Inr output, ng'))"

text \<open>The caller passes empty vectors; on success the identifiers that are held here only and there only come back with the frame.\<close>

definition ng_reconcile_with_ids ::
  "neg_lib \<Rightarrow> bytes \<Rightarrow> negentropy \<Rightarrow> (neg_error + bytes option \<times> bytes list \<times> bytes list) \<times> negentropy" where
  "ng_reconcile_with_ids lib query ng =
     (if \<not> ng_is_initiator ng then (Inl NonInitiatorError, ng)
      else case reconcile_aux lib query ng of
             (Inl err, ng') \<Rightarrow> (Inl err, ng')
           | (Inr (output, have_ids, need_ids), ng') \<Rightarrow>
               (Inr (if length output = 1 then None else Some output, have_ids, need_ids), ng'))"

end
