(* ===== verification/Negentropy_Ranges.thy ===== *)
theory Negentropy_Ranges
  imports Negentropy
begin

text \<open>
  What a frame says. A message is a list of ranges: an upper bound and a payload, each range starting where the one before
  ends. The frame of a message encodes the timestamps of the bounds as differences. A message is honest about a set of
  records when its fingerprints and identifier lists are those of the records in each range; a record is open in a message
  when it lies in a range that is not skipped.
\<close>

section \<open>Keys and laws\<close>

type_synonym key = "u64 \<times> bytes"

definition key :: "item \<Rightarrow> key" where
  "key x = (it_timestamp x, it_id x)"

definition bkey :: "bound \<Rightarrow> key" where
  "bkey b = key (bd_item b)"

abbreviation zeros :: "nat \<Rightarrow> bytes" where
  "zeros n \<equiv> replicate n 0"

definition portion :: "'a list \<Rightarrow> nat \<Rightarrow> nat \<Rightarrow> 'a list" where
  "portion xs l u = take (u - l) (drop l xs)"

definition fp :: "neg_lib \<Rightarrow> item list \<Rightarrow> bytes" where
  "fp lib xs = (case storage_fingerprint lib xs 0 (length xs) of Inr f \<Rightarrow> f | Inl _ \<Rightarrow> [])"

definition items_ok :: "item list \<Rightarrow> bool" where
  "items_ok xs \<longleftrightarrow> sorted_wrt (<) (map key xs) \<and> distinct (map it_id xs) \<and> (\<forall>x\<in>set xs. length (it_id x) = ID_SIZE \<and> it_timestamp x \<noteq> MAX_U64)"

text \<open>The bounds are plain data: a timestamp and a prefix of an identifier, filled with zeroes.\<close>

definition bound_law :: "neg_lib \<Rightarrow> bool" where
  "bound_law lib \<longleftrightarrow>
     bound_new lib = \<lparr>bd_item = \<lparr>it_timestamp = 0, it_id = zeros ID_SIZE\<rparr>, bd_id_len = 0\<rparr> \<and>
     (\<forall>t. bound_with_timestamp lib t = \<lparr>bd_item = \<lparr>it_timestamp = t, it_id = zeros ID_SIZE\<rparr>, bd_id_len = 0\<rparr>) \<and>
     (\<forall>t i. length i \<le> ID_SIZE \<longrightarrow> bound_with_timestamp_and_id lib t i =
        Inr \<lparr>bd_item = \<lparr>it_timestamp = t, it_id = i @ zeros (ID_SIZE - length i)\<rparr>, bd_id_len = length i\<rparr>) \<and>
     (\<forall>t i. length i > ID_SIZE \<longrightarrow> (\<exists>err. bound_with_timestamp_and_id lib t i = Inl err)) \<and>
     (\<forall>x. length (it_id x) = ID_SIZE \<longrightarrow> bound_from_item lib x = \<lparr>bd_item = x, bd_id_len = ID_SIZE\<rparr>)"

text \<open>The storage visits a valid range in order, finds the first item that is not below a bound, and fingerprints items of a range with 16 bytes.\<close>

definition storage_law :: "neg_lib \<Rightarrow> bool" where
  "storage_law lib \<longleftrightarrow>
     (\<forall>xs l u. l \<le> u \<and> u \<le> length xs \<longrightarrow> storage_iterate lib xs l u = Inr (zip (portion xs l u) [l..<u])) \<and>
     (\<forall>xs l b. items_ok xs \<and> l \<le> length xs \<longrightarrow>
        storage_lower_bound lib xs l (length xs) b = l + length (takeWhile (\<lambda>x. key x < bkey b) (drop l xs))) \<and>
     (\<forall>xs l u. l \<le> u \<and> u \<le> length xs \<longrightarrow>
        storage_fingerprint lib xs l u = Inr (fp lib (portion xs l u)) \<and> length (fp lib (portion xs l u)) = FINGERPRINT_SIZE)"

text \<open>Sealing sorts items with different identifiers by timestamp and identifier.\<close>

definition seal_law :: "neg_lib \<Rightarrow> bool" where
  "seal_law lib \<longleftrightarrow>
     (\<forall>xs. distinct (map it_id xs) \<longrightarrow> (\<exists>ys. storage_seal lib xs = Inr ys \<and> sorted_wrt (<) (map key ys) \<and> set ys = set xs))"

definition neg_laws :: "neg_lib \<Rightarrow> bool" where
  "neg_laws lib \<longleftrightarrow> bound_law lib \<and> storage_law lib \<and> seal_law lib"

section \<open>Messages\<close>

datatype payload = PSkip | PFingerprint bytes | PIds "bytes list"

type_synonym message = "(bound \<times> payload) list"

abbreviation bts :: "bound \<Rightarrow> u64" where
  "bts b \<equiv> it_timestamp (bd_item b)"

definition timestamp_bytes :: "u64 \<Rightarrow> u64 \<Rightarrow> bytes" where
  "timestamp_bytes previous t = (if t = MAX_U64 then [0] else encode_var_int (sat_add (sat_sub t previous) 1))"

definition bound_bytes :: "u64 \<Rightarrow> bound \<Rightarrow> bytes" where
  "bound_bytes previous b = timestamp_bytes previous (bts b) @ encode_var_int (of_nat (bd_id_len b)) @ resize (it_id (bd_item b)) (bd_id_len b)"

fun payload_bytes :: "payload \<Rightarrow> bytes" where
  "payload_bytes PSkip = encode_mode Skip"
| "payload_bytes (PFingerprint f) = encode_mode Fingerprint @ f"
| "payload_bytes (PIds ids) = encode_mode IdList @ encode_var_int (of_nat (length ids)) @ concat ids"

fun message_bytes :: "u64 \<Rightarrow> message \<Rightarrow> bytes" where
  "message_bytes previous [] = []"
| "message_bytes previous ((b, p) # ms) = bound_bytes previous b @ payload_bytes p @ message_bytes (bts b) ms"

fun last_ts :: "u64 \<Rightarrow> message \<Rightarrow> u64" where
  "last_ts previous [] = previous"
| "last_ts previous ((b, p) # ms) = last_ts (bts b) ms"

lemma message_bytes_append [simp]: "message_bytes t (ms @ ns) = message_bytes t ms @ message_bytes (last_ts t ms) ns"
  by (induction t ms rule: message_bytes.induct) auto

lemma last_ts_append [simp]: "last_ts t (ms @ ns) = last_ts (last_ts t ms) ns"
  by (induction t ms rule: last_ts.induct) auto

lemma encode_bound_eq: "encode_bound b ng = (bound_bytes (ng_last_timestamp_out ng) b, ng\<lparr>ng_last_timestamp_out := bts b\<rparr>)"
  by (simp add: encode_bound_def encode_timestamp_out_def bound_bytes_def timestamp_bytes_def)

section \<open>Reading a message back\<close>

definition bound_ok :: "bound \<Rightarrow> bool" where
  "bound_ok b \<longleftrightarrow> bd_id_len b \<le> ID_SIZE \<and> length (it_id (bd_item b)) = ID_SIZE \<and>
     drop (bd_id_len b) (it_id (bd_item b)) = zeros (ID_SIZE - bd_id_len b) \<and> (bts b = MAX_U64 \<longrightarrow> bd_id_len b = 0)"

lemma sat_add_sub:
  assumes "previous \<le> t" "t \<noteq> MAX_U64"
  shows "sat_add (sat_sub t previous) 1 \<noteq> 0" "sat_add (sat_add (sat_sub t previous) 1 - 1) previous = t"
proof -
  have t: "unat t < 2 ^ 64 - 1"
    using assms(2) unsigned_less[of t, where ?'a = nat] unfolding MAX_U64_def
    by (simp add: word_unat_eq_iff unsigned_minus_1_eq_mask mask_eq_exp_minus_1)
  have d: "unat (sat_sub t previous) = unat t - unat previous" using assms(1) by (simp add: sat_sub_def unat_sub)
  have a: "unat (sat_add (sat_sub t previous) 1) = unat t - unat previous + 1" using t d by simp
  then show n: "sat_add (sat_sub t previous) 1 \<noteq> 0" by (metis add_is_0 unsigned_0 zero_neq_one)
  have "unat (sat_add (sat_sub t previous) 1 - 1) = unat t - unat previous" using a n by (simp add: unat_minus_one)
  then have "unat (sat_add (sat_add (sat_sub t previous) 1 - 1) previous) = unat t"
    using t assms(1) by (simp add: word_le_nat_alt)
  then show "sat_add (sat_add (sat_sub t previous) 1 - 1) previous = t" by (simp add: word_unat_eq_iff)
qed

lemma sat_add_max [simp]: "sat_add MAX_U64 t = MAX_U64"
  by (simp add: word_unat_eq_iff MAX_U64_def unsigned_minus_1_eq_mask mask_eq_exp_minus_1)

lemma decode_timestamp_bytes:
  assumes "ng_last_timestamp_in ng \<le> t"
  shows "decode_timestamp_in (timestamp_bytes (ng_last_timestamp_in ng) t @ rest) ng = (Inr (t, rest), ng\<lparr>ng_last_timestamp_in := t\<rparr>)"
proof (cases "t = MAX_U64")
  case True
  then show ?thesis using codec.read_encode[of 0 rest] by (simp add: timestamp_bytes_def decode_timestamp_in_def)
next
  case False
  from sat_add_sub[OF assms this] False show ?thesis
    by (simp add: timestamp_bytes_def decode_timestamp_in_def codec.read_encode Let_def)
qed

lemma decode_bound_bytes:
  assumes "bound_law lib" and "bound_ok b" and "ng_last_timestamp_in ng \<le> bts b"
  shows "decode_bound lib (bound_bytes (ng_last_timestamp_in ng) b @ rest) ng = (Inr (b, rest), ng\<lparr>ng_last_timestamp_in := bts b\<rparr>)"
proof -
  let ?i = "take (bd_id_len b) (it_id (bd_item b))"
  have len: "bd_id_len b \<le> ID_SIZE" "length (it_id (bd_item b)) = ID_SIZE" using assms(2) by (simp_all add: bound_ok_def)
  have u: "unat (of_nat (bd_id_len b) :: u64) = bd_id_len b"
    using len(1) by (simp add: unsigned_of_nat take_bit_nat_eq_self)
  have r: "resize (it_id (bd_item b)) (bd_id_len b) = ?i" using len by (simp add: resize_def)
  have "?i @ zeros (ID_SIZE - bd_id_len b) = it_id (bd_item b)"
    using assms(2) append_take_drop_id[of "bd_id_len b" "it_id (bd_item b)"] by (simp add: bound_ok_def)
  then have "bound_with_timestamp_and_id lib (bts b) ?i = Inr b"
    using assms(1) len by (simp add: bound_law_def)
  then have "decode_bound_id lib (bts b) (encode_var_int (of_nat (bd_id_len b)) @ ?i @ rest) = Inr (b, rest)"
    using len by (simp add: decode_bound_id_def codec.read_encode u)
  then show ?thesis
    using decode_timestamp_bytes[OF assms(3), of "encode_var_int (of_nat (bd_id_len b)) @ ?i @ rest"]
    by (simp add: decode_bound_def bound_bytes_def r)
qed

lemma decode_encode_mode: "decode_mode (encode_mode m @ rest) = Inr (m, rest)"
  unfolding decode_mode_def encode_mode_def codec.read_encode
  by (cases m) (simp_all add: mode_as_u64_def mode_try_from_def)

lemma read_ids_concat:
  assumes "\<forall>i\<in>set ids. length i = ID_SIZE" and "distinct (elems @ ids)"
  shows "read_ids (length ids) (concat ids @ rest) elems = Inr (elems @ ids, rest)"
  using assms
proof (induction ids arbitrary: elems)
  case (Cons i ids)
  then show ?case using Cons.IH[of "elems @ [i]"] by simp
qed simp

section \<open>Ranges of a sorted storage\<close>

definition within :: "key \<Rightarrow> key \<Rightarrow> item list \<Rightarrow> item list" where
  "within lo hi xs = filter (\<lambda>x. lo \<le> key x \<and> key x < hi) xs"

definition idx :: "item list \<Rightarrow> key \<Rightarrow> nat" where
  "idx xs k = length (filter (\<lambda>x. key x < k) xs)"

lemma idx_le [simp]: "idx xs k \<le> length xs"
  by (simp add: idx_def)

lemma takeWhile_sorted: "sorted_wrt (<) (map key xs) \<Longrightarrow> takeWhile (\<lambda>x. key x < k) xs = filter (\<lambda>x. key x < k) xs"
proof (induction xs)
  case (Cons x xs)
  have "filter (\<lambda>y. key y < k) xs = []" if "\<not> key x < k"
    using Cons.prems that by (auto simp: filter_empty_conv)
  then show ?case using Cons by simp
qed simp

lemma take_idx: "sorted_wrt (<) (map key xs) \<Longrightarrow> take (idx xs k) xs = filter (\<lambda>x. key x < k) xs"
  by (metis idx_def takeWhile_eq_take takeWhile_sorted)

lemma drop_idx:
  assumes "sorted_wrt (<) (map key xs)"
  shows "drop (idx xs k) xs = filter (\<lambda>x. k \<le> key x) xs"
  using assms
proof (induction xs)
  case (Cons x xs)
  show ?case
  proof (cases "key x < k")
    case True
    then show ?thesis using Cons by (simp add: idx_def)
  next
    case False
    then have "\<forall>y\<in>set (x # xs). k \<le> key y" using Cons.prems by (auto intro: less_imp_le le_less_trans)
    moreover from this have "idx (x # xs) k = 0" by (auto simp: idx_def filter_empty_conv leD)
    ultimately show ?thesis by simp
  qed
qed simp

lemma portion_idx:
  assumes "sorted_wrt (<) (map key xs)" and "lo \<le> hi"
  shows "portion xs (idx xs lo) (idx xs hi) = within lo hi xs"
proof -
  let ?ys = "filter (\<lambda>x. key x < hi) xs"
  have "portion xs (idx xs lo) (idx xs hi) = drop (idx xs lo) ?ys"
    unfolding take_idx[OF assms(1), symmetric] by (simp add: portion_def drop_take)
  moreover have "idx xs lo = idx ?ys lo"
    using assms(2) by (auto simp: idx_def intro!: arg_cong[of _ _ length] filter_cong)
  moreover have "drop (idx ?ys lo) ?ys = filter (\<lambda>x. lo \<le> key x) ?ys"
    using assms(1) by (intro drop_idx) (simp add: sorted_wrt_filter sorted_wrt_map)
  ultimately show ?thesis by (simp add: within_def conj_commute)
qed

lemma idx_mono: "lo \<le> hi \<Longrightarrow> idx xs lo \<le> idx xs hi"
  unfolding idx_def by (induction xs) auto

lemma idx_within:
  assumes "sorted_wrt (<) (map key xs)" and "lo \<le> hi"
  shows "idx xs hi = idx xs lo + length (within lo hi xs)"
  using arg_cong[OF portion_idx[OF assms], of length] idx_mono[OF assms(2), of xs] idx_le[of xs hi]
  unfolding portion_def length_take length_drop by linarith

lemma lower_bound_idx:
  assumes "storage_law lib" and "items_ok xs" and "lo \<le> bkey b"
  shows "storage_lower_bound lib xs (idx xs lo) (length xs) b = idx xs (bkey b)"
proof -
  have s: "sorted_wrt (<) (map key xs)" using assms(2) by (simp add: items_ok_def)
  have "takeWhile (\<lambda>x. key x < bkey b) (drop (idx xs lo) xs) = within lo (bkey b) xs"
    using s by (simp add: drop_idx takeWhile_sorted sorted_wrt_filter sorted_wrt_map within_def conj_commute)
  then show ?thesis using assms idx_within[OF s assms(3)] by (simp add: storage_law_def)
qed

text \<open>The item at an index splits the storage there.\<close>

lemma idx_nth:
  assumes "sorted_wrt (<) (map key xs)" and "0 < i" and "i < length xs" and "key (xs ! (i - 1)) < k" and "k \<le> key (xs ! i)"
  shows "idx xs k = i"
proof -
  have "filter (\<lambda>x. key x < k) (take i xs) = take i xs"
  proof (rule filter_True, rule ballI)
    fix x assume "x \<in> set (take i xs)"
    then obtain j where j: "j < i" "x = xs ! j" by (auto simp: in_set_conv_nth)
    have "key (xs ! j) \<le> key (xs ! (i - 1))"
      using assms(1,3) j by (cases "j = i - 1") (auto simp: sorted_wrt_iff_nth_less intro!: less_imp_le)
    then show "key x < k" using assms(4) j by simp
  qed
  moreover have "filter (\<lambda>x. key x < k) (drop i xs) = []"
  proof (rule filter_False, rule ballI)
    fix x assume "x \<in> set (drop i xs)"
    then obtain j where j: "i + j < length xs" "x = xs ! (i + j)"
      unfolding in_set_conv_nth using assms(3) by (auto simp: less_diff_conv add.commute)
    have "key (xs ! i) \<le> key (xs ! (i + j))"
      using assms(1) j by (cases "j = 0") (auto simp: sorted_wrt_iff_nth_less intro!: less_imp_le)
    then show "\<not> key x < k" using order_trans[OF assms(5)] unfolding j(2) not_less by blast
  qed
  ultimately have "filter (\<lambda>x. key x < k) xs = take i xs" by (metis append.right_neutral append_take_drop_id filter_append)
  then show ?thesis using assms(3) by (simp add: idx_def)
qed

section \<open>Minimal bounds\<close>

lemma zeros_le: "length ys = n \<Longrightarrow> zeros n \<le> ys"
proof (induction ys arbitrary: n)
  case (Cons y ys)
  then show ?case by (cases "y = 0") (auto simp: word_neq_0_conv)
qed simp

lemma shared_prefix_bound:
  assumes "length xs = length ys" and "xs < ys"
  defines "m \<equiv> shared_prefix ys xs"
  shows "m < length ys \<and> xs < take (Suc m) ys @ zeros (length ys - Suc m) \<and> take (Suc m) ys @ zeros (length ys - Suc m) \<le> ys"
  using assms(1,2) unfolding m_def
proof (induction ys arbitrary: xs)
  case (Cons y ys)
  then obtain x xs' where xs: "xs = x # xs'" "length xs' = length ys" by (cases xs) auto
  show ?case
  proof (cases "x = y")
    case True
    then show ?thesis using Cons xs by simp
  next
    case False
    then show ?thesis using Cons.prems xs zeros_le[of ys "length ys"] by simp
  qed
qed simp

lemma minimal_bound:
  assumes "bound_law lib" and "key x < key y" and "length (it_id x) = ID_SIZE" "length (it_id y) = ID_SIZE" and "it_timestamp y \<noteq> MAX_U64"
  shows "\<exists>b. get_minimal_bound lib x y = Inr b \<and> bound_ok b \<and> key x < bkey b \<and> bkey b \<le> key y"
proof (cases "it_timestamp y = it_timestamp x")
  case False
  then have "it_timestamp x < it_timestamp y" using assms(2) by (auto simp: key_def)
  then show ?thesis
    using assms False zeros_le[OF assms(4)]
    by (simp add: get_minimal_bound_def bound_law_def bound_ok_def bkey_def key_def)
next
  case True
  then have "it_id x < it_id y" using assms(2) by (auto simp: key_def)
  from shared_prefix_bound[OF _ this] show ?thesis
    using assms True by (simp add: get_minimal_bound_def bound_law_def bound_ok_def bkey_def key_def Let_def min_def)
qed

end
