(* ===== verification/Negentropy_Honest.thy ===== *)
theory Negentropy_Honest
  imports Negentropy_Ranges
begin

text \<open>
  The engine answers honestly: whatever the role and however the frame limit cuts the answer, the frame encodes a message that is
  honest about the engine's own records, and a record that was open before and is no longer open is one that both sides
  hold, or none, or one that was reported.
\<close>

section \<open>Honest messages\<close>

definition payload_honest :: "neg_lib \<Rightarrow> item list \<Rightarrow> payload \<Rightarrow> bool" where
  "payload_honest lib ys p =
     (case p of PSkip \<Rightarrow> True | PFingerprint f \<Rightarrow> f = fp lib ys | PIds ids \<Rightarrow> ids = map it_id ys)"

fun honest :: "neg_lib \<Rightarrow> item list \<Rightarrow> key \<Rightarrow> message \<Rightarrow> bool" where
  "honest lib xs lo [] \<longleftrightarrow> True"
| "honest lib xs lo ((b, p) # ms) \<longleftrightarrow>
     bound_ok b \<and> lo \<le> bkey b \<and> payload_honest lib (within lo (bkey b) xs) p \<and> honest lib xs (bkey b) ms"

fun end_key :: "key \<Rightarrow> message \<Rightarrow> key" where
  "end_key lo [] = lo"
| "end_key lo ((b, p) # ms) = end_key (bkey b) ms"

fun open_key :: "key \<Rightarrow> message \<Rightarrow> key \<Rightarrow> bool" where
  "open_key lo [] k \<longleftrightarrow> False"
| "open_key lo ((b, p) # ms) k \<longleftrightarrow> (lo \<le> k \<and> k < bkey b \<and> p \<noteq> PSkip) \<or> open_key (bkey b) ms k"

lemma honest_append [simp]: "honest lib xs lo (ms @ ns) \<longleftrightarrow> honest lib xs lo ms \<and> honest lib xs (end_key lo ms) ns"
  by (induction lib xs lo ms rule: honest.induct) auto

lemma end_key_append [simp]: "end_key lo (ms @ ns) = end_key (end_key lo ms) ns"
  by (induction lo ms rule: end_key.induct) auto

lemma open_key_append [simp]: "open_key lo (ms @ ns) k \<longleftrightarrow> open_key lo ms k \<or> open_key (end_key lo ms) ns k"
  by (induction lo ms k rule: open_key.induct) auto

lemma last_ts_end: "last_ts (fst lo) ms = fst (end_key lo ms)"
proof (induction ms arbitrary: lo)
  case (Cons m ms)
  obtain b p where "m = (b, p)" by force
  then show ?case using Cons[of "bkey b"] by (simp add: bkey_def key_def)
qed simp

lemma bkey_ts: "lo \<le> bkey b \<Longrightarrow> fst lo \<le> bts b"
  by (auto simp: bkey_def key_def less_eq_prod_def)

lemma honest_order: "honest lib xs lo ms \<Longrightarrow> lo \<le> end_key lo ms"
  by (induction lib xs lo ms rule: honest.induct) auto

lemma all_open:
  assumes "honest lib xs lo ms" and "\<forall>(b, p)\<in>set ms. p \<noteq> PSkip" and "lo \<le> k" and "k < end_key lo ms"
  shows "open_key lo ms k"
  using assms
proof (induction lib xs lo ms rule: honest.induct)
  case (2 lib xs lo b p ms)
  then show ?case by (cases "k < bkey b") (auto simp: not_less)
qed simp

section \<open>The top of the key space\<close>

definition top_key :: key where
  "top_key = (MAX_U64, zeros ID_SIZE)"

definition bottom_key :: key where
  "bottom_key = (0, zeros ID_SIZE)"

lemma max_u64_ge [simp]: "t \<le> MAX_U64"
  by (simp add: MAX_U64_def)

lemma less_max: "t \<noteq> MAX_U64 \<Longrightarrow> t < MAX_U64"
  by (simp add: order.strict_iff_order)

lemma bkey_le_top: "bound_ok b \<Longrightarrow> bkey b \<le> top_key"
  by (cases "bts b = MAX_U64") (auto simp: bound_ok_def bkey_def key_def top_key_def less_eq_prod_def less_max)

lemma item_below_top: "it_timestamp x \<noteq> MAX_U64 \<Longrightarrow> key x < top_key"
  by (simp add: key_def top_key_def less_max)

lemma open_key_range:
  assumes "honest lib xs lo ms" and "open_key lo ms k"
  shows "lo \<le> k \<and> k < top_key"
  using assms
proof (induction lib xs lo ms rule: honest.induct)
  case (2 lib xs lo b p ms)
  then show ?case using bkey_le_top[of b] by auto
qed simp

lemma idx_top:
  assumes "items_ok xs"
  shows "idx xs top_key = length xs"
proof -
  have "filter (\<lambda>x. key x < top_key) xs = xs"
    using assms by (simp add: filter_id_conv items_ok_def item_below_top)
  then show ?thesis by (simp add: idx_def)
qed

lemma idx_bottom:
  assumes "items_ok xs"
  shows "idx xs bottom_key = 0"
proof -
  have "\<not> key x < bottom_key" if "x \<in> set xs" for x
    using assms that zeros_le[of "it_id x" ID_SIZE] by (auto simp: items_ok_def key_def bottom_key_def)
  then show ?thesis by (simp add: idx_def filter_empty_conv)
qed

lemma bound_max:
  assumes "bound_law lib"
  shows "bkey (bound_with_timestamp lib MAX_U64) = top_key" "bound_ok (bound_with_timestamp lib MAX_U64)"
    "bts (bound_with_timestamp lib MAX_U64) = MAX_U64"
  using assms by (simp_all add: bound_law_def bkey_def key_def top_key_def bound_ok_def)

lemma bound_bottom:
  assumes "bound_law lib"
  shows "bkey (bound_new lib) = bottom_key" "bound_ok (bound_new lib)" "bts (bound_new lib) = 0"
  using assms by (simp_all add: bound_law_def bkey_def key_def bottom_key_def bound_ok_def MAX_U64_def)

section \<open>Storage operations on ranges\<close>

lemma fingerprint_range:
  assumes "storage_law lib" and "items_ok xs" and "lo \<le> hi"
  shows "storage_fingerprint lib xs (idx xs lo) (idx xs hi) = Inr (fp lib (within lo hi xs))"
    and "length (fp lib (within lo hi xs)) = FINGERPRINT_SIZE"
proof -
  have s: "sorted_wrt (<) (map key xs)" using assms(2) by (simp add: items_ok_def)
  have "storage_fingerprint lib xs (idx xs lo) (idx xs hi) = Inr (fp lib (portion xs (idx xs lo) (idx xs hi))) \<and>
      length (fp lib (portion xs (idx xs lo) (idx xs hi))) = FINGERPRINT_SIZE"
    using assms(1) idx_mono[OF assms(3), of xs] unfolding storage_law_def by simp
  then show "storage_fingerprint lib xs (idx xs lo) (idx xs hi) = Inr (fp lib (within lo hi xs))"
    "length (fp lib (within lo hi xs)) = FINGERPRINT_SIZE" unfolding portion_idx[OF s assms(3)] by simp_all
qed

lemma fingerprint_tail:
  assumes "storage_law lib" and "items_ok xs" and "lo \<le> top_key"
  shows "storage_fingerprint lib xs (idx xs lo) (length xs) = Inr (fp lib (within lo top_key xs))"
  using fingerprint_range(1)[OF assms] unfolding idx_top[OF assms(2)] .

lemma iterate_range:
  assumes "storage_law lib" and "items_ok xs" and "lo \<le> hi"
  shows "storage_iterate lib xs (idx xs lo) (idx xs hi) = Inr (zip (within lo hi xs) [idx xs lo..<idx xs hi])"
proof -
  have s: "sorted_wrt (<) (map key xs)" using assms(2) by (simp add: items_ok_def)
  show ?thesis
    using assms(1) idx_mono[OF assms(3), of xs] portion_idx[OF s assms(3)] unfolding storage_law_def by simp
qed

lemma fst_zip_range:
  assumes "items_ok xs" and "lo \<le> hi"
  shows "map fst (zip (within lo hi xs) [idx xs lo..<idx xs hi]) = within lo hi xs"
  using idx_within[of xs lo hi] assms by (simp add: items_ok_def)

section \<open>Splitting\<close>

text \<open>What a part of the answer about the range from \<open>lo\<close> to \<open>hi\<close> has to be.\<close>

definition answers :: "neg_lib \<Rightarrow> item list \<Rightarrow> key \<Rightarrow> bound \<Rightarrow> message \<Rightarrow> bool" where
  "answers lib xs lo ub ms \<longleftrightarrow> honest lib xs lo ms \<and> end_key lo ms = bkey ub \<and> ms \<noteq> [] \<and> (\<forall>(b, p)\<in>set ms. p \<noteq> PSkip)"

text \<open>The buckets of a split: fingerprints of ranges none of which is empty.\<close>

fun filled :: "item list \<Rightarrow> key \<Rightarrow> message \<Rightarrow> bool" where
  "filled xs lo [] \<longleftrightarrow> True"
| "filled xs lo ((b, p) # ms) \<longleftrightarrow> (\<exists>f. p = PFingerprint f) \<and> within lo (bkey b) xs \<noteq> [] \<and> filled xs (bkey b) ms"

text \<open>A split is one list of identifiers, or buckets the first of which is smaller than the range.\<close>

definition split_shape :: "item list \<Rightarrow> key \<Rightarrow> bound \<Rightarrow> message \<Rightarrow> bool" where
  "split_shape xs lo ub ms \<longleftrightarrow> (\<exists>ids. ms = [(ub, PIds ids)]) \<or>
     (filled xs lo ms \<and> (\<exists>b p ms'. ms = (b, p) # ms' \<and> length (within lo (bkey b) xs) < length (within lo (bkey ub) xs)))"

lemma adjacent_items_eq:
  assumes "storage_law lib" and "0 < i" and "i < length xs"
  shows "adjacent_items lib xs i = Inr (xs ! (i - 1), xs ! i)"
proof -
  have "[i - 1..<i + 1] = [i - 1, i]" using assms(2) by (simp add: upt_conv_Cons)
  moreover have "portion xs (i - 1) (i + 1) = [xs ! (i - 1), xs ! i]"
  proof -
    have "drop (i - 1) xs = xs ! (i - 1) # xs ! i # drop (Suc i) xs"
      using assms(2,3) Cons_nth_drop_Suc[of "i - 1" xs] Cons_nth_drop_Suc[of i xs] by simp
    moreover have "i + 1 - (i - 1) = Suc (Suc 0)" using assms(2) by simp
    ultimately show ?thesis by (simp add: portion_def)
  qed
  ultimately have "storage_iterate lib xs (i - 1) (i + 1) = Inr [(xs ! (i - 1), i - 1), (xs ! i, i)]"
    using assms unfolding storage_law_def by simp
  then show ?thesis using assms(2) by (simp add: adjacent_items_def)
qed

lemma next_bound_inner:
  assumes laws: "bound_law lib" "storage_law lib" and xs: "items_ok xs" and i: "0 < i" "i < length xs" "i \<noteq> upper"
  shows "\<exists>b. next_bound lib xs i upper ub = Inr b \<and> bound_ok b \<and> idx xs (bkey b) = i"
proof -
  let ?x = "xs ! (i - 1)" and ?y = "xs ! i"
  have s: "sorted_wrt (<) (map key xs)" and mem: "?x \<in> set xs" "?y \<in> set xs" using xs i by (simp_all add: items_ok_def)
  have less: "key ?x < key ?y" using s i by (simp add: sorted_wrt_iff_nth_less)
  obtain b where b: "get_minimal_bound lib ?x ?y = Inr b" "bound_ok b" "key ?x < bkey b" "bkey b \<le> key ?y"
    using minimal_bound[OF laws(1) less] xs mem by (auto simp: items_ok_def)
  moreover have "idx xs (bkey b) = i" by (rule idx_nth[OF s i(1,2) b(3,4)])
  ultimately show ?thesis using i(3) adjacent_items_eq[OF laws(2) i(1,2)] by (simp add: next_bound_def)
qed

lemma idx_less: "idx xs lo < idx xs hi \<Longrightarrow> lo \<le> hi"
  using idx_mono[of hi lo xs] by (meson leD le_cases)

lemma split_buckets_answers:
  fixes q r :: nat
  assumes laws: "bound_law lib" "storage_law lib" and xs: "items_ok xs" and ub: "bound_ok ub" and q: "0 < q"
  defines "len \<equiv> (\<lambda>j. q + (if j < r then 1 else 0))"
  shows "ng_storage ng = xs \<Longrightarrow> lo \<le> bkey ub \<Longrightarrow> js \<noteq> [] \<Longrightarrow> idx xs lo + sum_list (map len js) = idx xs (bkey ub) \<Longrightarrow>
    \<exists>ms. split_buckets lib js q r (idx xs lo) (idx xs (bkey ub)) ub out ng =
        (Inr (out @ message_bytes (ng_last_timestamp_out ng) ms), ng\<lparr>ng_last_timestamp_out := bts ub\<rparr>) \<and> answers lib xs lo ub ms \<and>
      filled xs lo ms \<and> length (within lo (bkey (fst (hd ms))) xs) = len (hd js)"
proof (induction js arbitrary: lo out ng)
  case (Cons j js)
  have pos: "0 < len i" for i using q by (simp add: len_def)
  define i where "i = idx xs lo + len j"
  have size: "length (within lo k xs) = len j" if "lo \<le> k" "idx xs k = i" for k
    using idx_within[OF _ that(1), of xs] that(2) xs by (simp add: i_def items_ok_def)
  have size_pos: "within lo k xs \<noteq> []" if "lo \<le> k" "idx xs k = i" for k
    using size[OF that] pos[of j] by auto
  show ?case
  proof (cases "js = []")
    case True
    then have i: "i = idx xs (bkey ub)" using Cons.prems(4) by (simp add: i_def)
    have "storage_fingerprint lib xs (idx xs lo) i = Inr (fp lib (within lo (bkey ub) xs))"
      unfolding i by (rule fingerprint_range[OF laws(2) xs Cons.prems(2)])
    moreover have "next_bound lib xs i (idx xs (bkey ub)) ub = Inr ub" by (simp add: i next_bound_def)
    ultimately show ?thesis
      using Cons.prems True ub size[OF Cons.prems(2) i[symmetric]] size_pos[OF Cons.prems(2) i[symmetric]]
      by (intro exI[of _ "[(ub, PFingerprint (fp lib (within lo (bkey ub) xs)))]"])
        (simp add: answers_def payload_honest_def encode_bound_eq Let_def i_def len_def)
  next
    case False
    then have "0 < sum_list (map len js)" using pos by (cases js) auto
    then have less: "i < idx xs (bkey ub)" using Cons.prems(4) by (simp add: i_def)
    then have "i < length xs" using idx_le[of xs "bkey ub"] by linarith
    moreover have "0 < i" using pos[of j] by (simp add: i_def)
    ultimately obtain b where b: "next_bound lib xs i (idx xs (bkey ub)) ub = Inr b" "bound_ok b" "idx xs (bkey b) = i"
      using next_bound_inner[OF laws xs, of i "idx xs (bkey ub)" ub] less by blast
    have lo: "lo \<le> bkey b" by (rule idx_less[of xs]) (use b(3) pos[of j] in \<open>simp add: i_def\<close>)
    have hi: "bkey b \<le> bkey ub" by (rule idx_less[of xs]) (use b(3) less in simp)
    have f: "storage_fingerprint lib xs (idx xs lo) i = Inr (fp lib (within lo (bkey b) xs))"
      using fingerprint_range(1)[OF laws(2) xs lo] unfolding b(3) .
    let ?p = "PFingerprint (fp lib (within lo (bkey b) xs))"
    let ?ng = "ng\<lparr>ng_last_timestamp_out := bts b\<rparr>"
    let ?out = "out @ bound_bytes (ng_last_timestamp_out ng) b @ payload_bytes ?p"
    have "idx xs (bkey b) + sum_list (map len js) = idx xs (bkey ub)" using Cons.prems(4) b(3) by (simp add: i_def)
    from Cons.IH[of ?ng "bkey b" ?out, OF _ hi False this] obtain ms where
      ms: "split_buckets lib js q r i (idx xs (bkey ub)) ub ?out ?ng =
        (Inr (?out @ message_bytes (bts b) ms), ng\<lparr>ng_last_timestamp_out := bts ub\<rparr>)" "answers lib xs (bkey b) ub ms" "filled xs (bkey b) ms"
      unfolding b(3) using Cons.prems(1) by auto
    have "split_buckets lib (j # js) q r (idx xs lo) (idx xs (bkey ub)) ub out ng =
        split_buckets lib js q r i (idx xs (bkey ub)) ub ?out ?ng"
      using f b(1) Cons.prems(1) by (simp add: Let_def i_def len_def encode_bound_eq)
    then show ?thesis
      using ms b(2) lo size[OF lo b(3)] size_pos[OF lo b(3)]
      by (intro exI[of _ "(b, ?p) # ms"]) (simp add: answers_def payload_honest_def)
  qed
qed simp

lemma sum_buckets: "sum_list (map (\<lambda>j. n div BUCKETS + (if j < n mod BUCKETS then 1 else 0)) [0..<BUCKETS]) = n"
proof -
  have "sum_list (map (\<lambda>j. if j < r then 1 else 0 :: nat) [0..<k]) = min k r" for k r
    by (induction k) auto
  then have "sum_list (map (\<lambda>j. n div BUCKETS + (if j < n mod BUCKETS then 1 else 0)) [0..<BUCKETS]) =
      BUCKETS * (n div BUCKETS) + min BUCKETS (n mod BUCKETS)"
    by (simp add: sum_list_addf sum_list_triv)
  then show ?thesis by (simp add: BUCKETS_def)
qed

lemma split_range_answers:
  assumes laws: "bound_law lib" "storage_law lib" and xs: "items_ok xs" and ub: "bound_ok ub"
    and "ng_storage ng = xs" and lo: "lo \<le> bkey ub"
  shows "\<exists>ms. split_range lib (idx xs lo) (idx xs (bkey ub)) ub ng =
      (Inr (message_bytes (ng_last_timestamp_out ng) ms), ng\<lparr>ng_last_timestamp_out := bts ub\<rparr>) \<and> answers lib xs lo ub ms \<and> split_shape xs lo ub ms"
proof (cases "idx xs (bkey ub) - idx xs lo < DOUBLE_BUCKETS")
  case True
  let ?ys = "within lo (bkey ub) xs"
  have len: "idx xs (bkey ub) - idx xs lo = length ?ys"
    using idx_within[of xs lo "bkey ub"] lo xs by (simp add: items_ok_def)
  have "concat (map (\<lambda>(x, _). it_id x) (zip ?ys [idx xs lo..<idx xs (bkey ub)])) = concat (map it_id ?ys)"
    using fst_zip_range[OF xs lo] by (metis (no_types, lifting) case_prod_beta' map_map comp_def map_cong)
  then have "split_range lib (idx xs lo) (idx xs (bkey ub)) ub ng =
      (Inr (message_bytes (ng_last_timestamp_out ng) [(ub, PIds (map it_id ?ys))]), ng\<lparr>ng_last_timestamp_out := bts ub\<rparr>)"
    using True assms(5) iterate_range[OF laws(2) xs lo] idx_mono[OF lo, of xs] len
    by (simp add: split_range_def encode_bound_eq)
  then show ?thesis using ub lo
    by (intro exI[of _ "[(ub, PIds (map it_id ?ys))]"]) (simp add: answers_def payload_honest_def split_shape_def)
next
  case False
  let ?n = "idx xs (bkey ub) - idx xs lo"
  have q: "0 < ?n div BUCKETS" using False by (simp add: DOUBLE_BUCKETS_def BUCKETS_def div_greater_zero_iff)
  have "idx xs lo + sum_list (map (\<lambda>j. ?n div BUCKETS + (if j < ?n mod BUCKETS then 1 else 0)) [0..<BUCKETS]) = idx xs (bkey ub)"
    unfolding sum_buckets using idx_mono[OF lo, of xs] by simp
  from split_buckets_answers[OF laws xs ub q assms(5) lo _ this, of "[]"] obtain ms where
    ms: "split_range lib (idx xs lo) (idx xs (bkey ub)) ub ng =
      (Inr (message_bytes (ng_last_timestamp_out ng) ms), ng\<lparr>ng_last_timestamp_out := bts ub\<rparr>)"
    "answers lib xs lo ub ms" "filled xs lo ms" "length (within lo (bkey (fst (hd ms))) xs) \<le> ?n div BUCKETS + 1"
    using False idx_mono[OF lo, of xs] by (force simp: split_range_def BUCKETS_def upt_conv_Cons)
  obtain b p ms' where cons: "ms = (b, p) # ms'" using ms(2) by (cases ms) (auto simp: answers_def)
  have "?n div BUCKETS + 1 < ?n" using False by (simp add: DOUBLE_BUCKETS_def BUCKETS_def)
  also have "?n = length (within lo (bkey ub) xs)" using idx_within[of xs lo "bkey ub"] lo xs by (simp add: items_ok_def)
  finally have "split_shape xs lo ub ms" using ms(3,4) by (auto simp: split_shape_def cons)
  with ms show ?thesis by blast
qed

end
