(* ===== verification/Negentropy_Sizes.thy ===== *)
theory Negentropy_Sizes
  imports Negentropy_Honest
begin

text \<open>How long the parts of a frame can be, and that a valid range can always be split.\<close>

section \<open>Lengths\<close>

definition short_bound :: "bound \<Rightarrow> bool" where
  "short_bound b \<longleftrightarrow> bd_id_len b \<le> ID_SIZE"

lemma bound_bytes_length: "short_bound b \<Longrightarrow> length (bound_bytes t b) \<le> 43"
proof -
  assume b: "short_bound b"
  have "unat (of_nat (bd_id_len b) :: u64) < 128"
    using b by (simp add: short_bound_def unsigned_of_nat take_bit_nat_eq_self)
  then have "length (encode_var_int (of_nat (bd_id_len b))) = 1" by (rule encode_var_int_short)
  moreover have "length (timestamp_bytes t (bts b)) \<le> 10" using encode_var_int_length by (simp add: timestamp_bytes_def)
  ultimately show ?thesis using b by (simp add: bound_bytes_def resize_def short_bound_def)
qed

lemma encode_mode_length [simp]: "length (encode_mode m) = 1"
  unfolding encode_mode_def by (rule encode_var_int_short) (cases m; simp add: mode_as_u64_def)

lemma bound_ok_short: "bound_ok b \<Longrightarrow> short_bound b"
  by (simp add: bound_ok_def short_bound_def)

lemma concat_length: "\<forall>v\<in>set vs. length (g v) = n \<Longrightarrow> length (concat (map g vs)) = n * length vs"
  by (induction vs) auto

section \<open>Splitting any valid range\<close>

lemma fingerprint_valid:
  assumes "storage_law lib" and "l \<le> u" and "u \<le> length xs"
  shows "\<exists>f. storage_fingerprint lib xs l u = Inr f \<and> length f = FINGERPRINT_SIZE"
  using assms unfolding storage_law_def by simp

lemma split_buckets_total:
  fixes q r :: nat
  assumes laws: "bound_law lib" "storage_law lib" and xs: "items_ok xs" and q: "0 < q" and ub: "short_bound ub" and u: "upper \<le> length xs"
  defines "len \<equiv> (\<lambda>j. q + (if j < r then 1 else 0))"
  shows "ng_storage ng = xs \<Longrightarrow> cur + sum_list (map len js) = upper \<Longrightarrow>
    \<exists>out' t. split_buckets lib js q r cur upper ub out ng = (Inr out', ng\<lparr>ng_last_timestamp_out := t\<rparr>) \<and> length out' \<le> length out + 60 * length js"
proof (induction js arbitrary: cur out ng)
  case Nil
  then show ?case by (intro exI[of _ out] exI[of _ "ng_last_timestamp_out ng"]) simp
next
  case (Cons j js)
  define i where "i = cur + len j"
  have pos: "0 < len j" using q by (simp add: len_def)
  have iu: "i \<le> upper" "i + sum_list (map len js) = upper" using Cons.prems(2) by (simp_all add: i_def)
  obtain f where f: "storage_fingerprint lib xs cur i = Inr f" "length f = FINGERPRINT_SIZE"
    using fingerprint_valid[OF laws(2), of cur i xs] iu u by (auto simp: i_def)
  obtain b where b: "next_bound lib xs i upper ub = Inr b" "short_bound b"
  proof (cases "i = upper")
    case True
    then show ?thesis using that ub by (simp add: next_bound_def)
  next
    case False
    then have "0 < i" "i < length xs" using iu u pos by (simp_all add: i_def)
    from next_bound_inner[OF laws xs this False] that show ?thesis using bound_ok_short by blast
  qed
  let ?ng = "ng\<lparr>ng_last_timestamp_out := bts b\<rparr>"
  let ?out = "out @ bound_bytes (ng_last_timestamp_out ng) b @ encode_mode Fingerprint @ f"
  from Cons.IH[of ?ng i ?out] Cons.prems(1) iu(2) obtain out' t where
    o: "split_buckets lib js q r i upper ub ?out ?ng = (Inr out', ?ng\<lparr>ng_last_timestamp_out := t\<rparr>)" "length out' \<le> length ?out + 60 * length js"
    by auto
  have "split_buckets lib (j # js) q r cur upper ub out ng = (Inr out', ng\<lparr>ng_last_timestamp_out := t\<rparr>)"
    using f(1) b(1) Cons.prems(1) o(1) by (simp add: Let_def i_def len_def encode_bound_eq)
  moreover have "length ?out \<le> length out + 60" using bound_bytes_length[OF b(2)] f(2) by simp
  ultimately show ?case using o(2) by (intro exI[of _ out'] exI[of _ t]) simp
qed

lemma split_range_total:
  assumes laws: "bound_law lib" "storage_law lib" and xs: "items_ok xs" and ub: "short_bound ub"
    and i: "lower \<le> upper" "upper \<le> length xs" and s: "ng_storage ng = xs"
  shows "\<exists>out t. split_range lib lower upper ub ng = (Inr out, ng\<lparr>ng_last_timestamp_out := t\<rparr>) \<and> length out \<le> 1037"
proof (cases "upper - lower < DOUBLE_BUCKETS")
  case True
  let ?zs = "portion xs lower upper"
  have it: "storage_iterate lib xs lower upper = Inr (zip ?zs [lower..<upper])" using laws(2) i unfolding storage_law_def by simp
  have n: "length ?zs \<le> 31" using True i by (simp add: portion_def DOUBLE_BUCKETS_def BUCKETS_def)
  let ?vs = "zip ?zs [lower..<upper]"
  have "\<forall>v\<in>set ?vs. length (case v of (x, _) \<Rightarrow> it_id x) = ID_SIZE"
    using xs by (auto simp: items_ok_def portion_def dest!: set_zip_leftD in_set_takeD in_set_dropD)
  from concat_length[OF this] have ids: "length (concat (map (\<lambda>(x, _). it_id x) ?vs)) \<le> ID_SIZE * 31" using n by simp
  have "unat (of_nat (upper - lower) :: u64) < 128"
    using True by (simp add: DOUBLE_BUCKETS_def BUCKETS_def unsigned_of_nat take_bit_nat_eq_self)
  note enc = encode_var_int_short[OF this]
  have "split_range lib lower upper ub ng = (Inr (bound_bytes (ng_last_timestamp_out ng) ub @ encode_mode IdList @
      encode_var_int (of_nat (upper - lower)) @ concat (map (\<lambda>(x, _). it_id x) ?vs)), ng\<lparr>ng_last_timestamp_out := bts ub\<rparr>)"
    using True i s it by (simp add: split_range_def encode_bound_eq)
  then show ?thesis using ids enc bound_bytes_length[OF ub, of "ng_last_timestamp_out ng"]
    by (intro exI[of _ "bound_bytes (ng_last_timestamp_out ng) ub @ encode_mode IdList @
        encode_var_int (of_nat (upper - lower)) @ concat (map (\<lambda>(x, _). it_id x) ?vs)"] exI[of _ "bts ub"]) simp
next
  case False
  let ?n = "upper - lower"
  have q: "0 < ?n div BUCKETS" using False by (simp add: DOUBLE_BUCKETS_def BUCKETS_def div_greater_zero_iff)
  have "lower + sum_list (map (\<lambda>j. ?n div BUCKETS + (if j < ?n mod BUCKETS then 1 else 0)) [0..<BUCKETS]) = upper"
    unfolding sum_buckets using i by simp
  from split_buckets_total[OF laws xs q ub i(2) s this, of "[]"] show ?thesis
    using False i by (fastforce simp: split_range_def BUCKETS_def)
qed

end
