(* ===== verification/Negentropy_Loop.thy ===== *)
theory Negentropy_Loop
  imports Negentropy_Sizes
begin

text \<open>
  The loop of \<open>reconcile_aux\<close> over an honest message: one lemma per mode and per way a pass ends, then the whole message by
  induction on its ranges.
\<close>

section \<open>What a pass keeps and settles\<close>

text \<open>
  Two snapshots can be compared: an identifier stands for one record, and ranges with the same fingerprint hold the same
  records. The second is the collision resistance that the fingerprints are chosen for.
\<close>

definition collision_free :: "neg_lib \<Rightarrow> item list \<Rightarrow> item list \<Rightarrow> bool" where
  "collision_free lib xs ys \<longleftrightarrow>
     (\<forall>lo hi. fp lib (within lo hi xs) = fp lib (within lo hi ys) \<longrightarrow> within lo hi xs = within lo hi ys)"

definition comparable :: "neg_lib \<Rightarrow> item list \<Rightarrow> item list \<Rightarrow> bool" where
  "comparable lib xs ys \<longleftrightarrow> items_ok xs \<and> items_ok ys \<and>
     (\<forall>x\<in>set xs. \<forall>y\<in>set ys. it_id x = it_id y \<longrightarrow> x = y) \<and> collision_free lib xs ys"

definition settled :: "bool \<Rightarrow> item list \<Rightarrow> item list \<Rightarrow> bytes list \<Rightarrow> bytes list \<Rightarrow> key \<Rightarrow> bool" where
  "settled initiator xs ys h n k \<longleftrightarrow>
     (k \<in> key ` set xs \<longleftrightarrow> k \<in> key ` set ys) \<or>
     (initiator \<and> (k \<in> key ` set xs \<longrightarrow> snd k \<in> set h) \<and> (k \<in> key ` set ys \<longrightarrow> snd k \<in> set n))"

definition reports :: "bool \<Rightarrow> item list \<Rightarrow> item list \<Rightarrow> bytes list \<Rightarrow> bytes list \<Rightarrow> bool" where
  "reports initiator xs ys h n \<longleftrightarrow>
     set h \<subseteq> it_id ` (set xs - set ys) \<and> set n \<subseteq> it_id ` (set ys - set xs) \<and> (\<not> initiator \<longrightarrow> h = [] \<and> n = [])"

lemma comparable_sym: "comparable lib xs ys \<Longrightarrow> comparable lib ys xs"
  unfolding comparable_def collision_free_def by metis

lemma comparable_fp:
  "comparable lib xs ys \<Longrightarrow> fp lib (within lo hi ys) = fp lib (within lo hi xs) \<Longrightarrow> within lo hi xs = within lo hi ys"
  unfolding comparable_def collision_free_def by metis

lemma settled_append: "settled i xs ys h n k \<or> settled i xs ys h' n' k \<Longrightarrow> settled i xs ys (h @ h') (n @ n') k"
  by (auto simp: settled_def)

lemma reports_append: "reports i xs ys h n \<Longrightarrow> reports i xs ys h' n' \<Longrightarrow> reports i xs ys (h @ h') (n @ n')"
  by (auto simp: reports_def)

lemma reports_Nil [simp]: "reports i xs ys [] []"
  by (simp add: reports_def)

lemma within_settled:
  assumes "within lo hi xs = within lo hi ys" and "lo \<le> k" "k < hi"
  shows "settled i xs ys h n k"
proof -
  have "k \<in> key ` set zs \<longleftrightarrow> k \<in> key ` set (within lo hi zs)" for zs
    using assms(2,3) by (auto simp: within_def)
  from this[of xs] this[of ys] show ?thesis using assms(1) by (simp add: settled_def)
qed

section \<open>Progress\<close>

text \<open>
  The keys of both sides, with the least key so that there is one even when both are empty; a message whose identifier lists cover some key, and whose fingerprints cover some key or
  lie behind all keys; the first range of a message that is not skipped.
\<close>

abbreviation all_keys :: "item list \<Rightarrow> item list \<Rightarrow> key set" where
  "all_keys xs ys \<equiv> insert bottom_key (key ` (set xs \<union> set ys))"

definition occupied :: "key set \<Rightarrow> key \<Rightarrow> key \<Rightarrow> bool" where
  "occupied K lo hi \<longleftrightarrow> (\<exists>k\<in>K. lo \<le> k \<and> k < hi)"

fun is_ids :: "payload \<Rightarrow> bool" where
  "is_ids (PIds _) = True"
| "is_ids _ = False"

fun busy :: "key set \<Rightarrow> key \<Rightarrow> message \<Rightarrow> bool" where
  "busy K lo [] \<longleftrightarrow> True"
| "busy K lo ((b, p) # ms) \<longleftrightarrow>
     (p \<noteq> PSkip \<longrightarrow> occupied K lo (bkey b) \<or> (\<not> is_ids p \<and> (\<forall>k\<in>K. k < lo))) \<and> busy K (bkey b) ms"

fun first_open :: "key \<Rightarrow> message \<Rightarrow> (key \<times> bound \<times> payload) option" where
  "first_open lo [] = None"
| "first_open lo ((b, p) # ms) = (if p = PSkip then first_open (bkey b) ms else Some (lo, b, p))"

text \<open>
  What a pass does to the first range that is not skipped: it answers nothing, or it answers from the same key on, with a
  list of identifiers or with fingerprints the first of which covers fewer of the engine's own records.
\<close>

definition advances :: "bool \<Rightarrow> item list \<Rightarrow> key \<Rightarrow> bound \<Rightarrow> payload \<Rightarrow> message \<Rightarrow> bool" where
  "advances i xs lo cb p new \<longleftrightarrow>
     new = [] \<and> (is_ids p \<longrightarrow> i) \<or>
     (\<exists>b' p'. first_open bottom_key new = Some (lo, b', p') \<and> p \<noteq> PSkip \<and> bkey b' \<le> bkey cb \<and> (is_ids p \<longrightarrow> \<not> i \<and> is_ids p') \<and>
        (is_ids p' \<or> length (within lo (bkey b') xs) < length (within lo (bkey cb) xs)))"

lemma busy_append [simp]: "busy K lo (ms @ ns) \<longleftrightarrow> busy K lo ms \<and> busy K (end_key lo ms) ns"
  by (induction K lo ms rule: busy.induct) auto

lemma first_open_append:
  "first_open lo (ms @ ns) = (case first_open lo ms of None \<Rightarrow> first_open (end_key lo ms) ns | Some r \<Rightarrow> Some r)"
proof (induction ms arbitrary: lo)
  case (Cons m ms)
  obtain b p where "m = (b, p)" by force
  then show ?case using Cons[of "bkey b"] by (cases "first_open (bkey b) ms") simp_all
qed simp

lemma within_occupied: "within lo hi zs \<noteq> [] \<Longrightarrow> key ` set zs \<subseteq> K \<Longrightarrow> occupied K lo hi"
  by (fastforce simp: within_def occupied_def filter_empty_conv)

lemma filled_busy: "filled xs lo ms \<Longrightarrow> key ` set xs \<subseteq> K \<Longrightarrow> busy K lo ms"
  by (induction xs lo ms rule: filled.induct) (auto intro: within_occupied)

lemma own_keys: "key ` set xs \<subseteq> all_keys xs ys" "key ` set ys \<subseteq> all_keys xs ys"
  by auto

lemma bottom_below_top: "bottom_key < top_key"
  by (simp add: bottom_key_def top_key_def MAX_U64_def less_prod_def word_gt_0)

lemma keys_below_top: "items_ok xs \<Longrightarrow> items_ok ys \<Longrightarrow> k \<in> all_keys xs ys \<Longrightarrow> k < top_key"
  using item_below_top bottom_below_top by (auto simp: items_ok_def)

definition loop_ok :: "neg_lib \<Rightarrow> item list \<Rightarrow> range_state \<Rightarrow> message \<Rightarrow> bool" where
  "loop_ok lib xs st out \<longleftrightarrow>
     4096 \<le> ng_frame_size_limit (rs_engine st) \<and> length (rs_output st) \<le> ng_frame_size_limit (rs_engine st) - 200 \<and>
     ng_storage (rs_engine st) = xs \<and> rs_output st = PROTOCOL_VERSION # message_bytes 0 out \<and> honest lib xs bottom_key out \<and>
     ng_last_timestamp_out (rs_engine st) = last_ts 0 out \<and>
     rs_prev_index st = idx xs (bkey (rs_prev_bound st)) \<and> bound_ok (rs_prev_bound st) \<and>
     end_key bottom_key out \<le> bkey (rs_prev_bound st) \<and> (\<not> rs_skip st \<longrightarrow> end_key bottom_key out = bkey (rs_prev_bound st))"

lemma loop_ok_input:
  "loop_ok lib xs st out \<Longrightarrow> loop_ok lib xs (st\<lparr>rs_engine := (rs_engine st)\<lparr>ng_last_timestamp_in := t\<rparr>, rs_query := q\<rparr>) out"
  by (auto simp: loop_ok_def)

section \<open>Ends of a pass\<close>

lemma emit_skip_ok:
  assumes "loop_ok lib xs st out"
  defines "sk \<equiv> if rs_skip st then [(rs_prev_bound st, PSkip)] else []"
  shows "emit_skip st = (message_bytes (last_ts 0 out) sk,
      st\<lparr>rs_skip := False, rs_engine := (rs_engine st)\<lparr>ng_last_timestamp_out := last_ts 0 (out @ sk)\<rparr>\<rparr>)"
    and "honest lib xs bottom_key (out @ sk)" and "end_key bottom_key (out @ sk) = bkey (rs_prev_bound st)"
    and "\<not> open_key lo sk k"
  using assms by (auto simp: loop_ok_def emit_skip_def encode_bound_eq payload_honest_def)

text \<open>The fingerprint of everything from a key on.\<close>

definition tail_range :: "neg_lib \<Rightarrow> item list \<Rightarrow> key \<Rightarrow> message" where
  "tail_range lib xs lo = [(bound_with_timestamp lib MAX_U64, PFingerprint (fp lib (within lo top_key xs)))]"

lemma tail_range_ok:
  assumes "bound_law lib" and "lo \<le> top_key"
  shows "honest lib xs lo (tail_range lib xs lo)" and "lo \<le> k \<Longrightarrow> k < top_key \<Longrightarrow> open_key lo (tail_range lib xs lo) k"
  using assms bound_max[OF assms(1)] by (simp_all add: tail_range_def payload_honest_def)

lemma tail_range_busy:
  assumes "bound_law lib" and "items_ok xs" "items_ok ys"
  shows "busy (all_keys xs ys) lo (tail_range lib xs lo)"
  using keys_below_top[OF assms(2,3)] bound_max(1)[OF assms(1)]
  by (auto simp: tail_range_def occupied_def not_le intro: leI)

lemma finish_full:
  assumes laws: "bound_law lib" "storage_law lib" "items_ok xs"
    and st: "ng_storage (rs_engine st) = xs" "rs_output st = PROTOCOL_VERSION # message_bytes 0 out"
    and b: "b = (if part = [] then cb else rs_prev_bound st)" "bound_ok b"
    and full: "exceeded_frame_size_limit (rs_engine st) (length (rs_output st) + length part)"
    and ts: "part = [] \<Longrightarrow> ng_last_timestamp_out (rs_engine st) = last_ts 0 out" "part \<noteq> [] \<Longrightarrow> t = last_ts 0 out"
    and i: "part = [] \<Longrightarrow> upper = idx xs (bkey cb)" "part \<noteq> [] \<Longrightarrow> lower = idx xs (bkey (rs_prev_bound st))"
  shows "finish_range lib lower upper False cb t part st =
    (Inr True, st\<lparr>rs_engine := (rs_engine st)\<lparr>ng_last_timestamp_out := MAX_U64\<rparr>,
        rs_output := PROTOCOL_VERSION # message_bytes 0 (out @ (b, PSkip) # tail_range lib xs (bkey b))\<rparr>)"
proof -
  have f: "storage_fingerprint lib xs (idx xs (bkey b)) (length xs) = Inr (fp lib (within (bkey b) top_key xs))"
    by (rule fingerprint_tail[OF laws(2,3) bkey_le_top[OF b(2)]])
  show ?thesis
  proof (cases "part = []")
    case True
    then show ?thesis using f st b full ts i bound_max(3)[OF laws(1)]
      by (simp add: finish_range_def Let_def encode_bound_eq tail_range_def)
  next
    case False
    then show ?thesis using f st b full ts i bound_max(3)[OF laws(1)]
      by (simp add: finish_range_def Let_def encode_bound_eq tail_range_def)
  qed
qed

lemma finish_truncated:
  assumes laws: "bound_law lib" "storage_law lib" "items_ok xs"
    and st: "ng_storage (rs_engine st) = xs" "rs_output st = PROTOCOL_VERSION # message_bytes 0 out"
    and ts: "ng_last_timestamp_out (rs_engine st) = last_ts 0 out"
    and lo: "lo \<le> top_key"
  shows "finish_range lib lower (idx xs lo) True cb t [] st =
    (Inr True, st\<lparr>rs_engine := (rs_engine st)\<lparr>ng_last_timestamp_out := MAX_U64\<rparr>,
        rs_output := PROTOCOL_VERSION # message_bytes 0 (out @ tail_range lib xs lo)\<rparr>)"
  using st ts fingerprint_tail[OF laws(2,3) lo] bound_max(3)[OF laws(1)]
  by (simp add: finish_range_def Let_def encode_bound_eq tail_range_def)

text \<open>How a pass over the range from \<open>lo\<close> to \<open>cb\<close> leaves the state.\<close>

definition passed ::
  "neg_lib \<Rightarrow> item list \<Rightarrow> item list \<Rightarrow> message \<Rightarrow> bound \<Rightarrow> payload \<Rightarrow> message \<Rightarrow> range_state \<Rightarrow> bool \<Rightarrow> range_state \<Rightarrow> bool" where
  "passed lib xs ys out cb p ms st stop st' \<longleftrightarrow>
     (\<exists>new h n. rs_have st' = rs_have st @ h \<and> rs_need st' = rs_need st @ n \<and>
       reports (ng_is_initiator (rs_engine st)) xs ys h n \<and>
       ng_storage (rs_engine st') = xs \<and> ng_is_initiator (rs_engine st') = ng_is_initiator (rs_engine st) \<and>
       ng_frame_size_limit (rs_engine st') = ng_frame_size_limit (rs_engine st) \<and>
       rs_output st' = PROTOCOL_VERSION # message_bytes 0 (out @ new) \<and> honest lib xs bottom_key (out @ new) \<and>
       ((is_ids p \<longrightarrow> occupied (all_keys xs ys) (bkey (rs_prev_bound st)) (bkey cb)) \<longrightarrow> busy (all_keys xs ys) (end_key bottom_key out) new) \<and>
       (out = [] \<longrightarrow> advances (ng_is_initiator (rs_engine st)) xs (bkey (rs_prev_bound st)) cb p new) \<and>
       (\<forall>k. p \<noteq> PSkip \<and> bkey (rs_prev_bound st) \<le> k \<and> k < bkey cb \<and> \<not> open_key (end_key bottom_key out) new k \<longrightarrow>
          settled (ng_is_initiator (rs_engine st)) xs ys h n k) \<and>
       (stop \<longrightarrow> (\<forall>k. bkey cb \<le> k \<and> k < top_key \<longrightarrow> open_key (end_key bottom_key out) new k)) \<and>
       (\<not> stop \<longrightarrow> loop_ok lib xs st' (out @ new) \<and> rs_prev_bound st' = cb \<and> rs_query st' = message_bytes (bts cb) ms \<and>
          ng_last_timestamp_in (rs_engine st') = bts cb))"

lemma passedI:
  assumes "rs_have st' = rs_have st @ h" "rs_need st' = rs_need st @ n" "reports (ng_is_initiator (rs_engine st)) xs ys h n"
    and "ng_storage (rs_engine st') = xs" "ng_is_initiator (rs_engine st') = ng_is_initiator (rs_engine st)"
    and "ng_frame_size_limit (rs_engine st') = ng_frame_size_limit (rs_engine st)"
    and "rs_output st' = PROTOCOL_VERSION # message_bytes 0 (out @ new)" "honest lib xs bottom_key (out @ new)"
    and "(is_ids p \<longrightarrow> occupied (all_keys xs ys) (bkey (rs_prev_bound st)) (bkey cb)) \<Longrightarrow> busy (all_keys xs ys) (end_key bottom_key out) new"
    and "out = [] \<Longrightarrow> advances (ng_is_initiator (rs_engine st)) xs (bkey (rs_prev_bound st)) cb p new"
    and "\<And>k. p \<noteq> PSkip \<Longrightarrow> bkey (rs_prev_bound st) \<le> k \<Longrightarrow> k < bkey cb \<Longrightarrow> \<not> open_key (end_key bottom_key out) new k \<Longrightarrow>
      settled (ng_is_initiator (rs_engine st)) xs ys h n k"
    and "\<And>k. stop \<Longrightarrow> bkey cb \<le> k \<Longrightarrow> k < top_key \<Longrightarrow> open_key (end_key bottom_key out) new k"
    and "\<not> stop \<Longrightarrow> loop_ok lib xs st' (out @ new) \<and> rs_prev_bound st' = cb \<and> rs_query st' = message_bytes (bts cb) ms \<and>
      ng_last_timestamp_in (rs_engine st') = bts cb"
  shows "passed lib xs ys out cb p ms st stop st'"
  unfolding passed_def using assms by blast

lemma advances_append: "advances i xs lo cb p new \<Longrightarrow> new \<noteq> [] \<Longrightarrow> advances i xs lo cb p (new @ ns)"
  by (auto simp: advances_def first_open_append)

text \<open>A pass whose part of the answer is already in the output.\<close>

lemma pass_committed:
  assumes laws: "bound_law lib" "storage_law lib" "items_ok xs" and ys: "items_ok ys"
    and eng: "ng_storage (rs_engine st1) = xs" "ng_is_initiator (rs_engine st1) = ng_is_initiator (rs_engine st)"
      "ng_frame_size_limit (rs_engine st1) = ng_frame_size_limit (rs_engine st)"
    and out: "rs_output st1 = PROTOCOL_VERSION # message_bytes 0 (out @ new)" "honest lib xs bottom_key (out @ new)"
      "ng_last_timestamp_out (rs_engine st1) = last_ts 0 (out @ new)"
    and lim: "4096 \<le> ng_frame_size_limit (rs_engine st)" "new = [] \<Longrightarrow> length (rs_output st1) \<le> ng_frame_size_limit (rs_engine st) - 200"
    and cb: "bound_ok cb" "end_key bottom_key (out @ new) \<le> bkey cb" "\<not> rs_skip st1 \<longrightarrow> end_key bottom_key (out @ new) = bkey cb"
    and qry: "rs_query st1 = message_bytes (bts cb) ms" "ng_last_timestamp_in (rs_engine st1) = bts cb"
    and rep: "rs_have st1 = rs_have st @ h" "rs_need st1 = rs_need st @ n" "reports (ng_is_initiator (rs_engine st)) xs ys h n"
    and bus: "(is_ids p \<longrightarrow> occupied (all_keys xs ys) (bkey (rs_prev_bound st)) (bkey cb)) \<Longrightarrow> busy (all_keys xs ys) (end_key bottom_key out) new"
    and adv: "out = [] \<Longrightarrow> advances (ng_is_initiator (rs_engine st)) xs (bkey (rs_prev_bound st)) cb p new"
    and set: "\<And>k. p \<noteq> PSkip \<Longrightarrow> bkey (rs_prev_bound st) \<le> k \<Longrightarrow> k < bkey cb \<Longrightarrow> \<not> open_key (end_key bottom_key out) new k \<Longrightarrow>
      settled (ng_is_initiator (rs_engine st)) xs ys h n k"
  shows "\<exists>stop st'. finish_range lib lower (idx xs (bkey cb)) False cb t [] st1 = (Inr stop, st') \<and>
    passed lib xs ys out cb p ms st stop st'"
proof (cases "exceeded_frame_size_limit (rs_engine st1) (length (rs_output st1))")
  case True
  have top: "bkey cb \<le> top_key" by (rule bkey_le_top[OF cb(1)])
  let ?new = "new @ (cb, PSkip) # tail_range lib xs (bkey cb)"
  have eq: "finish_range lib lower (idx xs (bkey cb)) False cb t [] st1 =
      (Inr True, st1\<lparr>rs_engine := (rs_engine st1)\<lparr>ng_last_timestamp_out := MAX_U64\<rparr>,
        rs_output := PROTOCOL_VERSION # message_bytes 0 (out @ ?new)\<rparr>)"
    using finish_full[OF laws eng(1) out(1), of cb "[]" cb t "idx xs (bkey cb)" lower] cb(1) out(3) True by simp
  have hon: "honest lib xs bottom_key (out @ ?new)"
    using out(2) cb tail_range_ok(1)[OF laws(1) top, of xs] by (simp add: payload_honest_def)
  have "new \<noteq> []" using True lim eng(3) by (auto simp: exceeded_frame_size_limit_def)
  note adv' = advances_append[OF adv this]
  have "passed lib xs ys out cb p ms st True (st1\<lparr>rs_engine := (rs_engine st1)\<lparr>ng_last_timestamp_out := MAX_U64\<rparr>,
        rs_output := PROTOCOL_VERSION # message_bytes 0 (out @ ?new)\<rparr>)"
    by (rule passedI[of _ _ h n _ _ out ?new])
      (use eng rep hon set bus tail_range_busy[OF laws(1,3) ys] adv' tail_range_ok(2)[OF laws(1) top] in auto)
  then show ?thesis using eq by blast
next
  case False
  then have eq: "finish_range lib lower (idx xs (bkey cb)) False cb t [] st1 =
      (Inr False, st1\<lparr>rs_prev_index := idx xs (bkey cb), rs_prev_bound := cb\<rparr>)"
    by (simp add: finish_range_def)
  have room: "length (rs_output st1) \<le> ng_frame_size_limit (rs_engine st) - 200"
    using False lim(1) eng(3) by (simp add: exceeded_frame_size_limit_def)
  have "passed lib xs ys out cb p ms st False (st1\<lparr>rs_prev_index := idx xs (bkey cb), rs_prev_bound := cb\<rparr>)"
    by (rule passedI[of _ _ h n _ _ out new]) (use eng out cb qry rep set bus adv room lim(1) in \<open>auto simp: loop_ok_def\<close>)
  then show ?thesis using eq by blast
qed

text \<open>A mismatched fingerprint: the split range is emitted, or the frame ends with the fingerprint of everything from here.\<close>

lemma pass_split:
  assumes laws: "bound_law lib" "storage_law lib" "items_ok xs" and ys: "items_ok ys"
    and diff: "within (bkey (rs_prev_bound st)) (bkey cb) xs \<noteq> within (bkey (rs_prev_bound st)) (bkey cb) ys"
    and ok: "loop_ok lib xs st out"
    and st1: "st1 = st\<lparr>rs_engine := (rs_engine st)\<lparr>ng_last_timestamp_in := bts cb\<rparr>, rs_query := message_bytes (bts cb) ms\<rparr>"
    and cb: "bound_ok cb" "bkey (rs_prev_bound st) \<le> bkey cb"
    and part: "emit_skip st1 = (skipped, st2)" "split_range lib (idx xs (bkey (rs_prev_bound st))) (idx xs (bkey cb)) cb (rs_engine st2) = (r, ng)"
  shows "\<exists>ranges stop st'. r = Inr ranges \<and>
    finish_range lib (idx xs (bkey (rs_prev_bound st))) (idx xs (bkey cb)) False cb (last_ts 0 out) (skipped @ ranges) (st2\<lparr>rs_engine := ng\<rparr>) =
      (Inr stop, st') \<and> passed lib xs ys out cb (PFingerprint f) ms st stop st'"
proof -
  let ?p = "bkey (rs_prev_bound st)"
  define sk where "sk = (if rs_skip st then [(rs_prev_bound st, PSkip)] else [])"
  have ok1: "loop_ok lib xs st1 out" unfolding st1 by (rule loop_ok_input[OF ok])
  have sk_eq: "(if rs_skip st1 then [(rs_prev_bound st1, PSkip)] else []) = sk" by (simp add: sk_def st1)
  from emit_skip_ok[OF ok1] have sk: "skipped = message_bytes (last_ts 0 out) sk"
    "st2 = st1\<lparr>rs_skip := False, rs_engine := (rs_engine st1)\<lparr>ng_last_timestamp_out := last_ts 0 (out @ sk)\<rparr>\<rparr>"
    "honest lib xs bottom_key (out @ sk)" "end_key bottom_key (out @ sk) = ?p"
    using part(1) unfolding sk_eq by (simp_all add: st1)
  have "ng_storage (rs_engine st2) = xs" using ok by (simp add: sk(2) st1 loop_ok_def)
  from split_range_answers[OF laws cb(1) this cb(2)] split_range_total[OF laws bound_ok_short[OF cb(1)] idx_mono[OF cb(2), of xs] idx_le this]
  obtain ms' where ms': "r = Inr (message_bytes (last_ts 0 (out @ sk)) ms')"
    "ng = (rs_engine st2)\<lparr>ng_last_timestamp_out := bts cb\<rparr>" "answers lib xs ?p cb ms'"
    "split_shape xs ?p cb ms'" "length (message_bytes (last_ts 0 (out @ sk)) ms') \<le> 1037"
    using part(2) by (auto simp: sk(2))
  have occ: "occupied (all_keys xs ys) ?p (bkey cb)"
    using diff within_occupied[OF _ own_keys(1), of ?p "bkey cb" xs ys] within_occupied[OF _ own_keys(2), of ?p "bkey cb" ys xs]
    by (cases "within ?p (bkey cb) xs = []") simp_all
  let ?part = "skipped @ message_bytes (last_ts 0 (out @ sk)) ms'" and ?st3 = "st2\<lparr>rs_engine := ng\<rparr>"
  have part_eq: "?part = message_bytes (last_ts 0 out) (sk @ ms')" by (simp add: sk(1))
  obtain b p ms'' where ne: "ms' = (b, p) # ms''" using ms'(3) by (cases ms') (auto simp: answers_def)
  have out: "rs_output ?st3 = PROTOCOL_VERSION # message_bytes 0 out" "ng_storage (rs_engine ?st3) = xs"
    using ok by (simp_all add: sk(2) st1 loop_ok_def ms'(2))
  show ?thesis
  proof (cases "exceeded_frame_size_limit (rs_engine ?st3) (length (rs_output ?st3) + length ?part)")
    case True
    have nonempty: "?part \<noteq> []" using encode_var_int_length by (auto simp: ne bound_bytes_def)
    have pb: "bound_ok (rs_prev_bound st)" "rs_prev_bound ?st3 = rs_prev_bound st" using ok by (simp_all add: loop_ok_def sk(2) st1)
    have top: "?p \<le> top_key" by (rule bkey_le_top[OF pb(1)])
    let ?new = "(rs_prev_bound st, PSkip) # tail_range lib xs ?p"
    have eq: "finish_range lib (idx xs ?p) (idx xs (bkey cb)) False cb (last_ts 0 out) ?part ?st3 =
        (Inr True, ?st3\<lparr>rs_engine := (rs_engine ?st3)\<lparr>ng_last_timestamp_out := MAX_U64\<rparr>,
          rs_output := PROTOCOL_VERSION # message_bytes 0 (out @ ?new)\<rparr>)"
      by (rule finish_full[OF laws out(2,1)]) (use nonempty pb True in \<open>simp_all only: if_False refl simp_thms\<close>)
    have out_ne: "out \<noteq> []"
    proof
      assume "out = []"
      then have "length skipped \<le> 44" using bound_bytes_length[OF bound_ok_short[OF pb(1)]] by (simp add: sk(1) sk_def)
      then have "length (rs_output ?st3) + length ?part \<le> 1082" using out(1) ms'(5) \<open>out = []\<close> by simp
      moreover have "4096 \<le> ng_frame_size_limit (rs_engine ?st3)" using ok by (simp add: loop_ok_def sk(2) st1 ms'(2))
      ultimately show False using True by (simp add: exceeded_frame_size_limit_def)
    qed
    have hon: "honest lib xs bottom_key (out @ ?new)"
      using ok pb(1) tail_range_ok(1)[OF laws(1) top, of xs] by (simp add: payload_honest_def loop_ok_def)
    have "passed lib xs ys out cb (PFingerprint f) ms st True (?st3\<lparr>rs_engine := (rs_engine ?st3)\<lparr>ng_last_timestamp_out := MAX_U64\<rparr>,
          rs_output := PROTOCOL_VERSION # message_bytes 0 (out @ ?new)\<rparr>)"
      by (rule passedI[of _ _ "[]" "[]" _ _ out ?new])
        (use out_ne tail_range_busy[OF laws(1,3) ys] ok hon cb(2) bkey_le_top[OF cb(1)] tail_range_ok(2)[OF laws(1) top] in \<open>auto simp: loop_ok_def sk(2) st1 ms'(2)\<close>)
    then show ?thesis using eq ms'(1) by blast
  next
    case False
    let ?st4 = "?st3\<lparr>rs_output := PROTOCOL_VERSION # message_bytes 0 (out @ sk @ ms'), rs_prev_index := idx xs (bkey cb), rs_prev_bound := cb\<rparr>"
    have eq: "finish_range lib (idx xs ?p) (idx xs (bkey cb)) False cb (last_ts 0 out) ?part ?st3 = (Inr False, ?st4)"
      using False out(1) unfolding part_eq by (simp add: finish_range_def)
    have a: "honest lib xs ?p ms'" "end_key ?p ms' = bkey cb" "\<forall>(b, p)\<in>set ms'. p \<noteq> PSkip"
      using ms'(3) by (simp_all add: answers_def)
    have hon: "honest lib xs bottom_key (out @ sk @ ms')" using sk(3,4) a(1) by simp
    have "open_key (end_key bottom_key out) (sk @ ms') k" if "?p \<le> k" "k < bkey cb" for k
      using all_open[OF a(1,3) that(1)] that(2) sk(4) a(2) by simp
    moreover have e: "end_key bottom_key (out @ sk @ ms') = bkey cb" using sk(4) a(2) by simp
    moreover have "last_ts 0 (out @ sk @ ms') = bts cb"
      using last_ts_end[of bottom_key "out @ sk @ ms'"] e by (simp add: bottom_key_def bkey_def key_def)
    moreover have "busy (all_keys xs ys) (end_key bottom_key out) (sk @ ms')"
      using ms'(4) sk(4) occ filled_busy[of xs ?p ms' "all_keys xs ys"] by (auto simp: split_shape_def sk_def)
    moreover have "advances (ng_is_initiator (rs_engine st)) xs ?p cb (PFingerprint f) (sk @ ms')" if "out = []"
    proof -
      have "first_open bottom_key (sk @ ms') = first_open ?p ms'" using sk(4) that by (auto simp: sk_def)
      moreover have "bkey b \<le> bkey cb" using honest_order[of lib xs "bkey b" ms''] a(1,2) by (simp add: ne)
      ultimately show ?thesis using ms'(4) a(3) by (fastforce simp: advances_def split_shape_def ne)
    qed
    moreover have "length (rs_output ?st4) \<le> ng_frame_size_limit (rs_engine ?st4) - 200" "4096 \<le> ng_frame_size_limit (rs_engine ?st4)"
      using False out(1) ok unfolding part_eq by (auto simp: exceeded_frame_size_limit_def loop_ok_def sk(2) st1 ms'(2))
    ultimately have "passed lib xs ys out cb (PFingerprint f) ms st False ?st4"
      by (intro passedI[of _ _ "[]" "[]" _ _ out "sk @ ms'"])
        (use ok hon cb in \<open>auto simp: loop_ok_def sk(2) st1 ms'(2)\<close>)
    then show ?thesis using eq ms'(1) by blast
  qed
qed

section \<open>Identifier lists\<close>

lemma fold_compare:
  "distinct (map (\<lambda>v. it_id (fst v)) vs) \<Longrightarrow>
   fold (compare_item i) vs (h, es) =
     (h @ (if i then filter (\<lambda>k. k \<notin> set es) (map (\<lambda>v. it_id (fst v)) vs) else []),
      filter (\<lambda>k. k \<notin> set (map (\<lambda>v. it_id (fst v)) vs)) es)"
proof (induction vs arbitrary: h es)
  case (Cons v vs)
  then show ?case
    by (cases "it_id (fst v) \<in> set es")
      (auto simp: compare_item_def removeAll_filter_not_eq filter_filter conj_commute intro!: filter_cong)
qed simp

lemma collect_response_eq:
  "\<exists>taken rest. vs = taken @ rest \<and> collect_response ng len vs resp c =
     (resp @ concat (map (\<lambda>v. it_id (fst v)) taken), c + length taken, case rest of [] \<Rightarrow> None | v # _ \<Rightarrow> Some v) \<and>
     (taken = [] \<longrightarrow> rest = [] \<or> exceeded_frame_size_limit ng (len + length resp))"
proof (induction vs arbitrary: resp c)
  case (Cons v vs)
  obtain x i where v: "v = (x, i)" by force
  show ?case
  proof (cases "exceeded_frame_size_limit ng (len + length resp)")
    case True
    then show ?thesis by (intro exI[of _ "[]"] exI[of _ "v # vs"]) (simp add: v)
  next
    case False
    from Cons[of "resp @ it_id x" "Suc c"] obtain taken rest where "vs = taken @ rest"
      "collect_response ng len vs (resp @ it_id x) (Suc c) =
        ((resp @ it_id x) @ concat (map (\<lambda>v. it_id (fst v)) taken), Suc c + length taken, case rest of [] \<Rightarrow> None | v # _ \<Rightarrow> Some v)"
      by blast
    then show ?thesis using False by (intro exI[of _ "v # taken"] exI[of _ rest]) (simp add: v)
  qed
qed simp

lemma idx_at:
  assumes "sorted_wrt (<) (map key zs)" and "m < length zs"
  shows "idx zs (key (zs ! m)) = m"
proof (cases "m = 0")
  case True
  have "\<not> key x < key (zs ! 0)" if "x \<in> set zs" for x
    using assms that by (cases zs) auto
  then show ?thesis by (simp add: True idx_def filter_empty_conv)
next
  case False
  then show ?thesis using assms by (intro idx_nth) (auto simp: sorted_wrt_iff_nth_less)
qed

text \<open>An item in the middle of a range splits it.\<close>

lemma within_split:
  assumes "items_ok xs" and "lo \<le> hi" and "within lo hi xs = taken @ x # rest"
  shows "x \<in> set xs" and "lo \<le> key x" and "key x < hi" and "within lo (key x) xs = taken" and "idx xs (key x) = idx xs lo + length taken"
proof -
  have s: "sorted_wrt (<) (map key xs)" using assms(1) by (simp add: items_ok_def)
  let ?zs = "within lo hi xs"
  have "x \<in> set ?zs" using assms(3) by simp
  then show mem: "x \<in> set xs" "lo \<le> key x" "key x < hi" by (simp_all add: within_def)
  have sz: "sorted_wrt (<) (map key ?zs)" using s by (simp add: within_def sorted_wrt_filter sorted_wrt_map)
  have "idx ?zs (key x) = length taken" using idx_at[OF sz, of "length taken"] by (simp add: assms(3))
  then have "filter (\<lambda>y. key y < key x) ?zs = taken" using take_idx[OF sz, of "key x"] by (simp add: assms(3))
  moreover have "filter (\<lambda>y. key y < key x) ?zs = within lo (key x) xs"
    using mem(3) by (auto simp: within_def intro!: filter_cong)
  ultimately show w: "within lo (key x) xs = taken" by simp
  show "idx xs (key x) = idx xs lo + length taken" using idx_within[OF s mem(2)] w by simp
qed

lemma pass_respond:
  assumes laws: "bound_law lib" "storage_law lib" "items_ok xs" and ys: "items_ok ys"
    and ok: "loop_ok lib xs st out" and role: "\<not> ng_is_initiator (rs_engine st)"
    and st1: "st1 = st\<lparr>rs_engine := (rs_engine st)\<lparr>ng_last_timestamp_in := bts cb\<rparr>, rs_query := message_bytes (bts cb) ms\<rparr>"
    and cb: "bound_ok cb" "bkey (rs_prev_bound st) \<le> bkey cb"
  shows "\<exists>upper tr st2 stop st'. respond_ids lib (idx xs (bkey (rs_prev_bound st))) (idx xs (bkey cb)) cb st1 = (Inr (upper, tr), st2) \<and>
    finish_range lib lower upper tr cb t [] st2 = (Inr stop, st') \<and> passed lib xs ys out cb (PIds ids) ms st stop st'"
proof -
  let ?p = "bkey (rs_prev_bound st)"
  let ?vs = "zip (within ?p (bkey cb) xs) [idx xs ?p..<idx xs (bkey cb)]"
  define sk where "sk = (if rs_skip st then [(rs_prev_bound st, PSkip)] else [])"
  have ok1: "loop_ok lib xs st1 out" unfolding st1 by (rule loop_ok_input[OF ok])
  have sk_eq: "(if rs_skip st1 then [(rs_prev_bound st1, PSkip)] else []) = sk" by (simp add: sk_def st1)
  define ng where "ng = (rs_engine st1)\<lparr>ng_last_timestamp_out := last_ts 0 (out @ sk)\<rparr>"
  from emit_skip_ok[OF ok1] have sk: "emit_skip st1 = (message_bytes (last_ts 0 out) sk, st1\<lparr>rs_skip := False, rs_engine := ng\<rparr>)"
    "honest lib xs bottom_key (out @ sk)" "end_key bottom_key (out @ sk) = ?p"
    unfolding sk_eq by (simp_all add: st1 ng_def)
  have stor: "ng_storage ng = xs" "ng_last_timestamp_out ng = last_ts 0 (out @ sk)" "ng_last_timestamp_in ng = bts cb"
    "ng_is_initiator ng = ng_is_initiator (rs_engine st)" "ng_frame_size_limit ng = ng_frame_size_limit (rs_engine st)"
    using ok by (simp_all add: ng_def st1 loop_ok_def)
  have lim: "4096 \<le> ng_frame_size_limit (rs_engine st)" "length (rs_output st) \<le> ng_frame_size_limit (rs_engine st) - 200"
    using ok by (auto simp: loop_ok_def)
  then have exc: "\<not> exceeded_frame_size_limit ng (length (rs_output st))" using stor(5) by (simp add: exceeded_frame_size_limit_def)
  have fo: "first_open bottom_key (sk @ ns) = first_open ?p ns" if "out = []" for ns
    using sk(3) that by (auto simp: sk_def)
  from collect_response_eq[of ?vs ng "length (rs_output st)" "[]" 0]
  obtain taken rest where vs: "?vs = taken @ rest" and "collect_response ng (length (rs_output st)) ?vs [] 0 =
      ([] @ concat (map (\<lambda>v. it_id (fst v)) taken), 0 + length taken, case rest of [] \<Rightarrow> None | v # _ \<Rightarrow> Some v)"
    and "taken = [] \<longrightarrow> rest = [] \<or> exceeded_frame_size_limit ng (length (rs_output st) + length ([] :: bytes))" by blast
  then have col: "collect_response ng (length (rs_output st)) ?vs [] 0 =
      (concat (map (\<lambda>v. it_id (fst v)) taken), length taken, case rest of [] \<Rightarrow> None | v # _ \<Rightarrow> Some v)"
    and some: "taken = [] \<longrightarrow> rest = []" using exc by simp_all
  have split: "within ?p (bkey cb) xs = map fst taken @ map fst rest"
    using fst_zip_range[OF laws(3) cb(2)] unfolding vs by simp
  let ?ids = "map it_id (map fst taken)"
  let ?b = "case rest of [] \<Rightarrow> cb | v # _ \<Rightarrow> bound_from_item lib (fst v)"
  let ?u = "case rest of [] \<Rightarrow> idx xs (bkey cb) | v # _ \<Rightarrow> snd v"
  let ?new = "sk @ [(?b, PIds ?ids)]"
  define st2 where "st2 = st1\<lparr>rs_skip := False, rs_engine := ng\<lparr>ng_last_timestamp_out := bts ?b\<rparr>,
      rs_output := PROTOCOL_VERSION # message_bytes 0 (out @ ?new)\<rparr>"
  have resp: "respond_ids lib (idx xs ?p) (idx xs (bkey cb)) cb st1 = (Inr (?u, rest \<noteq> []), st2)"
  proof -
    have "concat (map (\<lambda>v. it_id (fst v)) taken) = concat ?ids" by (simp add: comp_def)
    then show ?thesis
      using sk(1) stor iterate_range[OF laws(2,3) cb(2)] col ok
      by (cases rest) (auto simp: respond_ids_def st2_def encode_bound_eq Let_def st1 loop_ok_def split: prod.split)
  qed
  show ?thesis
  proof (cases rest)
    case Nil
    then have new: "?new = sk @ [(cb, PIds (map it_id (within ?p (bkey cb) xs)))]" using split by simp
    have e: "end_key bottom_key (out @ ?new) = bkey cb" using Nil by simp
    have hon: "honest lib xs bottom_key (out @ ?new)" using sk(2,3) cb unfolding new by (simp add: payload_honest_def)
    have op: "open_key (end_key bottom_key out) ?new k" if "?p \<le> k" "k < bkey cb" for k
      unfolding new using sk(3) that by simp
    have adv: "advances (ng_is_initiator (rs_engine st)) xs ?p cb (PIds ids) ?new" if "out = []"
      using fo[OF that] role unfolding new by (simp add: advances_def)
    have bus: "busy (all_keys xs ys) (end_key bottom_key out) ?new"
      if "is_ids (PIds ids) \<longrightarrow> occupied (all_keys xs ys) ?p (bkey cb)"
      using that sk(3) unfolding new by (auto simp: sk_def)
    have "\<exists>stop st'. finish_range lib lower (idx xs (bkey cb)) False cb t [] st2 = (Inr stop, st') \<and>
        passed lib xs ys out cb (PIds ids) ms st stop st'"
      by (rule pass_committed[OF laws ys, of _ _ _ ?new _ _ "[]" "[]"]) (use hon cb op e stor Nil lim adv bus in \<open>auto simp: st2_def st1\<close>)
    then show ?thesis using resp Nil by auto
  next
    case (Cons v rest')
    obtain x i where v: "v = (x, i)" by force
    note w = within_split[OF laws(3) cb(2), of "map fst taken" x "map fst rest'"]
    have x: "x \<in> set xs" "?p \<le> key x" "key x < bkey cb" "within ?p (key x) xs = map fst taken"
      "idx xs (key x) = idx xs ?p + length taken"
      using w split by (simp_all add: Cons v)
    have i: "i = idx xs (key x)"
    proof -
      have "?vs ! length taken = (x, i)" using vs by (simp add: Cons v)
      moreover have "length taken < length ?vs" using vs by (simp add: Cons)
      ultimately show ?thesis using x(5) by auto
    qed
    have xi: "length (it_id x) = ID_SIZE" "it_timestamp x \<noteq> MAX_U64" using laws(3) x(1) by (auto simp: items_ok_def)
    have b: "bound_from_item lib x = \<lparr>bd_item = x, bd_id_len = ID_SIZE\<rparr>" using laws(1) xi by (simp add: bound_law_def)
    have bk: "bkey ?b = key x" "bound_ok ?b" using xi by (simp_all add: Cons v b bkey_def bound_ok_def)
    have top: "key x \<le> top_key" using item_below_top[OF xi(2)] by simp
    let ?new' = "?new @ tail_range lib xs (key x)"
    have e: "end_key bottom_key (out @ ?new) = key x" using bk by simp
    have hon: "honest lib xs bottom_key (out @ ?new')"
      using sk(2,3) bk x(2,4) tail_range_ok(1)[OF laws(1) top, of xs] by (simp add: payload_honest_def)
    have op: "open_key (end_key bottom_key out) ?new' k" if "?p \<le> k" "k < top_key" for k
      using tail_range_ok(2)[OF laws(1) top, of k xs] sk(3) that bk by (cases "k < key x") (simp_all add: not_less)
    have "taken \<noteq> []" using some by (auto simp: Cons)
    then have occ: "occupied (all_keys xs ys) ?p (key x)" using within_occupied[OF _ own_keys(1), of ?p "key x" xs ys] x(4) by simp
    have bus: "busy (all_keys xs ys) (end_key bottom_key out) ?new'"
      using occ sk(3) bk(1) tail_range_busy[OF laws(1,3) ys, of "key x"] by (auto simp: sk_def)
    have adv: "advances (ng_is_initiator (rs_engine st)) xs ?p cb (PIds ids) ?new'" if "out = []"
      using fo[OF that, of "[(?b, PIds ?ids)] @ tail_range lib xs (key x)"] role bk(1) x(3) by (simp add: advances_def less_imp_le)
    have "finish_range lib lower ?u True cb t [] st2 =
      (Inr True, st2\<lparr>rs_engine := (rs_engine st2)\<lparr>ng_last_timestamp_out := MAX_U64\<rparr>,
          rs_output := PROTOCOL_VERSION # message_bytes 0 ((out @ ?new) @ tail_range lib xs (key x))\<rparr>)"
      using finish_truncated[OF laws, of st2 "out @ ?new" "key x" lower cb t] top stor i
      by (simp add: st2_def Cons v)
    moreover have "passed lib xs ys out cb (PIds ids) ms st True (st2\<lparr>rs_engine := (rs_engine st2)\<lparr>ng_last_timestamp_out := MAX_U64\<rparr>,
          rs_output := PROTOCOL_VERSION # message_bytes 0 ((out @ ?new) @ tail_range lib xs (key x))\<rparr>)"
      by (rule passedI[of _ _ "[]" "[]" _ _ out ?new'])
        (use bus adv hon op stor cb(2) bkey_le_top[OF cb(1)] in \<open>auto simp: st2_def st1 intro: less_le_trans order_trans\<close>)
    ultimately show ?thesis using resp by (simp add: Cons) blast
  qed
qed

text \<open>What the initiator reports for a range: the differences of the two sides there.\<close>

lemma compare_ranges:
  fixes lo hi :: key
  assumes c: "comparable lib xs ys"
  defines "as \<equiv> within lo hi xs" and "bs \<equiv> within lo hi ys"
  defines "h \<equiv> filter (\<lambda>k. k \<notin> set (map it_id bs)) (map it_id as)" and "n \<equiv> filter (\<lambda>k. k \<notin> set (map it_id as)) (map it_id bs)"
  shows "reports True xs ys h n" and "lo \<le> k \<Longrightarrow> k < hi \<Longrightarrow> settled True xs ys h n k"
proof -
  have same: "it_id x \<noteq> it_id y" if "x \<in> set as" "y \<in> set bs" "x \<noteq> y" for x y
    using c that by (auto simp: comparable_def as_def bs_def within_def)
  have "it_id x \<in> it_id ` (set xs - set ys)" if "x \<in> set as" "it_id x \<notin> it_id ` set bs" for x
    using that by (auto simp: as_def bs_def within_def)
  moreover have "it_id y \<in> it_id ` (set ys - set xs)" if "y \<in> set bs" "it_id y \<notin> it_id ` set as" for y
    using that by (auto simp: as_def bs_def within_def)
  ultimately show "reports True xs ys h n" by (auto simp: reports_def h_def n_def)
  show "settled True xs ys h n k" if "lo \<le> k" "k < hi"
  proof -
    have "snd k \<in> set h" if k: "k \<in> key ` set xs" "k \<notin> key ` set ys"
    proof -
      obtain x where x: "x \<in> set as" "key x = k" using k \<open>lo \<le> k\<close> \<open>k < hi\<close> by (auto simp: as_def within_def)
      then have "it_id x \<notin> it_id ` set bs" using same k(2) by (force simp: bs_def within_def)
      then show ?thesis using x by (auto simp: h_def key_def)
    qed
    moreover have "snd k \<in> set n" if k: "k \<in> key ` set ys" "k \<notin> key ` set xs"
    proof -
      obtain y where y: "y \<in> set bs" "key y = k" using k \<open>lo \<le> k\<close> \<open>k < hi\<close> by (auto simp: bs_def within_def)
      then have "it_id y \<notin> it_id ` set as" using same k(2) by (force simp: as_def within_def)
      then show ?thesis using y by (auto simp: n_def key_def)
    qed
    ultimately show ?thesis by (auto simp: settled_def)
  qed
qed

lemma within_ids:
  assumes "items_ok xs"
  shows "distinct (map it_id (within lo hi xs))" and "\<forall>i\<in>set (map it_id (within lo hi xs)). length i = ID_SIZE"
  using assms by (auto simp: items_ok_def within_def distinct_map_filter)

lemma pass_id_list:
  assumes laws: "bound_law lib" "storage_law lib" and c: "comparable lib xs ys"
    and ok: "loop_ok lib xs st out"
    and ids: "ids = map it_id (within (bkey (rs_prev_bound st)) (bkey cb) ys)" "length ids < 2 ^ 64"
    and st1: "st1 = st\<lparr>rs_engine := (rs_engine st)\<lparr>ng_last_timestamp_in := bts cb\<rparr>,
      rs_query := encode_var_int (of_nat (length ids)) @ concat ids @ message_bytes (bts cb) ms\<rparr>"
    and cb: "bound_ok cb" "bkey (rs_prev_bound st) \<le> bkey cb"
  shows "\<exists>upper tr st2 stop st'. range_id_list lib (idx xs (bkey (rs_prev_bound st))) (idx xs (bkey cb)) cb st1 = (Inr (upper, tr), st2) \<and>
    finish_range lib lower upper tr cb t [] st2 = (Inr stop, st') \<and> passed lib xs ys out cb (PIds ids) ms st stop st'"
proof -
  let ?p = "bkey (rs_prev_bound st)"
  let ?vs = "zip (within ?p (bkey cb) xs) [idx xs ?p..<idx xs (bkey cb)]"
  have xs: "items_ok xs" and ys: "items_ok ys" using c by (simp_all add: comparable_def)
  note w = within_ids[OF ys, of ?p "bkey cb", folded ids(1)]
  have clen: "length (concat ids) = length ids * ID_SIZE" using w(2) by (induction ids) auto
  have u: "unat (of_nat (length ids) :: u64) = length ids" using ids(2) by (simp add: unsigned_of_nat take_bit_nat_eq_self)
  have vs: "map (\<lambda>v. it_id (fst v)) ?vs = map it_id (within ?p (bkey cb) xs)"
    using arg_cong[OF fst_zip_range[OF xs cb(2)], of "map it_id"] by (simp add: comp_def)
  let ?st = "st1\<lparr>rs_query := message_bytes (bts cb) ms\<rparr>"
  let ?h = "filter (\<lambda>k. k \<notin> set ids) (map it_id (within ?p (bkey cb) xs))"
  let ?n = "filter (\<lambda>k. k \<notin> set (map it_id (within ?p (bkey cb) xs))) ids"
  have fold: "fold (compare_item i) ?vs (rs_have st1, ids) = (rs_have st1 @ (if i then ?h else []), ?n)" for i
    using fold_compare[of ?vs i "rs_have st1" ids] within_ids(1)[OF xs] unfolding vs by simp
  have stor: "ng_storage (rs_engine st1) = xs" using ok by (simp add: st1 loop_ok_def)
  have main: "range_id_list lib (idx xs ?p) (idx xs (bkey cb)) cb st1 =
      (if ng_is_initiator (rs_engine st) then
         (Inr (idx xs (bkey cb), False), ?st\<lparr>rs_have := rs_have st1 @ ?h, rs_skip := True, rs_need := rs_need st1 @ ?n\<rparr>)
       else respond_ids lib (idx xs ?p) (idx xs (bkey cb)) cb ?st)"
    using read_ids_concat[OF w(2), of "[]" "message_bytes (bts cb) ms"] w(1) clen iterate_range[OF laws(2) xs cb(2)] fold stor
    unfolding range_id_list_def by (simp add: st1 codec.read_encode u)
  show ?thesis
  proof (cases "ng_is_initiator (rs_engine st)")
    case True
    note cmp = compare_ranges[OF c, where lo = ?p and hi = "bkey cb", folded ids(1)]
    let ?st' = "?st\<lparr>rs_have := rs_have st1 @ ?h, rs_skip := True, rs_need := rs_need st1 @ ?n\<rparr>"
    have set: "settled (ng_is_initiator (rs_engine st)) xs ys ?h ?n k" if "?p \<le> k" "k < bkey cb" for k
      using cmp(2)[OF that] True by simp
    have "\<exists>stop st'. finish_range lib lower (idx xs (bkey cb)) False cb t [] ?st' = (Inr stop, st') \<and>
        passed lib xs ys out cb (PIds ids) ms st stop st'"
      by (rule pass_committed[OF laws xs ys, of _ _ _ "[]" _ _ ?h ?n])
        (use ok cb cmp(1) True set in \<open>auto simp: st1 loop_ok_def advances_def\<close>)
    then show ?thesis using main True by simp blast
  next
    case False
    have "?st = st\<lparr>rs_engine := (rs_engine st)\<lparr>ng_last_timestamp_in := bts cb\<rparr>, rs_query := message_bytes (bts cb) ms\<rparr>"
      by (simp add: st1)
    from pass_respond[OF laws xs ys ok False this cb] show ?thesis using main False by simp
  qed
qed

section \<open>A whole message\<close>

lemma reconcile_range_passed:
  assumes laws: "bound_law lib" "storage_law lib" and c: "comparable lib xs ys" and small: "length ys < 2 ^ 64"
    and ok: "loop_ok lib xs st out"
    and q: "rs_query st = message_bytes (bts (rs_prev_bound st)) ((cb, p) # ms)" "ng_last_timestamp_in (rs_engine st) = bts (rs_prev_bound st)"
    and h: "honest lib ys (bkey (rs_prev_bound st)) ((cb, p) # ms)"
  shows "\<exists>stop st'. reconcile_range lib st = (Inr stop, st') \<and> passed lib xs ys out cb p ms st stop st'"
proof -
  let ?p = "bkey (rs_prev_bound st)"
  have xs: "items_ok xs" and ys: "items_ok ys" using c by (simp_all add: comparable_def)
  have cb: "bound_ok cb" "?p \<le> bkey cb" and pay: "payload_honest lib (within ?p (bkey cb) ys) p" using h by simp_all
  have ts: "ng_last_timestamp_in (rs_engine st) \<le> bts cb" using bkey_ts[OF cb(2)] q(2) by (simp add: bkey_def key_def)
  let ?ng = "(rs_engine st)\<lparr>ng_last_timestamp_in := bts cb\<rparr>"
  have d: "decode_bound lib (rs_query st) (rs_engine st) = (Inr (cb, payload_bytes p @ message_bytes (bts cb) ms), ?ng)"
    using decode_bound_bytes[OF laws(1) cb(1) ts] q by simp
  have stor: "ng_storage ?ng = xs" "rs_prev_index st = idx xs ?p" "ng_last_timestamp_out (rs_engine st) = last_ts 0 out"
    using ok by (simp_all add: loop_ok_def)
  have up: "storage_lower_bound lib xs (idx xs ?p) (length xs) cb = idx xs (bkey cb)" by (rule lower_bound_idx[OF laws(2) xs cb(2)])
  show ?thesis
  proof (cases p)
    case PSkip
    let ?st = "st\<lparr>rs_engine := ?ng, rs_query := message_bytes (bts cb) ms, rs_skip := True\<rparr>"
    have "reconcile_range lib st = finish_range lib (idx xs ?p) (idx xs (bkey cb)) False cb (last_ts 0 out) [] ?st"
      using d decode_encode_mode[of Skip] stor up by (simp add: reconcile_range_def PSkip)
    moreover have "\<exists>stop st'. finish_range lib (idx xs ?p) (idx xs (bkey cb)) False cb (last_ts 0 out) [] ?st = (Inr stop, st') \<and>
        passed lib xs ys out cb PSkip ms st stop st'"
      by (rule pass_committed[OF laws xs ys, of _ _ _ "[]" _ _ "[]" "[]"]) (use ok cb in \<open>auto simp: loop_ok_def advances_def\<close>)
    ultimately show ?thesis by (simp add: PSkip)
  next
    case (PFingerprint f)
    let ?st = "st\<lparr>rs_engine := ?ng, rs_query := message_bytes (bts cb) ms\<rparr>"
    have f: "f = fp lib (within ?p (bkey cb) ys)" using pay by (simp add: PFingerprint payload_honest_def)
    have len: "length f = FINGERPRINT_SIZE" using fingerprint_range(2)[OF laws(2) ys cb(2)] f by simp
    have ours: "storage_fingerprint lib xs (idx xs ?p) (idx xs (bkey cb)) = Inr (fp lib (within ?p (bkey cb) xs))"
      by (rule fingerprint_range[OF laws(2) xs cb(2)])
    have g: "get_bytes FINGERPRINT_SIZE (f @ message_bytes (bts cb) ms) = Inr (f, message_bytes (bts cb) ms)" using len by simp
    show ?thesis
    proof (cases "f = fp lib (within ?p (bkey cb) xs)")
      case True
      then have "within ?p (bkey cb) xs = within ?p (bkey cb) ys" using comparable_fp[OF c] f by simp
      note s = within_settled[OF this]
      have "reconcile_range lib st = finish_range lib (idx xs ?p) (idx xs (bkey cb)) False cb (last_ts 0 out) [] (?st\<lparr>rs_skip := True\<rparr>)"
        using d decode_encode_mode[of Fingerprint] stor up ours g True
        by (simp add: reconcile_range_def range_fingerprint_def PFingerprint)
      moreover have "\<exists>stop st'. finish_range lib (idx xs ?p) (idx xs (bkey cb)) False cb (last_ts 0 out) [] (?st\<lparr>rs_skip := True\<rparr>) = (Inr stop, st') \<and>
          passed lib xs ys out cb (PFingerprint f) ms st stop st'"
        by (rule pass_committed[OF laws xs ys, of _ _ _ "[]" _ _ "[]" "[]"]) (use ok cb s in \<open>auto simp: loop_ok_def advances_def\<close>)
      ultimately show ?thesis by (simp add: PFingerprint)
    next
      case False
      obtain skipped st2 where e: "emit_skip ?st = (skipped, st2)" by force
      obtain r ng where sp: "split_range lib (idx xs ?p) (idx xs (bkey cb)) cb (rs_engine st2) = (r, ng)" by force
      have diff: "within ?p (bkey cb) xs \<noteq> within ?p (bkey cb) ys" using False f by auto
      from pass_split[OF laws xs ys diff ok refl cb e sp, of f] obtain ranges stop st' where r: "r = Inr ranges"
        "finish_range lib (idx xs ?p) (idx xs (bkey cb)) False cb (last_ts 0 out) (skipped @ ranges) (st2\<lparr>rs_engine := ng\<rparr>) = (Inr stop, st')"
        "passed lib xs ys out cb (PFingerprint f) ms st stop st'" by blast
      have "reconcile_range lib st = (Inr stop, st')"
        using d decode_encode_mode[of Fingerprint] stor up ours g False e sp r
        by (simp add: reconcile_range_def range_fingerprint_def PFingerprint)
      then show ?thesis using r(3) by (simp add: PFingerprint)
    qed
  next
    case (PIds ids)
    have ids: "ids = map it_id (within ?p (bkey cb) ys)" using pay by (simp add: PIds payload_honest_def)
    have "length ids \<le> length ys" by (simp add: ids within_def)
    then have "length ids < 2 ^ 64" using small by (rule le_less_trans)
    let ?st = "st\<lparr>rs_engine := ?ng, rs_query := encode_var_int (of_nat (length ids)) @ concat ids @ message_bytes (bts cb) ms\<rparr>"
    from pass_id_list[OF laws c ok ids \<open>length ids < 2 ^ 64\<close> refl cb, of ms "idx xs ?p" "last_ts 0 out"]
    obtain upper tr st2 stop st' where r: "range_id_list lib (idx xs ?p) (idx xs (bkey cb)) cb ?st = (Inr (upper, tr), st2)"
      "finish_range lib (idx xs ?p) upper tr cb (last_ts 0 out) [] st2 = (Inr stop, st')" "passed lib xs ys out cb (PIds ids) ms st stop st'"
      by blast
    have "reconcile_range lib st = (Inr stop, st')"
      using d decode_encode_mode[of IdList] stor up r(1,2) by (simp add: reconcile_range_def PIds)
    then show ?thesis using r(3) by (auto simp: PIds)
  qed
qed

text \<open>
  What the whole answer does: it is empty, or it starts with a range that answers some range of the message, everything before
  which needed no answer.
\<close>

definition follows :: "bool \<Rightarrow> item list \<Rightarrow> key \<Rightarrow> message \<Rightarrow> message \<Rightarrow> bool" where
  "follows i xs lo0 ms new \<longleftrightarrow> new = [] \<or>
     (\<exists>pre cb p post b' p'. ms = pre @ (cb, p) # post \<and> p \<noteq> PSkip \<and>
        first_open bottom_key new = Some (end_key lo0 pre, b', p') \<and> bkey b' \<le> bkey cb \<and> (is_ids p \<longrightarrow> \<not> i \<and> is_ids p') \<and>
        (is_ids p' \<or> length (within (end_key lo0 pre) (bkey b') xs) < length (within (end_key lo0 pre) (bkey cb) xs)))"

lemma follows_here:
  assumes "advances i xs lo cb p new" and "new \<noteq> []"
  shows "follows i xs lo ((cb, p) # ms) (new @ new')"
proof -
  from assms obtain b' p' where "first_open bottom_key new = Some (lo, b', p')" "p \<noteq> PSkip" "bkey b' \<le> bkey cb" "is_ids p \<longrightarrow> \<not> i \<and> is_ids p'"
    "is_ids p' \<or> length (within lo (bkey b') xs) < length (within lo (bkey cb) xs)" unfolding advances_def by blast
  then show ?thesis unfolding follows_def
    by (intro disjI2 exI[of _ "[]"] exI[of _ cb] exI[of _ p] exI[of _ ms] exI[of _ b'] exI[of _ p']) (simp add: first_open_append)
qed

lemma follows_later:
  assumes "follows i xs (bkey cb) ms new"
  shows "follows i xs lo ((cb, p) # ms) new"
proof (cases "new = []")
  case False
  with assms obtain pre cb' p1 post b' p' where f: "ms = pre @ (cb', p1) # post" "p1 \<noteq> PSkip"
    "first_open bottom_key new = Some (end_key (bkey cb) pre, b', p')" "bkey b' \<le> bkey cb'" "is_ids p1 \<longrightarrow> \<not> i \<and> is_ids p'"
    "is_ids p' \<or> length (within (end_key (bkey cb) pre) (bkey b') xs) < length (within (end_key (bkey cb) pre) (bkey cb') xs)"
    unfolding follows_def by blast
  then show ?thesis unfolding follows_def
    by (intro disjI2 exI[of _ "(cb, p) # pre"] exI[of _ cb'] exI[of _ p1] exI[of _ post] exI[of _ b'] exI[of _ p']) simp
qed (simp add: follows_def)

lemma reconcile_ranges_honest:
  assumes laws: "bound_law lib" "storage_law lib" and c: "comparable lib xs ys" and small: "length ys < 2 ^ 64"
  shows "loop_ok lib xs st out \<Longrightarrow> rs_query st = message_bytes (bts (rs_prev_bound st)) ms \<Longrightarrow>
    ng_last_timestamp_in (rs_engine st) = bts (rs_prev_bound st) \<Longrightarrow> honest lib ys (bkey (rs_prev_bound st)) ms \<Longrightarrow>
    \<exists>st' new h n. reconcile_ranges lib st = (Inr (), st') \<and> rs_have st' = rs_have st @ h \<and> rs_need st' = rs_need st @ n \<and>
      reports (ng_is_initiator (rs_engine st)) xs ys h n \<and>
      ng_storage (rs_engine st') = xs \<and> ng_is_initiator (rs_engine st') = ng_is_initiator (rs_engine st) \<and>
      ng_frame_size_limit (rs_engine st') = ng_frame_size_limit (rs_engine st) \<and>
      rs_output st' = PROTOCOL_VERSION # message_bytes 0 (out @ new) \<and> honest lib xs bottom_key (out @ new) \<and>
      (\<forall>k. open_key (bkey (rs_prev_bound st)) ms k \<and> \<not> open_key (end_key bottom_key out) new k \<longrightarrow>
         settled (ng_is_initiator (rs_engine st)) xs ys h n k) \<and>
      (busy (all_keys xs ys) (bkey (rs_prev_bound st)) ms \<longrightarrow> busy (all_keys xs ys) (end_key bottom_key out) new) \<and>
      (out = [] \<longrightarrow> follows (ng_is_initiator (rs_engine st)) xs (bkey (rs_prev_bound st)) ms new)"
proof (induction ms arbitrary: st out)
  case Nil
  then have "reconcile_ranges lib st = (Inr (), st)" by (simp add: reconcile_ranges.simps)
  then show ?case using Nil by (intro exI[of _ st] exI[of _ "[]"]) (simp add: loop_ok_def follows_def)
next
  case (Cons m ms)
  obtain cb p where m: "m = (cb, p)" by force
  let ?i = "ng_is_initiator (rs_engine st)" and ?e = "end_key bottom_key out"
  from reconcile_range_passed[OF laws c small Cons.prems(1) Cons.prems(2)[unfolded m] Cons.prems(3) Cons.prems(4)[unfolded m]]
  obtain stop st1 where r: "reconcile_range lib st = (Inr stop, st1)" "passed lib xs ys out cb p ms st stop st1" by blast
  let ?K = "all_keys xs ys"
  from r(2) obtain new h n where n: "rs_have st1 = rs_have st @ h" "rs_need st1 = rs_need st @ n" "reports ?i xs ys h n"
    "ng_storage (rs_engine st1) = xs" "ng_is_initiator (rs_engine st1) = ?i"
    "ng_frame_size_limit (rs_engine st1) = ng_frame_size_limit (rs_engine st)"
    "rs_output st1 = PROTOCOL_VERSION # message_bytes 0 (out @ new)" "honest lib xs bottom_key (out @ new)"
    and bus: "(is_ids p \<longrightarrow> occupied ?K (bkey (rs_prev_bound st)) (bkey cb)) \<Longrightarrow> busy ?K ?e new"
    and adv: "out = [] \<Longrightarrow> advances ?i xs (bkey (rs_prev_bound st)) cb p new"
    and settle: "\<And>k. p \<noteq> PSkip \<Longrightarrow> bkey (rs_prev_bound st) \<le> k \<Longrightarrow> k < bkey cb \<Longrightarrow> \<not> open_key ?e new k \<Longrightarrow> settled ?i xs ys h n k"
    and stopped: "\<And>k. stop \<Longrightarrow> bkey cb \<le> k \<Longrightarrow> k < top_key \<Longrightarrow> open_key ?e new k"
    and going: "\<not> stop \<Longrightarrow> loop_ok lib xs st1 (out @ new) \<and> rs_prev_bound st1 = cb \<and> rs_query st1 = message_bytes (bts cb) ms \<and>
      ng_last_timestamp_in (rs_engine st1) = bts cb"
    unfolding passed_def by blast
  have query: "rs_query st \<noteq> []" using Cons.prems(2) encode_var_int_length by (auto simp: m bound_bytes_def)
  have hm: "honest lib ys (bkey cb) ms" using Cons.prems(4) by (simp add: m)
  have bus1: "busy ?K ?e new" if "busy ?K (bkey (rs_prev_bound st)) (m # ms)"
    using that by (intro bus) (auto simp: m)
  show ?case
  proof (cases stop)
    case True
    then have "reconcile_ranges lib st = (Inr (), st1)" using query r(1) by (simp add: reconcile_ranges.simps)
    moreover have opn: "open_key ?e new k" if "open_key (bkey cb) ms k" for k
      using stopped[OF True, of k] open_key_range[OF hm that] by blast
    have "settled ?i xs ys h n k" if "open_key (bkey (rs_prev_bound st)) (m # ms) k" "\<not> open_key ?e new k" for k
      using that settle[of k] opn[of k] by (auto simp: m)
    moreover have "follows ?i xs (bkey (rs_prev_bound st)) (m # ms) new" if "out = []"
      using follows_here[OF adv[OF that], of ms "[]"] by (cases "new = []") (auto simp: m follows_def)
    ultimately show ?thesis using n bus1 by blast
  next
    case False
    then have ru: "reconcile_ranges lib st = reconcile_ranges lib st1" using query r(1) by (subst reconcile_ranges.simps) simp
    have pb: "rs_prev_bound st1 = cb" and g: "loop_ok lib xs st1 (out @ new)" "rs_query st1 = message_bytes (bts (rs_prev_bound st1)) ms"
      "ng_last_timestamp_in (rs_engine st1) = bts (rs_prev_bound st1)" "honest lib ys (bkey (rs_prev_bound st1)) ms"
      using going[OF False] hm by simp_all
    from Cons.IH[OF g] obtain st' new' h' n' where
      "reconcile_ranges lib st1 = (Inr (), st')" "rs_have st' = rs_have st1 @ h'" "rs_need st' = rs_need st1 @ n'"
      "reports ?i xs ys h' n'" "ng_storage (rs_engine st') = xs" "ng_is_initiator (rs_engine st') = ?i"
      "ng_frame_size_limit (rs_engine st') = ng_frame_size_limit (rs_engine st)"
      "rs_output st' = PROTOCOL_VERSION # message_bytes 0 ((out @ new) @ new')" "honest lib xs bottom_key ((out @ new) @ new')"
      and b': "busy ?K (bkey cb) ms \<longrightarrow> busy ?K (end_key bottom_key (out @ new)) new'"
      and f': "out @ new = [] \<longrightarrow> follows ?i xs (bkey cb) ms new'"
      and s': "\<And>k. open_key (bkey cb) ms k \<Longrightarrow> \<not> open_key (end_key bottom_key (out @ new)) new' k \<Longrightarrow> settled ?i xs ys h' n' k"
      unfolding n(5,6) pb by blast
    moreover have "settled ?i xs ys (h @ h') (n @ n') k"
      if "open_key (bkey (rs_prev_bound st)) (m # ms) k" "\<not> open_key ?e (new @ new') k" for k
      using that settle[of k] s'[of k] by (intro settled_append) (auto simp: m)
    moreover have "busy ?K ?e (new @ new')" if "busy ?K (bkey (rs_prev_bound st)) (m # ms)"
      using bus1[OF that] b' that by (simp add: m)
    moreover have "follows ?i xs (bkey (rs_prev_bound st)) (m # ms) (new @ new')" if "out = []"
    proof (cases "new = []")
      case True
      then show ?thesis using follows_later f' that by (simp add: m)
    next
      case ne: False
      then show ?thesis using follows_here[OF adv[OF that]] by (simp add: m)
    qed
    moreover note reports_append[OF n(3)]
    ultimately show ?thesis using n(1,2) unfolding ru
      by (intro exI[of _ st'] exI[of _ "new @ new'"] exI[of _ "h @ h'"] exI[of _ "n @ n'"]) simp
  qed
qed

end
