(* ===== verification/Negentropy_Progress.thy ===== *)
theory Negentropy_Progress
  imports Negentropy_Loop
begin

text \<open>
  A measure on messages that every answer lowers: how many keys lie behind the start of the first range that is still to be
  compared, and then what that range holds.
\<close>

definition rank :: "bool \<Rightarrow> item list \<Rightarrow> item list \<Rightarrow> key \<times> bound \<times> payload \<Rightarrow> nat" where
  "rank i xs ys r =
     (case r of (lo, b, p) \<Rightarrow>
        if is_ids p then (if i then 1 else 0) else 2 + length (within lo (bkey b) xs) + length (within lo (bkey b) ys))"

definition weight :: "bool \<Rightarrow> item list \<Rightarrow> item list \<Rightarrow> message \<Rightarrow> nat" where
  "weight i xs ys ms =
     (case first_open bottom_key ms of
        None \<Rightarrow> 0
      | Some (lo, b, p) \<Rightarrow> Suc (card {k \<in> all_keys xs ys. lo \<le> k} * (length xs + length ys + 3) + rank i xs ys (lo, b, p)))"

lemma within_length: "length (within lo hi xs) \<le> length xs"
  by (simp add: within_def)

lemma within_shorter: "hi \<le> hi' \<Longrightarrow> length (within lo hi xs) \<le> length (within lo hi' xs)"
  unfolding within_def by (induction xs) auto

lemma rank_bound: "rank i xs ys r < length xs + length ys + 3"
proof -
  obtain lo b p where "r = (lo, b, p)" by (cases r)
  then show ?thesis using within_length[of lo "bkey b" xs] within_length[of lo "bkey b" ys] by (simp add: rank_def)
qed

lemma weight_bound: "weight i xs ys ms \<le> (length xs + length ys + 2) * (length xs + length ys + 3)"
proof (cases "first_open bottom_key ms")
  case (Some r)
  obtain lo b p where r: "r = (lo, b, p)" by (cases r)
  let ?K = "all_keys xs ys" and ?n = "length xs + length ys"
  have "card {k \<in> ?K. lo \<le> k} \<le> card ?K" by (rule card_mono) auto
  also have "\<dots> \<le> Suc (card (key ` (set xs \<union> set ys)))" by (rule card_insert_le_m1) auto
  also have "\<dots> \<le> Suc (card (set xs \<union> set ys))" using card_image_le[of "set xs \<union> set ys" key] by simp
  also have "\<dots> \<le> ?n + 1" using card_Un_le[of "set xs" "set ys"] card_length[of xs] card_length[of ys] by linarith
  finally have "card {k \<in> ?K. lo \<le> k} * (?n + 3) \<le> (?n + 1) * (?n + 3)" by (rule mult_le_mono1)
  then show ?thesis using rank_bound[of i xs ys r] by (simp add: weight_def Some r)
qed (simp add: weight_def)

lemma all_keys_sym: "all_keys ys xs = all_keys xs ys"
  by (simp add: Un_commute)

lemma weight_sym: "weight i ys xs ms = weight i xs ys ms"
  unfolding weight_def rank_def all_keys_sym by (simp add: add.commute split: option.split)

lemma first_open_pre:
  assumes "honest lib zs lo ms" and "first_open lo ms = Some (lo1, b1, p1)"
  shows "lo \<le> lo1" and "lo1 \<le> bkey b1" and "bkey b1 \<le> end_key lo ms" and "p1 \<noteq> PSkip"
    and "busy K lo ms \<Longrightarrow> occupied K lo1 (bkey b1) \<or> \<not> is_ids p1 \<and> (\<forall>k\<in>K. k < lo1)"
proof -
  have "lo \<le> lo1 \<and> lo1 \<le> bkey b1 \<and> bkey b1 \<le> end_key lo ms \<and> p1 \<noteq> PSkip \<and>
      (busy K lo ms \<longrightarrow> occupied K lo1 (bkey b1) \<or> \<not> is_ids p1 \<and> (\<forall>k\<in>K. k < lo1))"
    using assms
  proof (induction ms arbitrary: lo)
    case (Cons m ms)
    obtain b p where m: "m = (b, p)" by force
    show ?case
    proof (cases "p = PSkip")
      case True
      then show ?thesis using Cons.IH[of "bkey b"] Cons.prems by (auto simp: m)
    next
      case False
      then show ?thesis using Cons.prems honest_order[of lib zs "bkey b" ms] by (auto simp: m)
    qed
  qed simp
  then show "lo \<le> lo1" "lo1 \<le> bkey b1" "bkey b1 \<le> end_key lo ms" "p1 \<noteq> PSkip"
    "busy K lo ms \<Longrightarrow> occupied K lo1 (bkey b1) \<or> \<not> is_ids p1 \<and> (\<forall>k\<in>K. k < lo1)" by blast+
qed

text \<open>The answer weighs less. Its sender has the role \<open>i\<close> and the records \<open>xs\<close>.\<close>

lemma weight_less:
  assumes f: "follows i xs bottom_key ms new" and ne: "new \<noteq> []" and h: "honest lib ys bottom_key ms" and hn: "honest lib xs bottom_key new"
    and busy: "busy (all_keys xs ys) bottom_key ms" "busy (all_keys xs ys) bottom_key new"
  shows "0 < weight i xs ys new" and "weight i xs ys new < weight (\<not> i) xs ys ms"
proof -
  let ?K = "all_keys xs ys" and ?N = "length xs + length ys + 3"
  from f ne obtain pre cb p post b' p' where ms: "ms = pre @ (cb, p) # post" "p \<noteq> PSkip"
    and new: "first_open bottom_key new = Some (end_key bottom_key pre, b', p')" "bkey b' \<le> bkey cb"
    and ids: "is_ids p \<Longrightarrow> \<not> i \<and> is_ids p'"
    and less: "is_ids p' \<or> length (within (end_key bottom_key pre) (bkey b') xs) < length (within (end_key bottom_key pre) (bkey cb) xs)"
    unfolding follows_def by blast
  define lo where "lo = end_key bottom_key pre"
  have w: "weight i xs ys new = Suc (card {k \<in> ?K. lo \<le> k} * ?N + rank i xs ys (lo, b', p'))"
    using new(1) by (simp add: weight_def lo_def)
  then show "0 < weight i xs ys new" by simp
  show "weight i xs ys new < weight (\<not> i) xs ys ms"
  proof (cases "first_open bottom_key pre")
    case None
    then have "weight (\<not> i) xs ys ms = Suc (card {k \<in> ?K. lo \<le> k} * ?N + rank (\<not> i) xs ys (lo, cb, p))"
      using ms by (simp add: weight_def first_open_append lo_def)
    moreover have "rank i xs ys (lo, b', p') < rank (\<not> i) xs ys (lo, cb, p)"
      using ids less within_shorter[OF new(2), of lo ys] by (auto simp: rank_def lo_def)
    ultimately show ?thesis using w by simp
  next
    case (Some r)
    obtain lo1 b1 p1 where r: "r = (lo1, b1, p1)" by (cases r)
    have hp: "honest lib ys bottom_key pre" and bp: "busy ?K bottom_key pre" using h busy(1) ms(1) by simp_all
    note o = first_open_pre[OF hp Some[unfolded r]]
    have occ_new: "occupied ?K lo (bkey b') \<or> \<not> is_ids p' \<and> (\<forall>k\<in>?K. k < lo)"
      using first_open_pre(5)[OF hn new(1) busy(2)] by (simp add: lo_def)
    have "within lo (bkey cb) xs \<noteq> []" if "\<not> is_ids p'" using less that by (auto simp: lo_def)
    then have reach: "occupied ?K lo (bkey b') \<or> occupied ?K lo (bkey cb)"
      using occ_new within_occupied[OF _ own_keys(1), of lo "bkey cb" xs ys] by blast
    then obtain k0 where k0: "k0 \<in> ?K" "lo \<le> k0" unfolding occupied_def by blast
    have "\<not> (\<forall>k\<in>?K. k < lo1)" using k0 o(2,3) unfolding lo_def by (meson leD order_trans)
    then obtain k1 where k1: "k1 \<in> ?K" "lo1 \<le> k1" "k1 < bkey b1" using o(5)[OF bp] unfolding occupied_def by blast
    have "{k \<in> ?K. lo \<le> k} \<subset> {k \<in> ?K. lo1 \<le> k}"
    proof (rule psubsetI)
      show "{k \<in> ?K. lo \<le> k} \<subseteq> {k \<in> ?K. lo1 \<le> k}" using o(2,3) unfolding lo_def by (blast intro: order_trans)
      have "\<not> lo \<le> k1" using k1(3) o(3) unfolding lo_def by (meson leD order_trans)
      then show "{k \<in> ?K. lo \<le> k} \<noteq> {k \<in> ?K. lo1 \<le> k}" using k1 by blast
    qed
    then have "card {k \<in> ?K. lo \<le> k} < card {k \<in> ?K. lo1 \<le> k}" by (intro psubset_card_mono) simp_all
    then have "Suc (card {k \<in> ?K. lo \<le> k}) * ?N \<le> card {k \<in> ?K. lo1 \<le> k} * ?N" by (intro mult_le_mono1) simp
    moreover have "weight (\<not> i) xs ys ms = Suc (card {k \<in> ?K. lo1 \<le> k} * ?N + rank (\<not> i) xs ys (lo1, b1, p1))"
      using Some r ms(1) by (simp add: weight_def first_open_append)
    ultimately show ?thesis using w rank_bound[of i xs ys "(lo, b', p')"] by simp
  qed
qed

end
