(* ===== verification/Reconcile_Session.thy ===== *)
theory Reconcile_Session
  imports Negentropy
begin

text \<open>
  Sessions of the set reconciliation: the check of untrusted frames (\<open>validation.rs\<close>) and the bounded conversation over an
  immutable snapshot (\<open>lib.rs\<close> of \<open>crates/nostr-pubsub-reconcile\<close>). An error string is \<open>SessionError\<close>, the text of an engine
  error is \<open>EngineError\<close> with the error itself.
\<close>

datatype session_error = SessionError string | EngineError neg_error

section \<open>Validation\<close>

definition val_take :: "nat \<Rightarrow> bytes \<Rightarrow> session_error + bytes \<times> bytes" where
  "val_take n bs =
     (if n > length bs then Inl (SessionError ''truncated reconciliation frame'') else Inr (take n bs, drop n bs))"

fun val_digits :: "nat \<Rightarrow> u64 \<Rightarrow> bytes \<Rightarrow> session_error + u64 \<times> bytes" where
  "val_digits 0 result bs = Inl (SessionError ''varint too long'')"
| "val_digits (Suc k) result bs =
     (case val_take 1 bs of
        Inl err \<Rightarrow> Inl err
      | Inr (byte, rest) \<Rightarrow>
          (case push_digit result (hd byte) of
             None \<Rightarrow> Inl (SessionError ''varint overflow'')
           | Some result' \<Rightarrow> if hd byte AND 128 = 0 then Inr (result', rest) else val_digits k result' rest))"

definition val_varint :: "bytes \<Rightarrow> session_error + u64 \<times> bytes" where
  "val_varint bs = val_digits 10 0 bs"

definition val_timestamp :: "u64 \<Rightarrow> u64 \<Rightarrow> session_error + u64" where
  "val_timestamp delta timestamp =
     (if delta = 0 \<or> timestamp = - 1 then Inr (- 1)
      else case checked_add timestamp (delta - 1) of
             None \<Rightarrow> Inl (SessionError ''timestamp overflow'')
           | Some t \<Rightarrow> Inr t)"

definition val_bound :: "u64 \<Rightarrow> bytes \<Rightarrow> session_error + (u64 \<times> bytes) \<times> bytes" where
  "val_bound timestamp bs =
     (case val_varint bs of
        Inl err \<Rightarrow> Inl err
      | Inr (delta, bs1) \<Rightarrow>
          (case val_timestamp delta timestamp of
             Inl err \<Rightarrow> Inl err
           | Inr timestamp' \<Rightarrow>
               (case val_varint bs1 of
                  Inl err \<Rightarrow> Inl err
                | Inr (len, bs2) \<Rightarrow>
                    if unat len > 32 then Inl (SessionError ''invalid bound length'')
                    else map_sum (\<lambda>err. err) (\<lambda>(i, bs3). ((timestamp', i @ replicate (32 - unat len) 0), bs3)) (val_take (unat len) bs2))))"

definition val_payload :: "bytes \<Rightarrow> session_error + bytes" where
  "val_payload bs =
     (case val_varint bs of
        Inl err \<Rightarrow> Inl err
      | Inr (m, bs1) \<Rightarrow>
          if m = 0 then Inr bs1
          else if m = 1 then map_sum (\<lambda>err. err) snd (val_take 16 bs1)
          else if m = 2 then
            (case val_varint bs1 of
               Inl err \<Rightarrow> Inl err
             | Inr (num, bs2) \<Rightarrow>
                 if unat num * 32 < 2 ^ 64 then map_sum (\<lambda>err. err) snd (val_take (unat num * 32) bs2)
                 else Inl (SessionError ''ID count overflow''))
          else Inl (SessionError ''invalid reconciliation mode''))"

definition val_range :: "u64 \<Rightarrow> u64 \<times> bytes \<Rightarrow> bytes \<Rightarrow> session_error + (u64 \<times> bytes) \<times> bytes" where
  "val_range timestamp previous bs =
     (case val_bound timestamp bs of
        Inl err \<Rightarrow> Inl err
      | Inr (b, bs1) \<Rightarrow>
          if b < previous then Inl (SessionError ''unordered reconciliation ranges'')
          else map_sum (\<lambda>err. err) (\<lambda>bs2. (b, bs2)) (val_payload bs1))"

lemma val_digits_iff: "val_digits k v bs = Inr r \<longleftrightarrow> decode_digits k v bs = Inr r"
proof (induction k arbitrary: v bs)
  case (Suc k)
  then show ?case by (cases bs) (auto simp: val_take_def get_bytes_def split: option.split)
qed simp

text \<open>The two readers of the crate accept the same integers.\<close>

lemma val_varint_iff: "val_varint bs = Inr r \<longleftrightarrow> decode_var_int bs = Inr r"
  by (simp add: val_varint_def decode_var_int_def val_digits_iff)

interpretation validation: var_int_reader val_varint
  by unfold_locales (simp_all add: val_varint_iff codec.read_encode codec.read_prefix)

lemma val_take_Inr: "val_take n bs = Inr (pre, rest) \<longleftrightarrow> bs = pre @ rest \<and> length pre = n"
  by (auto simp: val_take_def)

lemma val_payload_length: "val_payload bs = Inr rest \<Longrightarrow> length rest \<le> length bs"
  by (auto simp: val_payload_def map_sum_Inr val_take_Inr split: sum.splits if_splits dest!: validation.read_shortens)

lemma val_bound_length: "val_bound t bs = Inr (b, rest) \<Longrightarrow> length rest < length bs"
  by (auto simp: val_bound_def map_sum_Inr val_take_Inr split: sum.splits if_splits dest!: validation.read_shortens)

lemma val_range_length: "val_range t previous bs = Inr (b, rest) \<Longrightarrow> length rest < length bs"
  by (auto simp: val_range_def map_sum_Inr split: sum.splits if_splits dest!: val_bound_length val_payload_length)

function val_ranges :: "u64 \<times> bytes \<Rightarrow> bytes \<Rightarrow> session_error + unit" where
  "val_ranges previous bs =
     (if bs = [] then Inr ()
      else case val_range (fst previous) previous bs of
             Inl err \<Rightarrow> Inl err
           | Inr (b, rest) \<Rightarrow> val_ranges b rest)"
  by pat_completeness auto
termination
  by (relation "measure (\<lambda>(previous, bs). length bs)") (auto dest: val_range_length)

declare val_ranges.simps [simp del]

definition validate :: "bytes \<Rightarrow> session_error + unit" where
  "validate bs =
     (case val_take 1 bs of
        Inl err \<Rightarrow> Inl err
      | Inr (version, rest) \<Rightarrow>
          if version \<noteq> [0x61] then Inl (SessionError ''unsupported Negentropy version'')
          else val_ranges (0, replicate 32 0) rest)"

section \<open>Sessions\<close>

record rec_record =
  rec_timestamp :: u64
  rec_id :: bytes

record rec_filter =
  rf_since :: u64
  rf_until :: u64

definition rf_contains :: "rec_filter \<Rightarrow> u64 \<Rightarrow> bool" where
  "rf_contains f timestamp \<longleftrightarrow> timestamp \<ge> rf_since f \<and> timestamp \<le> rf_until f"

record limits =
  lm_max_records :: nat
  lm_max_frame_bytes :: nat
  lm_max_rounds :: nat

definition limits_default :: limits where
  "limits_default = \<lparr>lm_max_records = 100000, lm_max_frame_bytes = 16384, lm_max_rounds = 256\<rparr>"

record rec_step =
  st_next :: "bytes option"
  st_have :: "bytes list"
  st_need :: "bytes list"

record session =
  ss_engine :: negentropy
  ss_limits :: limits
  ss_rounds :: nat
  ss_finished :: bool

fun collect_records :: "rec_filter \<Rightarrow> nat \<Rightarrow> rec_record list \<Rightarrow> (bytes, u64) hmap \<Rightarrow> session_error + (bytes, u64) hmap" where
  "collect_records f max_records [] unique = Inr unique"
| "collect_records f max_records (r # records) unique =
     (if \<not> rf_contains f (rec_timestamp r) then collect_records f max_records records unique
      else let previous = hm_get unique (rec_id r); unique' = bmap_insert (rec_id r) (rec_timestamp r) unique
           in if previous \<noteq> None \<and> previous \<noteq> Some (rec_timestamp r)
              then Inl (SessionError ''one record ID has conflicting timestamps'')
              else if length unique' > max_records then Inl (SessionError ''reconciliation window exceeds record limit'')
              else collect_records f max_records records unique')"

definition session_new :: "neg_lib \<Rightarrow> rec_record list \<Rightarrow> rec_filter \<Rightarrow> limits \<Rightarrow> session_error + session" where
  "session_new lib records f lim =
     (if rf_since f > rf_until f \<or> rf_until f = - 1 then Inl (SessionError ''invalid reconciliation window'')
      else if lm_max_records lim = 0 \<or> lm_max_records lim > 1000000 \<or>
              \<not> (4096 \<le> lm_max_frame_bytes lim \<and> lm_max_frame_bytes lim \<le> 65536) \<or> lm_max_rounds lim = 0
      then Inl (SessionError ''invalid reconciliation limits'')
      else case collect_records f (lm_max_records lim) records [] of
             Inl err \<Rightarrow> Inl err
           | Inr unique \<Rightarrow>
               (case storage_seal lib (map (\<lambda>(i, t). \<lparr>it_timestamp = t, it_id = i\<rparr>) unique) of
                  Inl err \<Rightarrow> Inl (EngineError err)
                | Inr storage \<Rightarrow>
                    map_sum EngineError (\<lambda>ng. \<lparr>ss_engine = ng, ss_limits = lim, ss_rounds = 0, ss_finished = False\<rparr>)
                      (ng_new storage (lm_max_frame_bytes lim))))"

definition tick :: "session \<Rightarrow> (session_error + unit) \<times> session" where
  "tick s =
     (if ss_finished s \<or> ss_rounds s \<ge> lm_max_rounds (ss_limits s)
      then (Inl (SessionError ''reconciliation session finished or round limit exceeded''), s)
      else (Inr (), s\<lparr>ss_rounds := ss_rounds s + 1\<rparr>))"

definition accept :: "bytes \<Rightarrow> session \<Rightarrow> (session_error + unit) \<times> session" where
  "accept frame s =
     (case tick s of
        (Inl err, s') \<Rightarrow> (Inl err, s')
      | (Inr _, s') \<Rightarrow>
          (if length frame > lm_max_frame_bytes (ss_limits s') then Inl (SessionError ''reconciliation frame exceeds byte limit'')
           else validate frame, s'))"

definition initiate :: "neg_lib \<Rightarrow> session \<Rightarrow> (session_error + bytes) \<times> session" where
  "initiate lib s =
     (case tick s of
        (Inl err, s') \<Rightarrow> (Inl err, s')
      | (Inr _, s') \<Rightarrow>
          (case ng_initiate lib (ss_engine s') of
             (r, ng) \<Rightarrow> (map_sum EngineError (\<lambda>frame. frame) r, s'\<lparr>ss_engine := ng\<rparr>)))"

definition respond :: "neg_lib \<Rightarrow> bytes \<Rightarrow> session \<Rightarrow> (session_error + bytes) \<times> session" where
  "respond lib frame s =
     (case accept frame s of
        (Inl err, s') \<Rightarrow> (Inl err, s')
      | (Inr _, s') \<Rightarrow>
          (case ng_reconcile lib frame (ss_engine s') of
             (r, ng) \<Rightarrow> (map_sum EngineError (\<lambda>out. out) r, s'\<lparr>ss_engine := ng\<rparr>)))"

definition reconcile :: "neg_lib \<Rightarrow> bytes \<Rightarrow> session \<Rightarrow> (session_error + rec_step) \<times> session" where
  "reconcile lib frame s =
     (case accept frame s of
        (Inl err, s') \<Rightarrow> (Inl err, s')
      | (Inr _, s') \<Rightarrow>
          (case ng_reconcile_with_ids lib frame (ss_engine s') of
             (Inl err, ng) \<Rightarrow> (Inl (EngineError err), s'\<lparr>ss_engine := ng\<rparr>)
           | (Inr (frame', have_ids, need_ids), ng) \<Rightarrow>
               (Inr \<lparr>st_next = frame', st_have = have_ids, st_need = need_ids\<rparr>,
                s'\<lparr>ss_engine := ng, ss_finished := (frame' = None)\<rparr>)))"

end
