(* ===== verification/Reconcile_Robust.thy ===== *)
theory Reconcile_Robust
  imports Reconcile_Frames
begin

text \<open>
  Frames of a peer that need not be honest: after the check the engine cannot fail, and its answer fits the frame limit.
\<close>

section \<open>Decoding what the check accepts\<close>

lemma sat_of_checked: "checked_add t d = Some x \<Longrightarrow> sat_add d t = x"
  by (simp add: checked_add_def sat_add_def add.commute split: if_splits)

lemma decode_bound_val:
  assumes laws: "bound_law lib" and v: "val_bound (ng_last_timestamp_in ng) bs = Inr (k, rest)"
  shows "\<exists>b. decode_bound lib bs ng = (Inr (b, rest), ng\<lparr>ng_last_timestamp_in := fst k\<rparr>) \<and> short_bound b"
proof -
  let ?t = "ng_last_timestamp_in ng"
  obtain delta bs1 where d: "val_varint bs = Inr (delta, bs1)" using v by (auto simp: val_bound_def split: sum.splits)
  obtain ts where ts: "val_timestamp delta ?t = Inr ts" using v d by (auto simp: val_bound_def split: sum.splits)
  obtain len bs2 where l: "val_varint bs1 = Inr (len, bs2)" using v d ts by (auto simp: val_bound_def split: sum.splits)
  have small: "unat len \<le> ID_SIZE" using v d ts l by (auto simp: val_bound_def split: if_splits)
  obtain i where i: "bs2 = i @ rest" "length i = unat len" and k: "fst k = ts"
    using v d ts l small by (auto simp: val_bound_def map_sum_Inr val_take_Inr)
  have s: "sat_add (if delta = 0 then MAX_U64 else delta - 1) ?t = ts"
  proof (cases "delta = 0 \<or> ?t = - 1")
    case True
    have "sat_add x (- 1 :: u64) = - 1" for x
      by (simp add: word_unat_eq_iff unsigned_minus_1_eq_mask mask_eq_exp_minus_1)
    then show ?thesis using True ts by (auto simp: val_timestamp_def MAX_U64_def[symmetric])
  next
    case False
    then show ?thesis using ts sat_of_checked by (auto simp: val_timestamp_def split: option.splits)
  qed
  have "decode_timestamp_in bs ng = (Inr (ts, bs1), ng\<lparr>ng_last_timestamp_in := ts\<rparr>)"
    using d s by (simp add: decode_timestamp_in_def val_varint_iff Let_def)
  moreover have "decode_bound_id lib ts bs1 = Inr (\<lparr>bd_item = \<lparr>it_timestamp = ts, it_id = i @ zeros (ID_SIZE - length i)\<rparr>, bd_id_len = length i\<rparr>, rest)"
    using l i small laws by (simp add: decode_bound_id_def val_varint_iff bound_law_def)
  ultimately show ?thesis using k small i(2) by (simp add: decode_bound_def short_bound_def)
qed

lemma read_ids_total:
  assumes "length bs = n * ID_SIZE"
  shows "\<exists>ids. read_ids n (bs @ rest) elems = Inr (ids, rest)"
  using assms
proof (induction n arbitrary: bs elems)
  case (Suc n)
  then obtain e bs' where e: "bs = e @ bs'" "length e = ID_SIZE" "length bs' = n * ID_SIZE"
    by (metis add.commute append_take_drop_id diff_add_inverse length_drop length_take min.absorb2 le_add2 mult_Suc)
  then show ?case using Suc.IH[OF e(3)] by simp
qed simp

section \<open>One pass\<close>

text \<open>\<open>same_engine\<close>: the engine is the same up to the timestamp of the last bound written.\<close>

definition same_engine :: "negentropy \<Rightarrow> negentropy \<Rightarrow> bool" where
  "same_engine ng ng' \<longleftrightarrow> ng_storage ng' = ng_storage ng \<and> ng_frame_size_limit ng' = ng_frame_size_limit ng \<and>
     ng_is_initiator ng' = ng_is_initiator ng \<and> ng_last_timestamp_in ng' = ng_last_timestamp_in ng"

definition safe :: "item list \<Rightarrow> nat \<Rightarrow> range_state \<Rightarrow> bool" where
  "safe xs limit st \<longleftrightarrow>
     ng_storage (rs_engine st) = xs \<and> ng_frame_size_limit (rs_engine st) = limit \<and> rs_prev_index st \<le> length xs \<and>
     short_bound (rs_prev_bound st) \<and> length (rs_output st) \<le> limit - 200"

lemma emit_skip_safe:
  assumes "short_bound (rs_prev_bound st)"
  shows "\<exists>skipped ng. emit_skip st = (skipped, st\<lparr>rs_skip := False, rs_engine := ng\<rparr>) \<and> same_engine (rs_engine st) ng \<and> length skipped \<le> 44"
  using bound_bytes_length[OF assms, of "ng_last_timestamp_out (rs_engine st)"]
  by (cases st) (auto simp: emit_skip_def encode_bound_eq same_engine_def)

lemma finish_safe:
  assumes laws: "bound_law lib" "storage_law lib" and limit: "4096 \<le> limit"
    and st: "ng_storage (rs_engine st) = xs" "ng_frame_size_limit (rs_engine st) = limit" "short_bound (rs_prev_bound st)"
    and cb: "short_bound cb" and i: "lower \<le> length xs" "upper \<le> length xs"
    and len: "length (rs_output st) \<le> (if part = [] then limit - 70 else limit - 200)"
  shows "\<exists>stop st'. finish_range lib lower upper truncated cb t part st = (Inr stop, st') \<and> length (rs_output st') \<le> limit \<and>
    same_engine (rs_engine st) (rs_engine st') \<and> rs_query st' = rs_query st \<and> (\<not> stop \<longrightarrow> safe xs limit st')"
proof (cases "truncated \<or> exceeded_frame_size_limit (rs_engine st) (length (rs_output st) + length part)")
  case True
  let ?r = "if part = [] then upper else lower"
  let ?b = "if part = [] then cb else rs_prev_bound st"
  have r: "?r \<le> length xs" "length xs \<le> length xs" using i by simp_all
  obtain f where f: "storage_fingerprint lib xs ?r (length xs) = Inr f" "length f = FINGERPRINT_SIZE"
    using fingerprint_valid[OF laws(2) r] by auto
  have b: "length (bound_bytes t' ?b) \<le> 43" for t' using bound_bytes_length cb st(3) by simp
  have m: "length (bound_bytes t' (bound_with_timestamp lib MAX_U64)) = 2" for t'
    using laws(1) by (simp add: bound_law_def bound_bytes_def timestamp_bytes_def resize_def)
  let ?ng1 = "if part \<noteq> [] then (rs_engine st)\<lparr>ng_last_timestamp_out := t\<rparr> else rs_engine st"
  let ?sk = "if \<not> truncated then bound_bytes (ng_last_timestamp_out ?ng1) ?b @ encode_mode Skip else []"
  let ?t2 = "if \<not> truncated then bts ?b else ng_last_timestamp_out ?ng1"
  let ?tail = "?sk @ bound_bytes ?t2 (bound_with_timestamp lib MAX_U64) @ encode_mode Fingerprint @ f"
  have "finish_range lib lower upper truncated cb t part st =
      (Inr True, st\<lparr>rs_engine := (rs_engine st)\<lparr>ng_last_timestamp_out := bts (bound_with_timestamp lib MAX_U64)\<rparr>, rs_output := rs_output st @ ?tail\<rparr>)"
    using True f(1) st(1) by (auto simp: finish_range_def Let_def encode_bound_eq)
  moreover have "length ?tail \<le> 63" using b m f(2) by auto
  then have "length (rs_output st @ ?tail) \<le> limit" using len limit by (auto split: if_splits)
  ultimately show ?thesis by (auto simp: same_engine_def)
next
  case False
  then show ?thesis using st cb i limit
    by (auto simp: finish_range_def safe_def same_engine_def exceeded_frame_size_limit_def)
qed

lemma collect_response_bound:
  assumes "\<forall>v\<in>set vs. length (it_id (fst v)) = ID_SIZE" and "collect_response ng len vs resp c = (resp', c', stopped)"
    and "len + length resp \<le> ng_frame_size_limit ng - 200 + ID_SIZE" "ng_frame_size_limit ng \<noteq> 0"
  shows "len + length resp' \<le> ng_frame_size_limit ng - 200 + ID_SIZE"
  using assms
proof (induction vs arbitrary: resp c)
  case (Cons v vs)
  obtain x i where v: "v = (x, i)" by force
  show ?case
  proof (cases "exceeded_frame_size_limit ng (len + length resp)")
    case False
    then show ?thesis using Cons.IH[of "resp @ it_id x" "Suc c"] Cons.prems by (simp add: v exceeded_frame_size_limit_def)
  qed (use Cons.prems in \<open>simp add: v\<close>)
qed simp

lemma respond_ids_safe:
  assumes laws: "bound_law lib" "storage_law lib" and xs: "items_ok xs" and limit: "4096 \<le> limit"
    and st: "safe xs limit st" and cb: "short_bound cb" and i: "lower \<le> upper" "upper \<le> length xs"
  shows "\<exists>upper' tr st'. respond_ids lib lower upper cb st = (Inr (upper', tr), st') \<and> upper' \<le> length xs \<and>
    same_engine (rs_engine st) (rs_engine st') \<and> length (rs_output st') \<le> limit - 70 \<and> rs_query st' = rs_query st \<and>
    rs_prev_bound st' = rs_prev_bound st"
proof -
  obtain skipped ng where sk: "emit_skip st = (skipped, st\<lparr>rs_skip := False, rs_engine := ng\<rparr>)" "same_engine (rs_engine st) ng" "length skipped \<le> 44"
    using emit_skip_safe[of st] st by (auto simp: safe_def)
  have eng: "ng_storage ng = xs" "ng_frame_size_limit ng = limit" using sk(2) st by (simp_all add: same_engine_def safe_def)
  let ?vs = "zip (portion xs lower upper) [lower..<upper]"
  have it: "storage_iterate lib xs lower upper = Inr ?vs" using laws(2) i unfolding storage_law_def by simp
  have ids: "\<forall>v\<in>set ?vs. length (it_id (fst v)) = ID_SIZE"
    using xs by (auto simp: items_ok_def portion_def dest!: set_zip_leftD in_set_takeD in_set_dropD)
  obtain resp c stopped where col: "collect_response ng (length (rs_output st)) ?vs [] 0 = (resp, c, stopped)"
    using prod_cases3 by blast
  obtain taken rest where vs: "?vs = taken @ rest" "stopped = (case rest of [] \<Rightarrow> None | v # _ \<Rightarrow> Some v)"
    using collect_response_eq[of ?vs ng "length (rs_output st)" "[]" 0] col by auto
  have len: "length (rs_output st) + length resp \<le> limit - 200 + ID_SIZE"
  proof -
    have "length (rs_output st) \<le> limit - 200" using st by (simp add: safe_def)
    then show ?thesis using collect_response_bound[OF ids col] limit eng by simp
  qed
  let ?b = "case stopped of None \<Rightarrow> cb | Some (x, _) \<Rightarrow> bound_from_item lib x"
  let ?u = "case stopped of None \<Rightarrow> upper | Some (_, j) \<Rightarrow> j"
  have bu: "short_bound ?b \<and> ?u \<le> length xs"
  proof (cases rest)
    case (Cons v rest')
    obtain x j where v: "v = (x, j)" by force
    have "(x, j) \<in> set ?vs" using vs(1) by (simp add: Cons v)
    then have "length (it_id x) = ID_SIZE" "j < upper" using ids by (auto dest: set_zip_rightD)
    then show ?thesis using laws(1) vs(2) i by (simp add: Cons v bound_law_def short_bound_def)
  qed (use vs(2) cb i in simp)
  let ?out = "skipped @ bound_bytes (ng_last_timestamp_out ng) ?b @ encode_mode IdList @ encode_var_int (of_nat c) @ resp"
  have "respond_ids lib lower upper cb st = (Inr (?u, stopped \<noteq> None),
      st\<lparr>rs_skip := False, rs_engine := ng\<lparr>ng_last_timestamp_out := bts ?b\<rparr>, rs_output := rs_output st @ ?out\<rparr>)"
    using sk(1) it eng col st by (simp add: respond_ids_def Let_def encode_bound_eq safe_def)
  moreover have "length (rs_output st @ ?out) \<le> limit - 70"
  proof -
    have "length (bound_bytes (ng_last_timestamp_out ng) ?b) \<le> 43" using bu bound_bytes_length by blast
    moreover have "length (encode_var_int (of_nat c)) \<le> 10" using encode_var_int_length by blast
    ultimately show ?thesis using len sk(3) limit unfolding length_append encode_mode_length by linarith
  qed
  moreover have "same_engine (rs_engine st) (ng\<lparr>ng_last_timestamp_out := bts ?b\<rparr>)"
    using sk(2) by (simp add: same_engine_def)
  ultimately show ?thesis using bu by simp
qed

text \<open>What a pass over a range that the check accepted guarantees.\<close>

definition pass_safe :: "item list \<Rightarrow> nat \<Rightarrow> key \<Rightarrow> bytes \<Rightarrow> range_state \<Rightarrow> (neg_error + bool) \<times> range_state \<Rightarrow> bool" where
  "pass_safe xs limit k rest st r \<longleftrightarrow>
     (\<exists>stop st'. r = (Inr stop, st') \<and> length (rs_output st') \<le> limit \<and> ng_storage (rs_engine st') = xs \<and>
       ng_is_initiator (rs_engine st') = ng_is_initiator (rs_engine st) \<and> ng_frame_size_limit (rs_engine st') = limit \<and>
       (\<not> stop \<longrightarrow> safe xs limit st' \<and> rs_query st' = rest \<and> ng_last_timestamp_in (rs_engine st') = fst k))"

lemma reconcile_range_safe:
  assumes laws: "bound_law lib" "storage_law lib" and xs: "items_ok xs" and limit: "4096 \<le> limit"
    and st: "safe xs limit st" and v: "val_range (ng_last_timestamp_in (rs_engine st)) previous (rs_query st) = Inr (k, rest)"
  shows "pass_safe xs limit k rest st (reconcile_range lib st)"
proof -
  obtain rest1 where vb: "val_bound (ng_last_timestamp_in (rs_engine st)) (rs_query st) = Inr (k, rest1)"
    and vp: "val_payload rest1 = Inr rest"
    using v by (auto simp: val_range_def map_sum_Inr split: sum.splits if_splits)
  let ?ng = "(rs_engine st)\<lparr>ng_last_timestamp_in := fst k\<rparr>"
  obtain cb where d: "decode_bound lib (rs_query st) (rs_engine st) = (Inr (cb, rest1), ?ng)" and cb: "short_bound cb"
    using decode_bound_val[OF laws(1) vb] by blast
  obtain m rest2 where m: "decode_var_int rest1 = Inr (m, rest2)"
    using vp by (auto simp: val_payload_def val_varint_iff split: sum.splits)
  have mv: "val_varint rest1 = Inr (m, rest2)" using m by (simp add: val_varint_iff)
  let ?l = "rs_prev_index st"
  define u where "u = storage_lower_bound lib xs ?l (length xs) cb"
  have stor: "ng_storage (rs_engine st) = xs" "ng_frame_size_limit (rs_engine st) = limit" "?l \<le> length xs"
    "short_bound (rs_prev_bound st)" "length (rs_output st) \<le> limit - 200" using st by (simp_all add: safe_def)
  have u: "?l \<le> u" "u \<le> length xs"
  proof -
    have "u = ?l + length (takeWhile (\<lambda>x. key x < bkey cb) (drop ?l xs))" using laws(2) xs stor(3) by (simp add: u_def storage_law_def)
    moreover have "length (takeWhile (\<lambda>x. key x < bkey cb) (drop ?l xs)) \<le> length (drop ?l xs)" by (rule length_takeWhile_le)
    ultimately show "?l \<le> u" "u \<le> length xs" using stor(3) by simp_all
  qed
  let ?st1 = "st\<lparr>rs_engine := ?ng, rs_query := rest2\<rparr>"
  note fin = finish_safe[OF laws limit _ _ _ cb]
  have fin0: "pass_safe xs limit k rest st (finish_range lib ?l u False cb t part st2)"
    if "ng_storage (rs_engine st2) = xs" "ng_frame_size_limit (rs_engine st2) = limit" "short_bound (rs_prev_bound st2)"
      "length (rs_output st2) \<le> limit - 200" "ng_is_initiator (rs_engine st2) = ng_is_initiator (rs_engine st)"
      "ng_last_timestamp_in (rs_engine st2) = fst k" "rs_query st2 = rest" for t part st2
  proof -
    have "length (rs_output st2) \<le> (if part = [] then limit - 70 else limit - 200)" using that(4) limit by (cases "part = []") simp_all
    from fin[OF that(1-3) stor(3) u(2) this, of False t] that(1,2,5-7) show ?thesis
      by (auto simp: pass_safe_def same_engine_def)
  qed
  consider "m = 0" | "m = 1" | "m = 2" using vp mv by (auto simp: val_payload_def split: if_splits)
  then show ?thesis
  proof cases
    case 1
    then have "rest2 = rest" using vp mv by (simp add: val_payload_def)
    moreover have "reconcile_range lib st = finish_range lib ?l u False cb (ng_last_timestamp_out (rs_engine st)) [] (?st1\<lparr>rs_skip := True\<rparr>)"
      using d m 1 stor by (simp add: reconcile_range_def decode_mode_def mode_try_from_def u_def Let_def)
    ultimately show ?thesis using fin0[of "?st1\<lparr>rs_skip := True\<rparr>" _ "[]"] stor by simp
  next
    case 2
    obtain f where f: "rest2 = f @ rest" "length f = FINGERPRINT_SIZE"
      using vp mv 2 by (auto simp: val_payload_def map_sum_Inr val_take_Inr)
    obtain ours where ours: "storage_fingerprint lib xs ?l u = Inr ours" using fingerprint_valid[OF laws(2) u] by blast
    let ?st2 = "?st1\<lparr>rs_query := rest\<rparr>"
    have rr: "reconcile_range lib st = (case range_fingerprint lib ?l u cb ?st1 of (Inl err, st2) \<Rightarrow> (Inl err, st2)
        | (Inr out, st2) \<Rightarrow> finish_range lib ?l u False cb (ng_last_timestamp_out (rs_engine st)) out st2)"
      using d m 2 stor by (simp add: reconcile_range_def decode_mode_def mode_try_from_def u_def Let_def split: prod.split sum.split)
    show ?thesis
    proof (cases "f = ours")
      case True
      then have "range_fingerprint lib ?l u cb ?st1 = (Inr [], ?st2\<lparr>rs_skip := True\<rparr>)"
        using f ours stor by (simp add: range_fingerprint_def)
      then show ?thesis using fin0[of "?st2\<lparr>rs_skip := True\<rparr>" _ "[]"] stor unfolding rr by simp
    next
      case False
      obtain skipped ng where sk: "emit_skip ?st2 = (skipped, ?st2\<lparr>rs_skip := False, rs_engine := ng\<rparr>)" "same_engine ?ng ng"
        using emit_skip_safe[of ?st2] stor by auto
      have s: "ng_storage ng = xs" "ng_frame_size_limit ng = limit" "ng_is_initiator ng = ng_is_initiator (rs_engine st)" "ng_last_timestamp_in ng = fst k"
        using sk(2) stor by (simp_all add: same_engine_def)
      from split_range_total[OF laws xs cb u s(1)] obtain out t where
        sp: "split_range lib ?l u cb ng = (Inr out, ng\<lparr>ng_last_timestamp_out := t\<rparr>)" by blast
      have "range_fingerprint lib ?l u cb ?st1 = (Inr (skipped @ out), ?st2\<lparr>rs_skip := False, rs_engine := ng\<lparr>ng_last_timestamp_out := t\<rparr>\<rparr>)"
        using f ours stor False sk(1) sp by (simp add: range_fingerprint_def)
      then show ?thesis using fin0[of "?st2\<lparr>rs_skip := False, rs_engine := ng\<lparr>ng_last_timestamp_out := t\<rparr>\<rparr>"] stor s unfolding rr by simp
    qed
  next
    case 3
    obtain num rest3 where num: "decode_var_int rest2 = Inr (num, rest3)"
      using vp mv 3 by (auto simp: val_payload_def val_varint_iff split: sum.splits)
    obtain ids where ids: "rest3 = ids @ rest" "length ids = unat num * ID_SIZE"
      using vp mv 3 val_varint_iff[THEN iffD2, OF num] by (auto simp: val_payload_def map_sum_Inr val_take_Inr split: if_splits)
    obtain elems where el: "read_ids (unat num) rest3 [] = Inr (elems, rest)" using read_ids_total[OF ids(2), of rest "[]"] ids(1) by blast
    have it: "storage_iterate lib xs ?l u = Inr (zip (portion xs ?l u) [?l..<u])" using laws(2) u unfolding storage_law_def by simp
    obtain h n where fo: "fold (compare_item (ng_is_initiator (rs_engine st))) (zip (portion xs ?l u) [?l..<u]) (rs_have st, elems) = (h, n)" by force
    have rr: "reconcile_range lib st = (case range_id_list lib ?l u cb ?st1 of (Inl err, st2) \<Rightarrow> (Inl err, st2)
        | (Inr (upper', tr), st2) \<Rightarrow> finish_range lib ?l upper' tr cb (ng_last_timestamp_out (rs_engine st)) [] st2)"
      using d m 3 stor by (simp add: reconcile_range_def decode_mode_def mode_try_from_def u_def Let_def split: prod.split sum.split)
    have enough: "\<not> unat num > length rest3 div ID_SIZE" using ids by simp
    let ?st2 = "?st1\<lparr>rs_query := rest, rs_have := h\<rparr>"
    show ?thesis
    proof (cases "ng_is_initiator (rs_engine st)")
      case True
      then have "range_id_list lib ?l u cb ?st1 = (Inr (u, False), ?st2\<lparr>rs_skip := True, rs_need := rs_need st @ n\<rparr>)"
        using num enough el it fo stor by (simp add: range_id_list_def)
      then show ?thesis using fin0[of "?st2\<lparr>rs_skip := True, rs_need := rs_need st @ n\<rparr>" _ "[]"] stor unfolding rr by simp
    next
      case False
      then have rl: "range_id_list lib ?l u cb ?st1 = respond_ids lib ?l u cb ?st2"
        using num enough el it fo stor by (simp add: range_id_list_def)
      have "safe xs limit ?st2" using stor by (simp add: safe_def)
      from respond_ids_safe[OF laws xs limit this cb u] obtain upper' tr st3 where
        r: "respond_ids lib ?l u cb ?st2 = (Inr (upper', tr), st3)" "upper' \<le> length xs" "same_engine ?ng (rs_engine st3)"
          "length (rs_output st3) \<le> limit - 70" "rs_query st3 = rest" "rs_prev_bound st3 = rs_prev_bound st" by auto
      have s: "ng_storage (rs_engine st3) = xs" "ng_frame_size_limit (rs_engine st3) = limit" "short_bound (rs_prev_bound st3)"
        using r(3,6) stor by (simp_all add: same_engine_def)
      from fin[OF s stor(3) r(2), of "[]" tr "ng_last_timestamp_out (rs_engine st)"] r(3-5) s show ?thesis
        unfolding rr rl r(1) by (auto simp: pass_safe_def same_engine_def)
    qed
  qed
qed

section \<open>A whole frame\<close>

lemma reconcile_ranges_safe:
  assumes laws: "bound_law lib" "storage_law lib" and xs: "items_ok xs" and limit: "4096 \<le> limit"
  shows "safe xs limit st \<Longrightarrow> val_ranges previous (rs_query st) = Inr () \<Longrightarrow> fst previous = ng_last_timestamp_in (rs_engine st) \<Longrightarrow>
    \<exists>st'. reconcile_ranges lib st = (Inr (), st') \<and> length (rs_output st') \<le> limit \<and> ng_storage (rs_engine st') = xs \<and>
      ng_is_initiator (rs_engine st') = ng_is_initiator (rs_engine st) \<and> ng_frame_size_limit (rs_engine st') = limit"
proof (induction "length (rs_query st)" arbitrary: st previous rule: less_induct)
  case less
  show ?case
  proof (cases "rs_query st = []")
    case True
    then show ?thesis using less.prems limit by (auto simp: reconcile_ranges.simps safe_def)
  next
    case False
    obtain k rest where v: "val_range (ng_last_timestamp_in (rs_engine st)) previous (rs_query st) = Inr (k, rest)" "val_ranges k rest = Inr ()"
      using less.prems(2,3) False by (subst (asm) val_ranges.simps) (auto split: sum.splits)
    from reconcile_range_safe[OF laws xs limit less.prems(1) v(1)] obtain stop st1 where
      r: "reconcile_range lib st = (Inr stop, st1)" "length (rs_output st1) \<le> limit" "ng_storage (rs_engine st1) = xs"
        "ng_is_initiator (rs_engine st1) = ng_is_initiator (rs_engine st)" "ng_frame_size_limit (rs_engine st1) = limit"
        "\<not> stop \<longrightarrow> safe xs limit st1 \<and> rs_query st1 = rest \<and> ng_last_timestamp_in (rs_engine st1) = fst k"
      unfolding pass_safe_def by blast
    show ?thesis
    proof (cases stop)
      case True
      then show ?thesis using r False by (subst reconcile_ranges.simps) auto
    next
      case go: False
      then have q: "rs_query st1 = rest" using r(6) by simp
      have "length (rs_query st1) < length (rs_query st)" using val_range_length[OF v(1)] q by simp
      from less.hyps[OF this, of k] go r(6) v(2) obtain st' where
        "reconcile_ranges lib st1 = (Inr (), st')" "length (rs_output st') \<le> limit" "ng_storage (rs_engine st') = xs"
        "ng_is_initiator (rs_engine st') = ng_is_initiator (rs_engine st)" "ng_frame_size_limit (rs_engine st') = limit"
        unfolding r(4) by auto
      moreover have "reconcile_ranges lib st = reconcile_ranges lib st1" using False go r(1) by (subst reconcile_ranges.simps) simp
      ultimately show ?thesis by simp
    qed
  qed
qed

text \<open>Storages and limits of an engine that a session has made.\<close>

definition engine_ok :: "negentropy \<Rightarrow> bool" where
  "engine_ok ng \<longleftrightarrow> items_ok (ng_storage ng) \<and> 4096 \<le> ng_frame_size_limit ng"

lemma reconcile_aux_safe:
  assumes laws: "bound_law lib" "storage_law lib" and ng: "engine_ok ng" and v: "validate q = Inr ()"
  shows "\<exists>out h n ng'. reconcile_aux lib q ng = (Inr (out, h, n), ng') \<and> length out \<le> ng_frame_size_limit ng \<and>
    ng_storage ng' = ng_storage ng \<and> ng_is_initiator ng' = ng_is_initiator ng \<and> ng_frame_size_limit ng' = ng_frame_size_limit ng"
proof -
  have xs: "items_ok (ng_storage ng)" and limit: "4096 \<le> ng_frame_size_limit ng" using ng by (simp_all add: engine_ok_def)
  obtain rest where q: "q = PROTOCOL_VERSION # rest" "val_ranges (0, zeros 32) rest = Inr ()"
    using v by (cases q) (auto simp: validate_def val_take_def split: if_splits)
  let ?ng = "ng\<lparr>ng_last_timestamp_in := 0, ng_last_timestamp_out := 0\<rparr>"
  let ?st = "\<lparr>rs_engine = ?ng, rs_query = rest, rs_output = [PROTOCOL_VERSION], rs_prev_bound = bound_new lib,
    rs_prev_index = 0, rs_skip = False, rs_have = [], rs_need = []\<rparr>"
  have "safe (ng_storage ng) (ng_frame_size_limit ng) ?st"
    using bound_ok_short[OF bound_bottom(2)[OF laws(1)]] limit by (simp add: safe_def)
  from reconcile_ranges_safe[OF laws xs limit this, of "(0, zeros 32)"] q(2) obtain st' where
    "reconcile_ranges lib ?st = (Inr (), st')" "length (rs_output st') \<le> ng_frame_size_limit ng"
    "ng_storage (rs_engine st') = ng_storage ng" "ng_is_initiator (rs_engine st') = ng_is_initiator ng"
    "ng_frame_size_limit (rs_engine st') = ng_frame_size_limit ng" by auto
  then show ?thesis
    by (intro exI[of _ "rs_output st'"] exI[of _ "rs_have st'"] exI[of _ "rs_need st'"] exI[of _ "rs_engine st'"])
      (simp add: q(1) reconcile_aux_def)
qed

lemma initiate_length:
  assumes laws: "bound_law lib" "storage_law lib" and ng: "engine_ok ng" and i: "ng_initiate lib ng = (Inr out, ng')"
  shows "length out \<le> ng_frame_size_limit ng"
proof -
  have xs: "items_ok (ng_storage ng)" and limit: "4096 \<le> ng_frame_size_limit ng" using ng by (simp_all add: engine_ok_def)
  let ?b = "bound_with_timestamp lib MAX_U64" and ?ng = "ng\<lparr>ng_is_initiator := True\<rparr>"
  obtain part t where "split_range lib 0 (length (ng_storage ng)) ?b ?ng = (Inr part, ?ng\<lparr>ng_last_timestamp_out := t\<rparr>)" "length part \<le> 1037"
    using split_range_total[OF laws xs bound_ok_short[OF bound_max(2)[OF laws(1)]], of 0 "length (ng_storage ng)" ?ng] by auto
  then show ?thesis using i limit by (auto simp: ng_initiate_def split: if_splits)
qed

end
