(* ===== verification/Reconcile_Exchange.thy ===== *)
theory Reconcile_Exchange
  imports Reconcile_Robust
begin

text \<open>
  Sessions: what \<open>Session::new\<close> stores, that a session survives whatever its peer sends, and the conversation of two sessions,
  which ends with exactly the differences of the two windows or with the error for too many rounds.
\<close>

section \<open>The snapshot of a session\<close>

definition item_of :: "rec_record \<Rightarrow> item" where
  "item_of r = \<lparr>it_timestamp = rec_timestamp r, it_id = rec_id r\<rparr>"

definition window :: "rec_filter \<Rightarrow> rec_record list \<Rightarrow> item set" where
  "window f records = item_of ` {r \<in> set records. rf_contains f (rec_timestamp r)}"

definition records_ok :: "rec_record list \<Rightarrow> bool" where
  "records_ok records \<longleftrightarrow> (\<forall>r\<in>set records. length (rec_id r) = ID_SIZE)"

lemma set_bmap_insert_same:
  assumes "bmap_wf m" and "map_of m k = None \<or> map_of m k = Some v"
  shows "set (bmap_insert k v m) = insert (k, v) (set m)"
proof -
  have "(a, b) \<in> set (bmap_insert k v m) \<longleftrightarrow> (a, b) \<in> insert (k, v) (set m)" for a b
  proof -
    have "(a, b) \<in> set (bmap_insert k v m) \<longleftrightarrow> ((map_of m)(k \<mapsto> v)) a = Some b"
      using hm_get_iff[of "bmap_insert k v m" a b] bmap_wf_insert[OF assms(1), of k v] map_of_bmap_insert[OF assms(1), of k v] by simp
    moreover have "(a, b) \<in> set m \<longleftrightarrow> map_of m a = Some b" using hm_get_iff[of m a b] assms(1) by simp
    ultimately show ?thesis using assms(2) by (cases "a = k") auto
  qed
  then show ?thesis by auto
qed

lemma collect_records_ok:
  "collect_records f n records m = Inr u \<Longrightarrow> bmap_wf m \<Longrightarrow> length m \<le> n \<Longrightarrow>
   bmap_wf u \<and> length u \<le> n \<and>
   set u = set m \<union> {(rec_id r, rec_timestamp r) | r. r \<in> set records \<and> rf_contains f (rec_timestamp r)}"
proof (induction f n records m rule: collect_records.induct)
  case (2 f n r records m)
  show ?case
  proof (cases "rf_contains f (rec_timestamp r)")
    case True
    let ?m = "bmap_insert (rec_id r) (rec_timestamp r) m"
    have p: "hm_get m (rec_id r) = None \<or> hm_get m (rec_id r) = Some (rec_timestamp r)" and l: "length ?m \<le> n"
      and u: "collect_records f n records ?m = Inr u"
      using 2(3) True by (auto simp: Let_def split: if_splits)
    have "bmap_wf u \<and> length u \<le> n \<and>
        set u = set ?m \<union> {(rec_id r, rec_timestamp r) | r. r \<in> set records \<and> rf_contains f (rec_timestamp r)}"
      using 2(2)[OF _ refl refl _ _ u bmap_wf_insert[OF 2(4)] l] True p l by simp
    then show ?thesis using True set_bmap_insert_same[OF 2(4) p] by auto
  next
    case False
    then show ?thesis using 2(1)[OF _ _ 2(4,5)] 2(3) by auto
  qed
qed simp

lemma session_new_ok:
  assumes laws: "neg_laws lib" and r: "records_ok records" and s: "session_new lib records f lim = Inr s"
  shows "items_ok (ng_storage (ss_engine s))" and "set (ng_storage (ss_engine s)) = window f records"
    and "length (ng_storage (ss_engine s)) \<le> 1000000" and "ng_frame_size_limit (ss_engine s) = lm_max_frame_bytes lim"
    and "4096 \<le> lm_max_frame_bytes lim" and "ss_limits s = lim" and "ss_rounds s = 0" and "\<not> ss_finished s"
    and "\<not> ng_is_initiator (ss_engine s)" and "ng_last_timestamp_out (ss_engine s) = 0"
proof -
  have lim: "rf_until f \<noteq> - 1" "lm_max_records lim \<le> 1000000" "4096 \<le> lm_max_frame_bytes lim"
    using s by (auto simp: session_new_def split: if_splits)
  obtain u where u: "collect_records f (lm_max_records lim) records [] = Inr u"
    using s by (auto simp: session_new_def split: if_splits sum.splits)
  note col = collect_records_ok[OF u]
  let ?items = "map (\<lambda>(i, t). \<lparr>it_timestamp = t, it_id = i\<rparr>) u"
  have ids: "map it_id ?items = map fst u" by (simp add: case_prod_beta comp_def)
  have dids: "distinct (map it_id ?items)" unfolding ids using col by simp
  then obtain ys where ys: "storage_seal lib ?items = Inr ys" "sorted_wrt (<) (map key ys)" "set ys = set ?items"
    using laws unfolding neg_laws_def seal_law_def by blast
  have s': "s = \<lparr>ss_engine = \<lparr>ng_storage = ys, ng_frame_size_limit = lm_max_frame_bytes lim, ng_is_initiator = False,
      ng_last_timestamp_in = 0, ng_last_timestamp_out = 0\<rparr>, ss_limits = lim, ss_rounds = 0, ss_finished = False\<rparr>"
    using s u ys(1) lim(3) by (auto simp: session_new_def ng_new_def split: if_splits)
  have su: "set u = {(rec_id r, rec_timestamp r) | r. r \<in> set records \<and> rf_contains f (rec_timestamp r)}" using col by simp
  show set: "set (ng_storage (ss_engine s)) = window f records"
  proof -
    have "set ys = (\<lambda>(i, t). \<lparr>it_timestamp = t, it_id = i\<rparr>) ` set u" using ys(3) by simp
    also have "\<dots> = window f records" unfolding su window_def setcompr_eq_image image_image by (simp add: item_of_def)
    finally show ?thesis by (simp add: s')
  qed
  have "distinct (map key ys)" using ys(2) by (simp add: strict_sorted_iff)
  then have dist: "distinct ys" by (simp add: distinct_map)
  have inj: "inj_on it_id (set ys)"
    using dids unfolding ys(3) distinct_map[of it_id ?items] by blast
  have "it_timestamp x \<noteq> MAX_U64 \<and> length (it_id x) = ID_SIZE" if "x \<in> set ys" for x
  proof -
    have "x \<in> window f records" using that set by (simp add: s')
    then obtain r where r': "x = item_of r" "r \<in> set records" "rf_contains f (rec_timestamp r)"
      by (auto simp: window_def)
    have "rec_timestamp r \<noteq> MAX_U64"
      using r'(3) less_max[of "rf_until f"] lim(1) by (auto simp: rf_contains_def MAX_U64_def dest: le_less_trans)
    then show ?thesis using r' r by (simp add: item_of_def records_ok_def)
  qed
  then show "items_ok (ng_storage (ss_engine s))"
    using ys(2) dist inj by (simp add: s' items_ok_def distinct_map)
  have "length ys = card (set ys)" using dist by (simp add: distinct_card)
  also have "\<dots> \<le> length ?items" unfolding ys(3) by (rule card_length)
  finally show "length (ng_storage (ss_engine s)) \<le> 1000000" using col lim(2) by (simp add: s')
  show "ng_frame_size_limit (ss_engine s) = lm_max_frame_bytes lim" "4096 \<le> lm_max_frame_bytes lim" "ss_limits s = lim"
    "ss_rounds s = 0" "\<not> ss_finished s" "\<not> ng_is_initiator (ss_engine s)" "ng_last_timestamp_out (ss_engine s) = 0"
    using lim(3) by (simp_all add: s')
qed

section \<open>Any peer\<close>

definition plain_error :: "session_error + 'a \<Rightarrow> bool" where
  "plain_error r \<longleftrightarrow> (\<forall>err. r = Inl (EngineError err) \<longrightarrow> False)"

lemma plain_error_simps [simp]: "plain_error (Inr x)" "plain_error (Inl (SessionError m))" "\<not> plain_error (Inl (EngineError e))"
  "plain_error (map_sum (\<lambda>err. err) g r) = plain_error r"
  by (auto simp: plain_error_def map_sum_def split: sum.split)

lemma plain_take: "plain_error (val_take n bs)"
  by (simp add: val_take_def)

lemma plain_varint: "plain_error (val_varint bs)"
proof -
  have "plain_error (val_digits k v bs)" for k v
  proof (induction k arbitrary: v bs)
    case (Suc k)
    then show ?case by (cases bs) (auto simp: val_take_def split: option.split)
  qed simp
  then show ?thesis by (simp add: val_varint_def)
qed

lemma plain_InlD: "plain_error r \<Longrightarrow> r = Inl err \<Longrightarrow> plain_error (Inl err :: session_error + 'b)"
  by (auto simp: plain_error_def)

lemma plain_bound: "plain_error (val_bound t bs)"
  using plain_varint by (auto simp: val_bound_def val_timestamp_def plain_take split: sum.split option.split if_split dest: plain_InlD)

lemma plain_payload: "plain_error (val_payload bs)"
  using plain_varint by (auto simp: val_payload_def plain_take split: sum.split if_split dest: plain_InlD)

lemma plain_range: "plain_error (val_range t previous bs)"
  using plain_bound by (auto simp: val_range_def plain_payload split: sum.split if_split dest: plain_InlD)

lemma plain_ranges: "plain_error (val_ranges previous bs)"
proof (induction previous bs rule: val_ranges.induct)
  case (1 previous bs)
  then show ?case using plain_range[of "fst previous" previous bs]
    by (subst val_ranges.simps) (auto split: sum.split dest: plain_InlD)
qed

lemma validate_error: "validate q = Inl err \<Longrightarrow> \<exists>m. err = SessionError m"
proof -
  assume v: "validate q = Inl err"
  have "plain_error (validate q)"
    using plain_take[of 1 q] by (auto simp: validate_def plain_ranges split: sum.split dest: plain_InlD)
  then show ?thesis using v by (cases err) auto
qed

text \<open>The calls of a session and what they answer. A frame is what a call hands out for the peer.\<close>

datatype session_call = CallInitiate | CallRespond bytes | CallReconcile bytes

fun do_call :: "neg_lib \<Rightarrow> session_call \<Rightarrow> session \<Rightarrow> (session_error + bytes option) \<times> session" where
  "do_call lib CallInitiate s = (case initiate lib s of (r, s') \<Rightarrow> (map_sum (\<lambda>err. err) Some r, s'))"
| "do_call lib (CallRespond q) s = (case respond lib q s of (r, s') \<Rightarrow> (map_sum (\<lambda>err. err) Some r, s'))"
| "do_call lib (CallReconcile q) s = (case reconcile lib q s of (r, s') \<Rightarrow> (map_sum (\<lambda>err. err) st_next r, s'))"

fun session_calls :: "neg_lib \<Rightarrow> session_call list \<Rightarrow> session \<Rightarrow> (session_error + bytes option) list \<times> session" where
  "session_calls lib [] s = ([], s)"
| "session_calls lib (c # cs) s =
     (case do_call lib c s of (r, s1) \<Rightarrow> case session_calls lib cs s1 of (rs, s2) \<Rightarrow> (r # rs, s2))"

definition session_ok :: "session \<Rightarrow> bool" where
  "session_ok s \<longleftrightarrow> engine_ok (ss_engine s) \<and> ng_frame_size_limit (ss_engine s) = lm_max_frame_bytes (ss_limits s) \<and>
     ss_rounds s \<le> lm_max_rounds (ss_limits s)"

text \<open>What a call may answer: a frame within the limit, an error of the session, or the engine's refusal of the wrong role.\<close>

definition answer_ok :: "limits \<Rightarrow> session_error + bytes option \<Rightarrow> bool" where
  "answer_ok lim r \<longleftrightarrow>
     (case r of
        Inl (SessionError _) \<Rightarrow> True
      | Inl (EngineError err) \<Rightarrow> err \<in> {AlreadyBuiltInitialMessage, InitiatorError, NonInitiatorError}
      | Inr q \<Rightarrow> (case q of None \<Rightarrow> True | Some bs \<Rightarrow> length bs \<le> lm_max_frame_bytes lim))"

abbreviation successes :: "(session_error + 'a) list \<Rightarrow> nat" where
  "successes rs \<equiv> length (filter (\<lambda>r. \<not> isl r) rs)"

lemma tick_cases:
  obtains "tick s = (Inl (SessionError ''reconciliation session finished or round limit exceeded''), s)"
  | "tick s = (Inr (), s\<lparr>ss_rounds := ss_rounds s + 1\<rparr>)" "ss_rounds s < lm_max_rounds (ss_limits s)"
  by (cases "ss_finished s \<or> ss_rounds s \<ge> lm_max_rounds (ss_limits s)") (auto simp: tick_def)

lemma accept_Inr:
  assumes "accept q s = (Inr u, s')"
  shows "s' = s\<lparr>ss_rounds := ss_rounds s + 1\<rparr>" "ss_rounds s < lm_max_rounds (ss_limits s)" "validate q = Inr ()"
    "length q \<le> lm_max_frame_bytes (ss_limits s)"
  using assms by (cases s rule: tick_cases; auto simp: accept_def split: if_splits)+

lemma accept_Inl:
  assumes "accept q s = (Inl err, s')"
  shows "\<exists>m. err = SessionError m" and "s' = s \<or> s' = s\<lparr>ss_rounds := ss_rounds s + 1\<rparr> \<and> ss_rounds s < lm_max_rounds (ss_limits s)"
proof -
  have v: "\<exists>m. err = SessionError m" if "validate q = Inl err" for err
    using that validate_error by blast
  show "\<exists>m. err = SessionError m" "s' = s \<or> s' = s\<lparr>ss_rounds := ss_rounds s + 1\<rparr> \<and> ss_rounds s < lm_max_rounds (ss_limits s)"
    using assms v by (cases s rule: tick_cases; auto simp: accept_def split: if_splits)+
qed

definition call_ok :: "session \<Rightarrow> session_error + bytes option \<Rightarrow> session \<Rightarrow> bool" where
  "call_ok s r s' \<longleftrightarrow> session_ok s' \<and> answer_ok (ss_limits s) r \<and> ss_limits s' = ss_limits s \<and>
     ng_storage (ss_engine s') = ng_storage (ss_engine s) \<and> ss_rounds s + (if isl r then 0 else 1) \<le> ss_rounds s'"

lemma initiate_ok:
  assumes laws: "bound_law lib" "storage_law lib" and s: "session_ok s" and c: "initiate lib s = (r, s')"
  shows "call_ok s (map_sum (\<lambda>err. err) Some r) s'"
proof (cases s rule: tick_cases)
  case 1
  then show ?thesis using c s by (auto simp: initiate_def call_ok_def answer_ok_def)
next
  case 2
  let ?ng = "ss_engine s"
  have ng: "engine_ok ?ng" using s by (simp add: session_ok_def)
  obtain e ng' where i: "ng_initiate lib ?ng = (e, ng')" by force
  have e: "ng_storage ng' = ng_storage ?ng \<and> ng_frame_size_limit ng' = ng_frame_size_limit ?ng \<and>
      (e = Inl AlreadyBuiltInitialMessage \<or> (\<exists>out. e = Inr out))"
  proof (cases "ng_is_initiator ?ng")
    case False
    have xs: "items_ok (ng_storage ?ng)" using ng by (simp add: engine_ok_def)
    show ?thesis
      using split_range_total[OF laws xs bound_ok_short[OF bound_max(2)[OF laws(1)]], of 0 "length (ng_storage ?ng)" "?ng\<lparr>ng_is_initiator := True\<rparr>"] i False
      by (auto simp: ng_initiate_def)
  qed (use i in \<open>auto simp: ng_initiate_def\<close>)
  have "length out \<le> lm_max_frame_bytes (ss_limits s)" if "e = Inr out" for out
    using initiate_length[OF laws ng i[unfolded that]] s by (simp add: session_ok_def)
  then show ?thesis using c 2 i e s ng by (auto simp: initiate_def call_ok_def answer_ok_def session_ok_def engine_ok_def)
qed

lemma respond_ok:
  assumes laws: "bound_law lib" "storage_law lib" and s: "session_ok s" and c: "respond lib q s = (r, s')"
  shows "call_ok s (map_sum (\<lambda>err. err) Some r) s'"
proof (cases "accept q s")
  case (Pair a s1)
  show ?thesis
  proof (cases a)
    case (Inl err)
    then show ?thesis using accept_Inl[of q s err s1] c s Pair
      by (auto simp: respond_def call_ok_def answer_ok_def session_ok_def)
  next
    case (Inr u)
    note acc = accept_Inr[OF Pair[unfolded Inr]]
    have ng: "engine_ok (ss_engine s)" using s by (simp add: session_ok_def)
    obtain out h n ng' where r: "reconcile_aux lib q (ss_engine s) = (Inr (out, h, n), ng')" "length out \<le> ng_frame_size_limit (ss_engine s)"
      "ng_storage ng' = ng_storage (ss_engine s)" "ng_frame_size_limit ng' = ng_frame_size_limit (ss_engine s)"
      using reconcile_aux_safe[OF laws ng acc(3)] by blast
    show ?thesis
      using c Pair Inr acc(1,2) r s
      by (cases "ng_is_initiator (ss_engine s)")
        (auto simp: respond_def ng_reconcile_def call_ok_def answer_ok_def session_ok_def engine_ok_def)
  qed
qed

lemma reconcile_ok:
  assumes laws: "bound_law lib" "storage_law lib" and s: "session_ok s" and c: "reconcile lib q s = (r, s')"
  shows "call_ok s (map_sum (\<lambda>err. err) st_next r) s'"
proof (cases "accept q s")
  case (Pair a s1)
  show ?thesis
  proof (cases a)
    case (Inl err)
    then show ?thesis using accept_Inl[of q s err s1] c s Pair
      by (auto simp: reconcile_def call_ok_def answer_ok_def session_ok_def)
  next
    case (Inr u)
    note acc = accept_Inr[OF Pair[unfolded Inr]]
    have ng: "engine_ok (ss_engine s)" using s by (simp add: session_ok_def)
    obtain out h n ng' where r: "reconcile_aux lib q (ss_engine s) = (Inr (out, h, n), ng')" "length out \<le> ng_frame_size_limit (ss_engine s)"
      "ng_storage ng' = ng_storage (ss_engine s)" "ng_frame_size_limit ng' = ng_frame_size_limit (ss_engine s)"
      using reconcile_aux_safe[OF laws ng acc(3)] by blast
    show ?thesis
      using c Pair Inr acc(1,2) r s
      by (cases "ng_is_initiator (ss_engine s)")
        (auto simp: reconcile_def ng_reconcile_with_ids_def call_ok_def answer_ok_def session_ok_def engine_ok_def)
  qed
qed

lemma do_call_ok:
  assumes "bound_law lib" "storage_law lib" "session_ok s" "do_call lib c s = (r, s')"
  shows "call_ok s r s'"
  using assms initiate_ok[OF assms(1-3)] respond_ok[OF assms(1-3)] reconcile_ok[OF assms(1-3)]
  by (cases c) (auto split: prod.splits)

lemma session_calls_ok:
  assumes laws: "bound_law lib" "storage_law lib"
  shows "session_ok s \<Longrightarrow> session_calls lib cs s = (rs, s') \<Longrightarrow>
    session_ok s' \<and> (\<forall>r\<in>set rs. answer_ok (ss_limits s) r) \<and> ss_limits s' = ss_limits s \<and>
    ng_storage (ss_engine s') = ng_storage (ss_engine s) \<and> ss_rounds s + successes rs \<le> ss_rounds s'"
proof (induction cs arbitrary: s rs)
  case (Cons c cs)
  obtain r s1 where c: "do_call lib c s = (r, s1)" by force
  obtain rs1 where cs: "session_calls lib cs s1 = (rs1, s')" "rs = r # rs1" using Cons.prems(2) c by (auto split: prod.splits)
  note ok = do_call_ok[OF laws Cons.prems(1) c, unfolded call_ok_def]
  from Cons.IH[OF _ cs(1)] ok cs(2) show ?case by auto
qed simp

text \<open>
  C7: a session survives whatever its peer sends. After any sequence of calls, with any bytes as frames, every answer is a frame
  within the agreed size, an explicit error of the session, or the refusal of a call that does not fit its role: no call panics,
  and no frame that passed the check makes the engine fail. At most \<open>max_rounds\<close> calls succeed, and the snapshot
  that is compared stays the one the session was made with.
\<close>

theorem session_survives:
  assumes "neg_laws lib" and "records_ok records" and "session_new lib records f lim = Inr s" and "session_calls lib cs s = (rs, s')"
  shows "(\<forall>r\<in>set rs. answer_ok lim r) \<and> successes rs \<le> lm_max_rounds lim \<and> set (ng_storage (ss_engine s')) = window f records"
proof -
  note new = session_new_ok[OF assms(1-3)]
  have laws: "bound_law lib" "storage_law lib" using assms(1) by (simp_all add: neg_laws_def)
  have "session_ok s" using new by (simp add: session_ok_def engine_ok_def)
  from session_calls_ok[OF laws this assms(4)] show ?thesis using new by (auto simp: session_ok_def)
qed

section \<open>Two sessions\<close>

text \<open>
  The conversation of the README and of the tests: the initiator's frame goes to the responder, the response goes back, until the
  initiator has nothing left to ask.
\<close>

lemma respond_rounds:
  assumes "respond lib q s = (Inr out, s')"
  shows "ss_limits s' = ss_limits s \<and> ss_rounds s' = ss_rounds s + 1 \<and> ss_rounds s < lm_max_rounds (ss_limits s)"
proof (cases "accept q s")
  case (Pair a s1)
  show ?thesis
  proof (cases a)
    case (Inr u)
    then show ?thesis using accept_Inr[of q s u s1] assms Pair by (auto simp: respond_def split: prod.splits)
  qed (use assms Pair in \<open>simp add: respond_def\<close>)
qed

function exchange :: "neg_lib \<Rightarrow> bytes \<Rightarrow> session \<Rightarrow> session \<Rightarrow> bytes list \<Rightarrow> bytes list \<Rightarrow> session_error + bytes list \<times> bytes list" where
  "exchange lib query a b have_ids need_ids =
     (case respond lib query b of
        (Inl err, _) \<Rightarrow> Inl err
      | (Inr response, b') \<Rightarrow>
          (case reconcile lib response a of
             (Inl err, _) \<Rightarrow> Inl err
           | (Inr step, a') \<Rightarrow>
               (case st_next step of
                  None \<Rightarrow> Inr (have_ids @ st_have step, need_ids @ st_need step)
                | Some query' \<Rightarrow> exchange lib query' a' b' (have_ids @ st_have step) (need_ids @ st_need step))))"
  by pat_completeness auto
termination
  by (relation "measure (\<lambda>(lib, query, a, b, h, n). lm_max_rounds (ss_limits b) - ss_rounds b)") (auto dest!: respond_rounds[OF sym])

declare exchange.simps [simp del]

text \<open>A session that can take part in the conversation, with its role and its records.\<close>

definition party :: "bool \<Rightarrow> nat \<Rightarrow> item list \<Rightarrow> session \<Rightarrow> bool" where
  "party initiator limit xs s \<longleftrightarrow> engine_ok (ss_engine s) \<and> ng_storage (ss_engine s) = xs \<and> ng_is_initiator (ss_engine s) = initiator \<and>
     ng_frame_size_limit (ss_engine s) = limit \<and> lm_max_frame_bytes (ss_limits s) = limit \<and> \<not> ss_finished s \<and> length xs \<le> 1000000"

abbreviation rounds_left :: "session \<Rightarrow> nat" where
  "rounds_left s \<equiv> lm_max_rounds (ss_limits s) - ss_rounds s"

abbreviation round_limit :: session_error where
  "round_limit \<equiv> SessionError ''reconciliation session finished or round limit exceeded''"

definition all_settled :: "item list \<Rightarrow> item list \<Rightarrow> message \<Rightarrow> bytes list \<Rightarrow> bytes list \<Rightarrow> bool" where
  "all_settled xs ys ms h n \<longleftrightarrow>
     reports True xs ys h n \<and> (\<forall>k. bottom_key \<le> k \<and> k < top_key \<and> \<not> open_key bottom_key ms k \<longrightarrow> settled True xs ys h n k)"

lemma all_settledD:
  "all_settled xs ys ms h n \<Longrightarrow> bottom_key \<le> k \<Longrightarrow> k < top_key \<Longrightarrow> \<not> open_key bottom_key ms k \<Longrightarrow> settled True xs ys h n k"
  unfolding all_settled_def by blast

lemma first_open_open: "open_key lo ms k \<Longrightarrow> first_open lo ms \<noteq> None"
  by (induction lo ms rule: first_open.induct) auto

lemma items_length: "items_ok xs \<Longrightarrow> length xs = card (set xs)"
  by (simp add: items_ok_def distinct_card strict_sorted_iff distinct_map)

lemma frame_length_1: "length (frame ms) = 1 \<longleftrightarrow> ms = []"
  using encode_var_int_length by (cases ms) (auto simp: frame_def bound_bytes_def)

lemma accept_honest:
  assumes laws: "storage_law lib" and s: "party i limit ys s" and xs: "items_ok xs" "length xs \<le> 1000000"
    and q: "honest lib xs bottom_key ms" "length (frame ms) \<le> limit"
  shows "accept (frame ms) s = (Inl round_limit, s) \<and> rounds_left s = 0 \<or>
    accept (frame ms) s = (Inr (), s\<lparr>ss_rounds := ss_rounds s + 1\<rparr>) \<and> 0 < rounds_left s"
  using validate_honest[OF laws xs q(1)] q(2) s by (auto simp add: accept_def party_def tick_def)

text \<open>One answer of either role to an honest frame.\<close>

lemma answer_honest:
  assumes laws: "bound_law lib" "storage_law lib" and c: "comparable lib xs ys" and s: "party i limit xs s"
    and ys: "length ys \<le> 1000000" and q: "honest lib ys bottom_key ms"
  shows "\<exists>ng' new h n. reconcile_aux lib (frame ms) (ss_engine s) = (Inr (frame new, h, n), ng') \<and> reports i xs ys h n \<and>
    honest lib xs bottom_key new \<and> length (frame new) \<le> limit \<and>
    ng_storage ng' = xs \<and> ng_is_initiator ng' = i \<and> ng_frame_size_limit ng' = limit \<and>
    (\<forall>k. open_key bottom_key ms k \<and> \<not> open_key bottom_key new k \<longrightarrow> settled i xs ys h n k) \<and>
    (busy (all_keys xs ys) bottom_key ms \<longrightarrow> busy (all_keys xs ys) bottom_key new) \<and> follows i xs bottom_key ms new"
proof -
  have p: "ng_storage (ss_engine s) = xs" "ng_is_initiator (ss_engine s) = i" "ng_frame_size_limit (ss_engine s) = limit" "engine_ok (ss_engine s)"
    using s by (simp_all add: party_def)
  have "items_ok ys" using c by (simp add: comparable_def)
  from reconcile_aux_safe[OF laws p(4) validate_honest[OF laws(2) this ys q]] obtain out h n ng' where
    r: "reconcile_aux lib (frame ms) (ss_engine s) = (Inr (out, h, n), ng')" "length out \<le> limit" unfolding p by blast
  from reconcile_aux_honest[OF laws, of "ss_engine s" ys ms] c ys q r p show ?thesis by (auto simp: engine_ok_def)
qed

lemma settled_sym: "settled False ys xs h n k \<Longrightarrow> settled i xs ys h' n' k"
  by (auto simp: settled_def)

lemma settled_mono: "settled i xs ys h n k \<Longrightarrow> settled i xs ys (h @ h') (n @ n') k"
  by (auto simp: settled_def)

lemma exact_differences:
  assumes c: "comparable lib xs ys" and s: "all_settled xs ys [] h n"
  shows "set h = it_id ` (set xs - set ys)" and "set n = it_id ` (set ys - set xs)"
proof -
  have r: "set h \<subseteq> it_id ` (set xs - set ys)" "set n \<subseteq> it_id ` (set ys - set xs)" using s by (simp_all add: all_settled_def reports_def)
  have key_eq: "x = y" if "key x = key y" for x y :: item using that by (cases x, cases y) (simp add: key_def)
  have set: "settled True xs ys h n (key x)" if "items_ok zs" "x \<in> set zs" for x zs
  proof -
    have "bottom_key \<le> key x" using that zeros_le[of "it_id x" ID_SIZE] by (auto simp: items_ok_def key_def bottom_key_def less_eq_prod_def word_gt_0)
    moreover have "key x < top_key" using that item_below_top by (simp add: items_ok_def)
    ultimately show ?thesis using all_settledD[OF s] by simp
  qed
  have "it_id x \<in> set h" if x: "x \<in> set xs" "x \<notin> set ys" for x
  proof -
    have "key x \<notin> key ` set ys" using key_eq x(2) by auto
    then show ?thesis using set[of xs x] c x(1) by (auto simp: settled_def comparable_def key_def)
  qed
  then show "set h = it_id ` (set xs - set ys)" using r(1) by blast
  have "it_id y \<in> set n" if y: "y \<in> set ys" "y \<notin> set xs" for y
  proof -
    have "key y \<notin> key ` set xs" using key_eq y(2) by auto
    then show ?thesis using set[of ys y] c y(1) by (auto simp: settled_def comparable_def key_def)
  qed
  then show "set n = it_id ` (set ys - set xs)" using r(2) by blast
qed

lemma exchange_exact:
  assumes laws: "bound_law lib" "storage_law lib" and c: "comparable lib xs ys"
  shows "party True limit xs a \<Longrightarrow> party False limit ys b \<Longrightarrow> honest lib xs bottom_key ms \<Longrightarrow> length (frame ms) \<le> limit \<Longrightarrow>
    all_settled xs ys ms h n \<Longrightarrow> busy (all_keys xs ys) bottom_key ms \<Longrightarrow> 0 < weight True xs ys ms \<Longrightarrow>
    exchange lib (frame ms) a b h n = Inl round_limit \<and> (rounds_left a < weight True xs ys ms \<or> rounds_left b < weight True xs ys ms) \<or>
    (\<exists>h' n'. exchange lib (frame ms) a b h n = Inr (h', n') \<and> all_settled xs ys [] h' n')"
proof (induction "rounds_left b" arbitrary: ms a b h n rule: less_induct)
  case less
  note a = less.prems(1) and b = less.prems(2) and q = less.prems(3,4) and bz = less.prems(6,7)
  let ?w = "weight True xs ys"
  have xs: "items_ok xs" "length xs \<le> 1000000" and ys: "items_ok ys" "length ys \<le> 1000000"
    using c a b by (simp_all add: comparable_def party_def)
  obtain ngb new hb nb where rb: "reconcile_aux lib (frame ms) (ss_engine b) = (Inr (frame new, hb, nb), ngb)"
    "honest lib ys bottom_key new" "length (frame new) \<le> limit" "ng_storage ngb = ys" "\<not> ng_is_initiator ngb" "ng_frame_size_limit ngb = limit"
    "\<And>k. open_key bottom_key ms k \<Longrightarrow> \<not> open_key bottom_key new k \<Longrightarrow> settled False ys xs hb nb k"
    "busy (all_keys xs ys) bottom_key new" "follows False ys bottom_key ms new"
    using bz(1) answer_honest[OF laws comparable_sym[OF c] b xs(2) q(1)] unfolding all_keys_sym[of ys xs] by blast
  obtain nga new' ha na where ra: "reconcile_aux lib (frame new) (ss_engine a) = (Inr (frame new', ha, na), nga)" "reports True xs ys ha na"
    "honest lib xs bottom_key new'" "length (frame new') \<le> limit" "ng_storage nga = xs" "ng_is_initiator nga" "ng_frame_size_limit nga = limit"
    "\<And>k. open_key bottom_key new k \<Longrightarrow> \<not> open_key bottom_key new' k \<Longrightarrow> settled True xs ys ha na k"
    "busy (all_keys xs ys) bottom_key new'" "follows True xs bottom_key new new'"
    using answer_honest[OF laws c a ys(2) rb(2)] rb(8) by blast
  have light: "weight False xs ys new < ?w ms \<and> 0 < weight False xs ys new" if "new \<noteq> []"
    using weight_less[OF rb(9) that q(1) rb(2)] bz(1) rb(8) unfolding all_keys_sym[of xs ys] weight_sym[of _ ys xs] by simp
  have lighter: "?w new' < weight False xs ys new \<and> 0 < ?w new' \<and> new \<noteq> []" if "new' \<noteq> []"
    using weight_less[OF ra(10) that rb(2) ra(3) rb(8) ra(9)] ra(10) that by (auto simp: follows_def)
  have set: "all_settled xs ys new' (h @ ha) (n @ na)"
  proof -
    have "settled True xs ys (h @ ha) (n @ na) k" if "bottom_key \<le> k" "k < top_key" "\<not> open_key bottom_key new' k" for k
    proof (cases "open_key bottom_key new k")
      case True
      then show ?thesis using ra(8)[of k] that(3) by (intro settled_append) blast
    next
      case False
      show ?thesis
      proof (cases "open_key bottom_key ms k")
        case True
        then show ?thesis using rb(7)[of k] False settled_sym by blast
      next
        case old: False
        then have "settled True xs ys h n k" using all_settledD[OF less.prems(5)] that by blast
        then show ?thesis by (rule settled_mono)
      qed
    qed
    then show ?thesis using reports_append[OF _ ra(2), of h n] less.prems(5) by (auto simp: all_settled_def)
  qed
  have acc_b: "accept (frame ms) b = (Inl round_limit, b) \<and> rounds_left b = 0 \<or>
      accept (frame ms) b = (Inr (), b\<lparr>ss_rounds := ss_rounds b + 1\<rparr>) \<and> 0 < rounds_left b"
    by (rule accept_honest[OF laws(2) b xs q])
  have acc_a: "accept (frame new) a = (Inl round_limit, a) \<and> rounds_left a = 0 \<or>
      accept (frame new) a = (Inr (), a\<lparr>ss_rounds := ss_rounds a + 1\<rparr>) \<and> 0 < rounds_left a"
    by (rule accept_honest[OF laws(2) a ys rb(2,3)])
  let ?b = "b\<lparr>ss_rounds := ss_rounds b + 1, ss_engine := ngb\<rparr>"
  let ?fin = "new' = []"
  let ?a = "a\<lparr>ss_rounds := ss_rounds a + 1, ss_engine := nga, ss_finished := ?fin\<rparr>"
  have resp: "respond lib (frame ms) b = (Inl round_limit, b) \<and> rounds_left b = 0 \<or>
      respond lib (frame ms) b = (Inr (frame new), ?b) \<and> 0 < rounds_left b"
    using acc_b rb(1) b by (auto simp: respond_def ng_reconcile_def party_def)
  have rec: "reconcile lib (frame new) a = (Inl round_limit, a) \<and> rounds_left a = 0 \<or>
      reconcile lib (frame new) a = (Inr \<lparr>st_next = (if ?fin then None else Some (frame new')), st_have = ha, st_need = na\<rparr>, ?a) \<and>
      0 < rounds_left a"
    using acc_a ra(1) a frame_length_1[of new'] by (auto simp: reconcile_def ng_reconcile_with_ids_def party_def)
  show ?case
  proof (cases "respond lib (frame ms) b = (Inr (frame new), ?b) \<and> \<not> reconcile lib (frame new) a = (Inl round_limit, a)")
    case False
    then have "exchange lib (frame ms) a b h n = Inl round_limit" using resp by (subst exchange.simps) auto
    moreover have "rounds_left a = 0 \<or> rounds_left b = 0" using False resp rec by auto
    ultimately show ?thesis using bz(2) by auto
  next
    case True
    then have step: "exchange lib (frame ms) a b h n =
        (if ?fin then Inr (h @ ha, n @ na) else exchange lib (frame new') ?a ?b (h @ ha) (n @ na))"
      using rec by (subst exchange.simps) auto
    show ?thesis
    proof (cases ?fin)
      case True
      then show ?thesis using step set by simp
    next
      case False
      have m: "rounds_left ?b < rounds_left b" using respond_rounds[of lib "frame ms" b] True by auto
      have fewer: "?w ms \<le> rounds_left a \<Longrightarrow> ?w new' \<le> rounds_left ?a" "?w ms \<le> rounds_left b \<Longrightarrow> ?w new' \<le> rounds_left ?b"
        and pos: "0 < ?w new'" using lighter[OF False] light by auto
      have "party True limit xs ?a" "party False limit ys ?b"
        using a b ra(5-7) rb(4-6) False xs(1) ys(1) by (simp_all add: party_def engine_ok_def)
      from less.hyps[OF m this ra(3,4) set ra(9) pos] show ?thesis using step False fewer not_le by (auto simp: not_le[symmetric])
    qed
  qed
qed

text \<open>
  C6: reconciliation ends with exactly the differences. Two sessions over any two collections of records, with the same frame size, the same timestamp for
  an identifier on both sides and fingerprints that do not collide on the ranges of the two snapshots, exchange frames until the initiator stops. No call fails and no
  frame is refused, unless the limit on rounds is reached, which is an explicit error and cannot happen when both sides allow more than
  \<open>(n + 2) * (n + 3)\<close> rounds for \<open>n\<close> records in both windows together: every answer lowers a measure, so the conversation cannot
  go on forever. When the initiator stops, the identifiers it has reported as held here only are exactly those of its records in the window that the other side lacks, and
  those reported as needed are exactly the other side's records in the window that it lacks, however the frame limit has cut the messages.
\<close>

theorem reconcile_exact:
  assumes laws: "neg_laws lib" and rec: "records_ok recs_a" "records_ok recs_b"
    and a: "session_new lib recs_a fa lim_a = Inr a" and b: "session_new lib recs_b fb lim_b = Inr b"
    and size: "lm_max_frame_bytes lim_a = lm_max_frame_bytes lim_b"
    and ids: "\<forall>x\<in>window fa recs_a. \<forall>y\<in>window fb recs_b. it_id x = it_id y \<longrightarrow> x = y"
    and coll: "collision_free lib (ng_storage (ss_engine a)) (ng_storage (ss_engine b))"
    and n: "n = card (window fa recs_a) + card (window fb recs_b)"
  shows "\<exists>query a'. initiate lib a = (Inr query, a') \<and>
    (exchange lib query a' b [] [] = Inl round_limit \<and> min (lm_max_rounds lim_a) (lm_max_rounds lim_b) \<le> (n + 2) * (n + 3) \<or>
     (\<exists>have_ids need_ids. exchange lib query a' b [] [] = Inr (have_ids, need_ids) \<and>
        set have_ids = it_id ` (window fa recs_a - window fb recs_b) \<and>
        set need_ids = it_id ` (window fb recs_b - window fa recs_a)))"
proof -
  note na = session_new_ok[OF laws rec(1) a] and nb = session_new_ok[OF laws rec(2) b]
  let ?xs = "ng_storage (ss_engine a)" and ?ys = "ng_storage (ss_engine b)" and ?l = "lm_max_frame_bytes lim_b"
  have law: "bound_law lib" "storage_law lib" using laws by (simp_all add: neg_laws_def)
  have c: "comparable lib ?xs ?ys" using na(1,2) nb(1,2) ids coll by (simp add: comparable_def)
  obtain ng ms where i: "ng_initiate lib (ss_engine a) = (Inr (frame ms), ng)" "honest lib ?xs bottom_key ms"
    "ng_storage ng = ?xs" "ng_is_initiator ng" "ng_frame_size_limit ng = ?l" "\<And>k. bottom_key \<le> k \<Longrightarrow> k < top_key \<Longrightarrow> open_key bottom_key ms k"
    "busy (all_keys ?xs ?ys) bottom_key ms"
    using initiate_honest[OF law na(1,9,10), where ys = ?ys] na(4) size by auto
  have rounds: "\<not> ss_rounds a \<ge> lm_max_rounds (ss_limits a)"
    using a na(6,7) by (auto simp: session_new_def split: if_splits)
  let ?a = "a\<lparr>ss_rounds := ss_rounds a + 1, ss_engine := ng\<rparr>"
  have init: "initiate lib a = (Inr (frame ms), ?a)"
    using i(1) rounds na(8) by (simp add: initiate_def tick_def)
  have len: "length (frame ms) \<le> ?l"
    using initiate_length[OF law _ i(1)] na(1,4,5) size by (simp add: engine_ok_def)
  have "party True ?l ?xs ?a" "party False ?l ?ys b"
    using na nb i(3-5) size by (simp_all add: party_def engine_ok_def)
  moreover have "all_settled ?xs ?ys ms [] []" using i(6) unfolding all_settled_def by auto
  moreover have pos: "0 < weight True ?xs ?ys ms" using first_open_open[OF i(6)[OF order_refl bottom_below_top]] by (auto simp: weight_def)
  ultimately have ex: "exchange lib (frame ms) ?a b [] [] = Inl round_limit \<and>
        (rounds_left ?a < weight True ?xs ?ys ms \<or> rounds_left b < weight True ?xs ?ys ms) \<or>
      (\<exists>h n. exchange lib (frame ms) ?a b [] [] = Inr (h, n) \<and> all_settled ?xs ?ys [] h n)"
    using exchange_exact[OF law c _ _ i(2) len] i(7) by blast
  have "length ?xs + length ?ys = n" using na(1,2) nb(1,2) by (simp add: n items_length)
  then have "min (lm_max_rounds lim_a) (lm_max_rounds lim_b) \<le> (n + 2) * (n + 3)"
    if "rounds_left ?a < weight True ?xs ?ys ms \<or> rounds_left b < weight True ?xs ?ys ms"
    using that weight_bound[of True ?xs ?ys ms] na(6,7) nb(6,7) by auto
  then show ?thesis using ex init exact_differences[OF c] na(2) nb(2) by auto
qed

end
