(* ===== verification/Reconcile_Demo.thy ===== *)
theory Reconcile_Demo
  imports Reconcile_Exchange
begin

text \<open>
  A small instance of the negentropy crate that satisfies the laws, with additive fingerprints as in the protocol but without a hash,
  and two sessions on which the theorems about sessions are applied.
\<close>

section \<open>The library\<close>

definition demo_fp :: "item list \<Rightarrow> bytes" where
  "demo_fp xs = map (\<lambda>i. fold (\<lambda>x acc. acc + it_id x ! i) xs (of_nat (length xs))) [0..<FINGERPRINT_SIZE]"

definition demo_neg :: neg_lib where
  "demo_neg = \<lparr>
     item_with_timestamp = (\<lambda>t. \<lparr>it_timestamp = t, it_id = zeros ID_SIZE\<rparr>),
     bound_new = \<lparr>bd_item = \<lparr>it_timestamp = 0, it_id = zeros ID_SIZE\<rparr>, bd_id_len = 0\<rparr>,
     bound_with_timestamp = (\<lambda>t. \<lparr>bd_item = \<lparr>it_timestamp = t, it_id = zeros ID_SIZE\<rparr>, bd_id_len = 0\<rparr>),
     bound_with_timestamp_and_id = (\<lambda>t i. if length i \<le> ID_SIZE
       then Inr \<lparr>bd_item = \<lparr>it_timestamp = t, it_id = i @ zeros (ID_SIZE - length i)\<rparr>, bd_id_len = length i\<rparr> else Inl BadRange),
     bound_from_item = (\<lambda>x. \<lparr>bd_item = x, bd_id_len = ID_SIZE\<rparr>),
     storage_iterate = (\<lambda>xs l u. if l \<le> u \<and> u \<le> length xs then Inr (zip (portion xs l u) [l..<u]) else Inl BadRange),
     storage_lower_bound = (\<lambda>xs l u b. l + length (takeWhile (\<lambda>x. key x < bkey b) (take (u - l) (drop l xs)))),
     storage_fingerprint = (\<lambda>xs l u. if l \<le> u \<and> u \<le> length xs then Inr (demo_fp (portion xs l u)) else Inl BadRange),
     storage_seal = (\<lambda>xs. Inr (sort_key key xs))\<rparr>"

lemma demo_neg_fp: "fp demo_neg xs = demo_fp xs"
  by (simp add: fp_def demo_neg_def portion_def)

lemma demo_neg_laws: "neg_laws demo_neg"
proof -
  have "bound_law demo_neg" by (simp add: bound_law_def demo_neg_def)
  moreover have "storage_law demo_neg"
    unfolding storage_law_def demo_neg_fp by (simp add: demo_neg_def demo_fp_def)
  moreover have "seal_law demo_neg"
    unfolding seal_law_def
  proof (intro allI impI exI conjI)
    fix xs :: "item list"
    assume "distinct (map it_id xs)"
    then have "distinct xs" "inj_on it_id (set xs)" by (simp_all add: distinct_map)
    then have "distinct (map key xs)" by (auto simp: distinct_map inj_on_def key_def)
    then have "distinct (map key (sort_key key xs))" by (simp add: distinct_map)
    then show "sorted_wrt (<) (map key (sort_key key xs))" by (simp add: strict_sorted_iff)
    show "storage_seal demo_neg xs = Inr (sort_key key xs)" by (simp add: demo_neg_def)
  qed simp
  ultimately show ?thesis by (simp add: neg_laws_def)
qed

section \<open>Two sessions\<close>

definition demo_record :: "u64 \<Rightarrow> u8 \<Rightarrow> rec_record" where
  "demo_record t i = \<lparr>rec_timestamp = t, rec_id = replicate ID_SIZE i\<rparr>"

abbreviation demo_window :: rec_filter where
  "demo_window \<equiv> \<lparr>rf_since = 100, rf_until = 200\<rparr>"

definition demo_recs_a :: "rec_record list" where
  "demo_recs_a = [demo_record 99 1, demo_record 100 2, demo_record 150 7]"

definition demo_recs_b :: "rec_record list" where
  "demo_recs_b = [demo_record 150 7, demo_record 200 3]"

definition demo_session :: "rec_record list \<Rightarrow> session" where
  "demo_session recs = \<lparr>ss_engine = \<lparr>ng_storage = map item_of (filter (\<lambda>r. rf_contains demo_window (rec_timestamp r)) recs),
     ng_frame_size_limit = 16384, ng_is_initiator = False, ng_last_timestamp_in = 0, ng_last_timestamp_out = 0\<rparr>,
     ss_limits = limits_default, ss_rounds = 0, ss_finished = False\<rparr>"

lemmas demo_defs = demo_recs_a_def demo_recs_b_def demo_record_def demo_session_def limits_default_def rf_contains_def item_of_def

lemma demo_session_new:
  "session_new demo_neg demo_recs_a demo_window limits_default = Inr (demo_session demo_recs_a)"
  "session_new demo_neg demo_recs_b demo_window limits_default = Inr (demo_session demo_recs_b)"
  by (simp_all add: session_new_def ng_new_def demo_neg_def demo_defs key_def)

lemma demo_records_ok: "records_ok demo_recs_a" "records_ok demo_recs_b"
  by (simp_all add: records_ok_def demo_defs)

lemma demo_windows:
  "window demo_window demo_recs_a = item_of ` {demo_record 100 2, demo_record 150 7}"
  "window demo_window demo_recs_b = item_of ` {demo_record 150 7, demo_record 200 3}"
  unfolding window_def by (auto simp: demo_recs_a_def demo_recs_b_def demo_record_def rf_contains_def)

text \<open>The first byte of the fingerprint tells the ranges of the two snapshots apart.\<close>

lemma demo_fp_hd: "hd (demo_fp xs) = fold (\<lambda>x acc. acc + it_id x ! 0) xs (of_nat (length xs))"
  by (simp add: demo_fp_def upt_conv_Cons)

lemma demo_collision_free:
  "collision_free demo_neg (ng_storage (ss_engine (demo_session demo_recs_a))) (ng_storage (ss_engine (demo_session demo_recs_b)))"
proof -
  let ?x = "item_of (demo_record 100 2)" and ?y = "item_of (demo_record 150 7)" and ?z = "item_of (demo_record 200 3)"
  have s: "ng_storage (ss_engine (demo_session demo_recs_a)) = [?x, ?y]" "ng_storage (ss_engine (demo_session demo_recs_b)) = [?y, ?z]"
    by (simp_all add: demo_defs)
  have "within lo hi [?x, ?y] = within lo hi [?y, ?z]" if "demo_fp (within lo hi [?x, ?y]) = demo_fp (within lo hi [?y, ?z])" for lo hi
  proof -
    have "hd (demo_fp (within lo hi [?x, ?y])) = hd (demo_fp (within lo hi [?y, ?z]))" using that by simp
    then show ?thesis unfolding demo_fp_hd within_def by (auto simp: demo_record_def item_of_def split: if_splits)
  qed
  then show ?thesis unfolding collision_free_def demo_neg_fp s by blast
qed

theorem session_survives_witness:
  "\<exists>rs s'. session_calls demo_neg [CallRespond [97], CallInitiate, CallReconcile [0], CallInitiate] (demo_session demo_recs_a) = (rs, s') \<and>
     (\<forall>r\<in>set rs. answer_ok limits_default r) \<and> successes rs \<le> 256 \<and>
     set (ng_storage (ss_engine s')) = window demo_window demo_recs_a"
proof -
  obtain rs s' where c: "session_calls demo_neg [CallRespond [97], CallInitiate, CallReconcile [0], CallInitiate] (demo_session demo_recs_a) = (rs, s')"
    by fastforce
  from session_survives[OF demo_neg_laws demo_records_ok(1) demo_session_new(1) c] show ?thesis
    using c by (simp add: limits_default_def)
qed

theorem reconcile_exact_witness:
  "\<exists>query a' have_ids need_ids. initiate demo_neg (demo_session demo_recs_a) = (Inr query, a') \<and>
     exchange demo_neg query a' (demo_session demo_recs_b) [] [] = Inr (have_ids, need_ids) \<and>
     set have_ids = {replicate ID_SIZE 2} \<and> set need_ids = {replicate ID_SIZE 3}"
proof -
  let ?x = "item_of (demo_record 100 2)" and ?y = "item_of (demo_record 150 7)" and ?z = "item_of (demo_record 200 3)"
  have d: "?x \<noteq> ?y" "?x \<noteq> ?z" "?y \<noteq> ?z" by (simp_all add: item_of_def demo_record_def)
  have ids: "\<forall>x\<in>window demo_window demo_recs_a. \<forall>y\<in>window demo_window demo_recs_b. it_id x = it_id y \<longrightarrow> x = y"
    unfolding demo_windows by (simp add: item_of_def demo_record_def)
  have diff: "it_id ` (window demo_window demo_recs_a - window demo_window demo_recs_b) = {replicate ID_SIZE 2}"
    "it_id ` (window demo_window demo_recs_b - window demo_window demo_recs_a) = {replicate ID_SIZE 3}"
    unfolding demo_windows using d by (auto simp: insert_Diff_if) (simp_all add: item_of_def demo_record_def)
  have n: "card (window demo_window demo_recs_a) + card (window demo_window demo_recs_b) = 4" using d unfolding demo_windows by simp
  from reconcile_exact[OF demo_neg_laws demo_records_ok demo_session_new refl ids demo_collision_free n[symmetric]] show ?thesis
    unfolding diff by (auto simp: limits_default_def)
qed

end
