(* ===== verification/Spec2Isabelle.thy ===== *)
theory Spec2Isabelle
  imports Mesh_Demo Subscription_Store Bus_Demo Pagination Stream_Demo Client_Demo Reconcile_Demo
begin

text \<open>
  A verification development for \<open>nostr-pubsub\<close>, a Rust library for publishing, querying and relaying signed Nostr
  events between peers. Paths below are relative to \<open>src/crates/\<close>.

  \<^bold>\<open>The program.\<close> The crate \<open>nostr-pubsub\<close> is the network-neutral core. Its centre is the state machine
  \<open>InvWantMesh\<close>: a node announces an event by an \<open>Inventory\<close>, a peer that lacks it answers with a \<open>Want\<close>, and the
  node sends the event in a \<open>Frame\<close>. Around it stand the bounded store of peer subscriptions, the store of
  retained events and the two buses built on it, the router that spreads publications, queries and live
  subscriptions over several sources, the history cursor, and the wire codec of the FIPS transport.
  The crate \<open>nostr-pubsub-fips\<close> attaches the core to the peers of a FIPS endpoint, twice: as a record stream between two meshes, and as a
  client that serves subscriptions to an application under a privacy role. The crate \<open>nostr-pubsub-reconcile\<close> finds the differences of two sets of
  events. The remaining crates attach the core to relays, to a social graph and to a simulator.

  \<^bold>\<open>Theories.\<close>

  \<^item> \<open>Prelude\<close>: words and saturating arithmetic, \<open>HashMap\<close>, \<open>BTreeMap\<close> and \<open>BTreeSet\<close> as association and
    sorted lists, and the locale \<open>fifo_window\<close> of a bounded window of recent keys.
  \<^item> \<open>Events\<close>: \<open>nostr-pubsub/src/lib.rs\<close>, the core types, policies and the cache of verified identifiers.
    The crates \<open>nostr\<close> and \<open>serde_json\<close> are the parameter \<open>nostr_lib\<close>; \<open>nostr_laws\<close> states what is
    relied on (hexadecimal identifiers, verification covers the identifier, equal identifiers of
    verified events name equal events), and \<open>Nostr_Instance\<close> shows that the laws can hold.
  \<^item> \<open>Mesh_Peers\<close>: \<open>select_mesh_peers\<close> of \<open>mesh.rs\<close>.
  \<^item> \<open>Mesh\<close>: the state and every operation of \<open>InvWantMesh\<close> (\<open>mesh.rs\<close>, \<open>mesh_resources.rs\<close>,
    \<open>mesh_verified.rs\<close>). \<open>Mesh_Frame\<close> says which fields an operation leaves alone; \<open>Mesh_Resources\<close>,
    \<open>Mesh_Invariant\<close> and \<open>Mesh_Routes\<close> prove the invariant of the state operation by operation;
    \<open>Mesh_Protocol\<close> has the step relation (every public operation with a clock that does not go back, and a
    step that reorders hash maps) and what holds of reachable states; \<open>Mesh_Exchange\<close> the three-message
    exchange; \<open>Mesh_History\<close> the log of messages and what each of them presupposes; \<open>Mesh_Demo\<close> a concrete run.
  \<^item> \<open>Inv_Want\<close>: the envelope codec of \<open>mesh.rs\<close> and the stream messages of \<open>inv_want.rs\<close>.
  \<^item> \<open>Subscriptions\<close>, \<open>Subscription_Inv\<close>, \<open>Subscription_Store\<close>: \<open>subscriptions.rs\<close>, with its limits, eviction
    and running measurements. An \<open>expect\<close> or a subtraction that would panic is \<open>None\<close>, and never happens.
  \<^item> \<open>Retained\<close>, \<open>Retained_Inv\<close>, \<open>Retained_Store\<close>, \<open>Retained_Merge\<close>: \<open>retained.rs\<close>, with its invariant, the
    snapshot round trip, queries against a reference, and the refinement of the last-writer-wins merge.
  \<^item> \<open>Event_Bus\<close> states the trait \<open>EventBus\<close> as a locale; \<open>Memory_Bus\<close> (\<open>memory.rs\<close>) and \<open>File_Bus\<close>
    (\<open>file_store.rs\<close>) interpret it. The file system has an outcome for each operation and keeps apart what is written and what is flushed; a commit is the
    sequence of its operations, and a stop may fall between any two of them. \<open>Bus_Demo\<close> has the instances.
  \<^item> \<open>Routes\<close>, \<open>Routes_Query\<close> (\<open>routes.rs\<close>), \<open>Router\<close> (\<open>router.rs\<close>), \<open>Live_Routes\<close> (\<open>live_routes.rs\<close>).
  \<^item> \<open>Pagination\<close>: \<open>pagination.rs\<close>.
  \<^item> \<open>Wire\<close>: \<open>wire.rs\<close>, the codec and adapter of the FIPS transport; JSON texts are the parameter \<open>wire_lib\<close>.
  \<^item> \<open>Records\<close>, \<open>Inv_Want_Stream\<close>, \<open>Stream_Mesh\<close>, \<open>Stream_Demo\<close>: \<open>nostr-pubsub-fips/src/stream.rs\<close>, length-prefixed records
    and the endpoint that runs a mesh over them.
  \<^item> \<open>Provider_Behavior\<close>, \<open>Local_Delivery\<close>, \<open>Pending_Wants\<close>, \<open>Seen_Ids\<close>, \<open>Recent_Events\<close>: the parts of the client's state, each
    the file of the same name under \<open>nostr-pubsub-fips/src/\<close>; \<open>Privacy_Roles\<close> (\<open>privacy_roles.rs\<close>) and \<open>Client_Peers\<close>
    (\<open>client_peers.rs\<close> and the options of \<open>lib.rs\<close>) what a client may send and to whom.
  \<^item> \<open>Fips_Client\<close>: the state \<open>ClientInner\<close> and its handlers (\<open>client_inner.rs\<close>, \<open>client_received_event.rs\<close>, \<open>anonymous_publication.rs\<close>);
    \<open>Client_Calls\<close>: the calls of the application and of the background tasks (\<open>lib.rs\<close>, \<open>client_publication.rs\<close>, \<open>replay_source.rs\<close>,
    \<open>client_transport.rs\<close>, \<open>client_lifecycle.rs\<close>), and the transition system over all of them. \<open>Client_Safety\<close> proves its invariant handler by
    handler, \<open>Client_Runs\<close> the safety of runs, \<open>Client_Total\<close> that no run panics or exceeds a limit; \<open>Client_Demo\<close> is a concrete run.
  \<^item> \<open>Negentropy_Codec\<close>, \<open>Negentropy\<close>: \<open>nostr-pubsub-reconcile/src/codec.rs\<close> and \<open>engine.rs\<close>; \<open>Negentropy_Ranges\<close>, \<open>Negentropy_Honest\<close>,
    \<open>Negentropy_Sizes\<close>, \<open>Negentropy_Loop\<close> and \<open>Negentropy_Progress\<close> prove what one message does, that honest messages are understood, how long they
    are, and that every round makes progress. \<open>Reconcile_Session\<close> (\<open>validation.rs\<close>, \<open>lib.rs\<close>) checks untrusted frames; \<open>Reconcile_Frames\<close>,
    \<open>Reconcile_Robust\<close> and \<open>Reconcile_Exchange\<close> compose two sessions; \<open>Reconcile_Demo\<close> runs them.

  \<^bold>\<open>Results.\<close> For the mesh: an event is handed to the application only if it verifies and was requested from the
  peer that sent it; frames go only to peers that asked; what is announced in answer to a frame loses a hop, and only publications
  and replays start at the maximum; a request is answered, parked until the event arrives, or ignored; the exchange delivers;
  the retained state stays within the limits of the options; errors are charged to their sender and
  change nothing else. For the stores: limits, exact accounting, no panics, durability of acknowledged
  publications across stops at any operation, convergence. For routing: failover, provenance, completeness of reports (with the limit zero asked of nobody), all-or-nothing
  subscription, no duplicate and no lost live event. For paging: completeness at exhaustion and termination. For the
  wire: the exact condition under which a written frame is read back (the encoder also writes frames that the decoder refuses), and that only verified and well-formed messages pass. For streams: framing is independent of how bytes are
  cut, and a stream endpoint refines the mesh. For the client: whatever frames arrive and however calls interleave with them, an application reads
  only admitted, verified events that match its filters, the queue to the transport holds only frames the privacy role allows, requests are
  solicited and expire, and, for options within the capacity limit of \<open>tokio\<close>'s channels, nothing panics and every queue is bounded. For reconciliation: two honest sessions end with exactly the two differences, and no frame
  makes a session panic or exceed its budget.

  \<^bold>\<open>Modelling.\<close> Machine integers are words at their width; \<open>usize\<close> counts elements in memory and is
  \<open>nat\<close>. A Rust \<open>Result\<close> is a sum with the error on the left, a formatted error message is the constant text of its
  format string, and a panic is \<open>None\<close>. Loops are structural recursion or functions with a measure, so nothing needs
  fuel. Hash maps are association lists whose order the mesh's step relation may permute. Asynchronous calls that
  run under one lock are single steps; the concurrent join of \<open>routes.rs\<close> is modelled with arbitrary polling delays.

  In the client each handler is one step: a handler that awaits a policy or an event store in the middle may interleave with others in the program, and
  the policies may therefore answer differently at every step. A lock is never poisoned, since no handler panics.
  The peers' streams appear as steps: a new connection, which resets the state of the peer, an inbound stream adopted as an outgoing one, which does not, and the end
  of a connection. \<open>tokio\<close>'s bounded channels are queues with a capacity; making one panics on the capacity zero and above \<open>Semaphore::MAX_PERMITS\<close>.

  \<^bold>\<open>Not modelled.\<close> The select loop and the TCP drivers of \<open>nostr-pubsub-fips\<close> (\<open>client_transport.rs\<close>, \<open>wire_tcp.rs\<close>, \<open>stream_tcp.rs\<close>), which move bytes between
  sockets and the operations modelled here; its peer advertisements and ratings, and the relay client of \<open>nostr-pubsub-relay\<close>,
  which wrap third-party crates; \<open>nostr-pubsub-social-graph\<close>, whose decisions are those of a graph crate outside the repository; and the simulator
  \<open>nostr-pubsub-sim\<close>, an experiment driver on floating-point statistics that no other crate uses.
\<close>

end
